(* ===== verification/Prelude.thy ===== *)
theory Prelude
  imports Main "HOL-Library.Word" "HOL-Library.Monad_Syntax"
begin

text \<open>
  Shared material of the development: the machine integers of the Rust sources, the
  result types of fallible and of possibly non-returning code, the loops the sources
  use, and the lemmas on lists the component theories share.

  Conventions.
  \<^item> A function whose Rust counterpart may panic or loop for ever returns an
    \<open>option\<close>: \<open>None\<close> says that the call does not return. The kernel's panic
    handler (\<open>mielin-kernel/src/lib.rs\<close>, \<open>panic\<close>) spins for ever, so a panic and
    a divergence are the same observation.
  \<^item> \<open>Result<T, E>\<close> is the sum \<open>'e + 't\<close>, with \<open>Err\<close> for \<open>Inl\<close>
    and \<open>Ok\<close> for \<open>Inr\<close>.
  \<^item> Counters of the sources that are only added to (\<open>AtomicU64\<close> and friends) are
    machine words, so that \<open>+\<close> wraps as \<open>fetch_add\<close> does. Indices and sizes are
    natural numbers, with the wrap-around written out by the functions below wherever
    the source computes with them.
\<close>

section \<open>Integers\<close>

type_synonym u8 = "8 word"
type_synonym u16 = "16 word"
type_synonym u32 = "32 word"
type_synonym u64 = "64 word"

abbreviation USIZE_MOD :: nat where
  "USIZE_MOD \<equiv> 18446744073709551616"

abbreviation U32_MOD :: nat where
  "U32_MOD \<equiv> 4294967296"

definition as_u32 :: "nat \<Rightarrow> nat" where
  "as_u32 n = n mod U32_MOD"

definition as_u16 :: "nat \<Rightarrow> nat" where
  "as_u16 n = n mod 65536"

definition as_u8 :: "nat \<Rightarrow> nat" where
  "as_u8 n = n mod 256"

definition u32_add :: "nat \<Rightarrow> nat \<Rightarrow> nat" where
  "u32_add a b = (a + b) mod U32_MOD"

definition u32_sub :: "nat \<Rightarrow> nat \<Rightarrow> nat" where
  "u32_sub a b = (a + U32_MOD - b) mod U32_MOD"

definition usize_add :: "nat \<Rightarrow> nat \<Rightarrow> nat" where
  "usize_add a b = (a + b) mod USIZE_MOD"

definition usize_sub :: "nat \<Rightarrow> nat \<Rightarrow> nat" where
  "usize_sub a b = (a + USIZE_MOD - b) mod USIZE_MOD"

definition usize_mul :: "nat \<Rightarrow> nat \<Rightarrow> nat" where
  "usize_mul a b = (a * b) mod USIZE_MOD"

definition usize_checked_add :: "nat \<Rightarrow> nat \<Rightarrow> nat option" where
  "usize_checked_add a b = (if a + b < USIZE_MOD then Some (a + b) else None)"

text \<open>
  Where the exact result fits the type, the machine operation is the exact one. The
  collection \<open>no_wrap\<close> holds these conditional equations; the component proofs
  discharge their side conditions from the component's invariant.
\<close>

named_theorems no_wrap \<open>machine arithmetic that does not leave its type\<close>

lemma as_u32_id [no_wrap]: "n < U32_MOD \<Longrightarrow> as_u32 n = n"
  by (simp add: as_u32_def)

lemma as_u16_id [no_wrap]: "n < 65536 \<Longrightarrow> as_u16 n = n"
  by (simp add: as_u16_def)

lemma as_u8_id [no_wrap]: "n < 256 \<Longrightarrow> as_u8 n = n"
  by (simp add: as_u8_def)

lemma u32_add_exact [no_wrap]: "a + b < U32_MOD \<Longrightarrow> u32_add a b = a + b"
  by (simp add: u32_add_def)

lemma u32_sub_exact [no_wrap]: "b \<le> a \<Longrightarrow> a < U32_MOD \<Longrightarrow> u32_sub a b = a - b"
proof -
  assume "b \<le> a" and "a < U32_MOD"
  then have "a + U32_MOD - b = (a - b) + U32_MOD" and "a - b < U32_MOD" by auto
  then show ?thesis unfolding u32_sub_def by (simp only: mod_add_self2) simp
qed

lemma usize_add_exact [no_wrap]: "a + b < USIZE_MOD \<Longrightarrow> usize_add a b = a + b"
  by (simp add: usize_add_def)

lemma usize_sub_exact [no_wrap]: "b \<le> a \<Longrightarrow> a < USIZE_MOD \<Longrightarrow> usize_sub a b = a - b"
proof -
  assume "b \<le> a" and "a < USIZE_MOD"
  then have "a + USIZE_MOD - b = (a - b) + USIZE_MOD" and "a - b < USIZE_MOD" by auto
  then show ?thesis unfolding usize_sub_def by (simp only: mod_add_self2) simp
qed

lemma usize_mul_exact [no_wrap]: "a * b < USIZE_MOD \<Longrightarrow> usize_mul a b = a * b"
  by (simp add: usize_mul_def)

lemma usize_add_bound [simp]: "usize_add a b < USIZE_MOD"
  by (simp add: usize_add_def)

lemma usize_checked_add_Some_iff [simp]:
  "usize_checked_add a b = Some c \<longleftrightarrow> c = a + b \<and> a + b < USIZE_MOD"
  by (auto simp: usize_checked_add_def)

section \<open>Results\<close>

abbreviation Ok :: "'t \<Rightarrow> 'e + 't" where
  "Ok \<equiv> Inr"

abbreviation Err :: "'e \<Rightarrow> 'e + 't" where
  "Err \<equiv> Inl"

fun is_ok :: "'e + 't \<Rightarrow> bool" where
  "is_ok (Inr _) = True"
| "is_ok (Inl _) = False"

section \<open>Arrays\<close>

text \<open>An index expression \<open>a[i]\<close> panics out of range.\<close>

definition arr_get :: "'a list \<Rightarrow> nat \<Rightarrow> 'a option" where
  "arr_get xs i = (if i < length xs then Some (xs ! i) else None)"

definition arr_set :: "'a list \<Rightarrow> nat \<Rightarrow> 'a \<Rightarrow> 'a list option" where
  "arr_set xs i v = (if i < length xs then Some (xs[i := v]) else None)"

lemma arr_get_in [simp]: "i < length xs \<Longrightarrow> arr_get xs i = Some (xs ! i)"
  by (simp add: arr_get_def)

lemma arr_get_out [simp]: "length xs \<le> i \<Longrightarrow> arr_get xs i = None"
  by (simp add: arr_get_def)

lemma arr_get_Some_iff: "arr_get xs i = Some v \<longleftrightarrow> i < length xs \<and> xs ! i = v"
  by (auto simp: arr_get_def)

lemma arr_set_in [simp]: "i < length xs \<Longrightarrow> arr_set xs i v = Some (xs[i := v])"
  by (simp add: arr_set_def)

section \<open>Loops\<close>

text \<open>\<open>for i in lo..hi { body }\<close>, where the body may not return.\<close>

function for_range :: "nat \<Rightarrow> nat \<Rightarrow> (nat \<Rightarrow> 's \<Rightarrow> 's option) \<Rightarrow> 's \<Rightarrow> 's option" where
  "for_range i n body s =
     (if i < n then Option.bind (body i s) (\<lambda>s'. for_range (Suc i) n body s') else Some s)"
  by pat_completeness auto
termination
  by (relation "measure (\<lambda>(i, n, body, s). n - i)") auto

declare for_range.simps [simp del]

lemma for_range_done [simp]: "n \<le> i \<Longrightarrow> for_range i n body s = Some s"
  by (simp add: for_range.simps [of i n body s])

lemma for_range_step:
  "i < n \<Longrightarrow> for_range i n body s = Option.bind (body i s) (for_range (Suc i) n body)"
  by (simp add: for_range.simps [of i n body s])

text \<open>
  The loop rule: an invariant that holds at the start and that every iteration keeps
  while returning gives a loop that returns, with the invariant at the end.
\<close>

lemma for_range_rule:
  assumes "i \<le> n" and "I i s"
    and "\<And>k s. i \<le> k \<Longrightarrow> k < n \<Longrightarrow> I k s \<Longrightarrow> \<exists>s'. body k s = Some s' \<and> I (Suc k) s'"
  shows "\<exists>s'. for_range i n body s = Some s' \<and> I n s'"
  using assms
proof (induction i n body s rule: for_range.induct)
  case (1 i n body s)
  show ?case
  proof (cases "i < n")
    case True
    with "1.prems" obtain s' where s': "body i s = Some s'" "I (Suc i) s'"
      by blast
    from True s' have "\<exists>t. for_range (Suc i) n body s' = Some t \<and> I n t"
      by (intro "1.IH") (auto intro: "1.prems"(3))
    with True s' show ?thesis by (simp add: for_range_step)
  next
    case False
    with "1.prems" show ?thesis by simp
  qed
qed

text \<open>
  \<open>for slot in xs.iter_mut() { if P(slot) { ...; return/break } }\<close> acts on the first
  slot that satisfies the test; \<open>first_index\<close> is that slot.
\<close>

fun first_index :: "('a \<Rightarrow> bool) \<Rightarrow> 'a list \<Rightarrow> nat option" where
  "first_index P [] = None"
| "first_index P (x # xs) = (if P x then Some 0 else map_option Suc (first_index P xs))"

lemma first_index_None_iff: "first_index P xs = None \<longleftrightarrow> (\<forall>x \<in> set xs. \<not> P x)"
  by (induction xs) auto

lemma first_index_SomeD:
  "first_index P xs = Some i \<Longrightarrow> i < length xs \<and> P (xs ! i) \<and> (\<forall>j < i. \<not> P (xs ! j))"
proof (induction xs arbitrary: i)
  case Nil
  then show ?case by simp
next
  case (Cons x xs)
  show ?case
  proof (cases "P x")
    case True
    with Cons.prems show ?thesis by simp
  next
    case False
    with Cons.prems obtain j where j: "first_index P xs = Some j" and i: "i = Suc j"
      by auto
    from Cons.IH [OF j] have "j < length xs" "P (xs ! j)" "\<forall>k<j. \<not> P (xs ! k)" by auto
    with False i show ?thesis by (auto simp: less_Suc_eq_0_disj)
  qed
qed

lemma first_index_Some_iff:
  "first_index P xs = Some i \<longleftrightarrow> i < length xs \<and> P (xs ! i) \<and> (\<forall>j < i. \<not> P (xs ! j))"
proof
  assume "i < length xs \<and> P (xs ! i) \<and> (\<forall>j < i. \<not> P (xs ! j))"
  moreover from this obtain k where k: "first_index P xs = Some k"
    by (cases "first_index P xs") (auto simp: first_index_None_iff)
  ultimately have "k = i"
    using first_index_SomeD [OF k] by (metis linorder_neqE_nat)
  with k show "first_index P xs = Some i" by simp
qed (rule first_index_SomeD)

text \<open>\<open>Iterator::min_by_key\<close> returns the first of the least elements.\<close>

fun min_by_key :: "('a \<Rightarrow> 'b :: linorder) \<Rightarrow> 'a list \<Rightarrow> 'a option" where
  "min_by_key f [] = None"
| "min_by_key f (x # xs) = (case min_by_key f xs of None \<Rightarrow> Some x | Some y \<Rightarrow> if f y < f x then Some y else Some x)"

lemma min_by_key_None [simp]: "min_by_key f xs = None \<longleftrightarrow> xs = []"
  by (cases xs) (auto split: option.splits)

lemma min_by_key_spec: "min_by_key f xs = Some x \<Longrightarrow> x \<in> set xs \<and> (\<forall>y \<in> set xs. f x \<le> f y)"
proof (induction xs arbitrary: x)
  case (Cons z zs)
  show ?case
  proof (cases "min_by_key f zs")
    case None
    then show ?thesis using Cons.prems by auto
  next
    case (Some a)
    then show ?thesis using Cons.prems Cons.IH [OF Some] by (auto split: if_splits intro: order_trans less_imp_le)
  qed
qed simp

section \<open>Lists\<close>

lemma set_update_in: "i < length xs \<Longrightarrow> y \<in> set (xs[i := v]) \<Longrightarrow> y = v \<or> y \<in> set xs"
  using set_update_subset_insert [of xs i v] by blast

lemma card_filter_upt: "card {p. p < n \<and> P p} = length (filter P [0..<n])"
proof -
  have "{p. p < n \<and> P p} = set (filter P [0..<n])" by auto
  then show ?thesis by (simp only: distinct_card distinct_filter distinct_upt)
qed

lemma length_filter_update:
  assumes "i < length xs"
  shows "length (filter P (xs[i := v])) + (if P (xs ! i) then 1 else 0) =
         length (filter P xs) + (if P v then 1 else 0)"
proof -
  have split: "xs = take i xs @ xs ! i # drop (Suc i) xs"
    using assms by (simp add: id_take_nth_drop)
  have upd: "xs[i := v] = take i xs @ v # drop (Suc i) xs"
    using assms by (simp add: upd_conv_take_nth_drop)
  have "length (filter P xs) =
      length (filter P (take i xs)) + (if P (xs ! i) then 1 else 0) + length (filter P (drop (Suc i) xs))"
    by (subst split) simp
  moreover have "length (filter P (xs[i := v])) =
      length (filter P (take i xs)) + (if P v then 1 else 0) + length (filter P (drop (Suc i) xs))"
    by (simp add: upd)
  ultimately show ?thesis by simp
qed

end
