(* ===== verification/Kernel_Error.thy ===== *)
theory Kernel_Error
  imports Prelude
begin

text \<open>
  The error type the kernel's memory manager and scheduler share
  (\<open>mielin-kernel/src/lib.rs\<close>, \<open>enum KernelError\<close>), constructor by constructor.
\<close>

datatype KernelError =
    MemoryInitFailed
  | SchedulerInitFailed
  | HardwareNotSupported
  | ZeroAllocation
  | AllocationTooLarge (requested: nat) (max_pages: nat)
  | AddressOutOfBounds (address: nat) (max_address: nat)
  | PageIndexOutOfBounds (index: nat) (max_index: nat)
  | DoubleFree (freed_address: nat)
  | OutOfMemory (wanted: nat) (available: nat)
  | InvalidPageCount
  | TaskSpawnFailed
  | TaskNotFound (task: nat)
  | SchedulerNotInitialized
  | MemoryNotInitialized

end
