(* ===== verification/Memory.thy ===== *)
theory Memory
  imports Kernel_Error
begin

text \<open>
  The page allocator, \<open>mielin-kernel/src/memory.rs\<close>.

  \<open>MemoryManager\<close> keeps one state per page and a singly linked list of free blocks;
  the list lives in the array \<open>free_blocks\<close>, whose entries hold the index of the next
  entry (\<open>INVALID_PAGE\<close> ends the list). The model keeps that representation: the
  walks over the list are \<open>partial_function\<close>s, because on an arbitrary array they may
  run into a cycle or out of the array, and the theorems show that on every state the
  manager can reach they return.

  The atomics of \<open>AllocationStats\<close> are only touched through \<open>&mut self\<close> under the
  global spin lock, so the compare-exchange loop that raises \<open>peak_pages\<close> is the
  maximum of the two values.
\<close>

section \<open>Data\<close>

definition PAGE_SIZE :: nat where "PAGE_SIZE = 4096"
definition MAX_PAGES :: nat where "MAX_PAGES = 1024"
definition INVALID_PAGE :: nat where "INVALID_PAGE = 4294967295"

datatype AllocationStrategy = FirstFit | BestFit | WorstFit

record AllocationStats =
  st_allocations :: u64
  st_deallocations :: u64
  st_failed_allocations :: u64
  st_pages_allocated :: u64
  st_pages_freed :: u64
  st_peak_pages :: u64
  st_current_pages :: u64
  st_coalesce_count :: u64
  st_multi_page_allocations :: u64

definition stats_new :: AllocationStats where
  "stats_new = \<lparr>st_allocations = 0, st_deallocations = 0, st_failed_allocations = 0,
     st_pages_allocated = 0, st_pages_freed = 0, st_peak_pages = 0, st_current_pages = 0,
     st_coalesce_count = 0, st_multi_page_allocations = 0\<rparr>"

definition record_allocation :: "AllocationStats \<Rightarrow> nat \<Rightarrow> AllocationStats" where
  "record_allocation s n =
     (let current = st_current_pages s + word_of_nat n;
          s1 = s\<lparr>st_allocations := st_allocations s + 1,
                 st_pages_allocated := st_pages_allocated s + word_of_nat n,
                 st_current_pages := current,
                 st_peak_pages := (if current > st_peak_pages s then current else st_peak_pages s)\<rparr>
      in if n > 1 then s1\<lparr>st_multi_page_allocations := st_multi_page_allocations s1 + 1\<rparr> else s1)"

definition record_deallocation :: "AllocationStats \<Rightarrow> nat \<Rightarrow> AllocationStats" where
  "record_deallocation s n =
     s\<lparr>st_deallocations := st_deallocations s + 1,
       st_pages_freed := st_pages_freed s + word_of_nat n,
       st_current_pages := st_current_pages s - word_of_nat n\<rparr>"

definition record_failure :: "AllocationStats \<Rightarrow> AllocationStats" where
  "record_failure s = s\<lparr>st_failed_allocations := st_failed_allocations s + 1\<rparr>"

definition record_coalesce :: "AllocationStats \<Rightarrow> AllocationStats" where
  "record_coalesce s = s\<lparr>st_coalesce_count := st_coalesce_count s + 1\<rparr>"

record FreeBlock =
  start_page :: nat
  page_count :: nat
  next_block :: nat

definition FreeBlock_new :: "nat \<Rightarrow> nat \<Rightarrow> FreeBlock" where
  "FreeBlock_new s c = \<lparr>start_page = s, page_count = c, next_block = INVALID_PAGE\<rparr>"

datatype PageState = Free | Allocated nat

record MemoryManager =
  pages :: "PageState list"
  free_blocks :: "FreeBlock list"
  free_list_head :: nat
  free_block_count :: nat
  single_free_head :: nat
  allocated_pages :: nat
  strategy :: AllocationStrategy
  stats :: AllocationStats

definition mm_new :: MemoryManager where
  "mm_new = \<lparr>pages = replicate MAX_PAGES Free,
     free_blocks = replicate MAX_PAGES (FreeBlock_new 0 0),
     free_list_head = 0, free_block_count = 1, single_free_head = 0,
     allocated_pages = 0, strategy = FirstFit, stats = stats_new\<rparr>"

definition mm_init :: "MemoryManager \<Rightarrow> MemoryManager" where
  "mm_init m = m\<lparr>free_blocks := (free_blocks m)[0 := FreeBlock_new 0 (as_u32 MAX_PAGES)],
     free_list_head := 0, free_block_count := 1, single_free_head := 0\<rparr>"

definition set_strategy :: "AllocationStrategy \<Rightarrow> MemoryManager \<Rightarrow> MemoryManager" where
  "set_strategy st m = m\<lparr>strategy := st\<rparr>"

definition mm_default :: MemoryManager where
  "mm_default = mm_init mm_new"

definition with_strategy :: "AllocationStrategy \<Rightarrow> MemoryManager" where
  "with_strategy st = set_strategy st (mm_init mm_new)"

definition free_page_count :: "MemoryManager \<Rightarrow> nat" where
  "free_page_count m = usize_sub MAX_PAGES (allocated_pages m)"

section \<open>Operations\<close>

text \<open>\<open>find_free_block\<close>: the walk over the free list, with the best candidate so far.\<close>

partial_function (option) find_free_block_loop ::
  "AllocationStrategy \<Rightarrow> FreeBlock list \<Rightarrow> nat \<Rightarrow> nat \<Rightarrow> nat option \<Rightarrow> nat \<Rightarrow> nat option option" where
  "find_free_block_loop strat fb count current_idx best_idx best_size =
     (if current_idx = INVALID_PAGE then Some best_idx
      else Option.bind (arr_get fb current_idx) (\<lambda>block.
        if count \<le> page_count block then
          (case strat of
             FirstFit \<Rightarrow> Some (Some current_idx)
           | BestFit \<Rightarrow>
               (if best_idx = None \<or> page_count block < best_size
                then find_free_block_loop strat fb count (next_block block) (Some current_idx) (page_count block)
                else find_free_block_loop strat fb count (next_block block) best_idx best_size)
           | WorstFit \<Rightarrow>
               (if best_idx = None \<or> page_count block > best_size
                then find_free_block_loop strat fb count (next_block block) (Some current_idx) (page_count block)
                else find_free_block_loop strat fb count (next_block block) best_idx best_size))
        else find_free_block_loop strat fb count (next_block block) best_idx best_size))"

definition find_free_block :: "MemoryManager \<Rightarrow> nat \<Rightarrow> nat option option" where
  "find_free_block m count =
     find_free_block_loop (strategy m) (free_blocks m) (as_u32 count) (free_list_head m) None 0"

text \<open>\<open>remove_free_block\<close>: unlink entry \<open>idx\<close> from the free list.\<close>

partial_function (option) remove_free_block_loop ::
  "FreeBlock list \<Rightarrow> nat \<Rightarrow> nat \<Rightarrow> FreeBlock list option" where
  "remove_free_block_loop fb idx prev_idx =
     (if prev_idx = INVALID_PAGE then Some fb
      else Option.bind (arr_get fb prev_idx) (\<lambda>prev.
        if next_block prev = as_u32 idx
        then Option.bind (arr_get fb idx) (\<lambda>b. Some (fb[prev_idx := prev\<lparr>next_block := next_block b\<rparr>]))
        else remove_free_block_loop fb idx (next_block prev)))"

definition remove_free_block :: "MemoryManager \<Rightarrow> nat \<Rightarrow> MemoryManager option" where
  "remove_free_block m idx =
     (if as_u32 idx = free_list_head m
      then Option.bind (arr_get (free_blocks m) idx) (\<lambda>b.
             Some (m\<lparr>free_list_head := next_block b,
                     free_block_count := usize_sub (free_block_count m) 1\<rparr>))
      else Option.bind (remove_free_block_loop (free_blocks m) idx (free_list_head m)) (\<lambda>fb.
             Some (m\<lparr>free_blocks := fb, free_block_count := usize_sub (free_block_count m) 1\<rparr>)))"

text \<open>\<open>allocate_pages\<close>, with the loop that marks the pages.\<close>

definition mark_allocated :: "nat \<Rightarrow> nat \<Rightarrow> PageState list \<Rightarrow> PageState list option" where
  "mark_allocated start count pgs =
     for_range 0 count (\<lambda>i ps. arr_set ps (start + i)
       (if i = 0 then Allocated (as_u16 count) else Allocated 0)) pgs"

definition allocate_pages :: "MemoryManager \<Rightarrow> nat \<Rightarrow> ((KernelError + nat) \<times> MemoryManager) option" where
  "allocate_pages m count =
     (if count = 0 then Some (Err ZeroAllocation, m\<lparr>stats := record_failure (stats m)\<rparr>)
      else if count > MAX_PAGES then
        Some (Err (AllocationTooLarge count MAX_PAGES), m\<lparr>stats := record_failure (stats m)\<rparr>)
      else Option.bind (find_free_block m count) (\<lambda>found.
        case found of
          None \<Rightarrow> Some (Err (OutOfMemory count (free_page_count m)), m\<lparr>stats := record_failure (stats m)\<rparr>)
        | Some block_idx \<Rightarrow>
            Option.bind (arr_get (free_blocks m) block_idx) (\<lambda>block.
              if page_count block < as_u32 count then
                Some (Err (OutOfMemory count (page_count block)), m\<lparr>stats := record_failure (stats m)\<rparr>)
              else
                Option.bind (mark_allocated (start_page block) count (pages m)) (\<lambda>pgs.
                  let m1 = m\<lparr>pages := pgs\<rparr> in
                  Option.bind
                    (if page_count block = as_u32 count then remove_free_block m1 block_idx
                     else Some (m1\<lparr>free_blocks := (free_blocks m1)[block_idx :=
                            block\<lparr>start_page := u32_add (start_page block) (as_u32 count),
                                  page_count := u32_sub (page_count block) (as_u32 count)\<rparr>]\<rparr>))
                    (\<lambda>m2. Some (Ok (usize_mul (start_page block) PAGE_SIZE),
                       m2\<lparr>allocated_pages := usize_add (allocated_pages m2) count,
                          stats := record_allocation (stats m2) count\<rparr>))))))"

definition allocate_page :: "MemoryManager \<Rightarrow> ((KernelError + nat) \<times> MemoryManager) option" where
  "allocate_page m = allocate_pages m 1"

text \<open>\<open>add_free_block\<close>: the insertion point, a free array slot, and the new entry.\<close>

partial_function (option) insertion_point ::
  "FreeBlock list \<Rightarrow> nat \<Rightarrow> nat option \<Rightarrow> nat \<Rightarrow> (nat option \<times> nat) option" where
  "insertion_point fb start prev_idx current_idx =
     (if current_idx = INVALID_PAGE then Some (prev_idx, current_idx)
      else Option.bind (arr_get fb current_idx) (\<lambda>b.
        if start_page b > start then Some (prev_idx, current_idx)
        else insertion_point fb start (Some current_idx) (next_block b)))"

partial_function (option) slot_used :: "FreeBlock list \<Rightarrow> nat \<Rightarrow> nat \<Rightarrow> bool option" where
  "slot_used fb i idx =
     (if idx = INVALID_PAGE then Some False
      else if idx = i then Some True
      else Option.bind (arr_get fb idx) (\<lambda>b. slot_used fb i (next_block b)))"

function find_free_block_slot_loop :: "FreeBlock list \<Rightarrow> nat \<Rightarrow> nat \<Rightarrow> nat option" where
  "find_free_block_slot_loop fb head i =
     (if i < MAX_PAGES
      then Option.bind (slot_used fb i head) (\<lambda>is_used.
             if is_used then find_free_block_slot_loop fb head (Suc i) else Some i)
      else Some 0)"
  by pat_completeness auto
termination
  by (relation "measure (\<lambda>(fb, head, i). MAX_PAGES - i)") auto

definition find_free_block_slot :: "MemoryManager \<Rightarrow> nat option" where
  "find_free_block_slot m = find_free_block_slot_loop (free_blocks m) (free_list_head m) 0"

definition add_free_block :: "MemoryManager \<Rightarrow> nat \<Rightarrow> nat \<Rightarrow> MemoryManager option" where
  "add_free_block m start count =
     Option.bind (insertion_point (free_blocks m) start None (free_list_head m)) (\<lambda>(prev_idx, current_idx).
     Option.bind (find_free_block_slot m) (\<lambda>new_idx.
     Option.bind (arr_set (free_blocks m) new_idx
        \<lparr>start_page = start, page_count = count, next_block = current_idx\<rparr>) (\<lambda>fb1.
     case prev_idx of
       Some prev \<Rightarrow> Option.bind (arr_get fb1 prev) (\<lambda>p.
          Some (m\<lparr>free_blocks := fb1[prev := p\<lparr>next_block := as_u32 new_idx\<rparr>],
                  free_block_count := usize_add (free_block_count m) 1\<rparr>))
     | None \<Rightarrow>
          Some (m\<lparr>free_blocks := fb1, free_list_head := as_u32 new_idx,
                  free_block_count := usize_add (free_block_count m) 1\<rparr>))))"

text \<open>\<open>coalesce_adjacent\<close> and \<open>defragment\<close>: two loops that merge neighbours.\<close>

partial_function (option) coalesce_loop :: "MemoryManager \<Rightarrow> nat \<Rightarrow> MemoryManager option" where
  "coalesce_loop m current_idx =
     (if current_idx = INVALID_PAGE then Some m
      else Option.bind (arr_get (free_blocks m) current_idx) (\<lambda>current.
        if next_block current \<noteq> INVALID_PAGE
        then Option.bind (arr_get (free_blocks m) (next_block current)) (\<lambda>nxt.
          if u32_add (start_page current) (page_count current) = start_page nxt
          then coalesce_loop
                 (m\<lparr>free_blocks := (free_blocks m)[current_idx :=
                       current\<lparr>page_count := u32_add (page_count current) (page_count nxt),
                               next_block := next_block nxt\<rparr>],
                    free_block_count := usize_sub (free_block_count m) 1,
                    stats := record_coalesce (stats m)\<rparr>) current_idx
          else coalesce_loop m (next_block current))
        else coalesce_loop m (next_block current)))"

definition coalesce_adjacent :: "MemoryManager \<Rightarrow> nat \<Rightarrow> MemoryManager option" where
  "coalesce_adjacent m start = coalesce_loop m (free_list_head m)"

partial_function (option) defragment_loop :: "MemoryManager \<Rightarrow> nat \<Rightarrow> MemoryManager option" where
  "defragment_loop m current_idx =
     (if current_idx = INVALID_PAGE then Some m
      else Option.bind (arr_get (free_blocks m) current_idx) (\<lambda>current.
        let next_idx = next_block current in
        if next_idx \<noteq> INVALID_PAGE
        then Option.bind (arr_get (free_blocks m) next_idx) (\<lambda>nxt.
          if u32_add (start_page current) (page_count current) = start_page nxt
          then defragment_loop
                 (m\<lparr>free_blocks := (free_blocks m)[current_idx :=
                       current\<lparr>page_count := u32_add (page_count current) (page_count nxt),
                               next_block := next_block nxt\<rparr>],
                    free_block_count := usize_sub (free_block_count m) 1,
                    stats := record_coalesce (stats m)\<rparr>) current_idx
          else defragment_loop m (next_block current))
        else defragment_loop m (next_block current)))"

definition defragment :: "MemoryManager \<Rightarrow> (nat \<times> MemoryManager) option" where
  "defragment m =
     Option.bind (defragment_loop m (free_list_head m)) (\<lambda>m'.
       Some (usize_sub (free_block_count m) (free_block_count m'), m'))"

text \<open>
  \<open>free_pages\<close>. The sum in the range check is a machine addition; the loop that looks
  for a page that is already free stops at the first one, or panics when it leaves the
  page array.
\<close>

function first_free_page :: "PageState list \<Rightarrow> nat \<Rightarrow> nat \<Rightarrow> nat \<Rightarrow> nat option option" where
  "first_free_page pgs start count i =
     (if i < count
      then Option.bind (arr_get pgs (start + i)) (\<lambda>ps.
             case ps of
               Allocated _ \<Rightarrow> first_free_page pgs start count (Suc i)
             | Free \<Rightarrow> Some (Some (start + i)))
      else Some None)"
  by pat_completeness auto
termination
  by (relation "measure (\<lambda>(pgs, start, count, i). count - i)") auto

definition mark_free :: "nat \<Rightarrow> nat \<Rightarrow> PageState list \<Rightarrow> PageState list option" where
  "mark_free start count pgs = for_range 0 count (\<lambda>i ps. arr_set ps (start + i) Free) pgs"

definition free_pages :: "MemoryManager \<Rightarrow> nat \<Rightarrow> nat \<Rightarrow> ((KernelError + unit) \<times> MemoryManager) option" where
  "free_pages m addr count =
     (if count = 0 then Some (Err InvalidPageCount, m)
      else
        let start = addr div PAGE_SIZE; max_valid_address = MAX_PAGES * PAGE_SIZE in
        if addr \<ge> max_valid_address
        then Some (Err (AddressOutOfBounds addr (max_valid_address - PAGE_SIZE)), m)
        else if start \<ge> MAX_PAGES
        then Some (Err (PageIndexOutOfBounds start (MAX_PAGES - 1)), m)
        else if usize_add start count > MAX_PAGES
        then Some (Err (AllocationTooLarge count (MAX_PAGES - start)), m)
        else Option.bind (first_free_page (pages m) start count 0) (\<lambda>ff.
          case ff of
            Some p \<Rightarrow> Some (Err (DoubleFree (p * PAGE_SIZE)), m)
          | None \<Rightarrow>
              Option.bind (mark_free start count (pages m)) (\<lambda>pgs.
              Option.bind (add_free_block (m\<lparr>pages := pgs\<rparr>) (as_u32 start) (as_u32 count)) (\<lambda>m1.
              Option.bind (coalesce_adjacent m1 (as_u32 start)) (\<lambda>m2.
                Some (Ok (), m2\<lparr>allocated_pages := usize_sub (allocated_pages m2) count,
                                stats := record_deallocation (stats m2) count\<rparr>))))))"

definition free_page :: "MemoryManager \<Rightarrow> nat \<Rightarrow> ((KernelError + unit) \<times> MemoryManager) option" where
  "free_page m addr = free_pages m addr 1"

partial_function (option) largest_free_block_loop :: "FreeBlock list \<Rightarrow> nat \<Rightarrow> nat \<Rightarrow> nat option" where
  "largest_free_block_loop fb largest current_idx =
     (if current_idx = INVALID_PAGE then Some largest
      else Option.bind (arr_get fb current_idx) (\<lambda>b.
        largest_free_block_loop fb (if page_count b > largest then page_count b else largest) (next_block b)))"

definition largest_free_block :: "MemoryManager \<Rightarrow> nat option" where
  "largest_free_block m = largest_free_block_loop (free_blocks m) 0 (free_list_head m)"

section \<open>The global manager\<close>

text \<open>
  The module functions run the operations on the manager behind \<open>MEMORY_MANAGER\<close>, a
  \<open>Mutex<Option<MemoryManager>>\<close>: the whole operation happens under the lock.
\<close>

type_synonym memory_state = "MemoryManager option"

definition memory_init :: "memory_state \<Rightarrow> (KernelError + unit) \<times> memory_state" where
  "memory_init g = (Ok (), Some (mm_init mm_new))"

definition memory_allocate_pages :: "memory_state \<Rightarrow> nat \<Rightarrow> ((KernelError + nat) \<times> memory_state) option" where
  "memory_allocate_pages g count =
     (case g of None \<Rightarrow> Some (Err MemoryNotInitialized, None)
      | Some m \<Rightarrow> map_option (\<lambda>(r, m'). (r, Some m')) (allocate_pages m count))"

definition memory_allocate_page :: "memory_state \<Rightarrow> ((KernelError + nat) \<times> memory_state) option" where
  "memory_allocate_page g =
     (case g of None \<Rightarrow> Some (Err MemoryNotInitialized, None)
      | Some m \<Rightarrow> map_option (\<lambda>(r, m'). (r, Some m')) (allocate_page m))"

definition memory_free_pages :: "memory_state \<Rightarrow> nat \<Rightarrow> nat \<Rightarrow> ((KernelError + unit) \<times> memory_state) option" where
  "memory_free_pages g addr count =
     (case g of None \<Rightarrow> Some (Err MemoryNotInitialized, None)
      | Some m \<Rightarrow> map_option (\<lambda>(r, m'). (r, Some m')) (free_pages m addr count))"

definition memory_free_page :: "memory_state \<Rightarrow> nat \<Rightarrow> ((KernelError + unit) \<times> memory_state) option" where
  "memory_free_page g addr =
     (case g of None \<Rightarrow> Some (Err MemoryNotInitialized, None)
      | Some m \<Rightarrow> map_option (\<lambda>(r, m'). (r, Some m')) (free_page m addr))"

definition memory_defragment :: "memory_state \<Rightarrow> (nat option \<times> memory_state) option" where
  "memory_defragment g =
     (case g of None \<Rightarrow> Some (None, None)
      | Some m \<Rightarrow> map_option (\<lambda>(n, m'). (Some n, Some m')) (defragment m))"

definition memory_set_strategy :: "memory_state \<Rightarrow> AllocationStrategy \<Rightarrow> memory_state" where
  "memory_set_strategy g st = map_option (set_strategy st) g"

end
