(* ===== verification/Memory_Lists.thy ===== *)
theory Memory_Lists
  imports Memory
begin

text \<open>
  The free list of the page allocator as a list of array indices: linked segments of the
  block array, the page ranges (extents) their entries describe, what the manager's walks
  over the list return, and how extents change under allocation, release and coalescing.
  Everything the invariant proofs of \<open>Memory_Correct\<close> need about the pointer structure
  is here.
\<close>

lemmas mem_consts = PAGE_SIZE_def MAX_PAGES_def INVALID_PAGE_def

section \<open>Linked segments in the block array\<close>

definition first :: "nat list \<Rightarrow> nat \<Rightarrow> nat" where
  "first is p = (case is of [] \<Rightarrow> p | i # _ \<Rightarrow> i)"

fun seg :: "FreeBlock list \<Rightarrow> nat list \<Rightarrow> nat \<Rightarrow> bool" where
  "seg fb [] p = True"
| "seg fb (i # is) p = (i < length fb \<and> next_block (fb ! i) = first is p \<and> seg fb is p)"

lemma first_Nil [simp]: "first [] p = p"
  by (simp add: first_def)

lemma first_Cons [simp]: "first (i # is) p = i"
  by (simp add: first_def)

lemma first_append [simp]: "first (xs @ ys) p = first xs (first ys p)"
  by (cases xs) auto

lemma seg_append [simp]: "seg fb (xs @ ys) p \<longleftrightarrow> seg fb xs (first ys p) \<and> seg fb ys p"
  by (induction xs) auto

lemma seg_update [simp]: "i \<notin> set is \<Longrightarrow> seg (fb[i := b]) is p = seg fb is p"
  by (induction "is") auto

lemma seg_bound: "seg fb is p \<Longrightarrow> i \<in> set is \<Longrightarrow> i < length fb"
  by (induction "is") auto

lemma seg_cong:
  "(\<And>i. i \<in> set is \<Longrightarrow> fb' ! i = fb ! i) \<Longrightarrow> length fb' = length fb \<Longrightarrow> seg fb' is p = seg fb is p"
  by (induction "is") auto

text \<open>The extent of an entry, and of the entries of a list.\<close>

definition extent :: "FreeBlock list \<Rightarrow> nat \<Rightarrow> nat \<times> nat" where
  "extent fb i = (start_page (fb ! i), page_count (fb ! i))"

lemma extent_update_other [simp]: "j \<noteq> i \<Longrightarrow> extent (fb[i := b]) j = extent fb j"
  by (simp add: extent_def)

lemma map_extent_update [simp]: "i \<notin> set is \<Longrightarrow> map (extent (fb[i := b])) is = map (extent fb) is"
  by (auto intro!: extent_update_other)

text \<open>
  Extents in address order, at least \<open>d\<close> pages apart, non-empty and inside the pool.
  With \<open>d = 1\<close> no two neighbours touch: the list is fully coalesced.
\<close>

fun spaced :: "nat \<Rightarrow> nat \<Rightarrow> (nat \<times> nat) list \<Rightarrow> bool" where
  "spaced d lo [] = True"
| "spaced d lo ((s, c) # bs) = (lo \<le> s \<and> 0 < c \<and> s + c \<le> MAX_PAGES \<and> spaced d (s + c + d) bs)"

definition cover :: "(nat \<times> nat) list \<Rightarrow> nat set" where
  "cover bs = (\<Union>(s, c) \<in> set bs. {s..<s + c})"

lemma cover_Nil [simp]: "cover [] = {}"
  by (simp add: cover_def)

lemma cover_Cons [simp]: "cover ((s, c) # bs) = {s..<s + c} \<union> cover bs"
  by (auto simp: cover_def)

lemma cover_append [simp]: "cover (xs @ ys) = cover xs \<union> cover ys"
  by (auto simp: cover_def)

lemma spaced_mono: "spaced d lo bs \<Longrightarrow> lo' \<le> lo \<Longrightarrow> spaced d lo' bs"
  by (cases "(d, lo, bs)" rule: spaced.cases) auto

lemma spaced_weaken: "spaced d lo bs \<Longrightarrow> d' \<le> d \<Longrightarrow> spaced d' lo bs"
  by (induction d lo bs rule: spaced.induct) (auto intro: spaced_mono)

lemma spaced_bounds: "spaced d lo bs \<Longrightarrow> cover bs \<subseteq> {lo..<MAX_PAGES}"
proof (induction d lo bs rule: spaced.induct)
  case (1 d lo)
  then show ?case by simp
next
  case (2 d lo s c bs)
  then have "cover bs \<subseteq> {s + c + d..<MAX_PAGES}" by simp
  with 2 show ?case by auto
qed

lemma spaced_append:
  "spaced d lo (xs @ ys) \<longleftrightarrow> spaced d lo xs \<and>
     spaced d (if xs = [] then lo else fst (last xs) + snd (last xs) + d) ys"
  by (induction d lo xs rule: spaced.induct) auto

lemma card_cover: "spaced d lo bs \<Longrightarrow> card (cover bs) = sum_list (map snd bs)"
proof (induction d lo bs rule: spaced.induct)
  case (2 d lo s c bs)
  then have "cover bs \<subseteq> {s + c + d..<MAX_PAGES}" using spaced_bounds [of d "s + c + d" bs] by simp
  then have "{s..<s + c} \<inter> cover bs = {}" and "finite (cover bs)"
    by (auto intro: finite_subset)
  with 2 show ?case by (simp add: card_Un_disjoint)
qed simp

lemma spaced_length: "spaced d lo bs \<Longrightarrow> length bs \<le> card (cover bs)"
proof (induction d lo bs rule: spaced.induct)
  case (2 d lo s c bs)
  then have "card (cover ((s, c) # bs)) = c + card (cover bs)"
    using card_cover [of d lo "(s, c) # bs"] card_cover [of d "s + c + d" bs] by simp
  with 2 show ?case by simp
qed simp

text \<open>
  A run of pages inside the cover of a coalesced list lies inside one of its extents:
  this is what makes a first-fit search over the list complete.
\<close>

lemma run_in_block:
  assumes "spaced 1 lo bs" and "{p..<p + n} \<subseteq> cover bs" and "0 < n"
  shows "\<exists>(s, c) \<in> set bs. s \<le> p \<and> p + n \<le> s + c"
  using assms
proof (induction "1::nat" lo bs rule: spaced.induct)
  case (1 lo)
  then show ?case by auto
next
  case (2 lo s c bs)
  then have rest: "cover bs \<subseteq> {s + c + 1..<MAX_PAGES}"
    using spaced_bounds by fastforce
  have p: "p \<in> cover ((s, c) # bs)"
    using "2.prems"(2) \<open>0 < n\<close> by (meson add_diff_cancel_left' atLeastLessThan_iff le_refl less_add_same_cancel1 subsetD)
  show ?case
  proof (cases "p < s + c")
    case True
    have "s \<le> p" using p True rest by auto
    moreover have "p + n \<le> s + c"
    proof (rule ccontr)
      assume "\<not> p + n \<le> s + c"
      then have "s + c \<in> {p..<p + n}" using True by auto
      with "2.prems"(2) have "s + c \<in> cover ((s, c) # bs)" by blast
      with rest show False by auto
    qed
    ultimately show ?thesis by auto
  next
    case False
    have "{p..<p + n} \<subseteq> cover bs"
    proof
      fix x assume x: "x \<in> {p..<p + n}"
      with "2.prems"(2) have "x \<in> cover ((s, c) # bs)" by blast
      with x False show "x \<in> cover bs" by auto
    qed
    with 2 show ?thesis by auto
  qed
qed

section \<open>The walks over the free list\<close>

text \<open>
  \<open>linked fb is\<close>: the entries \<open>is\<close> of the block array form a list that ends with
  \<open>INVALID_PAGE\<close>. Every walk of the manager, started at the first entry, returns on
  such an array, with the result the list gives.
\<close>

definition linked :: "FreeBlock list \<Rightarrow> nat list \<Rightarrow> bool" where
  "linked fb is \<longleftrightarrow> length fb = MAX_PAGES \<and> distinct is \<and> seg fb is INVALID_PAGE"

lemma linked_bound [dest]: "linked fb is \<Longrightarrow> i \<in> set is \<Longrightarrow> i < MAX_PAGES"
  by (auto simp: linked_def dest: seg_bound)

lemma index_valid [simp]: "i < MAX_PAGES \<Longrightarrow> i \<noteq> INVALID_PAGE" "i < MAX_PAGES \<Longrightarrow> as_u32 i = i"
  by (auto simp: mem_consts as_u32_def)

lemma linked_tl: "linked fb (i # is) \<Longrightarrow> linked fb is"
  by (simp add: linked_def)

lemma linked_Cons:
  "linked fb (i # is) \<longleftrightarrow> i < MAX_PAGES \<and> i \<notin> set is \<and> next_block (fb ! i) = first is INVALID_PAGE \<and> linked fb is"
  by (auto simp: linked_def)

lemma linked_Nil [simp]: "linked fb [] \<longleftrightarrow> length fb = MAX_PAGES"
  by (simp add: linked_def)

lemma linked_length: "linked fb is \<Longrightarrow> length fb = MAX_PAGES"
  by (simp add: linked_def)

fun pick :: "AllocationStrategy \<Rightarrow> FreeBlock list \<Rightarrow> nat \<Rightarrow> nat list \<Rightarrow> nat option \<Rightarrow> nat \<Rightarrow> nat option" where
  "pick st fb n [] bi bs = bi"
| "pick st fb n (i # is) bi bs =
     (if n \<le> page_count (fb ! i) then
        (case st of FirstFit \<Rightarrow> Some i
         | BestFit \<Rightarrow> if bi = None \<or> page_count (fb ! i) < bs
                     then pick st fb n is (Some i) (page_count (fb ! i)) else pick st fb n is bi bs
         | WorstFit \<Rightarrow> if bi = None \<or> page_count (fb ! i) > bs
                     then pick st fb n is (Some i) (page_count (fb ! i)) else pick st fb n is bi bs)
      else pick st fb n is bi bs)"

lemma find_loop_eq:
  "linked fb is \<Longrightarrow>
   find_free_block_loop st fb n (first is INVALID_PAGE) bi bs = Some (pick st fb n is bi bs)"
proof (induction "is" arbitrary: st bi bs)
  case Nil
  show ?case by (simp add: find_free_block_loop.simps)
next
  case (Cons i "is")
  then have i: "i < MAX_PAGES" "next_block (fb ! i) = first is INVALID_PAGE" "linked fb is" "length fb = MAX_PAGES"
    by (auto simp: linked_Cons linked_length)
  show ?case
    by (cases bi; subst find_free_block_loop.simps)
      (simp_all add: i Cons.IH [OF i(3)] split: AllocationStrategy.split)
qed

lemma pick_in: "pick st fb n is bi bs = Some r \<Longrightarrow> bi = Some r \<or> r \<in> set is \<and> n \<le> page_count (fb ! r)"
  by (induction st fb n "is" bi bs rule: pick.induct) (auto split: if_splits AllocationStrategy.splits)

lemma pick_None_iff: "pick st fb n is bi bs = None \<longleftrightarrow> bi = None \<and> (\<forall>i \<in> set is. page_count (fb ! i) < n)"
  by (induction st fb n "is" bi bs rule: pick.induct) (auto split: AllocationStrategy.splits)

lemma pick_FirstFit:
  "pick FirstFit fb n is None bs = Some r \<Longrightarrow>
   \<exists>xs ys. is = xs @ r # ys \<and> (\<forall>j \<in> set xs. page_count (fb ! j) < n)"
proof (induction "is")
  case Nil
  then show ?case by simp
next
  case (Cons i "is")
  show ?case
  proof (cases "n \<le> page_count (fb ! i)")
    case True
    with Cons.prems have "i # is = [] @ r # is" by simp
    then show ?thesis by fastforce
  next
    case False
    with Cons.prems obtain xs ys where "is = xs @ r # ys" "\<forall>j \<in> set xs. page_count (fb ! j) < n"
      using Cons.IH by auto
    with False have "i # is = (i # xs) @ r # ys \<and> (\<forall>j \<in> set (i # xs). page_count (fb ! j) < n)"
      by simp
    then show ?thesis by blast
  qed
qed

lemma pick_BestFit_acc:
  "pick BestFit fb n is (Some b) (page_count (fb ! b)) = Some r \<Longrightarrow>
   page_count (fb ! r) \<le> page_count (fb ! b) \<and>
   (\<forall>j \<in> set is. n \<le> page_count (fb ! j) \<longrightarrow> page_count (fb ! r) \<le> page_count (fb ! j))"
proof (induction "is" arbitrary: b)
  case (Cons i "is")
  then show ?case by (force split: if_splits)
qed simp

lemma pick_BestFit:
  "pick BestFit fb n is None bs = Some r \<Longrightarrow> j \<in> set is \<Longrightarrow> n \<le> page_count (fb ! j) \<Longrightarrow>
   page_count (fb ! r) \<le> page_count (fb ! j)"
proof (induction "is")
  case (Cons i "is")
  then show ?case by (auto split: if_splits dest: pick_BestFit_acc)
qed simp

lemma pick_WorstFit_acc:
  "pick WorstFit fb n is (Some b) (page_count (fb ! b)) = Some r \<Longrightarrow> n \<le> page_count (fb ! b) \<Longrightarrow>
   page_count (fb ! b) \<le> page_count (fb ! r) \<and> (\<forall>j \<in> set is. page_count (fb ! j) \<le> page_count (fb ! r))"
proof (induction "is" arbitrary: b)
  case (Cons i "is")
  then show ?case by (force split: if_splits)
qed simp

lemma pick_WorstFit:
  "pick WorstFit fb n is None bs = Some r \<Longrightarrow> j \<in> set is \<Longrightarrow> page_count (fb ! j) \<le> page_count (fb ! r)"
proof (induction "is")
  case (Cons i "is")
  show ?case
  proof (cases "n \<le> page_count (fb ! i)")
    case True
    with Cons.prems show ?thesis using pick_WorstFit_acc [of fb n "is" i r] by auto
  next
    case False
    with Cons.prems have r: "pick WorstFit fb n is None bs = Some r" by simp
    then have "n \<le> page_count (fb ! r)" using pick_in [OF r] by simp
    with False Cons.prems Cons.IH [OF r] show ?thesis by auto
  qed
qed simp

lemma remove_loop:
  assumes "linked fb (xs @ j # idx # ys)"
  shows "remove_free_block_loop fb idx (first (xs @ [j]) INVALID_PAGE) =
         Some (fb[j := (fb ! j)\<lparr>next_block := first ys INVALID_PAGE\<rparr>])"
  using assms
proof (induction xs)
  case Nil
  then show ?case
    by (subst remove_free_block_loop.simps) (auto simp: linked_Cons linked_length)
next
  case (Cons i xs)
  then have i: "i < MAX_PAGES" "next_block (fb ! i) = first (xs @ [j]) INVALID_PAGE"
      "linked fb (xs @ j # idx # ys)" "length fb = MAX_PAGES"
    by (auto simp: linked_Cons linked_length)
  have "first (xs @ [j]) INVALID_PAGE \<noteq> idx" and "idx < MAX_PAGES"
    using i(3) by (cases xs; auto simp: linked_Cons)+
  with i show ?case
    using Cons.IH [OF i(3)] by (subst remove_free_block_loop.simps) simp
qed

lemma insertion_point_eq:
  assumes "linked fb (xs @ ys)" and "\<And>i. i \<in> set xs \<Longrightarrow> start_page (fb ! i) \<le> s"
    and "\<And>i zs. ys = i # zs \<Longrightarrow> s < start_page (fb ! i)"
  shows "insertion_point fb s prev (first (xs @ ys) INVALID_PAGE) =
         Some (if xs = [] then prev else Some (last xs), first ys INVALID_PAGE)"
  using assms
proof (induction xs arbitrary: prev)
  case Nil
  then show ?case
    by (cases ys; subst insertion_point.simps) (auto simp: linked_Cons linked_length)
next
  case (Cons i xs)
  then have i: "i < MAX_PAGES" "next_block (fb ! i) = first (xs @ ys) INVALID_PAGE"
      "linked fb (xs @ ys)" "length fb = MAX_PAGES"
    by (auto simp: linked_Cons linked_length)
  moreover have "\<not> s < start_page (fb ! i)"
    using Cons.prems(2) [of i] by simp
  moreover have "insertion_point fb s (Some i) (first (xs @ ys) INVALID_PAGE) =
      Some (if xs = [] then Some i else Some (last xs), first ys INVALID_PAGE)"
    by (rule Cons.IH) (use Cons.prems i in auto)
  ultimately show ?case
    by (subst insertion_point.simps) simp
qed

lemma slot_used_eq: "linked fb is \<Longrightarrow> slot_used fb i (first is INVALID_PAGE) = Some (i \<in> set is)"
proof (induction "is")
  case Nil
  show ?case by (simp add: slot_used.simps)
next
  case (Cons j "is")
  then show ?case
    by (subst slot_used.simps) (auto simp: linked_Cons linked_length)
qed

lemma find_slot_eq:
  assumes "linked fb is" and "i \<le> k" and "k < MAX_PAGES" and "k \<notin> set is"
  shows "\<exists>j. find_free_block_slot_loop fb (first is INVALID_PAGE) i = Some j \<and> j < MAX_PAGES \<and> j \<notin> set is"
  using assms
proof (induction fb "first is INVALID_PAGE" i rule: find_free_block_slot_loop.induct)
  case (1 fb i)
  show ?case
  proof (cases "i \<in> set is")
    case True
    then have "Suc i \<le> k" using "1.prems" by (metis le_neq_implies_less less_eq_Suc_le)
    then show ?thesis
      using 1 True by (simp add: slot_used_eq find_free_block_slot_loop.simps [of fb _ i] del: find_free_block_slot_loop.simps)
  next
    case False
    then show ?thesis
      using "1.prems" by (simp add: slot_used_eq find_free_block_slot_loop.simps [of fb _ i] del: find_free_block_slot_loop.simps)
  qed
qed

text \<open>There is always a free array slot while the extents do not fill the pool.\<close>

lemma free_slot_exists:
  assumes "linked fb is" and "spaced d lo (map (extent fb) is)" and "p < MAX_PAGES"
    and "p \<notin> cover (map (extent fb) is)"
  shows "\<exists>k < MAX_PAGES. k \<notin> set is"
proof -
  have sub: "cover (map (extent fb) is) \<subseteq> {0..<MAX_PAGES} - {p}"
    using spaced_bounds [OF assms(2)] assms(4) by auto
  have "length is \<le> card (cover (map (extent fb) is))"
    using spaced_length [OF assms(2)] by simp
  also have "\<dots> \<le> card ({0..<MAX_PAGES} - {p})"
    using sub by (intro card_mono) auto
  also have "\<dots> < MAX_PAGES"
    using assms(3) by simp
  finally have "card (set is) < card {0..<MAX_PAGES}"
    using card_length [of "is"] by simp
  then have "\<not> {0..<MAX_PAGES} \<subseteq> set is"
    by (meson List.finite_set card_mono not_le)
  then show ?thesis by auto
qed

section \<open>Coalescing\<close>

function merge_extents :: "(nat \<times> nat) list \<Rightarrow> (nat \<times> nat) list" where
  "merge_extents [] = []"
| "merge_extents [b] = [b]"
| "merge_extents ((s, c) # (s', c') # bs) =
     (if s + c = s' then merge_extents ((s, c + c') # bs) else (s, c) # merge_extents ((s', c') # bs))"
  by pat_completeness auto
termination
  by (relation "measure length") auto

lemma merge_cover: "cover (merge_extents bs) = cover bs"
proof (induction bs rule: merge_extents.induct)
  case (3 s c s' c' bs)
  have "{s..<s'} \<union> {s'..<s' + c'} = {s..<s + (c + c')}" if "s + c = s'" using that by auto
  with 3 show ?case by (cases "s + c = s'") (simp_all add: Un_assoc [symmetric])
qed simp_all

lemma merge_spaced: "spaced 0 lo bs \<Longrightarrow> spaced 1 lo (merge_extents bs)"
proof (induction bs arbitrary: lo rule: merge_extents.induct)
  case (2 b)
  then show ?case by (cases b) simp
next
  case (3 s c s' c' bs)
  show ?case
  proof (cases "s + c = s'")
    case True
    with 3 show ?thesis by (auto simp: add.assoc)
  next
    case False
    with "3.prems" have "spaced 0 (Suc (s + c)) ((s', c') # bs)" by auto
    from "3.IH"(2) [OF False this] False "3.prems" show ?thesis by simp
  qed
qed simp

lemma merge_done: "spaced 1 lo bs \<Longrightarrow> merge_extents bs = bs"
  by (induction bs arbitrary: lo rule: merge_extents.induct) auto

text \<open>
  The loop of \<open>coalesce_adjacent\<close> returns, and computes \<open>merge_extents\<close> on the
  list; the number of merges is what it subtracts from \<open>free_block_count\<close> and adds
  to the statistics.
\<close>

lemma coalesce_loop_ok:
  assumes "linked (free_blocks m) (i # is)"
    and "spaced 0 lo (map (extent (free_blocks m)) (i # is))"
    and "Suc (length is) \<le> free_block_count m" and "free_block_count m < USIZE_MOD"
  shows "\<exists>fb' is' k.
     coalesce_loop m i = Some (m\<lparr>free_blocks := fb', free_block_count := free_block_count m - k,
        stats := (stats m)\<lparr>st_coalesce_count := st_coalesce_count (stats m) + word_of_nat k\<rparr>\<rparr>) \<and>
     linked fb' (i # is') \<and> set is' \<subseteq> set is \<and> length is = length is' + k \<and>
     map (extent fb') (i # is') = merge_extents (map (extent (free_blocks m)) (i # is)) \<and>
     (\<forall>j. j \<notin> set (i # is) \<longrightarrow> fb' ! j = free_blocks m ! j)"
  using assms
proof (induction "length is" arbitrary: m i "is" lo)
  case 0
  then have nx: "next_block (free_blocks m ! i) = INVALID_PAGE" and i: "i < MAX_PAGES"
      and len: "length (free_blocks m) = MAX_PAGES"
    by (auto simp: linked_Cons linked_length)
  then have "coalesce_loop m i = Some m"
    by (subst coalesce_loop.simps) (simp add: coalesce_loop.simps [of m INVALID_PAGE])
  with 0 show ?case
    by (intro exI [of _ "free_blocks m"] exI [of _ "[]"] exI [of _ 0]) (simp add: extent_def)
next
  case (Suc n)
  then obtain j js where is_eq: "is = j # js" and n: "n = length js"
    by (cases "is") auto
  let ?fb = "free_blocks m"
  let ?s = "start_page (?fb ! i)" and ?c = "page_count (?fb ! i)"
  let ?s' = "start_page (?fb ! j)" and ?c' = "page_count (?fb ! j)"
  have len: "length ?fb = MAX_PAGES" and ij: "i < MAX_PAGES" "j < MAX_PAGES" "i \<noteq> j"
      and nxi: "next_block (?fb ! i) = j" and nxj: "next_block (?fb ! j) = first js INVALID_PAGE"
      and lj: "linked ?fb (j # js)" and ni: "i \<notin> set js" and nj: "j \<notin> set js"
    using Suc.prems(1) is_eq by (auto simp: linked_Cons linked_length)
  have sp: "lo \<le> ?s" "0 < ?c" "?s + ?c \<le> ?s'" "0 < ?c'" "?s' + ?c' \<le> MAX_PAGES"
      "spaced 0 (?s' + ?c') (map (extent ?fb) js)"
    using Suc.prems(2) is_eq by (auto simp: extent_def)
  have nowrap: "u32_add ?s ?c = ?s + ?c" "u32_add ?c ?c' = ?c + ?c'"
    using sp by (auto simp: no_wrap mem_consts)
  show ?case
  proof (cases "?s + ?c = ?s'")
    case True
    let ?fb1 = "?fb[i := (?fb ! i)\<lparr>page_count := ?c + ?c', next_block := next_block (?fb ! j)\<rparr>]"
    let ?m1 = "m\<lparr>free_blocks := ?fb1, free_block_count := free_block_count m - 1,
       stats := record_coalesce (stats m)\<rparr>"
    have step: "coalesce_loop m i = coalesce_loop ?m1 i"
      using True len ij nxi nowrap Suc.prems(3,4) is_eq
      by (subst coalesce_loop.simps) (simp add: no_wrap)
    have l1: "linked ?fb1 (i # js)"
      using lj len ij ni nxj by (simp add: linked_Cons) (simp add: linked_def)
    have e1: "map (extent ?fb1) (i # js) = (?s, ?c + ?c') # map (extent ?fb) js"
      using ni ij len by (simp add: extent_def)
    have s1: "spaced 0 lo (map (extent ?fb1) (i # js))"
      using sp True unfolding e1 by (simp flip: add.assoc)
    have l1': "linked (free_blocks ?m1) (i # js)" using l1 by simp
    have s1': "spaced 0 lo (map (extent (free_blocks ?m1)) (i # js))" using s1 by simp
    have c1: "Suc (length js) \<le> free_block_count ?m1" "free_block_count ?m1 < USIZE_MOD"
      using Suc.prems(3,4) is_eq by auto
    from Suc.hyps(1) [OF n l1' s1' c1]
    obtain fb' is' k where r:
      "coalesce_loop ?m1 i = Some (?m1\<lparr>free_blocks := fb', free_block_count := free_block_count ?m1 - k,
         stats := (stats ?m1)\<lparr>st_coalesce_count := st_coalesce_count (stats ?m1) + word_of_nat k\<rparr>\<rparr>)"
      "linked fb' (i # is')" "set is' \<subseteq> set js" "length js = length is' + k"
      "map (extent fb') (i # is') = merge_extents (map (extent ?fb1) (i # js))"
      "\<forall>x. x \<notin> set (i # js) \<longrightarrow> fb' ! x = ?fb1 ! x"
      by auto
    have "merge_extents (map (extent ?fb) (i # is)) = merge_extents (map (extent ?fb1) (i # js))"
      using True unfolding e1 by (simp add: is_eq) (simp add: extent_def)
    moreover have "coalesce_loop m i = Some (m\<lparr>free_blocks := fb', free_block_count := free_block_count m - Suc k,
         stats := (stats m)\<lparr>st_coalesce_count := st_coalesce_count (stats m) + word_of_nat (Suc k)\<rparr>\<rparr>)"
      using step r(1) by (simp add: record_coalesce_def add.assoc)
    ultimately show ?thesis
      using r is_eq by (intro exI [of _ fb'] exI [of _ is'] exI [of _ "Suc k"]) auto
  next
    case False
    have step: "coalesce_loop m i = coalesce_loop m j"
      using False len ij nxi nowrap by (subst coalesce_loop.simps) simp
    have "spaced 0 (?s + ?c) (map (extent ?fb) (j # js))"
      using sp by (simp add: extent_def)
    from Suc.hyps(1) [of js m j "?s + ?c"] this lj n Suc.prems(3,4) is_eq
    obtain fb' is' k where r:
      "coalesce_loop m j = Some (m\<lparr>free_blocks := fb', free_block_count := free_block_count m - k,
         stats := (stats m)\<lparr>st_coalesce_count := st_coalesce_count (stats m) + word_of_nat k\<rparr>\<rparr>)"
      "linked fb' (j # is')" "set is' \<subseteq> set js" "length js = length is' + k"
      "map (extent fb') (j # is') = merge_extents (map (extent ?fb) (j # js))"
      "\<forall>x. x \<notin> set (j # js) \<longrightarrow> fb' ! x = ?fb ! x"
      by auto
    have keep: "fb' ! i = ?fb ! i" using r(6) ij ni by auto
    then have "linked fb' (i # j # is')"
      using r(2,3) ij ni nxi by (auto simp: linked_Cons)
    moreover have "map (extent fb') (i # j # is') = merge_extents (map (extent ?fb) (i # is))"
      using r(5) keep False by (simp add: is_eq) (simp add: extent_def)
    ultimately show ?thesis
      using r step is_eq by (intro exI [of _ fb'] exI [of _ "j # is'"] exI [of _ k]) auto
  qed
qed

lemma defragment_loop_le: "defragment_loop m i = Some r \<Longrightarrow> coalesce_loop m i = Some r"
proof (erule defragment_loop.raw_induct [where P = "\<lambda>m i r. coalesce_loop m i = Some r", rotated])
  fix f m i r
  assume "\<And>m i r. f m i = Some r \<Longrightarrow> coalesce_loop m i = Some r"
  then show "(if i = INVALID_PAGE then Some m
      else Option.bind (arr_get (free_blocks m) i) (\<lambda>current.
        let next_idx = next_block current in
        if next_idx \<noteq> INVALID_PAGE
        then Option.bind (arr_get (free_blocks m) next_idx) (\<lambda>nxt.
          if u32_add (start_page current) (page_count current) = start_page nxt
          then f (m\<lparr>free_blocks := (free_blocks m)[i :=
                       current\<lparr>page_count := u32_add (page_count current) (page_count nxt),
                               next_block := next_block nxt\<rparr>],
                    free_block_count := usize_sub (free_block_count m) 1,
                    stats := record_coalesce (stats m)\<rparr>) i
          else f m (next_block current))
        else f m (next_block current))) = Some r \<Longrightarrow> coalesce_loop m i = Some r"
    by (subst coalesce_loop.simps) (auto simp: Let_def split: if_splits Option.bind_splits)
qed

section \<open>Extents under allocation and release\<close>

lemma spaced_take:
  assumes "spaced d lo (xs @ (s, c) # ys)" and "0 < n" and "n \<le> c"
  shows "spaced d lo (xs @ (if n = c then [] else [(s + n, c - n)]) @ ys)"
  using assms
proof (induction xs arbitrary: lo)
  case Nil
  then show ?case by (auto intro: spaced_mono)
next
  case (Cons x xs)
  then show ?case by (cases x) auto
qed

lemma spaced_disjoint:
  assumes "spaced d lo (xs @ (s, c) # ys)"
  shows "{s..<s + c} \<inter> cover (xs @ ys) = {}"
  using assms
proof (induction xs arbitrary: lo)
  case Nil
  then have "cover ys \<subseteq> {s + c + d..<MAX_PAGES}" using spaced_bounds [of d "s + c + d" ys] by simp
  then show ?case by auto
next
  case (Cons x xs)
  obtain a b where x: "x = (a, b)" by (cases x)
  with Cons have sp: "spaced d (a + b + d) (xs @ (s, c) # ys)" and ih: "{s..<s + c} \<inter> cover (xs @ ys) = {}"
    by auto
  from spaced_bounds [OF sp] have "{s..<s + c} \<subseteq> {a + b..<MAX_PAGES}" by auto
  with ih x show ?case by auto
qed

lemma cover_take:
  assumes "spaced d lo (xs @ (s, c) # ys)" and "0 < n" and "n \<le> c"
  shows "cover (xs @ (if n = c then [] else [(s + n, c - n)]) @ ys) =
         cover (xs @ (s, c) # ys) - {s..<s + n}"
proof -
  have "\<forall>x. s \<le> x \<and> x < s + c \<longrightarrow> x \<notin> cover xs \<and> x \<notin> cover ys"
    using spaced_disjoint [OF assms(1)] by auto
  with assms(2,3) show ?thesis by (auto dest: less_le_trans [where z = "s + c"])
qed

lemma spaced_insert:
  assumes "spaced 0 lo (xs @ ys)" and "{s..<s + n} \<inter> cover (xs @ ys) = {}"
    and "0 < n" and "s + n \<le> MAX_PAGES" and "lo \<le> s"
    and "\<And>b. b \<in> set xs \<Longrightarrow> fst b \<le> s" and "\<And>b. b \<in> set ys \<Longrightarrow> s < fst b"
  shows "spaced 0 lo (xs @ (s, n) # ys)"
  using assms
proof (induction xs arbitrary: lo)
  case Nil
  have "spaced 0 (s + n) ys"
  proof (cases ys)
    case (Cons y zs)
    obtain a b where y: "y = (a, b)" by (cases y)
    have "s < a" "0 < b" using Nil.prems(1) Nil.prems(7) [of y] Cons y by auto
    moreover have "s + n \<le> a"
    proof (rule ccontr)
      assume "\<not> s + n \<le> a"
      with \<open>s < a\<close> \<open>0 < b\<close> have "a \<in> {s..<s + n} \<inter> cover ([] @ ys)" using Cons y by auto
      with Nil show False by blast
    qed
    ultimately show ?thesis using Nil Cons y by auto
  qed simp
  with Nil show ?case by simp
next
  case (Cons x xs)
  obtain a b where x: "x = (a, b)" by (cases x)
  have ab: "a \<le> s" "0 < b" "a + b \<le> MAX_PAGES" "lo \<le> a" "spaced 0 (a + b) (xs @ ys)"
    using Cons.prems(1) Cons.prems(6) [of x] x by auto
  moreover have "a + b \<le> s"
  proof (rule ccontr)
    assume "\<not> a + b \<le> s"
    with ab have "s \<in> {a..<a + b}" by auto
    moreover have "s \<in> {s..<s + n}" using Cons.prems(3) by simp
    ultimately have "s \<in> {s..<s + n} \<inter> cover ((x # xs) @ ys)" using x by simp
    with Cons.prems(2) show False by blast
  qed
  moreover have "spaced 0 (a + b) (xs @ (s, n) # ys)"
    using Cons.prems ab \<open>a + b \<le> s\<close> x by (intro Cons.IH) auto
  ultimately show ?case using x by simp
qed

lemma spaced_sorted_split:
  assumes "spaced d lo (map (extent fb) is)"
  obtains xs ys where "is = xs @ ys" and "\<And>i. i \<in> set xs \<Longrightarrow> start_page (fb ! i) \<le> s"
    and "\<And>i. i \<in> set ys \<Longrightarrow> s < start_page (fb ! i)"
proof
  let ?xs = "takeWhile (\<lambda>i. start_page (fb ! i) \<le> s) is"
  let ?ys = "dropWhile (\<lambda>i. start_page (fb ! i) \<le> s) is"
  show "is = ?xs @ ?ys" by simp
  show "start_page (fb ! i) \<le> s" if "i \<in> set ?xs" for i
    using that by (auto dest: set_takeWhileD)
  have "\<forall>i \<in> set (dropWhile (\<lambda>i. start_page (fb ! i) \<le> s) is). s < start_page (fb ! i)"
    using assms(1)
  proof (induction "is" arbitrary: lo)
    case (Cons i "is")
    show ?case
    proof (cases "start_page (fb ! i) \<le> s")
      case True
      with Cons show ?thesis by (auto simp: extent_def)
    next
      case False
      have "\<forall>j \<in> set is. start_page (fb ! i) < start_page (fb ! j)"
      proof
        fix j assume j: "j \<in> set is"
        have sp: "spaced d (start_page (fb ! i) + page_count (fb ! i) + d) (map (extent fb) is)"
          and pos: "0 < page_count (fb ! i)"
          using Cons.prems by (auto simp: extent_def [of fb i])
        obtain us vs where "is = us @ j # vs" using j by (meson split_list)
        with sp have "spaced d (start_page (fb ! i) + page_count (fb ! i) + d)
            (map (extent fb) us @ extent fb j # map (extent fb) vs)" by simp
        then have "0 < page_count (fb ! j)"
          by (auto simp: spaced_append extent_def)
        then have "start_page (fb ! j) \<in> cover (map (extent fb) is)"
          using j by (auto simp: cover_def extent_def intro!: bexI [of _ j])
        with spaced_bounds [OF sp] pos show "start_page (fb ! i) < start_page (fb ! j)" by auto
      qed
      with False show ?thesis by auto
    qed
  qed simp
  then show "s < start_page (fb ! i)" if "i \<in> set ?ys" for i
    using that by simp
qed

section \<open>Marking pages\<close>

lemma mark_allocated_ok:
  assumes "start + n \<le> length pgs"
  shows "\<exists>pgs'. mark_allocated start n pgs = Some pgs' \<and> length pgs' = length pgs \<and>
    (\<forall>p < length pgs. pgs' ! p = (if start \<le> p \<and> p < start + n
       then Allocated (if p = start then as_u16 n else 0) else pgs ! p))"
  unfolding mark_allocated_def
  by (rule for_range_rule [where I = "\<lambda>k ps. length ps = length pgs \<and>
      (\<forall>p < length pgs. ps ! p = (if start \<le> p \<and> p < start + k
         then Allocated (if p = start then as_u16 n else 0) else pgs ! p))"])
    (use assms in \<open>auto simp: nth_list_update\<close>)

lemma mark_free_ok:
  assumes "start + n \<le> length pgs"
  shows "\<exists>pgs'. mark_free start n pgs = Some pgs' \<and> length pgs' = length pgs \<and>
    (\<forall>p < length pgs. pgs' ! p = (if start \<le> p \<and> p < start + n then Free else pgs ! p))"
  unfolding mark_free_def
  by (rule for_range_rule [where I = "\<lambda>k ps. length ps = length pgs \<and>
      (\<forall>p < length pgs. ps ! p = (if start \<le> p \<and> p < start + k then Free else pgs ! p))"])
    (use assms in \<open>auto simp: nth_list_update\<close>)

declare first_free_page.simps [simp del]

lemma first_free_page_all_used:
  assumes "start + n \<le> length pgs" and "\<And>p. start + i \<le> p \<Longrightarrow> p < start + n \<Longrightarrow> pgs ! p \<noteq> Free"
  shows "first_free_page pgs start n i = Some None"
  using assms
proof (induction pgs start n i rule: first_free_page.induct)
  case (1 pgs start count i)
  show ?case
  proof (cases "i < count")
    case True
    then obtain k where k: "pgs ! (start + i) = Allocated k"
      using "1.prems"(2) [of "start + i"] by (cases "pgs ! (start + i)") auto
    then have "first_free_page pgs start count (Suc i) = Some None"
      using True "1.prems" by (intro "1.IH" [of "Allocated k" k]) auto
    with True k "1.prems"(1) show ?thesis by (simp add: first_free_page.simps [of pgs start count i])
  next
    case False
    then show ?thesis by (simp add: first_free_page.simps [of pgs start count i])
  qed
qed

lemma first_free_page_hit:
  assumes "start + i \<le> p" and "p < start + n" and "p < length pgs" and "pgs ! p = Free"
    and "\<And>q. start + i \<le> q \<Longrightarrow> q < p \<Longrightarrow> pgs ! q \<noteq> Free"
  shows "first_free_page pgs start n i = Some (Some p)"
  using assms
proof (induction pgs start n i rule: first_free_page.induct)
  case (1 pgs start count i)
  show ?case
  proof (cases "p = start + i")
    case True
    with 1 show ?thesis by (simp add: first_free_page.simps [of pgs start count i])
  next
    case False
    then obtain k where k: "pgs ! (start + i) = Allocated k"
      using "1.prems"(1) "1.prems"(5) [of "start + i"] by (cases "pgs ! (start + i)") auto
    have "first_free_page pgs start count (Suc i) = Some (Some p)"
      using False "1.prems" k by (intro "1.IH" [of "Allocated k" k]) auto
    with False k "1.prems" show ?thesis by (simp add: first_free_page.simps [of pgs start count i])
  qed
qed

end
