(* ===== verification/Memory_Inv.thy ===== *)
theory Memory_Inv
  imports Memory_Lists
begin

text \<open>
  The invariant of the page allocator and its preservation.

  \<open>mm_wf m is\<close> says that the free list of \<open>m\<close> runs through the array entries \<open>is\<close>, in
  address order and with a gap between any two neighbours, that its extents cover exactly
  the pages in state \<open>Free\<close>, and that the counters agree with the page states.
  Allocation and release are taken apart into the steps of the code (choose a block, mark
  the pages, take the block or link a new one, coalesce), each with its own lemma.
\<close>

section \<open>The invariant\<close>

definition free_set :: "MemoryManager \<Rightarrow> nat set" where
  "free_set m = {p. p < MAX_PAGES \<and> pages m ! p = Free}"

definition used_set :: "MemoryManager \<Rightarrow> nat set" where
  "used_set m = {p. p < MAX_PAGES \<and> pages m ! p \<noteq> Free}"

definition mm_wf :: "MemoryManager \<Rightarrow> nat list \<Rightarrow> bool" where
  "mm_wf m is \<longleftrightarrow>
     length (pages m) = MAX_PAGES \<and> linked (free_blocks m) is \<and>
     free_list_head m = first is INVALID_PAGE \<and> free_block_count m = length is \<and>
     spaced 1 0 (map (extent (free_blocks m)) is) \<and>
     cover (map (extent (free_blocks m)) is) = free_set m \<and>
     allocated_pages m = card (used_set m) \<and>
     st_current_pages (stats m) = word_of_nat (card (used_set m)) \<and>
     st_current_pages (stats m) \<le> st_peak_pages (stats m)"

definition mm_inv :: "MemoryManager \<Rightarrow> bool" where
  "mm_inv m \<longleftrightarrow> (\<exists>is. mm_wf m is)"

lemma finite_page_sets [simp]: "finite (free_set m)" "finite (used_set m)"
  by (auto simp: free_set_def used_set_def)

lemma page_sets: "free_set m \<union> used_set m = {..<MAX_PAGES}" "free_set m \<inter> used_set m = {}"
  by (auto simp: free_set_def used_set_def)

lemma used_le: "used_set m \<subseteq> {..<MAX_PAGES}"
  by (auto simp: used_set_def)

lemma card_used_le: "card (used_set m) \<le> MAX_PAGES"
  using card_mono [OF _ used_le] by simp

lemma card_page_sets: "card (free_set m) + card (used_set m) = MAX_PAGES"
  using page_sets card_Un_disjoint [of "free_set m" "used_set m"] by simp

lemma free_page_count_eq: "mm_inv m \<Longrightarrow> free_page_count m = card (free_set m)"
  using card_page_sets [of m] card_used_le [of m]
  by (auto simp: mm_inv_def mm_wf_def free_page_count_def no_wrap mem_consts)

lemma mm_wf_length: "mm_wf m is \<Longrightarrow> length is \<le> MAX_PAGES"
proof -
  assume wf: "mm_wf m is"
  then have "length is \<le> card (free_set m)"
    using spaced_length [of 1 0 "map (extent (free_blocks m)) is"] by (simp add: mm_wf_def)
  then show ?thesis using card_page_sets [of m] by simp
qed

lemma mm_wf_entry:
  assumes "mm_wf m is" and "i \<in> set is"
  shows "i < MAX_PAGES" and "start_page (free_blocks m ! i) + page_count (free_blocks m ! i) \<le> MAX_PAGES"
    and "0 < page_count (free_blocks m ! i)"
    and "{start_page (free_blocks m ! i)..<start_page (free_blocks m ! i) + page_count (free_blocks m ! i)} \<subseteq> free_set m"
proof -
  obtain xs ys where "is = xs @ i # ys" using assms(2) by (meson split_list)
  with assms show "start_page (free_blocks m ! i) + page_count (free_blocks m ! i) \<le> MAX_PAGES"
    and "0 < page_count (free_blocks m ! i)"
    by (auto simp: mm_wf_def spaced_append extent_def)
  show "i < MAX_PAGES" using assms by (auto simp: mm_wf_def)
  have "extent (free_blocks m) i \<in> set (map (extent (free_blocks m)) is)" using assms(2) by simp
  then show "{start_page (free_blocks m ! i)..<start_page (free_blocks m ! i) + page_count (free_blocks m ! i)} \<subseteq> free_set m"
    using assms by (force simp: mm_wf_def cover_def extent_def)
qed

theorem mm_default_wf: "mm_wf mm_default [0]"
proof -
  have pos: "0 < MAX_PAGES" "as_u32 MAX_PAGES = MAX_PAGES"
    by (auto simp: mem_consts as_u32_def)
  have "free_set mm_default = {..<MAX_PAGES}" and "used_set mm_default = {}"
    by (auto simp: free_set_def used_set_def mm_default_def mm_init_def mm_new_def)
  with pos show ?thesis
    by (auto simp: mm_wf_def linked_def mm_default_def mm_init_def mm_new_def stats_new_def
        FreeBlock_new_def extent_def lessThan_atLeast0)
qed

section \<open>Allocation\<close>

lemma remove_free_block_ok:
  assumes "linked (free_blocks m) (xs @ b # ys)"
    and "free_list_head m = first (xs @ b # ys) INVALID_PAGE"
    and "free_block_count m = length (xs @ b # ys)" and "free_block_count m < USIZE_MOD"
  shows "\<exists>fb'. remove_free_block m b = Some (m\<lparr>free_blocks := fb',
       free_list_head := first (xs @ ys) INVALID_PAGE, free_block_count := length (xs @ ys)\<rparr>) \<and>
     linked fb' (xs @ ys) \<and> map (extent fb') (xs @ ys) = map (extent (free_blocks m)) (xs @ ys)"
proof (cases xs rule: rev_cases)
  case Nil
  with assms have b: "b < MAX_PAGES" "next_block (free_blocks m ! b) = first ys INVALID_PAGE"
      "linked (free_blocks m) ys" "length (free_blocks m) = MAX_PAGES"
    by (auto simp: linked_Cons linked_length)
  with assms Nil show ?thesis
    by (intro exI [of _ "free_blocks m"]) (simp add: remove_free_block_def no_wrap)
next
  case (snoc zs j)
  let ?fb' = "(free_blocks m)[j := (free_blocks m ! j)\<lparr>next_block := first ys INVALID_PAGE\<rparr>]"
  have l: "linked (free_blocks m) (zs @ j # b # ys)" using assms(1) snoc by simp
  have d: "distinct (zs @ j # b # ys)" and len: "length (free_blocks m) = MAX_PAGES"
    using l by (auto simp: linked_def)
  have jb: "j < MAX_PAGES" "b < MAX_PAGES" using l by auto
  have "free_list_head m \<noteq> b" using assms(2) snoc d by (cases zs) auto
  then have "remove_free_block m b = Some (m\<lparr>free_blocks := ?fb',
       free_list_head := first (xs @ ys) INVALID_PAGE, free_block_count := length (xs @ ys)\<rparr>)"
    using remove_loop [OF l] assms(2-4) snoc jb by (simp add: remove_free_block_def no_wrap)
  moreover have "linked ?fb' (xs @ ys)"
    using l d len jb snoc by (simp add: linked_def)
  moreover have "map (extent ?fb') (xs @ ys) = map (extent (free_blocks m)) (xs @ ys)"
    using d len jb snoc by (auto simp: extent_def nth_list_update)
  ultimately show ?thesis by blast
qed

text \<open>Taking \<open>n\<close> pages from the front of block \<open>b\<close>: the block leaves the list or shrinks.\<close>

definition take_block :: "MemoryManager \<Rightarrow> nat \<Rightarrow> nat \<Rightarrow> MemoryManager option" where
  "take_block m b n =
     (let block = free_blocks m ! b in
      if page_count block = n then remove_free_block m b
      else Some (m\<lparr>free_blocks := (free_blocks m)[b :=
             block\<lparr>start_page := u32_add (start_page block) n,
                   page_count := u32_sub (page_count block) n\<rparr>]\<rparr>))"

lemma take_block_ok:
  assumes wf: "mm_wf m is" and b: "b \<in> set is" and n: "0 < n" "n \<le> page_count (free_blocks m ! b)"
  shows "\<exists>fb' is'. take_block m b n = Some (m\<lparr>free_blocks := fb',
        free_list_head := first is' INVALID_PAGE, free_block_count := length is'\<rparr>) \<and>
     linked fb' is' \<and> spaced 1 0 (map (extent fb') is') \<and>
     cover (map (extent fb') is') =
       free_set m - {start_page (free_blocks m ! b)..<start_page (free_blocks m ! b) + n}"
proof -
  let ?fb = "free_blocks m"
  let ?s = "start_page (?fb ! b)" and ?c = "page_count (?fb ! b)"
  obtain xs ys where is_eq: "is = xs @ b # ys" using b by (meson split_list)
  have l: "linked ?fb (xs @ b # ys)" and d: "distinct (xs @ b # ys)" and len: "length ?fb = MAX_PAGES"
    and sp: "spaced 1 0 (map (extent ?fb) xs @ (?s, ?c) # map (extent ?fb) ys)"
    and cov: "cover (map (extent ?fb) xs @ (?s, ?c) # map (extent ?fb) ys) = free_set m"
    using wf is_eq by (auto simp: mm_wf_def linked_def extent_def [of ?fb b])
  note entry = mm_wf_entry [OF wf b]
  show ?thesis
  proof (cases "?c = n")
    case True
    have "free_list_head m = first (xs @ b # ys) INVALID_PAGE"
      and "free_block_count m = length (xs @ b # ys)" "free_block_count m < USIZE_MOD"
      using wf is_eq mm_wf_length [OF wf] by (auto simp: mm_wf_def mem_consts)
    from remove_free_block_ok [OF l this] obtain fb' where
      "remove_free_block m b = Some (m\<lparr>free_blocks := fb',
         free_list_head := first (xs @ ys) INVALID_PAGE, free_block_count := length (xs @ ys)\<rparr>)"
      "linked fb' (xs @ ys)" and ext: "map (extent fb') (xs @ ys) = map (extent ?fb) (xs @ ys)"
      by blast
    moreover have "spaced 1 0 (map (extent fb') (xs @ ys))"
      using spaced_take [OF sp n] True unfolding ext by simp
    moreover have "cover (map (extent fb') (xs @ ys)) = free_set m - {?s..<?s + n}"
      using cover_take [OF sp n] cov True unfolding ext by simp
    moreover have "take_block m b n = remove_free_block m b" using True by (simp add: take_block_def)
    ultimately show ?thesis by (intro exI [of _ fb'] exI [of _ "xs @ ys"]) (simp only: simp_thms)
  next
    case False
    let ?fb' = "?fb[b := (?fb ! b)\<lparr>start_page := ?s + n, page_count := ?c - n\<rparr>]"
    have ext: "map (extent ?fb') is = map (extent ?fb) xs @ (?s + n, ?c - n) # map (extent ?fb) ys"
      using d len entry(1) is_eq by (simp add: extent_def [of ?fb' b])
    have "take_block m b n = Some (m\<lparr>free_blocks := ?fb',
        free_list_head := first is INVALID_PAGE, free_block_count := length is\<rparr>)"
      using wf False entry n
      by (cases m) (simp add: take_block_def mm_wf_def no_wrap mem_consts Let_def)
    moreover have "linked ?fb' is"
      using l d len entry(1) is_eq by (simp add: linked_def)
    moreover have "spaced 1 0 (map (extent ?fb') is)"
      using spaced_take [OF sp n] False n unfolding ext by simp
    moreover have "cover (map (extent ?fb') is) = free_set m - {?s..<?s + n}"
      using cover_take [OF sp n] cov False n unfolding ext by simp
    ultimately show ?thesis by blast
  qed
qed


lemma take_block_pages:
  "take_block (m\<lparr>pages := pgs\<rparr>) b n = map_option (\<lambda>m'. m'\<lparr>pages := pgs\<rparr>) (take_block m b n)"
  by (auto simp: take_block_def remove_free_block_def Let_def map_option_case
      split: option.splits Option.bind_splits)

lemma allocate_pages_eq:
  assumes "mm_wf m is" and "0 < n" and "n \<le> MAX_PAGES"
  shows "allocate_pages m n = (case pick (strategy m) (free_blocks m) n is None 0 of
      None \<Rightarrow> Some (Err (OutOfMemory n (free_page_count m)), m\<lparr>stats := record_failure (stats m)\<rparr>)
    | Some b \<Rightarrow> Option.bind (mark_allocated (start_page (free_blocks m ! b)) n (pages m)) (\<lambda>pgs.
        Option.bind (take_block (m\<lparr>pages := pgs\<rparr>) b n) (\<lambda>m2.
          Some (Ok (usize_mul (start_page (free_blocks m ! b)) PAGE_SIZE),
            m2\<lparr>allocated_pages := usize_add (allocated_pages m2) n,
               stats := record_allocation (stats m2) n\<rparr>))))"
proof -
  have n: "as_u32 n = n" using assms by (simp add: no_wrap mem_consts)
  have l: "linked (free_blocks m) is" "free_list_head m = first is INVALID_PAGE"
    using assms by (auto simp: mm_wf_def)
  have f: "find_free_block m n = Some (pick (strategy m) (free_blocks m) n is None 0)"
    by (simp add: find_free_block_def n l find_loop_eq)
  show ?thesis
  proof (cases "pick (strategy m) (free_blocks m) n is None 0")
    case (Some b)
    with assms have "b \<in> set is" "n \<le> page_count (free_blocks m ! b)" by (auto dest: pick_in)
    moreover from this have "b < length (free_blocks m)" using l(1) by (auto simp: linked_length)
    ultimately show ?thesis using assms
      by (simp add: allocate_pages_def f n Some take_block_def Let_def cong: if_cong)
  qed (use assms in \<open>simp add: allocate_pages_def f n\<close>)
qed

lemma used_set_grow:
  assumes "\<And>p. p < MAX_PAGES \<Longrightarrow> pages m' ! p =
      (if s \<le> p \<and> p < s + n then Allocated (c p) else pages m ! p)"
    and "s + n \<le> MAX_PAGES"
  shows "used_set m' = used_set m \<union> {s..<s + n}" and "free_set m' = free_set m - {s..<s + n}"
  using assms by (auto simp: used_set_def free_set_def split: if_splits)

lemma peak_record_allocation:
  "st_current_pages (record_allocation s n) \<le> st_peak_pages (record_allocation s n)"
  by (auto simp: record_allocation_def Let_def)

lemma current_record_allocation [simp]:
  "st_current_pages (record_allocation s n) = st_current_pages s + word_of_nat n"
  by (auto simp: record_allocation_def Let_def)

lemma allocate_block_ok:
  assumes wf: "mm_wf m is" and n: "0 < n" "n \<le> MAX_PAGES"
    and b: "pick (strategy m) (free_blocks m) n is None 0 = Some b"
  defines "s \<equiv> start_page (free_blocks m ! b)"
  shows "\<exists>m'. allocate_pages m n = Some (Ok (s * PAGE_SIZE), m') \<and> mm_inv m' \<and>
     {s..<s + n} \<subseteq> free_set m \<and> s + n \<le> MAX_PAGES \<and> strategy m' = strategy m \<and>
     stats m' = record_allocation (stats m) n \<and>
     (\<forall>p < MAX_PAGES. pages m' ! p = (if s \<le> p \<and> p < s + n
        then Allocated (if p = s then n else 0) else pages m ! p))"
proof -
  have b': "b \<in> set is" "n \<le> page_count (free_blocks m ! b)" using b by (auto dest: pick_in)
  have sn: "s + n \<le> MAX_PAGES" "{s..<s + n} \<subseteq> free_set m"
    using mm_wf_entry(2,4) [OF wf b'(1)] b'(2) by (auto simp: s_def)
  have len: "length (pages m) = MAX_PAGES" using wf by (simp add: mm_wf_def)
  have n16: "as_u16 n = n" using n by (simp add: as_u16_def mem_consts)
  obtain pgs where
    pgs: "mark_allocated s n (pages m) = Some pgs" "length pgs = MAX_PAGES"
      "\<forall>p < MAX_PAGES. pgs ! p = (if s \<le> p \<and> p < s + n
        then Allocated (if p = s then n else 0) else pages m ! p)"
    using mark_allocated_ok [of s n "pages m", unfolded len n16, OF sn(1)] by blast
  obtain fb' is' where
    tb: "take_block m b n = Some (m\<lparr>free_blocks := fb', free_list_head := first is' INVALID_PAGE,
           free_block_count := length is'\<rparr>)"
      "linked fb' is'" "spaced 1 0 (map (extent fb') is')"
      "cover (map (extent fb') is') = free_set m - {s..<s + n}"
    using take_block_ok [OF wf b'(1) n(1) b'(2), folded s_def] by (elim exE conjE) (rule that)
  let ?m' = "m\<lparr>pages := pgs, free_blocks := fb', free_list_head := first is' INVALID_PAGE,
    free_block_count := length is', allocated_pages := allocated_pages m + n,
    stats := record_allocation (stats m) n\<rparr>"
  have al: "allocated_pages m = card (used_set m)" using wf by (simp add: mm_wf_def)
  have sets: "used_set ?m' = used_set m \<union> {s..<s + n}" "free_set ?m' = free_set m - {s..<s + n}"
    using used_set_grow [of ?m' s n "\<lambda>p. if p = s then n else 0" m] pgs(3) sn(1) by simp_all
  have card: "card (used_set ?m') = card (used_set m) + n"
    unfolding sets using sn(2) page_sets(2) [of m] by (subst card_Un_disjoint) auto
  have "usize_add (allocated_pages m) n = allocated_pages m + n"
    using card card_used_le [of ?m'] al by (simp add: no_wrap mem_consts)
  moreover have "usize_mul s PAGE_SIZE = s * PAGE_SIZE"
    using sn by (simp add: no_wrap mem_consts)
  ultimately have "allocate_pages m n = Some (Ok (s * PAGE_SIZE), ?m')"
    using pgs(1) tb(1)
    by (simp add: allocate_pages_eq [OF wf n] b take_block_pages flip: s_def)
  moreover have "mm_wf ?m' is'"
    using wf pgs(2) tb(2-4) sets card peak_record_allocation [of "stats m" n] by (simp add: mm_wf_def)
  ultimately show ?thesis using sn pgs(3) by (intro exI [of _ ?m']) (auto simp: mm_inv_def)
qed

lemma free_run_block:
  assumes "mm_wf m is" and "{s..<s + n} \<subseteq> free_set m" and "0 < n"
  shows "\<exists>i \<in> set is. start_page (free_blocks m ! i) \<le> s \<and>
     s + n \<le> start_page (free_blocks m ! i) + page_count (free_blocks m ! i)"
proof -
  have "\<exists>(a, c) \<in> set (map (extent (free_blocks m)) is). a \<le> s \<and> s + n \<le> a + c"
    by (rule run_in_block [where lo = 0]) (use assms in \<open>simp_all add: mm_wf_def\<close>)
  then show ?thesis by (auto simp: extent_def)
qed

lemma allocate_none_ok:
  assumes wf: "mm_wf m is" and n: "0 < n" "n \<le> MAX_PAGES"
    and b: "pick (strategy m) (free_blocks m) n is None 0 = None"
  shows "allocate_pages m n = Some (Err (OutOfMemory n (card (free_set m))),
           m\<lparr>stats := record_failure (stats m)\<rparr>)"
    and "\<not> {s..<s + n} \<subseteq> free_set m"
proof -
  show "allocate_pages m n = Some (Err (OutOfMemory n (card (free_set m))),
           m\<lparr>stats := record_failure (stats m)\<rparr>)"
    using wf free_page_count_eq [of m] by (auto simp: allocate_pages_eq [OF wf n] b mm_inv_def)
  show "\<not> {s..<s + n} \<subseteq> free_set m"
  proof
    assume "{s..<s + n} \<subseteq> free_set m"
    from free_run_block [OF wf this n(1)] obtain i where "i \<in> set is" "n \<le> page_count (free_blocks m ! i)"
      by auto
    with b show False by (auto simp: pick_None_iff)
  qed
qed

lemma mm_inv_stats:
  "mm_inv m \<Longrightarrow> st_current_pages s = st_current_pages (stats m) \<Longrightarrow>
   st_peak_pages s = st_peak_pages (stats m) \<Longrightarrow> mm_inv (m\<lparr>stats := s\<rparr>)"
  by (auto simp: mm_inv_def mm_wf_def used_set_def free_set_def)

section \<open>Release\<close>

lemma add_free_block_ok:
  assumes l: "linked (free_blocks m) is" and hd: "free_list_head m = first is INVALID_PAGE"
    and cnt: "free_block_count m = length is" and sp: "spaced 0 0 (map (extent (free_blocks m)) is)"
    and sn: "0 < n" "s + n \<le> MAX_PAGES"
    and dis: "{s..<s + n} \<inter> cover (map (extent (free_blocks m)) is) = {}"
  shows "\<exists>fb' is'. add_free_block m s n = Some (m\<lparr>free_blocks := fb',
        free_list_head := first is' INVALID_PAGE, free_block_count := length is'\<rparr>) \<and>
     linked fb' is' \<and> is' \<noteq> [] \<and> spaced 0 0 (map (extent fb') is') \<and> length is' \<le> MAX_PAGES \<and>
     cover (map (extent fb') is') = cover (map (extent (free_blocks m)) is) \<union> {s..<s + n}"
proof -
  let ?fb = "free_blocks m"
  have "s \<in> {s..<s + n}" using sn by simp
  then have s: "s < MAX_PAGES" "s \<notin> cover (map (extent ?fb) is)" using sn dis by (simp, blast)
  obtain xs ys where xy: "is = xs @ ys" and xs: "\<And>i. i \<in> set xs \<Longrightarrow> start_page (?fb ! i) \<le> s"
    and ys: "\<And>i. i \<in> set ys \<Longrightarrow> s < start_page (?fb ! i)"
    using spaced_sorted_split [OF sp] by metis
  have ip: "insertion_point ?fb s None (free_list_head m) =
      Some (if xs = [] then None else Some (last xs), first ys INVALID_PAGE)"
    unfolding hd xy by (rule insertion_point_eq) (use l xy xs ys in auto)
  from free_slot_exists [OF l sp s] obtain k where "k < MAX_PAGES" "k \<notin> set is" by blast
  from find_slot_eq [OF l _ this, of 0] obtain j where
    j: "find_free_block_slot m = Some j" "j < MAX_PAGES" "j \<notin> set is"
    by (auto simp: find_free_block_slot_def hd)
  let ?e = "\<lparr>start_page = s, page_count = n, next_block = first ys INVALID_PAGE\<rparr>"
  let ?fb' = "if xs = [] then ?fb[j := ?e]
              else ?fb[j := ?e, last xs := (?fb ! last xs)\<lparr>next_block := j\<rparr>]"
  have len: "length ?fb = MAX_PAGES" and d: "distinct is" using l by (auto simp: linked_def)
  have j32: "as_u32 j = j" using j by (simp add: no_wrap mem_consts)
  have "set is \<subseteq> {..<MAX_PAGES}" using l by (auto dest: linked_bound)
  then have "length is < MAX_PAGES"
    using distinct_card [of "j # is"] card_mono [of "{..<MAX_PAGES}" "set (j # is)"] j d by auto
  then have cnt': "usize_add (length is) 1 = length (xs @ j # ys)" "length (xs @ j # ys) \<le> MAX_PAGES"
    using xy by (auto simp: no_wrap mem_consts)
  have last: "last xs < MAX_PAGES" "last xs \<noteq> j" if "xs \<noteq> []"
    using linked_bound [OF l, of "last xs"] j(3) xy last_in_set [OF that] by auto
  have "add_free_block m s n = Some (m\<lparr>free_blocks := ?fb',
        free_list_head := first (xs @ j # ys) INVALID_PAGE, free_block_count := length (xs @ j # ys)\<rparr>)"
    using ip j len j32 cnt cnt' last hd xy
    by (cases xs) (simp_all add: add_free_block_def Let_def)
  moreover have "linked ?fb' (xs @ j # ys)"
  proof (cases xs rule: rev_cases)
    case Nil
    with l xy j show ?thesis by (simp add: linked_def)
  next
    case (snoc zs i)
    with l xy j last show ?thesis by (auto simp: linked_def)
  qed
  moreover have ext: "map (extent ?fb') (xs @ j # ys) =
      map (extent ?fb) xs @ (s, n) # map (extent ?fb) ys"
    using j len last xy by (auto simp: extent_def nth_list_update)
  moreover have "spaced 0 0 (map (extent ?fb) xs @ (s, n) # map (extent ?fb) ys)"
    by (rule spaced_insert) (use sp sn dis xs ys xy in \<open>auto simp: extent_def\<close>)
  moreover have "cover (map (extent ?fb) xs @ (s, n) # map (extent ?fb) ys) =
      cover (map (extent ?fb) is) \<union> {s..<s + n}"
    using xy by auto
  ultimately show ?thesis using cnt'(2)
    by (intro exI [of _ ?fb'] exI [of _ "xs @ j # ys"]) (simp only: append_is_Nil_conv simp_thms list.simps)
qed

lemma free_pages_eq:
  assumes "0 < n" and "s = addr div PAGE_SIZE" and "s + n \<le> MAX_PAGES"
  shows "free_pages m addr n = Option.bind (first_free_page (pages m) s n 0) (\<lambda>ff.
      case ff of
        Some p \<Rightarrow> Some (Err (DoubleFree (p * PAGE_SIZE)), m)
      | None \<Rightarrow> Option.bind (mark_free s n (pages m)) (\<lambda>pgs.
          Option.bind (add_free_block (m\<lparr>pages := pgs\<rparr>) s n) (\<lambda>m1.
          Option.bind (coalesce_adjacent m1 s) (\<lambda>m2.
            Some (Ok (), m2\<lparr>allocated_pages := usize_sub (allocated_pages m2) n,
                            stats := record_deallocation (stats m2) n\<rparr>)))))"
proof -
  have s: "s < MAX_PAGES" "as_u32 s = s" "as_u32 n = n" "usize_add s n = s + n"
    using assms by (auto simp: no_wrap mem_consts)
  moreover have "addr < MAX_PAGES * PAGE_SIZE"
    using s(1) assms(2) by (simp add: div_less_iff_less_mult mem_consts)
  ultimately show ?thesis using assms(1,3) by (simp add: free_pages_def Let_def flip: assms(2))
qed

lemma used_set_shrink:
  assumes "\<And>p. p < MAX_PAGES \<Longrightarrow> pages m' ! p = (if s \<le> p \<and> p < s + n then Free else pages m ! p)"
    and "s + n \<le> MAX_PAGES"
  shows "used_set m' = used_set m - {s..<s + n}" and "free_set m' = free_set m \<union> {s..<s + n}"
  using assms by (auto simp: used_set_def free_set_def split: if_splits)

lemma word_of_nat_mono: "a \<le> b \<Longrightarrow> b \<le> MAX_PAGES \<Longrightarrow> (word_of_nat a :: u64) \<le> word_of_nat b"
  by (simp add: word_le_nat_alt unat_of_nat mem_consts)

lemma release_block_ok:
  assumes wf: "mm_wf m is" and sn: "0 < n" "s + n \<le> MAX_PAGES" and used: "{s..<s + n} \<subseteq> used_set m"
  shows "\<exists>m1 fb' is' k. add_free_block (m\<lparr>pages := pgs\<rparr>) s n = Some m1 \<and>
     coalesce_adjacent m1 s = Some (m\<lparr>pages := pgs, free_blocks := fb',
       free_list_head := first is' INVALID_PAGE, free_block_count := length is',
       stats := (stats m)\<lparr>st_coalesce_count := st_coalesce_count (stats m) + word_of_nat k\<rparr>\<rparr>) \<and>
     linked fb' is' \<and> spaced 1 0 (map (extent fb') is') \<and>
     cover (map (extent fb') is') = free_set m \<union> {s..<s + n}"
proof -
  let ?m0 = "m\<lparr>pages := pgs\<rparr>"
  have l: "linked (free_blocks ?m0) is" "free_list_head ?m0 = first is INVALID_PAGE"
      "free_block_count ?m0 = length is" and sp: "spaced 1 0 (map (extent (free_blocks ?m0)) is)"
      and cov: "cover (map (extent (free_blocks ?m0)) is) = free_set m"
    using wf by (simp_all add: mm_wf_def)
  have "{s..<s + n} \<inter> cover (map (extent (free_blocks ?m0)) is) = {}"
    unfolding cov using used page_sets(2) [of m] by blast
  from add_free_block_ok [OF l spaced_weaken [OF sp zero_le] sn this] obtain fb1 is1 where
    a: "add_free_block ?m0 s n = Some (?m0\<lparr>free_blocks := fb1, free_list_head := first is1 INVALID_PAGE,
          free_block_count := length is1\<rparr>)" "linked fb1 is1" "is1 \<noteq> []"
      "spaced 0 0 (map (extent fb1) is1)" "length is1 \<le> MAX_PAGES"
      "cover (map (extent fb1) is1) = free_set m \<union> {s..<s + n}"
    unfolding cov by (elim exE conjE) (rule that)
  let ?m1 = "?m0\<lparr>free_blocks := fb1, free_list_head := first is1 INVALID_PAGE, free_block_count := length is1\<rparr>"
  obtain i js where is1: "is1 = i # js" using a(3) by (cases is1) auto
  have pre: "linked (free_blocks ?m1) (i # js)" "spaced 0 0 (map (extent (free_blocks ?m1)) (i # js))"
      "Suc (length js) \<le> free_block_count ?m1" "free_block_count ?m1 < USIZE_MOD"
    using a(2,4,5) is1 by (simp_all add: mem_consts)
  from coalesce_loop_ok [OF pre] obtain fb' js' k where
    c: "coalesce_loop ?m1 i = Some (?m1\<lparr>free_blocks := fb', free_block_count := free_block_count ?m1 - k,
          stats := (stats ?m1)\<lparr>st_coalesce_count := st_coalesce_count (stats ?m1) + word_of_nat k\<rparr>\<rparr>)"
      "linked fb' (i # js')" "length js = length js' + k"
      "map (extent fb') (i # js') = merge_extents (map (extent (free_blocks ?m1)) (i # js))"
    by (elim exE conjE) (rule that)
  have "coalesce_adjacent ?m1 s = Some (m\<lparr>pages := pgs, free_blocks := fb',
       free_list_head := first (i # js') INVALID_PAGE, free_block_count := length (i # js'),
       stats := (stats m)\<lparr>st_coalesce_count := st_coalesce_count (stats m) + word_of_nat k\<rparr>\<rparr>)"
    using c(1,3) is1 by (simp add: coalesce_adjacent_def)
  moreover have "spaced 1 0 (map (extent fb') (i # js'))"
    unfolding c(4) using pre(2) by (rule merge_spaced)
  moreover have "cover (map (extent fb') (i # js')) = free_set m \<union> {s..<s + n}"
    unfolding c(4) merge_cover using a(6) is1 by simp
  ultimately show ?thesis using a(1) c(2) by (metis (no_types))
qed

lemma free_pages_ok:
  assumes wf: "mm_wf m is" and sn: "0 < n" "s + n \<le> MAX_PAGES" and s: "s = addr div PAGE_SIZE"
    and used: "{s..<s + n} \<subseteq> used_set m"
  shows "\<exists>m' k. free_pages m addr n = Some (Ok (), m') \<and> mm_inv m' \<and> strategy m' = strategy m \<and>
     stats m' = record_deallocation
       ((stats m)\<lparr>st_coalesce_count := st_coalesce_count (stats m) + word_of_nat k\<rparr>) n \<and>
     (\<forall>p < MAX_PAGES. pages m' ! p = (if s \<le> p \<and> p < s + n then Free else pages m ! p))"
proof -
  have len: "length (pages m) = MAX_PAGES" using wf by (simp add: mm_wf_def)
  have ff: "first_free_page (pages m) s n 0 = Some None"
    by (rule first_free_page_all_used) (use used sn len in \<open>auto simp: used_set_def\<close>)
  obtain pgs where pgs: "mark_free s n (pages m) = Some pgs" "length pgs = MAX_PAGES"
      "\<forall>p < MAX_PAGES. pgs ! p = (if s \<le> p \<and> p < s + n then Free else pages m ! p)"
    using mark_free_ok [of s n "pages m", unfolded len, OF sn(2)] by blast
  obtain m1 fb' is' k where
    c: "add_free_block (m\<lparr>pages := pgs\<rparr>) s n = Some m1"
      "coalesce_adjacent m1 s = Some (m\<lparr>pages := pgs, free_blocks := fb',
         free_list_head := first is' INVALID_PAGE, free_block_count := length is',
         stats := (stats m)\<lparr>st_coalesce_count := st_coalesce_count (stats m) + word_of_nat k\<rparr>\<rparr>)"
      "linked fb' is'" "spaced 1 0 (map (extent fb') is')"
      "cover (map (extent fb') is') = free_set m \<union> {s..<s + n}"
    using release_block_ok [OF wf sn used, of pgs] by (elim exE conjE) (rule that)
  let ?st = "record_deallocation
       ((stats m)\<lparr>st_coalesce_count := st_coalesce_count (stats m) + word_of_nat k\<rparr>) n"
  let ?m' = "m\<lparr>pages := pgs, free_blocks := fb', free_list_head := first is' INVALID_PAGE,
    free_block_count := length is', allocated_pages := allocated_pages m - n, stats := ?st\<rparr>"
  have al: "allocated_pages m = card (used_set m)" using wf by (simp add: mm_wf_def)
  have sets: "used_set ?m' = used_set m - {s..<s + n}" "free_set ?m' = free_set m \<union> {s..<s + n}"
    using used_set_shrink [of ?m' s n m] pgs(3) sn(2) by simp_all
  have card: "card (used_set ?m') = card (used_set m) - n" "n \<le> card (used_set m)"
    unfolding sets using card_Diff_subset [OF _ used] card_mono [OF _ used] by simp_all
  have "usize_sub (allocated_pages m) n = allocated_pages m - n"
    using card(2) card_used_le [of m] al by (simp add: no_wrap mem_consts)
  then have "free_pages m addr n = Some (Ok (), ?m')"
    using pgs(1) c(1,2) by (simp add: free_pages_eq [OF sn(1) s sn(2)] ff)
  moreover have "st_current_pages ?st = word_of_nat (card (used_set ?m'))"
    using wf card by (simp add: record_deallocation_def mm_wf_def of_nat_diff)
  moreover have "st_current_pages ?st \<le> st_peak_pages ?st"
  proof -
    have "(word_of_nat (card (used_set m) - n) :: u64) \<le> word_of_nat (card (used_set m))"
      using card_used_le [of m] by (intro word_of_nat_mono) auto
    also have "\<dots> \<le> st_peak_pages (stats m)" using wf unfolding mm_wf_def by metis
    finally show ?thesis using wf card(2) by (simp add: record_deallocation_def mm_wf_def of_nat_diff)
  qed
  ultimately show ?thesis
    using pgs(2,3) c(3-5) sets card al
    by (intro exI [of _ ?m'] exI [of _ k]) (auto simp: mm_inv_def mm_wf_def)
qed

lemma free_pages_double:
  assumes wf: "mm_wf m is" and sn: "0 < n" "s + n \<le> MAX_PAGES" and s: "s = addr div PAGE_SIZE"
    and p: "p \<in> free_set m" "s \<le> p" "p < s + n" "{s..<p} \<subseteq> used_set m"
  shows "free_pages m addr n = Some (Err (DoubleFree (p * PAGE_SIZE)), m)"
proof -
  have "first_free_page (pages m) s n 0 = Some (Some p)"
    by (rule first_free_page_hit) (use wf p in \<open>auto simp: mm_wf_def free_set_def used_set_def\<close>)
  then show ?thesis by (simp add: free_pages_eq [OF sn(1) s sn(2)])
qed

section \<open>Defragmentation\<close>

lemma defragment_noop:
  assumes "mm_inv m"
  shows "defragment m = Some (0, m)"
proof -
  obtain "is" where wf: "mm_wf m is" using assms by (auto simp: mm_inv_def)
  have "linked (free_blocks m) js \<Longrightarrow> spaced 1 lo (map (extent (free_blocks m)) js) \<Longrightarrow>
      defragment_loop m (first js INVALID_PAGE) = Some m" for js lo
  proof (induction js arbitrary: lo)
    case Nil
    show ?case by (simp add: defragment_loop.simps)
  next
    case (Cons i js)
    then have i: "i < MAX_PAGES" "length (free_blocks m) = MAX_PAGES" "linked (free_blocks m) js"
        "next_block (free_blocks m ! i) = first js INVALID_PAGE"
      by (auto simp: linked_Cons linked_length)
    obtain lo' where "spaced 1 lo' (map (extent (free_blocks m)) js)"
      using Cons.prems(2) by (auto simp: extent_def [of _ i])
    from Cons.IH [OF i(3) this] have IH: "defragment_loop m (first js INVALID_PAGE) = Some m" .
    show ?case
    proof (cases js)
      case Nil
      with i IH show ?thesis by (simp add: defragment_loop.simps [of m i])
    next
      case (Cons j ks)
      with Cons.prems i have j: "j < MAX_PAGES"
        "start_page (free_blocks m ! i) + page_count (free_blocks m ! i) < start_page (free_blocks m ! j)"
        "start_page (free_blocks m ! i) + page_count (free_blocks m ! i) \<le> MAX_PAGES"
        by (auto simp: extent_def [of _ i] extent_def [of _ j])
      then have "u32_add (start_page (free_blocks m ! i)) (page_count (free_blocks m ! i)) \<noteq> start_page (free_blocks m ! j)"
        by (simp add: no_wrap mem_consts)
      with j i IH Cons show ?thesis by (simp add: defragment_loop.simps [of m i])
    qed
  qed
  with wf have "defragment_loop m (free_list_head m) = Some m" by (auto simp: mm_wf_def)
  then show ?thesis by (simp add: defragment_def usize_sub_def)
qed

section \<open>Reachable states\<close>

text \<open>The states the manager goes through under any sequence of its operations.\<close>

inductive mem_reachable :: "MemoryManager \<Rightarrow> bool" where
  init: "mem_reachable (with_strategy st)"
| alloc: "mem_reachable m \<Longrightarrow> allocate_pages m n = Some (r, m') \<Longrightarrow> mem_reachable m'"
| release: "mem_reachable m \<Longrightarrow> free_pages m addr n = Some (q, m') \<Longrightarrow> mem_reachable m'"
| defrag: "mem_reachable m \<Longrightarrow> defragment m = Some (k, m') \<Longrightarrow> mem_reachable m'"
| strategy: "mem_reachable m \<Longrightarrow> mem_reachable (set_strategy st m)"

lemma mm_inv_set_strategy: "mm_inv m \<Longrightarrow> mm_inv (set_strategy st m)"
  by (auto simp: mm_inv_def mm_wf_def set_strategy_def used_set_def free_set_def)

lemma mm_inv_with_strategy: "mm_inv (with_strategy st)"
  using mm_inv_set_strategy [of "mm_default" st] mm_default_wf
  by (auto simp: mm_inv_def with_strategy_def mm_default_def)

lemma allocate_pages_inv:
  assumes "mm_inv m"
  shows "\<exists>r m'. allocate_pages m n = Some (r, m') \<and> mm_inv m'"
proof -
  obtain "is" where wf: "mm_wf m is" using assms by (auto simp: mm_inv_def)
  have fail: "mm_inv (m\<lparr>stats := record_failure (stats m)\<rparr>)"
    by (rule mm_inv_stats [OF assms]) (simp_all add: record_failure_def)
  consider "n = 0 \<or> n > MAX_PAGES" | "0 < n" "n \<le> MAX_PAGES" by linarith
  then show ?thesis
  proof cases
    case 1
    with fail show ?thesis by (auto simp: allocate_pages_def)
  next
    case 2
    with allocate_block_ok [OF wf 2] allocate_none_ok(1) [OF wf 2] fail show ?thesis
      by (cases "pick (strategy m) (free_blocks m) n is None 0") fastforce+
  qed
qed

lemma first_free_page_None:
  "first_free_page pgs s n i = Some None \<Longrightarrow> i < n \<Longrightarrow> s + n \<le> length pgs"
proof (induction pgs s n i rule: first_free_page.induct)
  case (1 pgs s n i)
  from "1.prems" obtain k where k: "arr_get pgs (s + i) = Some (Allocated k)"
      "first_free_page pgs s n (Suc i) = Some None"
    by (subst (asm) first_free_page.simps) (auto split: PageState.splits Option.bind_splits)
  then have "s + i < length pgs" by (auto simp: arr_get_def split: if_splits)
  with "1.IH" [OF \<open>i < n\<close> k(1) _ k(2)] "1.prems"(2) show ?case by (cases "Suc i < n") auto
qed

lemma least_free:
  "p \<in> free_set m \<Longrightarrow> s \<le> p \<Longrightarrow>
   \<exists>q. q \<in> free_set m \<and> s \<le> q \<and> q \<le> p \<and> {s..<q} \<subseteq> used_set m"
proof (induction p rule: less_induct)
  case (less p)
  show ?case
  proof (cases "{s..<p} \<subseteq> used_set m")
    case True
    with less.prems show ?thesis by auto
  next
    case False
    then obtain q where "q \<in> {s..<p}" "q \<notin> used_set m" by blast
    then have "s \<le> q" "q < p" "q \<notin> used_set m" by auto
    moreover from this less.prems have "q \<in> free_set m" by (auto simp: free_set_def used_set_def)
    ultimately show ?thesis using less.IH [of q] by (meson less_imp_le order_trans)
  qed
qed

text \<open>
  A release that does not return an error is one of a run of used pages inside the pool,
  whatever the machine addition in its range check gave.
\<close>

lemma free_pages_Ok_range:
  assumes "mm_inv m" and "free_pages m addr n = Some (Ok x, m')"
  shows "0 < n" and "addr div PAGE_SIZE + n \<le> MAX_PAGES"
    and "{addr div PAGE_SIZE..<addr div PAGE_SIZE + n} \<subseteq> used_set m"
proof -
  let ?s = "addr div PAGE_SIZE"
  show n: "0 < n" using assms by (cases n) (auto simp: free_pages_def)
  have len: "length (pages m) = MAX_PAGES" using assms by (auto simp: mm_inv_def mm_wf_def)
  from assms(2) n have ff: "first_free_page (pages m) ?s n 0 = Some None"
    by (auto simp: free_pages_def Let_def split: if_splits option.splits Option.bind_splits)
  from first_free_page_None [OF this n] len show sn: "?s + n \<le> MAX_PAGES" by simp
  show "{?s..<?s + n} \<subseteq> used_set m"
  proof
    fix p
    assume p: "p \<in> {?s..<?s + n}"
    show "p \<in> used_set m"
    proof (rule ccontr)
      assume "p \<notin> used_set m"
      with p sn have "p \<in> free_set m" by (auto simp: used_set_def free_set_def)
      with p least_free [of p m ?s] obtain q where
        "q \<in> free_set m" "?s \<le> q" "q \<le> p" "{?s..<q} \<subseteq> used_set m" by auto
      with p sn len have "first_free_page (pages m) ?s n 0 = Some (Some q)"
        by (intro first_free_page_hit) (auto simp: free_set_def used_set_def)
      with ff show False by simp
    qed
  qed
qed

lemma free_pages_Err_same: "free_pages m addr n = Some (Err e, m') \<Longrightarrow> m' = m"
  by (auto simp: free_pages_def Let_def split: if_splits option.splits Option.bind_splits)

lemma free_pages_inv:
  assumes "mm_inv m" and "free_pages m addr n = Some (r, m')"
  shows "mm_inv m'"
proof (cases r)
  case (Inl e)
  with assms show ?thesis by (auto dest: free_pages_Err_same)
next
  case (Inr x)
  obtain "is" where wf: "mm_wf m is" using assms by (auto simp: mm_inv_def)
  note range = free_pages_Ok_range [OF assms(1) assms(2) [unfolded Inr]]
  from free_pages_ok [OF wf range(1,2) refl range(3)] assms(2) show ?thesis by auto
qed

theorem mem_reachable_inv: "mem_reachable m \<Longrightarrow> mm_inv m"
proof (induction rule: mem_reachable.induct)
  case (alloc m n r m')
  then show ?case using allocate_pages_inv [of m n] by auto
qed (auto intro: mm_inv_with_strategy free_pages_inv mm_inv_set_strategy simp: defragment_noop)

end
