(* ===== verification/Memory_Correct.thy ===== *)
theory Memory_Correct
  imports Memory_Inv
begin

text \<open>
  What the page allocator promises: the specification of every operation on every branch,
  the placement policy of the three strategies, and the contract \<open>page_allocator\<close> its
  clients rely on.
\<close>

section \<open>Maximal free runs and the free list\<close>

definition free_run :: "MemoryManager \<Rightarrow> nat \<Rightarrow> nat \<Rightarrow> bool" where
  "free_run m s c \<longleftrightarrow> 0 < c \<and> {s..<s + c} \<subseteq> free_set m \<and> s + c \<notin> free_set m \<and>
     (0 < s \<longrightarrow> s - 1 \<notin> free_set m)"

lemma spaced_gap:
  assumes "spaced 1 lo (xs @ (s, c) # ys)"
  shows "s + c \<notin> cover (xs @ (s, c) # ys)" and "0 < s \<Longrightarrow> s - 1 \<notin> cover (xs @ (s, c) # ys)"
proof -
  have ys: "cover ys \<subseteq> {s + c + 1..<MAX_PAGES}"
    using assms by (auto simp: spaced_append dest: spaced_bounds)
  have xs: "q + 1 < s" if "q \<in> cover xs" for q
    using assms that
  proof (induction xs arbitrary: lo)
    case (Cons x xs)
    obtain a b where x: "x = (a, b)" by (cases x)
    with Cons.prems have sp: "spaced 1 (a + b + 1) (xs @ (s, c) # ys)" by simp
    then have "a + b + 1 \<le> s"
      using spaced_bounds [OF sp] by (auto simp: spaced_append)
    with Cons.IH [OF sp] Cons.prems(2) x show ?case by auto
  qed simp
  from xs ys show "s + c \<notin> cover (xs @ (s, c) # ys)" by fastforce
  from xs ys show "s - 1 \<notin> cover (xs @ (s, c) # ys)" if "0 < s" using that by fastforce
qed

lemma block_free_run:
  assumes wf: "mm_wf m is" and i: "i \<in> set is"
  shows "free_run m (start_page (free_blocks m ! i)) (page_count (free_blocks m ! i))"
proof -
  obtain xs ys where "is = xs @ i # ys" using i by (meson split_list)
  with wf have "spaced 1 0 (map (extent (free_blocks m)) xs @ extent (free_blocks m) i # map (extent (free_blocks m)) ys)"
    and "cover (map (extent (free_blocks m)) xs @ extent (free_blocks m) i # map (extent (free_blocks m)) ys) = free_set m"
    by (simp_all add: mm_wf_def)
  with spaced_gap mm_wf_entry [OF wf i] show ?thesis
    unfolding extent_def [of _ i] free_run_def by metis
qed

lemma free_run_is_block:
  assumes wf: "mm_wf m is" and run: "free_run m s c"
  shows "\<exists>i \<in> set is. start_page (free_blocks m ! i) = s \<and> page_count (free_blocks m ! i) = c"
proof -
  from run have "{s..<s + c} \<subseteq> free_set m" "0 < c" by (auto simp: free_run_def)
  from free_run_block [OF wf this] obtain i where
    i: "i \<in> set is" "start_page (free_blocks m ! i) \<le> s"
      "s + c \<le> start_page (free_blocks m ! i) + page_count (free_blocks m ! i)" by blast
  let ?a = "start_page (free_blocks m ! i)" and ?b = "page_count (free_blocks m ! i)"
  have sub: "{?a..<?a + ?b} \<subseteq> free_set m" by (rule mm_wf_entry(4) [OF wf i(1)])
  have "?a = s"
  proof (rule ccontr)
    assume "?a \<noteq> s"
    with i(2,3) \<open>0 < c\<close> have "s - 1 \<in> {?a..<?a + ?b}" "0 < s" by auto
    with sub run show False by (auto simp: free_run_def)
  qed
  moreover have "?b = c"
  proof (rule ccontr)
    assume "?b \<noteq> c"
    with i(3) \<open>?a = s\<close> have "s + c \<in> {?a..<?a + ?b}" by auto
    with sub run show False by (auto simp: free_run_def)
  qed
  ultimately show ?thesis using i(1) by blast
qed

lemma spaced_start_le:
  "spaced 1 lo (map (extent fb) (xs @ i # ys)) \<Longrightarrow> j \<in> set (i # ys) \<Longrightarrow>
   start_page (fb ! i) \<le> start_page (fb ! j)"
proof (induction xs arbitrary: lo)
  case Nil
  then have sp: "spaced 1 (start_page (fb ! i) + page_count (fb ! i) + 1) (map (extent fb) ys)"
    by (simp add: extent_def [of _ i])
  show ?case
  proof (cases "j = i")
    case False
    with Nil(2) obtain us vs where "ys = us @ j # vs" by (auto dest: split_list)
    with sp have "spaced 1 (start_page (fb ! i) + page_count (fb ! i) + 1) (map (extent fb) us @ (start_page (fb ! j), page_count (fb ! j)) # map (extent fb) vs)"
      by (simp add: extent_def [of _ j])
    then have "start_page (fb ! j) \<in> cover (map (extent fb) ys)"
      using \<open>ys = _\<close> by (auto simp: spaced_append extent_def [of _ j])
    with spaced_bounds [OF sp] show ?thesis by auto
  qed simp
next
  case (Cons x xs)
  then show ?case by (auto simp: extent_def [of _ x])
qed

section \<open>The contract of a page allocator\<close>

text \<open>
  What a client may assume of \<open>allocate_pages\<close> and \<open>free_pages\<close>: \<open>used\<close> is the set of
  pages that are handed out, \<open>ok\<close> the states the laws hold in.
\<close>

fun run_allocs :: "('s \<Rightarrow> nat \<Rightarrow> ((KernelError + nat) \<times> 's) option) \<Rightarrow> 's \<Rightarrow> nat list \<Rightarrow>
    ((nat \<times> nat) list \<times> 's) option" where
  "run_allocs alloc m [] = Some ([], m)"
| "run_allocs alloc m (n # ns) =
     Option.bind (alloc m n) (\<lambda>(r, m1).
     Option.bind (run_allocs alloc m1 ns) (\<lambda>(bs, m2).
       Some ((case r of Inr a \<Rightarrow> (a div PAGE_SIZE, n) # bs | Inl e \<Rightarrow> bs), m2)))"

fun disjoint_runs :: "nat set \<Rightarrow> (nat \<times> nat) list \<Rightarrow> bool" where
  "disjoint_runs taken [] = True"
| "disjoint_runs taken ((s, n) # bs) =
     ({s..<s + n} \<inter> taken = {} \<and> disjoint_runs (taken \<union> {s..<s + n}) bs)"

locale page_allocator =
  fixes alloc :: "'s \<Rightarrow> nat \<Rightarrow> ((KernelError + nat) \<times> 's) option"
    and release :: "'s \<Rightarrow> nat \<Rightarrow> nat \<Rightarrow> ((KernelError + unit) \<times> 's) option"
    and used :: "'s \<Rightarrow> nat set"
    and ok :: "'s \<Rightarrow> bool"
  assumes alloc_returns: "ok m \<Longrightarrow> \<exists>r m'. alloc m n = Some (r, m') \<and> ok m'"
    and alloc_Ok: "ok m \<Longrightarrow> alloc m n = Some (Inr a, m') \<Longrightarrow>
      \<exists>s. a = s * PAGE_SIZE \<and> 0 < n \<and> s + n \<le> MAX_PAGES \<and> {s..<s + n} \<inter> used m = {} \<and>
          used m' = used m \<union> {s..<s + n}"
    and alloc_Err: "ok m \<Longrightarrow> alloc m n = Some (Inl e, m') \<Longrightarrow> used m' = used m"
    and release_Ok: "ok m \<Longrightarrow> 0 < n \<Longrightarrow> s + n \<le> MAX_PAGES \<Longrightarrow> {s..<s + n} \<subseteq> used m \<Longrightarrow>
      \<exists>m'. release m (s * PAGE_SIZE) n = Some (Inr (), m') \<and> ok m' \<and> used m' = used m - {s..<s + n}"
begin

lemma alloc_release:
  assumes "ok m" and "alloc m n = Some (Inr a, m')"
  shows "\<exists>m''. release m' a n = Some (Inr (), m'') \<and> ok m'' \<and> used m'' = used m"
proof -
  from alloc_Ok [OF assms] obtain s where s: "a = s * PAGE_SIZE" "0 < n" "s + n \<le> MAX_PAGES"
      "{s..<s + n} \<inter> used m = {}" "used m' = used m \<union> {s..<s + n}" by blast
  have "ok m'" using alloc_returns [OF assms(1), of n] assms(2) by auto
  from release_Ok [OF this s(2,3)] s show ?thesis by auto
qed

lemma run_allocs_disjoint:
  "ok m \<Longrightarrow> \<exists>bs m'. run_allocs alloc m ns = Some (bs, m') \<and> ok m' \<and> disjoint_runs (used m) bs \<and>
     used m' = used m \<union> (\<Union>(s, n) \<in> set bs. {s..<s + n}) \<and> (\<forall>(s, n) \<in> set bs. s + n \<le> MAX_PAGES)"
proof (induction ns arbitrary: m)
  case (Cons n ns)
  from alloc_returns [OF Cons.prems] obtain r m1 where m1: "alloc m n = Some (r, m1)" "ok m1" by blast
  from Cons.IH [OF m1(2)] obtain bs m2 where
    IH: "run_allocs alloc m1 ns = Some (bs, m2)" "ok m2" "disjoint_runs (used m1) bs"
      "used m2 = used m1 \<union> (\<Union>(s, n) \<in> set bs. {s..<s + n})" "\<forall>(s, n) \<in> set bs. s + n \<le> MAX_PAGES"
    by blast
  show ?case
  proof (cases r)
    case (Inl e)
    with alloc_Err [OF Cons.prems] m1 IH show ?thesis by auto
  next
    case (Inr a)
    with alloc_Ok [OF Cons.prems] m1 obtain s where
      "a div PAGE_SIZE = s" "s + n \<le> MAX_PAGES" "{s..<s + n} \<inter> used m = {}" "used m1 = used m \<union> {s..<s + n}"
      by (fastforce simp: PAGE_SIZE_def)
    with m1 IH Inr show ?thesis by auto
  qed
qed simp

end

section \<open>The manager satisfies it\<close>

lemma allocate_pages_Ok:
  assumes wf: "mm_wf m is" and ok: "allocate_pages m n = Some (Ok a, m')"
  obtains b where "0 < n" "n \<le> MAX_PAGES" "pick (strategy m) (free_blocks m) n is None 0 = Some b"
    "a = start_page (free_blocks m ! b) * PAGE_SIZE"
proof -
  from ok have n: "0 < n" "n \<le> MAX_PAGES" by (auto simp: allocate_pages_def split: if_splits)
  with ok allocate_none_ok(1) [OF wf n] obtain b where
    b: "pick (strategy m) (free_blocks m) n is None 0 = Some b"
    by (cases "pick (strategy m) (free_blocks m) n is None 0") auto
  with allocate_block_ok [OF wf n b] ok have "a = start_page (free_blocks m ! b) * PAGE_SIZE" by auto
  with n b that show thesis by blast
qed

lemma allocate_pages_Ok_state:
  assumes "mm_inv m" and ok: "allocate_pages m n = Some (Ok a, m')"
  shows "\<exists>s. a = s * PAGE_SIZE \<and> 0 < n \<and> s + n \<le> MAX_PAGES \<and> {s..<s + n} \<subseteq> free_set m \<and>
     strategy m' = strategy m \<and> (\<forall>p < MAX_PAGES. pages m' ! p =
       (if s \<le> p \<and> p < s + n then Allocated (if p = s then n else 0) else pages m ! p))"
proof -
  obtain "is" where wf: "mm_wf m is" using assms by (auto simp: mm_inv_def)
  from allocate_pages_Ok [OF wf ok] obtain b where
    "0 < n" "n \<le> MAX_PAGES" "pick (strategy m) (free_blocks m) n is None 0 = Some b" .
  with allocate_block_ok [OF wf this] ok show ?thesis by auto
qed

lemma allocate_pages_used:
  assumes "mm_inv m" and "allocate_pages m n = Some (Ok a, m')"
  shows "\<exists>s. a = s * PAGE_SIZE \<and> 0 < n \<and> s + n \<le> MAX_PAGES \<and> {s..<s + n} \<inter> used_set m = {} \<and>
     used_set m' = used_set m \<union> {s..<s + n}"
proof -
  from allocate_pages_Ok_state [OF assms] obtain s where
    s: "a = s * PAGE_SIZE" "0 < n" "s + n \<le> MAX_PAGES" "{s..<s + n} \<subseteq> free_set m"
      "\<forall>p < MAX_PAGES. pages m' ! p =
       (if s \<le> p \<and> p < s + n then Allocated (if p = s then n else 0) else pages m ! p)" by blast
  moreover have "used_set m' = used_set m \<union> {s..<s + n}"
    using used_set_grow(1) [of m' s n "\<lambda>p. if p = s then n else 0" m] s(3,5) by blast
  moreover have "{s..<s + n} \<inter> used_set m = {}" using s(4) page_sets(2) [of m] by blast
  ultimately show ?thesis by blast
qed

lemma allocate_pages_Err_used: "allocate_pages m n = Some (Err e, m') \<Longrightarrow> used_set m' = used_set m"
  by (auto simp: allocate_pages_def Let_def used_set_def split: if_splits option.splits Option.bind_splits)

lemma free_pages_used:
  assumes "mm_inv m" and sn: "0 < n" "s + n \<le> MAX_PAGES" and used: "{s..<s + n} \<subseteq> used_set m"
  shows "\<exists>m'. free_pages m (s * PAGE_SIZE) n = Some (Ok (), m') \<and> mm_inv m' \<and>
     used_set m' = used_set m - {s..<s + n}"
proof -
  obtain "is" where wf: "mm_wf m is" using assms by (auto simp: mm_inv_def)
  have "s = s * PAGE_SIZE div PAGE_SIZE" by (simp add: PAGE_SIZE_def)
  from free_pages_ok [OF wf sn this used] obtain m' where
    "free_pages m (s * PAGE_SIZE) n = Some (Ok (), m')" "mm_inv m'"
    "\<forall>p < MAX_PAGES. pages m' ! p = (if s \<le> p \<and> p < s + n then Free else pages m ! p)" by blast
  moreover from this used_set_shrink(1) [of m' s n m] sn(2) have "used_set m' = used_set m - {s..<s + n}"
    by blast
  ultimately show ?thesis by blast
qed

interpretation mm: page_allocator allocate_pages free_pages used_set mm_inv
  by unfold_locales (use allocate_pages_inv allocate_pages_used allocate_pages_Err_used free_pages_used in blast)+

section \<open>Placement\<close>

lemma FirstFit_lowest:
  assumes wf: "mm_wf m is" and pick: "pick FirstFit (free_blocks m) n is None 0 = Some b"
    and run: "{t..<t + n} \<subseteq> free_set m" and n: "0 < n"
  shows "start_page (free_blocks m ! b) \<le> t"
proof -
  from pick_FirstFit [OF pick] obtain xs ys where
    xy: "is = xs @ b # ys" "\<forall>j \<in> set xs. page_count (free_blocks m ! j) < n" by blast
  from free_run_block [OF wf run n] obtain i where
    i: "i \<in> set is" "start_page (free_blocks m ! i) \<le> t"
      "t + n \<le> start_page (free_blocks m ! i) + page_count (free_blocks m ! i)" by blast
  then have "n \<le> page_count (free_blocks m ! i)" by linarith
  with i(1) xy have "i \<in> set (b # ys)" by (auto simp: not_less [symmetric])
  moreover have "spaced 1 0 (map (extent (free_blocks m)) (xs @ b # ys))"
    using wf xy(1) by (simp add: mm_wf_def)
  ultimately show ?thesis using spaced_start_le i(2) le_trans by blast
qed

lemma pick_size_best:
  assumes wf: "mm_wf m is" and pick: "pick BestFit (free_blocks m) n is None 0 = Some b"
    and run: "free_run m t d" "n \<le> d"
  shows "page_count (free_blocks m ! b) \<le> d"
  using free_run_is_block [OF wf run(1)] pick_BestFit [OF pick] run(2) by auto

lemma pick_size_worst:
  assumes wf: "mm_wf m is" and pick: "pick WorstFit (free_blocks m) n is None 0 = Some b"
    and run: "free_run m t d"
  shows "d \<le> page_count (free_blocks m ! b)"
  using free_run_is_block [OF wf run] pick_WorstFit [OF pick] by auto

text \<open>The state after boot, used by the examples below.\<close>

lemma mm_default_facts:
  "mem_reachable mm_default" "strategy mm_default = FirstFit" "free_set mm_default = {..<MAX_PAGES}"
  "used_set mm_default = {}"
proof -
  have "mm_default = with_strategy FirstFit"
    by (simp add: mm_default_def with_strategy_def set_strategy_def mm_init_def mm_new_def)
  then show "mem_reachable mm_default" using mem_reachable.init by metis
qed (auto simp: free_set_def used_set_def mm_default_def mm_init_def mm_new_def)

lemma allocate_default:
  assumes "0 < n" and "n \<le> MAX_PAGES"
  shows "\<exists>m'. allocate_pages mm_default n = Some (Ok 0, m') \<and> mem_reachable m' \<and> used_set m' = {..<n}"
proof -
  have f: "start_page (free_blocks mm_default ! 0) = 0" "page_count (free_blocks mm_default ! 0) = MAX_PAGES"
    by (simp_all add: mm_default_def mm_init_def mm_new_def FreeBlock_new_def mem_consts as_u32_def)
  have "pick (strategy mm_default) (free_blocks mm_default) n [0] None 0 = Some 0"
    using assms f by (simp add: mm_default_facts)
  from allocate_block_ok [OF mm_default_wf assms this] obtain m' where
    ok: "allocate_pages mm_default n = Some (Ok 0, m')" unfolding f by auto
  moreover have "mem_reachable m'" by (rule mem_reachable.alloc [OF mm_default_facts(1) ok])
  moreover have "used_set m' = {..<n}"
    using allocate_pages_used [OF mem_reachable_inv [OF mm_default_facts(1)] ok]
    by (auto simp: mm_default_facts PAGE_SIZE_def lessThan_atLeast0)
  ultimately show ?thesis by blast
qed

section \<open>Properties\<close>



text \<open>
  C2. \<open>allocate_pages\<close> is complete and exact: a request for between 1 and \<open>MAX_PAGES\<close> pages
  succeeds if and only if so many consecutive pages are free. It then returns the address
  of a run of free pages, marks exactly that run as allocated (the count in its first page)
  and leaves every other page as it was; otherwise it reports \<open>OutOfMemory\<close> with the number
  of free pages and changes only the failure counter.
\<close>

theorem allocate_pages_spec:
  assumes "mem_reachable m" and n: "0 < n" "n \<le> MAX_PAGES"
  shows "if \<exists>t. {t..<t + n} \<subseteq> free_set m
    then \<exists>s m'. allocate_pages m n = Some (Ok (s * PAGE_SIZE), m') \<and> mem_reachable m' \<and>
           {s..<s + n} \<subseteq> free_set m \<and> s + n \<le> MAX_PAGES \<and>
           (\<forall>p < MAX_PAGES. pages m' ! p = (if s \<le> p \<and> p < s + n
              then Allocated (if p = s then n else 0) else pages m ! p))
    else allocate_pages m n = Some (Err (OutOfMemory n (card (free_set m))),
           m\<lparr>stats := record_failure (stats m)\<rparr>)"
proof -
  obtain "is" where wf: "mm_wf m is" using mem_reachable_inv [OF assms(1)] by (auto simp: mm_inv_def)
  show ?thesis
  proof (cases "pick (strategy m) (free_blocks m) n is None 0")
    case None
    from allocate_none_ok [OF wf n None] show ?thesis by simp
  next
    case (Some b)
    from allocate_block_ok [OF wf n Some] obtain s m' where
      "allocate_pages m n = Some (Ok (s * PAGE_SIZE), m')" "{s..<s + n} \<subseteq> free_set m" "s + n \<le> MAX_PAGES"
      "\<forall>p < MAX_PAGES. pages m' ! p = (if s \<le> p \<and> p < s + n
        then Allocated (if p = s then n else 0) else pages m ! p)" by blast
    moreover from this mem_reachable.alloc [OF assms(1)] have "mem_reachable m'" by blast
    ultimately show ?thesis by auto
  qed
qed

theorem allocate_pages_spec_witness:
  "\<exists>s m'. allocate_pages mm_default 5 = Some (Ok (s * PAGE_SIZE), m') \<and> {s..<s + 5} \<subseteq> free_set mm_default"
proof -
  have "\<exists>t. {t..<t + 5} \<subseteq> free_set mm_default"
    by (rule exI [of _ 0]) (auto simp: mm_default_facts mem_consts)
  with allocate_pages_spec [OF mm_default_facts(1), of 5] show ?thesis
    by (auto simp: mem_consts)
qed

text \<open>
  Placement. A successful allocation takes the lowest possible address under
  \<open>FirstFit\<close>; under \<open>BestFit\<close> it takes the front of a smallest maximal run of free pages
  that is large enough, and under \<open>WorstFit\<close> the front of a largest one.
\<close>

theorem allocate_pages_placement:
  assumes "mem_reachable m" and ok: "allocate_pages m n = Some (Ok a, m')"
  shows "case strategy m of
      FirstFit \<Rightarrow> \<forall>t. {t..<t + n} \<subseteq> free_set m \<longrightarrow> a \<le> t * PAGE_SIZE
    | BestFit \<Rightarrow> \<exists>c \<ge> n. free_run m (a div PAGE_SIZE) c \<and> (\<forall>t d. free_run m t d \<and> n \<le> d \<longrightarrow> c \<le> d)
    | WorstFit \<Rightarrow> \<exists>c \<ge> n. free_run m (a div PAGE_SIZE) c \<and> (\<forall>t d. free_run m t d \<longrightarrow> d \<le> c)"
proof -
  obtain "is" where wf: "mm_wf m is" using mem_reachable_inv [OF assms(1)] by (auto simp: mm_inv_def)
  from allocate_pages_Ok [OF wf ok] obtain b where
    b: "0 < n" "pick (strategy m) (free_blocks m) n is None 0 = Some b"
      "a = start_page (free_blocks m ! b) * PAGE_SIZE" by metis
  then have "b \<in> set is" "n \<le> page_count (free_blocks m ! b)" by (auto dest: pick_in)
  moreover from this have "free_run m (a div PAGE_SIZE) (page_count (free_blocks m ! b))"
    using block_free_run [OF wf] b(3) by (simp add: PAGE_SIZE_def)
  ultimately show ?thesis
    using b FirstFit_lowest [OF wf] pick_size_best [OF wf] pick_size_worst [OF wf]
    by (cases "strategy m") (auto intro!: mult_le_mono1)
qed

theorem allocate_pages_placement_witness:
  "\<exists>m'. allocate_pages mm_default 7 = Some (Ok 0, m') \<and>
     (\<forall>t. {t..<t + 7} \<subseteq> free_set mm_default \<longrightarrow> 0 \<le> t * PAGE_SIZE)"
proof -
  obtain m' where ok: "allocate_pages mm_default 7 = Some (Ok 0, m')"
    using allocate_default [of 7] by (auto simp: mem_consts)
  with allocate_pages_placement [OF mm_default_facts(1) ok] show ?thesis
    by (auto simp: mm_default_facts)
qed

text \<open>
  C16. \<open>free_pages\<close> on a range inside the pool: when every page of the range is in use, all
  of them become free and no other page changes; otherwise the call reports a double free of
  the first page of the range that is not in use and changes nothing.
\<close>

theorem free_pages_spec:
  assumes "mem_reachable m" and sn: "0 < n" "s + n \<le> MAX_PAGES" and s: "addr div PAGE_SIZE = s"
  shows "if {s..<s + n} \<subseteq> used_set m
    then \<exists>m'. free_pages m addr n = Some (Ok (), m') \<and> mem_reachable m' \<and> strategy m' = strategy m \<and>
           (\<forall>p < MAX_PAGES. pages m' ! p = (if s \<le> p \<and> p < s + n then Free else pages m ! p))
    else \<exists>p \<in> {s..<s + n}. p \<in> free_set m \<and> {s..<p} \<subseteq> used_set m \<and>
           free_pages m addr n = Some (Err (DoubleFree (p * PAGE_SIZE)), m)"
proof -
  obtain "is" where wf: "mm_wf m is" using mem_reachable_inv [OF assms(1)] by (auto simp: mm_inv_def)
  show ?thesis
  proof (cases "{s..<s + n} \<subseteq> used_set m")
    case True
    from free_pages_ok [OF wf sn s [symmetric] True] obtain m' where
      "free_pages m addr n = Some (Ok (), m')" "strategy m' = strategy m"
      "\<forall>p < MAX_PAGES. pages m' ! p = (if s \<le> p \<and> p < s + n then Free else pages m ! p)" by blast
    with True mem_reachable.release [OF assms(1) this(1)] show ?thesis by simp
  next
    case False
    then obtain p where p: "s \<le> p" "p < s + n" "p \<notin> used_set m" by (meson atLeastLessThan_iff subsetI)
    with sn have "p \<in> free_set m" by (auto simp: used_set_def free_set_def)
    from least_free [OF this p(1)] obtain q where
      q: "q \<in> free_set m" "s \<le> q" "q < s + n" "{s..<q} \<subseteq> used_set m"
      using p(2) by (meson le_less_trans)
    from free_pages_double [OF wf sn s [symmetric] q] q False show ?thesis
      by (auto intro!: bexI [of _ q])
  qed
qed

theorem free_pages_spec_witness:
  "\<exists>p \<in> {2..<4}. free_pages mm_default 8192 2 = Some (Err (DoubleFree (p * PAGE_SIZE)), mm_default)"
  using free_pages_spec [OF mm_default_facts(1), of 2 2 8192]
  by (simp add: mm_default_facts mem_consts) blast

text \<open>
  The arguments \<open>free_pages\<close> rejects without looking at the pages: a count of zero, an
  address beyond the pool, and a range that does not fit behind its start page, each with
  its own error, and each leaving the manager unchanged.
\<close>

theorem free_pages_rejects:
  "free_pages m addr 0 = Some (Err InvalidPageCount, m) \<and>
   (0 < n \<and> MAX_PAGES * PAGE_SIZE \<le> addr \<longrightarrow>
      free_pages m addr n = Some (Err (AddressOutOfBounds addr ((MAX_PAGES - 1) * PAGE_SIZE)), m)) \<and>
   (addr < MAX_PAGES * PAGE_SIZE \<and> MAX_PAGES < addr div PAGE_SIZE + n \<and> addr div PAGE_SIZE + n < USIZE_MOD \<longrightarrow>
      free_pages m addr n = Some (Err (AllocationTooLarge n (MAX_PAGES - addr div PAGE_SIZE)), m))"
proof -
  have "addr div PAGE_SIZE < MAX_PAGES" if "addr < MAX_PAGES * PAGE_SIZE"
    using that by (simp add: div_less_iff_less_mult PAGE_SIZE_def)
  then show ?thesis
    by (auto simp: free_pages_def Let_def no_wrap diff_mult_distrib)
qed

theorem free_pages_rejects_witness:
  "free_pages mm_default 4194304 1 = Some (Err (AddressOutOfBounds 4194304 4190208), mm_default) \<and>
   free_pages mm_default 4190208 2 = Some (Err (AllocationTooLarge 2 1), mm_default)"
  using free_pages_rejects [of mm_default 4194304 1] free_pages_rejects [of mm_default 4190208 2]
  by (simp add: mem_consts)

text \<open>
  Allocation followed by release of the same block gives every page back its state, and
  the count of allocated pages its value.
\<close>

theorem allocate_free_roundtrip:
  assumes "mem_reachable m" and ok: "allocate_pages m n = Some (Ok a, m')"
  shows "\<exists>m''. free_pages m' a n = Some (Ok (), m'') \<and> pages m'' = pages m \<and>
     allocated_pages m'' = allocated_pages m \<and> mem_reachable m''"
proof -
  have inv: "mm_inv m" by (rule mem_reachable_inv [OF assms(1)])
  have r': "mem_reachable m'" by (rule mem_reachable.alloc [OF assms])
  from allocate_pages_Ok_state [OF inv ok] obtain s where
    s: "a = s * PAGE_SIZE" "0 < n" "s + n \<le> MAX_PAGES" "{s..<s + n} \<subseteq> free_set m"
      and p': "\<forall>p < MAX_PAGES. pages m' ! p =
        (if s \<le> p \<and> p < s + n then Allocated (if p = s then n else 0) else pages m ! p)" by blast
  have "{s..<s + n} \<subseteq> used_set m'" using s(3) p' by (auto simp: used_set_def)
  moreover have "a div PAGE_SIZE = s" using s(1) by (simp add: PAGE_SIZE_def)
  moreover obtain is' where "mm_wf m' is'" using mem_reachable_inv [OF r'] by (auto simp: mm_inv_def)
  ultimately obtain m'' where
    m'': "free_pages m' a n = Some (Ok (), m'')"
      "\<forall>p < MAX_PAGES. pages m'' ! p = (if s \<le> p \<and> p < s + n then Free else pages m' ! p)"
    using free_pages_ok [of m' is' n s a] s(2,3) by blast
  have r'': "mem_reachable m''" by (rule mem_reachable.release [OF r' m''(1)])
  have inv'': "mm_inv m''" by (rule mem_reachable_inv [OF r''])
  have "pages m'' = pages m"
    by (rule nth_equalityI) (use inv inv'' m''(2) p' s(4) in \<open>auto simp: mm_inv_def mm_wf_def free_set_def subset_iff\<close>)
  moreover from this have "allocated_pages m'' = allocated_pages m"
    using inv inv'' by (auto simp: mm_inv_def mm_wf_def used_set_def)
  ultimately show ?thesis using m''(1) r'' by blast
qed

theorem allocate_free_roundtrip_witness:
  "\<exists>m' m''. allocate_pages mm_default 16 = Some (Ok 0, m') \<and> free_pages m' 0 16 = Some (Ok (), m'') \<and>
     pages m'' = pages mm_default"
proof -
  obtain m' where ok: "allocate_pages mm_default 16 = Some (Ok 0, m')"
    using allocate_default [of 16] by (auto simp: mem_consts)
  with allocate_free_roundtrip [OF mm_default_facts(1) ok] show ?thesis by auto
qed

text \<open>
  Isolation of the blocks handed out: any sequence of requests runs to the end, and the
  blocks of the requests that succeed lie inside the pool, are pairwise disjoint, and do
  not touch a page that was in use before.
\<close>

theorem allocations_disjoint:
  assumes "mem_reachable m"
  shows "\<exists>bs m'. run_allocs allocate_pages m ns = Some (bs, m') \<and> disjoint_runs (used_set m) bs \<and>
     used_set m' = used_set m \<union> (\<Union>(s, n) \<in> set bs. {s..<s + n}) \<and>
     (\<forall>(s, n) \<in> set bs. s + n \<le> MAX_PAGES)"
  using mm.run_allocs_disjoint [OF mem_reachable_inv [OF assms], of ns] by blast

theorem allocations_disjoint_witness:
  "\<exists>bs m'. run_allocs allocate_pages mm_default [3, 0, 5] = Some (bs, m') \<and> disjoint_runs {} bs"
  using allocations_disjoint [OF mm_default_facts(1), of "[3, 0, 5]"] by (auto simp: mm_default_facts)

text \<open>
  The counters tell the truth in every reachable state: \<open>allocated_pages\<close> and the
  statistics' \<open>current_pages\<close> are the number of pages in use, \<open>free_page_count\<close> is the number
  of free pages, and the recorded peak is never below the current value.
\<close>

theorem allocator_counters:
  assumes "mem_reachable m"
  shows "allocated_pages m = card (used_set m) \<and> unat (st_current_pages (stats m)) = card (used_set m) \<and>
    free_page_count m = card (free_set m) \<and> st_current_pages (stats m) \<le> st_peak_pages (stats m)"
proof -
  have inv: "mm_inv m" by (rule mem_reachable_inv [OF assms])
  then obtain "is" where wf: "mm_wf m is" by (auto simp: mm_inv_def)
  have "unat (word_of_nat (card (used_set m)) :: u64) = card (used_set m)"
    using card_used_le [of m] by (simp add: unat_of_nat mem_consts)
  moreover have "st_current_pages (stats m) = word_of_nat (card (used_set m))"
      "st_current_pages (stats m) \<le> st_peak_pages (stats m)" "allocated_pages m = card (used_set m)"
    using wf unfolding mm_wf_def by blast+
  ultimately show ?thesis using free_page_count_eq [OF inv] by simp
qed

theorem allocator_counters_witness:
  "\<exists>m'. allocate_pages mm_default 16 = Some (Ok 0, m') \<and> allocated_pages m' = 16 \<and>
     unat (st_current_pages (stats m')) = 16"
proof -
  obtain m' where ok: "allocate_pages mm_default 16 = Some (Ok 0, m')" "mem_reachable m'" "used_set m' = {..<16}"
    using allocate_default [of 16] by (auto simp: mem_consts)
  with allocator_counters [OF ok(2)] show ?thesis by auto
qed

text \<open>
  \<open>defragment\<close> never has anything to do: releases already coalesce the whole list, so in
  every reachable state it returns 0 and changes nothing.
\<close>

theorem defragment_does_nothing: "mem_reachable m \<Longrightarrow> defragment m = Some (0, m)"
  by (rule defragment_noop [OF mem_reachable_inv])

theorem defragment_does_nothing_witness: "defragment mm_default = Some (0, mm_default)"
  by (rule defragment_does_nothing [OF mm_default_facts(1)])

text \<open>
  The range check of \<open>free_pages\<close> adds start page and count in machine arithmetic. A
  count close to \<open>2 ^ 64\<close> wraps the sum to a small number and passes it; when the pages
  behind the start page are all in use the loop then runs off the page array, so the call
  panics instead of returning \<open>AllocationTooLarge\<close>.
\<close>

theorem free_pages_wraps:
  "\<exists>m. mem_reachable m \<and> free_pages m PAGE_SIZE (USIZE_MOD - 1) = None"
proof -
  obtain m where m: "mem_reachable m" "used_set m = {..<MAX_PAGES}"
    using allocate_default [of MAX_PAGES] by (auto simp: mem_consts)
  have inv: "mm_inv m" by (rule mem_reachable_inv [OF m(1)])
  have len: "length (pages m) = MAX_PAGES" using inv by (auto simp: mm_inv_def mm_wf_def)
  have "first_free_page (pages m) 1 (USIZE_MOD - 1) i = None" if "i \<le> MAX_PAGES" for i
    using that
  proof (induction "MAX_PAGES - i" arbitrary: i)
    case 0
    then show ?case using len by (subst first_free_page.simps) (simp add: mem_consts)
  next
    case (Suc k)
    then have i: "i < MAX_PAGES" by simp
    show ?case
    proof (cases "Suc i < MAX_PAGES")
      case True
      then have "Suc i \<in> used_set m" using m(2) by simp
      then obtain c where "pages m ! Suc i = Allocated c" by (cases "pages m ! Suc i") (auto simp: used_set_def)
      with Suc.hyps(1) [of "Suc i"] Suc.hyps(2) i True len show ?thesis
        by (subst first_free_page.simps) (simp add: mem_consts)
    next
      case False
      with len i show ?thesis
        by (subst first_free_page.simps) (simp add: mem_consts)
    qed
  qed
  then have "free_pages m PAGE_SIZE (USIZE_MOD - 1) = None"
    by (simp add: free_pages_def Let_def usize_add_def mem_consts)
  with m(1) show ?thesis by blast
qed

end
