(* ===== verification/Scheduler.thy ===== *)
theory Scheduler
  imports Kernel_Error
begin

text \<open>
  The cooperative scheduler, \<open>mielin-kernel/src/scheduler.rs\<close>: the task table, the
  operations of \<open>Scheduler\<close>, and the module functions that run them on the global
  scheduler behind its lock. An index expression into the task table is an \<open>arr_get\<close>, so an
  operation that indexes it returns an option. The debug-only branches of the source have
  no effect and are left out; the peak counter is only raised under the scheduler's lock, so
  its compare-exchange loop is a maximum.
\<close>

section \<open>Data\<close>

definition MAX_TASKS :: nat where "MAX_TASKS = 64"

record SchedulerMetrics =
  sm_tasks_spawned :: u64
  sm_tasks_terminated :: u64
  sm_schedule_calls :: u64
  sm_schedule_idle :: u64
  sm_yield_calls :: u64
  sm_active_tasks :: nat
  sm_peak_tasks :: nat
  sm_spawn_failures :: u64

definition metrics_new :: SchedulerMetrics where
  "metrics_new = \<lparr>sm_tasks_spawned = 0, sm_tasks_terminated = 0, sm_schedule_calls = 0,
     sm_schedule_idle = 0, sm_yield_calls = 0, sm_active_tasks = 0, sm_peak_tasks = 0,
     sm_spawn_failures = 0\<rparr>"

definition record_spawn :: "SchedulerMetrics \<Rightarrow> SchedulerMetrics" where
  "record_spawn s =
     (let active = usize_add (sm_active_tasks s) 1 in
      s\<lparr>sm_tasks_spawned := sm_tasks_spawned s + 1, sm_active_tasks := active,
        sm_peak_tasks := (if active > sm_peak_tasks s then active else sm_peak_tasks s)\<rparr>)"

definition record_terminate :: "SchedulerMetrics \<Rightarrow> SchedulerMetrics" where
  "record_terminate s = s\<lparr>sm_tasks_terminated := sm_tasks_terminated s + 1,
     sm_active_tasks := usize_sub (sm_active_tasks s) 1\<rparr>"

definition record_schedule :: "bool \<Rightarrow> SchedulerMetrics \<Rightarrow> SchedulerMetrics" where
  "record_schedule task_found s =
     (let s1 = s\<lparr>sm_schedule_calls := sm_schedule_calls s + 1\<rparr> in
      if \<not> task_found then s1\<lparr>sm_schedule_idle := sm_schedule_idle s1 + 1\<rparr> else s1)"

definition record_yield :: "SchedulerMetrics \<Rightarrow> SchedulerMetrics" where
  "record_yield s = s\<lparr>sm_yield_calls := sm_yield_calls s + 1\<rparr>"

definition record_spawn_failure :: "SchedulerMetrics \<Rightarrow> SchedulerMetrics" where
  "record_spawn_failure s = s\<lparr>sm_spawn_failures := sm_spawn_failures s + 1\<rparr>"

datatype TaskState = Ready | Running | Suspended | Blocked | Terminated

record Task =
  task_id :: nat
  task_state :: TaskState
  task_priority :: u8
  task_affinity :: "nat option"

definition Task_new_with_affinity :: "nat \<Rightarrow> u8 \<Rightarrow> nat option \<Rightarrow> Task" where
  "Task_new_with_affinity i p a =
     \<lparr>task_id = i, task_state = Ready, task_priority = p, task_affinity = a\<rparr>"

definition Task_new :: "nat \<Rightarrow> u8 \<Rightarrow> Task" where
  "Task_new i p = Task_new_with_affinity i p None"

record Scheduler =
  tasks :: "Task option list"
  current_task :: "nat option"
  next_task_id :: nat
  metrics :: SchedulerMetrics

definition Scheduler_new :: Scheduler where
  "Scheduler_new = \<lparr>tasks = replicate MAX_TASKS None, current_task = None, next_task_id = 0,
     metrics = metrics_new\<rparr>"

section \<open>Operations\<close>

text \<open>The tests the loops over the task table make.\<close>

definition is_free :: "Task option \<Rightarrow> bool" where
  "is_free slot = (slot = None)"

definition has_id :: "nat \<Rightarrow> Task option \<Rightarrow> bool" where
  "has_id i slot = (case slot of Some t \<Rightarrow> task_id t = i | None \<Rightarrow> False)"

definition set_state :: "TaskState \<Rightarrow> Task option \<Rightarrow> Task option" where
  "set_state st slot = map_option (\<lambda>t. t\<lparr>task_state := st\<rparr>) slot"

definition spawn_task_with_affinity ::
  "Scheduler \<Rightarrow> u8 \<Rightarrow> nat option \<Rightarrow> (KernelError + nat) \<times> Scheduler" where
  "spawn_task_with_affinity s priority affinity =
     (case first_index is_free (tasks s) of
        Some i \<Rightarrow>
          (Ok (next_task_id s),
           s\<lparr>next_task_id := usize_add (next_task_id s) 1,
             tasks := (tasks s)[i := Some (Task_new_with_affinity (next_task_id s) priority affinity)],
             metrics := record_spawn (metrics s)\<rparr>)
      | None \<Rightarrow> (Err TaskSpawnFailed, s\<lparr>metrics := record_spawn_failure (metrics s)\<rparr>))"

definition spawn_task :: "Scheduler \<Rightarrow> u8 \<Rightarrow> (KernelError + nat) \<times> Scheduler" where
  "spawn_task s priority = spawn_task_with_affinity s priority None"

fun select_task :: "Task option list \<Rightarrow> nat \<Rightarrow> u8 \<Rightarrow> nat option \<Rightarrow> nat option" where
  "select_task [] idx highest selected = selected"
| "select_task (slot # rest) idx highest selected =
     (case slot of
        Some t \<Rightarrow>
          if task_state t = Ready \<and> task_priority t \<ge> highest
          then select_task rest (Suc idx) (task_priority t) (Some idx)
          else select_task rest (Suc idx) highest selected
      | None \<Rightarrow> select_task rest (Suc idx) highest selected)"

definition schedule :: "Scheduler \<Rightarrow> (nat option \<times> Scheduler) option" where
  "schedule s =
     (let selected = select_task (tasks s) 0 0 None in
      Option.bind
        (case selected of
           Some idx \<Rightarrow> Option.bind (arr_get (tasks s) idx) (\<lambda>slot.
             (case slot of
                Some t \<Rightarrow> Some (s\<lparr>tasks := (tasks s)[idx := set_state Running slot], current_task := Some idx\<rparr>)
              | None \<Rightarrow> Some s))
         | None \<Rightarrow> Some s)
        (\<lambda>s1. Some (selected, s1\<lparr>metrics := record_schedule (selected \<noteq> None) (metrics s1)\<rparr>)))"

definition yield_task :: "Scheduler \<Rightarrow> Scheduler option" where
  "yield_task s =
     (case current_task s of
        Some idx \<Rightarrow> Option.bind (arr_get (tasks s) idx) (\<lambda>slot.
          Some (s\<lparr>tasks := (tasks s)[idx := set_state Ready slot], current_task := None,
                  metrics := record_yield (metrics s)\<rparr>))
      | None \<Rightarrow> Some s)"

definition terminate_task :: "Scheduler \<Rightarrow> nat \<Rightarrow> Scheduler" where
  "terminate_task s i =
     (case first_index (has_id i) (tasks s) of
        Some k \<Rightarrow> s\<lparr>tasks := (tasks s)[k := None], metrics := record_terminate (metrics s)\<rparr>
      | None \<Rightarrow> s)"

definition active_tasks :: "Scheduler \<Rightarrow> nat" where
  "active_tasks s = length (filter (\<lambda>t. t \<noteq> None) (tasks s))"

definition get_task :: "Scheduler \<Rightarrow> nat \<Rightarrow> Task option" where
  "get_task s i = (case first_index (has_id i) (tasks s) of Some k \<Rightarrow> tasks s ! k | None \<Rightarrow> None)"

definition extract_task :: "Scheduler \<Rightarrow> nat \<Rightarrow> Task option \<times> Scheduler" where
  "extract_task s i =
     (case first_index (has_id i) (tasks s) of
        Some k \<Rightarrow>
          (case tasks s ! k of
             Some t \<Rightarrow>
               if task_state t = Running then (None, s)
               else if task_state t = Terminated then (None, s)
               else if task_affinity t \<noteq> None then (None, s)
               else (Some t, s\<lparr>tasks := (tasks s)[k := None]\<rparr>)
           | None \<Rightarrow> (None, s))
      | None \<Rightarrow> (None, s))"

definition inject_task :: "Scheduler \<Rightarrow> Task \<Rightarrow> bool \<times> Scheduler" where
  "inject_task s t =
     (case first_index is_free (tasks s) of
        Some k \<Rightarrow> (True, s\<lparr>tasks := (tasks s)[k := Some (t\<lparr>task_state := Ready\<rparr>)]\<rparr>)
      | None \<Rightarrow> (False, s))"

fun migratable :: "nat \<Rightarrow> Task option list \<Rightarrow> nat list" where
  "migratable cpu [] = []"
| "migratable cpu (slot # rest) =
     (case slot of
        None \<Rightarrow> migratable cpu rest
      | Some t \<Rightarrow>
          if task_state t = Running \<or> task_state t = Terminated then migratable cpu rest
          else if (case task_affinity t of Some a \<Rightarrow> a \<noteq> cpu | None \<Rightarrow> False) then migratable cpu rest
          else if task_affinity t \<noteq> None then migratable cpu rest
          else task_id t # migratable cpu rest)"

definition migratable_tasks :: "Scheduler \<Rightarrow> nat \<Rightarrow> nat list" where
  "migratable_tasks s cpu = migratable cpu (tasks s)"

definition get_task_priority :: "Scheduler \<Rightarrow> nat \<Rightarrow> KernelError + u8" where
  "get_task_priority s i =
     (case first_index (has_id i) (tasks s) of
        Some k \<Rightarrow> (case tasks s ! k of Some t \<Rightarrow> Ok (task_priority t) | None \<Rightarrow> Err (TaskNotFound i))
      | None \<Rightarrow> Err (TaskNotFound i))"

definition set_task_priority :: "Scheduler \<Rightarrow> nat \<Rightarrow> u8 \<Rightarrow> (KernelError + unit) \<times> Scheduler" where
  "set_task_priority s i p =
     (case first_index (has_id i) (tasks s) of
        Some k \<Rightarrow>
          (Ok (), s\<lparr>tasks := (tasks s)[k := map_option (\<lambda>t. t\<lparr>task_priority := p\<rparr>) (tasks s ! k)]\<rparr>)
      | None \<Rightarrow> (Err (TaskNotFound i), s))"

section \<open>The global scheduler\<close>

type_synonym scheduler_state = "Scheduler option"

definition scheduler_init :: "scheduler_state \<Rightarrow> (KernelError + unit) \<times> scheduler_state" where
  "scheduler_init g = (Ok (), Some Scheduler_new)"

definition g_spawn_task :: "scheduler_state \<Rightarrow> u8 \<Rightarrow> (KernelError + nat) \<times> scheduler_state" where
  "g_spawn_task g p =
     (case g of None \<Rightarrow> (Err SchedulerInitFailed, None)
      | Some s \<Rightarrow> map_prod id Some (spawn_task s p))"

definition g_schedule :: "scheduler_state \<Rightarrow> (nat option \<times> scheduler_state) option" where
  "g_schedule g =
     (case g of None \<Rightarrow> Some (None, None)
      | Some s \<Rightarrow> map_option (map_prod id Some) (schedule s))"

definition yield_current :: "scheduler_state \<Rightarrow> scheduler_state option" where
  "yield_current g =
     (case g of None \<Rightarrow> Some None | Some s \<Rightarrow> map_option Some (yield_task s))"

definition g_terminate_task :: "scheduler_state \<Rightarrow> nat \<Rightarrow> scheduler_state" where
  "g_terminate_task g i = map_option (\<lambda>s. terminate_task s i) g"

definition wake :: "Scheduler \<Rightarrow> nat \<Rightarrow> (KernelError + unit) \<times> Scheduler" where
  "wake s i =
     (case first_index (\<lambda>slot. case slot of Some t \<Rightarrow> task_id t = i \<and> task_state t = Blocked | None \<Rightarrow> False) (tasks s) of
        Some k \<Rightarrow> (Ok (), s\<lparr>tasks := (tasks s)[k := set_state Ready (tasks s ! k)]\<rparr>)
      | None \<Rightarrow> (Err (TaskNotFound i), s))"

definition wake_task :: "scheduler_state \<Rightarrow> nat \<Rightarrow> (KernelError + unit) \<times> scheduler_state" where
  "wake_task g i =
     (case g of None \<Rightarrow> (Err SchedulerNotInitialized, None)
      | Some s \<Rightarrow> map_prod id Some (wake s i))"

definition g_get_task_priority :: "scheduler_state \<Rightarrow> nat \<Rightarrow> KernelError + u8" where
  "g_get_task_priority g i =
     (case g of None \<Rightarrow> Err SchedulerNotInitialized | Some s \<Rightarrow> get_task_priority s i)"

definition g_set_task_priority :: "scheduler_state \<Rightarrow> nat \<Rightarrow> u8 \<Rightarrow> (KernelError + unit) \<times> scheduler_state" where
  "g_set_task_priority g i p =
     (case g of None \<Rightarrow> (Err SchedulerNotInitialized, None)
      | Some s \<Rightarrow> map_prod id Some (set_task_priority s i p))"

definition current_task_id :: "scheduler_state \<Rightarrow> nat option" where
  "current_task_id g = (case g of None \<Rightarrow> None | Some s \<Rightarrow> current_task s)"

definition block_current :: "Scheduler \<Rightarrow> Scheduler option" where
  "block_current s =
     (case current_task s of
        Some current_id \<Rightarrow>
          yield_task
            (case first_index (has_id current_id) (tasks s) of
               Some k \<Rightarrow> s\<lparr>tasks := (tasks s)[k := set_state Blocked (tasks s ! k)]\<rparr>
             | None \<Rightarrow> s)
      | None \<Rightarrow> Some s)"

definition block_current_task :: "scheduler_state \<Rightarrow> scheduler_state option" where
  "block_current_task g =
     (case g of None \<Rightarrow> Some None | Some s \<Rightarrow> map_option Some (block_current s))"

end
