(* ===== verification/Pool.thy ===== *)
theory Pool
  imports Prelude
begin

text \<open>
  The block pools, \<open>mielin-kernel/src/pool.rs\<close>.

  A \<open>Pool\<close> hands out blocks of one size from an arena; the free blocks form a list whose
  links are stored in the blocks themselves. In the model \<open>links\<close> is the word at the start
  of each block, addresses are natural numbers and 0 is the null pointer. The address of the
  arena comes from the global allocator and is an argument of \<open>pool_init\<close>; the division by
  the block size there panics for a block size of 0.

  The compare-exchange loops are written as the source has them: up to \<open>MAX_RETRIES\<close>
  attempts, each a load of the head, a read or write of a link, and a weak compare-exchange.
  A weak compare-exchange may fail although the value matches; \<open>weak k\<close> says whether attempt
  \<open>k\<close> is spared that. What one attempt does to the shared state is \<open>try_pop\<close> and \<open>try_push\<close>,
  which are also the atomic steps of interleaved executions.
\<close>

section \<open>Block sizes\<close>

datatype BlockSize = B32 | B64 | B128 | B256 | B512 | K1 | K4

fun block_bytes :: "BlockSize \<Rightarrow> nat" where
  "block_bytes B32 = 32"
| "block_bytes B64 = 64"
| "block_bytes B128 = 128"
| "block_bytes B256 = 256"
| "block_bytes B512 = 512"
| "block_bytes K1 = 1024"
| "block_bytes K4 = 4096"

definition for_size :: "nat \<Rightarrow> BlockSize option" where
  "for_size sz =
     (if sz = 0 then None else if sz \<le> 32 then Some B32 else if sz \<le> 64 then Some B64
      else if sz \<le> 128 then Some B128 else if sz \<le> 256 then Some B256
      else if sz \<le> 512 then Some B512 else if sz \<le> 1024 then Some K1
      else if sz \<le> 4096 then Some K4 else None)"

definition all_sizes :: "BlockSize list" where
  "all_sizes = [B32, B64, B128, B256, B512, K1, K4]"

fun block_index :: "BlockSize \<Rightarrow> nat" where
  "block_index B32 = 0"
| "block_index B64 = 1"
| "block_index B128 = 2"
| "block_index B256 = 3"
| "block_index B512 = 4"
| "block_index K1 = 5"
| "block_index K4 = 6"

definition from_index :: "nat \<Rightarrow> BlockSize option" where
  "from_index i =
     (if i = 0 then Some B32 else if i = 1 then Some B64 else if i = 2 then Some B128
      else if i = 3 then Some B256 else if i = 4 then Some B512 else if i = 5 then Some K1
      else if i = 6 then Some K4 else None)"

section \<open>One pool\<close>

record Pool =
  free_list :: nat
  block_size :: nat
  total_blocks :: nat
  allocated_blocks :: nat
  arena :: "nat option"
  initialized :: nat
  links :: "nat \<Rightarrow> nat"

definition ARENA_SIZE :: nat where "ARENA_SIZE = 65536"
definition MAX_RETRIES :: nat where "MAX_RETRIES = 1000"

definition Pool_new :: "nat \<Rightarrow> Pool" where
  "Pool_new bs = \<lparr>free_list = 0, block_size = bs, total_blocks = 0, allocated_blocks = 0,
     arena = None, initialized = 0, links = (\<lambda>_. 0)\<rparr>"

fun build_free_list :: "nat \<Rightarrow> nat \<Rightarrow> Pool \<Rightarrow> Pool" where
  "build_free_list base 0 p = p"
| "build_free_list base (Suc i) p =
     (let block_ptr = base + i * block_size p in
      build_free_list base i
        (p\<lparr>links := (links p)(block_ptr := free_list p), free_list := block_ptr\<rparr>))"

definition pool_init :: "nat \<Rightarrow> Pool \<Rightarrow> Pool option" where
  "pool_init base p =
     (if initialized p \<noteq> 0 then Some p
      else if block_size p = 0 then None
      else
        let num_blocks = ARENA_SIZE div block_size p in
        Some (build_free_list base num_blocks
          (p\<lparr>initialized := 1, arena := Some base, total_blocks := as_u32 num_blocks\<rparr>)))"

definition try_pop :: "nat \<Rightarrow> nat \<Rightarrow> Pool \<Rightarrow> bool \<times> Pool" where
  "try_pop head nxt p =
     (if free_list p = head
      then (True, p\<lparr>free_list := nxt, allocated_blocks := u32_add (allocated_blocks p) 1\<rparr>)
      else (False, p))"

definition try_push :: "nat \<Rightarrow> nat \<Rightarrow> Pool \<Rightarrow> bool \<times> Pool" where
  "try_push head block p =
     (if free_list p = head
      then (True, p\<lparr>free_list := block, allocated_blocks := u32_sub (allocated_blocks p) 1\<rparr>)
      else (False, p))"

fun allocate_loop :: "(nat \<Rightarrow> bool) \<Rightarrow> nat \<Rightarrow> Pool \<Rightarrow> nat option \<times> Pool" where
  "allocate_loop weak 0 p = (None, p)"
| "allocate_loop weak (Suc k) p =
     (let head = free_list p in
      if head = 0 then (None, p)
      else
        let nxt = links p head in
        if weak k \<and> fst (try_pop head nxt p) then (Some head, snd (try_pop head nxt p))
        else allocate_loop weak k p)"

definition pool_allocate :: "(nat \<Rightarrow> bool) \<Rightarrow> Pool \<Rightarrow> nat option \<times> Pool" where
  "pool_allocate weak p = allocate_loop weak MAX_RETRIES p"

fun deallocate_loop :: "(nat \<Rightarrow> bool) \<Rightarrow> nat \<Rightarrow> nat \<Rightarrow> Pool \<Rightarrow> Pool" where
  "deallocate_loop weak 0 block p = p"
| "deallocate_loop weak (Suc k) block p =
     (let head = free_list p;
          p1 = p\<lparr>links := (links p)(block := head)\<rparr> in
      if weak k \<and> fst (try_push head block p1) then snd (try_push head block p1)
      else deallocate_loop weak k block p1)"

definition pool_deallocate :: "(nat \<Rightarrow> bool) \<Rightarrow> nat \<Rightarrow> Pool \<Rightarrow> Pool" where
  "pool_deallocate weak block p = deallocate_loop weak MAX_RETRIES block p"

definition free_blocks_count :: "Pool \<Rightarrow> nat" where
  "free_blocks_count p = total_blocks p - allocated_blocks p"

definition is_exhausted :: "Pool \<Rightarrow> bool" where
  "is_exhausted p = (free_list p = 0)"

section \<open>The allocator over all sizes\<close>

record PoolAllocator =
  pools :: "Pool list"
  total_allocations :: nat
  total_deallocations :: nat

record PoolAllocation =
  pa_ptr :: nat
  pa_block_size :: BlockSize
  pa_requested_size :: nat

definition PoolAllocator_new :: PoolAllocator where
  "PoolAllocator_new =
     \<lparr>pools = [Pool_new 32, Pool_new 64, Pool_new 128, Pool_new 256, Pool_new 512, Pool_new 1024, Pool_new 4096],
      total_allocations = 0, total_deallocations = 0\<rparr>"

fun init_pools :: "nat list \<Rightarrow> Pool list \<Rightarrow> Pool list option" where
  "init_pools bases [] = Some []"
| "init_pools bases (p # ps) =
     Option.bind (pool_init (hd bases) p) (\<lambda>p'.
     Option.bind (init_pools (tl bases) ps) (\<lambda>ps'. Some (p' # ps')))"

definition pools_init :: "nat list \<Rightarrow> PoolAllocator \<Rightarrow> PoolAllocator option" where
  "pools_init bases a = map_option (\<lambda>ps. a\<lparr>pools := ps\<rparr>) (init_pools bases (pools a))"

definition pools_allocate ::
  "(nat \<Rightarrow> bool) \<Rightarrow> PoolAllocator \<Rightarrow> nat \<Rightarrow> (PoolAllocation option \<times> PoolAllocator) option" where
  "pools_allocate weak a sz =
     (case for_size sz of
        None \<Rightarrow> Some (None, a)
      | Some bs \<Rightarrow> Option.bind (arr_get (pools a) (block_index bs)) (\<lambda>pool.
          case pool_allocate weak pool of
            (None, pool') \<Rightarrow> Some (None, a\<lparr>pools := (pools a)[block_index bs := pool']\<rparr>)
          | (Some ptr, pool') \<Rightarrow>
              Some (Some \<lparr>pa_ptr = ptr, pa_block_size = bs, pa_requested_size = sz\<rparr>,
                a\<lparr>pools := (pools a)[block_index bs := pool'],
                  total_allocations := usize_add (total_allocations a) 1\<rparr>)))"

definition pools_deallocate ::
  "(nat \<Rightarrow> bool) \<Rightarrow> PoolAllocator \<Rightarrow> PoolAllocation \<Rightarrow> PoolAllocator option" where
  "pools_deallocate weak a al =
     Option.bind (arr_get (pools a) (block_index (pa_block_size al))) (\<lambda>pool.
       Some (a\<lparr>pools := (pools a)[block_index (pa_block_size al) := pool_deallocate weak (pa_ptr al) pool],
               total_deallocations := usize_add (total_deallocations a) 1\<rparr>))"

definition actual_size :: "PoolAllocation \<Rightarrow> nat" where
  "actual_size al = block_bytes (pa_block_size al)"

end
