(* ===== verification/Percpu.thy ===== *)
theory Percpu
  imports Scheduler Pool
begin

text \<open>
  The per-CPU state and the load balancer, \<open>mielin-kernel/src/percpu.rs\<close>: one scheduler, one
  set of pools and one set of counters per processor, and the functions that move tasks
  between the schedulers of two processors. Each scheduler is locked for one operation at a
  time. The addresses of the pool arenas are an argument of the initialisation, as in \<open>Pool\<close>.
  The load imbalance score, a floating point variance, is not modelled.
\<close>

section \<open>One processor\<close>

definition MAX_CPUS :: nat where "MAX_CPUS = 16"

record CpuStats =
  cs_tasks_spawned :: u64
  cs_tasks_terminated :: u64
  cs_schedule_calls :: u64
  cs_yield_calls :: u64
  cs_allocations :: u64
  cs_deallocations :: u64
  cs_bytes_allocated :: u64
  cs_bytes_deallocated :: u64

definition CpuStats_new :: CpuStats where
  "CpuStats_new = \<lparr>cs_tasks_spawned = 0, cs_tasks_terminated = 0, cs_schedule_calls = 0, cs_yield_calls = 0,
     cs_allocations = 0, cs_deallocations = 0, cs_bytes_allocated = 0, cs_bytes_deallocated = 0\<rparr>"

definition cs_record_spawn :: "CpuStats \<Rightarrow> CpuStats" where
  "cs_record_spawn s = s\<lparr>cs_tasks_spawned := cs_tasks_spawned s + 1\<rparr>"

definition cs_record_terminate :: "CpuStats \<Rightarrow> CpuStats" where
  "cs_record_terminate s = s\<lparr>cs_tasks_terminated := cs_tasks_terminated s + 1\<rparr>"

definition cs_record_schedule :: "CpuStats \<Rightarrow> CpuStats" where
  "cs_record_schedule s = s\<lparr>cs_schedule_calls := cs_schedule_calls s + 1\<rparr>"

definition cs_record_yield :: "CpuStats \<Rightarrow> CpuStats" where
  "cs_record_yield s = s\<lparr>cs_yield_calls := cs_yield_calls s + 1\<rparr>"

definition cs_record_allocation :: "nat \<Rightarrow> CpuStats \<Rightarrow> CpuStats" where
  "cs_record_allocation n s = s\<lparr>cs_allocations := cs_allocations s + 1,
     cs_bytes_allocated := cs_bytes_allocated s + word_of_nat n\<rparr>"

definition cs_record_deallocation :: "nat \<Rightarrow> CpuStats \<Rightarrow> CpuStats" where
  "cs_record_deallocation n s = s\<lparr>cs_deallocations := cs_deallocations s + 1,
     cs_bytes_deallocated := cs_bytes_deallocated s + word_of_nat n\<rparr>"

record PerCpu =
  cpu_id :: nat
  cpu_scheduler :: Scheduler
  cpu_pools :: "Pool list"
  cpu_stats :: CpuStats
  cpu_online :: nat

definition PerCpu_new :: "nat \<Rightarrow> PerCpu" where
  "PerCpu_new i = \<lparr>cpu_id = i, cpu_scheduler = Scheduler_new,
     cpu_pools = [Pool_new (block_bytes B32), Pool_new (block_bytes B64), Pool_new (block_bytes B128),
       Pool_new (block_bytes B256), Pool_new (block_bytes B512), Pool_new (block_bytes K1), Pool_new (block_bytes K4)],
     cpu_stats = CpuStats_new, cpu_online = 0\<rparr>"

definition cpu_init :: "nat list \<Rightarrow> PerCpu \<Rightarrow> PerCpu option" where
  "cpu_init bases c =
     Option.bind (init_pools bases (cpu_pools c)) (\<lambda>ps.
       Some (c\<lparr>cpu_pools := ps, cpu_scheduler := Scheduler_new, cpu_online := 1\<rparr>))"

definition is_online :: "PerCpu \<Rightarrow> bool" where
  "is_online c = (cpu_online c \<noteq> 0)"

definition cpu_spawn_task_with_affinity :: "PerCpu \<Rightarrow> u8 \<Rightarrow> nat option \<Rightarrow> (KernelError + nat) \<times> PerCpu" where
  "cpu_spawn_task_with_affinity c p a =
     (case spawn_task_with_affinity (cpu_scheduler c) p a of
        (Inr i, s) \<Rightarrow> (Ok i, c\<lparr>cpu_scheduler := s, cpu_stats := cs_record_spawn (cpu_stats c)\<rparr>)
      | (Inl e, s) \<Rightarrow> (Err e, c\<lparr>cpu_scheduler := s\<rparr>))"

definition cpu_spawn_task :: "PerCpu \<Rightarrow> u8 \<Rightarrow> (KernelError + nat) \<times> PerCpu" where
  "cpu_spawn_task c p = cpu_spawn_task_with_affinity c p None"

definition cpu_spawn_task_pinned :: "PerCpu \<Rightarrow> u8 \<Rightarrow> (KernelError + nat) \<times> PerCpu" where
  "cpu_spawn_task_pinned c p = cpu_spawn_task_with_affinity c p (Some (cpu_id c))"

definition cpu_schedule :: "PerCpu \<Rightarrow> (nat option \<times> PerCpu) option" where
  "cpu_schedule c =
     Option.bind (schedule (cpu_scheduler c)) (\<lambda>(r, s).
       Some (r, c\<lparr>cpu_scheduler := s,
                  cpu_stats := (if r \<noteq> None then cs_record_schedule (cpu_stats c) else cpu_stats c)\<rparr>))"

definition cpu_yield_current :: "PerCpu \<Rightarrow> PerCpu option" where
  "cpu_yield_current c =
     Option.bind (yield_task (cpu_scheduler c)) (\<lambda>s.
       Some (c\<lparr>cpu_scheduler := s, cpu_stats := cs_record_yield (cpu_stats c)\<rparr>))"

definition cpu_terminate_task :: "PerCpu \<Rightarrow> nat \<Rightarrow> PerCpu" where
  "cpu_terminate_task c i =
     c\<lparr>cpu_scheduler := terminate_task (cpu_scheduler c) i, cpu_stats := cs_record_terminate (cpu_stats c)\<rparr>"

definition cpu_active_tasks :: "PerCpu \<Rightarrow> nat" where
  "cpu_active_tasks c = active_tasks (cpu_scheduler c)"

definition cpu_allocate :: "(nat \<Rightarrow> bool) \<Rightarrow> PerCpu \<Rightarrow> nat \<Rightarrow> (nat option \<times> PerCpu) option" where
  "cpu_allocate weak c sz =
     (case for_size sz of
        None \<Rightarrow> Some (None, c)
      | Some bs \<Rightarrow> Option.bind (arr_get (cpu_pools c) (block_index bs)) (\<lambda>pool.
          case pool_allocate weak pool of
            (None, pool') \<Rightarrow> Some (None, c\<lparr>cpu_pools := (cpu_pools c)[block_index bs := pool']\<rparr>)
          | (Some ptr, pool') \<Rightarrow>
              Some (Some ptr, c\<lparr>cpu_pools := (cpu_pools c)[block_index bs := pool'],
                                cpu_stats := cs_record_allocation sz (cpu_stats c)\<rparr>)))"

definition cpu_deallocate :: "(nat \<Rightarrow> bool) \<Rightarrow> PerCpu \<Rightarrow> nat \<Rightarrow> nat \<Rightarrow> PerCpu option" where
  "cpu_deallocate weak c ptr sz =
     (case for_size sz of
        None \<Rightarrow> Some c
      | Some bs \<Rightarrow> Option.bind (arr_get (cpu_pools c) (block_index bs)) (\<lambda>pool.
          Some (c\<lparr>cpu_pools := (cpu_pools c)[block_index bs := pool_deallocate weak ptr pool],
                  cpu_stats := cs_record_deallocation sz (cpu_stats c)\<rparr>)))"

section \<open>All processors\<close>

record System =
  per_cpu :: "PerCpu list"
  current_cpu :: nat
  num_online :: nat
  migrations :: u64
  work_steals :: u64
  failed_steals :: u64
  balance_iterations :: u64

definition System_new :: System where
  "System_new = \<lparr>per_cpu = map PerCpu_new [0..<MAX_CPUS], current_cpu = 0, num_online = 1,
     migrations = 0, work_steals = 0, failed_steals = 0, balance_iterations = 0\<rparr>"

definition percpu_init :: "(nat \<Rightarrow> nat list) \<Rightarrow> nat \<Rightarrow> System \<Rightarrow> ((KernelError + unit) \<times> System) option" where
  "percpu_init bases n s =
     (if n = 0 \<or> n > MAX_CPUS then Some (Err HardwareNotSupported, s)
      else Option.bind (for_range 0 n (\<lambda>i cs.
             Option.bind (arr_get cs i) (\<lambda>c. Option.bind (cpu_init (bases i) c) (\<lambda>c'. arr_set cs i c'))) (per_cpu s))
           (\<lambda>cs. Some (Ok (), s\<lparr>per_cpu := cs, num_online := n\<rparr>)))"

definition set_current_cpu_id :: "nat \<Rightarrow> System \<Rightarrow> System" where
  "set_current_cpu_id i s = (if i < MAX_CPUS then s\<lparr>current_cpu := i\<rparr> else s)"

definition get_cpu :: "System \<Rightarrow> nat \<Rightarrow> KernelError + PerCpu" where
  "get_cpu s i =
     (if i \<ge> MAX_CPUS then Err HardwareNotSupported
      else if \<not> is_online (per_cpu s ! i) then Err HardwareNotSupported
      else Ok (per_cpu s ! i))"

definition put_cpu :: "System \<Rightarrow> nat \<Rightarrow> PerCpu \<Rightarrow> System" where
  "put_cpu s i c = s\<lparr>per_cpu := (per_cpu s)[i := c]\<rparr>"

definition spawn_on_cpu_with_affinity ::
  "System \<Rightarrow> nat \<Rightarrow> u8 \<Rightarrow> nat option \<Rightarrow> (KernelError + nat) \<times> System" where
  "spawn_on_cpu_with_affinity s i p a =
     (case get_cpu s i of
        Inl e \<Rightarrow> (Err e, s)
      | Inr c \<Rightarrow> (case cpu_spawn_task_with_affinity c p a of (r, c') \<Rightarrow> (r, put_cpu s i c')))"

definition spawn_on_cpu :: "System \<Rightarrow> nat \<Rightarrow> u8 \<Rightarrow> (KernelError + nat) \<times> System" where
  "spawn_on_cpu s i p =
     (case get_cpu s i of
        Inl e \<Rightarrow> (Err e, s)
      | Inr c \<Rightarrow> (case cpu_spawn_task c p of (r, c') \<Rightarrow> (r, put_cpu s i c')))"

definition spawn_on_cpu_pinned :: "System \<Rightarrow> nat \<Rightarrow> u8 \<Rightarrow> (KernelError + nat) \<times> System" where
  "spawn_on_cpu_pinned s i p =
     (case get_cpu s i of
        Inl e \<Rightarrow> (Err e, s)
      | Inr c \<Rightarrow> (case cpu_spawn_task_pinned c p of (r, c') \<Rightarrow> (r, put_cpu s i c')))"

section \<open>Load balancing\<close>

datatype LoadBalanceStrategy = WorkStealing | PushMigration | RoundRobin

fun busiest_loop :: "System \<Rightarrow> nat list \<Rightarrow> nat \<Rightarrow> nat option \<Rightarrow> nat option" where
  "busiest_loop s [] max_tasks busiest = busiest"
| "busiest_loop s (i # is) max_tasks busiest =
     (case get_cpu s i of
        Inr c \<Rightarrow>
          if cpu_active_tasks c > max_tasks then busiest_loop s is (cpu_active_tasks c) (Some i)
          else busiest_loop s is max_tasks busiest
      | Inl _ \<Rightarrow> busiest_loop s is max_tasks busiest)"

definition find_busiest_cpu :: "System \<Rightarrow> nat option" where
  "find_busiest_cpu s = busiest_loop s [0..<num_online s] 0 None"

fun idlest_loop :: "System \<Rightarrow> nat list \<Rightarrow> nat \<Rightarrow> nat option \<Rightarrow> nat option" where
  "idlest_loop s [] min_tasks idlest = idlest"
| "idlest_loop s (i # is) min_tasks idlest =
     (case get_cpu s i of
        Inr c \<Rightarrow>
          if cpu_active_tasks c < min_tasks then idlest_loop s is (cpu_active_tasks c) (Some i)
          else idlest_loop s is min_tasks idlest
      | Inl _ \<Rightarrow> idlest_loop s is min_tasks idlest)"

definition find_idlest_cpu :: "System \<Rightarrow> nat option" where
  "find_idlest_cpu s = idlest_loop s [0..<num_online s] (USIZE_MOD - 1) None"

definition migrate_task :: "System \<Rightarrow> nat \<Rightarrow> nat \<Rightarrow> nat \<Rightarrow> bool \<times> System" where
  "migrate_task s tid from_cpu to_cpu =
     (case get_cpu s from_cpu of
        Inl _ \<Rightarrow> (False, s)
      | Inr source \<Rightarrow>
          (case get_cpu s to_cpu of
             Inl _ \<Rightarrow> (False, s)
           | Inr _ \<Rightarrow>
               (case extract_task (cpu_scheduler source) tid of
                  (None, sched) \<Rightarrow> (False, put_cpu s from_cpu (source\<lparr>cpu_scheduler := sched\<rparr>))
                | (Some t, sched) \<Rightarrow>
                    (let s1 = put_cpu s from_cpu (source\<lparr>cpu_scheduler := sched\<rparr>);
                         dest = per_cpu s1 ! to_cpu in
                     case inject_task (cpu_scheduler dest) t of
                       (success, sched') \<Rightarrow>
                         let s2 = put_cpu s1 to_cpu (dest\<lparr>cpu_scheduler := sched'\<rparr>) in
                         (success, if success then s2\<lparr>migrations := migrations s2 + 1\<rparr> else s2)))))"

fun migrate_all :: "nat list \<Rightarrow> nat \<Rightarrow> nat \<Rightarrow> nat \<Rightarrow> System \<Rightarrow> nat \<times> System" where
  "migrate_all [] from_cpu to_cpu migrated s = (migrated, s)"
| "migrate_all (t # ts) from_cpu to_cpu migrated s =
     (case migrate_task s t from_cpu to_cpu of
        (ok, s') \<Rightarrow> migrate_all ts from_cpu to_cpu (if ok then migrated + 1 else migrated) s')"

definition balance_work_stealing :: "System \<Rightarrow> nat \<times> System" where
  "balance_work_stealing s =
     (let failed = s\<lparr>failed_steals := failed_steals s + 1\<rparr> in
      case find_busiest_cpu s of
        None \<Rightarrow> (0, failed)
      | Some busiest \<Rightarrow>
      case find_idlest_cpu s of
        None \<Rightarrow> (0, failed)
      | Some idlest \<Rightarrow>
      if busiest = idlest then (0, s) else
      case get_cpu s busiest of
        Inl _ \<Rightarrow> (0, s)
      | Inr busiest_cpu \<Rightarrow>
      case get_cpu s idlest of
        Inl _ \<Rightarrow> (0, s)
      | Inr idlest_cpu \<Rightarrow>
      let busiest_tasks = cpu_active_tasks busiest_cpu; idlest_tasks = cpu_active_tasks idlest_cpu in
      if busiest_tasks \<le> idlest_tasks \<or> busiest_tasks - idlest_tasks < 2 then (0, failed) else
      let migratable = migratable_tasks (cpu_scheduler busiest_cpu) busiest in
      if migratable = [] then (0, failed) else
      let to_migrate = min (max ((busiest_tasks - idlest_tasks) div 2) 1) (length migratable) in
      case migrate_all (take to_migrate migratable) busiest idlest 0 s of
        (migrated, s') \<Rightarrow>
          (migrated,
           if migrated > 0 then s'\<lparr>work_steals := work_steals s' + 1\<rparr>
           else s'\<lparr>failed_steals := failed_steals s' + 1\<rparr>))"

definition balance_push_migration :: "System \<Rightarrow> nat \<times> System" where
  "balance_push_migration s = (0, s)"

definition balance_round_robin :: "System \<Rightarrow> nat \<times> System" where
  "balance_round_robin s = (0, s)"

definition balance_load :: "LoadBalanceStrategy \<Rightarrow> System \<Rightarrow> nat \<times> System" where
  "balance_load st s0 =
     (let s = s0\<lparr>balance_iterations := balance_iterations s0 + 1\<rparr> in
      case st of
        WorkStealing \<Rightarrow> balance_work_stealing s
      | PushMigration \<Rightarrow> balance_push_migration s
      | RoundRobin \<Rightarrow> balance_round_robin s)"

end
