(* ===== verification/Scheduler_Correct.thy ===== *)
theory Scheduler_Correct
  imports Scheduler
begin

text \<open>
  The scheduler's theorems: what \<open>schedule\<close> selects, the invariant of the task table and
  of the counters under every sequence of operations, what spawning, waking and
  terminating do, and what blocking the current task really does.
\<close>

section \<open>Selection\<close>

definition ready :: "Task option list \<Rightarrow> nat \<Rightarrow> bool" where
  "ready ts i \<longleftrightarrow> i < length ts \<and> (\<exists>t. ts ! i = Some t \<and> task_state t = Ready)"

definition prio :: "Task option list \<Rightarrow> nat \<Rightarrow> u8" where
  "prio ts i = task_priority (the (ts ! i))"

definition best_ready :: "Task option list \<Rightarrow> nat \<Rightarrow> bool" where
  "best_ready ts i \<longleftrightarrow> ready ts i \<and>
     (\<forall>j. ready ts j \<longrightarrow> prio ts j \<le> prio ts i \<and> (i < j \<longrightarrow> prio ts j < prio ts i))"

lemma ready_Nil [simp]: "\<not> ready [] i"
  by (simp add: ready_def)

lemma ready_Suc [simp]: "ready (t # ts) (Suc i) = ready ts i"
  by (simp add: ready_def)

lemma prio_Suc [simp]: "prio (t # ts) (Suc i) = prio ts i"
  by (simp add: prio_def)

lemma all_nat_split: "(\<forall>j. P j) \<longleftrightarrow> P 0 \<and> (\<forall>i. P (Suc i))"
  by (metis nat.exhaust)

lemma ready_0 [simp]: "ready (slot # ts) 0 \<longleftrightarrow> (\<exists>t. slot = Some t \<and> task_state t = Ready)"
  by (simp add: ready_def)

lemma prio_0 [simp]: "prio (Some t # ts) 0 = task_priority t"
  by (simp add: prio_def)

lemma best_ready_0:
  "best_ready (slot # ts) 0 \<longleftrightarrow> ready (slot # ts) 0 \<and> (\<forall>i. ready ts i \<longrightarrow> prio ts i < prio (slot # ts) 0)"
  unfolding best_ready_def by (subst all_nat_split) (auto simp: order.strict_iff_not)

lemma best_ready_Suc:
  "best_ready (slot # ts) (Suc i) \<longleftrightarrow>
   best_ready ts i \<and> (ready (slot # ts) 0 \<longrightarrow> prio (slot # ts) 0 \<le> prio ts i)"
  unfolding best_ready_def by (subst all_nat_split) auto

lemma select_task_cases:
  "(select_task ts k h sel = sel \<and> (\<forall>i. ready ts i \<longrightarrow> prio ts i < h)) \<or>
   (\<exists>i. select_task ts k h sel = Some (k + i) \<and> h \<le> prio ts i \<and> best_ready ts i)"
proof (induction ts arbitrary: k h sel)
  case (Cons slot ts)
  show ?case
  proof (cases "\<exists>t. slot = Some t \<and> task_state t = Ready \<and> h \<le> task_priority t")
    case True
    then obtain t where t: "slot = Some t" "task_state t = Ready" "h \<le> task_priority t" by blast
    then have sel: "select_task (slot # ts) k h sel = select_task ts (Suc k) (task_priority t) (Some k)"
      by simp
    from Cons.IH [of "Suc k" "task_priority t" "Some k"] show ?thesis
    proof (elim disjE exE conjE)
      assume "select_task ts (Suc k) (task_priority t) (Some k) = Some k" "\<forall>i. ready ts i \<longrightarrow> prio ts i < task_priority t"
      with sel t show ?thesis by (intro disjI2 exI [of _ 0]) (simp add: best_ready_0)
    next
      fix i
      assume "select_task ts (Suc k) (task_priority t) (Some k) = Some (Suc k + i)"
        "task_priority t \<le> prio ts i" "best_ready ts i"
      with sel t show ?thesis by (intro disjI2 exI [of _ "Suc i"]) (simp add: best_ready_Suc)
    qed
  next
    case False
    then have sel: "select_task (slot # ts) k h sel = select_task ts (Suc k) h sel"
      by (auto split: option.splits)
    have p0: "prio (slot # ts) 0 < h" if "ready (slot # ts) 0" using that False by force
    from Cons.IH [of "Suc k" h sel] show ?thesis
    proof (elim disjE exE conjE)
      assume "select_task ts (Suc k) h sel = sel" "\<forall>i. ready ts i \<longrightarrow> prio ts i < h"
      with sel p0 show ?thesis by (intro disjI1) (subst all_nat_split, simp)
    next
      fix i
      assume *: "select_task ts (Suc k) h sel = Some (Suc k + i)" "h \<le> prio ts i" "best_ready ts i"
      with p0 have "best_ready (slot # ts) (Suc i)"
        unfolding best_ready_Suc by (meson less_imp_le order.strict_trans2)
      with * sel show ?thesis by (intro disjI2 exI [of _ "Suc i"]) simp
    qed
  qed
qed simp

lemma best_ready_unique: "best_ready ts i \<Longrightarrow> best_ready ts j \<Longrightarrow> i = j"
proof (induction i j rule: linorder_wlog)
  case (le i j)
  show ?case
  proof (rule ccontr)
    assume "i \<noteq> j"
    with le(1) have "i < j" by simp
    with le(2,3) have "prio ts j < prio ts i" "prio ts i \<le> prio ts j" by (auto simp: best_ready_def)
    then show False by simp
  qed
qed simp

lemma best_ready_ready: "best_ready ts i \<Longrightarrow> ready ts i"
  by (simp add: best_ready_def)

lemma select_task_result:
  "select_task ts 0 0 None = None \<and> (\<forall>i. \<not> ready ts i) \<or>
   (\<exists>i. select_task ts 0 0 None = Some i \<and> best_ready ts i)"
  using select_task_cases [of ts 0 0 None] by simp

lemma select_task_Some_iff: "select_task ts 0 0 None = Some i \<longleftrightarrow> best_ready ts i"
  using select_task_result [of ts]
proof (elim disjE exE conjE)
  fix k
  assume "select_task ts 0 0 None = Some k" "best_ready ts k"
  then show ?thesis using best_ready_unique [of ts k i] by auto
qed (auto dest: best_ready_ready)

lemma select_task_None_iff: "select_task ts 0 0 None = None \<longleftrightarrow> (\<forall>i. \<not> ready ts i)"
  using select_task_result [of ts] by (elim disjE exE conjE) (auto dest: best_ready_ready)

lemma schedule_None: "(\<And>i. \<not> ready (tasks s) i) \<Longrightarrow>
   schedule s = Some (None, s\<lparr>metrics := record_schedule False (metrics s)\<rparr>)"
  using select_task_None_iff [of "tasks s"] by (simp add: schedule_def)

lemma schedule_Some: "best_ready (tasks s) i \<Longrightarrow>
   schedule s = Some (Some i, s\<lparr>tasks := (tasks s)[i := set_state Running (tasks s ! i)],
     current_task := Some i, metrics := record_schedule True (metrics s)\<rparr>)"
  using select_task_Some_iff [of "tasks s" i]
  by (auto simp: schedule_def best_ready_def ready_def Let_def)

lemma schedule_cases:
  obtains (idle) "\<And>i. \<not> ready (tasks s) i" "schedule s = Some (None, s\<lparr>metrics := record_schedule False (metrics s)\<rparr>)"
  | (run) i where "best_ready (tasks s) i"
    "schedule s = Some (Some i, s\<lparr>tasks := (tasks s)[i := set_state Running (tasks s ! i)],
       current_task := Some i, metrics := record_schedule True (metrics s)\<rparr>)"
proof (cases "select_task (tasks s) 0 0 None")
  case None
  then show thesis using idle schedule_None select_task_None_iff by blast
next
  case (Some i)
  then show thesis using run schedule_Some select_task_Some_iff by blast
qed

section \<open>The invariant\<close>

text \<open>
  \<open>table_inv\<close> is about the task table (identifiers unique and below the next one, the
  current slot in range), \<open>count_inv\<close> about the metrics.
\<close>

definition ids_unique :: "Task option list \<Rightarrow> bool" where
  "ids_unique ts \<longleftrightarrow> (\<forall>i < length ts. \<forall>j < length ts. \<forall>t u.
     ts ! i = Some t \<longrightarrow> ts ! j = Some u \<longrightarrow> task_id t = task_id u \<longrightarrow> i = j)"

definition table_inv :: "Scheduler \<Rightarrow> bool" where
  "table_inv s \<longleftrightarrow> length (tasks s) = MAX_TASKS \<and> ids_unique (tasks s) \<and>
     (\<forall>t. Some t \<in> set (tasks s) \<longrightarrow> task_id t < next_task_id s) \<and>
     (\<forall>i. current_task s = Some i \<longrightarrow> i < MAX_TASKS)"

definition count_inv :: "Scheduler \<Rightarrow> bool" where
  "count_inv s \<longleftrightarrow> sm_active_tasks (metrics s) = active_tasks s \<and>
     active_tasks s \<le> sm_peak_tasks (metrics s) \<and> sm_peak_tasks (metrics s) \<le> MAX_TASKS"

text \<open>An update of a slot that keeps the task's identifier keeps the invariants.\<close>

lemma ids_uniqueD:
  "ids_unique ts \<Longrightarrow> i < length ts \<Longrightarrow> j < length ts \<Longrightarrow> ts ! i = Some t \<Longrightarrow> ts ! j = Some u \<Longrightarrow>
   task_id t = task_id u \<Longrightarrow> i = j"
  by (simp add: ids_unique_def)

lemma ids_uniqueI:
  "(\<And>i j t u. i < length ts \<Longrightarrow> j < length ts \<Longrightarrow> i \<noteq> j \<Longrightarrow> ts ! i = Some t \<Longrightarrow> ts ! j = Some u \<Longrightarrow>
     task_id t \<noteq> task_id u) \<Longrightarrow> ids_unique ts"
  unfolding ids_unique_def by blast

lemma ids_unique_update:
  assumes "ids_unique ts" and v: "\<And>t'. v = Some t' \<Longrightarrow> \<exists>t. ts ! k = Some t \<and> task_id t = task_id t'"
  shows "ids_unique (ts[k := v])"
proof (rule ids_uniqueI)
  fix i j t u
  assume *: "i < length (ts[k := v])" "j < length (ts[k := v])" "i \<noteq> j"
    "ts[k := v] ! i = Some t" "ts[k := v] ! j = Some u"
  have old: "\<exists>t0. ts ! l = Some t0 \<and> task_id t0 = task_id x" if "ts[k := v] ! l = Some x" "l < length ts" for l x
    using that v by (cases "l = k") auto
  obtain t0 where t0: "ts ! i = Some t0" "task_id t0 = task_id t" using old [OF *(4)] *(1) by auto
  obtain u0 where u0: "ts ! j = Some u0" "task_id u0 = task_id u" using old [OF *(5)] *(2) by auto
  show "task_id t \<noteq> task_id u" using ids_uniqueD [OF assms(1) _ _ t0(1) u0(1)] * t0 u0 by auto
qed

lemma ids_unique_fresh:
  assumes "ids_unique ts" and f: "\<And>u. Some u \<in> set ts \<Longrightarrow> task_id u \<noteq> task_id t"
  shows "ids_unique (ts[k := Some t])"
proof (rule ids_uniqueI)
  fix i j a b
  assume *: "i < length (ts[k := Some t])" "j < length (ts[k := Some t])" "i \<noteq> j"
    "ts[k := Some t] ! i = Some a" "ts[k := Some t] ! j = Some b"
  have old: "task_id x \<noteq> task_id t" if "ts ! l = Some x" "l < length ts" for l x
    using f [of x] that nth_mem [of l ts] by simp
  consider "i = k" "j \<noteq> k" | "i \<noteq> k" "j = k" | "i \<noteq> k" "j \<noteq> k" using *(3) by blast
  then show "task_id a \<noteq> task_id b"
  proof cases
    case 1
    with * old [of j b] show ?thesis by auto
  next
    case 2
    with * old [of i a] show ?thesis by auto
  next
    case 3
    with * ids_uniqueD [OF assms(1), of i j a b] show ?thesis by auto
  qed
qed

lemma active_tasks_update:
  assumes "k < length (tasks s)"
  shows "active_tasks (s\<lparr>tasks := (tasks s)[k := v]\<rparr>) + (if tasks s ! k \<noteq> None then 1 else 0) =
         active_tasks s + (if v \<noteq> None then 1 else 0)"
  using length_filter_update [OF assms, of "\<lambda>t. t \<noteq> None" v] by (simp add: active_tasks_def)

lemma active_tasks_le: "active_tasks s \<le> length (tasks s)"
  by (simp add: active_tasks_def)

lemma active_tasks_cong [simp]:
  "active_tasks (s\<lparr>current_task := c\<rparr>) = active_tasks s" "active_tasks (s\<lparr>next_task_id := n\<rparr>) = active_tasks s"
  "active_tasks (s\<lparr>metrics := m\<rparr>) = active_tasks s"
  by (simp_all add: active_tasks_def)

text \<open>Operations that change a task in place.\<close>

lemma update_in_place:
  assumes inv: "table_inv s" "count_inv s" and k: "k < length (tasks s)"
    and v: "v = map_option f (tasks s ! k)" "\<And>t. task_id (f t) = task_id t"
    and cur: "\<And>i. c = Some i \<Longrightarrow> i < MAX_TASKS"
    and m: "sm_active_tasks m = sm_active_tasks (metrics s)" "sm_peak_tasks m = sm_peak_tasks (metrics s)"
  shows "table_inv (s\<lparr>tasks := (tasks s)[k := v], current_task := c, metrics := m\<rparr>) \<and>
         count_inv (s\<lparr>tasks := (tasks s)[k := v], current_task := c, metrics := m\<rparr>)"
proof -
  have u: "ids_unique ((tasks s)[k := v])"
    by (rule ids_unique_update) (use inv v in \<open>auto simp: table_inv_def\<close>)
  have "task_id t < next_task_id s" if t: "Some t \<in> set ((tasks s)[k := v])" for t
  proof -
    from set_update_in [OF k t] have "Some t \<in> set (tasks s) \<or> (\<exists>t'. tasks s ! k = Some t' \<and> t = f t')"
      using v(1) by (cases "tasks s ! k") auto
    then show ?thesis using inv(1) v(2) k unfolding table_inv_def by (metis nth_mem)
  qed
  moreover have "active_tasks (s\<lparr>tasks := (tasks s)[k := v]\<rparr>) = active_tasks s"
    using active_tasks_update [OF k, of v] v(1) by (auto split: if_splits)
  ultimately show ?thesis
    using u inv cur m by (auto simp: table_inv_def count_inv_def active_tasks_def)
qed

lemma metrics_only:
  assumes "table_inv s" "count_inv s" "sm_active_tasks m = sm_active_tasks (metrics s)"
    "sm_peak_tasks m = sm_peak_tasks (metrics s)"
  shows "table_inv (s\<lparr>metrics := m\<rparr>) \<and> count_inv (s\<lparr>metrics := m\<rparr>)"
  using assms by (simp add: table_inv_def count_inv_def)

lemma first_index_bound: "first_index P xs = Some i \<Longrightarrow> i < length xs"
  by (simp add: first_index_Some_iff)

lemma spawn_inv:
  assumes "table_inv s" "count_inv s" "next_task_id s + 1 < USIZE_MOD"
  shows "table_inv (snd (spawn_task_with_affinity s p a)) \<and> count_inv (snd (spawn_task_with_affinity s p a))"
proof (cases "first_index is_free (tasks s)")
  case None
  with assms show ?thesis
    by (simp add: spawn_task_with_affinity_def metrics_only record_spawn_failure_def)
next
  case (Some k)
  let ?t = "Task_new_with_affinity (next_task_id s) p a"
  have k: "k < length (tasks s)" "tasks s ! k = None"
    using first_index_SomeD [OF Some] by (auto simp: is_free_def)
  have len: "length (tasks s) = MAX_TASKS" using assms by (simp add: table_inv_def)
  have u: "ids_unique ((tasks s)[k := Some ?t])"
    by (rule ids_unique_fresh) (use assms in \<open>auto simp: table_inv_def Task_new_with_affinity_def\<close>)
  have a: "active_tasks (s\<lparr>tasks := (tasks s)[k := Some ?t]\<rparr>) = active_tasks s + 1"
    using active_tasks_update [OF k(1), of "Some ?t"] k(2) by simp
  moreover have "active_tasks (s\<lparr>tasks := (tasks s)[k := Some ?t]\<rparr>) \<le> MAX_TASKS"
    using active_tasks_le [of "s\<lparr>tasks := (tasks s)[k := Some ?t]\<rparr>"] len by simp
  moreover have "Some t \<in> set ((tasks s)[k := Some ?t]) \<Longrightarrow> task_id t < next_task_id s + 1" for t
    using set_update_in [OF k(1), of "Some t" "Some ?t"] assms(1)
    by (auto simp: table_inv_def Task_new_with_affinity_def less_SucI)
  ultimately show ?thesis
    using assms Some u len
    by (simp add: spawn_task_with_affinity_def table_inv_def count_inv_def active_tasks_def
        record_spawn_def Let_def no_wrap MAX_TASKS_def)
qed

lemma terminate_inv:
  assumes "table_inv s" "count_inv s"
  shows "table_inv (terminate_task s i) \<and> count_inv (terminate_task s i)"
proof (cases "first_index (has_id i) (tasks s)")
  case None
  with assms show ?thesis by (simp add: terminate_task_def)
next
  case (Some k)
  have k: "k < length (tasks s)" "tasks s ! k \<noteq> None"
    using first_index_SomeD [OF Some] by (auto simp: has_id_def split: option.splits)
  have u: "ids_unique ((tasks s)[k := None])"
    by (rule ids_unique_update) (use assms in \<open>auto simp: table_inv_def\<close>)
  have "active_tasks (s\<lparr>tasks := (tasks s)[k := None]\<rparr>) + 1 = active_tasks s"
    using active_tasks_update [OF k(1), of None] k(2) by simp
  moreover have "Some t \<in> set ((tasks s)[k := None]) \<Longrightarrow> Some t \<in> set (tasks s)" for t
    using set_update_in [OF k(1)] by blast
  ultimately show ?thesis
    using assms Some u active_tasks_le [of s]
    by (auto simp: terminate_task_def table_inv_def count_inv_def active_tasks_def
        record_terminate_def no_wrap MAX_TASKS_def)
qed

lemma update_tasks:
  assumes "table_inv s" "count_inv s" "k < length (tasks s)"
    "v = map_option f (tasks s ! k)" "\<And>t. task_id (f t) = task_id t"
  shows "table_inv (s\<lparr>tasks := (tasks s)[k := v]\<rparr>) \<and> count_inv (s\<lparr>tasks := (tasks s)[k := v]\<rparr>)"
proof -
  have "s\<lparr>tasks := (tasks s)[k := v], current_task := current_task s, metrics := metrics s\<rparr> =
      s\<lparr>tasks := (tasks s)[k := v]\<rparr>" by (cases s) simp
  moreover have "i < MAX_TASKS" if "current_task s = Some i" for i
    using assms(1) that by (simp add: table_inv_def)
  ultimately show ?thesis
    using update_in_place [OF assms, of "current_task s" "metrics s"] by simp
qed

lemma schedule_inv:
  assumes "table_inv s" "count_inv s"
  shows "\<exists>r s'. schedule s = Some (r, s') \<and> table_inv s' \<and> count_inv s'"
proof (cases rule: schedule_cases [of s])
  case idle
  with metrics_only [OF assms, of "record_schedule False (metrics s)"] show ?thesis
    by (simp add: record_schedule_def Let_def)
next
  case (run i)
  then have i: "i < length (tasks s)" by (simp add: best_ready_def ready_def)
  then have "i < MAX_TASKS" using assms by (simp add: table_inv_def)
  with run(2) update_in_place [OF assms i, of "set_state Running (tasks s ! i)" "\<lambda>t. t\<lparr>task_state := Running\<rparr>"
      "Some i" "record_schedule True (metrics s)"]
  show ?thesis by (simp add: set_state_def record_schedule_def)
qed

lemma yield_inv:
  assumes "table_inv s" "count_inv s"
  shows "\<exists>s'. yield_task s = Some s' \<and> table_inv s' \<and> count_inv s'"
proof (cases "current_task s")
  case None
  with assms show ?thesis by (simp add: yield_task_def)
next
  case (Some i)
  then have i: "i < length (tasks s)" using assms by (auto simp: table_inv_def)
  with Some update_in_place [OF assms i, of "set_state Ready (tasks s ! i)" "\<lambda>t. t\<lparr>task_state := Ready\<rparr>"
      None "record_yield (metrics s)"]
  show ?thesis by (simp add: yield_task_def set_state_def record_yield_def)
qed

lemma block_inv:
  assumes "table_inv s" "count_inv s"
  shows "\<exists>s'. block_current s = Some s' \<and> table_inv s' \<and> count_inv s'"
proof (cases "current_task s")
  case None
  with assms show ?thesis by (simp add: block_current_def)
next
  case (Some i)
  show ?thesis
  proof (cases "first_index (has_id i) (tasks s)")
    case None
    with Some yield_inv [OF assms] show ?thesis by (simp add: block_current_def)
  next
    case k: (Some k)
    have "table_inv (s\<lparr>tasks := (tasks s)[k := set_state Blocked (tasks s ! k)]\<rparr>) \<and>
          count_inv (s\<lparr>tasks := (tasks s)[k := set_state Blocked (tasks s ! k)]\<rparr>)"
      by (rule update_tasks [OF assms first_index_bound [OF k], where f = "\<lambda>t. t\<lparr>task_state := Blocked\<rparr>"])
        (simp_all add: set_state_def)
    with Some k yield_inv show ?thesis by (simp add: block_current_def)
  qed
qed

lemma wake_inv:
  assumes "table_inv s" "count_inv s"
  shows "table_inv (snd (wake s i)) \<and> count_inv (snd (wake s i))"
  unfolding wake_def set_state_def
  by (auto split: option.split dest!: first_index_bound simp: assms update_tasks)

lemma set_priority_inv:
  assumes "table_inv s" "count_inv s"
  shows "table_inv (snd (set_task_priority s i p)) \<and> count_inv (snd (set_task_priority s i p))"
  unfolding set_task_priority_def
  by (auto split: option.split dest!: first_index_bound simp: assms update_tasks)

text \<open>
  Everything one scheduler can do to its own table; identifiers are unique as long as the
  64-bit identifier counter has not wrapped.
\<close>

inductive sched_reachable :: "Scheduler \<Rightarrow> bool" where
  new: "sched_reachable Scheduler_new"
| spawn: "sched_reachable s \<Longrightarrow> next_task_id s + 1 < USIZE_MOD \<Longrightarrow>
    sched_reachable (snd (spawn_task_with_affinity s p a))"
| schedule: "sched_reachable s \<Longrightarrow> schedule s = Some (r, s') \<Longrightarrow> sched_reachable s'"
| yield: "sched_reachable s \<Longrightarrow> yield_task s = Some s' \<Longrightarrow> sched_reachable s'"
| terminate: "sched_reachable s \<Longrightarrow> sched_reachable (terminate_task s i)"
| priority: "sched_reachable s \<Longrightarrow> sched_reachable (snd (set_task_priority s i p))"
| wake: "sched_reachable s \<Longrightarrow> sched_reachable (snd (wake s i))"
| block: "sched_reachable s \<Longrightarrow> block_current s = Some s' \<Longrightarrow> sched_reachable s'"

lemma sched_reachable_inv: "sched_reachable s \<Longrightarrow> table_inv s \<and> count_inv s"
proof (induction rule: sched_reachable.induct)
  case new
  have "active_tasks Scheduler_new = 0" by (simp add: active_tasks_def Scheduler_new_def)
  then show ?case
    by (simp add: table_inv_def count_inv_def Scheduler_new_def metrics_new_def ids_unique_def)
next
  case (schedule s r s')
  then show ?case using schedule_inv [of s] by auto
next
  case (yield s s')
  then show ?case using yield_inv [of s] by auto
next
  case (block s s')
  then show ?case using block_inv [of s] by auto
qed (simp_all add: spawn_inv terminate_inv set_priority_inv wake_inv)

section \<open>Properties\<close>

text \<open>A scheduler with two tasks of different priority, for the examples.\<close>

definition two_tasks :: Scheduler where
  "two_tasks = snd (spawn_task (snd (spawn_task Scheduler_new 10)) 200)"

lemma tasks_new: "tasks Scheduler_new = None # None # replicate 62 None"
proof -
  have "MAX_TASKS = Suc (Suc 62)" by (simp add: MAX_TASKS_def)
  show ?thesis unfolding Scheduler_new_def \<open>MAX_TASKS = _\<close> replicate_Suc by simp
qed

lemma two_tasks_tasks:
  "tasks two_tasks = Some (Task_new 0 10) # Some (Task_new 1 200) # replicate 62 None"
  "current_task two_tasks = None"
  by (simp_all add: two_tasks_def spawn_task_def spawn_task_with_affinity_def tasks_new is_free_def Task_new_def)
    (simp_all add: Scheduler_new_def usize_add_def)

lemma two_tasks_reachable: "sched_reachable two_tasks"
  unfolding two_tasks_def spawn_task_def
  by (intro sched_reachable.intros)
    (simp_all add: spawn_task_with_affinity_def is_free_def tasks_new, simp_all add: Scheduler_new_def usize_add_def)

lemma two_tasks_ready: "ready (tasks two_tasks) i \<longleftrightarrow> i = 0 \<or> i = 1"
proof (cases "i < 2")
  case True
  then have "i = 0 \<or> i = 1" by auto
  then show ?thesis
    by (auto simp: ready_def two_tasks_tasks Task_new_def Task_new_with_affinity_def)
next
  case False
  then obtain j where "i = Suc (Suc j)" by (metis less_2_cases_iff not_less_eq old.nat.exhaust)
  then show ?thesis by (auto simp: ready_def two_tasks_tasks)
qed



text \<open>
  The scheduler's own operations keep its table in order and never panic: the table has
  \<open>MAX_TASKS\<close> slots, no two tasks share an identifier, every identifier is below the next one
  to be given out, the current slot is a slot of the table, and the metrics count exactly the
  occupied slots, with a peak between that count and \<open>MAX_TASKS\<close>.
\<close>

theorem scheduler_invariant:
  assumes "sched_reachable s"
  shows "length (tasks s) = MAX_TASKS \<and> ids_unique (tasks s) \<and>
    (\<forall>t. Some t \<in> set (tasks s) \<longrightarrow> task_id t < next_task_id s) \<and>
    sm_active_tasks (metrics s) = active_tasks s \<and>
    active_tasks s \<le> sm_peak_tasks (metrics s) \<and> sm_peak_tasks (metrics s) \<le> MAX_TASKS \<and>
    schedule s \<noteq> None \<and> yield_task s \<noteq> None \<and> block_current s \<noteq> None"
proof -
  have inv: "table_inv s" "count_inv s" using sched_reachable_inv [OF assms] by auto
  then show ?thesis using schedule_inv [OF inv] yield_inv [OF inv] block_inv [OF inv]
    by (auto simp: table_inv_def count_inv_def)
qed

theorem scheduler_invariant_witness:
  "sched_reachable two_tasks \<and> sm_active_tasks (metrics two_tasks) = 2"
  using scheduler_invariant [OF two_tasks_reachable] two_tasks_reachable
  by (simp add: active_tasks_def two_tasks_tasks)

lemma two_tasks_best: "best_ready (tasks two_tasks) 1"
proof -
  have "prio (tasks two_tasks) 0 = 10" "prio (tasks two_tasks) 1 = 200"
    by (simp_all add: prio_def two_tasks_tasks Task_new_def Task_new_with_affinity_def)
  then show ?thesis unfolding best_ready_def two_tasks_ready by auto
qed

lemma get_task_spec:
  assumes "table_inv s" "k < length (tasks s)" "tasks s ! k = Some t"
  shows "get_task s (task_id t) = Some t" and "first_index (has_id (task_id t)) (tasks s) = Some k"
proof -
  have "\<not> has_id (task_id t) (tasks s ! j)" if "j < k" for j
    using ids_uniqueD [of "tasks s" j k _ t] assms that
    by (auto simp: has_id_def table_inv_def split: option.splits)
  with assms show f: "first_index (has_id (task_id t)) (tasks s) = Some k"
    by (simp add: first_index_Some_iff has_id_def)
  then show "get_task s (task_id t) = Some t" using assms by (simp add: get_task_def)
qed

lemma get_task_Some:
  assumes "get_task s i = Some t"
  obtains k where "k < length (tasks s)" "tasks s ! k = Some t" "task_id t = i"
    "first_index (has_id i) (tasks s) = Some k"
proof -
  from assms obtain k where k: "first_index (has_id i) (tasks s) = Some k" "tasks s ! k = Some t"
    by (auto simp: get_task_def split: option.splits)
  with first_index_SomeD [OF k(1)] that show thesis by (auto simp: has_id_def)
qed

lemma get_task_None: "get_task s i = None \<longleftrightarrow> (\<forall>t. Some t \<in> set (tasks s) \<longrightarrow> task_id t \<noteq> i)"
proof (cases "first_index (has_id i) (tasks s)")
  case None
  then have "\<forall>x \<in> set (tasks s). \<not> has_id i x" by (simp add: first_index_None_iff)
  with None show ?thesis by (auto simp: get_task_def has_id_def)
next
  case (Some k)
  then obtain t where "k < length (tasks s)" "tasks s ! k = Some t" "task_id t = i"
    using first_index_SomeD [OF Some] by (auto simp: has_id_def split: option.splits)
  with Some show ?thesis by (auto simp: get_task_def) (metis nth_mem)
qed

text \<open>
  Spawning succeeds exactly when a slot is free. The new task is ready, has the next
  identifier, which no task has, and goes into the lowest free slot; every other slot keeps
  its task, and terminating the new task gives back the table as it was.
\<close>

theorem spawn_task_spec:
  assumes "sched_reachable s"
  shows "case spawn_task_with_affinity s p a of
      (Inr i, s') \<Rightarrow> i = next_task_id s \<and> get_task s i = None \<and>
         get_task s' i = Some (Task_new_with_affinity i p a) \<and>
         (\<exists>k. tasks s ! k = None \<and> (\<forall>j < k. tasks s ! j \<noteq> None) \<and>
              tasks s' = (tasks s)[k := Some (Task_new_with_affinity i p a)]) \<and>
         tasks (terminate_task s' i) = tasks s
    | (Inl e, s') \<Rightarrow> e = TaskSpawnFailed \<and> active_tasks s = MAX_TASKS \<and> tasks s' = tasks s"
proof -
  have inv: "table_inv s" using sched_reachable_inv [OF assms] by simp
  show ?thesis
  proof (cases "first_index is_free (tasks s)")
    case None
    then have "\<forall>t \<in> set (tasks s). t \<noteq> None" by (simp add: first_index_None_iff is_free_def)
    then have "filter (\<lambda>t. t \<noteq> None) (tasks s) = tasks s" by (simp add: filter_id_conv)
    then have "active_tasks s = MAX_TASKS" using inv by (simp only: active_tasks_def table_inv_def)
    with None show ?thesis by (simp add: spawn_task_with_affinity_def)
  next
    case (Some k)
    let ?i = "next_task_id s" and ?t = "Task_new_with_affinity (next_task_id s) p a"
    have k: "k < length (tasks s)" "tasks s ! k = None" "\<forall>j < k. tasks s ! j \<noteq> None"
      using first_index_SomeD [OF Some] by (auto simp: is_free_def)
    have fresh: "get_task s ?i = None" using inv by (auto simp: get_task_None table_inv_def)
    have "\<not> has_id ?i (tasks s ! j)" if "j < length (tasks s)" for j
      using fresh that by (auto simp: get_task_None has_id_def split: option.splits) (metis nth_mem)
    then have fi: "first_index (has_id ?i) ((tasks s)[k := Some ?t]) = Some k"
      using k(1) by (simp add: first_index_Some_iff has_id_def Task_new_with_affinity_def)
    have "(tasks s)[k := None] = tasks s" using k(2) list_update_id [of "tasks s" k] by simp
    with Some k fresh fi show ?thesis
      by (simp add: spawn_task_with_affinity_def get_task_def terminate_task_def) blast
  qed
qed

theorem spawn_task_spec_witness:
  "get_task (snd (spawn_task_with_affinity two_tasks 7 None)) 2 = Some (Task_new_with_affinity 2 7 None)"
proof -
  have "next_task_id two_tasks = 2"
    by (simp add: two_tasks_def spawn_task_def spawn_task_with_affinity_def tasks_new is_free_def)
      (simp add: Scheduler_new_def usize_add_def)
  moreover have "first_index is_free (tasks two_tasks) = Some 2"
    by (simp add: two_tasks_tasks is_free_def numeral_eq_Suc)
  ultimately show ?thesis using spawn_task_spec [OF two_tasks_reachable, of 7 None]
    by (simp add: spawn_task_with_affinity_def)
qed

text \<open>
  There is no rotation among tasks: when the task that \<open>schedule\<close> selected yields and
  nothing else happens, \<open>schedule\<close> selects the same task again, whatever other tasks of the
  same priority are waiting.
\<close>

theorem schedule_no_rotation:
  assumes "schedule s = Some (Some i, s1)" and "yield_task s1 = Some s2"
  shows "tasks s2 = tasks s \<and> (\<exists>s3. schedule s2 = Some (Some i, s3))"
proof (cases rule: schedule_cases [of s])
  case idle
  with assms show ?thesis by simp
next
  case (run k)
  with assms(1) have k: "k = i" and s1: "s1 = s\<lparr>tasks := (tasks s)[i := set_state Running (tasks s ! i)],
      current_task := Some i, metrics := record_schedule True (metrics s)\<rparr>" by auto
  from run(1) k obtain t where t: "i < length (tasks s)" "tasks s ! i = Some t" "task_state t = Ready"
    by (auto simp: best_ready_def ready_def)
  have "set_state Ready (set_state Running (tasks s ! i)) = tasks s ! i"
    using t by (simp add: set_state_def)
  then have "tasks s2 = tasks s" using assms(2) s1 t(1) by (auto simp: yield_task_def)
  moreover from this run(1) k schedule_Some [of s2 i] show ?thesis by simp
qed

theorem schedule_no_rotation_witness:
  "\<exists>s1 s2 s3. schedule two_tasks = Some (Some 1, s1) \<and> yield_task s1 = Some s2 \<and> schedule s2 = Some (Some 1, s3)"
proof -
  from schedule_Some [OF two_tasks_best] obtain s1 where s1: "schedule two_tasks = Some (Some 1, s1)" by blast
  have "sched_reachable s1" by (rule sched_reachable.schedule [OF two_tasks_reachable s1])
  then obtain s2 where "yield_task s1 = Some s2" using yield_inv sched_reachable_inv by blast
  with s1 schedule_no_rotation [OF s1 this] show ?thesis by blast
qed

text \<open>
  \<open>block_current_task\<close> does not block the current task. It looks for a task whose
  identifier is the current slot number, marks that one \<open>Blocked\<close>, and then yields, which
  makes the task in the current slot \<open>Ready\<close>. So the task that asked to be blocked is ready
  afterwards, and a different task, whose identifier happens to be that number, is the one
  that ends up \<open>Blocked\<close>.
\<close>

theorem block_current_task_leaves_ready:
  assumes "sched_reachable s" and "current_task s = Some i" and "tasks s ! i = Some t"
  shows "\<exists>s'. block_current_task (Some s) = Some (Some s') \<and>
    tasks s' ! i = Some (t\<lparr>task_state := Ready\<rparr>) \<and> current_task s' = None \<and>
    (\<forall>k t'. k < MAX_TASKS \<and> k \<noteq> i \<and> tasks s ! k = Some t' \<and> task_id t' = i \<longrightarrow>
       tasks s' ! k = Some (t'\<lparr>task_state := Blocked\<rparr>))"
proof -
  have inv: "table_inv s" using sched_reachable_inv [OF assms(1)] by simp
  then have len: "length (tasks s) = MAX_TASKS" and i: "i < MAX_TASKS"
    using assms(2) by (auto simp: table_inv_def)
  show ?thesis
  proof (cases "first_index (has_id i) (tasks s)")
    case None
    then have "task_id t' \<noteq> i" if "k < MAX_TASKS" "tasks s ! k = Some t'" for k t'
      using that len nth_mem [of k "tasks s"] by (force simp: first_index_None_iff has_id_def)
    with None assms(2,3) len i show ?thesis
      by (auto simp: block_current_task_def block_current_def yield_task_def set_state_def)
  next
    case (Some k)
    obtain u where u: "k < MAX_TASKS" "tasks s ! k = Some u" "task_id u = i"
      using first_index_SomeD [OF Some] len by (auto simp: has_id_def split: option.splits)
    have uniq: "l = k" if "l < MAX_TASKS" "tasks s ! l = Some t'" "task_id t' = i" for l t'
      using ids_uniqueD [of "tasks s" l k t' u] inv that u len by (auto simp: table_inv_def)
    show ?thesis
    proof (cases "k = i")
      case True
      with Some assms(2,3) len i u uniq show ?thesis
        by (auto simp: block_current_task_def block_current_def yield_task_def set_state_def)
    next
      case False
      with Some assms(2,3) len i u show ?thesis
        by (auto simp: block_current_task_def block_current_def yield_task_def set_state_def
            nth_list_update dest: uniq)
    qed
  qed
qed

theorem block_current_task_leaves_ready_witness:
  "\<exists>s s' t. current_task s = Some 1 \<and> block_current_task (Some s) = Some (Some s') \<and>
     tasks s' ! 1 = Some t \<and> task_state t = Ready"
proof -
  from schedule_Some [OF two_tasks_best] obtain s1 where
    s1: "schedule two_tasks = Some (Some 1, s1)" "current_task s1 = Some 1"
      "tasks s1 = (tasks two_tasks)[1 := set_state Running (tasks two_tasks ! 1)]" by auto
  have r: "sched_reachable s1" by (rule sched_reachable.schedule [OF two_tasks_reachable s1(1)])
  have "tasks s1 ! 1 = Some ((Task_new 1 200)\<lparr>task_state := Running\<rparr>)"
    by (simp add: s1(3) two_tasks_tasks set_state_def)
  from block_current_task_leaves_ready [OF r s1(2) this] s1(2) show ?thesis by auto
qed

text \<open>
  \<open>wake_task\<close> makes a blocked task ready and leaves every other slot alone; for a task
  that is not blocked, or an identifier no task has, it reports \<open>TaskNotFound\<close> and changes
  nothing.
\<close>

theorem wake_task_spec:
  assumes "sched_reachable s"
  shows "case get_task s i of
      Some t \<Rightarrow>
        if task_state t = Blocked
        then \<exists>k s'. wake_task (Some s) i = (Ok (), Some s') \<and> tasks s ! k = Some t \<and>
               s' = s\<lparr>tasks := (tasks s)[k := Some (t\<lparr>task_state := Ready\<rparr>)]\<rparr> \<and>
               get_task s' i = Some (t\<lparr>task_state := Ready\<rparr>)
        else wake_task (Some s) i = (Err (TaskNotFound i), Some s)
    | None \<Rightarrow> wake_task (Some s) i = (Err (TaskNotFound i), Some s)"
proof -
  let ?P = "\<lambda>slot. case slot of Some t \<Rightarrow> task_id t = i \<and> task_state t = Blocked | None \<Rightarrow> False"
  have inv: "table_inv s" "count_inv s" using sched_reachable_inv [OF assms] by auto
  show ?thesis
  proof (cases "get_task s i")
    case None
    then have "first_index ?P (tasks s) = None"
      by (auto simp: first_index_None_iff get_task_None split: option.splits)
    with None show ?thesis by (simp add: wake_task_def wake_def)
  next
    case (Some t)
    then obtain k where k: "k < length (tasks s)" "tasks s ! k = Some t" "task_id t = i"
      by (rule get_task_Some)
    have only: "j = k" if "j < length (tasks s)" "tasks s ! j = Some u" "task_id u = i" for j u
      using ids_uniqueD [of "tasks s" j k u t] inv that k by (auto simp: table_inv_def)
    show ?thesis
    proof (cases "task_state t = Blocked")
      case True
      have "first_index ?P (tasks s) = Some k"
        unfolding first_index_Some_iff using k True
        by (auto split: option.splits dest!: only [rotated 1])
      then have w: "wake_task (Some s) i = (Ok (), Some (s\<lparr>tasks := (tasks s)[k := Some (t\<lparr>task_state := Ready\<rparr>)]\<rparr>))"
        using k by (simp add: wake_task_def wake_def set_state_def)
      have "table_inv (s\<lparr>tasks := (tasks s)[k := Some (t\<lparr>task_state := Ready\<rparr>)]\<rparr>)"
        using update_tasks [OF inv k(1), of "Some (t\<lparr>task_state := Ready\<rparr>)" "\<lambda>t. t\<lparr>task_state := Ready\<rparr>"] k(2) by simp
      from get_task_spec(1) [OF this, of k "t\<lparr>task_state := Ready\<rparr>"] k w Some True show ?thesis by auto
    next
      case False
      have "\<not> ?P (tasks s ! j)" if "j < length (tasks s)" for j
      proof (cases "tasks s ! j")
        case (Some u)
        with only [OF that Some] k(2) False show ?thesis by auto
      qed simp
      then have "first_index ?P (tasks s) = None" by (auto simp: first_index_None_iff in_set_conv_nth)
      with Some False show ?thesis by (simp add: wake_task_def wake_def)
    qed
  qed
qed

theorem wake_task_spec_witness:
  "wake_task (Some two_tasks) 0 = (Err (TaskNotFound 0), Some two_tasks)"
  using wake_task_spec [OF two_tasks_reachable, of 0]
  by (simp add: get_task_def two_tasks_tasks has_id_def Task_new_def Task_new_with_affinity_def)

end
