(* ===== verification/Percpu_Correct.thy ===== *)
theory Percpu_Correct
  imports Percpu Scheduler_Correct
begin

text \<open>
  Moving tasks between processors: what extraction and injection do to a task table, when
  a migration keeps every task and when it loses one, and that work stealing moves tasks
  from the busiest to the idlest processor without losing any.
\<close>

section \<open>One task table\<close>

lemma extract_task_cases:
  obtains (no) "extract_task s i = (None, s)"
  | (yes) k t where "extract_task s i = (Some t, s\<lparr>tasks := (tasks s)[k := None]\<rparr>)"
      "k < length (tasks s)" "tasks s ! k = Some t" "task_id t = i"
      "task_state t \<noteq> Running" "task_state t \<noteq> Terminated" "task_affinity t = None"
proof (cases "first_index (has_id i) (tasks s)")
  case None
  then show thesis using no by (simp add: extract_task_def)
next
  case (Some k)
  then obtain t where t: "k < length (tasks s)" "tasks s ! k = Some t" "task_id t = i"
    using first_index_SomeD [OF Some] by (auto simp: has_id_def split: option.splits)
  with Some no yes show thesis
    by (cases "task_state t = Running \<or> task_state t = Terminated \<or> task_affinity t \<noteq> None")
      (auto simp: extract_task_def)
qed

lemma inject_task_cases:
  obtains (full) "inject_task s t = (False, s)" "active_tasks s = length (tasks s)"
  | (slot) k where "inject_task s t = (True, s\<lparr>tasks := (tasks s)[k := Some (t\<lparr>task_state := Ready\<rparr>)]\<rparr>)"
      "k < length (tasks s)" "tasks s ! k = None" "active_tasks s < length (tasks s)"
proof (cases "first_index is_free (tasks s)")
  case None
  then have "\<forall>t \<in> set (tasks s). t \<noteq> None" by (simp add: first_index_None_iff is_free_def)
  then have "filter (\<lambda>t. t \<noteq> None) (tasks s) = tasks s" by (simp add: filter_id_conv)
  then have "active_tasks s = length (tasks s)" by (simp only: active_tasks_def)
  then show thesis using full None by (simp add: inject_task_def)
next
  case (Some k)
  then have k: "k < length (tasks s)" "tasks s ! k = None"
    using first_index_SomeD [OF Some] by (auto simp: is_free_def)
  have "active_tasks s < length (tasks s)"
    using active_tasks_update [OF k(1), of "Some t"] k(2)
      active_tasks_le [of "s\<lparr>tasks := (tasks s)[k := Some t]\<rparr>"] by simp
  then show thesis using slot k Some by (simp add: inject_task_def)
qed

section \<open>Migration\<close>

definition load :: "System \<Rightarrow> nat \<Rightarrow> nat" where
  "load s i = active_tasks (cpu_scheduler (per_cpu s ! i))"

definition total_load :: "System \<Rightarrow> nat" where
  "total_load s = (\<Sum>i < MAX_CPUS. load s i)"

definition sys_wf :: "System \<Rightarrow> bool" where
  "sys_wf s \<longleftrightarrow> length (per_cpu s) = MAX_CPUS \<and>
     (\<forall>i < MAX_CPUS. length (tasks (cpu_scheduler (per_cpu s ! i))) = MAX_TASKS) \<and> num_online s \<le> MAX_CPUS"

lemma load_le: "sys_wf s \<Longrightarrow> i < MAX_CPUS \<Longrightarrow> load s i \<le> MAX_TASKS"
  using active_tasks_le [of "cpu_scheduler (per_cpu s ! i)"] by (simp add: sys_wf_def load_def)

lemma get_cpu_Ok: "get_cpu s i = Ok c \<longleftrightarrow> i < MAX_CPUS \<and> is_online (per_cpu s ! i) \<and> c = per_cpu s ! i"
  by (auto simp: get_cpu_def)

lemma total_load_move:
  assumes "f < MAX_CPUS" "t < MAX_CPUS" "f \<noteq> t"
    and "\<And>i. i < MAX_CPUS \<Longrightarrow> i \<noteq> f \<Longrightarrow> i \<noteq> t \<Longrightarrow> load s' i = load s i"
  shows "total_load s' + load s f + load s t = total_load s + load s' f + load s' t"
proof -
  have split: "total_load x = load x f + (load x t + (\<Sum>i \<in> {..<MAX_CPUS} - {f} - {t}. load x i))" for x
    unfolding total_load_def using assms(1-3)
    by (subst sum.remove [of _ f], simp, simp, subst sum.remove [of _ t], simp_all)
  have "(\<Sum>i \<in> {..<MAX_CPUS} - {f} - {t}. load s' i) = (\<Sum>i \<in> {..<MAX_CPUS} - {f} - {t}. load s i)"
    by (rule sum.cong) (auto intro: assms(4))
  with split [of s] split [of s'] show ?thesis by simp
qed

text \<open>The possible outcomes of a migration between two different processors.\<close>

lemma migrate_cases:
  assumes wf: "sys_wf s" and ft: "f \<noteq> t"
  obtains
    (refused) "\<exists>s'. migrate_task s i f t = (False, s') \<and> per_cpu s' = per_cpu s \<and> num_online s' = num_online s"
      "\<And>c d. get_cpu s f = Ok c \<Longrightarrow> get_cpu s t = Ok d \<Longrightarrow> fst (extract_task (cpu_scheduler c) i) = None"
  | (moved) s' x k where "migrate_task s i f t = (True, s')" "f < MAX_CPUS" "t < MAX_CPUS"
      "load s' f + 1 = load s f" "load s' t = load s t + 1" "sys_wf s'"
      "\<And>j. j \<noteq> f \<Longrightarrow> j \<noteq> t \<Longrightarrow> per_cpu s' ! j = per_cpu s ! j" "num_online s' = num_online s"
      "Some x \<in> set (tasks (cpu_scheduler (per_cpu s ! f)))" "task_id x = i" "task_state x \<noteq> Running"
      "task_affinity x = None" "k < MAX_TASKS" "tasks (cpu_scheduler (per_cpu s ! t)) ! k = None"
      "tasks (cpu_scheduler (per_cpu s' ! t)) = (tasks (cpu_scheduler (per_cpu s ! t)))[k := Some (x\<lparr>task_state := Ready\<rparr>)]"
  | (lost) s' x where "migrate_task s i f t = (False, s')" "f < MAX_CPUS" "t < MAX_CPUS"
      "load s' f + 1 = load s f" "load s' t = load s t" "load s t = MAX_TASKS"
      "\<And>j. j \<noteq> f \<Longrightarrow> per_cpu s' ! j = per_cpu s ! j"
      "Some x \<in> set (tasks (cpu_scheduler (per_cpu s ! f)))" "task_id x = i"
proof (cases "\<exists>c d. get_cpu s f = Ok c \<and> get_cpu s t = Ok d")
  case False
  then have "migrate_task s i f t = (False, s)"
    by (auto simp: migrate_task_def split: sum.splits)
  then show thesis using refused False by blast
next
  case True
  let ?c = "per_cpu s ! f" and ?d = "per_cpu s ! t"
  from True have g: "get_cpu s f = Ok ?c" "get_cpu s t = Ok ?d" "f < MAX_CPUS" "t < MAX_CPUS"
    by (auto simp: get_cpu_Ok)
  have len: "length (per_cpu s) = MAX_CPUS" "length (tasks (cpu_scheduler ?c)) = MAX_TASKS"
      "length (tasks (cpu_scheduler ?d)) = MAX_TASKS" using wf g by (auto simp: sys_wf_def)
  show thesis
  proof (cases rule: extract_task_cases [of "cpu_scheduler ?c" i])
    case no
    have "per_cpu (put_cpu s f ?c) = per_cpu s" by (simp add: put_cpu_def)
    then have "\<exists>s'. migrate_task s i f t = (False, s') \<and> per_cpu s' = per_cpu s \<and> num_online s' = num_online s"
      using no g by (simp add: migrate_task_def put_cpu_def)
    then show thesis by (rule refused) (use no g in auto)
  next
    case (yes k x)
    let ?sf = "(cpu_scheduler ?c)\<lparr>tasks := (tasks (cpu_scheduler ?c))[k := None]\<rparr>"
    have ef: "active_tasks ?sf + 1 = active_tasks (cpu_scheduler ?c)"
      using active_tasks_update [OF yes(2), of None] yes(3) by simp
    have x: "Some x \<in> set (tasks (cpu_scheduler ?c))" using yes(2,3) by (metis nth_mem)
    show thesis
    proof (cases rule: inject_task_cases [of "cpu_scheduler ?d" x])
      case full
      let ?s' = "s\<lparr>per_cpu := (per_cpu s)[f := ?c\<lparr>cpu_scheduler := ?sf\<rparr>]\<rparr>"
      have "(per_cpu ?s')[t := ?d] = per_cpu ?s'"
        using list_update_id [of "per_cpu ?s'" t] ft by simp
      then have "migrate_task s i f t = (False, ?s')"
        using g yes full ft len by (simp add: migrate_task_def put_cpu_def Let_def)
      then show thesis
        using lost [of ?s' x] g ft len ef full x yes(4) by (simp add: load_def)
    next
      case (slot l)
      let ?st = "(cpu_scheduler ?d)\<lparr>tasks := (tasks (cpu_scheduler ?d))[l := Some (x\<lparr>task_state := Ready\<rparr>)]\<rparr>"
      let ?s' = "s\<lparr>per_cpu := (per_cpu s)[f := ?c\<lparr>cpu_scheduler := ?sf\<rparr>, t := ?d\<lparr>cpu_scheduler := ?st\<rparr>],
        migrations := migrations s + 1\<rparr>"
      have m: "migrate_task s i f t = (True, ?s')"
        using g yes slot ft len by (simp add: migrate_task_def put_cpu_def Let_def)
      have et: "active_tasks ?st = active_tasks (cpu_scheduler ?d) + 1"
        using active_tasks_update [OF slot(2), of "Some (x\<lparr>task_state := Ready\<rparr>)"] slot(3) by simp
      have wf': "sys_wf ?s'"
        using wf g ft by (auto simp: sys_wf_def nth_list_update)
      show thesis
        by (rule moved [OF m, of x l])
          (use g ft len ef et x yes slot wf' in \<open>simp_all add: load_def\<close>)
    qed
  qed
qed

lemma migrate_all_acc: "migrate_all ts f t n s = map_prod (\<lambda>k. k + n) id (migrate_all ts f t 0 s)"
proof (induction ts arbitrary: n s)
  case (Cons i ts)
  obtain ok s1 where m: "migrate_task s i f t = (ok, s1)" by (cases "migrate_task s i f t")
  show ?case
  proof (cases ok)
    case True
    with m Cons.IH [of "n + 1" s1] Cons.IH [of 1 s1] show ?thesis
      by (cases "migrate_all ts f t 0 s1") simp
  next
    case False
    with m Cons.IH [of n s1] show ?thesis by simp
  qed
qed simp

lemma migrate_all_moves:
  assumes "sys_wf s" "f \<noteq> t" "f < MAX_CPUS" "t < MAX_CPUS" "load s t + length ts \<le> MAX_TASKS"
    and "migrate_all ts f t 0 s = (n, s')"
  shows "sys_wf s' \<and> n \<le> length ts \<and> load s' f + n = load s f \<and> load s' t = load s t + n \<and>
    (\<forall>j. j \<noteq> f \<and> j \<noteq> t \<longrightarrow> per_cpu s' ! j = per_cpu s ! j)"
  using assms
proof (induction ts arbitrary: s n)
  case (Cons i ts)
  obtain ok s1 where m: "migrate_task s i f t = (ok, s1)" by (cases "migrate_task s i f t")
  obtain k s2 where r: "migrate_all ts f t 0 s1 = (k, s2)" by (cases "migrate_all ts f t 0 s1")
  with m Cons.prems(6) migrate_all_acc [of ts f t 1 s1] have n: "n = (if ok then k + 1 else k)" "s' = s2"
    by (auto split: if_splits)
  show ?case
  proof (cases rule: migrate_cases [OF Cons.prems(1,2), of i, case_names refused moved lost])
    case refused
    with m have s1: "per_cpu s1 = per_cpu s" "num_online s1 = num_online s" "\<not> ok" by auto
    then have "sys_wf s1" "load s1 = load s" using Cons.prems(1) by (auto simp: sys_wf_def load_def)
    with Cons.IH [of s1 k] Cons.prems(2-5) r n s1 show ?thesis by auto
  next
    case (moved s1' x l)
    with m have s1: "s1' = s1" ok by auto
    with Cons.IH [of s1 k] Cons.prems(2-5) r n moved(4-7) show ?thesis by auto
  next
    case (lost s1' x)
    with Cons.prems(5) show ?thesis by simp
  qed
qed simp

section \<open>Choosing the processors\<close>

definition online :: "System \<Rightarrow> nat \<Rightarrow> bool" where
  "online s i \<longleftrightarrow> i < num_online s \<and> i < MAX_CPUS \<and> is_online (per_cpu s ! i)"

lemma busiest_loop_spec:
  assumes "busiest_loop s is mx b = r" and "\<And>i. b = Some i \<Longrightarrow> load s i = mx" and "\<forall>i \<in> set is. i < num_online s"
  shows "(r = b \<or> (\<exists>i \<in> set is. r = Some i \<and> online s i)) \<and>
    (\<forall>j \<in> set is. online s j \<longrightarrow> (case r of Some i \<Rightarrow> load s j \<le> load s i | None \<Rightarrow> load s j \<le> mx)) \<and>
    (case r of Some i \<Rightarrow> mx \<le> load s i | None \<Rightarrow> True)"
  using assms
proof (induction "is" arbitrary: mx b)
  case Nil
  then show ?case by (auto split: option.splits)
next
  case (Cons k "is")
  show ?case
  proof (cases "k < MAX_CPUS \<and> is_online (per_cpu s ! k) \<and> load s k > mx")
    case True
    then have "busiest_loop s is (load s k) (Some k) = r"
      using Cons.prems(1) by (simp add: get_cpu_def cpu_active_tasks_def load_def)
    from Cons.IH [OF this] Cons.prems(3) True show ?thesis
      by (auto simp: online_def split: option.splits)
  next
    case False
    then have "busiest_loop s is mx b = r"
      using Cons.prems(1) by (auto simp: get_cpu_def cpu_active_tasks_def load_def)
    from Cons.IH [OF this Cons.prems(2)] Cons.prems(3) False show ?thesis
      by (auto simp: online_def not_less split: option.splits)
  qed
qed

lemma idlest_loop_spec:
  assumes "idlest_loop s is mn b = r" and "\<And>i. b = Some i \<Longrightarrow> load s i = mn" and "\<forall>i \<in> set is. i < num_online s"
  shows "(r = b \<or> (\<exists>i \<in> set is. r = Some i \<and> online s i)) \<and>
    (\<forall>j \<in> set is. online s j \<longrightarrow> (case r of Some i \<Rightarrow> load s i \<le> load s j | None \<Rightarrow> mn \<le> load s j)) \<and>
    (case r of Some i \<Rightarrow> load s i \<le> mn | None \<Rightarrow> True)"
  using assms
proof (induction "is" arbitrary: mn b)
  case Nil
  then show ?case by (auto split: option.splits)
next
  case (Cons k "is")
  show ?case
  proof (cases "k < MAX_CPUS \<and> is_online (per_cpu s ! k) \<and> load s k < mn")
    case True
    then have "idlest_loop s is (load s k) (Some k) = r"
      using Cons.prems(1) by (simp add: get_cpu_def cpu_active_tasks_def load_def)
    from Cons.IH [OF this] Cons.prems(3) True show ?thesis
      by (auto simp: online_def split: option.splits)
  next
    case False
    then have "idlest_loop s is mn b = r"
      using Cons.prems(1) by (auto simp: get_cpu_def cpu_active_tasks_def load_def)
    from Cons.IH [OF this Cons.prems(2)] Cons.prems(3) False show ?thesis
      by (auto simp: online_def not_less split: option.splits)
  qed
qed

lemma find_busiest_Some:
  assumes "find_busiest_cpu s = Some b"
  shows "online s b" and "online s j \<Longrightarrow> load s j \<le> load s b"
  using busiest_loop_spec [OF assms [unfolded find_busiest_cpu_def]] by (auto simp: online_def)

lemma find_idlest_Some:
  assumes "find_idlest_cpu s = Some b"
  shows "online s b" and "online s j \<Longrightarrow> load s b \<le> load s j"
  using idlest_loop_spec [OF assms [unfolded find_idlest_cpu_def]] by (auto simp: online_def)

lemma work_stealing_cases:
  assumes "balance_work_stealing s = (n, s')"
  obtains (unchanged) "n = 0" "per_cpu s' = per_cpu s" "num_online s' = num_online s"
  | (steal) b i ts s1 where "find_busiest_cpu s = Some b" "find_idlest_cpu s = Some i" "b \<noteq> i"
      "2 \<le> load s b - load s i" "length ts \<le> (load s b - load s i) div 2"
      "migrate_all ts b i 0 s = (n, s1)" "per_cpu s' = per_cpu s1" "num_online s' = num_online s1"
proof (cases "find_busiest_cpu s")
  case None
  then show thesis using assms by - (rule unchanged, auto simp: balance_work_stealing_def Let_def)
next
  case (Some b)
  show thesis
  proof (cases "find_idlest_cpu s")
    case None
    then show thesis using assms Some by - (rule unchanged, auto simp: balance_work_stealing_def Let_def)
  next
    case i: (Some i)
    have g: "get_cpu s b = Ok (per_cpu s ! b)" "get_cpu s i = Ok (per_cpu s ! i)"
      using find_busiest_Some(1) [OF Some] find_idlest_Some(1) [OF i] by (auto simp: get_cpu_Ok online_def)
    let ?ts = "migratable_tasks (cpu_scheduler (per_cpu s ! b)) b"
    let ?k = "min (max ((load s b - load s i) div 2) 1) (length ?ts)"
    note simps = balance_work_stealing_def Let_def Some i g cpu_active_tasks_def load_def [symmetric]
    show thesis
    proof (cases "b = i \<or> load s b \<le> load s i \<or> load s b - load s i < 2 \<or> ?ts = []")
      case True
      then show thesis using assms by - (rule unchanged, auto simp: simps split: if_splits)
    next
      case False
      obtain k s1 where m: "migrate_all (take ?k ?ts) b i 0 s = (k, s1)"
        by (cases "migrate_all (take ?k ?ts) b i 0 s")
      have "k = n" "per_cpu s' = per_cpu s1" "num_online s' = num_online s1"
        using assms False m by (auto simp: simps split: if_splits)
      moreover have "length (take ?k ?ts) \<le> (load s b - load s i) div 2" using False by auto
      ultimately show thesis using steal [OF Some i _ _ _ m [unfolded \<open>k = n\<close>]] False by simp
    qed
  qed
qed

section \<open>Properties\<close>


text \<open>A system with two processors online, for the examples.\<close>

definition two_cpus :: "Scheduler \<Rightarrow> Scheduler \<Rightarrow> System" where
  "two_cpus a b = System_new\<lparr>num_online := 2,
     per_cpu := (PerCpu_new 0)\<lparr>cpu_online := 1, cpu_scheduler := a\<rparr> #
       (PerCpu_new 1)\<lparr>cpu_online := 1, cpu_scheduler := b\<rparr> # map PerCpu_new [2..<MAX_CPUS]\<rparr>"

lemma two_cpus_nth:
  "per_cpu (two_cpus a b) ! 0 = (PerCpu_new 0)\<lparr>cpu_online := 1, cpu_scheduler := a\<rparr>"
  "per_cpu (two_cpus a b) ! Suc 0 = (PerCpu_new 1)\<lparr>cpu_online := 1, cpu_scheduler := b\<rparr>"
  "i < 14 \<Longrightarrow> per_cpu (two_cpus a b) ! Suc (Suc i) = PerCpu_new (i + 2)"
  by (simp_all add: two_cpus_def MAX_CPUS_def del: upt_rec_numeral)

lemma two_cpus_wf:
  assumes "length (tasks a) = MAX_TASKS" "length (tasks b) = MAX_TASKS"
  shows "sys_wf (two_cpus a b)"
proof -
  have "length (tasks (cpu_scheduler (per_cpu (two_cpus a b) ! i))) = MAX_TASKS" if "i < MAX_CPUS" for i
  proof -
    show ?thesis
    proof (cases "i < 2")
      case True
      then have "i = 0 \<or> i = Suc 0" by linarith
      with assms show ?thesis by (auto simp: two_cpus_nth)
    next
      case False
      then have "i = Suc (Suc (i - 2))" "i - 2 < 14" using that by (simp_all add: MAX_CPUS_def)
      with two_cpus_nth(3) [of "i - 2" a b] show ?thesis by (simp add: PerCpu_new_def Scheduler_new_def)
    qed
  qed
  moreover have "length (per_cpu (two_cpus a b)) = MAX_CPUS" "num_online (two_cpus a b) \<le> MAX_CPUS"
    by (simp_all add: two_cpus_def MAX_CPUS_def)
  ultimately show ?thesis by (simp add: sys_wf_def)
qed

lemma two_cpus_get:
  "get_cpu (two_cpus a b) 0 = Ok ((PerCpu_new 0)\<lparr>cpu_online := 1, cpu_scheduler := a\<rparr>)"
  "get_cpu (two_cpus a b) 1 = Ok ((PerCpu_new 1)\<lparr>cpu_online := 1, cpu_scheduler := b\<rparr>)"
  by (simp_all add: get_cpu_def two_cpus_nth is_online_def MAX_CPUS_def)

lemma two_tasks_length: "length (tasks two_tasks) = MAX_TASKS" "length (tasks Scheduler_new) = MAX_TASKS"
  by (simp_all add: two_tasks_tasks MAX_TASKS_def Scheduler_new_def)

lemma two_cpus_scan:
  "find_busiest_cpu (two_cpus two_tasks Scheduler_new) = Some 0"
  "find_idlest_cpu (two_cpus two_tasks Scheduler_new) = Some 1"
proof -
  have n: "[0..<num_online (two_cpus two_tasks Scheduler_new)] = [0, 1]" by (simp add: two_cpus_def upt_rec)
  have a: "active_tasks two_tasks = 2" "active_tasks Scheduler_new = 0"
    by (simp_all add: active_tasks_def two_tasks_tasks Scheduler_new_def)
  show "find_busiest_cpu (two_cpus two_tasks Scheduler_new) = Some 0"
    unfolding find_busiest_cpu_def n by (simp add: two_cpus_get cpu_active_tasks_def a flip: One_nat_def)
  show "find_idlest_cpu (two_cpus two_tasks Scheduler_new) = Some 1"
    unfolding find_idlest_cpu_def n by (simp add: two_cpus_get cpu_active_tasks_def a flip: One_nat_def)
qed


text \<open>
  A migration to a processor whose table is full loses the task: it is taken out of the
  source table, cannot be put into the destination, and is not put back, while the call
  reports that nothing was migrated.
\<close>

theorem migrate_to_full_cpu_loses_task:
  assumes "sys_wf s" "f \<noteq> t" "get_cpu s f = Ok c" "get_cpu s t = Ok d"
    and "fst (extract_task (cpu_scheduler c) i) = Some x" and "cpu_active_tasks d = MAX_TASKS"
  shows "\<exists>s'. migrate_task s i f t = (False, s') \<and> total_load s' + 1 = total_load s \<and> load s' f + 1 = load s f"
proof (cases rule: migrate_cases [OF assms(1,2), of i, case_names refused moved lost])
  case refused
  with assms(3-5) show ?thesis by simp
next
  case (moved s' y k)
  have "load s t = MAX_TASKS" using assms(4,6) by (auto simp: load_def get_cpu_Ok cpu_active_tasks_def)
  with moved(3,5,6) load_le [of s' t] show ?thesis by simp
next
  case (lost s' y)
  have "load s' j = load s j" if "j \<noteq> f" for j using lost(7) that by (simp add: load_def)
  with total_load_move [OF lost(2,3) assms(2), of s' s] lost(1,4,5) show ?thesis by simp
qed

definition full_scheduler :: Scheduler where
  "full_scheduler = Scheduler_new\<lparr>tasks := replicate MAX_TASKS (Some (Task_new 7 1))\<rparr>"

theorem migrate_to_full_cpu_loses_task_witness:
  "\<exists>s'. migrate_task (two_cpus two_tasks full_scheduler) 0 0 1 = (False, s') \<and>
     total_load s' + 1 = total_load (two_cpus two_tasks full_scheduler)"
proof -
  have wf: "sys_wf (two_cpus two_tasks full_scheduler)"
    by (rule two_cpus_wf) (simp_all add: two_tasks_length full_scheduler_def)
  have x: "fst (extract_task two_tasks 0) = Some (Task_new 0 10)"
    by (simp add: extract_task_def two_tasks_tasks has_id_def Task_new_def Task_new_with_affinity_def)
  have "active_tasks full_scheduler = MAX_TASKS" by (simp add: active_tasks_def full_scheduler_def)
  with migrate_to_full_cpu_loses_task [OF wf _ two_cpus_get(1,2), of 0] x show ?thesis
    by (auto simp: cpu_active_tasks_def)
qed

text \<open>
  Every scheduler numbers its tasks from 0, and a migrated task keeps its number: after a
  migration two tasks of one processor can have the same identifier, although each of the
  two schedulers was in order before.
\<close>

theorem migration_duplicates_ids:
  "\<exists>s s'. sched_reachable (cpu_scheduler (per_cpu s ! 0)) \<and> sched_reachable (cpu_scheduler (per_cpu s ! 1)) \<and>
     migrate_task s 0 0 1 = (True, s') \<and> \<not> ids_unique (tasks (cpu_scheduler (per_cpu s' ! 1)))"
proof -
  let ?s = "two_cpus two_tasks two_tasks"
  have wf: "sys_wf ?s" by (rule two_cpus_wf) (simp_all add: two_tasks_length)
  have x: "fst (extract_task two_tasks 0) = Some (Task_new 0 10)"
    by (simp add: extract_task_def two_tasks_tasks has_id_def Task_new_def Task_new_with_affinity_def)
  have a: "active_tasks two_tasks = 2" by (simp add: active_tasks_def two_tasks_tasks)
  obtain s' x k where s': "migrate_task ?s 0 0 1 = (True, s')" "task_id x = 0" "k < MAX_TASKS"
      "tasks two_tasks ! k = None"
      "tasks (cpu_scheduler (per_cpu s' ! 1)) = (tasks two_tasks)[k := Some (x\<lparr>task_state := Ready\<rparr>)]"
  proof (cases rule: migrate_cases [OF wf, of 0 1 0, case_names ne refused moved lost])
    case refused
    from refused(2) [OF two_cpus_get(1,2)] x show thesis by simp
  next
    case (moved s' y k)
    then show thesis using that [of s' y k] by (simp add: two_cpus_nth)
  next
    case (lost s' y)
    then show thesis using a by (simp add: load_def two_cpus_nth MAX_TASKS_def)
  qed simp
  have k: "k \<noteq> 0" using s'(4) by (cases k) (simp_all add: two_tasks_tasks)
  have t0: "tasks two_tasks ! 0 = Some (Task_new 0 10)" "0 < MAX_TASKS" "task_id (Task_new 0 10) = 0"
    by (simp_all add: two_tasks_tasks MAX_TASKS_def Task_new_def Task_new_with_affinity_def)
  have "\<not> ids_unique (tasks (cpu_scheduler (per_cpu s' ! 1)))"
  proof
    assume "ids_unique (tasks (cpu_scheduler (per_cpu s' ! 1)))"
    from ids_uniqueD [OF this, of 0 k "Task_new 0 10" "x\<lparr>task_state := Ready\<rparr>"] s'(2,3) k t0 show False
      unfolding s'(5) by (simp add: two_tasks_length)
  qed
  with s'(1) two_tasks_reachable show ?thesis
    by (intro exI [of _ ?s] exI [of _ s']) (simp add: two_cpus_nth)
qed

end
