(* ===== verification/Pool_Correct.thy ===== *)
theory Pool_Correct
  imports Pool
begin

text \<open>
  The pools' theorems: the size classes, the safety of a pool under any sequence of
  allocations, releases and writes to the blocks in use, and an interleaving that breaks it.
\<close>

section \<open>Resources that are handed out and given back\<close>

text \<open>
  \<open>ok s U\<close>: the pool is in order and the resources in \<open>U\<close> are handed out. A client that
  gives back only what it holds never sees one resource twice.
\<close>

fun acquire_all :: "('s \<Rightarrow> 'r option \<times> 's) \<Rightarrow> nat \<Rightarrow> 's \<Rightarrow> 'r list \<times> 's" where
  "acquire_all acq 0 s = ([], s)"
| "acquire_all acq (Suc n) s =
     (case acq s of (None, s1) \<Rightarrow> ([], s1)
      | (Some r, s1) \<Rightarrow> (case acquire_all acq n s1 of (rs, s2) \<Rightarrow> (r # rs, s2)))"

locale resource_pool =
  fixes acquire :: "'s \<Rightarrow> 'r option \<times> 's"
    and give_back :: "'r \<Rightarrow> 's \<Rightarrow> 's"
    and ok :: "'s \<Rightarrow> 'r set \<Rightarrow> bool"
  assumes acquire_Some: "ok s U \<Longrightarrow> acquire s = (Some r, s') \<Longrightarrow> r \<notin> U \<and> ok s' (insert r U)"
    and acquire_None: "ok s U \<Longrightarrow> acquire s = (None, s') \<Longrightarrow> s' = s"
    and give_back: "ok s U \<Longrightarrow> r \<in> U \<Longrightarrow> ok (give_back r s) (U - {r})"
    and give_acquire: "ok s U \<Longrightarrow> r \<in> U \<Longrightarrow> fst (acquire (give_back r s)) \<noteq> None"
begin

lemma acquire_all_distinct:
  "ok s U \<Longrightarrow> acquire_all acquire n s = (rs, s') \<Longrightarrow> distinct rs \<and> set rs \<inter> U = {} \<and> ok s' (U \<union> set rs)"
proof (induction n arbitrary: s U rs s')
  case (Suc n)
  obtain r s1 where a: "acquire s = (r, s1)" by (cases "acquire s")
  show ?case
  proof (cases r)
    case None
    with Suc.prems a acquire_None [OF Suc.prems(1)] show ?thesis by simp
  next
    case (Some r0)
    with a acquire_Some [OF Suc.prems(1)] have r0: "r0 \<notin> U" "ok s1 (insert r0 U)" by auto
    obtain rs' s2 where rec: "acquire_all acquire n s1 = (rs', s2)" by (cases "acquire_all acquire n s1")
    with Some a Suc.prems(2) have "rs = r0 # rs'" "s' = s2" by simp_all
    with Suc.IH [OF r0(2) rec] r0 show ?thesis by auto
  qed
qed simp

end

section \<open>The free list\<close>

fun chain :: "(nat \<Rightarrow> nat) \<Rightarrow> nat \<Rightarrow> nat list \<Rightarrow> bool" where
  "chain l h [] = (h = 0)"
| "chain l h (x # xs) = (h = x \<and> x \<noteq> 0 \<and> chain l (l x) xs)"

lemma chain_update [simp]: "b \<notin> set xs \<Longrightarrow> chain (l(b := v)) h xs = chain l h xs"
  by (induction xs arbitrary: h) auto

lemma chain_nonzero: "chain l h xs \<Longrightarrow> 0 \<notin> set xs"
  by (induction xs arbitrary: h) auto

definition blocks :: "nat \<Rightarrow> nat \<Rightarrow> nat set" where
  "blocks base bs = (\<lambda>i. base + i * bs) ` {..<ARENA_SIZE div bs}"

definition pool_ok :: "Pool \<Rightarrow> nat set \<Rightarrow> bool" where
  "pool_ok p U \<longleftrightarrow> (\<exists>base fs. arena p = Some base \<and> 0 < base \<and> 0 < block_size p \<and> initialized p \<noteq> 0 \<and>
     chain (links p) (free_list p) fs \<and> distinct fs \<and> set fs \<inter> U = {} \<and>
     set fs \<union> U = blocks base (block_size p) \<and> finite U \<and>
     total_blocks p = ARENA_SIZE div block_size p \<and> allocated_blocks p = card U)"

lemma build_free_list_fields [simp]:
  "block_size (build_free_list base n p) = block_size p" "arena (build_free_list base n p) = arena p"
  "total_blocks (build_free_list base n p) = total_blocks p" "initialized (build_free_list base n p) = initialized p"
  "allocated_blocks (build_free_list base n p) = allocated_blocks p"
  by (induction base n p rule: build_free_list.induct) (simp_all add: Let_def)

lemma build_free_list_chain:
  assumes "0 < base" and "0 < block_size p" and "n \<le> m"
    and "chain (links p) (free_list p) (map (\<lambda>i. base + i * block_size p) [n..<m])"
  shows "chain (links (build_free_list base n p)) (free_list (build_free_list base n p))
           (map (\<lambda>i. base + i * block_size p) [0..<m])"
  using assms
proof (induction base n p rule: build_free_list.induct)
  case (2 base i p)
  let ?b = "base + i * block_size p"
  let ?p' = "p\<lparr>links := (links p)(?b := free_list p), free_list := ?b\<rparr>"
  have "?b \<notin> set (map (\<lambda>i. base + i * block_size p) [Suc i..<m])" using 2(3) by auto
  then have "chain (links ?p') (free_list ?p') (map (\<lambda>i. base + i * block_size ?p') [i..<m])"
    using 2(2,4,5) by (simp add: upt_conv_Cons)
  from 2(1) [OF refl 2(2) _ _ this] 2(3,4) show ?case by (simp add: Let_def del: fun_upd_apply)
qed simp

lemma card_blocks: "0 < bs \<Longrightarrow> card (blocks base bs) = ARENA_SIZE div bs"
  unfolding blocks_def by (subst card_image) (auto simp: inj_on_def)

lemma finite_blocks [simp]: "finite (blocks base bs)"
  by (simp add: blocks_def)

lemma pool_init_ok:
  assumes "0 < base" and "0 < bs" and "pool_init base (Pool_new bs) = Some p"
  shows "pool_ok p {}"
proof -
  let ?n = "ARENA_SIZE div bs"
  let ?p0 = "(Pool_new bs)\<lparr>initialized := 1, arena := Some base, total_blocks := as_u32 ?n\<rparr>"
  have p: "p = build_free_list base ?n ?p0"
    using assms by (simp add: pool_init_def Pool_new_def Let_def)
  have n: "as_u32 ?n = ?n"
    by (rule as_u32_id) (rule le_less_trans [OF div_le_dividend], simp add: ARENA_SIZE_def)
  have "chain (links ?p0) (free_list ?p0) (map (\<lambda>i. base + i * block_size ?p0) [?n..<?n])"
    by (simp add: Pool_new_def)
  from build_free_list_chain [OF assms(1) _ order_refl this] assms(2)
  have "chain (links p) (free_list p) (map (\<lambda>i. base + i * bs) [0..<?n])"
    by (simp add: p Pool_new_def)
  moreover have "distinct (map (\<lambda>i. base + i * bs) [0..<?n])"
    using assms(2) by (auto simp: distinct_map inj_on_def)
  moreover have "set (map (\<lambda>i. base + i * bs) [0..<?n]) = blocks base bs"
    by (simp add: blocks_def lessThan_atLeast0)
  moreover have "arena p = Some base" "block_size p = bs" "total_blocks p = ?n" "allocated_blocks p = 0"
      "initialized p \<noteq> 0"
    by (simp_all add: p Pool_new_def n)
  ultimately show ?thesis unfolding pool_ok_def using assms(1,2)
    by (intro exI [of _ base] exI [of _ "map (\<lambda>i. base + i * bs) [0..<?n]"]) simp
qed

section \<open>The loops\<close>

lemma allocate_loop_eq:
  assumes "\<exists>k < n. weak k"
  shows "allocate_loop weak n p =
    (if free_list p = 0 then (None, p)
     else (Some (free_list p), snd (try_pop (free_list p) (links p (free_list p)) p)))"
  using assms
proof (induction n)
  case (Suc n)
  then have "weak n \<or> (\<exists>k < n. weak k)" by (metis less_antisym)
  with Suc.IH show ?case by (cases "weak n") (auto simp: Let_def try_pop_def)
qed simp

lemma allocate_loop_cases:
  "allocate_loop weak n p = (None, p) \<or>
   free_list p \<noteq> 0 \<and>
   allocate_loop weak n p = (Some (free_list p), snd (try_pop (free_list p) (links p (free_list p)) p))"
proof (cases "\<exists>k < n. weak k")
  case True
  then show ?thesis using allocate_loop_eq by auto
next
  case False
  then have "allocate_loop weak n p = (None, p)"
    by (induction n) (auto simp: Let_def less_Suc_eq)
  then show ?thesis by simp
qed

lemma deallocate_loop_eq:
  assumes "\<exists>k < n. weak k"
  shows "deallocate_loop weak n b p =
    snd (try_push (free_list p) b (p\<lparr>links := (links p)(b := free_list p)\<rparr>))"
  using assms
proof (induction n arbitrary: p)
  case (Suc n)
  then have "weak n \<or> (\<exists>k < n. weak k)" by (metis less_antisym)
  with Suc.IH show ?case by (cases "weak n") (auto simp: Let_def try_push_def simp del: fun_upd_apply)
qed simp

lemma pop_ok:
  assumes "pool_ok p U" and "free_list p \<noteq> 0"
  shows "free_list p \<notin> U" and "free_list p \<in> blocks (the (arena p)) (block_size p)"
    and "pool_ok (snd (try_pop (free_list p) (links p (free_list p)) p)) (insert (free_list p) U)"
proof -
  obtain base fs where p: "arena p = Some base" "0 < base" "0 < block_size p" "initialized p \<noteq> 0"
      "chain (links p) (free_list p) fs" "distinct fs" "set fs \<inter> U = {}"
      "set fs \<union> U = blocks base (block_size p)" "finite U"
      "total_blocks p = ARENA_SIZE div block_size p" "allocated_blocks p = card U"
    using assms(1) unfolding pool_ok_def by auto
  from p(5) assms(2) obtain gs where fs: "fs = free_list p # gs" "chain (links p) (links p (free_list p)) gs"
    by (cases fs) auto
  show notin: "free_list p \<notin> U" and "free_list p \<in> blocks (the (arena p)) (block_size p)"
    using p(1,7,8) fs by auto
  have "Suc (card U) = card (insert (free_list p) U)" using p(9) notin by simp
  also have "\<dots> \<le> card (blocks base (block_size p))" using p(8) fs by (intro card_mono) auto
  also have "\<dots> \<le> ARENA_SIZE" using card_blocks [OF p(3)] by (metis div_le_dividend)
  finally have "u32_add (card U) 1 = card (insert (free_list p) U)"
    using p(9) notin by (simp add: no_wrap ARENA_SIZE_def)
  with p fs notin show "pool_ok (snd (try_pop (free_list p) (links p (free_list p)) p)) (insert (free_list p) U)"
    unfolding pool_ok_def
    by (intro exI [of _ base] exI [of _ gs]) (auto simp: try_pop_def)
qed

lemma push_ok:
  assumes "pool_ok p U" and "b \<in> U"
  shows "pool_ok (snd (try_push (free_list p) b (p\<lparr>links := (links p)(b := free_list p)\<rparr>))) (U - {b})"
proof -
  obtain base fs where p: "arena p = Some base" "0 < base" "0 < block_size p" "initialized p \<noteq> 0"
      "chain (links p) (free_list p) fs" "distinct fs" "set fs \<inter> U = {}"
      "set fs \<union> U = blocks base (block_size p)" "finite U"
      "total_blocks p = ARENA_SIZE div block_size p" "allocated_blocks p = card U"
    using assms(1) unfolding pool_ok_def by auto
  have b: "b \<notin> set fs" "b \<noteq> 0" using p(2,7,8) assms(2) by (auto simp: blocks_def)
  have "card U \<le> card (blocks base (block_size p))" using p(8) by (intro card_mono) auto
  also have "\<dots> \<le> ARENA_SIZE" using card_blocks [OF p(3)] by (metis div_le_dividend)
  finally have "u32_sub (card U) 1 = card (U - {b})"
    using p(9) assms(2) card_gt_0_iff [of U] by (auto simp: no_wrap ARENA_SIZE_def)
  with p b assms(2) show ?thesis
    unfolding pool_ok_def
    by (intro exI [of _ base] exI [of _ "b # fs"]) (auto simp: try_push_def)
qed

lemma write_ok:
  assumes "pool_ok p U" and "b \<in> U"
  shows "pool_ok (p\<lparr>links := (links p)(b := v)\<rparr>) U"
proof -
  have "chain ((links p)(b := v)) (free_list p) fs"
    if "chain (links p) (free_list p) fs" "set fs \<inter> U = {}" for fs
  proof -
    have "b \<notin> set fs" using that(2) assms(2) by blast
    with that(1) show ?thesis by simp
  qed
  with assms(1) show ?thesis by (simp add: pool_ok_def) blast
qed

lemma allocate_ok:
  assumes "pool_ok p U" and "pool_allocate weak p = (r, p')"
  shows "case r of Some b \<Rightarrow> b \<notin> U \<and> b \<in> blocks (the (arena p)) (block_size p) \<and> pool_ok p' (insert b U)
     | None \<Rightarrow> p' = p"
  using allocate_loop_cases [of weak MAX_RETRIES p] assms pop_ok [OF assms(1)]
  by (auto simp: pool_allocate_def)

lemma exhausted_iff:
  assumes "pool_ok p U"
  shows "free_list p = 0 \<longleftrightarrow> U = blocks (the (arena p)) (block_size p)"
proof -
  obtain base fs where p: "arena p = Some base" "chain (links p) (free_list p) fs" "set fs \<inter> U = {}"
      "set fs \<union> U = blocks base (block_size p)"
    using assms unfolding pool_ok_def by auto
  then show ?thesis by (cases fs) auto
qed

interpretation pl: resource_pool "pool_allocate (\<lambda>_. True)" "pool_deallocate (\<lambda>_. True)" pool_ok
proof unfold_locales
  have retry: "\<exists>k < MAX_RETRIES. True" by (intro exI [of _ 0]) (simp add: MAX_RETRIES_def)
  note alloc = allocate_loop_eq [OF retry] and dealloc = deallocate_loop_eq [OF retry]
  show "r \<notin> U \<and> pool_ok p' (insert r U)"
    if "pool_ok p U" "pool_allocate (\<lambda>_. True) p = (Some r, p')" for p U r p'
    using allocate_ok [OF that] by simp
  show "p' = p" if "pool_ok p U" "pool_allocate (\<lambda>_. True) p = (None, p')" for p U p'
    using allocate_ok [OF that] by simp
  show "pool_ok (pool_deallocate (\<lambda>_. True) r p) (U - {r})" if "pool_ok p U" "r \<in> U" for p U r
    using push_ok [OF that] by (simp add: pool_deallocate_def dealloc)
  show "fst (pool_allocate (\<lambda>_. True) (pool_deallocate (\<lambda>_. True) r p)) \<noteq> None"
    if "pool_ok p U" "r \<in> U" for p U r
  proof -
    have "r \<noteq> 0" using that unfolding pool_ok_def by (auto simp: blocks_def)
    then show ?thesis by (simp add: pool_allocate_def alloc pool_deallocate_def dealloc try_push_def)
  qed
qed

section \<open>Properties\<close>

text \<open>
  The states of a pool together with the set of blocks that are in use: any allocation,
  a release of a block in use whose compare-exchange succeeds within the allowed attempts,
  and any write by the owner to the first word of a block in use.
\<close>

inductive pool_reachable :: "nat \<Rightarrow> nat \<Rightarrow> Pool \<Rightarrow> nat set \<Rightarrow> bool" for base bs where
  init: "0 < base \<Longrightarrow> 0 < bs \<Longrightarrow> pool_init base (Pool_new bs) = Some p \<Longrightarrow> pool_reachable base bs p {}"
| alloc: "pool_reachable base bs p U \<Longrightarrow> pool_allocate weak p = (Some b, p') \<Longrightarrow>
    pool_reachable base bs p' (insert b U)"
| dealloc: "pool_reachable base bs p U \<Longrightarrow> b \<in> U \<Longrightarrow> k < MAX_RETRIES \<Longrightarrow> weak k \<Longrightarrow>
    pool_reachable base bs (pool_deallocate weak b p) (U - {b})"
| user_write: "pool_reachable base bs p U \<Longrightarrow> b \<in> U \<Longrightarrow>
    pool_reachable base bs (p\<lparr>links := (links p)(b := v)\<rparr>) U"

lemma pool_reachable_ok:
  "pool_reachable base bs p U \<Longrightarrow> pool_ok p U \<and> arena p = Some base \<and> block_size p = bs"
proof (induction rule: pool_reachable.induct)
  case (init p)
  then show ?case
    using pool_init_ok [OF init] by (auto simp: pool_init_def Pool_new_def Let_def)
next
  case (alloc p U weak b p')
  then show ?case
    using allocate_ok [of p U weak] allocate_loop_cases [of weak MAX_RETRIES p]
    by (auto simp: pool_allocate_def try_pop_def)
next
  case (dealloc p U b k weak)
  then have "\<exists>k < MAX_RETRIES. weak k" by blast
  with dealloc push_ok [of p U b] show ?case
    by (simp add: pool_deallocate_def deallocate_loop_eq) (simp add: try_push_def)
next
  case (user_write p U b v)
  then show ?case by (simp add: write_ok)
qed

text \<open>
  Safety of a pool under sequential use. Whatever was allocated, released and written
  before, a block that \<open>allocate\<close> returns is a block of the arena and is not in use; the
  counter of allocated blocks is the number of blocks in use; and when some attempt of the
  retry loop is spared a spurious failure, \<open>allocate\<close> fails only if every block is in use.
\<close>

theorem pool_allocate_safe:
  assumes "pool_reachable base bs p U" and "pool_allocate weak p = (r, p')"
  shows "allocated_blocks p = card U \<and>
    (case r of
       Some b \<Rightarrow> b \<notin> U \<and> b \<in> blocks base bs \<and> pool_reachable base bs p' (insert b U)
     | None \<Rightarrow> p' = p \<and> ((\<exists>k < MAX_RETRIES. weak k) \<longrightarrow> U = blocks base bs))"
proof -
  have ok: "pool_ok p U" "arena p = Some base" "block_size p = bs"
    using pool_reachable_ok [OF assms(1)] by auto
  have "allocated_blocks p = card U" using ok(1) unfolding pool_ok_def by blast
  moreover have "U = blocks base bs" if "r = None" "\<exists>k < MAX_RETRIES. weak k"
    using that assms(2) exhausted_iff [OF ok(1)] ok(2,3)
    by (auto simp: pool_allocate_def allocate_loop_eq split: if_splits)
  ultimately show ?thesis
    using allocate_ok [OF ok(1) assms(2)] ok(2,3) pool_reachable.alloc [OF assms(1)] assms(2)
    by (auto split: option.splits)
qed

lemma retry_ok: "\<exists>k < MAX_RETRIES. (\<lambda>_. True) k"
  by (intro exI [of _ 0]) (simp add: MAX_RETRIES_def)

definition pool4k :: Pool where
  "pool4k = the (pool_init 4096 (Pool_new 4096))"

lemma build_free_list_numeral:
  "build_free_list base (numeral k) p =
     build_free_list base (pred_numeral k)
       (p\<lparr>links := (links p)(base + pred_numeral k * block_size p := free_list p),
          free_list := base + pred_numeral k * block_size p\<rparr>)"
  by (simp add: numeral_eq_Suc Let_def)

lemma pool4k:
  "pool_init 4096 (Pool_new 4096) = Some pool4k" "free_list pool4k = 4096"
  "links pool4k 4096 = 8192" "links pool4k 8192 = 12288"
  by (simp_all add: pool4k_def pool_init_def Pool_new_def ARENA_SIZE_def Let_def build_free_list_numeral)

theorem pool_allocate_safe_witness:
  "\<exists>p'. pool_allocate (\<lambda>_. True) pool4k = (Some 4096, p') \<and> pool_reachable 4096 4096 p' {4096}"
proof -
  have r: "pool_reachable 4096 4096 pool4k {}" by (rule pool_reachable.init) (simp_all add: pool4k)
  obtain p' where a: "pool_allocate (\<lambda>_. True) pool4k = (Some 4096, p')"
    using allocate_loop_eq [OF retry_ok, of pool4k] by (simp add: pool_allocate_def pool4k)
  with pool_allocate_safe [OF r a] show ?thesis by simp
qed

text \<open>
  Several allocations in a row return different blocks, none of them in use before, and
  after a block is released the next allocation does not fail.
\<close>

theorem pool_burst:
  assumes "pool_reachable base bs p U"
  shows "(case acquire_all (pool_allocate (\<lambda>_. True)) n p of (ptrs, p') \<Rightarrow>
      distinct ptrs \<and> set ptrs \<inter> U = {} \<and> allocated_blocks p' = card (U \<union> set ptrs)) \<and>
    (\<forall>b \<in> U. fst (pool_allocate (\<lambda>_. True) (pool_deallocate (\<lambda>_. True) b p)) \<noteq> None)"
proof -
  have ok: "pool_ok p U" using pool_reachable_ok [OF assms] by simp
  obtain ptrs p' where a: "acquire_all (pool_allocate (\<lambda>_. True)) n p = (ptrs, p')"
    by (cases "acquire_all (pool_allocate (\<lambda>_. True)) n p")
  with pl.acquire_all_distinct [OF ok a] pl.give_acquire [OF ok] show ?thesis
    by (auto simp: pool_ok_def)
qed

theorem pool_burst_witness:
  "\<exists>ptrs p'. acquire_all (pool_allocate (\<lambda>_. True)) 3 pool4k = (ptrs, p') \<and> distinct ptrs"
proof -
  have r: "pool_reachable 4096 4096 pool4k {}" by (rule pool_reachable.init) (simp_all add: pool4k)
  from pool_burst [OF r, of 3] show ?thesis
    by (cases "acquire_all (pool_allocate (\<lambda>_. True)) 3 pool4k") auto
qed

text \<open>
  The size classes: \<open>for_size\<close> finds a class exactly for sizes from 1 to 4096, the class
  is large enough, and no smaller class is. The classes in order are those of \<open>all_sizes\<close>,
  and \<open>from_index\<close> inverts \<open>block_index\<close>.
\<close>

theorem for_size_spec:
  "case for_size n of
     Some bs \<Rightarrow> n \<le> block_bytes bs \<and> 0 < n \<and> (\<forall>c. n \<le> block_bytes c \<longrightarrow> block_bytes bs \<le> block_bytes c) \<and>
       all_sizes ! block_index bs = bs \<and> from_index (block_index bs) = Some bs
   | None \<Rightarrow> n = 0 \<or> (\<forall>c. block_bytes c < n)"
proof -
  have all: "(\<forall>c. P c) \<longleftrightarrow> P B32 \<and> P B64 \<and> P B128 \<and> P B256 \<and> P B512 \<and> P K1 \<and> P K4" for P
    by (metis BlockSize.exhaust)
  show ?thesis
    unfolding all for_size_def from_index_def all_sizes_def by simp
qed

theorem for_size_spec_witness: "for_size 100 = Some B128 \<and> block_bytes B128 \<le> block_bytes K1"
  using for_size_spec [of 100] by (simp add: for_size_def)

text \<open>
  The free list is not safe under concurrent use. One processor reads the head \<open>A\<close> and its
  link \<open>B\<close>; before its compare-exchange, another allocates \<open>A\<close> and \<open>B\<close> and releases \<open>A\<close>. The
  head is \<open>A\<close> again, so the compare-exchange succeeds and installs \<open>B\<close>, which is in use, as
  the new head: the next allocation hands out \<open>B\<close> a second time.
\<close>

theorem pool_aba:
  "\<exists>p A B p1 p2 p3 p4 p5. pool_init 4096 (Pool_new 4096) = Some p \<and>
     free_list p = A \<and> links p A = B \<and>
     pool_allocate (\<lambda>_. True) p = (Some A, p1) \<and> pool_allocate (\<lambda>_. True) p1 = (Some B, p2) \<and>
     pool_deallocate (\<lambda>_. True) A p2 = p3 \<and>
     try_pop A B p3 = (True, p4) \<and> pool_allocate (\<lambda>_. True) p4 = (Some B, p5)"
proof -
  note alloc = pool_allocate_def allocate_loop_eq [OF retry_ok]
    and dealloc = pool_deallocate_def deallocate_loop_eq [OF retry_ok]
  obtain p1 where p1: "pool_allocate (\<lambda>_. True) pool4k = (Some 4096, p1)" "free_list p1 = 8192" "links p1 = links pool4k"
    by (simp add: alloc pool4k try_pop_def)
  obtain p2 where p2: "pool_allocate (\<lambda>_. True) p1 = (Some 8192, p2)" "free_list p2 = 12288" "links p2 = links pool4k"
    by (simp add: alloc pool4k try_pop_def p1)
  obtain p3 where p3: "pool_deallocate (\<lambda>_. True) 4096 p2 = p3" "free_list p3 = 4096"
    by (simp add: dealloc try_push_def)
  obtain p4 where p4: "try_pop 4096 8192 p3 = (True, p4)" "free_list p4 = 8192"
    by (simp add: try_pop_def p3)
  obtain p5 where "pool_allocate (\<lambda>_. True) p4 = (Some 8192, p5)"
    by (simp add: alloc p4 try_pop_def)
  with pool4k p1(1) p2(1) p3(1) p4(1) show ?thesis by blast
qed

end
