(* ===== verification/Interrupt.thy ===== *)
theory Interrupt
  imports Prelude
begin

text \<open>
  The interrupt subsystem, \<open>mielin-kernel/src/interrupt.rs\<close>: the table of IRQ descriptors,
  the dispatcher with its nesting counters, and the queue of deferred work.

  Handlers and work functions are code of other modules. The table holds their names, of
  types \<open>'h\<close> and \<open>'f\<close>, and the functions that call them take an argument that says what a
  handler or a work function does to the rest of the kernel, of type \<open>'k\<close>, and to the
  interrupt state itself (a handler may schedule work or take a nested interrupt). The time
  stamp counter is read by an instruction; its values are arguments. The functions that turn
  the processor's interrupt flag on and off are inline assembly and are not modelled.
\<close>

section \<open>Data\<close>

definition MAX_IRQS :: nat where "MAX_IRQS = 256"
definition MAX_WORK_QUEUE_SIZE :: nat where "MAX_WORK_QUEUE_SIZE = 1024"

datatype InterruptError = InvalidIrq | AlreadyRegistered | NoHandler | NotInitialized
  | AlreadyInitialized | WorkQueueFull | InvalidPriority | NestedOverflow | InvalidContext

datatype IrqPriority = Critical | Highest | High | Normal | Low

fun irq_priority_as_u8 :: "IrqPriority \<Rightarrow> nat" where
  "irq_priority_as_u8 Critical = 0"
| "irq_priority_as_u8 Highest = 1"
| "irq_priority_as_u8 High = 4"
| "irq_priority_as_u8 Normal = 8"
| "irq_priority_as_u8 Low = 12"

definition irq_priority_from_u8 :: "nat \<Rightarrow> InterruptError + IrqPriority" where
  "irq_priority_from_u8 v =
     (if v = 0 then Ok Critical
      else if 1 \<le> v \<and> v \<le> 3 then Ok Highest
      else if 4 \<le> v \<and> v \<le> 7 then Ok High
      else if 8 \<le> v \<and> v \<le> 11 then Ok Normal
      else if 12 \<le> v \<and> v \<le> 15 then Ok Low
      else Err InvalidPriority)"

record InterruptContext =
  ic_irq :: u8
  ic_priority :: u8
  ic_nesting_level :: u8
  ic_cpu_id :: u8
  ic_timestamp :: u64
  ic_pc :: nat
  ic_sp :: nat
  ic_kernel_mode :: bool

definition InterruptContext_new :: "u64 \<Rightarrow> u8 \<Rightarrow> u8 \<Rightarrow> u8 \<Rightarrow> InterruptContext" where
  "InterruptContext_new tsc irq prio cpu =
     \<lparr>ic_irq = irq, ic_priority = prio, ic_nesting_level = 0, ic_cpu_id = cpu, ic_timestamp = tsc,
      ic_pc = 0, ic_sp = 0, ic_kernel_mode = True\<rparr>"

record 'h IrqDescriptor =
  irq_handler :: "'h option"
  irq_priority :: IrqPriority
  irq_enabled :: bool
  irq_count :: u64
  irq_last_timestamp :: u64

definition IrqDescriptor_new :: "'h IrqDescriptor" where
  "IrqDescriptor_new = \<lparr>irq_handler = None, irq_priority = Normal, irq_enabled = False,
     irq_count = 0, irq_last_timestamp = 0\<rparr>"

record 'f WorkItem =
  work_func :: 'f
  work_timestamp :: u64

record ('h, 'f) InterruptState =
  irq_table :: "'h IrqDescriptor list"
  work_queue :: "'f WorkItem list"
  nesting_level :: "nat list"
  is_enabled :: bool
  is_total_interrupts :: u64
  is_total_work_items :: u64
  is_max_latency_ns :: u64

definition InterruptState_new :: "('h, 'f) InterruptState" where
  "InterruptState_new = \<lparr>irq_table = replicate MAX_IRQS IrqDescriptor_new, work_queue = [],
     nesting_level = replicate 16 0, is_enabled = False, is_total_interrupts = 0,
     is_total_work_items = 0, is_max_latency_ns = 0\<rparr>"

section \<open>Registration\<close>

text \<open>An IRQ number is a \<open>u8\<close>, so indexing the table of 256 descriptors cannot panic.\<close>

definition desc_of :: "('h, 'f) InterruptState \<Rightarrow> u8 \<Rightarrow> 'h IrqDescriptor" where
  "desc_of s irq = irq_table s ! unat irq"

definition set_desc :: "u8 \<Rightarrow> 'h IrqDescriptor \<Rightarrow> ('h, 'f) InterruptState \<Rightarrow> ('h, 'f) InterruptState" where
  "set_desc irq d s = s\<lparr>irq_table := (irq_table s)[unat irq := d]\<rparr>"

definition interrupt_init :: "('h, 'f) InterruptState \<Rightarrow> (InterruptError + unit) \<times> ('h, 'f) InterruptState" where
  "interrupt_init s =
     (if is_enabled s then (Ok (), s) else (Ok (), s\<lparr>work_queue := [], is_enabled := True\<rparr>))"

definition register_irq_handler ::
  "u8 \<Rightarrow> 'h \<Rightarrow> IrqPriority \<Rightarrow> ('h, 'f) InterruptState \<Rightarrow> (InterruptError + unit) \<times> ('h, 'f) InterruptState" where
  "register_irq_handler irq h prio s =
     (if \<not> is_enabled s then (Err NotInitialized, s)
      else let desc = desc_of s irq in
        if irq_handler desc \<noteq> None then (Err AlreadyRegistered, s)
        else (Ok (), set_desc irq (desc\<lparr>irq_handler := Some h, irq_priority := prio\<rparr>) s))"

definition unregister_irq_handler ::
  "u8 \<Rightarrow> ('h, 'f) InterruptState \<Rightarrow> (InterruptError + unit) \<times> ('h, 'f) InterruptState" where
  "unregister_irq_handler irq s =
     (if \<not> is_enabled s then (Err NotInitialized, s)
      else let desc = desc_of s irq in
        if irq_handler desc = None then (Err NoHandler, s)
        else (Ok (), set_desc irq (desc\<lparr>irq_handler := None, irq_enabled := False\<rparr>) s))"

definition enable_irq :: "u8 \<Rightarrow> ('h, 'f) InterruptState \<Rightarrow> (InterruptError + unit) \<times> ('h, 'f) InterruptState" where
  "enable_irq irq s =
     (if \<not> is_enabled s then (Err NotInitialized, s)
      else let desc = desc_of s irq in
        if irq_handler desc = None then (Err NoHandler, s)
        else (Ok (), set_desc irq (desc\<lparr>irq_enabled := True\<rparr>) s))"

definition disable_irq :: "u8 \<Rightarrow> ('h, 'f) InterruptState \<Rightarrow> (InterruptError + unit) \<times> ('h, 'f) InterruptState" where
  "disable_irq irq s =
     (if \<not> is_enabled s then (Err NotInitialized, s)
      else (Ok (), set_desc irq ((desc_of s irq)\<lparr>irq_enabled := False\<rparr>) s))"

section \<open>Dispatch\<close>

definition cycles_to_ns :: "u64 \<Rightarrow> u64" where
  "cycles_to_ns c = c div 3"

text \<open>\<open>nest_add\<close> and \<open>nest_sub\<close> are the atomic operations on a nesting counter.\<close>

definition nest_add :: "nat \<Rightarrow> ('h, 'f) InterruptState \<Rightarrow> (nat \<times> ('h, 'f) InterruptState) option" where
  "nest_add cpu s =
     Option.bind (arr_get (nesting_level s) cpu) (\<lambda>n.
       Some (n, s\<lparr>nesting_level := (nesting_level s)[cpu := usize_add n 1]\<rparr>))"

definition nest_sub :: "nat \<Rightarrow> ('h, 'f) InterruptState \<Rightarrow> ('h, 'f) InterruptState option" where
  "nest_sub cpu s =
     Option.bind (arr_get (nesting_level s) cpu) (\<lambda>n.
       Some (s\<lparr>nesting_level := (nesting_level s)[cpu := usize_sub n 1]\<rparr>))"

definition dispatch_interrupt ::
  "u64 \<Rightarrow> u64 \<Rightarrow>
   ('h \<Rightarrow> InterruptContext \<Rightarrow> 'k \<times> ('h, 'f) InterruptState \<Rightarrow> ('k \<times> ('h, 'f) InterruptState) option) \<Rightarrow>
   InterruptContext \<Rightarrow> 'k \<times> ('h, 'f) InterruptState \<Rightarrow>
   ((InterruptError + unit) \<times> 'k \<times> ('h, 'f) InterruptState) option" where
  "dispatch_interrupt start_tsc end_tsc run ctx ks =
     (case ks of (k, s) \<Rightarrow>
        let cpu_id = unat (ic_cpu_id ctx) in
        if \<not> is_enabled s then Some (Err NotInitialized, k, s)
        else Option.bind (nest_add cpu_id s) (\<lambda>(nesting, s1).
          if nesting \<ge> 8 then Option.bind (nest_sub cpu_id s1) (\<lambda>s2. Some (Err NestedOverflow, k, s2))
          else
            let desc = desc_of s1 (ic_irq ctx) in
            if \<not> irq_enabled desc then Option.bind (nest_sub cpu_id s1) (\<lambda>s2. Some (Ok (), k, s2))
            else case irq_handler desc of
              None \<Rightarrow> Option.bind (nest_sub cpu_id s1) (\<lambda>s2. Some (Err NoHandler, k, s2))
            | Some h \<Rightarrow>
                Option.bind (run h ctx (k, s1\<lparr>is_total_interrupts := is_total_interrupts s1 + 1\<rparr>)) (\<lambda>(k', s2).
                  let latency_ns = cycles_to_ns (end_tsc - start_tsc);
                      d = desc_of s2 (ic_irq ctx);
                      s3 = set_desc (ic_irq ctx)
                             (d\<lparr>irq_count := irq_count d + 1, irq_last_timestamp := ic_timestamp ctx\<rparr>) s2;
                      s4 = (if latency_ns > is_max_latency_ns s3 then s3\<lparr>is_max_latency_ns := latency_ns\<rparr> else s3)
                  in Option.bind (nest_sub cpu_id s4) (\<lambda>s5. Some (Ok (), k', s5)))))"

section \<open>Deferred work\<close>

definition schedule_work ::
  "u64 \<Rightarrow> 'f \<Rightarrow> ('h, 'f) InterruptState \<Rightarrow> (InterruptError + unit) \<times> ('h, 'f) InterruptState" where
  "schedule_work tsc f s =
     (if \<not> is_enabled s then (Err NotInitialized, s)
      else if length (work_queue s) \<ge> MAX_WORK_QUEUE_SIZE then (Err WorkQueueFull, s)
      else (Ok (), s\<lparr>work_queue := work_queue s @ [\<lparr>work_func = f, work_timestamp = tsc\<rparr>]\<rparr>))"

fun run_items ::
  "('f \<Rightarrow> 'k \<times> ('h, 'f) InterruptState \<Rightarrow> ('k \<times> ('h, 'f) InterruptState) option) \<Rightarrow> 'f WorkItem list \<Rightarrow>
   'k \<times> ('h, 'f) InterruptState \<Rightarrow> ('k \<times> ('h, 'f) InterruptState) option" where
  "run_items run [] ks = Some ks"
| "run_items run (w # ws) ks = Option.bind (run (work_func w) ks) (run_items run ws)"

definition process_work_queue ::
  "('f \<Rightarrow> 'k \<times> ('h, 'f) InterruptState \<Rightarrow> ('k \<times> ('h, 'f) InterruptState) option) \<Rightarrow>
   'k \<times> ('h, 'f) InterruptState \<Rightarrow> (nat \<times> 'k \<times> ('h, 'f) InterruptState) option" where
  "process_work_queue run ks =
     (case ks of (k, s) \<Rightarrow>
        if \<not> is_enabled s then Some (0, k, s)
        else
          let items = work_queue s; n = length items in
          Option.bind
            (run_items run items
               (k, s\<lparr>work_queue := [], is_total_work_items := is_total_work_items s + word_of_nat n\<rparr>))
            (\<lambda>(k', s'). Some (n, k', s')))"

end
