(* ===== verification/Timer.thy ===== *)
theory Timer
  imports Interrupt Scheduler
begin

text \<open>
  The system timer, \<open>mielin-kernel/src/timer.rs\<close>: the tick counter, the queue of sleeping
  tasks and the time quantum.

  The timer calls the interrupt subsystem and the scheduler, so its operations act on a
  \<open>Kernel\<close> record that holds the three global states. The locks are taken in the order timer,
  scheduler and are released before the call that may reschedule, so each operation is a
  single step here, except that the tick is followed by the yield as in the source. The
  timer's interrupt number and its hardware are chosen by the target architecture; the
  model is that of \<open>x86_64\<close>, whose hardware initialisation does nothing.
\<close>

section \<open>Data\<close>

definition MAX_SLEEPING_TASKS :: nat where "MAX_SLEEPING_TASKS = 64"

record TimerConfig =
  tick_rate_hz :: u32
  time_quantum_ms :: u32

definition TimerConfig_default :: TimerConfig where
  "TimerConfig_default = \<lparr>tick_rate_hz = 1000, time_quantum_ms = 10\<rparr>"

datatype TimerError = TimerNotInitialized | TimerAlreadyInitialized | InvalidConfig
  | HardwareUnavailable | SleepQueueFull | InvalidDuration

record SleepEntry =
  se_task_id :: nat
  se_wake_time :: u64
  se_valid :: bool

definition SleepEntry_empty :: SleepEntry where
  "SleepEntry_empty = \<lparr>se_task_id = 0, se_wake_time = 0, se_valid = False\<rparr>"

record TimerState =
  tm_config :: TimerConfig
  tm_initialized :: bool
  tm_running :: bool
  tm_jiffies :: u64
  tm_last_quantum_check :: u64
  tm_total_interrupts :: u64
  tm_total_reschedules :: u64
  tm_sleep_queue :: "SleepEntry list"

definition TimerState_new :: TimerState where
  "TimerState_new = \<lparr>tm_config = \<lparr>tick_rate_hz = 1000, time_quantum_ms = 10\<rparr>, tm_initialized = False,
     tm_running = False, tm_jiffies = 0, tm_last_quantum_check = 0, tm_total_interrupts = 0,
     tm_total_reschedules = 0, tm_sleep_queue = replicate MAX_SLEEPING_TASKS SleepEntry_empty\<rparr>"

text \<open>The handlers the kernel registers: the timer's own, and those of other modules by number.\<close>

datatype KernelHandler = TimerInterruptHandler | OtherHandler nat

record Kernel =
  k_timer :: TimerState
  k_scheduler :: scheduler_state
  k_interrupt :: "(KernelHandler, nat) InterruptState"

section \<open>Operations\<close>

definition get_timer_irq :: u8 where "get_timer_irq = 32"

definition timer_init :: "TimerConfig \<Rightarrow> Kernel \<Rightarrow> (TimerError + unit) \<times> Kernel" where
  "timer_init config k =
     (let t = k_timer k in
      if tm_initialized t then (Ok (), k)
      else if tick_rate_hz config = 0 \<or> tick_rate_hz config > 10000 then (Err InvalidConfig, k)
      else if time_quantum_ms config = 0 \<or> time_quantum_ms config > 1000 then (Err InvalidConfig, k)
      else
        let k1 = k\<lparr>k_timer := t\<lparr>tm_config := config, tm_initialized := True\<rparr>\<rparr> in
        case register_irq_handler get_timer_irq TimerInterruptHandler Highest (k_interrupt k1) of
          (Inl _, i) \<Rightarrow> (Err HardwareUnavailable, k1\<lparr>k_interrupt := i\<rparr>)
        | (Inr _, i) \<Rightarrow> (Ok (), k1\<lparr>k_interrupt := i\<rparr>))"

definition init_hardware_timer :: "Kernel \<Rightarrow> (TimerError + unit) \<times> Kernel" where
  "init_hardware_timer k = (Ok (), k)"

definition timer_start :: "Kernel \<Rightarrow> (TimerError + unit) \<times> Kernel" where
  "timer_start k =
     (let t = k_timer k in
      if \<not> tm_initialized t then (Err TimerNotInitialized, k)
      else if tm_running t then (Ok (), k)
      else
        case enable_irq get_timer_irq (k_interrupt k) of
          (Inl _, i) \<Rightarrow> (Err HardwareUnavailable, k\<lparr>k_interrupt := i\<rparr>)
        | (Inr _, i) \<Rightarrow>
            (case init_hardware_timer (k\<lparr>k_interrupt := i\<rparr>) of
               (Inl e, k1) \<Rightarrow> (Err e, k1)
             | (Inr _, k1) \<Rightarrow> (Ok (), k1\<lparr>k_timer := (k_timer k1)\<lparr>tm_running := True\<rparr>\<rparr>)))"

definition timer_stop :: "Kernel \<Rightarrow> (TimerError + unit) \<times> Kernel" where
  "timer_stop k =
     (let t = k_timer k in
      if \<not> tm_initialized t then (Err TimerNotInitialized, k)
      else if \<not> tm_running t then (Ok (), k)
      else
        case disable_irq get_timer_irq (k_interrupt k) of
          (_, i) \<Rightarrow> (Ok (), k\<lparr>k_interrupt := i, k_timer := (k_timer k)\<lparr>tm_running := False\<rparr>\<rparr>))"

definition ms_to_ticks :: "u32 \<Rightarrow> u32 \<Rightarrow> u64" where
  "ms_to_ticks ms hz = (ucast ms * ucast hz) div 1000"

definition ticks_to_ms :: "u64 \<Rightarrow> u32 \<Rightarrow> u64 option" where
  "ticks_to_ms ticks hz = (if hz = 0 then None else Some ((ticks * 1000) div ucast hz))"

fun wake_sleepers :: "u64 \<Rightarrow> SleepEntry list \<Rightarrow> scheduler_state \<Rightarrow> SleepEntry list \<times> scheduler_state" where
  "wake_sleepers j [] g = ([], g)"
| "wake_sleepers j (e # es) g =
     (if se_valid e \<and> se_wake_time e \<le> j
      then (case wake_task g (se_task_id e) of (_, g1) \<Rightarrow>
             case wake_sleepers j es g1 of (es', g2) \<Rightarrow> (e\<lparr>se_valid := False\<rparr> # es', g2))
      else (case wake_sleepers j es g of (es', g2) \<Rightarrow> (e # es', g2)))"

definition timer_interrupt_handler :: "Kernel \<Rightarrow> Kernel option" where
  "timer_interrupt_handler k =
     (let t = k_timer k;
          jiffies = tm_jiffies t + 1;
          (queue, g) = wake_sleepers jiffies (tm_sleep_queue t) (k_scheduler k);
          t1 = t\<lparr>tm_jiffies := jiffies, tm_total_interrupts := tm_total_interrupts t + 1, tm_sleep_queue := queue\<rparr>;
          quantum_ticks = ms_to_ticks (time_quantum_ms (tm_config t1)) (tick_rate_hz (tm_config t1))
      in if jiffies - tm_last_quantum_check t1 \<ge> quantum_ticks
         then Option.bind (yield_current g) (\<lambda>g'.
                Some (k\<lparr>k_scheduler := g', k_timer := t1\<lparr>tm_last_quantum_check := jiffies,
                        tm_total_reschedules := tm_total_reschedules t1 + 1\<rparr>\<rparr>))
         else Some (k\<lparr>k_scheduler := g, k_timer := t1\<rparr>))"

definition get_jiffies :: "Kernel \<Rightarrow> u64" where
  "get_jiffies k = tm_jiffies (k_timer k)"

definition sleep_ms :: "u32 \<Rightarrow> Kernel \<Rightarrow> ((TimerError + unit) \<times> Kernel) option" where
  "sleep_ms ms k =
     (if ms = 0 then Some (Ok (), k)
      else
        let t = k_timer k in
        if \<not> tm_initialized t then Some (Err TimerNotInitialized, k)
        else
          let wake_time = tm_jiffies t + ms_to_ticks ms (tick_rate_hz (tm_config t));
              tid = (case current_task_id (k_scheduler k) of Some i \<Rightarrow> i | None \<Rightarrow> 0) in
          case first_index (\<lambda>e. \<not> se_valid e) (tm_sleep_queue t) of
            None \<Rightarrow> Some (Err SleepQueueFull, k)
          | Some i \<Rightarrow>
              let t1 = t\<lparr>tm_sleep_queue := (tm_sleep_queue t)[i :=
                    \<lparr>se_task_id = tid, se_wake_time = wake_time, se_valid = True\<rparr>]\<rparr> in
              Option.bind (block_current_task (k_scheduler k)) (\<lambda>g.
                Some (Ok (), k\<lparr>k_timer := t1, k_scheduler := g\<rparr>)))"

definition sleeping_tasks :: "Kernel \<Rightarrow> nat" where
  "sleeping_tasks k = length (filter se_valid (tm_sleep_queue (k_timer k)))"

end
