(* ===== verification/Timer_Correct.thy ===== *)
theory Timer_Correct
  imports Timer Scheduler_Correct
begin

text \<open>
  The timer's theorems: what one tick does to the sleep queue and to the sleeping tasks, how
  long a sleep entry lives, how often the tick reschedules, and two ways in which the
  initialisation and the sleep call do not do what they promise.
\<close>

section \<open>Waking\<close>

lemma wake_task_reachable:
  assumes "sched_reachable s"
  obtains r s' where "wake_task (Some s) i = (r, Some s')" "sched_reachable s'"
    "\<And>t. get_task s' i = Some t \<Longrightarrow> task_state t \<noteq> Blocked"
    "\<And>j t. get_task s' j = Some t \<Longrightarrow> task_state t = Blocked \<Longrightarrow> get_task s j = Some t"
proof -
  obtain r s' where w: "wake s i = (r, s')" by (cases "wake s i")
  have r: "sched_reachable s'" using sched_reachable.wake [OF assms, of i] w by simp
  have inv: "table_inv s" "table_inv s'" using sched_reachable_inv assms r by auto
  let ?P = "\<lambda>slot. case slot of Some t \<Rightarrow> task_id t = i \<and> task_state t = Blocked | None \<Rightarrow> False"
  have old: "get_task s j = Some t \<and> j \<noteq> i" if g: "get_task s' j = Some t" and b: "task_state t = Blocked" for j t
  proof -
    obtain k where k: "k < length (tasks s')" "tasks s' ! k = Some t" "task_id t = j"
      using g by (rule get_task_Some)
    show ?thesis
    proof (cases "first_index ?P (tasks s)")
      case None
      then have "s' = s" using w by (simp add: wake_def)
      have "\<not> ?P (tasks s ! k)" using None k(1) \<open>s' = s\<close> by (auto simp: first_index_None_iff)
      with k b have "j \<noteq> i" using \<open>s' = s\<close> by auto
      with g \<open>s' = s\<close> show ?thesis by simp
    next
      case (Some l)
      have l: "l < length (tasks s)" "?P (tasks s ! l)" using first_index_SomeD [OF Some] by auto
      then obtain u where u: "tasks s ! l = Some u" "task_id u = i" by (auto split: option.splits)
      have s': "tasks s' = (tasks s)[l := Some (u\<lparr>task_state := Ready\<rparr>)]"
        using w Some u by (auto simp: wake_def set_state_def)
      have "k \<noteq> l" using k(2) b l(1) s' by auto
      then have tk: "tasks s ! k = Some t" "k < length (tasks s)" using k s' by auto
      have "j \<noteq> i"
        using ids_uniqueD [of "tasks s" k l t u] inv(1) tk l(1) u k(3) \<open>k \<noteq> l\<close> by (auto simp: table_inv_def)
      with get_task_spec(1) [OF inv(1) tk(2,1)] k(3) show ?thesis by simp
    qed
  qed
  show thesis
    by (rule that [of r s']) (use w r old in \<open>auto simp: wake_task_def\<close>)
qed

lemma wake_sleepers_spec:
  assumes "sched_reachable s"
  shows "\<exists>s'. wake_sleepers j es (Some s) =
      (map (\<lambda>e. if se_valid e \<and> se_wake_time e \<le> j then e\<lparr>se_valid := False\<rparr> else e) es, Some s') \<and>
    sched_reachable s' \<and>
    (\<forall>e \<in> set es. se_valid e \<and> se_wake_time e \<le> j \<longrightarrow>
       (\<forall>t. get_task s' (se_task_id e) = Some t \<longrightarrow> task_state t \<noteq> Blocked)) \<and>
    (\<forall>i t. get_task s' i = Some t \<longrightarrow> task_state t = Blocked \<longrightarrow> get_task s i = Some t)"
  using assms
proof (induction es arbitrary: s)
  case (Cons e es)
  show ?case
  proof (cases "se_valid e \<and> se_wake_time e \<le> j")
    case True
    obtain r s1 where s1: "wake_task (Some s) (se_task_id e) = (r, Some s1)" "sched_reachable s1"
        "\<And>t. get_task s1 (se_task_id e) = Some t \<Longrightarrow> task_state t \<noteq> Blocked"
        "\<And>j t. get_task s1 j = Some t \<Longrightarrow> task_state t = Blocked \<Longrightarrow> get_task s j = Some t"
      using wake_task_reachable [OF Cons.prems, of "se_task_id e"] by blast
    from Cons.IH [OF s1(2)] obtain s2 where
      s2: "wake_sleepers j es (Some s1) =
          (map (\<lambda>e. if se_valid e \<and> se_wake_time e \<le> j then e\<lparr>se_valid := False\<rparr> else e) es, Some s2)"
        "sched_reachable s2"
        "\<forall>e \<in> set es. se_valid e \<and> se_wake_time e \<le> j \<longrightarrow>
           (\<forall>t. get_task s2 (se_task_id e) = Some t \<longrightarrow> task_state t \<noteq> Blocked)"
        "\<And>i t. get_task s2 i = Some t \<Longrightarrow> task_state t = Blocked \<Longrightarrow> get_task s1 i = Some t"
      by blast
    have "task_state t \<noteq> Blocked" if "get_task s2 (se_task_id e) = Some t" for t
      using s2(4) [OF that] s1(3) by blast
    moreover have "get_task s i = Some t" if "get_task s2 i = Some t" "task_state t = Blocked" for i t
      using s1(4) [OF s2(4) [OF that] that(2)] .
    ultimately show ?thesis using s1(1) s2(1-3) True by (intro exI [of _ s2]) simp
  next
    case False
    with Cons.IH [OF Cons.prems] show ?thesis by auto
  qed
qed auto

lemma yield_current_reachable:
  assumes "sched_reachable s"
  shows "\<exists>s'. yield_current (Some s) = Some (Some s') \<and> sched_reachable s' \<and>
    (\<forall>i t. get_task s' i = Some t \<longrightarrow> task_state t = Blocked \<longrightarrow> get_task s i = Some t)"
proof -
  have inv: "table_inv s" "count_inv s" using sched_reachable_inv [OF assms] by auto
  obtain s' where y: "yield_task s = Some s'" using yield_inv [OF inv] by blast
  have r: "sched_reachable s'" by (rule sched_reachable.yield [OF assms y])
  have inv': "table_inv s'" using sched_reachable_inv [OF r] by simp
  have "get_task s i = Some t" if g: "get_task s' i = Some t" and b: "task_state t = Blocked" for i t
  proof -
    obtain k where k: "k < length (tasks s')" "tasks s' ! k = Some t" "task_id t = i"
      using g by (rule get_task_Some)
    have "tasks s ! k = Some t \<and> k < length (tasks s)"
    proof (cases "current_task s")
      case None
      then show ?thesis using y k by (simp add: yield_task_def)
    next
      case (Some c)
      then have c: "c < length (tasks s)" using inv(1) by (auto simp: table_inv_def)
      then have s': "tasks s' = (tasks s)[c := set_state Ready (tasks s ! c)]"
        using y Some by (auto simp: yield_task_def)
      then have "k \<noteq> c" using k(2) b c by (auto simp: set_state_def)
      then show ?thesis using k s' by simp
    qed
    with get_task_spec(1) [OF inv(1)] k(3) show ?thesis by auto
  qed
  with y r show ?thesis by (auto simp: yield_current_def)
qed

section \<open>One tick and many\<close>

abbreviation expire :: "u64 \<Rightarrow> SleepEntry \<Rightarrow> SleepEntry" where
  "expire j e \<equiv> (if se_valid e \<and> se_wake_time e \<le> j then e\<lparr>se_valid := False\<rparr> else e)"

abbreviation quantum_ticks :: "Kernel \<Rightarrow> u64" where
  "quantum_ticks k \<equiv> ms_to_ticks (time_quantum_ms (tm_config (k_timer k))) (tick_rate_hz (tm_config (k_timer k)))"

text \<open>The kernel states the timer runs in: the scheduler is initialised and in order.\<close>

definition sched_ok :: "Kernel \<Rightarrow> bool" where
  "sched_ok k \<longleftrightarrow> (\<exists>s. k_scheduler k = Some s \<and> sched_reachable s)"

lemma tick_ok:
  assumes "sched_ok k"
  obtains k' s s' where "timer_interrupt_handler k = Some k'" "sched_ok k'"
    "k_scheduler k = Some s" "k_scheduler k' = Some s'"
    "tm_jiffies (k_timer k') = tm_jiffies (k_timer k) + 1" "tm_config (k_timer k') = tm_config (k_timer k)"
    "tm_sleep_queue (k_timer k') = map (expire (tm_jiffies (k_timer k) + 1)) (tm_sleep_queue (k_timer k))"
    "\<And>e t. e \<in> set (tm_sleep_queue (k_timer k)) \<Longrightarrow> se_valid e \<Longrightarrow> se_wake_time e \<le> tm_jiffies (k_timer k) + 1 \<Longrightarrow>
       get_task s' (se_task_id e) = Some t \<Longrightarrow> task_state t \<noteq> Blocked"
    "\<And>i t. get_task s' i = Some t \<Longrightarrow> task_state t = Blocked \<Longrightarrow> get_task s i = Some t"
    "if tm_jiffies (k_timer k) + 1 - tm_last_quantum_check (k_timer k) \<ge> quantum_ticks k
     then tm_last_quantum_check (k_timer k') = tm_jiffies (k_timer k) + 1 \<and>
          tm_total_reschedules (k_timer k') = tm_total_reschedules (k_timer k) + 1
     else tm_last_quantum_check (k_timer k') = tm_last_quantum_check (k_timer k) \<and>
          tm_total_reschedules (k_timer k') = tm_total_reschedules (k_timer k)"
proof -
  let ?t = "k_timer k"
  obtain s where s: "k_scheduler k = Some s" "sched_reachable s" using assms by (auto simp: sched_ok_def)
  obtain s1 where w: "wake_sleepers (tm_jiffies ?t + 1) (tm_sleep_queue ?t) (Some s) =
        (map (expire (tm_jiffies ?t + 1)) (tm_sleep_queue ?t), Some s1)" "sched_reachable s1"
      "\<And>e t. e \<in> set (tm_sleep_queue ?t) \<Longrightarrow> se_valid e \<Longrightarrow> se_wake_time e \<le> tm_jiffies ?t + 1 \<Longrightarrow>
         get_task s1 (se_task_id e) = Some t \<Longrightarrow> task_state t \<noteq> Blocked"
      "\<And>i t. get_task s1 i = Some t \<Longrightarrow> task_state t = Blocked \<Longrightarrow> get_task s i = Some t"
    using wake_sleepers_spec [OF s(2), of "tm_jiffies ?t + 1" "tm_sleep_queue ?t"] by blast
  obtain s2 where y: "yield_current (Some s1) = Some (Some s2)" "sched_reachable s2"
      "\<And>i t. get_task s2 i = Some t \<Longrightarrow> task_state t = Blocked \<Longrightarrow> get_task s1 i = Some t"
    using yield_current_reachable [OF w(2)] by blast
  let ?t1 = "?t\<lparr>tm_jiffies := tm_jiffies ?t + 1, tm_total_interrupts := tm_total_interrupts ?t + 1,
    tm_sleep_queue := map (expire (tm_jiffies ?t + 1)) (tm_sleep_queue ?t)\<rparr>"
  show thesis
  proof (cases "tm_jiffies ?t + 1 - tm_last_quantum_check ?t \<ge> quantum_ticks k")
    case True
    let ?k' = "k\<lparr>k_scheduler := Some s2, k_timer := ?t1\<lparr>tm_last_quantum_check := tm_jiffies ?t + 1,
      tm_total_reschedules := tm_total_reschedules ?t + 1\<rparr>\<rparr>"
    have due: "task_state t \<noteq> Blocked" if "e \<in> set (tm_sleep_queue ?t)" "se_valid e"
      "se_wake_time e \<le> tm_jiffies ?t + 1" "get_task s2 (se_task_id e) = Some t" for e t
      using w(3) [OF that(1-3)] y(3) [OF that(4)] by blast
    have blocked: "get_task s i = Some t" if "get_task s2 i = Some t" "task_state t = Blocked" for i t
      by (rule w(4) [OF y(3) [OF that] that(2)])
    have "timer_interrupt_handler k = Some ?k'"
      using True by (simp add: timer_interrupt_handler_def Let_def s w(1) y(1))
    then show thesis
      by (rule that [of ?k' s s2])
        ((rule due; assumption) | (rule blocked; assumption) | (simp add: sched_ok_def s y(2) True))+
  next
    case False
    let ?k' = "k\<lparr>k_scheduler := Some s1, k_timer := ?t1\<rparr>"
    have "timer_interrupt_handler k = Some ?k'"
      using False by (simp add: timer_interrupt_handler_def Let_def s w(1))
    then show thesis
      by (rule that [of ?k' s s1])
        ((rule w(3); assumption) | (rule w(4); assumption) | (simp add: sched_ok_def s w(2) False))+
  qed
qed

primrec ticks :: "nat \<Rightarrow> Kernel \<Rightarrow> Kernel option" where
  "ticks 0 k = Some k"
| "ticks (Suc n) k = Option.bind (timer_interrupt_handler k) (ticks n)"

lemma ticks_entry:
  assumes "sched_ok k" and "i < length (tm_sleep_queue (k_timer k))" and "tm_sleep_queue (k_timer k) ! i = e"
    and "se_valid e = (unat j < unat (se_wake_time e))" and "tm_jiffies (k_timer k) = j" and "unat j + n < 2 ^ 64"
  shows "\<exists>k'. ticks n k = Some k' \<and> sched_ok k' \<and> tm_jiffies (k_timer k') = j + word_of_nat n \<and>
    i < length (tm_sleep_queue (k_timer k')) \<and>
    tm_sleep_queue (k_timer k') ! i = e\<lparr>se_valid := unat j + n < unat (se_wake_time e)\<rparr>"
  using assms
proof (induction n arbitrary: k e j)
  case (Suc n)
  have j1: "unat (j + 1) = unat j + 1" using Suc.prems(6) by (simp add: unat_word_ariths)
  obtain k1 s s1 where k1: "timer_interrupt_handler k = Some k1" "sched_ok k1" "k_scheduler k = Some s"
      "k_scheduler k1 = Some s1" "tm_jiffies (k_timer k1) = j + 1"
      "tm_sleep_queue (k_timer k1) = map (expire (j + 1)) (tm_sleep_queue (k_timer k))"
    by (rule tick_ok [OF Suc.prems(1)]) (use Suc.prems(5) in auto)
  let ?e = "expire (j + 1) e"
  have e: "tm_sleep_queue (k_timer k1) ! i = ?e" "se_wake_time ?e = se_wake_time e"
      "se_valid ?e = (unat (j + 1) < unat (se_wake_time e))"
    using k1(6) Suc.prems(2-4) j1 by (auto simp: word_le_nat_alt)
  have le: "i < length (tm_sleep_queue (k_timer k1))" using k1(6) Suc.prems(2) by simp
  have "unat (j + 1) + n < 2 ^ 64" using Suc.prems(6) j1 by simp
  from Suc.IH [OF k1(2) le e(1) _ k1(5) this] e(2,3) obtain k' where
    k': "ticks n k1 = Some k'" "sched_ok k'" "tm_jiffies (k_timer k') = j + 1 + word_of_nat n"
      "i < length (tm_sleep_queue (k_timer k'))"
      "tm_sleep_queue (k_timer k') ! i = ?e\<lparr>se_valid := unat (j + 1) + n < unat (se_wake_time e)\<rparr>" by auto
  moreover have "?e\<lparr>se_valid := v\<rparr> = e\<lparr>se_valid := v\<rparr>" for v by simp
  ultimately show ?case using k1(1) j1 by (intro exI [of _ k']) (simp add: add.assoc)
qed simp

lemma ticks_quantum:
  assumes "sched_ok k" and "tm_jiffies (k_timer k) - tm_last_quantum_check (k_timer k) = word_of_nat i"
    and "i + n < unat (quantum_ticks k)"
  shows "\<exists>k'. ticks n k = Some k' \<and> sched_ok k' \<and> tm_config (k_timer k') = tm_config (k_timer k) \<and>
    tm_jiffies (k_timer k') - tm_last_quantum_check (k_timer k') = word_of_nat (i + n) \<and>
    tm_total_reschedules (k_timer k') = tm_total_reschedules (k_timer k)"
  using assms
proof (induction n arbitrary: k i)
  case (Suc n)
  have lt: "unat (quantum_ticks k) < 2 ^ 64" using unsigned_less [of "quantum_ticks k"] by simp
  have d: "tm_jiffies (k_timer k) + 1 - tm_last_quantum_check (k_timer k) = word_of_nat (Suc i)"
    using Suc.prems(2) by (simp add: algebra_simps)
  have "unat (word_of_nat (Suc i) :: u64) = Suc i" using Suc.prems(3) lt by (simp add: unat_of_nat del: of_nat_Suc)
  then have early: "\<not> quantum_ticks k \<le> word_of_nat (Suc i)"
    using Suc.prems(3) by (simp add: word_le_nat_alt del: of_nat_Suc)
  obtain k1 s s1 where k1: "timer_interrupt_handler k = Some k1" "sched_ok k1"
      "tm_jiffies (k_timer k1) = tm_jiffies (k_timer k) + 1" "tm_config (k_timer k1) = tm_config (k_timer k)"
      "tm_last_quantum_check (k_timer k1) = tm_last_quantum_check (k_timer k)"
      "tm_total_reschedules (k_timer k1) = tm_total_reschedules (k_timer k)"
    by (rule tick_ok [OF Suc.prems(1)]) (use d early in auto)
  from Suc.IH [OF k1(2), of "Suc i"] k1 d Suc.prems(3) show ?case by auto
qed simp

lemma ticks_add: "ticks (m + n) k = Option.bind (ticks m k) (ticks n)"
  by (induction m arbitrary: k) (auto split: bind_split)

lemma ticks_period:
  assumes "sched_ok k" and "tm_jiffies (k_timer k) = tm_last_quantum_check (k_timer k)"
    and "0 < unat (quantum_ticks k)"
  shows "\<exists>k'. ticks (unat (quantum_ticks k)) k = Some k' \<and> sched_ok k' \<and>
    tm_config (k_timer k') = tm_config (k_timer k) \<and>
    tm_jiffies (k_timer k') = tm_last_quantum_check (k_timer k') \<and>
    tm_total_reschedules (k_timer k') = tm_total_reschedules (k_timer k) + 1"
proof -
  let ?q = "unat (quantum_ticks k)"
  have split_q: "?q = (?q - 1) + 1" using assms(3) by simp
  obtain k1 where k1: "ticks (?q - 1) k = Some k1" "sched_ok k1" "tm_config (k_timer k1) = tm_config (k_timer k)"
      "tm_jiffies (k_timer k1) - tm_last_quantum_check (k_timer k1) = word_of_nat (?q - 1)"
      "tm_total_reschedules (k_timer k1) = tm_total_reschedules (k_timer k)"
    using ticks_quantum [OF assms(1), of 0 "?q - 1"] assms(2,3) by auto
  have "tm_jiffies (k_timer k1) + 1 - tm_last_quantum_check (k_timer k1) = word_of_nat (?q - 1) + 1"
    using k1(4) by (simp add: algebra_simps)
  also have "\<dots> = word_of_nat ?q" using split_q of_nat_Suc [of "?q - 1", where 'a = u64] by (simp add: add.commute)
  also have "\<dots> = quantum_ticks k" by simp
  finally have late: "tm_jiffies (k_timer k1) + 1 - tm_last_quantum_check (k_timer k1) \<ge> quantum_ticks k1"
    using k1(3) by simp
  obtain k2 where k2: "timer_interrupt_handler k1 = Some k2" "sched_ok k2"
      "tm_jiffies (k_timer k2) = tm_jiffies (k_timer k1) + 1" "tm_config (k_timer k2) = tm_config (k_timer k1)"
      "tm_last_quantum_check (k_timer k2) = tm_jiffies (k_timer k1) + 1"
      "tm_total_reschedules (k_timer k2) = tm_total_reschedules (k_timer k1) + 1"
    by (rule tick_ok [OF k1(2)]) (use late in auto)
  have "ticks ?q k = Some k2"
    using ticks_add [of "?q - 1" 1 k] split_q by (simp add: k1(1) [simplified] k2(1))
  with k1 k2 show ?thesis by auto
qed

lemma block_current_task_ok:
  assumes "sched_reachable s"
  obtains s' where "block_current_task (Some s) = Some (Some s')" "sched_reachable s'"
  using block_inv [of s] sched_reachable_inv [OF assms] sched_reachable.block [OF assms]
  by (auto simp: block_current_task_def)

section \<open>The properties\<close>

text \<open>
  C17. One timer interrupt, in every reachable scheduler state: the handler returns, the
  tick counter grows by one, exactly the sleep entries that are due are released, no task
  named by a released entry is still blocked, no task becomes blocked, and the scheduler
  state stays a reachable one.
\<close>

theorem timer_tick:
  assumes "k_scheduler k = Some s" and "sched_reachable s"
  shows "\<exists>k' s'. timer_interrupt_handler k = Some k' \<and> k_scheduler k' = Some s' \<and> sched_reachable s' \<and>
    get_jiffies k' = get_jiffies k + 1 \<and>
    tm_sleep_queue (k_timer k') = map (expire (get_jiffies k')) (tm_sleep_queue (k_timer k)) \<and>
    (\<forall>e t. e \<in> set (tm_sleep_queue (k_timer k)) \<and> se_valid e \<and> se_wake_time e \<le> get_jiffies k' \<and>
       get_task s' (se_task_id e) = Some t \<longrightarrow> task_state t \<noteq> Blocked) \<and>
    (\<forall>i t. get_task s' i = Some t \<and> task_state t = Blocked \<longrightarrow> get_task s i = Some t)"
proof -
  have ok: "sched_ok k" using assms by (simp add: sched_ok_def)
  show ?thesis
  proof (rule tick_ok [OF ok])
    fix k' s0 s'
    assume a: "timer_interrupt_handler k = Some k'" "sched_ok k'" "k_scheduler k = Some s0" "k_scheduler k' = Some s'"
      "tm_jiffies (k_timer k') = tm_jiffies (k_timer k) + 1"
      "tm_sleep_queue (k_timer k') = map (expire (tm_jiffies (k_timer k) + 1)) (tm_sleep_queue (k_timer k))"
    assume b: "\<And>e t. e \<in> set (tm_sleep_queue (k_timer k)) \<Longrightarrow> se_valid e \<Longrightarrow>
        se_wake_time e \<le> tm_jiffies (k_timer k) + 1 \<Longrightarrow> get_task s' (se_task_id e) = Some t \<Longrightarrow> task_state t \<noteq> Blocked"
      "\<And>i t. get_task s' i = Some t \<Longrightarrow> task_state t = Blocked \<Longrightarrow> get_task s0 i = Some t"
    have r: "sched_reachable s'" "s0 = s" using a(2-4) assms(1) by (auto simp: sched_ok_def)
    have due: "\<forall>e t. e \<in> set (tm_sleep_queue (k_timer k)) \<and> se_valid e \<and> se_wake_time e \<le> get_jiffies k' \<and>
       get_task s' (se_task_id e) = Some t \<longrightarrow> task_state t \<noteq> Blocked"
      using b(1) a(5) unfolding get_jiffies_def by metis
    have "\<forall>i t. get_task s' i = Some t \<and> task_state t = Blocked \<longrightarrow> get_task s i = Some t"
      using b(2) r(2) by blast
    with due show ?thesis
      by (intro exI [of _ k'] exI [of _ s'] conjI)
        (simp_all add: a(1,4,5,6) r(1) get_jiffies_def)
  qed
qed

definition idle_kernel :: Kernel where
  "idle_kernel = \<lparr>k_timer = TimerState_new\<lparr>tm_initialized := True\<rparr>, k_scheduler = Some two_tasks,
     k_interrupt = InterruptState_new\<rparr>"

theorem timer_tick_witness:
  "\<exists>k'. timer_interrupt_handler idle_kernel = Some k' \<and> get_jiffies k' = 1"
  using timer_tick [of idle_kernel two_tasks] two_tasks_reachable
  by (auto simp: idle_kernel_def get_jiffies_def TimerState_new_def)

text \<open>
  The preemption quantum: from a state in which a quantum has just begun, ticks that
  number m q + r with r < q, where q is the quantum in ticks, all return and cause exactly m
  reschedules. Since ticks are compared by a wrapping subtraction this holds across the
  overflow of the tick counter too.
\<close>

theorem quantum_period:
  assumes "sched_ok k" and "tm_jiffies (k_timer k) = tm_last_quantum_check (k_timer k)"
    and "r < unat (quantum_ticks k)"
  shows "\<exists>k'. ticks (m * unat (quantum_ticks k) + r) k = Some k' \<and>
    tm_total_reschedules (k_timer k') = tm_total_reschedules (k_timer k) + word_of_nat m"
  using assms
proof (induction m arbitrary: k)
  case 0
  then show ?case using ticks_quantum [of k 0 r] by auto
next
  case (Suc m)
  have "0 < unat (quantum_ticks k)" using Suc.prems(3) by linarith
  from ticks_period [OF Suc.prems(1,2) this] obtain k1 where
    k1: "ticks (unat (quantum_ticks k)) k = Some k1" "sched_ok k1" "tm_config (k_timer k1) = tm_config (k_timer k)"
      "tm_jiffies (k_timer k1) = tm_last_quantum_check (k_timer k1)"
      "tm_total_reschedules (k_timer k1) = tm_total_reschedules (k_timer k) + 1" by blast
  from Suc.IH [OF k1(2,4)] Suc.prems(3) k1(3) obtain k' where
    k': "ticks (m * unat (quantum_ticks k) + r) k1 = Some k'"
      "tm_total_reschedules (k_timer k') = tm_total_reschedules (k_timer k1) + word_of_nat m" by auto
  have "ticks (unat (quantum_ticks k) + (m * unat (quantum_ticks k) + r)) k = Some k'"
    using ticks_add [of "unat (quantum_ticks k)" "m * unat (quantum_ticks k) + r" k] k1(1) k'(1) by simp
  with k'(2) k1(5) show ?case by (auto simp: add.assoc)
qed

lemma idle_kernel_ok: "sched_ok idle_kernel" "tm_jiffies (k_timer idle_kernel) = tm_last_quantum_check (k_timer idle_kernel)"
  "quantum_ticks idle_kernel = 10"
  using two_tasks_reachable
  by (simp_all add: sched_ok_def idle_kernel_def TimerState_new_def ms_to_ticks_def TimerConfig_default_def)

theorem quantum_period_witness:
  "\<exists>k'. ticks (3 * 10 + 4) idle_kernel = Some k' \<and> tm_total_reschedules (k_timer k') = 3"
  using quantum_period [OF idle_kernel_ok(1,2), of 4 3]
  by (simp add: idle_kernel_ok(3)) (simp add: idle_kernel_def TimerState_new_def)

text \<open>
  How long a sleep lasts: a successful sleep call of ms > 0 milliseconds leaves one
  entry for the caller in the queue, and as long as the tick counter does not overflow that
  entry survives exactly the first ms * rate / 1000 - 1 interrupts and is released by the next one.
\<close>

theorem sleep_duration:
  assumes "sched_ok k" and "sleep_ms ms k = Some (Ok (), k1)" and "ms \<noteq> 0"
    and "d = unat (ms_to_ticks ms (tick_rate_hz (tm_config (k_timer k))))" and "0 < d"
    and "unat (get_jiffies k) + d < 2 ^ 64" and "unat (get_jiffies k) + n < 2 ^ 64"
  shows "\<exists>i k'. i < length (tm_sleep_queue (k_timer k)) \<and> \<not> se_valid (tm_sleep_queue (k_timer k) ! i) \<and>
    se_valid (tm_sleep_queue (k_timer k1) ! i) \<and> ticks n k1 = Some k' \<and>
    (se_valid (tm_sleep_queue (k_timer k') ! i) \<longleftrightarrow> n < d)"
proof -
  let ?t = "k_timer k"
  obtain s where s: "k_scheduler k = Some s" "sched_reachable s" using assms(1) by (auto simp: sched_ok_def)
  obtain s1 where s1: "block_current_task (Some s) = Some (Some s1)" "sched_reachable s1"
    by (rule block_current_task_ok [OF s(2)])
  obtain i where i: "first_index (\<lambda>e. \<not> se_valid e) (tm_sleep_queue ?t) = Some i"
    using assms(2,3) by (auto simp: sleep_ms_def Let_def split: option.splits if_splits)
  have free: "i < length (tm_sleep_queue ?t)" "\<not> se_valid (tm_sleep_queue ?t ! i)"
    using first_index_SomeD [OF i] by auto
  let ?w = "tm_jiffies ?t + ms_to_ticks ms (tick_rate_hz (tm_config ?t))"
  obtain e where e: "tm_sleep_queue (k_timer k1) = (tm_sleep_queue ?t)[i := e]" "se_valid e" "se_wake_time e = ?w"
      "tm_jiffies (k_timer k1) = tm_jiffies ?t" "k_scheduler k1 = Some s1"
    using assms(2,3) i s(1) s1(1) by (auto simp: sleep_ms_def Let_def split: if_splits)
  have w: "unat ?w = unat (tm_jiffies ?t) + d"
    using assms(4,6) by (simp add: get_jiffies_def unat_word_ariths)
  have "sched_ok k1" using e(5) s1(2) by (simp add: sched_ok_def)
  from ticks_entry [OF this, of i e "tm_jiffies ?t" n] e free w assms(5,7) obtain k' where
    "ticks n k1 = Some k'" "tm_sleep_queue (k_timer k') ! i = e\<lparr>se_valid := unat (tm_jiffies ?t) + n < unat ?w\<rparr>"
    by (auto simp: get_jiffies_def)
  with e(1,2) free w show ?thesis by (intro exI [of _ i] exI [of _ k']) auto
qed

lemma idle_kernel_sleep:
  "\<exists>k1. sleep_ms 5 idle_kernel = Some (Ok (), k1)"
proof -
  have "first_index (\<lambda>e. \<not> se_valid e) (tm_sleep_queue (k_timer idle_kernel)) = Some 0"
    by (simp add: first_index_Some_iff idle_kernel_def TimerState_new_def SleepEntry_empty_def MAX_SLEEPING_TASKS_def)
  moreover obtain s1 where "block_current_task (Some two_tasks) = Some (Some s1)"
    using block_current_task_ok [OF two_tasks_reachable] by blast
  ultimately show ?thesis by (simp add: sleep_ms_def Let_def) (simp add: idle_kernel_def)
qed

theorem sleep_duration_witness:
  "\<exists>k1 i k'. sleep_ms 5 idle_kernel = Some (Ok (), k1) \<and> ticks 4 k1 = Some k' \<and>
     se_valid (tm_sleep_queue (k_timer k') ! i)"
proof -
  obtain k1 where k1: "sleep_ms 5 idle_kernel = Some (Ok (), k1)" using idle_kernel_sleep by blast
  have five: "5 = unat (ms_to_ticks 5 (tick_rate_hz (tm_config (k_timer idle_kernel))))"
    by (simp add: idle_kernel_def TimerState_new_def ms_to_ticks_def TimerConfig_default_def)
  have zero: "get_jiffies idle_kernel = 0" by (simp add: get_jiffies_def idle_kernel_def TimerState_new_def)
  show ?thesis using sleep_duration [OF idle_kernel_ok(1) k1 _ five, of 4] k1 zero by auto
qed

text \<open>
  A failed initialisation is not retried: when the interrupt subsystem rejects the timer's
  handler, the call fails but the timer counts as initialised, so every later call reports
  success although no handler was ever registered.
\<close>

theorem timer_init_failure_sticks:
  assumes "\<not> tm_initialized (k_timer k)" and "tick_rate_hz c \<in> {1..10000}" and "time_quantum_ms c \<in> {1..1000}"
    and "register_irq_handler get_timer_irq TimerInterruptHandler Highest (k_interrupt k) = (Err e, i)"
  shows "\<exists>k1. timer_init c k = (Err HardwareUnavailable, k1) \<and> k_interrupt k1 = i \<and>
    (\<forall>c'. timer_init c' k1 = (Ok (), k1))"
proof -
  have "tick_rate_hz c \<noteq> 0" "time_quantum_ms c \<noteq> 0" using assms(2,3) by auto
  then show ?thesis using assms by (simp add: timer_init_def Let_def not_less)
qed

theorem timer_init_failure_sticks_witness:
  "\<exists>k1. timer_init TimerConfig_default (idle_kernel\<lparr>k_timer := TimerState_new\<rparr>) = (Err HardwareUnavailable, k1) \<and>
     timer_init TimerConfig_default k1 = (Ok (), k1)"
  using timer_init_failure_sticks [of "idle_kernel\<lparr>k_timer := TimerState_new\<rparr>" TimerConfig_default]
  by (auto simp: idle_kernel_def TimerState_new_def TimerConfig_default_def InterruptState_new_def register_irq_handler_def)

end
