(* ===== verification/Fifo.thy ===== *)
theory Fifo
  imports Prelude
begin

text \<open>
  Queues and stacks: the list specification, the interface an implementation has to meet
  (the locale \<open>container_impl\<close>, and \<open>fifo_impl\<close> for queues), what every client of the interface gets, and
  the circular buffers that the ring buffer of \<open>lockfree.rs\<close> and the message queue of
  \<open>ipc.rs\<close> share.
\<close>

section \<open>Specification\<close>

text \<open>
  A container is a list with a way to insert, which may be refused when it is full, and
  removal at the front. Insertion at the end gives a queue, insertion at the front a stack.
\<close>

datatype 'a queue_op = Enqueue 'a | Dequeue

datatype 'a queue_out = Accepted | Rejected | Delivered "'a option"

definition at_end :: "'a \<Rightarrow> 'a list \<Rightarrow> 'a list" where
  "at_end x q = q @ [x]"

fun spec_step :: "('a \<Rightarrow> 'a list \<Rightarrow> 'a list) \<Rightarrow> (nat \<Rightarrow> bool) \<Rightarrow> 'a queue_op \<Rightarrow> 'a list \<Rightarrow>
    'a queue_out \<times> 'a list" where
  "spec_step ins full (Enqueue x) q = (if full (length q) then (Rejected, q) else (Accepted, ins x q))"
| "spec_step ins full Dequeue [] = (Delivered None, [])"
| "spec_step ins full Dequeue (x # q) = (Delivered (Some x), q)"

fun spec_run :: "('a \<Rightarrow> 'a list \<Rightarrow> 'a list) \<Rightarrow> (nat \<Rightarrow> bool) \<Rightarrow> 'a queue_op list \<Rightarrow> 'a list \<Rightarrow>
    'a queue_out list \<times> 'a list" where
  "spec_run ins full [] q = ([], q)"
| "spec_run ins full (c # cs) q =
     (case spec_step ins full c q of (r, q1) \<Rightarrow> case spec_run ins full cs q1 of (rs, q2) \<Rightarrow> (r # rs, q2))"

fun accepted :: "'a queue_op list \<Rightarrow> 'a queue_out list \<Rightarrow> 'a list" where
  "accepted (Enqueue x # cs) (Accepted # rs) = x # accepted cs rs"
| "accepted (_ # cs) (_ # rs) = accepted cs rs"
| "accepted _ _ = []"

fun delivered :: "'a queue_out list \<Rightarrow> 'a list" where
  "delivered [] = []"
| "delivered (Delivered (Some x) # rs) = x # delivered rs"
| "delivered (_ # rs) = delivered rs"

text \<open>Nothing is lost, duplicated or reordered by a queue.\<close>

lemma spec_run_order:
  "spec_run at_end full cs q = (rs, q') \<Longrightarrow> delivered rs @ q' = q @ accepted cs rs"
proof (induction cs arbitrary: q rs q')
  case (Cons c cs)
  obtain r q1 where step: "spec_step at_end full c q = (r, q1)" by fastforce
  obtain rs1 where rs: "spec_run at_end full cs q1 = (rs1, q')" "rs = r # rs1"
    using Cons.prems step by (auto split: prod.splits)
  from Cons.IH [OF rs(1)] show ?case
    using step rs(2) by (cases c; cases q) (auto simp: at_end_def split: if_splits)
qed simp

section \<open>The interface\<close>

fun exec_ops :: "('a \<Rightarrow> 's \<Rightarrow> (bool \<times> 's) option) \<Rightarrow> ('s \<Rightarrow> ('a option \<times> 's) option) \<Rightarrow>
    'a queue_op list \<Rightarrow> 's \<Rightarrow> ('a queue_out list \<times> 's) option" where
  "exec_ops enq deq [] s = Some ([], s)"
| "exec_ops enq deq (Enqueue x # cs) s =
     Option.bind (enq x s) (\<lambda>(ok, s1).
       map_option (\<lambda>(rs, s2). ((if ok then Accepted else Rejected) # rs, s2)) (exec_ops enq deq cs s1))"
| "exec_ops enq deq (Dequeue # cs) s =
     Option.bind (deq s) (\<lambda>(r, s1).
       map_option (\<lambda>(rs, s2). (Delivered r # rs, s2)) (exec_ops enq deq cs s1))"

text \<open>
  The laws relate a state of the implementation to the list it stands for: every operation
  returns, answers what the list says and leads to a state that stands for the new list.
\<close>

locale container_impl =
  fixes rel :: "'s \<Rightarrow> 'a list \<Rightarrow> bool"
    and ins :: "'a \<Rightarrow> 'a list \<Rightarrow> 'a list"
    and full :: "nat \<Rightarrow> bool"
    and enq :: "'a \<Rightarrow> 's \<Rightarrow> (bool \<times> 's) option"
    and deq :: "'s \<Rightarrow> ('a option \<times> 's) option"
  assumes enq_full: "rel s q \<Longrightarrow> full (length q) \<Longrightarrow> \<exists>s'. enq x s = Some (False, s') \<and> rel s' q"
    and enq_room: "rel s q \<Longrightarrow> \<not> full (length q) \<Longrightarrow> \<exists>s'. enq x s = Some (True, s') \<and> rel s' (ins x q)"
    and deq_empty: "rel s [] \<Longrightarrow> \<exists>s'. deq s = Some (None, s') \<and> rel s' []"
    and deq_item: "rel s (x # q) \<Longrightarrow> \<exists>s'. deq s = Some (Some x, s') \<and> rel s' q"
begin

lemma step_refines:
  assumes "rel s q" and "spec_step ins full c q = (r, q1)"
  obtains s1 where "\<And>cs. exec_ops enq deq (c # cs) s = map_option (\<lambda>(rs, s2). (r # rs, s2)) (exec_ops enq deq cs s1)"
    and "rel s1 q1"
proof (cases c)
  case (Enqueue x)
  show thesis
  proof (cases "full (length q)")
    case True
    then show thesis using enq_full [OF assms(1) True, of x] assms(2) Enqueue that by auto
  next
    case False
    then show thesis using enq_room [OF assms(1) False, of x] assms(2) Enqueue that by auto
  qed
next
  case Dequeue
  show thesis
  proof (cases q)
    case Nil
    then show thesis using deq_empty [of s] assms Dequeue that by auto
  next
    case (Cons y q')
    then show thesis using deq_item [of s y q'] assms Dequeue that by auto
  qed
qed

text \<open>An implementation answers every sequence of calls as the specification does.\<close>

lemma exec_refines:
  assumes "rel s q" and "spec_run ins full cs q = (rs, q')"
  shows "\<exists>s'. exec_ops enq deq cs s = Some (rs, s') \<and> rel s' q'"
  using assms
proof (induction cs arbitrary: s q rs)
  case (Cons c cs)
  obtain r q1 where step: "spec_step ins full c q = (r, q1)" by fastforce
  obtain rs1 where rs: "spec_run ins full cs q1 = (rs1, q')" "rs = r # rs1"
    using Cons.prems(2) step by (auto split: prod.splits)
  obtain s1 where "\<And>cs. exec_ops enq deq (c # cs) s = map_option (\<lambda>(rs, s2). (r # rs, s2)) (exec_ops enq deq cs s1)"
    "rel s1 q1" by (rule step_refines [OF Cons.prems(1) step]) blast
  with Cons.IH [OF _ rs(1)] rs(2) show ?case by auto
qed simp

end

locale fifo_impl = container_impl rel at_end full enq deq
  for rel :: "'s \<Rightarrow> 'a list \<Rightarrow> bool" and full enq deq
begin

text \<open>What was accepted is delivered once each and in order; the rest is still queued.\<close>

lemma exec_order:
  assumes "rel s q" and "exec_ops enq deq cs s = Some (rs, s')"
  shows "\<exists>q'. rel s' q' \<and> delivered rs @ q' = q @ accepted cs rs"
proof -
  obtain rs1 q' where run: "spec_run at_end full cs q = (rs1, q')" by fastforce
  from exec_refines [OF assms(1) run] assms(2) have "rs1 = rs" "rel s' q'" by auto
  with spec_run_order [OF run] show ?thesis by auto
qed

end

section \<open>Circular buffers\<close>

definition cyc_slots :: "'a option list \<Rightarrow> nat \<Rightarrow> 'a list \<Rightarrow> bool" where
  "cyc_slots buf h q \<longleftrightarrow> (\<forall>i < length q. buf ! ((h + i) mod length buf) = Some (q ! i))"

lemma mod_add_inj:
  fixes h i j n :: nat
  assumes "(h + i) mod n = (h + j) mod n" and "i < n" and "j < n"
  shows "i = j"
proof (cases i j rule: linorder_cases)
  case less
  then have "n dvd j - i" using assms(1) mod_eq_dvd_iff_nat [of "h + i" "h + j" n] by simp
  then show ?thesis using less assms(3) nat_dvd_not_less [of "j - i" n] by simp
next
  case greater
  then have "n dvd i - j" using assms(1) mod_eq_dvd_iff_nat [of "h + j" "h + i" n] by simp
  then show ?thesis using greater assms(2) nat_dvd_not_less [of "i - j" n] by simp
qed

lemma cyc_empty [simp]: "cyc_slots buf h []"
  by (simp add: cyc_slots_def)

lemma cyc_push:
  assumes "cyc_slots buf h q" and "length q < length buf"
  shows "cyc_slots (buf[(h + length q) mod length buf := Some x]) h (q @ [x])"
  unfolding cyc_slots_def
proof (intro allI impI)
  fix i assume "i < length (q @ [x])"
  then consider "i < length q" | "i = length q" by fastforce
  then show "buf[(h + length q) mod length buf := Some x] ! ((h + i) mod length (buf[(h + length q) mod length buf := Some x])) =
    Some ((q @ [x]) ! i)"
  proof cases
    case 1
    then have "(h + length q) mod length buf \<noteq> (h + i) mod length buf"
      using mod_add_inj [of h "length q" "length buf" i] assms(2) by auto
    with 1 assms show ?thesis by (simp add: cyc_slots_def nth_append)
  next
    case 2
    have "(h + length q) mod length buf < length buf" by (rule mod_less_divisor) (use assms(2) in linarith)
    with 2 show ?thesis by simp
  qed
qed

lemma cyc_head:
  "cyc_slots buf h (x # q) \<Longrightarrow> h < length buf \<Longrightarrow> buf ! h = Some x"
  by (auto simp: cyc_slots_def dest: spec [of _ 0])

lemma cyc_tail_slots:
  assumes "cyc_slots buf h (x # q)" and "i < length q" and "length (x # q) \<le> length buf" and "h < length buf"
  shows "((h + 1) mod length buf + i) mod length buf = (h + Suc i) mod length buf"
    and "(h + Suc i) mod length buf \<noteq> h" and "buf ! ((h + Suc i) mod length buf) = Some (q ! i)"
proof -
  show "((h + 1) mod length buf + i) mod length buf = (h + Suc i) mod length buf" by (simp add: mod_simps)
  show "(h + Suc i) mod length buf \<noteq> h"
  proof
    assume "(h + Suc i) mod length buf = h"
    then have "(h + Suc i) mod length buf = (h + 0) mod length buf" using assms(4) by simp
    then have "Suc i = 0" by (rule mod_add_inj) (use assms(2,3) in auto)
    then show False by simp
  qed
  show "buf ! ((h + Suc i) mod length buf) = Some (q ! i)"
    using assms(1,2) unfolding cyc_slots_def by (metis Suc_less_eq length_Cons nth_Cons_Suc)
qed

lemma cyc_pop:
  assumes "cyc_slots buf h (x # q)" and "length (x # q) \<le> length buf" and "h < length buf"
  shows "cyc_slots (buf[h := v]) ((h + 1) mod length buf) q"
  unfolding cyc_slots_def
proof (intro allI impI)
  fix i assume i: "i < length q"
  note slots = cyc_tail_slots [OF assms(1) i assms(2,3)]
  show "buf[h := v] ! (((h + 1) mod length buf + i) mod length (buf[h := v])) = Some (q ! i)"
    unfolding length_list_update slots(1) nth_list_update_neq [OF slots(2) [symmetric]] by (rule slots(3))
qed

end
