(* ===== verification/LockFree.thy ===== *)
theory LockFree
  imports Fifo
begin

text \<open>
  The data structures of \<open>mielin-kernel/src/lockfree.rs\<close>: the Michael-Scott queue, the
  Treiber stack, the counter, the sequence lock and the single-producer single-consumer
  ring buffer.

  A method body is a program over atomic accesses to shared memory. It is modelled by a
  datatype of control points, whose arguments are the local variables, and a step function
  that performs one access: an atomic load, store or read-modify-write, one word of a plain
  copy, one access through a raw pointer, an allocation or a deallocation. Running the
  steps of one call without interruption gives the sequential meaning of the method;
  interleaving the steps of several calls gives its concurrent meaning, for sequentially
  consistent memory. A step that dereferences or frees a pointer that is not allocated is
  undefined behaviour and has the value \<open>None\<close>.
\<close>

section \<open>Ring buffer\<close>

record 'a RingBuffer =
  rb_buffer :: "'a option list"
  rb_head :: nat
  rb_tail :: nat

definition RingBuffer_new :: "nat \<Rightarrow> 'a RingBuffer" where
  "RingBuffer_new n = \<lparr>rb_buffer = replicate n None, rb_head = 0, rb_tail = 0\<rparr>"

definition RingBuffer_try_push :: "'a \<Rightarrow> 'a RingBuffer \<Rightarrow> (('a + unit) \<times> 'a RingBuffer) option" where
  "RingBuffer_try_push item rb =
     (let tail = rb_tail rb; head = rb_head rb; n = length (rb_buffer rb) in
      if n = 0 then None
      else let next_tail = usize_add tail 1 mod n in
        if next_tail = head then Some (Err item, rb)
        else Option.bind (arr_set (rb_buffer rb) tail (Some item)) (\<lambda>b.
               Some (Ok (), rb\<lparr>rb_buffer := b, rb_tail := next_tail\<rparr>)))"

definition RingBuffer_try_pop :: "'a RingBuffer \<Rightarrow> ('a option \<times> 'a RingBuffer) option" where
  "RingBuffer_try_pop rb =
     (let head = rb_head rb; tail = rb_tail rb; n = length (rb_buffer rb) in
      if head = tail then Some (None, rb)
      else Option.bind (arr_get (rb_buffer rb) head) (\<lambda>item.
             Some (item, rb\<lparr>rb_buffer := (rb_buffer rb)[head := None], rb_head := usize_add head 1 mod n\<rparr>)))"

definition RingBuffer_is_empty :: "'a RingBuffer \<Rightarrow> bool" where
  "RingBuffer_is_empty rb \<longleftrightarrow> rb_head rb = rb_tail rb"

definition RingBuffer_is_full :: "'a RingBuffer \<Rightarrow> bool option" where
  "RingBuffer_is_full rb =
     (if length (rb_buffer rb) = 0 then None
      else Some (usize_add (rb_tail rb) 1 mod length (rb_buffer rb) = rb_head rb))"

definition RingBuffer_len :: "'a RingBuffer \<Rightarrow> nat option" where
  "RingBuffer_len rb =
     (let n = length (rb_buffer rb) in
      if n = 0 then None else Some (usize_sub (usize_add (rb_tail rb) n) (rb_head rb) mod n))"

definition RingBuffer_capacity :: "'a RingBuffer \<Rightarrow> nat" where
  "RingBuffer_capacity rb = usize_sub (length (rb_buffer rb)) 1"

datatype 'a rb_pc =
    RbPushLoadTail 'a
  | RbPushLoadHead 'a nat
  | RbPushWrite 'a nat nat
  | RbPushStoreTail 'a nat
  | RbPushRet "'a + unit"
  | RbPopLoadHead
  | RbPopLoadTail nat
  | RbPopTake nat
  | RbPopStoreHead nat "'a option"
  | RbPopRet "'a option"

fun rb_step :: "'a rb_pc \<Rightarrow> 'a RingBuffer \<Rightarrow> ('a rb_pc \<times> 'a RingBuffer) option" where
  "rb_step (RbPushLoadTail x) rb = Some (RbPushLoadHead x (rb_tail rb), rb)"
| "rb_step (RbPushLoadHead x tail) rb =
     (let head = rb_head rb; n = length (rb_buffer rb) in
      if n = 0 then None
      else let next_tail = usize_add tail 1 mod n in
        if next_tail = head then Some (RbPushRet (Err x), rb) else Some (RbPushWrite x tail next_tail, rb))"
| "rb_step (RbPushWrite x tail next_tail) rb =
     Option.bind (arr_set (rb_buffer rb) tail (Some x)) (\<lambda>b. Some (RbPushStoreTail x next_tail, rb\<lparr>rb_buffer := b\<rparr>))"
| "rb_step (RbPushStoreTail x next_tail) rb = Some (RbPushRet (Ok ()), rb\<lparr>rb_tail := next_tail\<rparr>)"
| "rb_step (RbPushRet r) rb = Some (RbPushRet r, rb)"
| "rb_step RbPopLoadHead rb = Some (RbPopLoadTail (rb_head rb), rb)"
| "rb_step (RbPopLoadTail head) rb =
     (if head = rb_tail rb then Some (RbPopRet None, rb) else Some (RbPopTake head, rb))"
| "rb_step (RbPopTake head) rb =
     Option.bind (arr_get (rb_buffer rb) head) (\<lambda>item.
       Some (RbPopStoreHead head item, rb\<lparr>rb_buffer := (rb_buffer rb)[head := None]\<rparr>))"
| "rb_step (RbPopStoreHead head item) rb =
     Some (RbPopRet item, rb\<lparr>rb_head := usize_add head 1 mod length (rb_buffer rb)\<rparr>)"
| "rb_step (RbPopRet r) rb = Some (RbPopRet r, rb)"

section \<open>Counter\<close>

record AtomicCounter =
  ctr_value :: u64
  ctr_total_increments :: u64
  ctr_total_decrements :: u64
  ctr_peak_value :: u64

definition AtomicCounter_with_value :: "u64 \<Rightarrow> AtomicCounter" where
  "AtomicCounter_with_value initial =
     \<lparr>ctr_value = initial, ctr_total_increments = 0, ctr_total_decrements = 0, ctr_peak_value = initial\<rparr>"

definition AtomicCounter_new :: AtomicCounter where
  "AtomicCounter_new = \<lparr>ctr_value = 0, ctr_total_increments = 0, ctr_total_decrements = 0, ctr_peak_value = 0\<rparr>"

definition ctr_update_peak :: "u64 \<Rightarrow> AtomicCounter \<Rightarrow> AtomicCounter" where
  "ctr_update_peak v c = (if v \<le> ctr_peak_value c then c else c\<lparr>ctr_peak_value := v\<rparr>)"

definition ctr_add :: "u64 \<Rightarrow> AtomicCounter \<Rightarrow> u64 \<times> AtomicCounter" where
  "ctr_add val c =
     (let new_val = ctr_value c + val;
          c1 = c\<lparr>ctr_value := ctr_value c + val, ctr_total_increments := ctr_total_increments c + 1\<rparr>
      in (new_val, ctr_update_peak new_val c1))"

definition ctr_sub :: "u64 \<Rightarrow> AtomicCounter \<Rightarrow> u64 \<times> AtomicCounter" where
  "ctr_sub val c =
     (let new_val = (if val \<le> ctr_value c then ctr_value c - val else 0)
      in (new_val, c\<lparr>ctr_value := new_val, ctr_total_decrements := ctr_total_decrements c + 1\<rparr>))"

definition ctr_increment :: "AtomicCounter \<Rightarrow> u64 \<times> AtomicCounter" where
  "ctr_increment c = ctr_add 1 c"

definition ctr_decrement :: "AtomicCounter \<Rightarrow> u64 \<times> AtomicCounter" where
  "ctr_decrement c = ctr_sub 1 c"

definition ctr_set :: "u64 \<Rightarrow> AtomicCounter \<Rightarrow> AtomicCounter" where
  "ctr_set val c = ctr_update_peak val (c\<lparr>ctr_value := val\<rparr>)"

definition ctr_reset_stats :: "AtomicCounter \<Rightarrow> AtomicCounter" where
  "ctr_reset_stats c =
     c\<lparr>ctr_total_increments := 0, ctr_total_decrements := 0, ctr_peak_value := ctr_value c\<rparr>"

section \<open>Sequence lock\<close>

text \<open>The protected value is a list of words, which the plain copy moves one at a time.\<close>

record 'a SeqLock =
  sl_sequence :: nat
  sl_data :: "'a list"

definition SeqLock_new :: "'a list \<Rightarrow> 'a SeqLock" where
  "SeqLock_new d = \<lparr>sl_sequence = 0, sl_data = d\<rparr>"

text \<open>
  The flag of the reading control points is \<open>True\<close> for \<open>read\<close>, which retries, and
  \<open>False\<close> for \<open>try_read\<close>, which gives up.
\<close>

datatype 'a sl_pc =
    SlReadLoad bool
  | SlReadData bool nat "'a list"
  | SlReadCheck bool nat "'a list"
  | SlReadRet "'a list option"
  | SlWriteLoad "'a list"
  | SlWriteCas "'a list" nat
  | SlWriteData "'a list" nat
  | SlWriteDone "'a list"
  | SlWriteRet

fun sl_step :: "'a sl_pc \<Rightarrow> 'a SeqLock \<Rightarrow> 'a sl_pc \<times> 'a SeqLock" where
  "sl_step (SlReadLoad retry) l =
     (let seq1 = sl_sequence l in
      (if odd seq1 then (if retry then SlReadLoad retry else SlReadRet None) else SlReadData retry seq1 [], l))"
| "sl_step (SlReadData retry seq1 d) l =
     (if length d < length (sl_data l) then SlReadData retry seq1 (d @ [sl_data l ! length d])
      else SlReadCheck retry seq1 d, l)"
| "sl_step (SlReadCheck retry seq1 d) l =
     (if seq1 = sl_sequence l then SlReadRet (Some d)
      else if retry then SlReadLoad retry else SlReadRet None, l)"
| "sl_step (SlReadRet r) l = (SlReadRet r, l)"
| "sl_step (SlWriteLoad d) l = (SlWriteCas d (sl_sequence l), l)"
| "sl_step (SlWriteCas d seq) l =
     (if sl_sequence l = seq then (SlWriteData d 0, l\<lparr>sl_sequence := usize_add seq 1\<rparr>) else (SlWriteLoad d, l))"
| "sl_step (SlWriteData d i) l =
     (if i < length (sl_data l) then (SlWriteData d (Suc i), l\<lparr>sl_data := (sl_data l)[i := d ! i]\<rparr>)
      else (SlWriteDone d, l))"
| "sl_step (SlWriteDone d) l = (SlWriteRet, l\<lparr>sl_sequence := usize_add (sl_sequence l) 1\<rparr>)"
| "sl_step SlWriteRet l = (SlWriteRet, l)"

section \<open>Michael-Scott queue\<close>

text \<open>Pointers are natural numbers, 0 is the null pointer.\<close>

record 'a Node =
  node_data :: "'a option"
  node_next :: nat

definition Node_new :: "'a \<Rightarrow> 'a Node" where
  "Node_new d = \<lparr>node_data = Some d, node_next = 0\<rparr>"

definition Node_sentinel :: "'a Node" where
  "Node_sentinel = \<lparr>node_data = None, node_next = 0\<rparr>"

type_synonym 'a heap = "nat \<Rightarrow> 'a Node option"

text \<open>
  The global allocator is an argument: the address of a new box in a given heap. What the
  structures rely on is that the address is not null and not in use.
\<close>

type_synonym 'a allocator = "'a heap \<Rightarrow> nat"

definition alloc_ok :: "'a allocator \<Rightarrow> bool" where
  "alloc_ok alloc \<longleftrightarrow> (\<forall>h. finite (dom h) \<longrightarrow> alloc h \<noteq> 0 \<and> h (alloc h) = None)"

record 'a LockFreeQueue =
  lq_heap :: "'a heap"
  lq_head :: nat
  lq_tail :: nat
  lq_len :: nat

definition LockFreeQueue_new :: "'a allocator \<Rightarrow> 'a LockFreeQueue" where
  "LockFreeQueue_new alloc =
     (let sentinel = alloc Map.empty in
      \<lparr>lq_heap = [sentinel \<mapsto> Node_sentinel], lq_head = sentinel, lq_tail = sentinel, lq_len = 0\<rparr>)"

datatype 'a lq_pc =
    LqPushAlloc 'a
  | LqPushLoadTail nat
  | LqPushLoadNext nat nat
  | LqPushCasNext nat nat
  | LqPushCasTail nat nat
  | LqPushLen
  | LqPushHelp nat nat nat
  | LqPushRet
  | LqPopLoadHead
  | LqPopLoadTail nat
  | LqPopLoadNext nat nat
  | LqPopHelp nat nat
  | LqPopCasHead nat nat
  | LqPopFree nat nat
  | LqPopLen nat
  | LqPopTake nat
  | LqPopRet "'a option"

fun lq_step :: "'a allocator \<Rightarrow> 'a lq_pc \<Rightarrow> 'a LockFreeQueue \<Rightarrow> ('a lq_pc \<times> 'a LockFreeQueue) option" where
  "lq_step alloc (LqPushAlloc x) q =
     (let node = alloc (lq_heap q) in
      Some (LqPushLoadTail node, q\<lparr>lq_heap := (lq_heap q)(node \<mapsto> Node_new x)\<rparr>))"
| "lq_step alloc (LqPushLoadTail node) q = Some (LqPushLoadNext node (lq_tail q), q)"
| "lq_step alloc (LqPushLoadNext node tail) q =
     Option.bind (lq_heap q tail) (\<lambda>t.
       if node_next t = 0 then Some (LqPushCasNext node tail, q)
       else Some (LqPushHelp node tail (node_next t), q))"
| "lq_step alloc (LqPushCasNext node tail) q =
     Option.bind (lq_heap q tail) (\<lambda>t.
       if node_next t = 0
       then Some (LqPushCasTail node tail, q\<lparr>lq_heap := (lq_heap q)(tail \<mapsto> t\<lparr>node_next := node\<rparr>)\<rparr>)
       else Some (LqPushLoadTail node, q))"
| "lq_step alloc (LqPushCasTail node tail) q =
     Some (LqPushLen, if lq_tail q = tail then q\<lparr>lq_tail := node\<rparr> else q)"
| "lq_step alloc LqPushLen q = Some (LqPushRet, q\<lparr>lq_len := usize_add (lq_len q) 1\<rparr>)"
| "lq_step alloc (LqPushHelp node tail next) q =
     Some (LqPushLoadTail node, if lq_tail q = tail then q\<lparr>lq_tail := next\<rparr> else q)"
| "lq_step alloc LqPushRet q = Some (LqPushRet, q)"
| "lq_step alloc LqPopLoadHead q = Some (LqPopLoadTail (lq_head q), q)"
| "lq_step alloc (LqPopLoadTail head) q = Some (LqPopLoadNext head (lq_tail q), q)"
| "lq_step alloc (LqPopLoadNext head tail) q =
     Option.bind (lq_heap q head) (\<lambda>h.
       if head = tail
       then (if node_next h = 0 then Some (LqPopRet None, q) else Some (LqPopHelp tail (node_next h), q))
       else if node_next h \<noteq> 0 then Some (LqPopCasHead head (node_next h), q)
       else Some (LqPopLoadHead, q))"
| "lq_step alloc (LqPopHelp tail next) q =
     Some (LqPopLoadHead, if lq_tail q = tail then q\<lparr>lq_tail := next\<rparr> else q)"
| "lq_step alloc (LqPopCasHead head next) q =
     (if lq_head q = head then Some (LqPopFree head next, q\<lparr>lq_head := next\<rparr>) else Some (LqPopLoadHead, q))"
| "lq_step alloc (LqPopFree head next) q =
     Option.bind (lq_heap q head) (\<lambda>_. Some (LqPopLen next, q\<lparr>lq_heap := (lq_heap q)(head := None)\<rparr>))"
| "lq_step alloc (LqPopLen next) q = Some (LqPopTake next, q\<lparr>lq_len := usize_sub (lq_len q) 1\<rparr>)"
| "lq_step alloc (LqPopTake next) q =
     Option.bind (lq_heap q next) (\<lambda>n.
       Some (LqPopRet (node_data n), q\<lparr>lq_heap := (lq_heap q)(next \<mapsto> n\<lparr>node_data := None\<rparr>)\<rparr>))"
| "lq_step alloc (LqPopRet r) q = Some (LqPopRet r, q)"

fun lq_final :: "'a lq_pc \<Rightarrow> bool" where
  "lq_final LqPushRet = True"
| "lq_final (LqPopRet r) = True"
| "lq_final _ = False"

text \<open>One call that runs alone, from its control point to its return.\<close>

partial_function (option) lq_run ::
  "'a allocator \<Rightarrow> 'a lq_pc \<Rightarrow> 'a LockFreeQueue \<Rightarrow> ('a lq_pc \<times> 'a LockFreeQueue) option" where
  "lq_run alloc pc q =
     (if lq_final pc then Some (pc, q)
      else Option.bind (lq_step alloc pc q) (\<lambda>(pc', q'). lq_run alloc pc' q'))"

definition lq_push :: "'a allocator \<Rightarrow> 'a \<Rightarrow> 'a LockFreeQueue \<Rightarrow> 'a LockFreeQueue option" where
  "lq_push alloc x q = map_option snd (lq_run alloc (LqPushAlloc x) q)"

definition lq_pop :: "'a allocator \<Rightarrow> 'a LockFreeQueue \<Rightarrow> ('a option \<times> 'a LockFreeQueue) option" where
  "lq_pop alloc q =
     Option.bind (lq_run alloc LqPopLoadHead q) (\<lambda>(pc, q').
       case pc of LqPopRet r \<Rightarrow> Some (r, q') | _ \<Rightarrow> None)"

definition lq_is_empty :: "'a LockFreeQueue \<Rightarrow> bool" where
  "lq_is_empty q \<longleftrightarrow> lq_len q = 0"

text \<open>Several calls at once: thread \<open>i\<close> of the list takes the next step for each \<open>i\<close> of the schedule.\<close>

fun lq_interleave :: "'a allocator \<Rightarrow> nat list \<Rightarrow> 'a lq_pc list \<Rightarrow> 'a LockFreeQueue \<Rightarrow>
    ('a lq_pc list \<times> 'a LockFreeQueue) option" where
  "lq_interleave alloc [] pcs q = Some (pcs, q)"
| "lq_interleave alloc (i # is) pcs q =
     Option.bind (lq_step alloc (pcs ! i) q) (\<lambda>(pc, q'). lq_interleave alloc is (pcs[i := pc]) q')"

section \<open>Treiber stack\<close>

record 'a LockFreeStack =
  st_heap :: "'a heap"
  st_top :: nat
  st_len :: nat

definition LockFreeStack_new :: "'a LockFreeStack" where
  "LockFreeStack_new = \<lparr>st_heap = Map.empty, st_top = 0, st_len = 0\<rparr>"

datatype 'a st_pc =
    StPushAlloc 'a
  | StPushLoad nat
  | StPushNext nat nat
  | StPushCas nat nat
  | StPushLen
  | StPushRet
  | StPopLoad
  | StPopNext nat
  | StPopCas nat nat
  | StPopLen nat
  | StPopFree nat
  | StPopRet "'a option"

fun st_step :: "'a allocator \<Rightarrow> 'a st_pc \<Rightarrow> 'a LockFreeStack \<Rightarrow> ('a st_pc \<times> 'a LockFreeStack) option" where
  "st_step alloc (StPushAlloc x) s =
     (let node = alloc (st_heap s) in
      Some (StPushLoad node, s\<lparr>st_heap := (st_heap s)(node \<mapsto> Node_new x)\<rparr>))"
| "st_step alloc (StPushLoad node) s = Some (StPushNext node (st_top s), s)"
| "st_step alloc (StPushNext node tp) s =
     Option.bind (st_heap s node) (\<lambda>n.
       Some (StPushCas node tp, s\<lparr>st_heap := (st_heap s)(node \<mapsto> n\<lparr>node_next := tp\<rparr>)\<rparr>))"
| "st_step alloc (StPushCas node tp) s =
     (if st_top s = tp then Some (StPushLen, s\<lparr>st_top := node\<rparr>) else Some (StPushLoad node, s))"
| "st_step alloc StPushLen s = Some (StPushRet, s\<lparr>st_len := usize_add (st_len s) 1\<rparr>)"
| "st_step alloc StPushRet s = Some (StPushRet, s)"
| "st_step alloc StPopLoad s = Some (if st_top s = 0 then StPopRet None else StPopNext (st_top s), s)"
| "st_step alloc (StPopNext tp) s =
     Option.bind (st_heap s tp) (\<lambda>t. Some (StPopCas tp (node_next t), s))"
| "st_step alloc (StPopCas tp next) s =
     (if st_top s = tp then Some (StPopLen tp, s\<lparr>st_top := next\<rparr>) else Some (StPopLoad, s))"
| "st_step alloc (StPopLen tp) s = Some (StPopFree tp, s\<lparr>st_len := usize_sub (st_len s) 1\<rparr>)"
| "st_step alloc (StPopFree tp) s =
     Option.bind (st_heap s tp) (\<lambda>t. Some (StPopRet (node_data t), s\<lparr>st_heap := (st_heap s)(tp := None)\<rparr>))"
| "st_step alloc (StPopRet r) s = Some (StPopRet r, s)"

fun st_final :: "'a st_pc \<Rightarrow> bool" where
  "st_final StPushRet = True"
| "st_final (StPopRet r) = True"
| "st_final _ = False"

partial_function (option) st_run ::
  "'a allocator \<Rightarrow> 'a st_pc \<Rightarrow> 'a LockFreeStack \<Rightarrow> ('a st_pc \<times> 'a LockFreeStack) option" where
  "st_run alloc pc s =
     (if st_final pc then Some (pc, s)
      else Option.bind (st_step alloc pc s) (\<lambda>(pc', s'). st_run alloc pc' s'))"

definition st_push :: "'a allocator \<Rightarrow> 'a \<Rightarrow> 'a LockFreeStack \<Rightarrow> 'a LockFreeStack option" where
  "st_push alloc x s = map_option snd (st_run alloc (StPushAlloc x) s)"

definition st_pop :: "'a allocator \<Rightarrow> 'a LockFreeStack \<Rightarrow> ('a option \<times> 'a LockFreeStack) option" where
  "st_pop alloc s =
     Option.bind (st_run alloc StPopLoad s) (\<lambda>(pc, s').
       case pc of StPopRet r \<Rightarrow> Some (r, s') | _ \<Rightarrow> None)"

fun st_interleave :: "'a allocator \<Rightarrow> nat list \<Rightarrow> 'a st_pc list \<Rightarrow> 'a LockFreeStack \<Rightarrow>
    ('a st_pc list \<times> 'a LockFreeStack) option" where
  "st_interleave alloc [] pcs s = Some (pcs, s)"
| "st_interleave alloc (i # is) pcs s =
     Option.bind (st_step alloc (pcs ! i) s) (\<lambda>(pc, s'). st_interleave alloc is (pcs[i := pc]) s')"

end
