(* ===== verification/LockFree_Correct.thy ===== *)
theory LockFree_Correct
  imports LockFree
begin

text \<open>
  The sequential meaning of the lock-free structures: the ring buffer and the Michael-Scott
  queue are first-in first-out queues, the Treiber stack is a last-in first-out stack, and
  the counter's peak bounds its value. Each structure is an instance of the container
  interface.
\<close>

section \<open>Ring buffer\<close>

definition rb_rel :: "nat \<Rightarrow> 'a RingBuffer \<Rightarrow> 'a list \<Rightarrow> bool" where
  "rb_rel n rb q \<longleftrightarrow> 0 < n \<and> n < 2 ^ 63 \<and> length (rb_buffer rb) = n \<and> rb_head rb < n \<and> length q < n \<and>
     rb_tail rb = (rb_head rb + length q) mod n \<and> cyc_slots (rb_buffer rb) (rb_head rb) q"

definition rb_enq :: "'a \<Rightarrow> 'a RingBuffer \<Rightarrow> (bool \<times> 'a RingBuffer) option" where
  "rb_enq x rb = map_option (\<lambda>(r, rb'). (is_ok r, rb')) (RingBuffer_try_push x rb)"

lemma next_tail_full_iff:
  fixes h l n :: nat
  assumes "h < n" and "l < n"
  shows "((h + l) mod n + 1) mod n = h \<longleftrightarrow> n - 1 \<le> l"
proof -
  have "((h + l) mod n + 1) mod n = (h + Suc l) mod n" by (simp add: mod_simps)
  moreover have "(h + Suc l) mod n = h" if "l = n - 1" using that assms by simp
  moreover have "(h + Suc l) mod n \<noteq> h" if "Suc l < n"
  proof
    assume "(h + Suc l) mod n = h"
    then have "(h + Suc l) mod n = (h + 0) mod n" using assms(1) by simp
    from mod_add_inj [OF this that] that show False by simp
  qed
  ultimately show ?thesis using assms(2) by (cases "l = n - 1") (auto simp del: add_Suc_right)
qed

lemma rb_new_rel: "0 < n \<Longrightarrow> n < 2 ^ 63 \<Longrightarrow> rb_rel n (RingBuffer_new n) []"
  by (simp add: rb_rel_def RingBuffer_new_def)

lemma rb_tail_exact: "rb_rel n rb q \<Longrightarrow> usize_add (rb_tail rb) 1 = rb_tail rb + 1 \<and> rb_tail rb < n"
  using mod_less_divisor [of n "rb_head rb + length q"] by (simp add: rb_rel_def no_wrap del: mod_less_divisor)

lemma rb_head_exact: "rb_rel n rb q \<Longrightarrow> usize_add (rb_head rb) 1 = rb_head rb + 1"
  by (simp add: rb_rel_def no_wrap)

lemma rb_full_iff:
  "rb_rel n rb q \<Longrightarrow> usize_add (rb_tail rb) 1 mod n = rb_head rb \<longleftrightarrow> n - 1 \<le> length q"
  using rb_tail_exact [of n rb q] next_tail_full_iff [of "rb_head rb" n "length q"] by (auto simp: rb_rel_def)

lemma rb_empty_iff:
  assumes "rb_rel n rb q"
  shows "rb_head rb = rb_tail rb \<longleftrightarrow> q = []"
proof
  assume "rb_head rb = rb_tail rb"
  then have "(rb_head rb + length q) mod n = (rb_head rb + 0) mod n"
    using assms by (simp add: rb_rel_def)
  from mod_add_inj [OF this] assms show "q = []" by (simp add: rb_rel_def)
qed (use assms in \<open>simp add: rb_rel_def\<close>)

text \<open>The two writes of a push and of a pop, each pair taken as one.\<close>

lemma rb_rel_push:
  assumes "rb_rel n rb q" and "length q < n - 1"
  shows "rb_rel n (rb\<lparr>rb_buffer := (rb_buffer rb)[rb_tail rb := Some x],
    rb_tail := usize_add (rb_tail rb) 1 mod n\<rparr>) (q @ [x])"
  using assms cyc_push [of "rb_buffer rb" "rb_head rb" q x] rb_tail_exact [OF assms(1)]
  by (simp add: rb_rel_def mod_simps)

lemma rb_rel_pop:
  assumes "rb_rel n rb (x # q)"
  shows "rb_rel n (rb\<lparr>rb_buffer := (rb_buffer rb)[rb_head rb := None],
    rb_head := usize_add (rb_head rb) 1 mod n\<rparr>) q"
  using assms cyc_pop [of "rb_buffer rb" "rb_head rb" x q None] rb_head_exact [OF assms]
  by (simp add: rb_rel_def mod_simps)

interpretation ring: fifo_impl "rb_rel n" "\<lambda>l. n - 1 \<le> l" rb_enq RingBuffer_try_pop for n
proof unfold_locales
  fix rb :: "'a RingBuffer" and q :: "'a list" and x :: 'a
  assume rel: "rb_rel n rb q"
  have pos: "length (rb_buffer rb) = n" "n \<noteq> 0" "rb_tail rb < n" using rel rb_tail_exact [OF rel] by (auto simp: rb_rel_def)
  { assume "n - 1 \<le> length q"
    then have "RingBuffer_try_push x rb = Some (Err x, rb)"
      using rb_full_iff [OF rel] pos by (simp add: RingBuffer_try_push_def Let_def)
    then show "\<exists>s'. rb_enq x rb = Some (False, s') \<and> rb_rel n s' q" using rel by (simp add: rb_enq_def) }
  { assume room: "\<not> n - 1 \<le> length q"
    then have "RingBuffer_try_push x rb = Some (Ok (), rb\<lparr>rb_buffer := (rb_buffer rb)[rb_tail rb := Some x],
        rb_tail := usize_add (rb_tail rb) 1 mod n\<rparr>)"
      using rb_full_iff [OF rel] pos by (simp add: RingBuffer_try_push_def Let_def)
    then show "\<exists>s'. rb_enq x rb = Some (True, s') \<and> rb_rel n s' (at_end x q)"
      using rb_rel_push [OF rel, of x] room by (simp add: rb_enq_def at_end_def) }
next
  fix rb :: "'a RingBuffer"
  assume rel: "rb_rel n rb []"
  then show "\<exists>s'. RingBuffer_try_pop rb = Some (None, s') \<and> rb_rel n s' []"
    using rb_empty_iff [OF rel] by (simp add: RingBuffer_try_pop_def)
next
  fix rb :: "'a RingBuffer" and q :: "'a list" and x :: 'a
  assume rel: "rb_rel n rb (x # q)"
  have "rb_head rb < length (rb_buffer rb)" "rb_buffer rb ! rb_head rb = Some x" "length (rb_buffer rb) = n"
    using rel cyc_head [of "rb_buffer rb" "rb_head rb" x q] by (auto simp: rb_rel_def)
  then show "\<exists>s'. RingBuffer_try_pop rb = Some (Some x, s') \<and> rb_rel n s' q"
    using rb_empty_iff [OF rel] rb_rel_pop [OF rel] by (simp add: RingBuffer_try_pop_def Let_def)
qed

lemma rb_len_spec:
  assumes "rb_rel n rb q"
  shows "RingBuffer_len rb = Some (length q)" and "RingBuffer_capacity rb = n - 1"
    and "RingBuffer_is_full rb = Some (length q = n - 1)" and "RingBuffer_is_empty rb \<longleftrightarrow> q = []"
proof -
  have f: "0 < n" "n < 2 ^ 63" "length (rb_buffer rb) = n" "rb_head rb < n" "length q < n"
    and tail: "rb_tail rb = (rb_head rb + length q) mod n" using assms by (auto simp: rb_rel_def)
  have t: "rb_tail rb < n" using rb_tail_exact [OF assms] by simp
  have "usize_sub (usize_add (rb_tail rb) n) (rb_head rb) = rb_tail rb + n - rb_head rb"
    using f t by (simp add: usize_add_exact usize_sub_exact)
  moreover have "(rb_tail rb + n - rb_head rb) mod n = length q"
  proof (cases "rb_head rb + length q < n")
    case True
    with f tail have "rb_tail rb + n - rb_head rb = length q + n" by simp
    then show ?thesis using f by simp
  next
    case False
    then have "rb_tail rb = rb_head rb + length q - n" using f tail by (simp add: mod_if)
    with f False have "rb_tail rb + n - rb_head rb = length q" by simp
    then show ?thesis using f by simp
  qed
  ultimately show "RingBuffer_len rb = Some (length q)" using f by (simp add: RingBuffer_len_def Let_def)
  show "RingBuffer_capacity rb = n - 1" using f by (simp add: RingBuffer_capacity_def usize_sub_exact)
  show "RingBuffer_is_full rb = Some (length q = n - 1)"
    using f rb_full_iff [OF assms] by (auto simp: RingBuffer_is_full_def)
  show "RingBuffer_is_empty rb \<longleftrightarrow> q = []" using rb_empty_iff [OF assms] by (simp add: RingBuffer_is_empty_def)
qed

section \<open>Michael-Scott queue\<close>

text \<open>The nodes from the head to the tail, and the items in all but the first of them.\<close>

definition lq_rel :: "'a LockFreeQueue \<Rightarrow> 'a list \<Rightarrow> bool" where
  "lq_rel q xs \<longleftrightarrow> (\<exists>ns. length ns = Suc (length xs) \<and> distinct ns \<and> 0 \<notin> set ns \<and> dom (lq_heap q) = set ns \<and>
     lq_head q = hd ns \<and> lq_tail q = last ns \<and> lq_len q = length xs mod USIZE_MOD \<and>
     (\<forall>i < length ns. lq_heap q (ns ! i) =
        Some \<lparr>node_data = (if i = 0 then None else Some (xs ! (i - 1))), node_next = (ns @ [0]) ! Suc i\<rparr>))"

lemma alloc_okD: "alloc_ok alloc \<Longrightarrow> finite (dom h) \<Longrightarrow> alloc h \<noteq> 0 \<and> h (alloc h) = None"
  by (simp add: alloc_ok_def)

lemma lq_run_step:
  "\<not> lq_final pc \<Longrightarrow> lq_run alloc pc q =
     (case lq_step alloc pc q of None \<Rightarrow> None | Some (pc', q') \<Rightarrow> lq_run alloc pc' q')"
  by (subst lq_run.simps) (auto split: option.splits)

lemma lq_run_final: "lq_final pc \<Longrightarrow> lq_run alloc pc q = Some (pc, q)"
  by (subst lq_run.simps) simp

lemma lq_new_rel: "alloc_ok alloc \<Longrightarrow> lq_rel (LockFreeQueue_new alloc) []"
  using alloc_okD [of alloc Map.empty]
  by (auto simp: lq_rel_def LockFreeQueue_new_def Let_def Node_sentinel_def intro!: exI [of _ "[alloc Map.empty]"])

lemma lq_push_rel:
  assumes "alloc_ok alloc" and "lq_rel q xs"
  shows "\<exists>q'. lq_push alloc x q = Some q' \<and> lq_rel q' (xs @ [x])"
proof -
  obtain ns where ns: "length ns = Suc (length xs)" "distinct ns" "0 \<notin> set ns" "dom (lq_heap q) = set ns"
    "lq_head q = hd ns" "lq_tail q = last ns" "lq_len q = length xs mod USIZE_MOD"
    and nodes: "\<And>i. i < length ns \<Longrightarrow> lq_heap q (ns ! i) =
        Some \<lparr>node_data = (if i = 0 then None else Some (xs ! (i - 1))), node_next = (ns @ [0]) ! Suc i\<rparr>"
    using assms(2) by (auto simp: lq_rel_def)
  let ?a = "alloc (lq_heap q)"
  have a: "?a \<noteq> 0" "?a \<notin> set ns" using alloc_okD [OF assms(1), of "lq_heap q"] ns(4) by auto
  have l: "last ns = ns ! length xs" "ns \<noteq> []" using ns(1) last_conv_nth [of ns] by (cases ns; simp)+
  let ?t = "\<lparr>node_data = (if length xs = 0 then None else Some (xs ! (length xs - 1))), node_next = 0\<rparr>"
  have t: "lq_heap q (last ns) = Some ?t" using nodes [of "length xs"] ns(1) by (simp add: l nth_append)
  have "last ns \<noteq> ?a" using a(2) l(2) by (metis last_in_set)
  let ?h = "(lq_heap q)(?a \<mapsto> Node_new x, last ns \<mapsto> ?t\<lparr>node_next := ?a\<rparr>)"
  let ?q = "\<lparr>lq_heap = ?h, lq_head = lq_head q, lq_tail = ?a, lq_len = usize_add (lq_len q) 1\<rparr>"
  have "lq_push alloc x q = Some ?q"
    using t \<open>last ns \<noteq> ?a\<close> ns(6) by (cases q) (simp add: lq_push_def lq_run_step lq_run_final Let_def)
  moreover have "lq_rel ?q (xs @ [x])"
    unfolding lq_rel_def
  proof (intro exI [of _ "ns @ [?a]"] conjI allI impI)
    fix i assume "i < length (ns @ [?a])"
    then consider "i < length xs" | "i = length xs" | "i = length ns" using ns(1) by fastforce
    then show "lq_heap ?q ((ns @ [?a]) ! i) = Some \<lparr>node_data = (if i = 0 then None else Some ((xs @ [x]) ! (i - 1))),
        node_next = ((ns @ [?a]) @ [0]) ! Suc i\<rparr>"
    proof cases
      case 1
      then have "ns ! i \<noteq> ?a" "ns ! i \<noteq> last ns" "i < length ns" "Suc i < length ns"
        using a(2) ns(1,2) l(1) by (auto simp: nth_eq_iff_index_eq) (metis less_SucI nth_mem)
      with 1 nodes [of i] show ?thesis by (auto simp: nth_append)
    next
      case 2
      then show ?thesis using ns(1) l by (auto simp: nth_append)
    next
      case 3
      then show ?thesis using ns(1) \<open>last ns \<noteq> ?a\<close> by (auto simp: nth_append Node_new_def)
    qed
  qed (use ns a l t in \<open>auto simp: usize_add_def mod_simps\<close>)
  ultimately show ?thesis by blast
qed

lemma lq_pop_empty:
  assumes "lq_rel q []"
  shows "lq_pop alloc q = Some (None, q)"
proof -
  obtain a where "lq_head q = a" "lq_tail q = a" "lq_heap q a = Some \<lparr>node_data = None, node_next = 0\<rparr>"
    using assms by (auto simp: lq_rel_def length_Suc_conv)
  then show ?thesis by (simp add: lq_pop_def lq_run_step lq_run_final)
qed

lemma lq_pop_rel:
  assumes "lq_rel q (x # xs)"
  shows "\<exists>q'. lq_pop alloc q = Some (Some x, q') \<and> lq_rel q' xs"
proof -
  obtain ns0 where ns0: "length ns0 = Suc (length (x # xs))" "distinct ns0" "0 \<notin> set ns0" "dom (lq_heap q) = set ns0"
    "lq_head q = hd ns0" "lq_tail q = last ns0" "lq_len q = length (x # xs) mod USIZE_MOD"
    and nodes0: "\<forall>i < length ns0. lq_heap q (ns0 ! i) =
        Some \<lparr>node_data = (if i = 0 then None else Some ((x # xs) ! (i - 1))), node_next = (ns0 @ [0]) ! Suc i\<rparr>"
    using assms unfolding lq_rel_def by (elim exE conjE) (rule that)
  obtain a b ns where nsd: "ns0 = a # b # ns" using ns0(1) by (auto simp: length_Suc_conv)
  have ab: "a \<noteq> b" "b \<noteq> 0" "a \<noteq> last (b # ns)" "a \<notin> set ns" "b \<notin> set ns"
    using ns0(2,3) nsd by (auto split: if_splits)
  have ha: "lq_heap q a = Some \<lparr>node_data = None, node_next = b\<rparr>"
    using nodes0 [rule_format, of 0] nsd by simp
  have hb: "lq_heap q b = Some \<lparr>node_data = Some x, node_next = (ns @ [0]) ! 0\<rparr>"
    using nodes0 [rule_format, of 1] nsd by simp
  let ?h = "(lq_heap q)(a := None, b \<mapsto> \<lparr>node_data = None, node_next = (ns @ [0]) ! 0\<rparr>)"
  let ?q = "\<lparr>lq_heap = ?h, lq_head = b, lq_tail = lq_tail q, lq_len = usize_sub (lq_len q) 1\<rparr>"
  have "lq_pop alloc q = Some (Some x, ?q)"
    using ns0(5,6) nsd ab ha hb by (cases q) (simp add: lq_pop_def lq_run_step lq_run_final)
  moreover have "lq_rel ?q xs"
    unfolding lq_rel_def
  proof (intro exI [of _ "b # ns"] conjI allI impI)
    fix i assume i: "i < length (b # ns)"
    show "lq_heap ?q ((b # ns) ! i) = Some \<lparr>node_data = (if i = 0 then None else Some (xs ! (i - 1))),
        node_next = ((b # ns) @ [0]) ! Suc i\<rparr>"
    proof (cases i)
      case (Suc j)
      with i ab have "ns ! j \<noteq> a" "ns ! j \<noteq> b" by (auto dest: nth_mem)
      with Suc i nodes0 [rule_format, of "Suc i"] nsd show ?thesis by simp
    qed simp
  next
    show "dom (lq_heap ?q) = set (b # ns)" using ns0(4) nsd ab by auto
  next
    have "(Suc (length xs) mod USIZE_MOD + USIZE_MOD - 1) mod USIZE_MOD = length xs mod USIZE_MOD"
      by (simp add: mod_Suc)
    then show "lq_len ?q = length xs mod USIZE_MOD" using ns0(7) by (simp add: usize_sub_def)
  qed (use ns0 nsd ab in auto)
  ultimately show ?thesis by blast
qed

definition lq_enq :: "'a allocator \<Rightarrow> 'a \<Rightarrow> 'a LockFreeQueue \<Rightarrow> (bool \<times> 'a LockFreeQueue) option" where
  "lq_enq alloc x q = map_option (\<lambda>q'. (True, q')) (lq_push alloc x q)"

text \<open>The queue is never full; its laws hold for every well-behaved allocator.\<close>

definition lq_alloc_rel :: "'a allocator \<Rightarrow> 'a LockFreeQueue \<Rightarrow> 'a list \<Rightarrow> bool" where
  "lq_alloc_rel alloc q xs \<longleftrightarrow> alloc_ok alloc \<and> lq_rel q xs"

interpretation msq: fifo_impl "lq_alloc_rel alloc" "\<lambda>l. False" "lq_enq alloc" "lq_pop alloc" for alloc
proof unfold_locales
  fix q :: "'a LockFreeQueue" and x :: 'a and xs
  show "lq_alloc_rel alloc q xs \<Longrightarrow> \<exists>q'. lq_enq alloc x q = Some (True, q') \<and> lq_alloc_rel alloc q' (at_end x xs)"
    using lq_push_rel [of alloc q xs x] by (auto simp: lq_alloc_rel_def lq_enq_def at_end_def)
  show "lq_alloc_rel alloc q (x # xs) \<Longrightarrow> \<exists>q'. lq_pop alloc q = Some (Some x, q') \<and> lq_alloc_rel alloc q' xs"
    using lq_pop_rel [of q x xs alloc] by (auto simp: lq_alloc_rel_def)
  show "lq_alloc_rel alloc q [] \<Longrightarrow> \<exists>q'. lq_pop alloc q = Some (None, q') \<and> lq_alloc_rel alloc q' []"
    using lq_pop_empty [of q alloc] by (auto simp: lq_alloc_rel_def)
qed simp

section \<open>Treiber stack\<close>

definition st_rel :: "'a allocator \<Rightarrow> 'a LockFreeStack \<Rightarrow> 'a list \<Rightarrow> bool" where
  "st_rel alloc s xs \<longleftrightarrow> alloc_ok alloc \<and> (\<exists>ns. length ns = length xs \<and> distinct ns \<and> 0 \<notin> set ns \<and>
     dom (st_heap s) = set ns \<and> st_top s = (ns @ [0]) ! 0 \<and> st_len s = length xs mod USIZE_MOD \<and>
     (\<forall>i < length ns. st_heap s (ns ! i) = Some \<lparr>node_data = Some (xs ! i), node_next = (ns @ [0]) ! Suc i\<rparr>))"

lemma st_run_step:
  "\<not> st_final pc \<Longrightarrow> st_run alloc pc s =
     (case st_step alloc pc s of None \<Rightarrow> None | Some (pc', s') \<Rightarrow> st_run alloc pc' s')"
  by (subst st_run.simps) (auto split: option.splits)

lemma st_run_final: "st_final pc \<Longrightarrow> st_run alloc pc s = Some (pc, s)"
  by (subst st_run.simps) simp

lemma st_new_rel: "alloc_ok alloc \<Longrightarrow> st_rel alloc LockFreeStack_new []"
  by (simp add: st_rel_def LockFreeStack_new_def)

lemma st_push_rel:
  assumes "st_rel alloc s xs"
  shows "\<exists>s'. st_push alloc x s = Some s' \<and> st_rel alloc s' (x # xs)"
proof -
  obtain ns where ok: "alloc_ok alloc" and ns: "length ns = length xs" "distinct ns" "0 \<notin> set ns"
    "dom (st_heap s) = set ns" "st_top s = (ns @ [0]) ! 0" "st_len s = length xs mod USIZE_MOD"
    and nodes: "\<forall>i < length ns. st_heap s (ns ! i) = Some \<lparr>node_data = Some (xs ! i), node_next = (ns @ [0]) ! Suc i\<rparr>"
    using assms unfolding st_rel_def by (elim exE conjE) (rule that)
  let ?a = "alloc (st_heap s)"
  have a: "?a \<noteq> 0" "?a \<notin> set ns" using alloc_okD [OF ok, of "st_heap s"] ns(4) by auto
  let ?h = "(st_heap s)(?a \<mapsto> \<lparr>node_data = Some x, node_next = st_top s\<rparr>)"
  let ?s = "\<lparr>st_heap = ?h, st_top = ?a, st_len = usize_add (st_len s) 1\<rparr>"
  have "st_push alloc x s = Some ?s"
    by (cases s) (simp add: st_push_def st_run_step st_run_final Let_def Node_new_def)
  moreover have "st_rel alloc ?s (x # xs)"
    unfolding st_rel_def
  proof (intro conjI exI [of _ "?a # ns"] allI impI)
    fix i assume i: "i < length (?a # ns)"
    show "st_heap ?s ((?a # ns) ! i) = Some \<lparr>node_data = Some ((x # xs) ! i), node_next = ((?a # ns) @ [0]) ! Suc i\<rparr>"
    proof (cases i)
      case (Suc j)
      with i a(2) have "ns ! j \<noteq> ?a" "j < length ns" by (auto dest: nth_mem)
      with Suc nodes show ?thesis by simp
    qed (simp add: ns(5))
  qed (use ok ns a in \<open>auto simp: usize_add_def mod_simps\<close>)
  ultimately show ?thesis by blast
qed

lemma st_pop_rel:
  assumes "st_rel alloc s (x # xs)"
  shows "\<exists>s'. st_pop alloc s = Some (Some x, s') \<and> st_rel alloc s' xs"
proof -
  obtain ns0 where ok: "alloc_ok alloc" and ns0: "length ns0 = length (x # xs)" "distinct ns0" "0 \<notin> set ns0"
    "dom (st_heap s) = set ns0" "st_top s = (ns0 @ [0]) ! 0" "st_len s = length (x # xs) mod USIZE_MOD"
    and nodes: "\<forall>i < length ns0. st_heap s (ns0 ! i) =
      Some \<lparr>node_data = Some ((x # xs) ! i), node_next = (ns0 @ [0]) ! Suc i\<rparr>"
    using assms unfolding st_rel_def by (elim exE conjE) (rule that)
  obtain a ns where nsd: "ns0 = a # ns" using ns0(1) by (cases ns0) auto
  have ha: "st_heap s a = Some \<lparr>node_data = Some x, node_next = (ns @ [0]) ! 0\<rparr>"
    using nodes [rule_format, of 0] nsd by simp
  have a: "a \<noteq> 0" "st_top s = a" "a \<notin> set ns" using ns0(2,3,5) nsd by auto
  let ?s = "\<lparr>st_heap = (st_heap s)(a := None), st_top = (ns @ [0]) ! 0, st_len = usize_sub (st_len s) 1\<rparr>"
  have "st_pop alloc s = Some (Some x, ?s)"
    using a ha by (cases s) (simp add: st_pop_def st_run_step st_run_final)
  moreover have "st_rel alloc ?s xs"
    unfolding st_rel_def
  proof (intro conjI exI [of _ ns] allI impI)
    fix i assume i: "i < length ns"
    with a(3) have "ns ! i \<noteq> a" by (auto dest: nth_mem)
    with i nodes [rule_format, of "Suc i"] nsd
    show "st_heap ?s (ns ! i) = Some \<lparr>node_data = Some (xs ! i), node_next = (ns @ [0]) ! Suc i\<rparr>" by simp
  next
    have "(Suc (length xs) mod USIZE_MOD + USIZE_MOD - 1) mod USIZE_MOD = length xs mod USIZE_MOD"
      by (simp add: mod_Suc)
    then show "st_len ?s = length xs mod USIZE_MOD" using ns0(6) by (simp add: usize_sub_def)
  qed (use ok ns0 nsd a in auto)
  ultimately show ?thesis by blast
qed

definition st_enq :: "'a allocator \<Rightarrow> 'a \<Rightarrow> 'a LockFreeStack \<Rightarrow> (bool \<times> 'a LockFreeStack) option" where
  "st_enq alloc x s = map_option (\<lambda>s'. (True, s')) (st_push alloc x s)"

interpretation treiber: container_impl "st_rel alloc" "(#)" "\<lambda>l. False" "st_enq alloc" "st_pop alloc" for alloc
proof unfold_locales
  fix s :: "'a LockFreeStack" and x :: 'a and xs
  show "st_rel alloc s xs \<Longrightarrow> \<exists>s'. st_enq alloc x s = Some (True, s') \<and> st_rel alloc s' (x # xs)"
    using st_push_rel [of alloc s xs x] by (auto simp: st_enq_def)
  show "st_rel alloc s (x # xs) \<Longrightarrow> \<exists>s'. st_pop alloc s = Some (Some x, s') \<and> st_rel alloc s' xs"
    by (rule st_pop_rel)
  show "st_rel alloc s [] \<Longrightarrow> \<exists>s'. st_pop alloc s = Some (None, s') \<and> st_rel alloc s' []"
    by (rule exI [of _ s]) (simp add: st_pop_def st_run_step st_run_final st_rel_def)
qed simp

section \<open>The properties\<close>

text \<open>
  The ring buffer refines a bounded queue: for every number n of slots a buffer can have
  and every sequence of calls on a new buffer, all calls return and answer exactly as a list
  with room for n - 1 items does; the length and fullness queries agree with that list.
\<close>

theorem ring_buffer_refines_queue:
  assumes "0 < n" and "n < 2 ^ 63" and "spec_run at_end (\<lambda>l. n - 1 \<le> l) cs [] = (rs, q)"
  shows "\<exists>rb. exec_ops rb_enq RingBuffer_try_pop cs (RingBuffer_new n) = Some (rs, rb) \<and>
    RingBuffer_len rb = Some (length q) \<and> RingBuffer_capacity rb = n - 1 \<and>
    RingBuffer_is_full rb = Some (length q = n - 1) \<and> (RingBuffer_is_empty rb \<longleftrightarrow> q = []) \<and>
    delivered rs @ q = accepted cs rs"
  using ring.exec_refines [OF rb_new_rel [OF assms(1,2)] assms(3)] rb_len_spec spec_run_order [OF assms(3)] by fastforce

theorem ring_buffer_refines_queue_witness:
  "\<exists>rb. exec_ops rb_enq RingBuffer_try_pop [Enqueue 1, Enqueue 2, Enqueue 3, Dequeue, Dequeue, Dequeue] (RingBuffer_new 3) =
     Some ([Accepted, Accepted, Rejected, Delivered (Some (1::nat)), Delivered (Some 2), Delivered None], rb) \<and>
     RingBuffer_len rb = Some 0"
  using ring_buffer_refines_queue [of 3 "[Enqueue 1, Enqueue 2, Enqueue 3, Dequeue, Dequeue, Dequeue]"
      "[Accepted, Accepted, Rejected, Delivered (Some (1::nat)), Delivered (Some 2), Delivered None]" "[]"]
  by (auto simp: at_end_def)

text \<open>
  C35. The linked structures, used by one thread at a time and with any allocator that
  returns unused non-null addresses: every sequence of calls on a new Michael-Scott queue
  is answered as by an unbounded queue, and every sequence of calls on a new Treiber stack
  as by a stack. In particular no call loops for ever or touches a freed node.
\<close>

theorem linked_structures_refine:
  assumes "alloc_ok alloc"
  shows "(\<exists>q. exec_ops (lq_enq alloc) (lq_pop alloc) cs (LockFreeQueue_new alloc) =
      Some (fst (spec_run at_end (\<lambda>l. False) cs []), q)) \<and>
    (\<exists>s. exec_ops (st_enq alloc) (st_pop alloc) cs LockFreeStack_new =
      Some (fst (spec_run (#) (\<lambda>l. False) cs []), s))"
proof
  have "lq_alloc_rel alloc (LockFreeQueue_new alloc) []"
    using lq_new_rel [OF assms] assms by (simp add: lq_alloc_rel_def)
  from msq.exec_refines [OF this prod.collapse [symmetric], of cs]
  show "\<exists>q. exec_ops (lq_enq alloc) (lq_pop alloc) cs (LockFreeQueue_new alloc) =
      Some (fst (spec_run at_end (\<lambda>l. False) cs []), q)" by auto
  from treiber.exec_refines [OF st_new_rel [OF assms] prod.collapse [symmetric], of cs]
  show "\<exists>s. exec_ops (st_enq alloc) (st_pop alloc) cs LockFreeStack_new =
      Some (fst (spec_run (#) (\<lambda>l. False) cs []), s)" by auto
qed

text \<open>An allocator that takes the lowest unused address.\<close>

definition lowest_free :: "'a allocator" where
  "lowest_free h = (LEAST a. a \<noteq> 0 \<and> h a = None)"

lemma lowest_free_ok: "alloc_ok lowest_free"
  unfolding alloc_ok_def
proof (intro allI impI)
  fix h :: "'a heap" assume "finite (dom h)"
  then have "\<exists>a. a \<notin> insert 0 (dom h)" by (metis ex_new_if_finite finite_insert infinite_UNIV_nat)
  then have "\<exists>a. a \<noteq> 0 \<and> h a = None" by auto
  then show "lowest_free h \<noteq> 0 \<and> h (lowest_free h) = None"
    unfolding lowest_free_def by (rule LeastI_ex)
qed

theorem linked_structures_refine_witness:
  "(\<exists>q. exec_ops (lq_enq lowest_free) (lq_pop lowest_free) [Enqueue 1, Enqueue 2, Dequeue] (LockFreeQueue_new lowest_free) =
      Some ([Accepted, Accepted, Delivered (Some (1::nat))], q)) \<and>
   (\<exists>s. exec_ops (st_enq lowest_free) (st_pop lowest_free) [Enqueue 1, Enqueue 2, Dequeue] LockFreeStack_new =
      Some ([Accepted, Accepted, Delivered (Some (2::nat))], s))"
  using linked_structures_refine [OF lowest_free_ok, of "[Enqueue (1::nat), Enqueue 2, Dequeue]"]
  by (simp add: at_end_def)

text \<open>The counter: the values it takes since it was created or its statistics were reset.\<close>

datatype counter_op = CtrAdd u64 | CtrSub u64 | CtrSet u64 | CtrReset

fun ctr_exec :: "counter_op list \<Rightarrow> AtomicCounter \<times> u64 list \<Rightarrow> AtomicCounter \<times> u64 list" where
  "ctr_exec [] ch = ch"
| "ctr_exec (CtrAdd v # cs) (c, h) = (case ctr_add v c of (r, c') \<Rightarrow> ctr_exec cs (c', r # h))"
| "ctr_exec (CtrSub v # cs) (c, h) = (case ctr_sub v c of (r, c') \<Rightarrow> ctr_exec cs (c', r # h))"
| "ctr_exec (CtrSet v # cs) (c, h) = ctr_exec cs (ctr_set v c, v # h)"
| "ctr_exec (CtrReset # cs) (c, h) = ctr_exec cs (ctr_reset_stats c, [ctr_value c])"

lemma ctr_exec_history:
  assumes "h \<noteq> []" and "ctr_value c = hd h" and "ctr_peak_value c = Max (set h)"
  shows "case ctr_exec cs (c, h) of (c', h') \<Rightarrow> h' \<noteq> [] \<and> ctr_value c' = hd h' \<and> ctr_peak_value c' = Max (set h')"
  using assms
proof (induction cs "(c, h)" arbitrary: c h rule: ctr_exec.induct)
  case (3 v cs c h)
  have le: "ctr_value c \<le> Max (set h)" using 3 by simp
  have "(if v \<le> ctr_value c then ctr_value c - v else 0) \<le> ctr_value c"
    by (simp add: word_le_nat_alt unat_sub)
  with le have "max (if v \<le> ctr_value c then ctr_value c - v else 0) (Max (set h)) = Max (set h)"
    by (meson max.absorb2 order_trans)
  with 3 show ?case by (simp add: ctr_sub_def Let_def Max_insert)
qed (auto simp: ctr_add_def ctr_set_def ctr_reset_stats_def ctr_update_peak_def Let_def Max_insert max_def)

text \<open>
  The counter's peak: after every sequence of operations the recorded peak is the
  largest value the counter has had since it was created or reset, so the value never
  exceeds it; this holds even when an addition wraps around.
\<close>

theorem counter_peak:
  "case ctr_exec cs (AtomicCounter_with_value v, [v]) of (c, h) \<Rightarrow>
     ctr_peak_value c = Max (set h) \<and> ctr_value c = hd h \<and> ctr_value c \<le> ctr_peak_value c"
  using ctr_exec_history [of "[v]" "AtomicCounter_with_value v" cs] by (auto simp: AtomicCounter_with_value_def)

end
