(* ===== verification/LockFree_Conc.thy ===== *)
theory LockFree_Conc
  imports LockFree_Correct
begin

text \<open>
  The concurrent meaning of the lock-free structures, as interleavings of their atomic
  steps: one producer and one consumer on the ring buffer, one writer and any number of
  readers on the sequence lock, and two schedules on which the linked structures touch
  memory they have freed.
\<close>

section \<open>Ring buffer with one producer and one consumer\<close>

text \<open>
  The last two fields are history: the items whose push has published them and the items
  whose pop has removed them, in the order in which that happened.
\<close>

record 'a spsc =
  sp_ring :: "'a RingBuffer"
  sp_prod :: "'a rb_pc"
  sp_cons :: "'a rb_pc"
  sp_pushed :: "'a list"
  sp_popped :: "'a list"

fun rb_published :: "'a rb_pc \<Rightarrow> 'a list" where
  "rb_published (RbPushStoreTail x t) = [x]"
| "rb_published _ = []"

fun rb_removed :: "'a rb_pc \<Rightarrow> 'a list" where
  "rb_removed (RbPopStoreHead h (Some x)) = [x]"
| "rb_removed _ = []"

inductive spsc_reachable :: "nat \<Rightarrow> 'a spsc \<Rightarrow> bool" for n where
  init: "spsc_reachable n \<lparr>sp_ring = RingBuffer_new n, sp_prod = RbPushRet (Ok ()), sp_cons = RbPopRet None,
    sp_pushed = [], sp_popped = []\<rparr>"
| push_call: "spsc_reachable n s \<Longrightarrow> sp_prod s = RbPushRet r \<Longrightarrow> spsc_reachable n (s\<lparr>sp_prod := RbPushLoadTail x\<rparr>)"
| push_step: "spsc_reachable n s \<Longrightarrow> rb_step (sp_prod s) (sp_ring s) = Some (pc, rb) \<Longrightarrow>
    spsc_reachable n (s\<lparr>sp_prod := pc, sp_ring := rb, sp_pushed := sp_pushed s @ rb_published (sp_prod s)\<rparr>)"
| pop_call: "spsc_reachable n s \<Longrightarrow> sp_cons s = RbPopRet r \<Longrightarrow> spsc_reachable n (s\<lparr>sp_cons := RbPopLoadHead\<rparr>)"
| pop_step: "spsc_reachable n s \<Longrightarrow> rb_step (sp_cons s) (sp_ring s) = Some (pc, rb) \<Longrightarrow>
    spsc_reachable n (s\<lparr>sp_cons := pc, sp_ring := rb, sp_popped := sp_popped s @ rb_removed (sp_cons s)\<rparr>)"

text \<open>
  The invariant: with the item a pop has taken out but not yet released put back into its
  slot, the buffer is in order for the items in flight.
\<close>

fun untake :: "'a rb_pc \<Rightarrow> 'a RingBuffer \<Rightarrow> 'a RingBuffer" where
  "untake (RbPopStoreHead h r) rb = rb\<lparr>rb_buffer := (rb_buffer rb)[h := r]\<rparr>"
| "untake _ rb = rb"

fun prod_ok :: "nat \<Rightarrow> 'a list \<Rightarrow> 'a RingBuffer \<Rightarrow> 'a rb_pc \<Rightarrow> bool" where
  "prod_ok n q rb (RbPushLoadTail x) = True"
| "prod_ok n q rb (RbPushLoadHead x t) = (t = rb_tail rb)"
| "prod_ok n q rb (RbPushWrite x t t') = (t = rb_tail rb \<and> t' = usize_add t 1 mod n \<and> length q < n - 1)"
| "prod_ok n q rb (RbPushStoreTail x t') =
     (t' = usize_add (rb_tail rb) 1 mod n \<and> length q < n - 1 \<and> rb_buffer rb ! rb_tail rb = Some x)"
| "prod_ok n q rb (RbPushRet r) = True"
| "prod_ok n q rb _ = False"

fun cons_ok :: "'a list \<Rightarrow> 'a RingBuffer \<Rightarrow> 'a rb_pc \<Rightarrow> bool" where
  "cons_ok q rb RbPopLoadHead = True"
| "cons_ok q rb (RbPopLoadTail h) = (h = rb_head rb)"
| "cons_ok q rb (RbPopTake h) = (h = rb_head rb \<and> q \<noteq> [])"
| "cons_ok q rb (RbPopStoreHead h r) = (h = rb_head rb \<and> q \<noteq> [] \<and> r = Some (hd q))"
| "cons_ok q rb (RbPopRet r) = True"
| "cons_ok q rb _ = False"

definition spsc_inv :: "nat \<Rightarrow> 'a spsc \<Rightarrow> 'a list \<Rightarrow> bool" where
  "spsc_inv n s q \<longleftrightarrow> rb_rel n (untake (sp_cons s) (sp_ring s)) q \<and> prod_ok n q (sp_ring s) (sp_prod s) \<and>
     cons_ok q (sp_ring s) (sp_cons s) \<and> sp_pushed s = sp_popped s @ q"

lemma untake_sel [simp]:
  "rb_head (untake pc rb) = rb_head rb" "rb_tail (untake pc rb) = rb_tail rb"
  "length (rb_buffer (untake pc rb)) = length (rb_buffer rb)"
  by (cases pc; simp)+

lemma cyc_update_free:
  assumes "cyc_slots buf h q" and "length q < length buf"
  shows "cyc_slots (buf[(h + length q) mod length buf := v]) h q"
  unfolding cyc_slots_def
proof (intro allI impI)
  fix i assume i: "i < length q"
  then have "(h + length q) mod length buf \<noteq> (h + i) mod length buf"
    using mod_add_inj [of h "length q" "length buf" i] assms(2) by auto
  with i assms(1) show "buf[(h + length q) mod length buf := v] !
    ((h + i) mod length (buf[(h + length q) mod length buf := v])) = Some (q ! i)"
    by (simp add: cyc_slots_def)
qed

lemma cyc_extend:
  "cyc_slots buf h q \<Longrightarrow> buf ! ((h + length q) mod length buf) = Some x \<Longrightarrow> cyc_slots buf h (q @ [x])"
  by (auto simp: cyc_slots_def nth_append less_Suc_eq)

lemma rb_rel_write:
  "rb_rel n rb q \<Longrightarrow> rb_rel n (rb\<lparr>rb_buffer := (rb_buffer rb)[rb_tail rb := v]\<rparr>) q"
  using cyc_update_free [of "rb_buffer rb" "rb_head rb" q v] by (simp add: rb_rel_def)

lemma rb_rel_publish:
  assumes "rb_rel n rb q" and "length q < n - 1" and "rb_buffer rb ! rb_tail rb = Some x"
  shows "rb_rel n (rb\<lparr>rb_tail := usize_add (rb_tail rb) 1 mod n\<rparr>) (q @ [x])"
  using assms cyc_extend [of "rb_buffer rb" "rb_head rb" q x] rb_tail_exact [OF assms(1)]
  by (simp add: rb_rel_def mod_simps)

lemma rb_rel_release:
  assumes "rb_rel n (rb\<lparr>rb_buffer := (rb_buffer rb)[rb_head rb := Some x]\<rparr>) (x # q)"
  shows "rb_rel n (rb\<lparr>rb_head := usize_add (rb_head rb) 1 mod n\<rparr>) q"
proof -
  have buf: "rb_buffer rb = (rb_buffer rb)[rb_head rb := Some x, rb_head rb := rb_buffer rb ! rb_head rb]" by simp
  have "cyc_slots (rb_buffer rb) ((rb_head rb + 1) mod n) q"
    using cyc_pop [of "(rb_buffer rb)[rb_head rb := Some x]" "rb_head rb" x q "rb_buffer rb ! rb_head rb"] assms
    by (simp add: rb_rel_def)
  moreover have "usize_add (rb_head rb) 1 = rb_head rb + 1" using rb_head_exact [OF assms] by simp
  ultimately show ?thesis using assms by (simp add: rb_rel_def mod_simps)
qed

lemma spsc_push_step:
  assumes inv: "spsc_inv n s q" and step: "rb_step (sp_prod s) (sp_ring s) = Some (pc, rb)"
  shows "spsc_inv n (s\<lparr>sp_prod := pc, sp_ring := rb, sp_pushed := sp_pushed s @ rb_published (sp_prod s)\<rparr>)
    (q @ rb_published (sp_prod s))"
proof -
  let ?rb = "sp_ring s"
  have rel: "rb_rel n (untake (sp_cons s) ?rb) q" and prod: "prod_ok n q ?rb (sp_prod s)"
    and cons: "cons_ok q ?rb (sp_cons s)" and hist: "sp_pushed s = sp_popped s @ q"
    using inv by (auto simp: spsc_inv_def)
  have n: "length (rb_buffer ?rb) = n" "0 < n" "rb_tail ?rb < n"
    using rel rb_tail_exact [OF rel] by (auto simp: rb_rel_def)
  have full: "usize_add (rb_tail ?rb) 1 mod n = rb_head ?rb \<longleftrightarrow> n - 1 \<le> length q"
    using rb_full_iff [OF rel] by simp
  have apart: "rb_head ?rb \<noteq> rb_tail ?rb" if "q \<noteq> []" using rb_empty_iff [OF rel] that by simp
  show ?thesis
  proof (cases "sp_prod s")
    case (RbPushLoadTail x)
    then show ?thesis using inv step by (auto simp: spsc_inv_def)
  next
    case (RbPushLoadHead x t)
    then show ?thesis using inv step n prod full by (auto simp: spsc_inv_def Let_def split: if_splits)
  next
    case (RbPushWrite x t t')
    then have eqs: "t = rb_tail ?rb" "t' = usize_add (rb_tail ?rb) 1 mod n" "length q < n - 1" using prod by auto
    have rb: "rb = ?rb\<lparr>rb_buffer := (rb_buffer ?rb)[rb_tail ?rb := Some x]\<rparr>" "pc = RbPushStoreTail x t'"
      using step RbPushWrite eqs n by auto
    have "untake (sp_cons s) rb = (untake (sp_cons s) ?rb)\<lparr>rb_buffer :=
        (rb_buffer (untake (sp_cons s) ?rb))[rb_tail (untake (sp_cons s) ?rb) := Some x]\<rparr>"
      using cons apart by (cases "sp_cons s") (auto simp: rb list_update_swap)
    then have "rb_rel n (untake (sp_cons s) rb) q" using rb_rel_write [OF rel, of "Some x"] by simp
    moreover have "cons_ok q rb (sp_cons s)" using cons by (cases "sp_cons s") (auto simp: rb)
    ultimately show ?thesis using RbPushWrite eqs n hist by (simp add: spsc_inv_def rb)
  next
    case (RbPushStoreTail x t')
    then have eqs: "t' = usize_add (rb_tail ?rb) 1 mod n" "length q < n - 1" "rb_buffer ?rb ! rb_tail ?rb = Some x"
      using prod by auto
    have rb: "rb = ?rb\<lparr>rb_tail := t'\<rparr>" "pc = RbPushRet (Ok ())" using step RbPushStoreTail by auto
    have "rb_buffer (untake (sp_cons s) ?rb) ! rb_tail ?rb = Some x"
      using cons apart eqs(3) by (cases "sp_cons s") auto
    from rb_rel_publish [OF rel eqs(2)] this
    have "rb_rel n ((untake (sp_cons s) ?rb)\<lparr>rb_tail := t'\<rparr>) (q @ [x])" by (simp add: eqs(1))
    moreover have "untake (sp_cons s) rb = (untake (sp_cons s) ?rb)\<lparr>rb_tail := t'\<rparr>"
      by (cases "sp_cons s") (auto simp: rb)
    moreover have "cons_ok (q @ [x]) rb (sp_cons s)" using cons by (cases "sp_cons s") (auto simp: rb)
    ultimately show ?thesis using RbPushStoreTail hist by (simp add: spsc_inv_def rb)
  next
    case (RbPushRet r)
    then have "pc = RbPushRet r" "rb = ?rb" using step by auto
    then show ?thesis using inv RbPushRet by (simp add: spsc_inv_def)
  qed (use prod in auto)
qed

lemma prod_ok_shorter:
  "prod_ok n (x # q) rb pc \<Longrightarrow> rb_tail rb' = rb_tail rb \<Longrightarrow> rb_buffer rb' = rb_buffer rb \<Longrightarrow> prod_ok n q rb' pc"
  by (cases pc) auto

lemma spsc_pop_step:
  assumes inv: "spsc_inv n s q" and step: "rb_step (sp_cons s) (sp_ring s) = Some (pc, rb)"
  shows "\<exists>q'. q = rb_removed (sp_cons s) @ q' \<and>
    spsc_inv n (s\<lparr>sp_cons := pc, sp_ring := rb, sp_popped := sp_popped s @ rb_removed (sp_cons s)\<rparr>) q'"
proof -
  let ?rb = "sp_ring s"
  have rel: "rb_rel n (untake (sp_cons s) ?rb) q" and prod: "prod_ok n q ?rb (sp_prod s)"
    and cons: "cons_ok q ?rb (sp_cons s)" and hist: "sp_pushed s = sp_popped s @ q"
    using inv by (auto simp: spsc_inv_def)
  have n: "length (rb_buffer ?rb) = n" "rb_head ?rb < n" using rel by (auto simp: rb_rel_def)
  have empty: "rb_head ?rb = rb_tail ?rb \<longleftrightarrow> q = []" using rb_empty_iff [OF rel] by simp
  show ?thesis
  proof (cases "sp_cons s")
    case RbPopLoadHead
    then show ?thesis using inv step by (auto simp: spsc_inv_def)
  next
    case (RbPopLoadTail h)
    then show ?thesis using inv step cons empty by (auto simp: spsc_inv_def split: if_splits)
  next
    case (RbPopTake h)
    then have h: "h = rb_head ?rb" "q \<noteq> []" using cons by auto
    have item: "rb_buffer ?rb ! h = Some (hd q)"
      using rel h n cyc_head [of "rb_buffer ?rb" "rb_head ?rb" "hd q" "tl q"] RbPopTake by (simp add: rb_rel_def)
    have rb: "rb = ?rb\<lparr>rb_buffer := (rb_buffer ?rb)[h := None]\<rparr>" "pc = RbPopStoreHead h (Some (hd q))"
      using step RbPopTake h n item by auto
    have "(rb_buffer ?rb)[h := Some (hd q)] = rb_buffer ?rb" using item by (metis list_update_id)
    then have "untake pc rb = ?rb" by (simp add: rb)
    moreover have "prod_ok n q rb (sp_prod s)"
      using prod h empty by (cases "sp_prod s") (auto simp: rb)
    ultimately show ?thesis using RbPopTake rel h hist by (simp add: spsc_inv_def rb)
  next
    case (RbPopStoreHead h r)
    then obtain x q' where h: "h = rb_head ?rb" "q = x # q'" "r = Some x" using cons by (cases q) auto
    have rb: "rb = ?rb\<lparr>rb_head := usize_add h 1 mod n\<rparr>" "pc = RbPopRet r" using step RbPopStoreHead n by auto
    have "rb_rel n rb q'" using rb_rel_release [of n ?rb x q'] rel RbPopStoreHead h by (simp add: rb)
    moreover have "prod_ok n q' rb (sp_prod s)" using prod_ok_shorter prod h(2) by (fastforce simp: rb)
    ultimately show ?thesis using RbPopStoreHead h hist by (simp add: spsc_inv_def rb)
  next
    case (RbPopRet r)
    then have "pc = RbPopRet r" "rb = ?rb" using step by auto
    then show ?thesis using inv RbPopRet by (simp add: spsc_inv_def)
  qed (use cons in auto)
qed

lemma spsc_reachable_inv:
  assumes "spsc_reachable n s" and "0 < n" and "n < 2 ^ 63"
  shows "\<exists>q. spsc_inv n s q"
  using assms(1)
proof (induction rule: spsc_reachable.induct)
  case init
  show ?case using rb_new_rel [OF assms(2,3)] by (intro exI [of _ "[]"]) (simp add: spsc_inv_def)
next
  case (push_call s r x)
  then show ?case by (auto simp: spsc_inv_def)
next
  case (push_step s pc rb)
  then show ?case using spsc_push_step by blast
next
  case (pop_call s r)
  then show ?case by (auto simp: spsc_inv_def)
next
  case (pop_step s pc rb)
  then show ?case using spsc_pop_step by blast
qed

section \<open>Sequence lock with one writer\<close>

text \<open>The history holds the initial value and every value whose write has completed.\<close>

record 'a seq_sys =
  ss_lock :: "'a SeqLock"
  ss_writer :: "'a sl_pc"
  ss_readers :: "nat \<Rightarrow> 'a sl_pc"
  ss_hist :: "'a list list"

fun sl_completed :: "'a sl_pc \<Rightarrow> 'a list list" where
  "sl_completed (SlWriteDone d) = [d]"
| "sl_completed _ = []"

inductive seq_reachable :: "'a seq_sys \<Rightarrow> bool" where
  init: "seq_reachable \<lparr>ss_lock = SeqLock_new d, ss_writer = SlWriteRet, ss_readers = (\<lambda>i. SlReadRet None), ss_hist = [d]\<rparr>"
| write_call: "seq_reachable s \<Longrightarrow> ss_writer s = SlWriteRet \<Longrightarrow> length d = length (sl_data (ss_lock s)) \<Longrightarrow>
    seq_reachable (s\<lparr>ss_writer := SlWriteLoad d\<rparr>)"
| write_step: "seq_reachable s \<Longrightarrow> sl_step (ss_writer s) (ss_lock s) = (pc, l) \<Longrightarrow>
    seq_reachable (s\<lparr>ss_writer := pc, ss_lock := l, ss_hist := ss_hist s @ sl_completed (ss_writer s)\<rparr>)"
| read_call: "seq_reachable s \<Longrightarrow> ss_readers s i = SlReadRet r \<Longrightarrow>
    seq_reachable (s\<lparr>ss_readers := (ss_readers s)(i := SlReadLoad retry)\<rparr>)"
| read_step: "seq_reachable s \<Longrightarrow> sl_step (ss_readers s i) (ss_lock s) = (pc, l) \<Longrightarrow>
    seq_reachable (s\<lparr>ss_readers := (ss_readers s)(i := pc), ss_lock := l\<rparr>)"

fun writing :: "'a sl_pc \<Rightarrow> bool" where
  "writing (SlWriteData d i) = True"
| "writing (SlWriteDone d) = True"
| "writing _ = False"

fun writer_ok :: "'a list list \<Rightarrow> 'a SeqLock \<Rightarrow> 'a sl_pc \<Rightarrow> bool" where
  "writer_ok hist l (SlWriteLoad d) = (sl_data l = last hist \<and> length d = length (sl_data l))"
| "writer_ok hist l (SlWriteCas d q) = (sl_data l = last hist \<and> length d = length (sl_data l) \<and> q = sl_sequence l)"
| "writer_ok hist l (SlWriteData d i) =
     (length d = length (sl_data l) \<and> i \<le> length d \<and> take i (sl_data l) = take i d)"
| "writer_ok hist l (SlWriteDone d) = (sl_data l = d)"
| "writer_ok hist l SlWriteRet = (sl_data l = last hist)"
| "writer_ok hist l _ = False"

fun reader_ok :: "'a list list \<Rightarrow> 'a SeqLock \<Rightarrow> 'a sl_pc \<Rightarrow> bool" where
  "reader_ok hist l (SlReadLoad b) = True"
| "reader_ok hist l (SlReadData b q d) = (even q \<and> q \<le> sl_sequence l \<and>
     (q = sl_sequence l \<longrightarrow> length d \<le> length (sl_data l) \<and> d = take (length d) (sl_data l)))"
| "reader_ok hist l (SlReadCheck b q d) = (even q \<and> q \<le> sl_sequence l \<and> (q = sl_sequence l \<longrightarrow> d = sl_data l))"
| "reader_ok hist l (SlReadRet r) = (case r of None \<Rightarrow> True | Some v \<Rightarrow> v \<in> set hist)"
| "reader_ok hist l _ = False"

definition seq_inv :: "'a seq_sys \<Rightarrow> bool" where
  "seq_inv s \<longleftrightarrow> ss_hist s \<noteq> [] \<and>
     sl_sequence (ss_lock s) = 2 * (length (ss_hist s) - 1) + (if writing (ss_writer s) then 1 else 0) \<and>
     writer_ok (ss_hist s) (ss_lock s) (ss_writer s) \<and>
     (\<forall>i. reader_ok (ss_hist s) (ss_lock s) (ss_readers s i))"

text \<open>A reader stays in order when the sequence number moves on or nothing it can see changes.\<close>

lemma reader_ok_later:
  "reader_ok hist l pc \<Longrightarrow> sl_sequence l < sl_sequence l' \<Longrightarrow> set hist \<subseteq> set hist' \<Longrightarrow> reader_ok hist' l' pc"
  by (cases pc) (auto split: option.splits)

lemma reader_ok_odd:
  "reader_ok hist l pc \<Longrightarrow> odd (sl_sequence l) \<Longrightarrow> sl_sequence l' = sl_sequence l \<Longrightarrow> reader_ok hist l' pc"
  by (cases pc) auto

lemma take_update_Suc:
  "i < length xs \<Longrightarrow> length d = length xs \<Longrightarrow> take i xs = take i d \<Longrightarrow> take (Suc i) (xs[i := d ! i]) = take (Suc i) d"
  by (simp add: take_Suc_conv_app_nth)

lemma seq_write_step:
  assumes inv: "seq_inv s" and step: "sl_step (ss_writer s) (ss_lock s) = (pc, l)"
    and few: "length (ss_hist s) < 2 ^ 63"
  shows "seq_inv (s\<lparr>ss_writer := pc, ss_lock := l, ss_hist := ss_hist s @ sl_completed (ss_writer s)\<rparr>)"
proof -
  let ?l = "ss_lock s" and ?h = "ss_hist s"
  have h: "?h \<noteq> []" and seq: "sl_sequence ?l = 2 * (length ?h - 1) + (if writing (ss_writer s) then 1 else 0)"
    and wr: "writer_ok ?h ?l (ss_writer s)" and rd: "\<And>i. reader_ok ?h ?l (ss_readers s i)"
    using inv by (auto simp: seq_inv_def)
  have bound: "usize_add (sl_sequence ?l) 1 = sl_sequence ?l + 1"
    using seq few by (simp add: no_wrap split: if_splits)
  show ?thesis
  proof (cases "ss_writer s")
    case (SlWriteLoad d)
    then show ?thesis using step wr rd seq h by (auto simp: seq_inv_def)
  next
    case (SlWriteCas d q)
    then have q: "q = sl_sequence ?l" "sl_data ?l = last ?h" "length d = length (sl_data ?l)" using wr by auto
    have l: "l = ?l\<lparr>sl_sequence := sl_sequence ?l + 1\<rparr>" "pc = SlWriteData d 0" using step SlWriteCas q bound by auto
    have "\<And>i. reader_ok ?h l (ss_readers s i)" by (rule reader_ok_later [OF rd]) (simp_all add: l)
    with h seq SlWriteCas q show ?thesis by (simp add: seq_inv_def l)
  next
    case (SlWriteData d i)
    then have w: "length d = length (sl_data ?l)" "i \<le> length d" "take i (sl_data ?l) = take i d" using wr by auto
    have odd: "odd (sl_sequence ?l)" using seq SlWriteData by simp
    show ?thesis
    proof (cases "i < length (sl_data ?l)")
      case True
      then have l: "l = ?l\<lparr>sl_data := (sl_data ?l)[i := d ! i]\<rparr>" "pc = SlWriteData d (Suc i)"
        using step SlWriteData by auto
      have "\<And>i. reader_ok ?h l (ss_readers s i)" by (rule reader_ok_odd [OF rd odd]) (simp add: l)
      with h seq SlWriteData w True take_update_Suc [of i "sl_data ?l" d] show ?thesis by (simp add: seq_inv_def l)
    next
      case False
      then have l: "l = ?l" "pc = SlWriteDone d" using step SlWriteData by auto
      have "sl_data ?l = d" using w False by (metis not_less take_all_iff)
      with h seq SlWriteData rd show ?thesis unfolding seq_inv_def l by simp
    qed
  next
    case (SlWriteDone d)
    then have l: "l = ?l\<lparr>sl_sequence := sl_sequence ?l + 1\<rparr>" "pc = SlWriteRet" using step bound by auto
    have "\<And>i. reader_ok (?h @ [d]) l (ss_readers s i)" by (rule reader_ok_later [OF rd]) (auto simp: l)
    moreover have "2 * (length ?h - 1) + 2 = 2 * length ?h" using h by (cases ?h) auto
    ultimately show ?thesis using SlWriteDone wr h seq by (simp add: seq_inv_def l)
  next
    case SlWriteRet
    then have "pc = SlWriteRet" "l = ?l" using step by auto
    then show ?thesis using inv SlWriteRet by (simp add: seq_inv_def)
  qed (use wr in auto)
qed

lemma reader_step_ok:
  assumes "reader_ok hist l pc" and "sl_step pc l = (pc', l')"
    and "even (sl_sequence l) \<Longrightarrow> sl_data l = last hist" and "hist \<noteq> []"
  shows "reader_ok hist l pc' \<and> l' = l"
  using assms by (cases pc) (auto simp: Let_def take_Suc_conv_app_nth split: if_splits)

lemma seq_even_data: "seq_inv s \<Longrightarrow> even (sl_sequence (ss_lock s)) \<Longrightarrow> sl_data (ss_lock s) = last (ss_hist s)"
  by (cases "ss_writer s") (auto simp: seq_inv_def)

lemma seq_reachable_inv: "seq_reachable s \<Longrightarrow> length (ss_hist s) < 2 ^ 63 \<Longrightarrow> seq_inv s"
proof (induction rule: seq_reachable.induct)
  case (init d)
  then show ?case by (simp add: seq_inv_def SeqLock_new_def)
next
  case (write_call s d)
  then show ?case by (auto simp: seq_inv_def)
next
  case (write_step s pc l)
  then show ?case by (intro seq_write_step) auto
next
  case (read_call s i r retry)
  then show ?case by (auto simp: seq_inv_def)
next
  case (read_step s i pc l)
  then have inv: "seq_inv s" by simp
  have "reader_ok (ss_hist s) (ss_lock s) pc \<and> l = ss_lock s"
    by (rule reader_step_ok [OF _ read_step.hyps(2)]) (use inv seq_even_data [OF inv] in \<open>auto simp: seq_inv_def\<close>)
  with inv show ?case by (auto simp: seq_inv_def)
qed

section \<open>The properties\<close>

text \<open>
  C5. The ring buffer between one producer and one consumer, in every interleaving of
  their atomic steps: no step is out of bounds, the items removed followed by the items in
  flight are exactly the items published, in order, never more than n - 1 are in flight, a
  pop always takes an item from its slot, and the calls give up exactly when the
  buffer is full, or empty, at the moment they look.
\<close>

theorem spsc_ring_safe:
  assumes "spsc_reachable n s" and "0 < n" and "n < 2 ^ 63"
  shows "\<exists>q. sp_pushed s = sp_popped s @ q \<and> length q \<le> n - 1 \<and>
    rb_step (sp_prod s) (sp_ring s) \<noteq> None \<and> rb_step (sp_cons s) (sp_ring s) \<noteq> None \<and>
    (\<forall>h. sp_cons s \<noteq> RbPopStoreHead h None) \<and>
    (\<forall>x t. sp_prod s = RbPushLoadHead x t \<longrightarrow>
       (rb_step (sp_prod s) (sp_ring s) = Some (RbPushRet (Err x), sp_ring s)) = (length q = n - 1)) \<and>
    (\<forall>h. sp_cons s = RbPopLoadTail h \<longrightarrow>
       (rb_step (sp_cons s) (sp_ring s) = Some (RbPopRet None, sp_ring s)) = (q = []))"
proof -
  obtain q where inv: "spsc_inv n s q" using spsc_reachable_inv [OF assms] by blast
  have rel: "rb_rel n (untake (sp_cons s) (sp_ring s)) q" and prod: "prod_ok n q (sp_ring s) (sp_prod s)"
    and cons: "cons_ok q (sp_ring s) (sp_cons s)" and hist: "sp_pushed s = sp_popped s @ q"
    using inv by (auto simp: spsc_inv_def)
  have n: "length (rb_buffer (sp_ring s)) = n" "rb_tail (sp_ring s) < n" "rb_head (sp_ring s) < n" "length q < n"
    using rel rb_tail_exact [OF rel] by (auto simp: rb_rel_def)
  have "rb_step (sp_prod s) (sp_ring s) \<noteq> None" using prod n by (cases "sp_prod s") (auto simp: Let_def)
  moreover have "rb_step (sp_cons s) (sp_ring s) \<noteq> None" using cons n by (cases "sp_cons s") auto
  moreover have "\<forall>h. sp_cons s \<noteq> RbPopStoreHead h None" using cons by auto
  moreover have "\<forall>x t. sp_prod s = RbPushLoadHead x t \<longrightarrow>
       (rb_step (sp_prod s) (sp_ring s) = Some (RbPushRet (Err x), sp_ring s)) = (length q = n - 1)"
    using prod n rb_full_iff [OF rel] by (auto simp: Let_def)
  moreover have "\<forall>h. sp_cons s = RbPopLoadTail h \<longrightarrow>
       (rb_step (sp_cons s) (sp_ring s) = Some (RbPopRet None, sp_ring s)) = (q = [])"
    using cons rb_empty_iff [OF rel] by auto
  ultimately show ?thesis using hist n(4) by (intro exI [of _ q]) auto
qed

definition spsc_demo :: "nat spsc" where
  "spsc_demo = \<lparr>sp_ring = RingBuffer_new 4, sp_prod = RbPushLoadTail 7, sp_cons = RbPopRet None,
     sp_pushed = [], sp_popped = []\<rparr>"

lemma spsc_demo_reachable: "spsc_reachable 4 spsc_demo"
  using spsc_reachable.push_call [OF spsc_reachable.init, of 4 "Ok ()" 7] by (simp add: spsc_demo_def)

theorem spsc_ring_safe_witness:
  "rb_step (sp_prod spsc_demo) (sp_ring spsc_demo) \<noteq> None \<and> sp_pushed spsc_demo = sp_popped spsc_demo @ []"
  using spsc_ring_safe [OF spsc_demo_reachable] by (auto simp: spsc_demo_def)


definition seq_demo :: "nat seq_sys" where
  "seq_demo = \<lparr>ss_lock = SeqLock_new [1, 2], ss_writer = SlWriteRet,
     ss_readers = (\<lambda>i. SlReadRet None)(0 := SlReadCheck True 0 [1, 2]), ss_hist = [[1, 2]]\<rparr>"

lemma seq_demo_reachable: "seq_reachable seq_demo"
proof -
  have r0: "seq_reachable \<lparr>ss_lock = SeqLock_new [1, 2], ss_writer = SlWriteRet, ss_readers = (\<lambda>i. SlReadRet None),
      ss_hist = [[1, 2 :: nat]]\<rparr>" (is "seq_reachable ?s") by (rule seq_reachable.init)
  have r1: "seq_reachable (?s\<lparr>ss_readers := (ss_readers ?s)(0 := SlReadLoad True)\<rparr>)" (is "seq_reachable ?s1")
    using seq_reachable.read_call [OF r0, of 0 None True] by simp
  have r2: "seq_reachable (?s\<lparr>ss_readers := (ss_readers ?s)(0 := SlReadData True 0 [])\<rparr>)" (is "seq_reachable ?s2")
    using seq_reachable.read_step [OF r1, of 0] by (simp add: SeqLock_new_def Let_def)
  have r3: "seq_reachable (?s\<lparr>ss_readers := (ss_readers ?s)(0 := SlReadData True 0 [1])\<rparr>)" (is "seq_reachable ?s3")
    using seq_reachable.read_step [OF r2, of 0] by (simp add: SeqLock_new_def)
  have r4: "seq_reachable (?s\<lparr>ss_readers := (ss_readers ?s)(0 := SlReadData True 0 [1, 2])\<rparr>)" (is "seq_reachable ?s4")
    using seq_reachable.read_step [OF r3, of 0] by (simp add: SeqLock_new_def)
  show ?thesis
    using seq_reachable.read_step [OF r4, of 0] by (simp add: SeqLock_new_def seq_demo_def)
qed


text \<open>
  The linked structures are not safe under concurrency, whatever the allocator: on the
  queue, a push that has loaded the tail pointer is overtaken by another push and a pop,
  which frees that node, and then dereferences it; on the stack, a pop that has loaded the
  top pointer is overtaken by another pop of the same node and then dereferences it.
\<close>

theorem linked_structures_use_after_free:
  assumes "alloc_ok alloc"
  shows "lq_interleave alloc ([0, 0] @ replicate 6 1 @ replicate 5 2) [LqPushAlloc x, LqPushAlloc y, LqPopLoadHead]
      (LockFreeQueue_new alloc) \<noteq> None \<and>
    lq_interleave alloc ([0, 0] @ replicate 6 1 @ replicate 5 2 @ [0]) [LqPushAlloc x, LqPushAlloc y, LqPopLoadHead]
      (LockFreeQueue_new alloc) = None \<and>
    st_interleave alloc (replicate 5 0 @ [1] @ replicate 5 2) [StPushAlloc x, StPopLoad, StPopLoad] LockFreeStack_new \<noteq> None \<and>
    st_interleave alloc (replicate 5 0 @ [1] @ replicate 5 2 @ [1]) [StPushAlloc x, StPopLoad, StPopLoad] LockFreeStack_new = None"
proof -
  let ?a = "alloc Map.empty"
  let ?h = "[?a \<mapsto> Node_sentinel]"
  let ?b = "alloc ?h"
  let ?h1 = "?h(?b \<mapsto> Node_new x)"
  let ?c = "alloc ?h1"
  have a: "?a \<noteq> 0" using alloc_okD [OF assms, of Map.empty] by simp
  have b: "?b \<noteq> 0" "?b \<noteq> ?a" using alloc_okD [OF assms, of ?h] by (auto split: if_splits)
  have c: "?c \<noteq> 0" "?c \<noteq> ?a" "?c \<noteq> ?b" using alloc_okD [OF assms, of ?h1] by (auto split: if_splits)
  show ?thesis using a b c
    by (simp add: LockFreeQueue_new_def LockFreeStack_new_def Node_new_def Node_sentinel_def Let_def numeral_eq_Suc)
qed

theorem linked_structures_use_after_free_witness:
  "\<exists>schedule. lq_interleave lowest_free schedule [LqPushAlloc (1::nat), LqPushAlloc 2, LqPopLoadHead]
     (LockFreeQueue_new lowest_free) = None"
  using linked_structures_use_after_free [OF lowest_free_ok, of 1 2] by blast

end
