(* ===== verification/Ipc.thy ===== *)
theory Ipc
  imports Percpu Fifo
begin

text \<open>
  Inter-processor communication (\<open>mielin-kernel/src/ipc.rs\<close>): the per-CPU bitmaps of
  pending inter-processor interrupts, the matrix of message queues with one queue for each
  ordered pair of CPUs, and the CPU barrier. The id of the calling CPU and the number of
  CPUs that are online, which the source reads from \<open>percpu.rs\<close>, are arguments. Delivery
  of the interrupt to the hardware is a comment in the source and has no counterpart here.
\<close>

unbundle bit_operations_syntax

section \<open>Inter-processor interrupts\<close>

datatype IpiType = Wakeup | Reschedule | TlbFlush | CacheInvalidate | IpiFunctionCall | Halt | CustomIpi

fun ipi_as_u8 :: "IpiType \<Rightarrow> nat" where
  "ipi_as_u8 Wakeup = 0"
| "ipi_as_u8 Reschedule = 1"
| "ipi_as_u8 TlbFlush = 2"
| "ipi_as_u8 CacheInvalidate = 3"
| "ipi_as_u8 IpiFunctionCall = 4"
| "ipi_as_u8 Halt = 5"
| "ipi_as_u8 CustomIpi = 255"

record IpiState =
  ipi_pending :: u32
  ipi_sent_count :: u64
  ipi_received_count :: u64
  ipi_error_count :: u32

definition IpiState_new :: IpiState where
  "IpiState_new = \<lparr>ipi_pending = 0, ipi_sent_count = 0, ipi_received_count = 0, ipi_error_count = 0\<rparr>"

definition set_pending :: "IpiType \<Rightarrow> IpiState \<Rightarrow> IpiState" where
  "set_pending t s =
     (let type_val = ipi_as_u8 t;
          s1 = (if type_val < 32 then s\<lparr>ipi_pending := ipi_pending s OR push_bit type_val 1\<rparr> else s)
      in s1\<lparr>ipi_received_count := ipi_received_count s1 + 1\<rparr>)"

definition is_pending :: "IpiType \<Rightarrow> IpiState \<Rightarrow> bool" where
  "is_pending t s =
     (let type_val = ipi_as_u8 t in
      if type_val \<ge> 32 then False else (ipi_pending s AND push_bit type_val 1) \<noteq> 0)"

definition clear_pending :: "IpiType \<Rightarrow> IpiState \<Rightarrow> IpiState" where
  "clear_pending t s =
     (let type_val = ipi_as_u8 t in
      if type_val < 32 then s\<lparr>ipi_pending := ipi_pending s AND NOT (push_bit type_val 1)\<rparr> else s)"

section \<open>Messages\<close>

datatype MessageType = TaskMigration | MemoryAlloc | MemoryFree | MsgFunctionCall | MsgData | Ack | MsgError

record Message =
  msg_type :: MessageType
  from_cpu :: u8
  to_cpu :: u8
  msg_seq :: u32
  msg_data :: "u64 list"

definition Message_new :: "MessageType \<Rightarrow> nat \<Rightarrow> nat \<Rightarrow> Message" where
  "Message_new t from to =
     \<lparr>msg_type = t, from_cpu = of_nat from, to_cpu = of_nat to, msg_seq = 0, msg_data = replicate 7 0\<rparr>"

definition Message_task_migration :: "nat \<Rightarrow> nat \<Rightarrow> nat \<Rightarrow> Message" where
  "Message_task_migration from to tid =
     (let m = Message_new TaskMigration from to in m\<lparr>msg_data := (msg_data m)[0 := of_nat tid]\<rparr>)"

definition Message_memory_alloc :: "nat \<Rightarrow> nat \<Rightarrow> nat \<Rightarrow> Message" where
  "Message_memory_alloc from to sz =
     (let m = Message_new MemoryAlloc from to in m\<lparr>msg_data := (msg_data m)[0 := of_nat sz]\<rparr>)"

definition Message_ack :: "nat \<Rightarrow> nat \<Rightarrow> u32 \<Rightarrow> Message" where
  "Message_ack from to seq = (Message_new Ack from to)\<lparr>msg_seq := seq\<rparr>"

definition MAX_MESSAGES_PER_CPU :: nat where "MAX_MESSAGES_PER_CPU = 256"

record MessageQueue =
  mq_buffer :: "Message option list"
  mq_write_idx :: nat
  mq_read_idx :: nat
  mq_count :: nat
  mq_sent :: u64
  mq_received :: u64
  mq_full_count :: u32

definition MessageQueue_new :: MessageQueue where
  "MessageQueue_new = \<lparr>mq_buffer = replicate MAX_MESSAGES_PER_CPU None, mq_write_idx = 0, mq_read_idx = 0,
     mq_count = 0, mq_sent = 0, mq_received = 0, mq_full_count = 0\<rparr>"

definition mq_enqueue :: "Message \<Rightarrow> MessageQueue \<Rightarrow> (bool \<times> MessageQueue) option" where
  "mq_enqueue msg q =
     (if mq_count q \<ge> MAX_MESSAGES_PER_CPU then Some (False, q\<lparr>mq_full_count := mq_full_count q + 1\<rparr>)
      else
        let idx = mq_write_idx q; next_idx = usize_add idx 1 mod MAX_MESSAGES_PER_CPU in
        Option.bind (arr_set (mq_buffer q) idx (Some msg)) (\<lambda>b.
          Some (True, q\<lparr>mq_buffer := b, mq_write_idx := next_idx, mq_count := usize_add (mq_count q) 1,
                         mq_sent := mq_sent q + 1\<rparr>)))"

definition mq_dequeue :: "MessageQueue \<Rightarrow> (Message option \<times> MessageQueue) option" where
  "mq_dequeue q =
     (if mq_count q = 0 then Some (None, q)
      else
        let idx = mq_read_idx q; next_idx = usize_add idx 1 mod MAX_MESSAGES_PER_CPU in
        Option.bind (arr_get (mq_buffer q) idx) (\<lambda>msg.
          let q1 = q\<lparr>mq_buffer := (mq_buffer q)[idx := None]\<rparr> in
          Some (msg, if msg \<noteq> None
                     then q1\<lparr>mq_read_idx := next_idx, mq_count := usize_sub (mq_count q1) 1,
                              mq_received := mq_received q1 + 1\<rparr>
                     else q1)))"

definition mq_len :: "MessageQueue \<Rightarrow> nat" where
  "mq_len q = mq_count q"

record MessageQueueStats =
  mqs_pending :: nat
  mqs_sent :: u64
  mqs_received :: u64
  mqs_full_count :: u32

definition mq_stats :: "MessageQueue \<Rightarrow> MessageQueueStats" where
  "mq_stats q = \<lparr>mqs_pending = mq_count q, mqs_sent = mq_sent q, mqs_received = mq_received q,
     mqs_full_count = mq_full_count q\<rparr>"

section \<open>The shared state of all CPUs\<close>

text \<open>\<open>message_queues s ! from ! to\<close> is the queue from CPU \<open>from\<close> to CPU \<open>to\<close>.\<close>

record Ipc =
  ipi_states :: "IpiState list"
  message_queues :: "MessageQueue list list"

definition IPI_STATES :: "IpiState list" where
  "IPI_STATES = replicate MAX_CPUS IpiState_new"

definition MESSAGE_QUEUES :: "MessageQueue list list" where
  "MESSAGE_QUEUES = replicate MAX_CPUS (replicate MAX_CPUS MessageQueue_new)"

definition Ipc_boot :: Ipc where
  "Ipc_boot = \<lparr>ipi_states = IPI_STATES, message_queues = MESSAGE_QUEUES\<rparr>"

definition send_ipi :: "nat \<Rightarrow> IpiType \<Rightarrow> Ipc \<Rightarrow> (bool \<times> Ipc) option" where
  "send_ipi target_cpu t s =
     (if target_cpu \<ge> MAX_CPUS then Some (False, s)
      else Option.bind (arr_get (ipi_states s) target_cpu) (\<lambda>st.
             Some (True, s\<lparr>ipi_states := (ipi_states s)[target_cpu := set_pending t st]\<rparr>)))"

definition send_ipi_all_but_self :: "nat \<Rightarrow> nat \<Rightarrow> IpiType \<Rightarrow> Ipc \<Rightarrow> (nat \<times> Ipc) option" where
  "send_ipi_all_but_self this_cpu num_cpus t s =
     for_range 0 num_cpus (\<lambda>cpu (sent, s).
       if cpu \<noteq> this_cpu
       then Option.bind (send_ipi cpu t s) (\<lambda>(ok, s'). Some (if ok then usize_add sent 1 else sent, s'))
       else Some (sent, s)) (0, s)"

definition send_ipi_all :: "nat \<Rightarrow> IpiType \<Rightarrow> Ipc \<Rightarrow> (nat \<times> Ipc) option" where
  "send_ipi_all num_cpus t s =
     for_range 0 num_cpus (\<lambda>cpu (sent, s).
       Option.bind (send_ipi cpu t s) (\<lambda>(ok, s'). Some (if ok then usize_add sent 1 else sent, s'))) (0, s)"

definition is_ipi_pending :: "nat \<Rightarrow> IpiType \<Rightarrow> Ipc \<Rightarrow> bool option" where
  "is_ipi_pending this_cpu t s = map_option (is_pending t) (arr_get (ipi_states s) this_cpu)"

definition handle_ipi :: "nat \<Rightarrow> IpiType \<Rightarrow> Ipc \<Rightarrow> (bool \<times> Ipc) option" where
  "handle_ipi this_cpu t s =
     Option.bind (arr_get (ipi_states s) this_cpu) (\<lambda>st.
       if is_pending t st then Some (True, s\<lparr>ipi_states := (ipi_states s)[this_cpu := clear_pending t st]\<rparr>)
       else Some (False, s))"

definition get_queue :: "Ipc \<Rightarrow> nat \<Rightarrow> nat \<Rightarrow> MessageQueue option" where
  "get_queue s from to = Option.bind (arr_get (message_queues s) from) (\<lambda>row. arr_get row to)"

definition put_queue :: "nat \<Rightarrow> nat \<Rightarrow> MessageQueue \<Rightarrow> Ipc \<Rightarrow> Ipc" where
  "put_queue from to q s =
     s\<lparr>message_queues := (message_queues s)[from := (message_queues s ! from)[to := q]]\<rparr>"

definition send_message :: "nat \<Rightarrow> nat \<Rightarrow> Message \<Rightarrow> Ipc \<Rightarrow> (bool \<times> Ipc) option" where
  "send_message cpu target_cpu msg s =
     (if target_cpu \<ge> MAX_CPUS then Some (False, s)
      else Option.bind (get_queue s cpu target_cpu) (\<lambda>q.
           Option.bind (mq_enqueue msg q) (\<lambda>(ok, q').
             let s1 = put_queue cpu target_cpu q' s in
             if ok then Option.bind (send_ipi target_cpu IpiFunctionCall s1) (\<lambda>(_, s2). Some (True, s2))
             else Some (False, s1))))"

fun receive_loop :: "nat list \<Rightarrow> nat \<Rightarrow> Ipc \<Rightarrow> (Message option \<times> Ipc) option" where
  "receive_loop [] this_cpu s = Some (None, s)"
| "receive_loop (from # cpus) this_cpu s =
     (if from \<noteq> this_cpu
      then Option.bind (get_queue s from this_cpu) (\<lambda>q.
           Option.bind (mq_dequeue q) (\<lambda>(r, q').
             let s1 = put_queue from this_cpu q' s in
             case r of Some msg \<Rightarrow> Some (Some msg, s1) | None \<Rightarrow> receive_loop cpus this_cpu s1))
      else receive_loop cpus this_cpu s)"

definition receive_message :: "nat \<Rightarrow> Ipc \<Rightarrow> (Message option \<times> Ipc) option" where
  "receive_message this_cpu s = receive_loop [0..<min (length (message_queues s)) MAX_CPUS] this_cpu s"

definition receive_message_from :: "nat \<Rightarrow> nat \<Rightarrow> Ipc \<Rightarrow> (Message option \<times> Ipc) option" where
  "receive_message_from this_cpu from s =
     (if from \<ge> MAX_CPUS then Some (None, s)
      else Option.bind (get_queue s from this_cpu) (\<lambda>q.
           Option.bind (mq_dequeue q) (\<lambda>(r, q'). Some (r, put_queue from this_cpu q' s))))"

definition pending_messages :: "nat \<Rightarrow> Ipc \<Rightarrow> nat option" where
  "pending_messages this_cpu s =
     for_range 0 (min (length (message_queues s)) MAX_CPUS) (\<lambda>from total.
       if from \<noteq> this_cpu
       then map_option (\<lambda>q. usize_add total (mq_len q)) (get_queue s from this_cpu)
       else Some total) 0"

definition message_queue_stats :: "nat \<Rightarrow> nat \<Rightarrow> Ipc \<Rightarrow> MessageQueueStats option option" where
  "message_queue_stats from to s =
     (if from \<ge> MAX_CPUS \<or> to \<ge> MAX_CPUS then Some None
      else map_option (\<lambda>q. Some (mq_stats q)) (get_queue s from to))"

section \<open>CPU barrier\<close>

text \<open>The steps of \<open>wait\<close> are its atomic accesses, as in the model of the lock-free structures.\<close>

record CpuBarrier =
  bar_count :: nat
  bar_waiting :: nat
  bar_generation :: u64

definition CpuBarrier_new :: "nat \<Rightarrow> CpuBarrier" where
  "CpuBarrier_new n = \<lparr>bar_count = n, bar_waiting = 0, bar_generation = 0\<rparr>"

datatype bar_pc =
    BarLoadGen
  | BarArrive u64
  | BarCheck u64 nat
  | BarSpin u64
  | BarReset
  | BarAdvance
  | BarRet

fun bar_step :: "bar_pc \<Rightarrow> CpuBarrier \<Rightarrow> bar_pc \<times> CpuBarrier" where
  "bar_step BarLoadGen b = (BarArrive (bar_generation b), b)"
| "bar_step (BarArrive gen) b =
     (BarCheck gen (bar_waiting b), b\<lparr>bar_waiting := usize_add (bar_waiting b) 1\<rparr>)"
| "bar_step (BarCheck gen waiting) b =
     (if usize_add waiting 1 = bar_count b then BarReset else BarSpin gen, b)"
| "bar_step BarReset b = (BarAdvance, b\<lparr>bar_waiting := 0\<rparr>)"
| "bar_step BarAdvance b = (BarRet, b\<lparr>bar_generation := bar_generation b + 1\<rparr>)"
| "bar_step (BarSpin gen) b = (if bar_generation b = gen then BarSpin gen else BarRet, b)"
| "bar_step BarRet b = (BarRet, b)"

definition bar_reset :: "nat \<Rightarrow> CpuBarrier \<Rightarrow> CpuBarrier" where
  "bar_reset n b = b\<lparr>bar_count := n, bar_waiting := 0\<rparr>"

end
