(* ===== verification/Ipc_Correct.thy ===== *)
theory Ipc_Correct
  imports Ipc
begin

text \<open>
  Inter-processor communication: the message queue is a bounded queue, the matrix of queues
  implements one ordered channel for each pair of CPUs, pending interrupts behave as a set
  for all types but one, and the barrier lets nobody through before everybody has arrived
  and does not deadlock.
\<close>

section \<open>The message queue\<close>

definition mq_rel :: "MessageQueue \<Rightarrow> Message list \<Rightarrow> bool" where
  "mq_rel q ms \<longleftrightarrow> length (mq_buffer q) = MAX_MESSAGES_PER_CPU \<and> mq_read_idx q < MAX_MESSAGES_PER_CPU \<and>
     length ms \<le> MAX_MESSAGES_PER_CPU \<and> mq_count q = length ms \<and>
     mq_write_idx q = (mq_read_idx q + length ms) mod MAX_MESSAGES_PER_CPU \<and>
     cyc_slots (mq_buffer q) (mq_read_idx q) ms \<and> mq_sent q = mq_received q + of_nat (length ms)"

lemma mq_new_rel: "mq_rel MessageQueue_new []"
  by (simp add: mq_rel_def MessageQueue_new_def MAX_MESSAGES_PER_CPU_def)

interpretation mq: fifo_impl mq_rel "\<lambda>l. MAX_MESSAGES_PER_CPU \<le> l" mq_enqueue mq_dequeue
proof unfold_locales
  fix q ms m
  assume rel: "mq_rel q ms"
  { assume "MAX_MESSAGES_PER_CPU \<le> length ms"
    then show "\<exists>q'. mq_enqueue m q = Some (False, q') \<and> mq_rel q' ms"
      using rel by (simp add: mq_enqueue_def mq_rel_def) }
  { assume "\<not> MAX_MESSAGES_PER_CPU \<le> length ms"
    then have room: "length ms < 256" by (simp add: MAX_MESSAGES_PER_CPU_def)
    have w: "mq_write_idx q < 256" using rel by (simp add: mq_rel_def MAX_MESSAGES_PER_CPU_def)
    show "\<exists>q'. mq_enqueue m q = Some (True, q') \<and> mq_rel q' (at_end m ms)"
      using rel room w cyc_push [of "mq_buffer q" "mq_read_idx q" ms m]
      by (simp add: mq_enqueue_def mq_rel_def at_end_def MAX_MESSAGES_PER_CPU_def Let_def no_wrap mod_simps) }
next
  fix q
  assume "mq_rel q []"
  then show "\<exists>q'. mq_dequeue q = Some (None, q') \<and> mq_rel q' []"
    by (simp add: mq_dequeue_def) (simp add: mq_rel_def)
next
  fix q m ms
  assume rel: "mq_rel q (m # ms)"
  have head: "mq_buffer q ! mq_read_idx q = Some m" "mq_read_idx q < 256" "length ms < 256"
    using rel cyc_head [of "mq_buffer q" "mq_read_idx q" m ms] by (auto simp: mq_rel_def MAX_MESSAGES_PER_CPU_def)
  show "\<exists>q'. mq_dequeue q = Some (Some m, q') \<and> mq_rel q' ms"
    using rel head cyc_pop [of "mq_buffer q" "mq_read_idx q" m ms None]
    by (simp add: mq_dequeue_def mq_rel_def MAX_MESSAGES_PER_CPU_def Let_def no_wrap mod_simps)
qed

section \<open>Channels\<close>

text \<open>The abstract machine: one list of messages for each ordered pair of CPUs.\<close>

type_synonym channels = "nat \<Rightarrow> nat \<Rightarrow> Message list"

datatype ipc_op = Send nat nat Message | Receive nat | ReceiveFrom nat nat

datatype ipc_out = Sent bool | Received "Message option"

definition chan_set :: "nat \<Rightarrow> nat \<Rightarrow> Message list \<Rightarrow> channels \<Rightarrow> channels" where
  "chan_set f t ms ch = ch(f := (ch f)(t := ms))"

fun chan_step :: "ipc_op \<Rightarrow> channels \<Rightarrow> ipc_out \<times> channels" where
  "chan_step (Send c t m) ch =
     (if t < MAX_CPUS \<and> length (ch c t) < MAX_MESSAGES_PER_CPU
      then (Sent True, chan_set c t (ch c t @ [m]) ch) else (Sent False, ch))"
| "chan_step (Receive c) ch =
     (case find (\<lambda>f. f \<noteq> c \<and> ch f c \<noteq> []) [0..<MAX_CPUS] of
        None \<Rightarrow> (Received None, ch)
      | Some f \<Rightarrow> (Received (Some (hd (ch f c))), chan_set f c (tl (ch f c)) ch))"
| "chan_step (ReceiveFrom c f) ch =
     (if f < MAX_CPUS \<and> ch f c \<noteq> [] then (Received (Some (hd (ch f c))), chan_set f c (tl (ch f c)) ch)
      else (Received None, ch))"

fun chan_run :: "ipc_op list \<Rightarrow> channels \<Rightarrow> ipc_out list \<times> channels" where
  "chan_run [] ch = ([], ch)"
| "chan_run (c # cs) ch = (case chan_step c ch of (r, ch1) \<Rightarrow> case chan_run cs ch1 of (rs, ch2) \<Rightarrow> (r # rs, ch2))"

fun ipc_exec :: "ipc_op \<Rightarrow> Ipc \<Rightarrow> (ipc_out \<times> Ipc) option" where
  "ipc_exec (Send c t m) s = map_option (\<lambda>(b, s'). (Sent b, s')) (send_message c t m s)"
| "ipc_exec (Receive c) s = map_option (\<lambda>(r, s'). (Received r, s')) (receive_message c s)"
| "ipc_exec (ReceiveFrom c f) s = map_option (\<lambda>(r, s'). (Received r, s')) (receive_message_from c f s)"

fun ipc_run :: "ipc_op list \<Rightarrow> Ipc \<Rightarrow> (ipc_out list \<times> Ipc) option" where
  "ipc_run [] s = Some ([], s)"
| "ipc_run (c # cs) s =
     Option.bind (ipc_exec c s) (\<lambda>(r, s1). map_option (\<lambda>(rs, s2). (r # rs, s2)) (ipc_run cs s1))"

fun caller :: "ipc_op \<Rightarrow> nat" where
  "caller (Send c t m) = c"
| "caller (Receive c) = c"
| "caller (ReceiveFrom c f) = c"

text \<open>The simulation relation.\<close>

definition ipc_rel :: "Ipc \<Rightarrow> channels \<Rightarrow> bool" where
  "ipc_rel s ch \<longleftrightarrow> length (ipi_states s) = MAX_CPUS \<and> length (message_queues s) = MAX_CPUS \<and>
     (\<forall>f < MAX_CPUS. length (message_queues s ! f) = MAX_CPUS \<and>
        (\<forall>t < MAX_CPUS. mq_rel (message_queues s ! f ! t) (ch f t)))"

lemma get_queue_rel:
  assumes "ipc_rel s ch" and "f < MAX_CPUS" and "t < MAX_CPUS"
  obtains q where "get_queue s f t = Some q" "mq_rel q (ch f t)"
  using assms by (auto simp: ipc_rel_def get_queue_def)

lemma put_queue_rel:
  assumes "ipc_rel s ch" and "f < MAX_CPUS" and "t < MAX_CPUS" and "mq_rel q ms"
  shows "ipc_rel (put_queue f t q s) (chan_set f t ms ch)"
  using assms by (auto simp: ipc_rel_def put_queue_def chan_set_def nth_list_update)

lemma chan_set_same [simp]: "chan_set f t (ch f t) ch = ch"
  by (auto simp: chan_set_def)

lemma send_ipi_rel:
  assumes "ipc_rel s ch" and "c < MAX_CPUS"
  shows "send_ipi c t s = Some (True, s\<lparr>ipi_states := (ipi_states s)[c := set_pending t (ipi_states s ! c)]\<rparr>)"
    and "ipc_rel (s\<lparr>ipi_states := (ipi_states s)[c := set_pending t (ipi_states s ! c)]\<rparr>) ch"
  using assms by (auto simp: send_ipi_def ipc_rel_def)

lemma send_message_sim:
  assumes rel: "ipc_rel s ch" and c: "c < MAX_CPUS" and step: "chan_step (Send c t m) ch = (r, ch')"
  shows "\<exists>s'. ipc_exec (Send c t m) s = Some (r, s') \<and> ipc_rel s' ch'"
proof (cases "t < MAX_CPUS")
  case True
  obtain q where q: "get_queue s c t = Some q" "mq_rel q (ch c t)" by (rule get_queue_rel [OF rel c True])
  show ?thesis
  proof (cases "length (ch c t) < MAX_MESSAGES_PER_CPU")
    case room: True
    then obtain q' where q': "mq_enqueue m q = Some (True, q')" "mq_rel q' (ch c t @ [m])"
      using mq.enq_room [OF q(2), of m] by (auto simp: at_end_def not_le)
    note rel1 = put_queue_rel [OF rel c True q'(2)]
    show ?thesis using step room True q q' send_ipi_rel [OF rel1 True]
      by (auto simp: send_message_def Let_def)
  next
    case full: False
    then obtain q' where q': "mq_enqueue m q = Some (False, q')" "mq_rel q' (ch c t)"
      using mq.enq_full [OF q(2), of m] by auto
    show ?thesis using step full True q q' put_queue_rel [OF rel c True q'(2)]
      by (auto simp: send_message_def Let_def)
  qed
next
  case False
  then show ?thesis using rel step by (auto simp: send_message_def)
qed

lemma mq_dequeue_cases:
  assumes "mq_rel q ms"
  obtains q' where "mq_dequeue q = Some (if ms = [] then None else Some (hd ms), q')" "mq_rel q' (tl ms)"
proof (cases ms)
  case Nil
  then show thesis using mq.deq_empty [of q] assms that by auto
next
  case (Cons m ms')
  then show thesis using mq.deq_item [of q m ms'] assms that by auto
qed

lemma receive_from_sim:
  assumes rel: "ipc_rel s ch" and c: "c < MAX_CPUS" and step: "chan_step (ReceiveFrom c f) ch = (r, ch')"
  shows "\<exists>s'. ipc_exec (ReceiveFrom c f) s = Some (r, s') \<and> ipc_rel s' ch'"
proof (cases "f < MAX_CPUS")
  case True
  obtain q where q: "get_queue s f c = Some q" "mq_rel q (ch f c)" by (rule get_queue_rel [OF rel True c])
  obtain q' where q': "mq_dequeue q = Some (if ch f c = [] then None else Some (hd (ch f c)), q')" "mq_rel q' (tl (ch f c))"
    by (rule mq_dequeue_cases [OF q(2)])
  have same: "chan_set f c [] ch = ch" if "ch f c = []" using chan_set_same [of f c ch] that by simp
  have "ipc_rel (put_queue f c q' s) ch'"
    using put_queue_rel [OF rel True c q'(2)] step True same by (cases "ch f c = []") auto
  moreover have "ipc_exec (ReceiveFrom c f) s = Some (r, put_queue f c q' s)"
    using step True q q' by (auto simp: receive_message_from_def)
  ultimately show ?thesis by blast
next
  case False
  then show ?thesis using rel step by (auto simp: receive_message_from_def)
qed

lemma receive_loop_sim:
  assumes "ipc_rel s ch" and "c < MAX_CPUS" and "\<forall>f \<in> set fs. f < MAX_CPUS"
  shows "\<exists>s'. receive_loop fs c s =
      Some (case find (\<lambda>f. f \<noteq> c \<and> ch f c \<noteq> []) fs of None \<Rightarrow> None | Some f \<Rightarrow> Some (hd (ch f c)), s') \<and>
    ipc_rel s' (case find (\<lambda>f. f \<noteq> c \<and> ch f c \<noteq> []) fs of None \<Rightarrow> ch | Some f \<Rightarrow> chan_set f c (tl (ch f c)) ch)"
  using assms
proof (induction fs arbitrary: s)
  case (Cons f fs)
  show ?case
  proof (cases "f = c")
    case False
    have f: "f < MAX_CPUS" using Cons.prems by simp
    obtain q where q: "get_queue s f c = Some q" "mq_rel q (ch f c)" by (rule get_queue_rel [OF Cons.prems(1) f Cons.prems(2)])
    obtain q' where q': "mq_dequeue q = Some (if ch f c = [] then None else Some (hd (ch f c)), q')" "mq_rel q' (tl (ch f c))"
      by (rule mq_dequeue_cases [OF q(2)])
    note rel1 = put_queue_rel [OF Cons.prems(1) f Cons.prems(2) q'(2)]
    show ?thesis
    proof (cases "ch f c = []")
      case True
      then have "ipc_rel (put_queue f c q' s) ch" using rel1 chan_set_same [of f c ch] by simp
      from Cons.IH [OF this Cons.prems(2)] Cons.prems(3) show ?thesis using True False q q' by (simp add: Let_def)
    next
      case False
      then show ?thesis using rel1 \<open>f \<noteq> c\<close> q q' by (simp add: Let_def)
    qed
  qed (use Cons in simp)
qed simp

lemma receive_sim:
  assumes rel: "ipc_rel s ch" and c: "c < MAX_CPUS" and step: "chan_step (Receive c) ch = (r, ch')"
  shows "\<exists>s'. ipc_exec (Receive c) s = Some (r, s') \<and> ipc_rel s' ch'"
proof -
  have "receive_message c s = receive_loop [0..<MAX_CPUS] c s"
    using rel by (simp add: receive_message_def ipc_rel_def)
  with receive_loop_sim [OF rel c, of "[0..<MAX_CPUS]"] step show ?thesis
    by (auto split: option.splits simp del: upt_Suc)
qed

lemma ipc_run_sim:
  assumes "ipc_rel s ch" and "\<forall>c \<in> set cs. caller c < MAX_CPUS" and "chan_run cs ch = (rs, ch')"
  shows "\<exists>s'. ipc_run cs s = Some (rs, s') \<and> ipc_rel s' ch'"
  using assms
proof (induction cs arbitrary: s ch rs)
  case (Cons c cs)
  obtain r ch1 where step: "chan_step c ch = (r, ch1)" by fastforce
  obtain rs1 where rs: "chan_run cs ch1 = (rs1, ch')" "rs = r # rs1"
    using Cons.prems(3) step by (auto split: prod.splits)
  have "caller c < MAX_CPUS" using Cons.prems(2) by simp
  with step Cons.prems(1) obtain s1 where s1: "ipc_exec c s = Some (r, s1)" "ipc_rel s1 ch1"
    using send_message_sim receive_sim receive_from_sim by (cases c) (metis caller.simps)+
  from Cons.IH [OF s1(2) _ rs(1)] Cons.prems(2) show ?case using s1(1) rs(2) by auto
qed simp

lemma ipc_boot_rel: "ipc_rel Ipc_boot (\<lambda>f t. [])"
  by (simp add: ipc_rel_def Ipc_boot_def IPI_STATES_def MESSAGE_QUEUES_def mq_new_rel)

section \<open>Pending interrupts\<close>

lemma is_pending_bit: "is_pending t s \<longleftrightarrow> t \<noteq> CustomIpi \<and> bit (ipi_pending s) (ipi_as_u8 t)"
  by (cases t) (simp_all add: is_pending_def Let_def bit_iff_and_push_bit_not_eq_0)

lemma ipi_as_u8_inj: "ipi_as_u8 t = ipi_as_u8 t' \<longleftrightarrow> t = t'"
  by (cases t; cases t'; simp)

lemma ipi_as_u8_less: "ipi_as_u8 t < 32 \<longleftrightarrow> t \<noteq> CustomIpi"
  by (cases t) simp_all

lemma is_pending_set: "is_pending t' (set_pending t s) \<longleftrightarrow> is_pending t' s \<or> t' = t \<and> t \<noteq> CustomIpi"
  using ipi_as_u8_inj [of t t'] ipi_as_u8_less [of t] ipi_as_u8_less [of t']
  by (auto simp: is_pending_bit set_pending_def Let_def bit_or_iff bit_exp_iff)

lemma is_pending_clear: "is_pending t' (clear_pending t s) \<longleftrightarrow> is_pending t' s \<and> t' \<noteq> t"
  using ipi_as_u8_inj [of t t'] ipi_as_u8_less [of t] ipi_as_u8_less [of t']
  by (auto simp: is_pending_bit clear_pending_def Let_def bit_and_iff bit_not_iff bit_exp_iff)

section \<open>The barrier\<close>

text \<open>
  \<open>n\<close> CPUs call \<open>wait\<close> over and over. The histories count, for each CPU, its arrivals and
  the calls it has returned from.
\<close>

record bar_sys =
  bs_bar :: CpuBarrier
  bs_pc :: "nat \<Rightarrow> bar_pc"
  bs_arrived :: "nat \<Rightarrow> nat"
  bs_done :: "nat \<Rightarrow> nat"

fun is_arrival :: "bar_pc \<Rightarrow> nat" where
  "is_arrival (BarArrive g) = 1"
| "is_arrival _ = 0"

inductive bar_reachable :: "nat \<Rightarrow> bar_sys \<Rightarrow> bool" for n where
  init: "bar_reachable n \<lparr>bs_bar = CpuBarrier_new n, bs_pc = (\<lambda>i. BarRet), bs_arrived = (\<lambda>i. 0), bs_done = (\<lambda>i. 0)\<rparr>"
| wait_call: "bar_reachable n s \<Longrightarrow> i < n \<Longrightarrow> bs_pc s i = BarRet \<Longrightarrow>
    bar_reachable n (s\<lparr>bs_pc := (bs_pc s)(i := BarLoadGen)\<rparr>)"
| wait_step: "bar_reachable n s \<Longrightarrow> i < n \<Longrightarrow> bs_pc s i \<noteq> BarRet \<Longrightarrow> bar_step (bs_pc s i) (bs_bar s) = (pc, b) \<Longrightarrow>
    bar_reachable n (s\<lparr>bs_bar := b, bs_pc := (bs_pc s)(i := pc),
      bs_arrived := (bs_arrived s)(i := bs_arrived s i + is_arrival (bs_pc s i)),
      bs_done := (bs_done s)(i := bs_done s i + (if pc = BarRet then 1 else 0))\<rparr>)"

text \<open>
  The invariant speaks of the number \<open>G\<close> of completed rounds and of the ticket each CPU
  drew when it arrived. A CPU is either in round \<open>G\<close>, or still has to notice that round
  \<open>G - 1\<close> is over.
\<close>

fun inside :: "bar_pc \<Rightarrow> bool" where
  "inside (BarCheck g w) = True"
| "inside (BarSpin g) = True"
| "inside BarReset = True"
| "inside BarAdvance = True"
| "inside _ = False"

fun stale_ok :: "nat \<Rightarrow> nat \<Rightarrow> bar_pc \<Rightarrow> bool" where
  "stale_ok n G (BarCheck g w) = (g = of_nat G \<and> w < n - 1)"
| "stale_ok n G (BarSpin g) = (g = of_nat G)"
| "stale_ok n G _ = False"

fun round_ok :: "nat \<Rightarrow> nat \<Rightarrow> nat \<Rightarrow> bar_pc \<Rightarrow> bool" where
  "round_ok n G tk (BarArrive g) = (g = of_nat G)"
| "round_ok n G tk (BarCheck g w) = (g = of_nat G \<and> w = tk)"
| "round_ok n G tk (BarSpin g) = (g = of_nat G \<and> tk \<noteq> n - 1)"
| "round_ok n G tk BarReset = (tk = n - 1)"
| "round_ok n G tk BarAdvance = (tk = n - 1)"
| "round_ok n G tk _ = True"

definition waiters :: "nat \<Rightarrow> nat \<Rightarrow> bar_sys \<Rightarrow> nat set" where
  "waiters n G s = {j. j < n \<and> bs_done s j = G \<and> inside (bs_pc s j)}"

definition cpu_ok :: "nat \<Rightarrow> nat \<Rightarrow> (nat \<Rightarrow> nat) \<Rightarrow> bar_sys \<Rightarrow> nat \<Rightarrow> bool" where
  "cpu_ok n G tk s j \<longleftrightarrow>
     (bs_done s j = G \<and> bs_arrived s j = G + (if inside (bs_pc s j) then 1 else 0) \<and> round_ok n G (tk j) (bs_pc s j)) \<or>
     (Suc (bs_done s j) = G \<and> bs_arrived s j = G \<and> stale_ok n (bs_done s j) (bs_pc s j))"

definition bar_inv :: "nat \<Rightarrow> nat \<Rightarrow> (nat \<Rightarrow> nat) \<Rightarrow> bar_sys \<Rightarrow> bool" where
  "bar_inv n G tk s \<longleftrightarrow> 0 < n \<and> n < USIZE_MOD \<and> bar_count (bs_bar s) = n \<and> bar_generation (bs_bar s) = of_nat G \<and>
     inj_on tk (waiters n G s) \<and> tk ` waiters n G s = {0..<card (waiters n G s)} \<and>
     bar_waiting (bs_bar s) = (if \<exists>j < n. bs_pc s j = BarAdvance then 0 else card (waiters n G s)) \<and>
     (\<forall>j < n. cpu_ok n G tk s j)"

lemma waiters_finite [simp]: "finite (waiters n G s)"
  by (simp add: waiters_def)

lemma waiters_all:
  assumes "bar_inv n G tk s" and "j \<in> waiters n G s" and "tk j = n - 1"
  shows "waiters n G s = {0..<n}"
proof -
  have "n - 1 < card (waiters n G s)"
    using assms by (metis atLeastLessThan_iff bar_inv_def imageI)
  moreover have "waiters n G s \<subseteq> {0..<n}" by (auto simp: waiters_def)
  moreover have "0 < n" using assms(1) by (simp add: bar_inv_def)
  ultimately show ?thesis by (intro card_subset_eq) (auto dest: card_mono [rotated])
qed

lemma ticket_last_unique:
  "bar_inv n G tk s \<Longrightarrow> j \<in> waiters n G s \<Longrightarrow> i \<in> waiters n G s \<Longrightarrow> tk i = tk j \<Longrightarrow> i = j"
  by (auto simp: bar_inv_def dest: inj_onD)

text \<open>A step that leaves a CPU inside or outside the round keeps the set of waiters.\<close>

lemma bar_inv_keep:
  assumes inv: "bar_inv n G tk s" and i: "i < n"
    and s': "bs_pc s' = (bs_pc s)(i := pc)" "bs_arrived s' = bs_arrived s" "bs_done s' = bs_done s"
    and bar: "bar_count (bs_bar s') = n" "bar_generation (bs_bar s') = of_nat G"
    and inside: "inside pc = inside (bs_pc s i)"
    and waiting: "bar_waiting (bs_bar s') = (if \<exists>j < n. bs_pc s' j = BarAdvance then 0 else card (waiters n G s))"
    and ok: "cpu_ok n G tk s' i"
  shows "bar_inv n G tk s'"
proof -
  have same: "waiters n G s' = waiters n G s" using s' inside by (auto simp: waiters_def)
  have all: "cpu_ok n G tk s' j" if "j < n" for j
  proof (cases "j = i")
    case False
    then show ?thesis using inv that s' by (auto simp: bar_inv_def cpu_ok_def)
  qed (use ok in simp)
  have rest: "0 < n" "n < USIZE_MOD" "inj_on tk (waiters n G s)" "tk ` waiters n G s = {0..<card (waiters n G s)}"
    using inv by (simp_all add: bar_inv_def)
  show ?thesis unfolding bar_inv_def same by (intro conjI allI impI) (rule rest bar waiting all, assumption?)+
qed

lemma bar_inv_keep_waiting:
  assumes inv: "bar_inv n G tk s" and i: "i < n"
    and s': "bs_pc s' = (bs_pc s)(i := pc)" "bs_arrived s' = bs_arrived s" "bs_done s' = bs_done s" "bs_bar s' = bs_bar s"
    and pcs: "pc \<noteq> BarAdvance" "bs_pc s i \<noteq> BarAdvance"
    and inside: "inside pc = inside (bs_pc s i)" and ok: "cpu_ok n G tk s' i"
  shows "bar_inv n G tk s'"
proof (rule bar_inv_keep [OF inv i s'(1-3) _ _ inside _ ok])
  have adv: "(\<exists>j < n. bs_pc s' j = BarAdvance) = (\<exists>j < n. bs_pc s j = BarAdvance)" using pcs s'(1) by auto
  show "bar_waiting (bs_bar s') = (if \<exists>j < n. bs_pc s' j = BarAdvance then 0 else card (waiters n G s))"
    unfolding s'(4) adv using inv unfolding bar_inv_def by blast
qed (use inv s'(4) in \<open>simp_all add: bar_inv_def\<close>)

lemma bar_step_arrive:
  assumes inv: "bar_inv n G tk s" and i: "i < n" and pc: "bs_pc s i = BarArrive g"
  shows "bar_inv n G (tk(i := bar_waiting (bs_bar s)))
    (s\<lparr>bs_bar := (bs_bar s)\<lparr>bar_waiting := usize_add (bar_waiting (bs_bar s)) 1\<rparr>,
      bs_pc := (bs_pc s)(i := BarCheck g (bar_waiting (bs_bar s))), bs_arrived := (bs_arrived s)(i := bs_arrived s i + 1)\<rparr>)"
    (is "bar_inv n G ?tk ?s")
proof -
  let ?W = "waiters n G s"
  have out: "i \<notin> ?W" using pc by (simp add: waiters_def)
  have ok: "cpu_ok n G tk s j" if "j < n" for j using inv that by (simp add: bar_inv_def)
  have noadv: "\<not> (\<exists>j < n. bs_pc s j = BarAdvance)"
  proof
    assume "\<exists>j < n. bs_pc s j = BarAdvance"
    then obtain j where j: "j < n" "bs_pc s j = BarAdvance" by blast
    with ok [of j] have "j \<in> ?W" "tk j = n - 1" by (auto simp: cpu_ok_def waiters_def)
    from waiters_all [OF inv this] out i show False by simp
  qed
  have w: "bar_waiting (bs_bar s) = card ?W" using inv noadv by (simp add: bar_inv_def)
  have "card ?W < n"
  proof -
    have "?W \<subseteq> {0..<n} - {i}" using out by (auto simp: waiters_def)
    then have "card ?W \<le> card ({0..<n} - {i})" by (intro card_mono) auto
    then show ?thesis using i by simp
  qed
  then have exact: "usize_add (card ?W) 1 = Suc (card ?W)" using inv by (simp add: bar_inv_def no_wrap)
  have i_ok: "bs_done s i = G" "bs_arrived s i = G" "g = of_nat G" using ok [OF i] pc by (auto simp: cpu_ok_def)
  have W': "waiters n G ?s = insert i ?W" using i i_ok by (auto simp: waiters_def)
  have img: "?tk ` insert i ?W = {0..<Suc (card ?W)}"
  proof -
    have "?tk ` ?W = tk ` ?W" by (rule image_cong) (use out in auto)
    also have "\<dots> = {0..<card ?W}" using inv unfolding bar_inv_def by blast
    finally show ?thesis unfolding image_insert by (simp add: w atLeast0_lessThan_Suc)
  qed
  have inj: "inj_on ?tk (insert i ?W)"
    by (rule eq_card_imp_inj_on) (use img out in simp_all)
  have all: "cpu_ok n G ?tk ?s j" if "j < n" for j
    using ok [OF that] i_ok by (cases "j = i") (simp_all add: cpu_ok_def)
  have noadv': "\<not> (\<exists>j < n. bs_pc ?s j = BarAdvance)" using noadv by auto
  have "bar_waiting (bs_bar ?s) = card (insert i ?W)" using w exact out by simp
  moreover have "?tk ` insert i ?W = {0..<card (insert i ?W)}" using img out by simp
  moreover have "0 < n" "n < USIZE_MOD" "bar_count (bs_bar ?s) = n" "bar_generation (bs_bar ?s) = of_nat G"
    using inv by (simp_all add: bar_inv_def)
  ultimately show ?thesis unfolding bar_inv_def W' if_not_P [OF noadv'] using inj all by blast
qed

lemma bar_step_advance:
  assumes inv: "bar_inv n G tk s" and i: "i < n" and pc: "bs_pc s i = BarAdvance"
  shows "bar_inv n (Suc G) tk
    (s\<lparr>bs_bar := (bs_bar s)\<lparr>bar_generation := bar_generation (bs_bar s) + 1\<rparr>,
      bs_pc := (bs_pc s)(i := BarRet), bs_done := (bs_done s)(i := bs_done s i + 1)\<rparr>)"
    (is "bar_inv n _ tk ?s")
proof -
  let ?W = "waiters n G s"
  have ok: "cpu_ok n G tk s j" if "j < n" for j using inv that by (simp add: bar_inv_def)
  have i_ok: "i \<in> ?W" "tk i = n - 1" "bs_done s i = G" "bs_arrived s i = Suc G"
    using ok [OF i] pc i by (auto simp: cpu_ok_def waiters_def)
  have all: "?W = {0..<n}" by (rule waiters_all [OF inv i_ok(1,2)])
  have bar: "bar_waiting (bs_bar s) = 0" using inv i pc by (auto simp: bar_inv_def)
  have other: "bs_done s j = G \<and> bs_arrived s j = Suc G \<and> stale_ok n G (bs_pc s j)" if j: "j < n" "j \<noteq> i" for j
  proof -
    have W: "j \<in> ?W" using all j by simp
    then have in_j: "bs_done s j = G" "inside (bs_pc s j)" by (auto simp: waiters_def)
    have "tk j \<noteq> n - 1" using ticket_last_unique [OF inv i_ok(1) W] i_ok(2) j by auto
    moreover have "tk j \<in> {0..<n}"
      using inv W all unfolding bar_inv_def by (metis card_atLeastLessThan diff_zero imageI)
    ultimately show ?thesis using ok [OF j(1)] in_j by (cases "bs_pc s j") (auto simp: cpu_ok_def)
  qed
  have "waiters n (Suc G) ?s = {}" using other i_ok(3) by (auto simp: waiters_def)
  moreover have "bs_pc ?s j \<noteq> BarAdvance" if "j < n" for j using other [of j] that by (cases "j = i") auto
  moreover have "cpu_ok n (Suc G) tk ?s j" if "j < n" for j
    using other [of j] i_ok that by (cases "j = i") (auto simp: cpu_ok_def)
  ultimately show ?thesis using inv bar by (auto simp: bar_inv_def)
qed

lemma waiter_ticket: "bar_inv n G tk s \<Longrightarrow> j \<in> waiters n G s \<Longrightarrow> tk j < n"
proof -
  assume inv: "bar_inv n G tk s" and j: "j \<in> waiters n G s"
  then have "tk j < card (waiters n G s)" by (metis atLeastLessThan_iff bar_inv_def imageI)
  also have "\<dots> \<le> card {0..<n}" by (rule card_mono) (auto simp: waiters_def)
  finally show "tk j < n" by simp
qed

lemma bar_step_released:
  assumes inv: "bar_inv n G tk s" and i: "i < n" and pc: "bs_pc s i = BarSpin g" and late: "g \<noteq> of_nat G"
  shows "bar_inv n G tk (s\<lparr>bs_pc := (bs_pc s)(i := BarRet), bs_done := (bs_done s)(i := bs_done s i + 1)\<rparr>)"
    (is "bar_inv n G tk ?s")
proof -
  have ok: "cpu_ok n G tk s j" if "j < n" for j using inv that by (simp add: bar_inv_def)
  have i_ok: "Suc (bs_done s i) = G" "bs_arrived s i = G" using ok [OF i] pc late by (auto simp: cpu_ok_def)
  have same: "waiters n G ?s = waiters n G s" using i_ok pc by (auto simp: waiters_def)
  have "bs_pc ?s j = BarAdvance \<longleftrightarrow> bs_pc s j = BarAdvance" for j using pc by simp
  then have adv: "(\<exists>j < n. bs_pc ?s j = BarAdvance) = (\<exists>j < n. bs_pc s j = BarAdvance)" by simp
  have "cpu_ok n G tk ?s j" if "j < n" for j
    using ok [OF that] i_ok by (cases "j = i") (auto simp: cpu_ok_def)
  then show ?thesis using inv unfolding bar_inv_def same adv by simp
qed

lemma bar_step_inv:
  assumes inv: "bar_inv n G tk s" and i: "i < n" and run: "bs_pc s i \<noteq> BarRet"
    and step: "bar_step (bs_pc s i) (bs_bar s) = (pc, b)"
  shows "\<exists>G' tk'. bar_inv n G' tk' (s\<lparr>bs_bar := b, bs_pc := (bs_pc s)(i := pc),
      bs_arrived := (bs_arrived s)(i := bs_arrived s i + is_arrival (bs_pc s i)),
      bs_done := (bs_done s)(i := bs_done s i + (if pc = BarRet then 1 else 0))\<rparr>)"
    (is "\<exists>G' tk'. bar_inv n G' tk' ?s")
proof -
  have ok: "cpu_ok n G tk s i" and n: "0 < n" "n < USIZE_MOD" and cnt: "bar_count (bs_bar s) = n"
    "bar_generation (bs_bar s) = of_nat G"
    using inv i by (auto simp: bar_inv_def)
  note keep = bar_inv_keep_waiting [OF inv i, of ?s pc]
  show ?thesis
  proof (cases "bs_pc s i")
    case BarLoadGen
    have "bar_inv n G tk ?s"
      by (rule keep) (use BarLoadGen step ok cnt in \<open>auto simp: cpu_ok_def\<close>)
    then show ?thesis by blast
  next
    case (BarArrive g)
    from bar_step_arrive [OF inv i this] BarArrive step show ?thesis by auto
  next
    case (BarCheck g old)
    have "old < n"
    proof (cases "bs_done s i = G")
      case True
      then have "i \<in> waiters n G s" using BarCheck i by (simp add: waiters_def)
      from waiter_ticket [OF inv this] True ok BarCheck show ?thesis by (auto simp: cpu_ok_def)
    next
      case False
      then show ?thesis using ok BarCheck by (auto simp: cpu_ok_def)
    qed
    then have "usize_add old 1 = n \<longleftrightarrow> old = n - 1" using n by (auto simp: usize_add_def)
    then have "bar_inv n G tk ?s"
      by (intro keep) (use BarCheck step ok cnt in \<open>auto simp: cpu_ok_def\<close>)
    then show ?thesis by blast
  next
    case (BarSpin g)
    show ?thesis
    proof (cases "g = of_nat G")
      case True
      then have pcb: "pc = BarSpin g" "b = bs_bar s" using BarSpin step cnt by auto
      have "bar_inv n G tk ?s" by (rule keep) (use BarSpin ok in \<open>simp_all add: pcb cpu_ok_def\<close>)
      then show ?thesis by blast
    next
      case False
      then have pcb: "pc = BarRet" "b = bs_bar s" using BarSpin step cnt by auto
      have "?s = s\<lparr>bs_pc := (bs_pc s)(i := BarRet), bs_done := (bs_done s)(i := bs_done s i + 1)\<rparr>"
        by (simp add: pcb BarSpin)
      with bar_step_released [OF inv i BarSpin False] show ?thesis by metis
    qed
  next
    case BarReset
    have "bar_inv n G tk ?s"
      by (rule bar_inv_keep [OF inv i]) (use BarReset step ok cnt i in \<open>auto simp: cpu_ok_def\<close>)
    then show ?thesis by blast
  next
    case BarAdvance
    from bar_step_advance [OF inv i this] BarAdvance step show ?thesis by auto
  qed (use run in simp)
qed

lemma bar_reachable_inv:
  assumes "bar_reachable n s" and "0 < n" and "n < USIZE_MOD"
  shows "\<exists>G tk. bar_inv n G tk s"
  using assms(1)
proof (induction rule: bar_reachable.induct)
  case init
  have "bar_inv n 0 (\<lambda>i. 0) \<lparr>bs_bar = CpuBarrier_new n, bs_pc = (\<lambda>i. BarRet), bs_arrived = (\<lambda>i. 0), bs_done = (\<lambda>i. 0)\<rparr>"
    using assms(2,3) by (auto simp: bar_inv_def cpu_ok_def waiters_def CpuBarrier_new_def)
  then show ?case by blast
next
  case (wait_call s i)
  then obtain G tk where inv: "bar_inv n G tk s" by blast
  have "cpu_ok n G tk s i" using inv wait_call.hyps by (simp add: bar_inv_def)
  then have "bar_inv n G tk (s\<lparr>bs_pc := (bs_pc s)(i := BarLoadGen)\<rparr>)"
    by (intro bar_inv_keep_waiting [OF inv wait_call.hyps(2), where pc = BarLoadGen])
      (use wait_call.hyps in \<open>simp_all add: cpu_ok_def\<close>)
  then show ?case by blast
next
  case (wait_step s i pc b)
  then show ?case using bar_step_inv by blast
qed

section \<open>The properties\<close>

text \<open>
  C14. Message passing refines a matrix of channels: from the boot state, every sequence of
  sends and receives by any of the CPUs returns, and its results are those of one bounded
  first-in first-out channel for each ordered pair of CPUs. A receive from anybody takes the
  oldest message of the lowest-numbered other CPU that has sent one.
\<close>

theorem ipc_refines_channels:
  assumes "\<forall>c \<in> set cs. caller c < MAX_CPUS"
  shows "\<exists>s. ipc_run cs Ipc_boot = Some (fst (chan_run cs (\<lambda>f t. [])), s)"
  using ipc_run_sim [OF ipc_boot_rel assms prod.collapse [symmetric]] by blast

text \<open>In particular a message a CPU sends to itself is accepted and never received from anybody.\<close>

theorem ipc_refines_channels_witness:
  "\<exists>s. ipc_run [Send 3 1 (Message_new Ack 3 1), Send 2 1 (Message_new Ack 2 1), Send 1 1 (Message_new Ack 1 1), Receive 1, Receive 1, Receive 1] Ipc_boot =
     Some ([Sent True, Sent True, Sent True, Received (Some (Message_new Ack 2 1)), Received (Some (Message_new Ack 3 1)), Received None], s)"
proof -
  have "[0..<MAX_CPUS] = [0, 1, 2, 3, 4, 5, 6, 7, 8, 9, 10, 11, 12, 13, 14, 15]"
    unfolding MAX_CPUS_def by code_simp
  then show ?thesis
    using ipc_refines_channels [of "[Send 3 1 (Message_new Ack 3 1), Send 2 1 (Message_new Ack 2 1), Send 1 1 (Message_new Ack 1 1), Receive 1, Receive 1, Receive 1]"]
    by (simp add: MAX_CPUS_def MAX_MESSAGES_PER_CPU_def chan_set_def)
qed

text \<open>
  Pending interrupts: sending an interrupt to a CPU makes exactly that type pending
  on exactly that CPU, handling clears exactly it, and repeated sends before a handling
  count once; but an interrupt of the custom type is accepted and never becomes pending.
\<close>

theorem ipi_pending_spec:
  assumes "length (ipi_states s) = MAX_CPUS" and "c < MAX_CPUS" and "c' < MAX_CPUS"
    and "is_ipi_pending c' t' s = Some p" and "is_ipi_pending c t s = Some p0"
  shows "\<exists>s1 s2. send_ipi c t s = Some (True, s1) \<and>
    is_ipi_pending c' t' s1 = Some (p \<or> c' = c \<and> t' = t \<and> t \<noteq> CustomIpi) \<and>
    handle_ipi c t s = Some (p0, s2) \<and> is_ipi_pending c' t' s2 = Some (p \<and> \<not> (c' = c \<and> t' = t))"
  using assms
  by (auto simp: send_ipi_def handle_ipi_def is_ipi_pending_def is_pending_set is_pending_clear nth_list_update)

theorem ipi_pending_spec_witness:
  "\<exists>s1. send_ipi 2 Reschedule Ipc_boot = Some (True, s1) \<and> is_ipi_pending 2 Reschedule s1 = Some True"
proof -
  have idle: "is_ipi_pending 2 Reschedule Ipc_boot = Some False"
    by (simp add: is_ipi_pending_def Ipc_boot_def IPI_STATES_def MAX_CPUS_def IpiState_new_def is_pending_def)
  show ?thesis
    using ipi_pending_spec [OF _ _ _ idle idle] by (auto simp: Ipc_boot_def IPI_STATES_def MAX_CPUS_def)
qed

text \<open>
  C13. The barrier for n CPUs, in every interleaving of the atomic steps of their calls:
  when a CPU has returned from its k-th wait, every CPU has arrived for the k-th time, and
  whenever all CPUs are waiting some step makes progress, so the barrier does not deadlock.
  Both hold for any number of rounds, across the wrap-around of the generation counter.
\<close>

theorem barrier_correct:
  assumes "bar_reachable n s" and "0 < n" and "n < USIZE_MOD"
  shows "(\<forall>i j. i < n \<and> j < n \<longrightarrow> bs_done s i \<le> bs_arrived s j) \<and>
    ((\<forall>i < n. bs_pc s i \<noteq> BarRet) \<longrightarrow> (\<exists>i < n. fst (bar_step (bs_pc s i) (bs_bar s)) \<noteq> bs_pc s i))"
proof -
  obtain G tk where inv: "bar_inv n G tk s" using bar_reachable_inv [OF assms] by blast
  have ok: "cpu_ok n G tk s j" if "j < n" for j using inv that by (simp add: bar_inv_def)
  have "bs_done s i \<le> bs_arrived s j" if "i < n" "j < n" for i j
    using ok [OF that(1)] ok [OF that(2)] by (auto simp: cpu_ok_def)
  moreover have "\<exists>i < n. fst (bar_step (bs_pc s i) (bs_bar s)) \<noteq> bs_pc s i" if run: "\<forall>i < n. bs_pc s i \<noteq> BarRet"
  proof (rule ccontr)
    assume stuck: "\<not> ?thesis"
    have gen: "bar_generation (bs_bar s) = of_nat G" using inv by (simp add: bar_inv_def)
    have spin: "bs_done s i = G \<and> inside (bs_pc s i) \<and> tk i \<noteq> n - 1" if "i < n" for i
    proof -
      have "fst (bar_step (bs_pc s i) (bs_bar s)) = bs_pc s i" "bs_pc s i \<noteq> BarRet" using stuck run that by blast+
      then obtain g where g: "bs_pc s i = BarSpin g" "g = of_nat G"
        using gen by (cases "bs_pc s i") (auto split: if_splits)
      have "\<not> (Suc (bs_done s i) = G \<and> stale_ok n (bs_done s i) (bs_pc s i))"
      proof
        assume "Suc (bs_done s i) = G \<and> stale_ok n (bs_done s i) (bs_pc s i)"
        then have "(of_nat (Suc (bs_done s i)) :: u64) = of_nat (bs_done s i)" using g by simp
        then show False by simp
      qed
      then have "bs_done s i = G" "round_ok n G (tk i) (bs_pc s i)"
        using ok [OF that] unfolding cpu_ok_def by blast+
      then show ?thesis using g(1) by simp
    qed
    have all: "waiters n G s = {0..<n}" unfolding waiters_def
    proof (intro set_eqI iffI)
      fix j assume "j \<in> {0..<n}"
      then show "j \<in> {j. j < n \<and> bs_done s j = G \<and> inside (bs_pc s j)}" using spin [of j] by simp
    qed simp
    have "tk ` waiters n G s = {0..<card (waiters n G s)}" using inv unfolding bar_inv_def by blast
    then have "tk ` {0..<n} = {0..<n}" unfolding all by simp
    then obtain j where "j < n" "tk j = n - 1"
      using assms(2) by (metis atLeastLessThan_iff diff_less imageE zero_le zero_less_one)
    with spin show False by blast
  qed
  ultimately show ?thesis by blast
qed

definition bar_demo :: bar_sys where
  "bar_demo = \<lparr>bs_bar = CpuBarrier_new 1, bs_pc = (\<lambda>i. BarRet)(0 := BarLoadGen), bs_arrived = (\<lambda>i. 0), bs_done = (\<lambda>i. 0)\<rparr>"

lemma bar_demo_reachable: "bar_reachable 1 bar_demo"
  using bar_reachable.wait_call [OF bar_reachable.init, of 0 1] by (simp add: bar_demo_def)

theorem barrier_correct_witness:
  "\<exists>i < 1. fst (bar_step (bs_pc bar_demo i) (bs_bar bar_demo)) \<noteq> bs_pc bar_demo i"
  using barrier_correct [OF bar_demo_reachable] by (auto simp: bar_demo_def)

end
