(* ===== verification/Vmm.thy ===== *)
theory Vmm
  imports Memory
begin

text \<open>
  The virtual memory manager (\<open>mielin-kernel/src/vmm.rs\<close>): four-level page tables in
  physical memory, mapping, unmapping and translation, copy-on-write and demand paging,
  huge pages, memory-mapped I/O and shared regions.

  Physical memory is a function from a page address and the index of a 64-bit word in the
  page to the word. Every pointer the source dereferences is the address of a page: table
  pointers come from the page allocator or from an entry, whose address field has its low
  twelve bits masked off. The kernel addresses physical memory directly, as the casts in the
  source do. The page allocator is the one of the theory \<open>Memory\<close>. Loading the root
  register and invalidating the translation buffer act on the processor only and are not
  modelled beyond their counter.
\<close>

unbundle bit_operations_syntax

section \<open>Constants and flags\<close>

definition HUGE_PAGE_2MB :: u64 where "HUGE_PAGE_2MB = 2 * 1024 * 1024"

definition HUGE_PAGE_1GB :: u64 where "HUGE_PAGE_1GB = 1024 * 1024 * 1024"

definition ENTRIES_PER_TABLE :: nat where "ENTRIES_PER_TABLE = 512"

definition MAX_ADDRESS_SPACES :: nat where "MAX_ADDRESS_SPACES = 256"

datatype HugePageSize = Size4KB | Size2MB | Size1GB

fun huge_bytes :: "HugePageSize \<Rightarrow> u64" where
  "huge_bytes Size4KB = of_nat PAGE_SIZE"
| "huge_bytes Size2MB = HUGE_PAGE_2MB"
| "huge_bytes Size1GB = HUGE_PAGE_1GB"

fun page_table_level :: "HugePageSize \<Rightarrow> nat" where
  "page_table_level Size4KB = 3"
| "page_table_level Size2MB = 2"
| "page_table_level Size1GB = 1"

definition huge_is_aligned :: "HugePageSize \<Rightarrow> u64 \<Rightarrow> bool" where
  "huge_is_aligned s addr \<longleftrightarrow> addr AND (huge_bytes s - 1) = 0"

datatype VmmError =
    VmmNotInitialized
  | VmmAlreadyInitialized
  | InvalidVirtualAddress
  | InvalidPhysicalAddress
  | AlreadyMapped
  | NotMapped
  | VmmOutOfMemory
  | InvalidEntry
  | AddressSpaceLimitExceeded
  | InvalidPermissions
  | TlbShootdownFailed
  | PageFault
  | WriteProtectionViolation
  | InvalidPageSize
  | UnalignedHugePage

definition PRESENT :: u64 where "PRESENT = push_bit 0 1"
definition WRITABLE :: u64 where "WRITABLE = push_bit 1 1"
definition USER :: u64 where "USER = push_bit 2 1"
definition WRITE_THROUGH :: u64 where "WRITE_THROUGH = push_bit 3 1"
definition CACHE_DISABLE :: u64 where "CACHE_DISABLE = push_bit 4 1"
definition HUGE :: u64 where "HUGE = push_bit 7 1"
definition COW :: u64 where "COW = push_bit 9 1"
definition DEMAND :: u64 where "DEMAND = push_bit 10 1"
definition MMIO :: u64 where "MMIO = push_bit 11 1"
definition SHARED :: u64 where "SHARED = push_bit 12 1"
definition NO_EXECUTE :: u64 where "NO_EXECUTE = push_bit 63 1"

definition flags_contains :: "u64 \<Rightarrow> u64 \<Rightarrow> bool" where
  "flags_contains f g \<longleftrightarrow> f AND g = g"

section \<open>Page table entries\<close>

definition pte_is_present :: "u64 \<Rightarrow> bool" where
  "pte_is_present e \<longleftrightarrow> e AND PRESENT \<noteq> 0"

definition pte_phys_addr :: "u64 \<Rightarrow> u64" where
  "pte_phys_addr e = e AND 0x000ffffffffff000"

definition pte_flags :: "u64 \<Rightarrow> u64" where
  "pte_flags e = e AND 0xfff0000000000fff"

definition pte_set :: "u64 \<Rightarrow> u64 \<Rightarrow> u64" where
  "pte_set phys_addr flags = (phys_addr AND 0x000ffffffffff000) OR flags"

section \<open>Global state\<close>

text \<open>The reference counts of physical pages.\<close>

type_synonym refcounts = "u64 \<Rightarrow> nat option"

definition inc_ref :: "u64 \<Rightarrow> refcounts \<Rightarrow> refcounts" where
  "inc_ref p r = r(p \<mapsto> usize_add (case r p of None \<Rightarrow> 0 | Some n \<Rightarrow> n) 1)"

definition dec_ref :: "u64 \<Rightarrow> refcounts \<Rightarrow> nat \<times> refcounts" where
  "dec_ref p r =
     (case r p of
        None \<Rightarrow> (0, r)
      | Some count \<Rightarrow>
          if count = 1 then (0, r(p := None)) else (usize_sub count 1, r(p \<mapsto> usize_sub count 1)))"

definition get_ref :: "u64 \<Rightarrow> refcounts \<Rightarrow> nat" where
  "get_ref p r = (case r p of None \<Rightarrow> 0 | Some n \<Rightarrow> n)"

record SharedMemoryRegion =
  region_id :: nat
  region_virt_addr :: u64
  region_size :: u64
  region_phys_addr :: u64
  region_flags :: u64
  region_refcount :: nat

definition SharedMemoryRegion_new :: "nat \<Rightarrow> u64 \<Rightarrow> u64 \<Rightarrow> u64 \<Rightarrow> u64 \<Rightarrow> SharedMemoryRegion" where
  "SharedMemoryRegion_new i v sz p f =
     \<lparr>region_id = i, region_virt_addr = v, region_size = sz, region_phys_addr = p, region_flags = f, region_refcount = 1\<rparr>"

record SharedMemoryRegistry =
  shared_regions :: "nat \<Rightarrow> SharedMemoryRegion option"
  shared_next_id :: nat

definition SharedMemoryRegistry_new :: SharedMemoryRegistry where
  "SharedMemoryRegistry_new = \<lparr>shared_regions = Map.empty, shared_next_id = 0\<rparr>"

definition create_region :: "u64 \<Rightarrow> u64 \<Rightarrow> u64 \<Rightarrow> u64 \<Rightarrow> SharedMemoryRegistry \<Rightarrow> nat \<times> SharedMemoryRegistry" where
  "create_region v sz p f g =
     (let i = shared_next_id g in
      (i, g\<lparr>shared_next_id := usize_add i 1,
            shared_regions := (shared_regions g)(i \<mapsto> SharedMemoryRegion_new i v sz p f)\<rparr>))"

definition get_region :: "nat \<Rightarrow> SharedMemoryRegistry \<Rightarrow> SharedMemoryRegion option" where
  "get_region i g = shared_regions g i"

definition region_inc_ref :: "nat \<Rightarrow> SharedMemoryRegistry \<Rightarrow> (VmmError + unit) \<times> SharedMemoryRegistry" where
  "region_inc_ref i g =
     (case shared_regions g i of
        None \<Rightarrow> (Err InvalidEntry, g)
      | Some r \<Rightarrow> (Ok (), g\<lparr>shared_regions := (shared_regions g)(i \<mapsto>
            r\<lparr>region_refcount := min (region_refcount r + 1) (USIZE_MOD - 1)\<rparr>)\<rparr>))"

definition region_dec_ref :: "nat \<Rightarrow> SharedMemoryRegistry \<Rightarrow> (VmmError + bool) \<times> SharedMemoryRegistry" where
  "region_dec_ref i g =
     (case shared_regions g i of
        None \<Rightarrow> (Err InvalidEntry, g)
      | Some r \<Rightarrow>
          if region_refcount r - 1 = 0 then (Ok True, g\<lparr>shared_regions := (shared_regions g)(i := None)\<rparr>)
          else (Ok False, g\<lparr>shared_regions := (shared_regions g)(i \<mapsto> r\<lparr>region_refcount := region_refcount r - 1\<rparr>)\<rparr>))"

record VmmState =
  vs_initialized :: bool
  vs_next_asid :: nat
  vs_active_spaces :: nat
  vs_total_mapped_pages :: u64
  vs_total_tlb_flushes :: u64
  vs_total_cow_faults :: u64
  vs_total_cow_copies :: u64
  vs_total_cow_fast_path :: u64
  vs_total_demand_faults :: u64
  vs_total_demand_pages :: u64
  vs_total_huge_2mb_pages :: u64
  vs_total_huge_1gb_pages :: u64
  vs_total_mmio_regions :: u64
  vs_total_mmio_pages :: u64
  vs_total_shared_regions :: u64
  vs_total_shared_pages :: u64

definition VmmState_new :: VmmState where
  "VmmState_new = \<lparr>vs_initialized = False, vs_next_asid = 1, vs_active_spaces = 0, vs_total_mapped_pages = 0,
     vs_total_tlb_flushes = 0, vs_total_cow_faults = 0, vs_total_cow_copies = 0, vs_total_cow_fast_path = 0,
     vs_total_demand_faults = 0, vs_total_demand_pages = 0, vs_total_huge_2mb_pages = 0, vs_total_huge_1gb_pages = 0,
     vs_total_mmio_regions = 0, vs_total_mmio_pages = 0, vs_total_shared_regions = 0, vs_total_shared_pages = 0\<rparr>"

text \<open>Everything the operations read and write besides the address space itself.\<close>

type_synonym phys_mem = "u64 \<Rightarrow> nat \<Rightarrow> u64"

record Vmm =
  vm_memory :: memory_state
  vm_phys :: phys_mem
  vm_refcounts :: refcounts
  vm_shared :: SharedMemoryRegistry
  vm_state :: VmmState

definition vmm_init :: "Vmm \<Rightarrow> (VmmError + unit) \<times> Vmm" where
  "vmm_init w =
     (if vs_initialized (vm_state w) then (Ok (), w)
      else (Ok (), w\<lparr>vm_state := (vm_state w)\<lparr>vs_initialized := True\<rparr>\<rparr>))"

definition allocate_asid :: "Vmm \<Rightarrow> (VmmError + nat) \<times> Vmm" where
  "allocate_asid w =
     (let asid = vs_next_asid (vm_state w);
          w1 = w\<lparr>vm_state := (vm_state w)\<lparr>vs_next_asid := usize_add asid 1\<rparr>\<rparr>
      in if asid \<ge> MAX_ADDRESS_SPACES then (Err AddressSpaceLimitExceeded, w1)
         else (Ok asid, w1\<lparr>vm_state := (vm_state w1)\<lparr>vs_active_spaces := usize_add (vs_active_spaces (vm_state w1)) 1\<rparr>\<rparr>))"

definition free_asid :: "nat \<Rightarrow> Vmm \<Rightarrow> Vmm" where
  "free_asid asid w =
     w\<lparr>vm_state := (vm_state w)\<lparr>vs_active_spaces := usize_sub (vs_active_spaces (vm_state w)) 1\<rparr>\<rparr>"

definition flush_tlb :: "u64 \<Rightarrow> Vmm \<Rightarrow> Vmm" where
  "flush_tlb v w =
     w\<lparr>vm_state := (vm_state w)\<lparr>vs_total_tlb_flushes := vs_total_tlb_flushes (vm_state w) + 1\<rparr>\<rparr>"

section \<open>Walking the tables\<close>

definition page_table_indices :: "u64 \<Rightarrow> nat list" where
  "page_table_indices v =
     [unat (drop_bit 39 v AND 0x1ff), unat (drop_bit 30 v AND 0x1ff),
      unat (drop_bit 21 v AND 0x1ff), unat (drop_bit 12 v AND 0x1ff)]"

definition zero_page :: "u64 \<Rightarrow> phys_mem \<Rightarrow> phys_mem" where
  "zero_page p m = m(p := (\<lambda>i. 0))"

definition set_entry :: "u64 \<Rightarrow> nat \<Rightarrow> u64 \<Rightarrow> phys_mem \<Rightarrow> phys_mem" where
  "set_entry t i e m = m(t := (m t)(i := e))"

text \<open>
  The loops of the source go through the levels and follow the entries of the first three.
  \<open>walk_tables\<close> is the loop that fails at an entry that is not present; its result is the
  last-level table. \<open>walk_create\<close> is the loop that allocates missing tables.
\<close>

fun walk_tables :: "phys_mem \<Rightarrow> u64 \<Rightarrow> nat list \<Rightarrow> VmmError + u64" where
  "walk_tables m t [] = Ok t"
| "walk_tables m t (i # is) =
     (if \<not> pte_is_present (m t i) then Err NotMapped else walk_tables m (pte_phys_addr (m t i)) is)"

fun walk_create :: "u64 \<Rightarrow> nat list \<Rightarrow> Vmm \<Rightarrow> ((VmmError + u64) \<times> Vmm) option" where
  "walk_create t [] w = Some (Ok t, w)"
| "walk_create t (i # is) w =
     (if pte_is_present (vm_phys w t i) then walk_create (pte_phys_addr (vm_phys w t i)) is w
      else Option.bind (memory_allocate_page (vm_memory w)) (\<lambda>(r, mem).
        let w1 = w\<lparr>vm_memory := mem\<rparr> in
        case r of
          Inl _ \<Rightarrow> Some (Err VmmOutOfMemory, w1)
        | Inr a \<Rightarrow>
            let next_table = of_nat a;
                w2 = w1\<lparr>vm_phys := set_entry t i (pte_set next_table (PRESENT OR WRITABLE OR USER))
                                    (zero_page next_table (vm_phys w1))\<rparr>
            in walk_create (pte_phys_addr (vm_phys w2 t i)) is w2))"

section \<open>Address spaces\<close>

record AddressSpace =
  as_root :: u64
  as_asid :: nat
  as_mapped_pages :: u64

definition AddressSpace_new :: "Vmm \<Rightarrow> ((VmmError + AddressSpace) \<times> Vmm) option" where
  "AddressSpace_new w =
     Option.bind (memory_allocate_page (vm_memory w)) (\<lambda>(r, mem).
       let w1 = w\<lparr>vm_memory := mem\<rparr> in
       case r of
         Inl _ \<Rightarrow> Some (Err VmmOutOfMemory, w1)
       | Inr a \<Rightarrow>
           let w2 = w1\<lparr>vm_phys := zero_page (of_nat a) (vm_phys w1)\<rparr> in
           (case allocate_asid w2 of
              (Inl e, w3) \<Rightarrow> Some (Err e, w3)
            | (Inr asid, w3) \<Rightarrow> Some (Ok \<lparr>as_root = of_nat a, as_asid = asid, as_mapped_pages = 0\<rparr>, w3)))"

definition AddressSpace_drop :: "AddressSpace \<Rightarrow> Vmm \<Rightarrow> Vmm" where
  "AddressSpace_drop s w = free_asid (as_asid s) w"

definition vmm_map :: "u64 \<Rightarrow> u64 \<Rightarrow> u64 \<Rightarrow> AddressSpace \<Rightarrow> Vmm \<Rightarrow> ((VmmError + unit) \<times> AddressSpace \<times> Vmm) option" where
  "vmm_map v p flags s w =
     (if v AND 0xfff \<noteq> 0 \<or> p AND 0xfff \<noteq> 0 then Some (Err InvalidVirtualAddress, s, w)
      else
        let indices = page_table_indices v in
        Option.bind (walk_create (as_root s) (take 3 indices) w) (\<lambda>(r, w1).
          case r of
            Inl e \<Rightarrow> Some (Err e, s, w1)
          | Inr t \<Rightarrow>
              if pte_is_present (vm_phys w1 t (indices ! 3)) then Some (Err AlreadyMapped, s, w1)
              else Some (Ok (), s\<lparr>as_mapped_pages := as_mapped_pages s + 1\<rparr>,
                         w1\<lparr>vm_phys := set_entry t (indices ! 3) (pte_set p (flags OR PRESENT)) (vm_phys w1)\<rparr>)))"

text \<open>The last-level entry of an address, when all four levels are present.\<close>

definition leaf_entry :: "phys_mem \<Rightarrow> u64 \<Rightarrow> u64 \<Rightarrow> VmmError + (u64 \<times> nat)" where
  "leaf_entry m root v =
     (let indices = page_table_indices v in
      case walk_tables m root (take 3 indices) of
        Inl e \<Rightarrow> Err e
      | Inr t \<Rightarrow> if \<not> pte_is_present (m t (indices ! 3)) then Err NotMapped else Ok (t, indices ! 3))"

definition vmm_unmap :: "u64 \<Rightarrow> AddressSpace \<Rightarrow> Vmm \<Rightarrow> (VmmError + u64) \<times> AddressSpace \<times> Vmm" where
  "vmm_unmap v s w =
     (if v AND 0xfff \<noteq> 0 then (Err InvalidVirtualAddress, s, w)
      else case leaf_entry (vm_phys w) (as_root s) v of
        Inl e \<Rightarrow> (Err e, s, w)
      | Inr (t, i) \<Rightarrow>
          (Ok (pte_phys_addr (vm_phys w t i)), s\<lparr>as_mapped_pages := as_mapped_pages s - 1\<rparr>,
           w\<lparr>vm_phys := set_entry t i 0 (vm_phys w)\<rparr>))"

definition vmm_translate :: "u64 \<Rightarrow> AddressSpace \<Rightarrow> Vmm \<Rightarrow> VmmError + u64" where
  "vmm_translate v s w =
     (let page_offset = v AND 0xfff; virt_page = v AND NOT 0xfff in
      case leaf_entry (vm_phys w) (as_root s) virt_page of
        Inl e \<Rightarrow> Err e
      | Inr (t, i) \<Rightarrow> Ok (pte_phys_addr (vm_phys w t i) OR page_offset))"

definition vmm_get_flags :: "u64 \<Rightarrow> AddressSpace \<Rightarrow> Vmm \<Rightarrow> VmmError + u64" where
  "vmm_get_flags v s w =
     (case leaf_entry (vm_phys w) (as_root s) (v AND NOT 0xfff) of
        Inl e \<Rightarrow> Err e
      | Inr (t, i) \<Rightarrow> Ok (pte_flags (vm_phys w t i)))"

definition vmm_protect :: "u64 \<Rightarrow> u64 \<Rightarrow> AddressSpace \<Rightarrow> Vmm \<Rightarrow> (VmmError + unit) \<times> Vmm" where
  "vmm_protect v new_flags s w =
     (let virt_page = v AND NOT 0xfff in
      case leaf_entry (vm_phys w) (as_root s) virt_page of
        Inl e \<Rightarrow> (Err e, w)
      | Inr (t, i) \<Rightarrow>
          (Ok (), flush_tlb virt_page
             (w\<lparr>vm_phys := set_entry t i (pte_set (pte_phys_addr (vm_phys w t i)) (new_flags OR PRESENT)) (vm_phys w)\<rparr>)))"

section \<open>Copy on write\<close>

definition map_cow :: "u64 \<Rightarrow> u64 \<Rightarrow> u64 \<Rightarrow> AddressSpace \<Rightarrow> Vmm \<Rightarrow> ((VmmError + unit) \<times> AddressSpace \<times> Vmm) option" where
  "map_cow v p flags s w =
     Option.bind (vmm_map v p ((flags AND NOT WRITABLE) OR COW) s w) (\<lambda>(r, s1, w1).
       case r of
         Inl e \<Rightarrow> Some (Err e, s1, w1)
       | Inr _ \<Rightarrow> Some (Ok (), s1, w1\<lparr>vm_refcounts := inc_ref p (vm_refcounts w1)\<rparr>))"

definition copy_page :: "u64 \<Rightarrow> u64 \<Rightarrow> phys_mem \<Rightarrow> phys_mem" where
  "copy_page src dst m = m(dst := m src)"

definition handle_cow_fault :: "u64 \<Rightarrow> AddressSpace \<Rightarrow> Vmm \<Rightarrow> ((VmmError + unit) \<times> Vmm) option" where
  "handle_cow_fault v s w0 =
     (let w = w0\<lparr>vm_state := (vm_state w0)\<lparr>vs_total_cow_faults := vs_total_cow_faults (vm_state w0) + 1\<rparr>\<rparr>;
          virt_page = v AND NOT 0xfff
      in case vmm_translate virt_page s w of
        Inl e \<Rightarrow> Some (Err e, w)
      | Inr old_phys \<Rightarrow>
          (case leaf_entry (vm_phys w) (as_root s) virt_page of
             Inl e \<Rightarrow> Some (Err e, w)
           | Inr (t, i) \<Rightarrow>
               let flags = pte_flags (vm_phys w t i); new_flags = (flags AND NOT COW) OR WRITABLE in
               if \<not> flags_contains flags COW then Some (Err WriteProtectionViolation, w)
               else if get_ref old_phys (vm_refcounts w) \<le> 1
               then Some (Ok (), flush_tlb virt_page (w\<lparr>
                      vm_state := (vm_state w)\<lparr>vs_total_cow_fast_path := vs_total_cow_fast_path (vm_state w) + 1\<rparr>,
                      vm_phys := set_entry t i (pte_set old_phys new_flags) (vm_phys w)\<rparr>))
               else Option.bind (memory_allocate_page (vm_memory w)) (\<lambda>(r, mem).
                 let w1 = w\<lparr>vm_memory := mem\<rparr> in
                 case r of
                   Inl _ \<Rightarrow> Some (Err VmmOutOfMemory, w1)
                 | Inr a \<Rightarrow>
                     let new_phys = of_nat a;
                         (remaining, rc) = dec_ref old_phys (vm_refcounts w1);
                         w2 = w1\<lparr>
                           vm_state := (vm_state w1)\<lparr>vs_total_cow_copies := vs_total_cow_copies (vm_state w1) + 1\<rparr>,
                           vm_phys := set_entry t i (pte_set new_phys new_flags) (copy_page old_phys new_phys (vm_phys w1)),
                           vm_refcounts := rc\<rparr>
                     in if remaining = 0
                        then Option.bind (memory_free_page (vm_memory w2) (unat old_phys)) (\<lambda>(_, mem2).
                               Some (Ok (), flush_tlb virt_page (w2\<lparr>vm_memory := mem2\<rparr>)))
                        else Some (Ok (), flush_tlb virt_page w2))))"

definition walk_and_copy_cow :: "AddressSpace \<Rightarrow> AddressSpace \<Rightarrow> Vmm \<Rightarrow> (VmmError + unit) \<times> Vmm" where
  "walk_and_copy_cow s new_space w = (Ok (), w)"

definition vmm_fork :: "AddressSpace \<Rightarrow> Vmm \<Rightarrow> ((VmmError + AddressSpace) \<times> Vmm) option" where
  "vmm_fork s w =
     Option.bind (AddressSpace_new w) (\<lambda>(r, w1).
       case r of
         Inl e \<Rightarrow> Some (Err e, w1)
       | Inr new_space \<Rightarrow>
           (case walk_and_copy_cow s new_space w1 of
              (Inl e, w2) \<Rightarrow> Some (Err e, AddressSpace_drop new_space w2)
            | (Inr _, w2) \<Rightarrow> Some (Ok new_space, w2)))"

section \<open>Demand paging\<close>

fun map_demand_loop :: "nat list \<Rightarrow> u64 \<Rightarrow> u64 \<Rightarrow> AddressSpace \<Rightarrow> Vmm \<Rightarrow> ((VmmError + unit) \<times> Vmm) option" where
  "map_demand_loop [] v flags s w = Some (Ok (), w)"
| "map_demand_loop (k # ks) v flags s w =
     (let indices = page_table_indices (v + of_nat k * of_nat PAGE_SIZE) in
      Option.bind (walk_create (as_root s) (take 3 indices) w) (\<lambda>(r, w1).
        case r of
          Inl e \<Rightarrow> Some (Err e, w1)
        | Inr t \<Rightarrow>
            map_demand_loop ks v flags s
              (w1\<lparr>vm_phys := set_entry t (indices ! 3) (pte_set 0 (flags OR DEMAND)) (vm_phys w1)\<rparr>)))"

definition map_demand :: "u64 \<Rightarrow> nat \<Rightarrow> u64 \<Rightarrow> AddressSpace \<Rightarrow> Vmm \<Rightarrow> ((VmmError + unit) \<times> Vmm) option" where
  "map_demand v count flags s w =
     (if v AND 0xfff \<noteq> 0 then Some (Err InvalidVirtualAddress, w)
      else map_demand_loop [0..<count] v flags s w)"

definition handle_demand_fault :: "u64 \<Rightarrow> AddressSpace \<Rightarrow> Vmm \<Rightarrow> ((VmmError + unit) \<times> AddressSpace \<times> Vmm) option" where
  "handle_demand_fault v s w0 =
     (let w = w0\<lparr>vm_state := (vm_state w0)\<lparr>vs_total_demand_faults := vs_total_demand_faults (vm_state w0) + 1\<rparr>\<rparr>;
          virt_page = v AND NOT 0xfff; indices = page_table_indices virt_page
      in case walk_tables (vm_phys w) (as_root s) (take 3 indices) of
        Inl e \<Rightarrow> Some (Err e, s, w)
      | Inr t \<Rightarrow>
          let flags = pte_flags (vm_phys w t (indices ! 3)) in
          if \<not> flags_contains flags DEMAND then Some (Err PageFault, s, w)
          else Option.bind (memory_allocate_page (vm_memory w)) (\<lambda>(r, mem).
            let w1 = w\<lparr>vm_memory := mem\<rparr> in
            case r of
              Inl _ \<Rightarrow> Some (Err VmmOutOfMemory, s, w1)
            | Inr a \<Rightarrow>
                let p = of_nat a;
                    w2 = w1\<lparr>
                      vm_state := (vm_state w1)\<lparr>vs_total_demand_pages := vs_total_demand_pages (vm_state w1) + 1\<rparr>,
                      vm_phys := set_entry t (indices ! 3) (pte_set p ((flags AND NOT DEMAND) OR PRESENT))
                                   (zero_page p (vm_phys w1))\<rparr>
                in Some (Ok (), s\<lparr>as_mapped_pages := as_mapped_pages s + 1\<rparr>, flush_tlb virt_page w2)))"

definition is_demand_paged :: "u64 \<Rightarrow> AddressSpace \<Rightarrow> Vmm \<Rightarrow> VmmError + bool" where
  "is_demand_paged v s w =
     (case vmm_get_flags v s w of
        Inr f \<Rightarrow> Ok (flags_contains f DEMAND)
      | Inl e \<Rightarrow> if e = NotMapped then Ok False else Err e)"

section \<open>Huge pages\<close>

definition map_huge :: "u64 \<Rightarrow> u64 \<Rightarrow> HugePageSize \<Rightarrow> u64 \<Rightarrow> AddressSpace \<Rightarrow> Vmm \<Rightarrow>
    ((VmmError + unit) \<times> AddressSpace \<times> Vmm) option" where
  "map_huge v p sz flags s w =
     (if sz = Size4KB then Some (Err InvalidPageSize, s, w)
      else if \<not> huge_is_aligned sz v \<or> \<not> huge_is_aligned sz p then Some (Err UnalignedHugePage, s, w)
      else
        let lvl = page_table_level sz; indices = page_table_indices v in
        Option.bind (walk_create (as_root s) (take lvl indices) w) (\<lambda>(r, w1).
          case r of
            Inl e \<Rightarrow> Some (Err e, s, w1)
          | Inr t \<Rightarrow>
              if pte_is_present (vm_phys w1 t (indices ! lvl)) then Some (Err AlreadyMapped, s, w1)
              else
                let st = vm_state w1;
                    st1 = (case sz of
                             Size2MB \<Rightarrow> st\<lparr>vs_total_huge_2mb_pages := vs_total_huge_2mb_pages st + 1\<rparr>
                           | Size1GB \<Rightarrow> st\<lparr>vs_total_huge_1gb_pages := vs_total_huge_1gb_pages st + 1\<rparr>
                           | Size4KB \<Rightarrow> st)
                in Some (Ok (), s\<lparr>as_mapped_pages := as_mapped_pages s + huge_bytes sz div of_nat PAGE_SIZE\<rparr>,
                         w1\<lparr>vm_phys := set_entry t (indices ! lvl) (pte_set p (flags OR PRESENT OR HUGE)) (vm_phys w1),
                            vm_state := st1\<rparr>)))"

text \<open>The second argument counts the levels already passed.\<close>

fun is_huge_page_loop :: "phys_mem \<Rightarrow> nat \<Rightarrow> u64 \<Rightarrow> nat list \<Rightarrow> VmmError + HugePageSize option" where
  "is_huge_page_loop m level t [] = Ok None"
| "is_huge_page_loop m level t (i # is) =
     (let e = m t i in
      if \<not> pte_is_present e then Ok None
      else if flags_contains (pte_flags e) HUGE
      then (if level = 1 then Ok (Some Size1GB) else if level = 2 then Ok (Some Size2MB) else Err InvalidEntry)
      else if level < 3 then is_huge_page_loop m (Suc level) (pte_phys_addr e) is
      else Ok (Some Size4KB))"

definition is_huge_page :: "u64 \<Rightarrow> AddressSpace \<Rightarrow> Vmm \<Rightarrow> VmmError + HugePageSize option" where
  "is_huge_page v s w = is_huge_page_loop (vm_phys w) 0 (as_root s) (page_table_indices v)"

section \<open>Ranges: device memory and shared regions\<close>

definition div_ceil_page :: "u64 \<Rightarrow> nat" where
  "div_ceil_page sz = (unat sz + (PAGE_SIZE - 1)) div PAGE_SIZE"

fun map_pages :: "nat list \<Rightarrow> u64 \<Rightarrow> u64 \<Rightarrow> u64 \<Rightarrow> AddressSpace \<Rightarrow> Vmm \<Rightarrow>
    ((VmmError + unit) \<times> AddressSpace \<times> Vmm) option" where
  "map_pages [] v p flags s w = Some (Ok (), s, w)"
| "map_pages (k # ks) v p flags s w =
     Option.bind (vmm_map (v + of_nat k * of_nat PAGE_SIZE) (p + of_nat k * of_nat PAGE_SIZE) flags s w) (\<lambda>(r, s1, w1).
       case r of Inl e \<Rightarrow> Some (Err e, s1, w1) | Inr _ \<Rightarrow> map_pages ks v p flags s1 w1)"

definition map_mmio :: "u64 \<Rightarrow> u64 \<Rightarrow> u64 \<Rightarrow> bool \<Rightarrow> AddressSpace \<Rightarrow> Vmm \<Rightarrow>
    ((VmmError + nat) \<times> AddressSpace \<times> Vmm) option" where
  "map_mmio v p sz writable s w =
     (if v AND 0xfff \<noteq> 0 \<or> p AND 0xfff \<noteq> 0 then Some (Err InvalidVirtualAddress, s, w)
      else
        let num_pages = div_ceil_page sz;
            flags0 = PRESENT OR CACHE_DISABLE OR WRITE_THROUGH OR NO_EXECUTE OR MMIO;
            flags = (if writable then flags0 OR WRITABLE else flags0) in
        Option.bind (map_pages [0..<num_pages] v p flags s w) (\<lambda>(r, s1, w1).
          case r of
            Inl e \<Rightarrow> Some (Err e, s1, w1)
          | Inr _ \<Rightarrow>
              Some (Ok num_pages, s1, w1\<lparr>vm_state := (vm_state w1)\<lparr>
                vs_total_mmio_regions := vs_total_mmio_regions (vm_state w1) + 1,
                vs_total_mmio_pages := vs_total_mmio_pages (vm_state w1) + of_nat num_pages\<rparr>\<rparr>)))"

fun unmap_mmio_loop :: "nat list \<Rightarrow> u64 \<Rightarrow> nat \<Rightarrow> AddressSpace \<Rightarrow> Vmm \<Rightarrow> (VmmError + nat) \<times> AddressSpace \<times> Vmm" where
  "unmap_mmio_loop [] v unmapped s w = (Ok unmapped, s, w)"
| "unmap_mmio_loop (k # ks) v unmapped s w =
     (case vmm_unmap (v + of_nat k * of_nat PAGE_SIZE) s w of
        (Inr _, s1, w1) \<Rightarrow> unmap_mmio_loop ks v (usize_add unmapped 1) s1 w1
      | (Inl e, s1, w1) \<Rightarrow> if e = NotMapped then unmap_mmio_loop ks v unmapped s1 w1 else (Err e, s1, w1))"

definition unmap_mmio :: "u64 \<Rightarrow> u64 \<Rightarrow> AddressSpace \<Rightarrow> Vmm \<Rightarrow> (VmmError + nat) \<times> AddressSpace \<times> Vmm" where
  "unmap_mmio v sz s w =
     (if v AND 0xfff \<noteq> 0 then (Err InvalidVirtualAddress, s, w)
      else case unmap_mmio_loop [0..<div_ceil_page sz] v 0 s w of
        (Inl e, s1, w1) \<Rightarrow> (Err e, s1, w1)
      | (Inr unmapped, s1, w1) \<Rightarrow>
          (Ok unmapped, s1, w1\<lparr>vm_state := (vm_state w1)\<lparr>
             vs_total_mmio_regions := vs_total_mmio_regions (vm_state w1) - 1,
             vs_total_mmio_pages := vs_total_mmio_pages (vm_state w1) - of_nat unmapped\<rparr>\<rparr>))"

definition is_mmio :: "u64 \<Rightarrow> AddressSpace \<Rightarrow> Vmm \<Rightarrow> VmmError + bool" where
  "is_mmio v s w = (case vmm_get_flags v s w of Inl e \<Rightarrow> Err e | Inr f \<Rightarrow> Ok (flags_contains f MMIO))"

definition create_shared_region :: "u64 \<Rightarrow> u64 \<Rightarrow> u64 \<Rightarrow> AddressSpace \<Rightarrow> Vmm \<Rightarrow>
    ((VmmError + nat) \<times> AddressSpace \<times> Vmm) option" where
  "create_shared_region v sz flags s w =
     (if v AND 0xfff \<noteq> 0 then Some (Err InvalidVirtualAddress, s, w)
      else
        let num_pages = div_ceil_page sz in
        Option.bind (memory_allocate_pages (vm_memory w) num_pages) (\<lambda>(r, mem).
          let w1 = w\<lparr>vm_memory := mem\<rparr> in
          case r of
            Inl _ \<Rightarrow> Some (Err VmmOutOfMemory, s, w1)
          | Inr a \<Rightarrow>
              let base = of_nat a; shared_flags = flags OR SHARED in
              Option.bind (map_pages [0..<num_pages] v base shared_flags s w1) (\<lambda>(r2, s2, w2).
                case r2 of
                  Inl e \<Rightarrow> Some (Err e, s2, w2)
                | Inr _ \<Rightarrow>
                    let (i, g) = create_region v sz base shared_flags (vm_shared w2) in
                    Some (Ok i, s2, w2\<lparr>vm_shared := g, vm_state := (vm_state w2)\<lparr>
                      vs_total_shared_regions := vs_total_shared_regions (vm_state w2) + 1,
                      vs_total_shared_pages := vs_total_shared_pages (vm_state w2) + of_nat num_pages\<rparr>\<rparr>))))"

definition attach_shared_region :: "nat \<Rightarrow> u64 \<Rightarrow> AddressSpace \<Rightarrow> Vmm \<Rightarrow>
    ((VmmError + nat) \<times> AddressSpace \<times> Vmm) option" where
  "attach_shared_region i v s w =
     (if v AND 0xfff \<noteq> 0 then Some (Err InvalidVirtualAddress, s, w)
      else case get_region i (vm_shared w) of
        None \<Rightarrow> Some (Err InvalidEntry, s, w)
      | Some region \<Rightarrow>
          (case region_inc_ref i (vm_shared w) of
             (Inl e, g) \<Rightarrow> Some (Err e, s, w\<lparr>vm_shared := g\<rparr>)
           | (Inr _, g) \<Rightarrow>
               let num_pages = div_ceil_page (region_size region) in
               Option.bind (map_pages [0..<num_pages] v (region_phys_addr region) (region_flags region) s (w\<lparr>vm_shared := g\<rparr>))
                 (\<lambda>(r, s1, w1). case r of Inl e \<Rightarrow> Some (Err e, s1, w1) | Inr _ \<Rightarrow> Some (Ok num_pages, s1, w1))))"

fun unmap_pages :: "nat list \<Rightarrow> u64 \<Rightarrow> AddressSpace \<Rightarrow> Vmm \<Rightarrow> AddressSpace \<times> Vmm" where
  "unmap_pages [] v s w = (s, w)"
| "unmap_pages (k # ks) v s w =
     (case vmm_unmap (v + of_nat k * of_nat PAGE_SIZE) s w of (_, s1, w1) \<Rightarrow> unmap_pages ks v s1 w1)"

fun free_page_loop :: "nat list \<Rightarrow> u64 \<Rightarrow> memory_state \<Rightarrow> memory_state option" where
  "free_page_loop [] p mem = Some mem"
| "free_page_loop (k # ks) p mem =
     Option.bind (memory_free_page mem (unat (p + of_nat k * of_nat PAGE_SIZE))) (\<lambda>(_, mem1). free_page_loop ks p mem1)"

definition detach_shared_region :: "nat \<Rightarrow> u64 \<Rightarrow> AddressSpace \<Rightarrow> Vmm \<Rightarrow>
    ((VmmError + unit) \<times> AddressSpace \<times> Vmm) option" where
  "detach_shared_region i v s w =
     (case get_region i (vm_shared w) of
        None \<Rightarrow> Some (Err InvalidEntry, s, w)
      | Some region \<Rightarrow>
          (case region_dec_ref i (vm_shared w) of
             (Inl e, g) \<Rightarrow> Some (Err e, s, w\<lparr>vm_shared := g\<rparr>)
           | (Inr should_free, g) \<Rightarrow>
               let num_pages = div_ceil_page (region_size region);
                   (s1, w1) = unmap_pages [0..<num_pages] v s (w\<lparr>vm_shared := g\<rparr>) in
               if should_free
               then Option.bind (free_page_loop [0..<num_pages] (region_phys_addr region) (vm_memory w1)) (\<lambda>mem.
                      Some (Ok (), s1, w1\<lparr>vm_memory := mem, vm_state := (vm_state w1)\<lparr>
                        vs_total_shared_regions := vs_total_shared_regions (vm_state w1) - 1,
                        vs_total_shared_pages := vs_total_shared_pages (vm_state w1) - of_nat num_pages\<rparr>\<rparr>))
               else Some (Ok (), s1, w1)))"

end
