(* ===== verification/Vmm_Tree.thy ===== *)
theory Vmm_Tree
  imports Vmm Memory_Correct
begin

text \<open>
  Page tables as trees. The tables reachable from a root form a tree in physical memory:
  no table is reached twice. This theory shows that a write to a last-level entry and the
  creation of missing tables keep the tree and what they change in the lookups, and the
  facts about entries and indices the walk rests on.
\<close>

unbundle bit_operations_syntax

section \<open>Words\<close>

abbreviation addr_mask :: u64 where
  "addr_mask \<equiv> 0x000ffffffffff000"

lemma addr_mask_eq: "addr_mask = push_bit 12 (mask 40)"
  by (simp add: mask_eq_exp_minus_1)

lemma bit_addr_mask: "bit addr_mask n \<longleftrightarrow> 12 \<le> n \<and> n < 52"
  unfolding addr_mask_eq by (auto simp: bit_push_bit_iff bit_mask_iff)

lemma pte_set_addr: "p AND addr_mask = p \<Longrightarrow> f AND addr_mask = 0 \<Longrightarrow> pte_phys_addr (pte_set p f) = p"
  by (simp add: pte_phys_addr_def pte_set_def bit.conj_disj_distrib2 and.assoc)

lemma pte_set_present: "pte_is_present (pte_set p (f OR PRESENT))"
proof -
  have "bit (pte_set p (f OR PRESENT)) 0" by (simp add: pte_set_def PRESENT_def bit_or_iff)
  then show ?thesis by (simp add: pte_is_present_def PRESENT_def bit_iff_and_push_bit_not_eq_0)
qed

lemma pte_zero [simp]: "\<not> pte_is_present 0"
  by (simp add: pte_is_present_def)

lemma table_flags: "(PRESENT OR WRITABLE OR USER) AND addr_mask = 0"
  "PRESENT OR WRITABLE OR USER = (WRITABLE OR USER) OR PRESENT"
  by (simp_all add: PRESENT_def WRITABLE_def USER_def)

definition page_addr :: "nat \<Rightarrow> u64" where
  "page_addr s = of_nat (s * PAGE_SIZE)"

lemma page_addr_push: "page_addr s = push_bit 12 (of_nat s)"
  by (simp add: page_addr_def PAGE_SIZE_def push_bit_eq_mult mult.commute)

lemma page_addr_aligned: "s < MAX_PAGES \<Longrightarrow> page_addr s AND addr_mask = page_addr s"
proof -
  assume "s < MAX_PAGES"
  then have "unat (of_nat s :: u64) < 2 ^ 40" by (simp add: MAX_PAGES_def unat_of_nat)
  then have "take_bit 40 (of_nat s :: u64) = of_nat s"
    by (metis take_bit_nat_eq_self unsigned_take_bit_eq word_unat_eq_iff)
  then show ?thesis
    unfolding page_addr_push addr_mask_eq by (simp add: push_bit_and [symmetric] take_bit_eq_mask del: push_bit_and)
qed

lemma page_addr_unat: "s < MAX_PAGES \<Longrightarrow> unat (page_addr s) = s * PAGE_SIZE"
  by (simp add: page_addr_def MAX_PAGES_def PAGE_SIZE_def unat_of_nat del: of_nat_mult)

lemma page_addr_inj:
  assumes "s < MAX_PAGES" and "s' < MAX_PAGES"
  shows "page_addr s = page_addr s' \<longleftrightarrow> s = s'"
proof
  assume "page_addr s = page_addr s'"
  then have "s * PAGE_SIZE = s' * PAGE_SIZE" using page_addr_unat [OF assms(1)] page_addr_unat [OF assms(2)] by metis
  moreover have "PAGE_SIZE \<noteq> 0" by (simp add: PAGE_SIZE_def)
  ultimately show "s = s'" by simp
qed simp

text \<open>The indices see the bits 12 to 47 of an address.\<close>

definition same_page :: "u64 \<Rightarrow> u64 \<Rightarrow> bool" where
  "same_page u v \<longleftrightarrow> drop_bit 12 (take_bit 48 u) = drop_bit 12 (take_bit 48 v)"

lemma take_bit_bits: "take_bit n u = take_bit n (v :: u64) \<longleftrightarrow> (\<forall>k < n. bit u k = bit v k)"
proof
  assume "take_bit n u = take_bit n v"
  then show "\<forall>k < n. bit u k = bit v k" by (metis bit_take_bit_iff)
next
  assume "\<forall>k < n. bit u k = bit v k"
  then show "take_bit n u = take_bit n v" by (intro bit_eqI) (auto simp: bit_take_bit_iff)
qed

lemma index_bits:
  fixes u v :: u64
  shows "unat (drop_bit k u AND 0x1ff) = unat (drop_bit k v AND 0x1ff) \<longleftrightarrow> (\<forall>n < 9. bit u (k + n) = bit v (k + n))"
proof -
  have m: "(0x1ff :: u64) = mask 9" by (simp add: mask_eq_exp_minus_1)
  have "unat (drop_bit k u AND 0x1ff) = unat (drop_bit k v AND (0x1ff :: u64)) \<longleftrightarrow>
      take_bit 9 (drop_bit k u) = take_bit 9 (drop_bit k v)"
    unfolding m by (simp add: word_unat_eq_iff take_bit_eq_mask)
  also have "\<dots> \<longleftrightarrow> (\<forall>n < 9. bit u (k + n) = bit v (k + n))"
    by (simp add: take_bit_bits bit_drop_bit_eq)
  finally show ?thesis .
qed

lemma same_page_bits: "same_page u v \<longleftrightarrow> (\<forall>n. 12 \<le> n \<and> n < 48 \<longrightarrow> bit u n = bit v n)"
proof -
  have "same_page u v \<longleftrightarrow> (\<forall>n. 12 + n < 48 \<longrightarrow> bit u (12 + n) = bit v (12 + n))"
  proof -
    have "drop_bit 12 (take_bit 48 w) = take_bit 36 (drop_bit 12 w)" for w :: u64 by (simp add: drop_bit_take_bit)
    then show ?thesis by (simp add: same_page_def take_bit_bits bit_drop_bit_eq)
  qed
  also have "\<dots> \<longleftrightarrow> (\<forall>n. 12 \<le> n \<and> n < 48 \<longrightarrow> bit u n = bit v n)"
    by (metis le_add1 le_add_diff_inverse)
  finally show ?thesis .
qed

lemma indices_eq_iff: "page_table_indices u = page_table_indices v \<longleftrightarrow> same_page u v"
proof
  assume "page_table_indices u = page_table_indices v"
  then have b: "\<And>n. n < 9 \<Longrightarrow> bit u (39 + n) = bit v (39 + n)" "\<And>n. n < 9 \<Longrightarrow> bit u (30 + n) = bit v (30 + n)"
      "\<And>n. n < 9 \<Longrightarrow> bit u (21 + n) = bit v (21 + n)" "\<And>n. n < 9 \<Longrightarrow> bit u (12 + n) = bit v (12 + n)"
    unfolding page_table_indices_def list.inject index_bits by auto
  show "same_page u v"
    unfolding same_page_bits
  proof (intro allI impI)
    fix n :: nat assume n: "12 \<le> n \<and> n < 48"
    then consider "n < 21" | "21 \<le> n \<and> n < 30" | "30 \<le> n \<and> n < 39" | "39 \<le> n" by linarith
    then show "bit u n = bit v n"
      using n b(1) [of "n - 39"] b(2) [of "n - 30"] b(3) [of "n - 21"] b(4) [of "n - 12"] by cases auto
  qed
next
  assume "same_page u v"
  then show "page_table_indices u = page_table_indices v"
    unfolding page_table_indices_def list.inject index_bits same_page_bits by auto
qed

lemma indices_offset [simp]: "page_table_indices (v AND - 4096) = page_table_indices v"
proof -
  have m: "(- 4096 :: u64) = NOT (mask 12)" by (simp add: mask_eq_exp_minus_1)
  show ?thesis unfolding indices_eq_iff same_page_bits m by (auto simp: bit_and_iff bit_not_iff bit_mask_iff)
qed

lemma index_less: "unat (drop_bit k v AND (0x1ff :: u64)) < 512"
proof -
  have "drop_bit k v AND 0x1ff \<le> (0x1ff :: u64)" by (rule word_and_le1)
  then show ?thesis by (simp add: word_le_nat_alt)
qed

lemma indices_props: "length (page_table_indices v) = 4" "\<forall>i \<in> set (page_table_indices v). i < 512"
  by (simp_all add: page_table_indices_def index_less)

section \<open>Trees of tables\<close>

abbreviation child :: "phys_mem \<Rightarrow> u64 \<Rightarrow> nat \<Rightarrow> u64" where
  "child m t i \<equiv> pte_phys_addr (m t i)"

abbreviation present_at :: "phys_mem \<Rightarrow> u64 \<Rightarrow> nat \<Rightarrow> bool" where
  "present_at m t i \<equiv> i < 512 \<and> pte_is_present (m t i)"

text \<open>The tables reachable from \<open>t\<close> with \<open>n\<close> levels below it, and that they form a tree.\<close>

primrec tabs :: "phys_mem \<Rightarrow> nat \<Rightarrow> u64 \<Rightarrow> u64 set" where
  "tabs m 0 t = {t}"
| "tabs m (Suc n) t = insert t (\<Union>i \<in> {i. present_at m t i}. tabs m n (child m t i))"

primrec tree :: "phys_mem \<Rightarrow> nat \<Rightarrow> u64 \<Rightarrow> bool" where
  "tree m 0 t = True"
| "tree m (Suc n) t \<longleftrightarrow>
     (\<forall>i. present_at m t i \<longrightarrow> tree m n (child m t i) \<and> t \<notin> tabs m n (child m t i)) \<and>
     (\<forall>i j. present_at m t i \<and> present_at m t j \<and> i \<noteq> j \<longrightarrow> tabs m n (child m t i) \<inter> tabs m n (child m t j) = {})"

definition path :: "nat \<Rightarrow> nat list \<Rightarrow> bool" where
  "path n is \<longleftrightarrow> length is = n \<and> (\<forall>i \<in> set is. i < 512)"

lemma path_simps [simp]: "path 0 is \<longleftrightarrow> is = []" "path (Suc n) (i # is) \<longleftrightarrow> i < 512 \<and> path n is" "\<not> path (Suc n) []"
  by (auto simp: path_def)

lemma path_SucE: "path (Suc n) is \<Longrightarrow> (\<And>i js. is = i # js \<Longrightarrow> i < 512 \<Longrightarrow> path n js \<Longrightarrow> thesis) \<Longrightarrow> thesis"
  by (cases "is") (auto simp: path_def)

text \<open>The last-level entry at the end of a path, when everything on the way is present.\<close>

definition lookup :: "phys_mem \<Rightarrow> u64 \<Rightarrow> nat list \<Rightarrow> nat \<Rightarrow> u64 option" where
  "lookup m t is k =
     (case walk_tables m t is of Inl e \<Rightarrow> None | Inr t' \<Rightarrow> if pte_is_present (m t' k) then Some (m t' k) else None)"

lemma lookup_Nil: "lookup m t [] k = (if pte_is_present (m t k) then Some (m t k) else None)"
  by (simp add: lookup_def)

lemma lookup_Cons: "lookup m t (i # is) k = (if pte_is_present (m t i) then lookup m (child m t i) is k else None)"
  by (simp add: lookup_def)

lemma tabs_self [simp]: "t \<in> tabs m n t"
  by (cases n) auto

lemma walk_in_tabs: "walk_tables m t is = Ok t' \<Longrightarrow> path n is \<Longrightarrow> t' \<in> tabs m n t"
  by (induction n arbitrary: t "is") (auto elim!: path_SucE split: if_splits)

lemma walk_NotMapped: "walk_tables m t is = Err e \<Longrightarrow> e = NotMapped"
  by (induction m t "is" rule: walk_tables.induct) (auto split: if_splits)

text \<open>What lies outside the tables does not matter.\<close>

lemma tree_frame:
  assumes "\<forall>x \<in> tabs m n t. m' x = m x"
  shows "tabs m' n t = tabs m n t \<and> (tree m' n t \<longleftrightarrow> tree m n t)"
  using assms
proof (induction n arbitrary: t)
  case (Suc n)
  have t: "m' t = m t" using Suc.prems by simp
  have IH: "tabs m' n (child m t i) = tabs m n (child m t i) \<and> (tree m' n (child m t i) \<longleftrightarrow> tree m n (child m t i))"
    if "present_at m t i" for i by (rule Suc.IH) (use Suc.prems that in auto)
  then have "(\<Union>i \<in> {i. present_at m t i}. tabs m' n (child m t i)) = (\<Union>i \<in> {i. present_at m t i}. tabs m n (child m t i))"
    by (intro SUP_cong) auto
  then show ?case using IH by (simp add: t)
qed simp

lemma lookup_frame:
  assumes "\<forall>x \<in> tabs m n t. m' x = m x" and "path n is"
  shows "walk_tables m' t is = walk_tables m t is \<and> lookup m' t is k = lookup m t is k"
  using assms
proof (induction n arbitrary: t "is")
  case (Suc n)
  obtain i js where js: "is = i # js" "i < 512" "path n js" by (rule path_SucE [OF Suc.prems(2)])
  have t: "m' t = m t" using Suc.prems by simp
  show ?case
  proof (cases "pte_is_present (m t i)")
    case True
    have "\<forall>x \<in> tabs m n (child m t i). m' x = m x" using Suc.prems(1) True js(2) by auto
    from Suc.IH [OF this js(3)] True t show ?thesis by (simp add: js(1) lookup_Cons)
  qed (simp add: js(1) lookup_Cons t)
qed (simp add: lookup_Nil)

text \<open>
  A node whose entry \<open>j\<close> leads to a changed subtree, when the rest of the node and of the
  other subtrees is as before.
\<close>

lemma tree_child_changed:
  assumes tree: "tree m (Suc n) t" and j: "present_at m' t j" and t: "\<forall>i. i \<noteq> j \<longrightarrow> m' t i = m t i"
    and sub: "tree m' n (child m' t j)" and t_out: "t \<notin> tabs m' n (child m' t j)"
    and rest: "\<And>i x. present_at m t i \<Longrightarrow> i \<noteq> j \<Longrightarrow> x \<in> tabs m n (child m t i) \<Longrightarrow>
      m' x = m x \<and> x \<notin> tabs m' n (child m' t j)"
  shows "tree m' (Suc n) t" and "tabs m' (Suc n) t =
    insert t (tabs m' n (child m' t j) \<union> (\<Union>i \<in> {i. present_at m t i \<and> i \<noteq> j}. tabs m n (child m t i)))"
proof -
  have others: "present_at m' t i \<longleftrightarrow> present_at m t i" "child m' t i = child m t i" if "i \<noteq> j" for i using t that by auto
  have sub_i: "tabs m' n (child m' t i) = tabs m n (child m t i)" "tree m' n (child m' t i)" "t \<notin> tabs m' n (child m' t i)"
    if "present_at m t i" "i \<noteq> j" for i
    using tree_frame [of m n "child m t i" m'] rest [OF that] tree that t by auto
  have cross: "tabs m' n (child m' t i) \<inter> tabs m' n (child m' t j) = {}" if "present_at m t i" "i \<noteq> j" for i
    using sub_i(1) [OF that] rest [OF that] by blast
  have pairs: "tabs m' n (child m' t i) \<inter> tabs m' n (child m' t k) = {}"
    if "present_at m t i" "present_at m t k" "i \<noteq> j" "k \<noteq> j" "i \<noteq> k" for i k
    using sub_i(1) [OF that(1,3)] sub_i(1) [OF that(2,4)] tree that(1,2,5) by simp
  show "tree m' (Suc n) t"
    unfolding tree.simps
  proof (intro conjI allI impI)
    fix i assume i: "present_at m' t i"
    show "tree m' n (child m' t i)" "t \<notin> tabs m' n (child m' t i)"
      using i others(1) [of i] sub_i(2,3) [of i] sub t_out by (cases "i = j"; blast)+
  next
    fix i k assume ik: "present_at m' t i \<and> present_at m' t k \<and> i \<noteq> k"
    show "tabs m' n (child m' t i) \<inter> tabs m' n (child m' t k) = {}"
      using ik others(1) [of i] others(1) [of k] cross [of i] cross [of k] pairs [of i k]
      by (cases "i = j"; cases "k = j") blast+
  qed
  have "{i. present_at m' t i} = insert j {i. present_at m t i \<and> i \<noteq> j}" using j others(1) by blast
  then show "tabs m' (Suc n) t =
    insert t (tabs m' n (child m' t j) \<union> (\<Union>i \<in> {i. present_at m t i \<and> i \<noteq> j}. tabs m n (child m t i)))"
    using sub_i(1) by auto
qed

text \<open>A write to a last-level entry.\<close>

lemma set_entry_sel [simp]: "set_entry t i e m t i = e" "x \<noteq> t \<Longrightarrow> set_entry t i e m x = m x"
  "k \<noteq> i \<Longrightarrow> set_entry t i e m x k = m x k"
  by (auto simp: set_entry_def)

lemma leaf_write:
  assumes "tree m n t" and "path n is" and "walk_tables m t is = Ok t'"
  shows "tabs (set_entry t' k e m) n t = tabs m n t \<and> tree (set_entry t' k e m) n t \<and>
    (\<forall>js. path n js \<longrightarrow> walk_tables (set_entry t' k e m) t js = walk_tables m t js \<and>
       (walk_tables m t js = Ok t' \<longleftrightarrow> js = is))"
  using assms
proof (induction n arbitrary: t "is")
  case (Suc n)
  let ?m = "set_entry t' k e m"
  obtain j is' where is': "is = j # is'" "j < 512" "path n is'" by (rule path_SucE [OF Suc.prems(2)])
  have j: "present_at m t j" and w: "walk_tables m (child m t j) is' = Ok t'"
    using Suc.prems(3) is' by (auto split: if_splits)
  have tj: "tree m n (child m t j)" "t \<notin> tabs m n (child m t j)" using Suc.prems(1) j by auto
  have t': "t' \<in> tabs m n (child m t j)" by (rule walk_in_tabs [OF w is'(3)])
  then have "t \<noteq> t'" using tj(2) by blast
  then have t: "?m t = m t" by simp
  note IH = Suc.IH [OF tj(1) is'(3) w]
  have rest: "?m x = m x \<and> x \<notin> tabs ?m n (child ?m t j)"
    if "present_at m t i" "i \<noteq> j" "x \<in> tabs m n (child m t i)" for i x
  proof -
    have "tabs m n (child m t i) \<inter> tabs m n (child m t j) = {}" using Suc.prems(1) that(1,2) j by simp
    then have "x \<noteq> t'" "x \<notin> tabs m n (child m t j)" using that(3) t' by blast+
    then show ?thesis using IH t by simp
  qed
  have j': "present_at ?m t j" "tree ?m n (child ?m t j)" "t \<notin> tabs ?m n (child ?m t j)" using IH tj j t by auto
  have t_same: "\<forall>i. i \<noteq> j \<longrightarrow> ?m t i = m t i" using t by simp
  note node = tree_child_changed [OF Suc.prems(1) j'(1) t_same j'(2,3) rest]
  have "tabs ?m (Suc n) t = insert t (tabs ?m n (child ?m t j) \<union> (\<Union>i \<in> {i. present_at m t i \<and> i \<noteq> j}. tabs m n (child m t i)))"
    by (rule node(2))
  also have "\<dots> = tabs m (Suc n) t" using t IH j by auto
  finally have tabs: "tabs ?m (Suc n) t = tabs m (Suc n) t" .
  have "walk_tables ?m t js = walk_tables m t js \<and> (walk_tables m t js = Ok t' \<longleftrightarrow> js = is)" if js: "path (Suc n) js" for js
  proof -
    obtain i js' where js': "js = i # js'" "i < 512" "path n js'" by (rule path_SucE [OF js])
    show ?thesis
    proof (cases "i = j")
      case True
      then show ?thesis using IH js' is' j t by simp
    next
      case False
      show ?thesis
      proof (cases "pte_is_present (m t i)")
        case True
        have same: "\<forall>x \<in> tabs m n (child m t i). ?m x = m x" using rest [of i] True False js'(2) by blast
        have "walk_tables m (child m t i) js' \<noteq> Ok t'"
          using walk_in_tabs [of m "child m t i" js' t' n] js'(2,3) rest [of i t'] True False t' IH t by auto
        with lookup_frame [OF same js'(3)] True False js' is' t show ?thesis by simp
      qed (use js' is' t j False in auto)
    qed
  qed
  moreover have "tree ?m (Suc n) t" by (rule node(1))
  ultimately show ?case using tabs by blast
qed auto

section \<open>Allocation of pages\<close>

definition mem_ok :: "memory_state \<Rightarrow> bool" where
  "mem_ok g \<longleftrightarrow> (\<exists>m. g = Some m \<and> mm_inv m)"

definition page_set :: "memory_state \<Rightarrow> u64 set" where
  "page_set g = (case g of None \<Rightarrow> {} | Some m \<Rightarrow> page_addr ` used_set m)"

definition free_left :: "memory_state \<Rightarrow> nat" where
  "free_left g = (case g of None \<Rightarrow> 0 | Some m \<Rightarrow> card (free_set m))"

lemma allocate_one_fails:
  assumes "mm_inv m" and "allocate_pages m 1 = Some (Err e, m')"
  shows "free_set m = {}"
proof -
  obtain "is" where wf: "mm_wf m is" using assms(1) by (auto simp: mm_inv_def)
  have one: "0 < (1::nat)" "1 \<le> MAX_PAGES" by (simp_all add: MAX_PAGES_def)
  show ?thesis
  proof (cases "pick (strategy m) (free_blocks m) 1 is None 0")
    case None
    have "\<not> {x..<x + 1} \<subseteq> free_set m" for x by (rule allocate_none_ok(2) [OF wf one None])
    then show ?thesis by auto
  next
    case (Some b)
    from allocate_block_ok [OF wf one Some] assms(2) show ?thesis by auto
  qed
qed

lemma alloc_page_cases:
  assumes "mem_ok g"
  obtains (fail) e g' where "memory_allocate_page g = Some (Err e, g')" "mem_ok g'" "page_set g' = page_set g" "free_left g = 0"
    | (page) a g' where "memory_allocate_page g = Some (Ok a, g')" "mem_ok g'" "of_nat a \<notin> page_set g"
        "page_set g' = insert (of_nat a) (page_set g)" "of_nat a AND addr_mask = (of_nat a :: u64)"
        "free_left g = Suc (free_left g')"
proof -
  obtain m where m: "g = Some m" "mm_inv m" using assms by (auto simp: mem_ok_def)
  obtain r m' where r: "allocate_pages m 1 = Some (r, m')" "mm_inv m'" using mm.alloc_returns [OF m(2)] by blast
  have alloc: "memory_allocate_page g = Some (r, Some m')" using m r by (simp add: memory_allocate_page_def allocate_page_def)
  show thesis
  proof (cases r)
    case (Inl e)
    have "used_set m' = used_set m" using mm.alloc_Err [OF m(2)] r Inl by simp
    then show thesis
      using fail [of e "Some m'"] alloc m r Inl allocate_one_fails [OF m(2)] by (simp add: mem_ok_def page_set_def free_left_def)
  next
    case (Inr a)
    from mm.alloc_Ok [OF m(2) r(1) [unfolded Inr]] obtain s where
      s0: "a = s * PAGE_SIZE" "s + 1 \<le> MAX_PAGES" "{s..<s + 1} \<inter> used_set m = {}" "used_set m' = used_set m \<union> {s..<s + 1}" by blast
    then have s: "a = s * PAGE_SIZE" "s < MAX_PAGES" "s \<notin> used_set m" "used_set m' = insert s (used_set m)" by auto
    have a: "of_nat a = page_addr s" by (simp add: s(1) page_addr_def)
    have "page_addr s \<notin> page_addr ` used_set m"
      using s(2,3) page_addr_inj used_le [of m] by (auto simp: subset_iff)
    moreover have "card (free_set m) = Suc (card (free_set m'))"
      using card_page_sets [of m] card_page_sets [of m'] s(3,4) by simp
    ultimately show thesis
      using page [of a "Some m'"] alloc m r Inr s a page_addr_aligned [OF s(2)] by (simp add: mem_ok_def page_set_def free_left_def)
  qed
qed

section \<open>Creating tables\<close>

lemma zero_table: "tabs (zero_page t m) n t = {t}" "tree (zero_page t m) n t" "lookup (zero_page t m) t is k = None"
  by (induction n) (auto simp: zero_page_def lookup_def split: sum.splits, cases "is", auto)

text \<open>
  What the creating walk leaves as it was: the trees, every lookup, and every page in use
  outside the tables. Only pages that were free become tables.
\<close>

definition extends :: "nat \<Rightarrow> u64 \<Rightarrow> Vmm \<Rightarrow> Vmm \<Rightarrow> bool" where
  "extends n t w w' \<longleftrightarrow> mem_ok (vm_memory w') \<and> page_set (vm_memory w) \<subseteq> page_set (vm_memory w') \<and>
     tree (vm_phys w') n t \<and>
     tabs (vm_phys w') n t \<subseteq> tabs (vm_phys w) n t \<union> (page_set (vm_memory w') - page_set (vm_memory w)) \<and>
     (\<forall>x \<in> page_set (vm_memory w) - tabs (vm_phys w) n t. vm_phys w' x = vm_phys w x) \<and>
     (\<forall>js k. path n js \<longrightarrow> lookup (vm_phys w') t js k = lookup (vm_phys w) t js k) \<and>
     w' = w\<lparr>vm_memory := vm_memory w', vm_phys := vm_phys w'\<rparr>"

definition space_ok :: "nat \<Rightarrow> u64 \<Rightarrow> Vmm \<Rightarrow> bool" where
  "space_ok n t w \<longleftrightarrow> mem_ok (vm_memory w) \<and> tree (vm_phys w) n t \<and> tabs (vm_phys w) n t \<subseteq> page_set (vm_memory w)"

lemma extends_refl: "space_ok n t w \<Longrightarrow> extends n t w w"
  by (auto simp: extends_def space_ok_def)

lemma extends_space_ok: "extends n t w w' \<Longrightarrow> space_ok n t w \<Longrightarrow> space_ok n t w'"
  by (auto simp: extends_def space_ok_def)

text \<open>One level: the walk below the present entry \<open>j\<close> extends the subtree.\<close>

lemma extends_present:
  assumes ok: "space_ok (Suc n) t w" and j: "present_at (vm_phys w) t j" and ext: "extends n (child (vm_phys w) t j) w w'"
  shows "extends (Suc n) t w w' \<and> vm_phys w' t = vm_phys w t"
proof -
  let ?m = "vm_phys w" and ?m' = "vm_phys w'" and ?P = "page_set (vm_memory w)"
  let ?c = "child ?m t j"
  have tree: "tree ?m (Suc n) t" and in_P: "tabs ?m (Suc n) t \<subseteq> ?P" using ok by (auto simp: space_ok_def)
  have tj: "t \<notin> tabs ?m n ?c" using tree j by simp
  have tabs': "tabs ?m' n ?c \<subseteq> tabs ?m n ?c \<union> (page_set (vm_memory w') - ?P)" using ext by (simp add: extends_def)
  have same: "?m' x = ?m x" if "x \<in> ?P" "x \<notin> tabs ?m n ?c" for x using ext that by (auto simp: extends_def)
  have t: "?m' t = ?m t" by (rule same) (use in_P tj in auto)
  have sep: "x \<in> ?P \<and> x \<notin> tabs ?m n ?c" if "present_at ?m t i" "i \<noteq> j" "x \<in> tabs ?m n (child ?m t i)" for i x
  proof -
    have "tabs ?m n (child ?m t i) \<inter> tabs ?m n ?c = {}" using tree that(1,2) j by simp
    moreover have "x \<in> tabs ?m (Suc n) t" using that by auto
    ultimately show ?thesis using in_P that(3) by blast
  qed
  have rest: "?m' x = ?m x \<and> x \<notin> tabs ?m' n (child ?m' t j)"
    if "present_at ?m t i" "i \<noteq> j" "x \<in> tabs ?m n (child ?m t i)" for i x
    using same sep [OF that] tabs' t by auto
  have j': "present_at ?m' t j" "\<forall>i. i \<noteq> j \<longrightarrow> ?m' t i = ?m t i" "tree ?m' n (child ?m' t j)" "t \<notin> tabs ?m' n (child ?m' t j)"
    using j t ext tabs' tj in_P by (auto simp: extends_def)
  have node: "tree ?m' (Suc n) t" "tabs ?m' (Suc n) t =
      insert t (tabs ?m' n (child ?m' t j) \<union> (\<Union>i \<in> {i. present_at ?m t i \<and> i \<noteq> j}. tabs ?m n (child ?m t i)))"
    using tree_child_changed [OF tree j'] rest by blast+
  have look: "lookup ?m' t js k = lookup ?m t js k" if js: "path (Suc n) js" for js k
  proof -
    obtain i js' where js': "js = i # js'" "i < 512" "path n js'" by (rule path_SucE [OF js])
    have "lookup ?m' (child ?m t i) js' k = lookup ?m (child ?m t i) js' k" if "pte_is_present (?m t i)"
    proof (cases "i = j")
      case True
      then show ?thesis using ext js'(3) by (simp add: extends_def)
    next
      case False
      have "\<forall>x \<in> tabs ?m n (child ?m t i). ?m' x = ?m x" using rest [of i] that False js'(2) by blast
      from lookup_frame [OF this js'(3)] show ?thesis by simp
    qed
    then show ?thesis by (simp add: js'(1) lookup_Cons t)
  qed
  have "tabs ?m' (Suc n) t \<subseteq> tabs ?m (Suc n) t \<union> (page_set (vm_memory w') - ?P)"
  proof
    fix x assume x: "x \<in> tabs ?m' (Suc n) t"
    have "tabs ?m' (Suc n) t = insert t (tabs ?m' n ?c \<union> (\<Union>i \<in> {i. present_at ?m t i \<and> i \<noteq> j}. tabs ?m n (child ?m t i)))"
      using node(2) t by simp
    with x consider "x = t" | "x \<in> tabs ?m' n ?c" | i where "present_at ?m t i" "x \<in> tabs ?m n (child ?m t i)" by blast
    then show "x \<in> tabs ?m (Suc n) t \<union> (page_set (vm_memory w') - ?P)" using tabs' j by cases auto
  qed
  moreover have "\<forall>x \<in> ?P - tabs ?m (Suc n) t. ?m' x = ?m x" using same j by auto
  ultimately show ?thesis
    using node(1) look ext t unfolding extends_def by blast
qed

lemma extends_trans:
  assumes "extends n t w w1" and "extends n t w1 w2"
  shows "extends n t w w2"
proof -
  let ?P = "page_set (vm_memory w)" and ?P1 = "page_set (vm_memory w1)" and ?P2 = "page_set (vm_memory w2)"
  have 1: "?P \<subseteq> ?P1" "tabs (vm_phys w1) n t \<subseteq> tabs (vm_phys w) n t \<union> (?P1 - ?P)"
      "\<And>x. x \<in> ?P \<Longrightarrow> x \<notin> tabs (vm_phys w) n t \<Longrightarrow> vm_phys w1 x = vm_phys w x"
      "\<And>js k. path n js \<Longrightarrow> lookup (vm_phys w1) t js k = lookup (vm_phys w) t js k"
      "w1 = w\<lparr>vm_memory := vm_memory w1, vm_phys := vm_phys w1\<rparr>"
    using assms(1) by (auto simp: extends_def)
  have 2: "mem_ok (vm_memory w2)" "tree (vm_phys w2) n t" "?P1 \<subseteq> ?P2"
      "tabs (vm_phys w2) n t \<subseteq> tabs (vm_phys w1) n t \<union> (?P2 - ?P1)"
      "\<And>x. x \<in> ?P1 \<Longrightarrow> x \<notin> tabs (vm_phys w1) n t \<Longrightarrow> vm_phys w2 x = vm_phys w1 x"
      "\<And>js k. path n js \<Longrightarrow> lookup (vm_phys w2) t js k = lookup (vm_phys w1) t js k"
      "w2 = w1\<lparr>vm_memory := vm_memory w2, vm_phys := vm_phys w2\<rparr>"
    using assms(2) by (auto simp: extends_def)
  have "w2 = w\<lparr>vm_memory := vm_memory w2, vm_phys := vm_phys w2\<rparr>" by (subst 2(7), subst 1(5)) simp
  moreover have "vm_phys w2 x = vm_phys w x" if "x \<in> ?P" "x \<notin> tabs (vm_phys w) n t" for x
    using 1(3) [OF that] 2(5) [of x] 1(1,2) that by auto
  moreover have "tabs (vm_phys w2) n t \<subseteq> tabs (vm_phys w) n t \<union> (?P2 - ?P)" using 1(1,2) 2(3,4) by blast
  moreover have "lookup (vm_phys w2) t js k = lookup (vm_phys w) t js k" if "path n js" for js k
    using 1(4) [OF that] 2(6) [OF that] by simp
  moreover have "?P \<subseteq> ?P2" using 1(1) 2(3) by blast
  ultimately show ?thesis using 2(1,2) unfolding extends_def by blast
qed

lemma space_ok_child: "space_ok (Suc n) t w \<Longrightarrow> present_at (vm_phys w) t j \<Longrightarrow> space_ok n (child (vm_phys w) t j) w"
  by (auto simp: space_ok_def)

lemma extends_new:
  fixes c :: u64
  assumes ok: "space_ok (Suc n) t w" and j: "j < 512" "\<not> pte_is_present (vm_phys w t j)"
    and g: "mem_ok g" "c \<notin> page_set (vm_memory w)" "page_set g = insert c (page_set (vm_memory w))" "c AND addr_mask = c"
    and w2: "w2 = w\<lparr>vm_memory := g, vm_phys := set_entry t j (pte_set c (PRESENT OR WRITABLE OR USER)) (zero_page c (vm_phys w))\<rparr>"
  shows "extends (Suc n) t w w2" and "present_at (vm_phys w2) t j"
proof -
  let ?m = "vm_phys w" and ?m2 = "vm_phys w2" and ?P = "page_set (vm_memory w)"
  have tree: "tree ?m (Suc n) t" and in_P: "tabs ?m (Suc n) t \<subseteq> ?P" using ok by (auto simp: space_ok_def)
  have ct: "c \<noteq> t" using in_P g(2) by auto
  have e: "?m2 t j = pte_set c (PRESENT OR WRITABLE OR USER)" "?m2 c = (\<lambda>i. 0)" using ct by (auto simp: w2 zero_page_def set_entry_def)
  have same: "?m2 x = ?m x" if "x \<noteq> c" "x \<noteq> t" for x using that by (simp add: w2 zero_page_def)
  have t: "\<forall>i. i \<noteq> j \<longrightarrow> ?m2 t i = ?m t i" using ct by (simp add: w2 zero_page_def)
  show pres: "present_at ?m2 t j" unfolding e(1) table_flags(2) using pte_set_present j(1) by blast
  have ch: "child ?m2 t j = c" unfolding e(1) by (rule pte_set_addr [OF g(4) table_flags(1)])
  have zero: "\<forall>x \<in> tabs (zero_page c ?m) n c. ?m2 x = zero_page c ?m x"
    unfolding zero_table(1) using e(2) by (simp add: zero_page_def)
  have sub: "tabs ?m2 n c = {c}" "tree ?m2 n c" using tree_frame [OF zero] by (simp_all add: zero_table)
  have rest: "?m2 x = ?m x \<and> x \<noteq> c" if "present_at ?m t i" "x \<in> tabs ?m n (child ?m t i)" for i x
  proof -
    have "x \<in> ?P" using in_P that by auto
    then have "x \<noteq> c" using g(2) by metis
    moreover have "x \<noteq> t" using tree that by auto
    ultimately show ?thesis using same by simp
  qed
  have sub_j: "tree ?m2 n (child ?m2 t j)" "t \<notin> tabs ?m2 n (child ?m2 t j)" using sub ct ch by auto
  have rest_j: "?m2 x = ?m x \<and> x \<notin> tabs ?m2 n (child ?m2 t j)"
    if "present_at ?m t i" "x \<in> tabs ?m n (child ?m t i)" for i x using rest [OF that] sub ch by simp
  have node: "tree ?m2 (Suc n) t" "tabs ?m2 (Suc n) t =
      insert t (tabs ?m2 n (child ?m2 t j) \<union> (\<Union>i \<in> {i. present_at ?m t i \<and> i \<noteq> j}. tabs ?m n (child ?m t i)))"
    using tree_child_changed [where m = ?m and m' = ?m2 and j = j, OF tree pres t sub_j] rest_j by blast+
  have look: "lookup ?m2 t js k = lookup ?m t js k" if js: "path (Suc n) js" for js k
  proof -
    obtain i js' where js': "js = i # js'" "i < 512" "path n js'" by (rule path_SucE [OF js])
    show ?thesis
    proof (cases "i = j")
      case True
      have "lookup ?m2 c js' k = None" using lookup_frame [OF zero js'(3)] by (simp add: zero_table)
      then show ?thesis using True j ch pres by (simp add: js'(1) lookup_Cons)
    next
      case False
      have "lookup ?m2 (child ?m t i) js' k = lookup ?m (child ?m t i) js' k" if "pte_is_present (?m t i)"
        using lookup_frame [of ?m n "child ?m t i" ?m2 js' k] rest [of i] that js'(2,3) by blast
      then show ?thesis using t False by (simp add: js'(1) lookup_Cons)
    qed
  qed
  have "tabs ?m2 (Suc n) t \<subseteq> tabs ?m (Suc n) t \<union> (page_set (vm_memory w2) - ?P)"
    unfolding node(2) ch sub using g(2,3) by (auto simp: w2)
  moreover have "\<forall>x \<in> ?P - tabs ?m (Suc n) t. ?m2 x = ?m x" using same g(2) by (auto simp del: tabs.simps) (metis tabs_self)
  ultimately show "extends (Suc n) t w w2"
    using node(1) look g unfolding extends_def by (auto simp: w2 simp del: tabs.simps)
qed

lemma walk_create_spec:
  assumes "space_ok n t w" and "path n is"
  shows "\<exists>r w'. walk_create t is w = Some (r, w') \<and> extends n t w w' \<and> (\<forall>e. r = Err e \<longrightarrow> e = VmmOutOfMemory) \<and>
    (\<forall>t'. r = Ok t' \<longrightarrow> walk_tables (vm_phys w') t is = Ok t') \<and> (n \<le> free_left (vm_memory w) \<longrightarrow> is_ok r)"
  using assms
proof (induction n arbitrary: t "is" w)
  case 0
  then show ?case using extends_refl by auto
next
  case (Suc n)
  obtain j js where js: "is = j # js" "j < 512" "path n js" by (rule path_SucE [OF Suc.prems(2)])
  let ?m = "vm_phys w"
  show ?case
  proof (cases "pte_is_present (?m t j)")
    case True
    have ok: "space_ok n (child ?m t j) w" by (rule space_ok_child [OF Suc.prems(1)]) (use js True in simp)
    obtain r w' where r: "walk_create (child ?m t j) js w = Some (r, w')" "extends n (child ?m t j) w w'"
      "\<forall>e. r = Err e \<longrightarrow> e = VmmOutOfMemory" "\<forall>t'. r = Ok t' \<longrightarrow> walk_tables (vm_phys w') (child ?m t j) js = Ok t'"
      "n \<le> free_left (vm_memory w) \<longrightarrow> is_ok r"
      using Suc.IH [OF ok js(3)] by blast
    have ext: "extends (Suc n) t w w'" "vm_phys w' t = ?m t"
      using extends_present [OF Suc.prems(1) _ r(2)] js True by auto
    show ?thesis using r True js ext by auto
  next
    case False
    have mem: "mem_ok (vm_memory w)" using Suc.prems(1) by (simp add: space_ok_def)
    show ?thesis
    proof (cases rule: alloc_page_cases [OF mem, case_names fail page])
      case (fail e g)
      have "extends (Suc n) t w (w\<lparr>vm_memory := g\<rparr>)"
        using fail Suc.prems(1) by (auto simp: extends_def space_ok_def simp del: tabs.simps tree.simps)
      then show ?thesis using fail False js by (auto simp: Let_def)
    next
      case (page a g)
      define w2 where "w2 = w\<lparr>vm_memory := g, vm_phys := set_entry t j (pte_set (of_nat a) (PRESENT OR WRITABLE OR USER))
        (zero_page (of_nat a) ?m)\<rparr>"
      note new = extends_new [OF Suc.prems(1) js(2) False page(2-5) w2_def]
      have ok2: "space_ok (Suc n) t w2" by (rule extends_space_ok [OF new(1) Suc.prems(1)])
      have ok: "space_ok n (child (vm_phys w2) t j) w2" by (rule space_ok_child [OF ok2 new(2)])
      obtain r w' where r: "walk_create (child (vm_phys w2) t j) js w2 = Some (r, w')" "extends n (child (vm_phys w2) t j) w2 w'"
        "\<forall>e. r = Err e \<longrightarrow> e = VmmOutOfMemory"
        "\<forall>t'. r = Ok t' \<longrightarrow> walk_tables (vm_phys w') (child (vm_phys w2) t j) js = Ok t'"
        "n \<le> free_left (vm_memory w2) \<longrightarrow> is_ok r"
        using Suc.IH [OF ok js(3)] by blast
      have ext: "extends (Suc n) t w2 w'" "vm_phys w' t = vm_phys w2 t"
        using extends_present [OF ok2 new(2) r(2)] by auto
      have "walk_create t is w = Some (r, w')"
        using page(1) False js(1) r(1) by (simp add: Let_def w2_def)
      moreover have "\<forall>t'. r = Ok t' \<longrightarrow> walk_tables (vm_phys w') t is = Ok t'" using r(4) js(1) ext(2) new(2) by simp
      moreover have "Suc n \<le> free_left (vm_memory w) \<longrightarrow> is_ok r" using r(5) page(6) by (simp add: w2_def)
      ultimately show ?thesis using extends_trans [OF new(1) ext(1)] r(3) by blast
    qed
  qed
qed

end
