(* ===== verification/Vmm_Correct.thy ===== *)
theory Vmm_Correct
  imports Vmm_Tree
begin

text \<open>
  What the operations of the virtual memory manager do to translations: mapping, unmapping,
  copy-on-write and demand faults change the translation of one page and of no other, in
  one address space and in no other; and the shared flag, which overlaps the address field.
\<close>

unbundle bit_operations_syntax

section \<open>Address spaces\<close>

text \<open>An address space is in order when its four levels of tables form a tree of allocated pages.\<close>

definition as_ok :: "AddressSpace \<Rightarrow> Vmm \<Rightarrow> bool" where
  "as_ok s w \<longleftrightarrow> space_ok 3 (as_root s) w"

definition as_tabs :: "AddressSpace \<Rightarrow> Vmm \<Rightarrow> u64 set" where
  "as_tabs s w = tabs (vm_phys w) 3 (as_root s)"

definition entry_of :: "phys_mem \<Rightarrow> u64 \<Rightarrow> u64 \<Rightarrow> u64 option" where
  "entry_of m root v = lookup m root (take 3 (page_table_indices v)) (page_table_indices v ! 3)"

abbreviation as_entry :: "AddressSpace \<Rightarrow> Vmm \<Rightarrow> u64 \<Rightarrow> u64 option" where
  "as_entry s w \<equiv> entry_of (vm_phys w) (as_root s)"

lemma path_indices: "path 3 (take 3 (page_table_indices v))"
  using indices_props [of v] by (auto simp: path_def dest: in_set_takeD)

lemma entry_of_offset [simp]: "entry_of m root (v AND - 4096) = entry_of m root v"
  by (simp add: entry_of_def)

lemma leaf_entry_cases:
  obtains (none) "leaf_entry m root v = Err NotMapped" "entry_of m root v = None"
    | (leaf) t where "leaf_entry m root v = Ok (t, page_table_indices v ! 3)"
        "walk_tables m root (take 3 (page_table_indices v)) = Ok t"
        "entry_of m root v = Some (m t (page_table_indices v ! 3))" "pte_is_present (m t (page_table_indices v ! 3))"
proof (cases "walk_tables m root (take 3 (page_table_indices v))")
  case (Inl e)
  then show thesis using none walk_NotMapped [OF Inl] by (simp add: leaf_entry_def entry_of_def lookup_def Let_def)
next
  case (Inr t)
  then show thesis using none leaf [of t]
    by (cases "pte_is_present (m t (page_table_indices v ! 3))") (simp_all add: leaf_entry_def entry_of_def lookup_def Let_def)
qed

lemma translate_entry:
  "vmm_translate v s w =
     (case as_entry s w v of None \<Rightarrow> Err NotMapped | Some e \<Rightarrow> Ok (pte_phys_addr e OR (v AND 0xfff)))"
  by (cases rule: leaf_entry_cases [of "vm_phys w" "as_root s" "v AND - 4096"]) (simp_all add: vmm_translate_def Let_def)

lemma get_flags_entry:
  "vmm_get_flags v s w = (case as_entry s w v of None \<Rightarrow> Err NotMapped | Some e \<Rightarrow> Ok (pte_flags e))"
  by (cases rule: leaf_entry_cases [of "vm_phys w" "as_root s" "v AND - 4096"]) (simp_all add: vmm_get_flags_def Let_def)

lemma indices_split: "page_table_indices u = page_table_indices v \<longleftrightarrow>
    take 3 (page_table_indices u) = take 3 (page_table_indices v) \<and> page_table_indices u ! 3 = page_table_indices v ! 3"
  by (simp add: page_table_indices_def)

text \<open>A write to the last-level entry of \<open>v\<close> changes the entry of the page of \<open>v\<close> and no other.\<close>

lemma entry_write:
  assumes ok: "as_ok s w" and walk: "walk_tables (vm_phys w) (as_root s) (take 3 (page_table_indices v)) = Ok t"
    and m': "vm_phys w' = set_entry t (page_table_indices v ! 3) e (vm_phys w)" "vm_memory w' = vm_memory w"
    and s': "as_root s' = as_root s"
  shows "as_ok s' w'" and "as_tabs s' w' = as_tabs s w" and "t \<in> as_tabs s w"
    and "as_entry s' w' u = (if same_page u v then (if pte_is_present e then Some e else None) else as_entry s w u)"
proof -
  let ?k = "page_table_indices v ! 3"
  have tree: "tree (vm_phys w) 3 (as_root s)" using ok by (simp add: as_ok_def space_ok_def)
  note lw = leaf_write [OF tree path_indices walk, of ?k e]
  show "as_ok s' w'" "as_tabs s' w' = as_tabs s w"
    using ok lw m' s' by (auto simp: as_ok_def space_ok_def as_tabs_def)
  show "t \<in> as_tabs s w" using walk_in_tabs [OF walk path_indices] by (simp add: as_tabs_def)
  let ?is = "take 3 (page_table_indices u)"
  have w_u: "walk_tables (vm_phys w') (as_root s') ?is = walk_tables (vm_phys w) (as_root s) ?is"
    "walk_tables (vm_phys w) (as_root s) ?is = Ok t \<longleftrightarrow> ?is = take 3 (page_table_indices v)"
    using lw path_indices [of u] m' s' by auto
  show "as_entry s' w' u = (if same_page u v then (if pte_is_present e then Some e else None) else as_entry s w u)"
  proof (cases "same_page u v")
    case True
    then have "page_table_indices u = page_table_indices v" by (simp add: indices_eq_iff)
    then show ?thesis using True w_u walk m' s' by (simp add: entry_of_def lookup_def)
  next
    case False
    then have "?is \<noteq> take 3 (page_table_indices v) \<or> page_table_indices u ! 3 \<noteq> ?k"
      using indices_eq_iff indices_split by blast
    then show ?thesis using False w_u m' s' unfolding entry_of_def lookup_def
      by (auto split: sum.splits)
  qed
qed

lemma extends_entry: "extends 3 (as_root s) w w' \<Longrightarrow> as_entry s w' u = as_entry s w u"
  using path_indices [of u] by (simp add: extends_def entry_of_def)

section \<open>Mapping and unmapping\<close>

text \<open>The frame of an operation on \<open>s\<close>: pages in use that are not its tables stay as they are.\<close>

definition keeps_others :: "AddressSpace \<Rightarrow> Vmm \<Rightarrow> Vmm \<Rightarrow> bool" where
  "keeps_others s w w' \<longleftrightarrow> mem_ok (vm_memory w') \<and> page_set (vm_memory w) \<subseteq> page_set (vm_memory w') \<and>
     as_tabs s w' \<subseteq> as_tabs s w \<union> (page_set (vm_memory w') - page_set (vm_memory w)) \<and>
     (\<forall>x \<in> page_set (vm_memory w) - as_tabs s w. vm_phys w' x = vm_phys w x)"

lemma extends_keeps: "extends 3 (as_root s) w w' \<Longrightarrow> keeps_others s w w'"
  by (simp add: extends_def keeps_others_def as_tabs_def del: tabs.simps)

lemma keeps_refl: "as_ok s w \<Longrightarrow> keeps_others s w w"
  by (simp add: keeps_others_def as_ok_def space_ok_def)

lemma keeps_write:
  assumes "keeps_others s w w1" and "t \<in> as_tabs s w1" and "as_tabs s w2 = as_tabs s w1"
    and "vm_memory w2 = vm_memory w1" and "vm_phys w2 = set_entry t k e (vm_phys w1)"
  shows "keeps_others s w w2"
  unfolding keeps_others_def assms(3,4)
proof (intro conjI ballI)
  fix x assume x: "x \<in> page_set (vm_memory w) - as_tabs s w"
  then have "x \<noteq> t" using assms(1,2) by (auto simp: keeps_others_def)
  then show "vm_phys w2 x = vm_phys w x" using assms(1,5) x by (simp add: keeps_others_def)
qed (use assms(1) in \<open>simp_all add: keeps_others_def\<close>)

lemma as_tabs_root: "as_root s' = as_root s \<Longrightarrow> as_tabs s' w = as_tabs s w"
  by (simp add: as_tabs_def)

lemma other_space:
  assumes "keeps_others s w w'" and "as_ok s2 w" and "as_tabs s2 w \<inter> as_tabs s w = {}"
  shows "as_ok s2 w'" and "as_entry s2 w' u = as_entry s2 w u" and "as_tabs s2 w' \<inter> as_tabs s w' = {}"
proof -
  have in_P: "as_tabs s2 w \<subseteq> page_set (vm_memory w)" and tree: "tree (vm_phys w) 3 (as_root s2)"
    using assms(2) by (auto simp: as_ok_def space_ok_def as_tabs_def)
  have same: "\<forall>x \<in> tabs (vm_phys w) 3 (as_root s2). vm_phys w' x = vm_phys w x"
    using assms(1,3) in_P by (auto simp: keeps_others_def as_tabs_def)
  have tabs: "as_tabs s2 w' = as_tabs s2 w" and "tree (vm_phys w') 3 (as_root s2)"
    using tree_frame [OF same] tree by (auto simp: as_tabs_def)
  then show "as_ok s2 w'" using assms(1) in_P by (auto simp: as_ok_def space_ok_def keeps_others_def as_tabs_def)
  show "as_entry s2 w' u = as_entry s2 w u"
    using lookup_frame [OF same path_indices] by (simp add: entry_of_def)
  show "as_tabs s2 w' \<inter> as_tabs s w' = {}"
    using assms(1,3) in_P tabs by (auto simp: keeps_others_def)
qed

lemma map_spec:
  assumes ok: "as_ok s w" and al: "v AND 0xfff = 0" "p AND 0xfff = 0"
  obtains (mapped) s' w' where "vmm_map v p f s w = Some (Ok (), s', w')" "as_ok s' w'" "keeps_others s w w'"
      "as_root s' = as_root s" "as_mapped_pages s' = as_mapped_pages s + 1" "as_entry s w v = None"
      "\<And>u. as_entry s' w' u = (if same_page u v then Some (pte_set p (f OR PRESENT)) else as_entry s w u)"
    | (failed) e w' where "vmm_map v p f s w = Some (Err e, s, w')" "as_ok s w'" "keeps_others s w w'"
      "\<And>u. as_entry s w' u = as_entry s w u" "e = AlreadyMapped \<and> as_entry s w v \<noteq> None \<or> e = VmmOutOfMemory \<and> free_left (vm_memory w) < 3"
proof -
  let ?is = "take 3 (page_table_indices v)" and ?k = "page_table_indices v ! 3"
  obtain r w1 where r: "walk_create (as_root s) ?is w = Some (r, w1)" "extends 3 (as_root s) w w1"
    "\<forall>e. r = Err e \<longrightarrow> e = VmmOutOfMemory" "\<forall>t. r = Ok t \<longrightarrow> walk_tables (vm_phys w1) (as_root s) ?is = Ok t"
    "3 \<le> free_left (vm_memory w) \<longrightarrow> is_ok r"
    using walk_create_spec [OF ok [unfolded as_ok_def] path_indices] by blast
  have ok1: "as_ok s w1" using extends_space_ok [OF r(2)] ok by (simp add: as_ok_def)
  note same = extends_entry [OF r(2)] and keep = extends_keeps [OF r(2)]
  show thesis
  proof (cases r)
    case (Inl e)
    then show thesis using failed [of e w1] r al ok1 same keep by (auto simp: vmm_map_def Let_def not_le [symmetric])
  next
    case (Inr t)
    then have walk: "walk_tables (vm_phys w1) (as_root s) ?is = Ok t" using r(4) by simp
    have e: "as_entry s w v = (if pte_is_present (vm_phys w1 t ?k) then Some (vm_phys w1 t ?k) else None)"
      using same [of v] walk by (simp add: entry_of_def lookup_def)
    show thesis
    proof (cases "pte_is_present (vm_phys w1 t ?k)")
      case True
      then show thesis using failed [of AlreadyMapped w1] Inr r al ok1 same keep e by (simp add: vmm_map_def Let_def)
    next
      case False
      let ?s = "s\<lparr>as_mapped_pages := as_mapped_pages s + 1\<rparr>"
      let ?w = "w1\<lparr>vm_phys := set_entry t ?k (pte_set p (f OR PRESENT)) (vm_phys w1)\<rparr>"
      have ew: "as_ok ?s ?w" "as_tabs ?s ?w = as_tabs s w1" "t \<in> as_tabs s w1"
          "as_entry ?s ?w u = (if same_page u v then Some (pte_set p (f OR PRESENT)) else as_entry s w1 u)" for u
        using entry_write [OF ok1 walk, of ?w "pte_set p (f OR PRESENT)" ?s] by (simp_all add: pte_set_present)
      have "keeps_others s w ?w"
        by (rule keeps_write [OF keep ew(3)]) (use ew(2) as_tabs_root [of ?s s ?w] in simp_all)
      then show thesis
        using mapped [of ?s ?w] Inr r al ew same e False by (simp add: vmm_map_def Let_def)
    qed
  qed
qed

lemma unmap_spec:
  assumes ok: "as_ok s w" and al: "v AND 0xfff = 0"
  obtains (unmapped) e s' w' where "as_entry s w v = Some e" "vmm_unmap v s w = (Ok (pte_phys_addr e), s', w')"
      "as_ok s' w'" "keeps_others s w w'" "as_root s' = as_root s" "as_mapped_pages s' = as_mapped_pages s - 1"
      "\<And>u. as_entry s' w' u = (if same_page u v then None else as_entry s w u)"
    | (failed) "as_entry s w v = None" "vmm_unmap v s w = (Err NotMapped, s, w)"
proof (cases rule: leaf_entry_cases [of "vm_phys w" "as_root s" v, case_names none leaf])
  case none
  then show thesis using failed al by (simp add: vmm_unmap_def)
next
  case (leaf t)
  let ?k = "page_table_indices v ! 3"
  let ?s = "s\<lparr>as_mapped_pages := as_mapped_pages s - 1\<rparr>" and ?w = "w\<lparr>vm_phys := set_entry t ?k 0 (vm_phys w)\<rparr>"
  have ew: "as_ok ?s ?w" "as_tabs ?s ?w = as_tabs s w" "t \<in> as_tabs s w"
      "as_entry ?s ?w u = (if same_page u v then None else as_entry s w u)" for u
    using entry_write [OF ok leaf(2), of ?w 0 ?s] by simp_all
  have "keeps_others s w ?w"
    by (rule keeps_write [OF keeps_refl [OF ok] ew(3)]) (use ew(2) as_tabs_root [of ?s s ?w] in simp_all)
  then show thesis using unmapped [of _ ?s ?w] ew leaf al by (simp add: vmm_unmap_def)
qed

section \<open>New address spaces and faults\<close>

text \<open>A change outside the tables of an address space.\<close>

lemma untouched:
  assumes ok: "as_ok s w" and same: "\<And>x. x \<in> as_tabs s w \<Longrightarrow> vm_phys w' x = vm_phys w x"
    and mem: "mem_ok (vm_memory w')" "page_set (vm_memory w) \<subseteq> page_set (vm_memory w')"
  shows "as_ok s w'" and "as_tabs s w' = as_tabs s w" and "as_entry s w' u = as_entry s w u"
    and "walk_tables (vm_phys w') (as_root s) (take 3 (page_table_indices u)) =
      walk_tables (vm_phys w) (as_root s) (take 3 (page_table_indices u))"
proof -
  have frame: "\<forall>x \<in> tabs (vm_phys w) 3 (as_root s). vm_phys w' x = vm_phys w x" using same by (simp add: as_tabs_def)
  show "as_tabs s w' = as_tabs s w" using tree_frame [OF frame] by (simp add: as_tabs_def)
  show "as_ok s w'" using ok mem tree_frame [OF frame] by (auto simp: as_ok_def space_ok_def)
  show "as_entry s w' u = as_entry s w u" "walk_tables (vm_phys w') (as_root s) (take 3 (page_table_indices u)) =
      walk_tables (vm_phys w) (as_root s) (take 3 (page_table_indices u))"
    using lookup_frame [OF frame path_indices] by (simp_all add: entry_of_def)
qed

lemma as_tabs_used: "as_ok s w \<Longrightarrow> as_tabs s w \<subseteq> page_set (vm_memory w)"
  by (simp add: as_ok_def space_ok_def as_tabs_def)

lemma as_ok_mem: "as_ok s w \<Longrightarrow> mem_ok (vm_memory w)"
  by (simp add: as_ok_def space_ok_def)

lemma allocate_asid_same:
  "allocate_asid w = (r, w') \<Longrightarrow> vm_phys w' = vm_phys w \<and> vm_memory w' = vm_memory w"
  by (auto simp: allocate_asid_def Let_def split: if_splits)

lemma new_spec:
  assumes "mem_ok (vm_memory w)" and "AddressSpace_new w = Some (Ok s, w')"
  shows "as_root s \<notin> page_set (vm_memory w)" and "page_set (vm_memory w') = insert (as_root s) (page_set (vm_memory w))"
    and "mem_ok (vm_memory w')" and "vm_phys w' = zero_page (as_root s) (vm_phys w)"
    and "as_ok s w'" and "as_tabs s w' = {as_root s}" and "as_entry s w' u = None"
    and "free_left (vm_memory w) = Suc (free_left (vm_memory w'))"
proof -
  obtain a g where a: "memory_allocate_page (vm_memory w) = Some (Ok a, g)" "mem_ok g" "of_nat a \<notin> page_set (vm_memory w)"
      "page_set g = insert (of_nat a) (page_set (vm_memory w))" and s: "as_root s = of_nat a"
      and w': "vm_phys w' = zero_page (of_nat a) (vm_phys w)" "vm_memory w' = g"
      "free_left (vm_memory w) = Suc (free_left g)"
  proof (cases rule: alloc_page_cases [OF assms(1), case_names fail page])
    case (fail e g)
    then show thesis using assms(2) by (simp add: AddressSpace_new_def Let_def)
  next
    case (page a g)
    let ?w2 = "w\<lparr>vm_memory := g, vm_phys := zero_page (of_nat a) (vm_phys w)\<rparr>"
    obtain r w3 where r: "allocate_asid ?w2 = (r, w3)" by fastforce
    have "r \<noteq> Err e" for e using assms(2) page(1) r by (auto simp: AddressSpace_new_def Let_def)
    then obtain asid where "r = Ok asid" by (cases r) auto
    then show thesis using that [of a g] assms(2) page r allocate_asid_same [OF r] by (auto simp: AddressSpace_new_def Let_def)
  qed
  show "as_root s \<notin> page_set (vm_memory w)" "page_set (vm_memory w') = insert (as_root s) (page_set (vm_memory w))"
    "mem_ok (vm_memory w')" "vm_phys w' = zero_page (as_root s) (vm_phys w)" "free_left (vm_memory w) = Suc (free_left (vm_memory w'))" using a s w' by auto
  then show "as_ok s w'" "as_tabs s w' = {as_root s}" "as_entry s w' u = None"
    by (simp_all add: as_ok_def space_ok_def as_tabs_def entry_of_def zero_table)
qed

lemma pte_flags_addr: "pte_flags e AND addr_mask = 0"
  by (simp add: pte_flags_def and.assoc)

lemma flags_off: "(f AND g) AND addr_mask = 0" if "f AND addr_mask = 0" for f g :: u64
proof -
  have "(f AND g) AND addr_mask = (f AND addr_mask) AND g" by (simp only: ac_simps)
  then show ?thesis using that by simp
qed

lemma flags_or: "(f OR g) AND addr_mask = 0" if "f AND addr_mask = 0" "g AND addr_mask = 0" for f g :: u64
  using that by (simp add: bit.conj_disj_distrib2)

lemma flag_bits: "PRESENT AND addr_mask = 0" "WRITABLE AND addr_mask = 0" "COW AND addr_mask = 0" "DEMAND AND addr_mask = 0"
  by (simp_all add: PRESENT_def WRITABLE_def COW_def DEMAND_def)

text \<open>A fault handler that gives the page of \<open>v\<close> the fresh page \<open>p\<close> with some contents.\<close>

lemma fresh_page_write:
  assumes ok: "as_ok s w" and walk: "walk_tables (vm_phys w) (as_root s) (take 3 (page_table_indices v)) = Ok t"
    and p: "p \<notin> page_set (vm_memory w)" "mem_ok g" "page_set g = insert p (page_set (vm_memory w))" "p AND addr_mask = p"
    and f: "f AND addr_mask = 0"
    and w': "vm_memory w' = g" "vm_phys w' = set_entry t (page_table_indices v ! 3) (pte_set p (f OR PRESENT)) ((vm_phys w)(p := c))"
    and s': "as_root s' = as_root s"
  shows "as_ok s' w'" and "vm_phys w' p = c" and "keeps_others s w w'"
    and "as_entry s' w' u = (if same_page u v then Some (pte_set p (f OR PRESENT)) else as_entry s w u)"
    and "pte_phys_addr (pte_set p (f OR PRESENT)) = p"
proof -
  let ?w1 = "w\<lparr>vm_memory := g, vm_phys := (vm_phys w)(p := c)\<rparr>"
  have same: "vm_phys ?w1 x = vm_phys w x" if "x \<in> as_tabs s w" for x using as_tabs_used [OF ok] p(1) that by auto
  have "mem_ok (vm_memory ?w1)" "page_set (vm_memory w) \<subseteq> page_set (vm_memory ?w1)" using p(2,3) by auto
  note un = untouched [OF ok same this]
  have ok1: "as_ok s ?w1" and tabs1: "as_tabs s ?w1 = as_tabs s w" and entry1: "\<And>u. as_entry s ?w1 u = as_entry s w u"
    and walk1: "walk_tables (vm_phys ?w1) (as_root s) (take 3 (page_table_indices v)) = Ok t"
    using un walk by auto
  have w'1: "vm_phys w' = set_entry t (page_table_indices v ! 3) (pte_set p (f OR PRESENT)) (vm_phys ?w1)" using w' by simp
  note ew = entry_write [OF ok1 walk1 w'1 _ s']
  show "as_ok s' w'" using ew(1) w' by simp
  have tin: "t \<in> as_tabs s w" using ew(3) w' tabs1 by simp
  then have "t \<noteq> p" using as_tabs_used [OF ok] p(1) by auto
  then show "vm_phys w' p = c" using w' by simp
  have k1: "keeps_others s w ?w1" using p tabs1 same by (auto simp: keeps_others_def)
  have t1: "as_tabs s w' = as_tabs s ?w1" using ew(2) w'(1) as_tabs_root [OF s'] by simp
  show "keeps_others s w w'"
    by (rule keeps_write [OF k1 _ t1]) (use tin tabs1 w' in simp_all)
  show "as_entry s' w' u = (if same_page u v then Some (pte_set p (f OR PRESENT)) else as_entry s w u)"
    using ew(4) [of u] w' entry1 pte_set_present by simp
  show "pte_phys_addr (pte_set p (f OR PRESENT)) = p"
    by (rule pte_set_addr [OF p(4) flags_or [OF f flag_bits(1)]])
qed

lemma demand_fault_spec:
  assumes ok: "as_ok s w" and walk: "walk_tables (vm_phys w) (as_root s) (take 3 (page_table_indices v)) = Ok t"
    and demand: "flags_contains (pte_flags (vm_phys w t (page_table_indices v ! 3))) DEMAND"
  obtains (filled) p s' w' where "handle_demand_fault v s w = Some (Ok (), s', w')" "as_ok s' w'" "keeps_others s w w'"
      "p \<notin> page_set (vm_memory w)" "vm_phys w' p = (\<lambda>i. 0)" "as_mapped_pages s' = as_mapped_pages s + 1"
      "\<And>u. vmm_translate u s' w' = (if same_page u v then Ok (p OR (u AND 0xfff)) else vmm_translate u s w)"
    | (failed) w' where "handle_demand_fault v s w = Some (Err VmmOutOfMemory, s, w')" "as_ok s w'"
      "\<And>u. vmm_translate u s w' = vmm_translate u s w"
proof (cases rule: alloc_page_cases [OF as_ok_mem [OF ok], case_names fail page])
  case (fail e g)
  let ?w = "w\<lparr>vm_state := (vm_state w)\<lparr>vs_total_demand_faults := vs_total_demand_faults (vm_state w) + 1\<rparr>, vm_memory := g\<rparr>"
  have "as_ok s ?w" "\<And>u. as_entry s ?w u = as_entry s w u" using untouched [OF ok, of ?w] fail by auto
  then show thesis using failed [of ?w] fail walk demand by (simp add: handle_demand_fault_def Let_def translate_entry)
next
  case (page a g)
  let ?k = "page_table_indices v ! 3"
  define w' where "w' = snd (snd (the (handle_demand_fault v s w)))"
  let ?s = "s\<lparr>as_mapped_pages := as_mapped_pages s + 1\<rparr>"
  let ?f = "pte_flags (vm_phys w t ?k) AND NOT DEMAND"
  have run: "handle_demand_fault v s w = Some (Ok (), ?s, w')" and mem: "vm_memory w' = g"
    and phys: "vm_phys w' = set_entry t ?k (pte_set (of_nat a) (?f OR PRESENT)) ((vm_phys w)(of_nat a := (\<lambda>i. 0)))"
    using page(1) walk demand by (simp_all add: w'_def handle_demand_fault_def Let_def zero_page_def flush_tlb_def)
  note fw = fresh_page_write [OF ok walk page(3) page(2,4,5) flags_off [OF pte_flags_addr] mem phys, of ?s]
  show thesis
    by (rule filled [OF run, of "of_nat a"]) (use fw page(3) in \<open>auto simp: translate_entry\<close>)
qed

section \<open>The properties\<close>

text \<open>
  C3. Mapping a page: with page-aligned arguments, an address that fits the address field
  and flags that do not touch it, the call returns and keeps the address space in order. If it
  succeeds, the page was not mapped, every address of the page now translates to the
  physical page, with the requested flags, and the translation of every other page is
  unchanged. If it fails, the page was mapped already or fewer than the three pages the walk
  may need are free, and no translation changes.
\<close>

theorem vmm_map_spec:
  assumes "as_ok s w" and "v AND 0xfff = 0" and "p AND 0xfff = 0" and "p AND addr_mask = p" and "f AND addr_mask = 0"
  shows "\<exists>r s' w'. vmm_map v p f s w = Some (r, s', w') \<and> as_ok s' w' \<and>
    (case r of
       Inr _ \<Rightarrow> vmm_translate v s w = Err NotMapped \<and>
         (\<forall>u. vmm_translate u s' w' = (if same_page u v then Ok (p OR (u AND 0xfff)) else vmm_translate u s w)) \<and>
         (\<forall>u. vmm_get_flags u s' w' = (if same_page u v then Ok (pte_flags (pte_set p (f OR PRESENT))) else vmm_get_flags u s w))
     | Inl e \<Rightarrow> (e = AlreadyMapped \<and> (\<exists>q. vmm_translate v s w = Ok q) \<or> e = VmmOutOfMemory \<and> free_left (vm_memory w) < 3) \<and>
         (\<forall>u. vmm_translate u s' w' = vmm_translate u s w))"
proof (cases rule: map_spec [OF assms(1-3), of f, case_names mapped failed])
  case (mapped s' w')
  have "pte_phys_addr (pte_set p (f OR PRESENT)) = p" by (rule pte_set_addr [OF assms(4) flags_or [OF assms(5) flag_bits(1)]])
  with mapped show ?thesis
    by (intro exI [of _ "Ok ()"] exI [of _ s'] exI [of _ w']) (simp add: translate_entry get_flags_entry)
next
  case (failed e w')
  then show ?thesis
    by (intro exI [of _ "Err e"] exI [of _ s] exI [of _ w']) (auto simp: translate_entry)
qed

text \<open>The address space the examples use: the first one after boot.\<close>

definition vmm_boot :: Vmm where
  "vmm_boot = \<lparr>vm_memory = Some mm_default, vm_phys = (\<lambda>p i. 0), vm_refcounts = Map.empty,
     vm_shared = SharedMemoryRegistry_new, vm_state = VmmState_new\<rparr>"

lemma vmm_boot_mem: "mem_ok (vm_memory vmm_boot)"
  using mem_reachable_inv [OF mm_default_facts(1)] by (simp add: vmm_boot_def mem_ok_def)

lemma boot_space: "\<exists>s w. AddressSpace_new vmm_boot = Some (Ok s, w) \<and> as_root s = 0 \<and> as_ok s w \<and> (\<forall>u. as_entry s w u = None)"
proof -
  obtain m where m: "allocate_pages mm_default 1 = Some (Ok 0, m)" using allocate_default [of 1] by (auto simp: MAX_PAGES_def)
  then have "\<exists>s w. AddressSpace_new vmm_boot = Some (Ok s, w) \<and> as_root s = 0"
    by (simp add: AddressSpace_new_def vmm_boot_def memory_allocate_page_def allocate_page_def allocate_asid_def
        VmmState_new_def MAX_ADDRESS_SPACES_def Let_def)
  then show ?thesis using new_spec [OF vmm_boot_mem] by blast
qed

definition boot_as :: AddressSpace where
  "boot_as = (case AddressSpace_new vmm_boot of Some (Inr s, w) \<Rightarrow> s | _ \<Rightarrow> undefined)"

definition boot_vmm :: Vmm where
  "boot_vmm = (case AddressSpace_new vmm_boot of Some (Inr s, w) \<Rightarrow> w | _ \<Rightarrow> undefined)"

lemma boot_as: "AddressSpace_new vmm_boot = Some (Ok boot_as, boot_vmm)" "as_ok boot_as boot_vmm" "as_entry boot_as boot_vmm u = None"
  using boot_space by (auto simp: boot_as_def boot_vmm_def)

lemma boot_free: "3 \<le> free_left (vm_memory boot_vmm)"
  using new_spec(8) [OF vmm_boot_mem boot_as(1)] by (simp add: vmm_boot_def free_left_def mm_default_facts MAX_PAGES_def)

lemma boot_map: "\<exists>s1 w1. vmm_map 0x400000 0x7000 f boot_as boot_vmm = Some (Ok (), s1, w1)"
  by (cases rule: map_spec [where v = "0x400000" and p = "0x7000" and f = f, OF boot_as(2), case_names al1 al2 mapped failed])
    (use boot_as(3) boot_free in auto)

theorem vmm_map_spec_witness:
  "\<exists>s' w'. vmm_map 0x400000 0x7000 WRITABLE boot_as boot_vmm = Some (Ok (), s', w') \<and> vmm_translate 0x400123 s' w' = Ok 0x7123"
proof -
  obtain s' w' where map: "vmm_map 0x400000 0x7000 WRITABLE boot_as boot_vmm = Some (Ok (), s', w')" using boot_map by blast
  have al: "(0x400000 :: u64) AND 0xfff = 0" "(0x7000 :: u64) AND 0xfff = 0" "0x7000 AND addr_mask = 0x7000" "WRITABLE AND addr_mask = 0"
    by (simp_all add: WRITABLE_def)
  have same: "same_page 0x400123 0x400000" by (simp add: same_page_def)
  from vmm_map_spec [OF boot_as(2) al] map
  have "\<forall>u. vmm_translate u s' w' = (if same_page u 0x400000 then Ok (0x7000 OR (u AND 0xfff)) else vmm_translate u boot_as boot_vmm)"
    by auto
  with map same show ?thesis by simp
qed

text \<open>
  Unmapping undoes mapping: after a successful map of a page, unmapping it succeeds,
  returns the physical page and restores every translation and the count of mapped pages;
  unmapping a page that is not mapped fails and changes nothing.
\<close>

theorem vmm_unmap_roundtrip:
  assumes "as_ok s w" and "v AND 0xfff = 0" and "p AND 0xfff = 0" and "p AND addr_mask = p" and "f AND addr_mask = 0"
    and "vmm_map v p f s w = Some (Ok (), s1, w1)"
  shows "vmm_unmap v s w = (Err NotMapped, s, w) \<and>
    (\<exists>s2 w2. vmm_unmap v s1 w1 = (Ok p, s2, w2) \<and> as_ok s2 w2 \<and> as_mapped_pages s2 = as_mapped_pages s \<and>
       (\<forall>u. vmm_translate u s2 w2 = vmm_translate u s w))"
proof (cases rule: map_spec [OF assms(1-3), of f, case_names mapped failed])
  case (mapped s' w')
  have eq: "s' = s1" "w' = w1" using mapped(1) assms(6) by auto
  have addr: "pte_phys_addr (pte_set p (f OR PRESENT)) = p" by (rule pte_set_addr [OF assms(4) flags_or [OF assms(5) flag_bits(1)]])
  have before: "vmm_unmap v s w = (Err NotMapped, s, w)"
    by (cases rule: unmap_spec [OF assms(1,2), case_names unmapped failed]) (use mapped(6) in auto)
  have vv: "same_page v v" by (simp add: same_page_def)
  show ?thesis
  proof (cases rule: unmap_spec [OF mapped(2) assms(2), case_names unmapped failed])
    case (unmapped e s2 w2)
    have e: "e = pte_set p (f OR PRESENT)" using unmapped(1) mapped(7) [of v] vv by simp
    have "as_entry s2 w2 u = as_entry s w u" for u
    proof (cases "same_page u v")
      case True
      then have "page_table_indices u = page_table_indices v" by (simp add: indices_eq_iff)
      then have "as_entry s w u = None" using mapped(6) by (simp add: entry_of_def)
      then show ?thesis using unmapped(7) [of u] True by simp
    qed (use unmapped(7) mapped(7) in simp)
    then show ?thesis using before unmapped(2,3,6) e addr mapped(5) by (auto simp: eq translate_entry)
  next
    case failed
    then show ?thesis using mapped(7) [of v] vv by simp
  qed
next
  case (failed e w')
  then show ?thesis using assms(6) by simp
qed

theorem vmm_unmap_roundtrip_witness:
  "\<exists>s1 w1 s2 w2. vmm_map 0x400000 0x7000 WRITABLE boot_as boot_vmm = Some (Ok (), s1, w1) \<and>
     vmm_unmap 0x400000 s1 w1 = (Ok 0x7000, s2, w2) \<and> vmm_translate 0x400000 s2 w2 = vmm_translate 0x400000 boot_as boot_vmm"
proof -
  obtain s1 w1 where map: "vmm_map 0x400000 0x7000 WRITABLE boot_as boot_vmm = Some (Ok (), s1, w1)" using boot_map by blast
  have "(0x400000 :: u64) AND 0xfff = 0" "(0x7000 :: u64) AND 0xfff = 0" "0x7000 AND addr_mask = 0x7000" "WRITABLE AND addr_mask = 0"
    by (simp_all add: WRITABLE_def)
  from vmm_unmap_roundtrip [OF boot_as(2) this map] map show ?thesis by blast
qed

text \<open>
  C23. Isolation: creating an address space and mapping or unmapping in one address space
  change no translation of another whose tables are disjoint from its own, and keep the
  tables disjoint; a new address space is empty and disjoint from all others.
\<close>

theorem vmm_isolation:
  assumes ok2: "as_ok s2 w"
  shows "(\<forall>s w'. AddressSpace_new w = Some (Ok s, w') \<longrightarrow> as_ok s w' \<and> as_ok s2 w' \<and> as_tabs s2 w' \<inter> as_tabs s w' = {} \<and>
      (\<forall>u. vmm_translate u s w' = Err NotMapped \<and> vmm_translate u s2 w' = vmm_translate u s2 w)) \<and>
    (\<forall>s v p f r s' w'. as_ok s w \<and> as_tabs s2 w \<inter> as_tabs s w = {} \<and> v AND 0xfff = 0 \<and> p AND 0xfff = 0 \<and>
      (vmm_map v p f s w = Some (r, s', w') \<or> vmm_unmap v s w = (Ok p, s', w')) \<longrightarrow>
      as_ok s' w' \<and> as_ok s2 w' \<and> as_tabs s2 w' \<inter> as_tabs s' w' = {} \<and> (\<forall>u. vmm_translate u s2 w' = vmm_translate u s2 w))"
proof -
  have new: "as_ok s w' \<and> as_ok s2 w' \<and> as_tabs s2 w' \<inter> as_tabs s w' = {} \<and>
      (\<forall>u. vmm_translate u s w' = Err NotMapped \<and> vmm_translate u s2 w' = vmm_translate u s2 w)"
    if new: "AddressSpace_new w = Some (Ok s, w')" for s w'
  proof -
    note n = new_spec [OF as_ok_mem [OF ok2] new]
    have same: "vm_phys w' x = vm_phys w x" if "x \<in> as_tabs s2 w" for x
      using n(1,4) as_tabs_used [OF ok2] that by (auto simp: zero_page_def)
    have "page_set (vm_memory w) \<subseteq> page_set (vm_memory w')" using n(2) by auto
    note un = untouched [OF ok2 same n(3) this]
    show ?thesis using n un as_tabs_used [OF ok2] by (auto simp: translate_entry)
  qed
  have op: "as_ok s' w' \<and> as_ok s2 w' \<and> as_tabs s2 w' \<inter> as_tabs s' w' = {} \<and> (\<forall>u. vmm_translate u s2 w' = vmm_translate u s2 w)"
    if ok: "as_ok s w" and sep: "as_tabs s2 w \<inter> as_tabs s w = {}" and al: "v AND 0xfff = 0" "p AND 0xfff = 0"
      and call: "vmm_map v p f s w = Some (r, s', w') \<or> vmm_unmap v s w = (Ok p, s', w')" for s v p f r s' w'
  proof -
    have m: "as_ok s' w' \<and> keeps_others s w w' \<and> as_root s' = as_root s" if "vmm_map v p f s w = Some (r, s', w')"
      by (cases rule: map_spec [OF ok al, of f, case_names mapped failed]) (use that in auto)
    have u: "as_ok s' w' \<and> keeps_others s w w' \<and> as_root s' = as_root s" if "vmm_unmap v s w = (Ok p, s', w')"
      by (cases rule: unmap_spec [OF ok al(1), case_names unmapped failed]) (use that in auto)
    from m u call have k: "as_ok s' w'" "keeps_others s w w'" "as_root s' = as_root s" by auto
    show ?thesis using other_space [OF k(2) ok2 sep] k(1) as_tabs_root [OF k(3), of w'] by (simp add: translate_entry)
  qed
  show ?thesis using new op by blast
qed

lemma new_succeeds:
  assumes "mem_ok (vm_memory w)" and "0 < free_left (vm_memory w)" and "vs_next_asid (vm_state w) < 255"
  shows "\<exists>s w'. AddressSpace_new w = Some (Ok s, w') \<and> vs_next_asid (vm_state w') = Suc (vs_next_asid (vm_state w))"
proof (cases rule: alloc_page_cases [OF assms(1), case_names fail page])
  case (fail e g)
  then show ?thesis using assms(2) by simp
next
  case (page a g)
  then show ?thesis using assms(3)
    by (simp add: AddressSpace_new_def allocate_asid_def MAX_ADDRESS_SPACES_def Let_def no_wrap)
qed

lemma boot_second: "\<exists>s w'. AddressSpace_new boot_vmm = Some (Ok s, w')"
proof -
  have "0 < free_left (vm_memory vmm_boot)" by (simp add: vmm_boot_def free_left_def mm_default_facts MAX_PAGES_def)
  then have "vs_next_asid (vm_state boot_vmm) = 2"
    using new_succeeds [OF vmm_boot_mem] boot_as(1) by (auto simp: vmm_boot_def VmmState_new_def)
  then show ?thesis using new_succeeds [OF as_ok_mem [OF boot_as(2)]] boot_free by auto
qed

theorem vmm_isolation_witness:
  "\<exists>s w'. AddressSpace_new boot_vmm = Some (Ok s, w') \<and> as_tabs boot_as w' \<inter> as_tabs s w' = {} \<and>
     (\<forall>u. vmm_translate u s w' = Err NotMapped \<and> vmm_translate u boot_as w' = vmm_translate u boot_as boot_vmm)"
proof -
  obtain s w' where "AddressSpace_new boot_vmm = Some (Ok s, w')" using boot_second by blast
  with vmm_isolation [OF boot_as(2)] show ?thesis by blast
qed

text \<open>
  Demand paging: after a page has been marked for demand paging, with flags that do not
  include the present flag, it is not mapped, and a fault on it returns. If a page is free
  the fault maps the page to a fresh physical page full of zeros and changes no other
  translation. The query whether an address is demand-paged answers no in between.
\<close>

theorem demand_paging:
  assumes ok: "as_ok s w" and al: "v AND 0xfff = 0" and f: "f AND addr_mask = 0" "f AND PRESENT = 0"
    and map: "map_demand v 1 f s w = Some (Ok (), w1)"
  shows "as_ok s w1 \<and> vmm_translate v s w1 = Err NotMapped \<and> is_demand_paged v s w1 = Ok False \<and>
    (\<exists>r s' w'. handle_demand_fault v s w1 = Some (r, s', w') \<and> as_ok s' w' \<and>
      (if r = Ok () then \<exists>p. p \<notin> page_set (vm_memory w1) \<and> vm_phys w' p = (\<lambda>i. 0) \<and>
           (\<forall>u. vmm_translate u s' w' = (if same_page u v then Ok (p OR (u AND 0xfff)) else vmm_translate u s w1))
       else r = Err VmmOutOfMemory \<and> (\<forall>u. vmm_translate u s' w' = vmm_translate u s w1)))"
proof -
  let ?is = "take 3 (page_table_indices v)" and ?k = "page_table_indices v ! 3" and ?e = "pte_set 0 (f OR DEMAND)"
  obtain r w0 where r: "walk_create (as_root s) ?is w = Some (r, w0)" "extends 3 (as_root s) w w0"
    "\<forall>t. r = Ok t \<longrightarrow> walk_tables (vm_phys w0) (as_root s) ?is = Ok t"
    using walk_create_spec [OF ok [unfolded as_ok_def] path_indices] by blast
  obtain t where t: "r = Ok t" and w1: "w1 = w0\<lparr>vm_phys := set_entry t ?k ?e (vm_phys w0)\<rparr>"
    using map r(1) al by (cases r) (auto simp: map_demand_def Let_def)
  have ok0: "as_ok s w0" using extends_space_ok [OF r(2)] ok by (simp add: as_ok_def)
  have walk0: "walk_tables (vm_phys w0) (as_root s) ?is = Ok t" using r(3) t by simp
  have absent: "\<not> pte_is_present ?e" using f(2) by (simp add: pte_is_present_def pte_set_def bit.conj_disj_distrib2 DEMAND_def PRESENT_def)
  have "vm_phys w1 = set_entry t ?k ?e (vm_phys w0)" "vm_memory w1 = vm_memory w0" using w1 by auto
  note ew = entry_write [OF ok0 walk0 this refl]
  have vv: "same_page v v" by (simp add: same_page_def)
  have none: "as_entry s w1 v = None" using ew(4) [of v] vv absent by simp
  have tree: "tree (vm_phys w0) 3 (as_root s)" using ok0 by (simp add: as_ok_def space_ok_def)
  have walk1: "walk_tables (vm_phys w1) (as_root s) ?is = Ok t"
    using leaf_write [OF tree path_indices walk0, of ?k ?e] walk0 path_indices [of v] w1 by simp
  have demand: "flags_contains (pte_flags (vm_phys w1 t ?k)) DEMAND"
    by (simp add: w1 flags_contains_def pte_flags_def pte_set_def bit.conj_disj_distrib2 DEMAND_def and.assoc)
  have before: "vmm_translate v s w1 = Err NotMapped" "is_demand_paged v s w1 = Ok False"
    using none by (simp_all add: translate_entry is_demand_paged_def get_flags_entry)
  show ?thesis
  proof (cases rule: demand_fault_spec [OF ew(1) walk1 demand, case_names filled failed])
    case (filled p s' w')
    then show ?thesis using ew(1) before by auto
  next
    case (failed w')
    then show ?thesis using ew(1) before by auto
  qed
qed

lemma boot_demand: "\<exists>w1. map_demand 0x400000 1 USER boot_as boot_vmm = Some (Ok (), w1)"
proof -
  obtain r w' where "walk_create (as_root boot_as) (take 3 (page_table_indices 0x400000)) boot_vmm = Some (r, w')" "is_ok r"
    using walk_create_spec [OF boot_as(2) [unfolded as_ok_def] path_indices] boot_free by blast
  then show ?thesis by (cases r) (auto simp: map_demand_def Let_def)
qed

theorem demand_paging_witness:
  "\<exists>w1. map_demand 0x400000 1 USER boot_as boot_vmm = Some (Ok (), w1) \<and> is_demand_paged 0x400000 boot_as w1 = Ok False \<and>
     handle_demand_fault 0x400000 boot_as w1 \<noteq> None"
proof -
  obtain w1 where map: "map_demand 0x400000 1 USER boot_as boot_vmm = Some (Ok (), w1)" using boot_demand by blast
  have "(0x400000 :: u64) AND 0xfff = 0" "USER AND addr_mask = 0" "USER AND PRESENT = 0"
    by (simp_all add: USER_def PRESENT_def)
  from demand_paging [OF boot_as(2) this map] map show ?thesis by auto
qed

text \<open>
  The shared flag is bit 12, inside the address field: a page mapped with it translates
  to the physical page with bit 12 set, so two neighbouring pages of a shared region
  translate to the same physical page, or a page of the region to a page outside it.
\<close>

theorem shared_flag_corrupts_address:
  assumes "as_ok s w" and "v AND 0xfff = 0" and "p AND 0xfff = 0" and "p AND addr_mask = p" and "f AND addr_mask = 0"
    and "vmm_map v p (f OR SHARED) s w = Some (Ok (), s', w')"
  shows "vmm_translate v s' w' = Ok (p OR 0x1000)"
proof (cases rule: map_spec [OF assms(1-3), of "f OR SHARED", case_names mapped failed])
  case (mapped s1 w1)
  have eq: "s1 = s'" "w1 = w'" using mapped(1) assms(6) by auto
  have vv: "same_page v v" by (simp add: same_page_def)
  have "pte_phys_addr (pte_set p ((f OR SHARED) OR PRESENT)) = p OR 0x1000"
    using assms(4,5) by (simp add: pte_phys_addr_def pte_set_def bit.conj_disj_distrib2 and.assoc SHARED_def PRESENT_def)
  then show ?thesis using mapped(7) [of v] vv assms(2) by (simp add: eq translate_entry)
next
  case (failed e w1)
  then show ?thesis using assms(6) by simp
qed

theorem shared_flag_corrupts_address_witness:
  "\<exists>s1 w1. vmm_map 0x400000 0x6000 (WRITABLE OR SHARED) boot_as boot_vmm = Some (Ok (), s1, w1) \<and>
     vmm_translate 0x400000 s1 w1 = Ok 0x7000"
proof -
  obtain s1 w1 where map: "vmm_map 0x400000 0x6000 (WRITABLE OR SHARED) boot_as boot_vmm = Some (Ok (), s1, w1)"
    by (cases rule: map_spec [where v = "0x400000" and p = "0x6000" and f = "WRITABLE OR SHARED", OF boot_as(2), case_names al1 al2 mapped failed])
      (use boot_as(3) boot_free in auto)
  have "(0x400000 :: u64) AND 0xfff = 0" "(0x6000 :: u64) AND 0xfff = 0" "0x6000 AND addr_mask = 0x6000" "WRITABLE AND addr_mask = 0"
    by (simp_all add: WRITABLE_def)
  from shared_flag_corrupts_address [OF boot_as(2) this map] map show ?thesis by auto
qed

lemma offset_page: "(v AND - 4096) AND 4095 = (0 :: u64)"
proof -
  have "(v AND - 4096) AND 4095 = v AND (- 4096 AND (4095 :: u64))" by (simp only: and.assoc)
  then show ?thesis by simp
qed

lemma cow_new_flags:
  assumes "pte_is_present e"
  shows "(pte_flags e AND NOT COW) OR WRITABLE = ((pte_flags e AND NOT COW) OR WRITABLE) OR PRESENT"
proof -
  have "bit e 0" using assms by (simp add: pte_is_present_def PRESENT_def bit_iff_and_push_bit_not_eq_0)
  then have "bit ((pte_flags e AND NOT COW) OR WRITABLE) 0"
    by (simp add: pte_flags_def COW_def WRITABLE_def bit_or_iff bit_and_iff bit_not_iff)
  then show ?thesis by (intro bit_eqI) (auto simp: PRESENT_def bit_or_iff bit_1_iff)
qed

lemma contains_bit: "flags_contains x (push_bit n 1) \<longleftrightarrow> bit x n" if "n < 64"
proof -
  have "x AND push_bit n 1 = (if bit x n then push_bit n 1 else 0)"
    by (intro bit_eqI) (auto simp: bit_and_iff bit_exp_iff)
  then show ?thesis using that by (simp add: flags_contains_def)
qed

lemma bit_pte_flags: "bit (pte_flags e) n \<longleftrightarrow> bit e n \<and> \<not> (12 \<le> n \<and> n < 52)" if "n < 64"
proof -
  have "(0xfff0000000000fff :: u64) = NOT addr_mask" by simp
  then have "pte_flags e = e AND NOT addr_mask" by (simp only: pte_flags_def)
  then show ?thesis using that by (simp only: bit_and_iff bit_not_iff bit_addr_mask) auto
qed

lemma cow_result_flags:
  assumes "p AND addr_mask = p"
  shows "flags_contains (pte_flags (pte_set p ((pte_flags e AND NOT COW) OR WRITABLE))) WRITABLE"
    and "\<not> flags_contains (pte_flags (pte_set p ((pte_flags e AND NOT COW) OR WRITABLE))) COW"
proof -
  have p: "\<not> bit (p AND addr_mask) 9" by (simp only: bit_and_iff bit_addr_mask) simp
  have b: "bit (pte_set p ((pte_flags e AND NOT COW) OR WRITABLE)) 1" "\<not> bit (pte_set p ((pte_flags e AND NOT COW) OR WRITABLE)) 9"
    using p by (simp_all add: pte_set_def COW_def WRITABLE_def bit_or_iff bit_and_iff bit_not_iff bit_exp_iff)
  show "flags_contains (pte_flags (pte_set p ((pte_flags e AND NOT COW) OR WRITABLE))) WRITABLE"
    using b(1) unfolding WRITABLE_def [symmetric] by (simp only: WRITABLE_def contains_bit bit_pte_flags) simp
  show "\<not> flags_contains (pte_flags (pte_set p ((pte_flags e AND NOT COW) OR WRITABLE))) COW"
    using b(2) by (simp only: COW_def contains_bit bit_pte_flags) simp
qed

text \<open>
  C34. Copy on write: a write fault on a page that is marked copy-on-write and whose physical
  page is shared returns. If a page is free, the faulting page is moved to a fresh physical
  page with the same contents, becomes writable and loses the mark, the count of the shared
  page drops by one, no other translation changes and neither does any page in use outside the tables.
\<close>

theorem cow_fault:
  assumes ok: "as_ok s w" and entry: "as_entry s w v = Some e" and cow: "flags_contains (pte_flags e) COW"
    and shared: "1 < get_ref (pte_phys_addr e) (vm_refcounts w)" "get_ref (pte_phys_addr e) (vm_refcounts w) < USIZE_MOD"
  shows "\<exists>r w'. handle_cow_fault v s w = Some (r, w') \<and> as_ok s w' \<and>
    (if r = Ok () then \<exists>p f. p \<notin> page_set (vm_memory w) \<and> vm_phys w' p = vm_phys w (pte_phys_addr e) \<and>
         (\<forall>u. vmm_translate u s w' = (if same_page u v then Ok (p OR (u AND 0xfff)) else vmm_translate u s w)) \<and>
         vmm_get_flags v s w' = Ok f \<and> flags_contains f WRITABLE \<and> \<not> flags_contains f COW \<and>
         get_ref (pte_phys_addr e) (vm_refcounts w') = get_ref (pte_phys_addr e) (vm_refcounts w) - 1 \<and>
         (\<forall>x \<in> page_set (vm_memory w) - as_tabs s w. vm_phys w' x = vm_phys w x)
     else r = Err VmmOutOfMemory \<and> free_left (vm_memory w) = 0 \<and> (\<forall>u. vmm_translate u s w' = vmm_translate u s w))"
proof -
  let ?k = "page_table_indices v ! 3" and ?old = "pte_phys_addr e" and ?F = "(pte_flags e AND NOT COW) OR WRITABLE"
  define w0 where "w0 = w\<lparr>vm_state := (vm_state w)\<lparr>vs_total_cow_faults := vs_total_cow_faults (vm_state w) + 1\<rparr>\<rparr>"
  have w0: "vm_phys w0 = vm_phys w" "vm_memory w0 = vm_memory w" "vm_refcounts w0 = vm_refcounts w" by (simp_all add: w0_def)
  obtain t where t: "leaf_entry (vm_phys w) (as_root s) v = Ok (t, ?k)"
      "walk_tables (vm_phys w) (as_root s) (take 3 (page_table_indices v)) = Ok t" "vm_phys w t ?k = e" "pte_is_present e"
    by (cases rule: leaf_entry_cases [of "vm_phys w" "as_root s" v, case_names none leaf]) (use entry in auto)
  have leaf: "leaf_entry (vm_phys w) (as_root s) (v AND - 4096) = Ok (t, ?k)" using t(1) by (simp add: leaf_entry_def Let_def)
  have old: "vmm_translate (v AND - 4096) s w0 = Ok ?old" using entry w0 by (simp add: translate_entry offset_page)
  obtain count where count: "vm_refcounts w ?old = Some count" "1 < count" "count < USIZE_MOD"
    using shared by (auto simp: get_ref_def split: option.splits)
  show ?thesis
  proof (cases rule: alloc_page_cases [OF as_ok_mem [OF ok], case_names fail page])
    case (fail x g)
    let ?w = "w0\<lparr>vm_memory := g\<rparr>"
    have "handle_cow_fault v s w = Some (Err VmmOutOfMemory, ?w)"
      using fail(1) leaf old cow shared(1) t(3) w0 by (simp add: handle_cow_fault_def Let_def w0_def [symmetric])
    moreover have "as_ok s ?w" "\<And>u. as_entry s ?w u = as_entry s w u" using untouched [OF ok, of ?w] fail w0 by auto
    ultimately show ?thesis using fail(4) by (auto simp: translate_entry)
  next
    case (page a g)
    define w' where "w' = snd (the (handle_cow_fault v s w))"
    have run: "handle_cow_fault v s w = Some (Ok (), w')" and mem: "vm_memory w' = g"
      and phys: "vm_phys w' = set_entry t ?k (pte_set (of_nat a) ?F) ((vm_phys w)(of_nat a := vm_phys w ?old))"
      and rc: "vm_refcounts w' = (vm_refcounts w)(?old \<mapsto> count - 1)"
      using page(1) leaf old cow shared(1) t(3) w0 count
      by (simp_all add: w'_def handle_cow_fault_def Let_def w0_def [symmetric] dec_ref_def copy_page_def flush_tlb_def no_wrap)
    have F: "?F AND addr_mask = 0" by (rule flags_or [OF flags_off [OF pte_flags_addr] flag_bits(2)])
    have phys': "vm_phys w' = set_entry t ?k (pte_set (of_nat a) (?F OR PRESENT)) ((vm_phys w)(of_nat a := vm_phys w ?old))"
      using phys cow_new_flags [OF t(4)] by simp
    note fw = fresh_page_write [OF ok t(2) page(3) page(2,4,5) F mem phys' refl]
    have vv: "same_page v v" by (simp add: same_page_def)
    have "vmm_get_flags v s w' = Ok (pte_flags (pte_set (of_nat a) ?F))"
      using fw(4) [of v] vv cow_new_flags [OF t(4)] by (simp add: get_flags_entry)
    moreover have "get_ref ?old (vm_refcounts w') = get_ref ?old (vm_refcounts w) - 1" using rc count by (simp add: get_ref_def)
    moreover have "\<forall>u. vmm_translate u s w' = (if same_page u v then Ok (of_nat a OR (u AND 0xfff)) else vmm_translate u s w)"
      using fw(4,5) by (simp add: translate_entry)
    moreover have "\<forall>x \<in> page_set (vm_memory w) - as_tabs s w. vm_phys w' x = vm_phys w x" using fw(3) by (simp add: keeps_others_def)
    ultimately show ?thesis
      using run fw(1,2) page(3) cow_result_flags [OF page(5), of e]
      by (intro exI [of _ "Ok ()"] exI [of _ w'] conjI) auto
  qed
qed

theorem cow_fault_witness:
  "\<exists>s w. vmm_map 0x400000 0x7000 COW boot_as boot_vmm = Some (Ok (), s, w) \<and>
     (\<exists>r w'. handle_cow_fault 0x400123 s (w\<lparr>vm_refcounts := [0x7000 \<mapsto> 2]\<rparr>) = Some (r, w') \<and> as_ok s w')"
proof -
  let ?e = "pte_set 0x7000 (COW OR PRESENT)"
  obtain s w where map: "vmm_map 0x400000 0x7000 COW boot_as boot_vmm = Some (Ok (), s, w)" and ok: "as_ok s w"
      and entry: "as_entry s w 0x400123 = Some ?e"
    by (cases rule: map_spec [where v = "0x400000" and p = "0x7000" and f = COW, OF boot_as(2), case_names al1 al2 mapped failed])
      (use boot_as(3) boot_free in \<open>auto simp: same_page_def\<close>)
  let ?w = "w\<lparr>vm_refcounts := [0x7000 \<mapsto> 2]\<rparr>"
  have "as_ok s ?w" using untouched(1) [OF ok, of ?w] as_ok_mem [OF ok] by simp
  moreover have "as_entry s ?w 0x400123 = Some ?e" using entry by simp
  moreover have "flags_contains (pte_flags ?e) COW" by (simp add: flags_contains_def pte_flags_def pte_set_def COW_def PRESENT_def)
  moreover have "pte_phys_addr ?e = 0x7000" by (simp add: pte_phys_addr_def pte_set_def COW_def PRESENT_def)
  ultimately show ?thesis using cow_fault [of s ?w "0x400123" ?e] map by (force simp: get_ref_def)
qed

end
