(* ===== verification/Heapless.thy ===== *)
theory Heapless
  imports Prelude
begin

text \<open>
  The interface of the fixed-capacity containers of the \<open>heapless\<close> crate, which the sources
  only call. A container is represented by the list of its elements. The operations the
  protocol modules use are the fields of a record, an argument of every definition that
  calls them; \<open>heapless_ok\<close> states their documented behaviour on a container within its
  capacity. \<open>heapless::String\<close> is represented by its UTF-8 bytes; \<open>hv_extend\<close> is then
  \<open>push_str\<close> and \<open>hv_push\<close> is \<open>push\<close> of an ASCII character.

  The theory also has the combinators for \<open>Result\<close> and the part of \<open>core::str\<close> the
  protocol modules use: \<open>from_utf8\<close> and \<open>split\<close>.
\<close>

section \<open>Containers\<close>

record 'a heapless_vec =
  hv_push :: "nat \<Rightarrow> 'a list \<Rightarrow> 'a \<Rightarrow> 'a list option"
  hv_extend :: "nat \<Rightarrow> 'a list \<Rightarrow> 'a list \<Rightarrow> 'a list option"
  hv_retain :: "('a \<Rightarrow> bool) \<Rightarrow> 'a list \<Rightarrow> 'a list"

definition heapless_ok :: "'a heapless_vec \<Rightarrow> bool" where
  "heapless_ok h \<longleftrightarrow>
     (\<forall>n xs x. length xs \<le> n \<longrightarrow> hv_push h n xs x = (if length xs < n then Some (xs @ [x]) else None)) \<and>
     (\<forall>n xs ys. length xs \<le> n \<longrightarrow> hv_extend h n xs ys = (if length xs + length ys \<le> n then Some (xs @ ys) else None)) \<and>
     (\<forall>P xs. hv_retain h P xs = filter P xs)"

lemma hv_push_ok: "heapless_ok h \<Longrightarrow> length xs \<le> n \<Longrightarrow> hv_push h n xs x = (if length xs < n then Some (xs @ [x]) else None)"
  by (simp add: heapless_ok_def)

lemma hv_extend_ok:
  "heapless_ok h \<Longrightarrow> length xs \<le> n \<Longrightarrow> hv_extend h n xs ys = (if length xs + length ys \<le> n then Some (xs @ ys) else None)"
  by (simp add: heapless_ok_def)

lemma hv_retain_ok: "heapless_ok h \<Longrightarrow> hv_retain h P xs = filter P xs"
  by (simp add: heapless_ok_def)

lemmas heapless = hv_push_ok hv_extend_ok hv_retain_ok

text \<open>A list with a length check satisfies the interface.\<close>

definition list_vec :: "'a heapless_vec" where
  "list_vec = \<lparr>hv_push = (\<lambda>n xs x. if length xs < n then Some (xs @ [x]) else None),
               hv_extend = (\<lambda>n xs ys. if length xs + length ys \<le> n then Some (xs @ ys) else None),
               hv_retain = filter\<rparr>"

lemma list_vec_ok [simp]: "heapless_ok list_vec"
  by (simp add: heapless_ok_def list_vec_def)

section \<open>Results\<close>

definition res_bind :: "'e + 'a \<Rightarrow> ('a \<Rightarrow> 'e + 'b) \<Rightarrow> 'e + 'b" where
  "res_bind r f = (case r of Inl e \<Rightarrow> Err e | Inr x \<Rightarrow> f x)"

definition ok_or :: "'e \<Rightarrow> 'a option \<Rightarrow> 'e + 'a" where
  "ok_or e x = (case x of None \<Rightarrow> Err e | Some y \<Rightarrow> Ok y)"

text \<open>A call that may also not return.\<close>

definition run_bind :: "('e + 'a) option \<Rightarrow> ('a \<Rightarrow> ('e + 'b) option) \<Rightarrow> ('e + 'b) option" where
  "run_bind r f = (case r of None \<Rightarrow> None | Some (Inl e) \<Rightarrow> Some (Err e) | Some (Inr x) \<Rightarrow> f x)"

lemma run_bind_simps [simp]: "run_bind None f = None" "run_bind (Some (Inl e)) f = Some (Err e)" "run_bind (Some (Inr x)) f = f x"
  by (simp_all add: run_bind_def)

lemma res_bind_simps [simp]: "res_bind (Inl e) f = Err e" "res_bind (Inr x) f = f x"
  by (simp_all add: res_bind_def)

lemma ok_or_simps [simp]: "ok_or e None = Err e" "ok_or e (Some y) = Ok y"
  by (simp_all add: ok_or_def)

lemma res_bind_Ok_iff: "res_bind r f = Ok y \<longleftrightarrow> (\<exists>x. r = Ok x \<and> f x = Ok y)"
  by (cases r) auto

lemma ok_or_Ok_iff: "ok_or e x = Ok y \<longleftrightarrow> x = Some y"
  by (cases x) auto

section \<open>Strings\<close>

text \<open>The byte sequences \<open>core::str::from_utf8\<close> accepts.\<close>

definition utf8_cont :: "u8 \<Rightarrow> bool" where
  "utf8_cont b \<longleftrightarrow> 0x80 \<le> b \<and> b \<le> 0xbf"

definition utf8_second :: "u8 \<Rightarrow> u8 \<Rightarrow> bool" where
  "utf8_second b c \<longleftrightarrow>
     (if b = 0xe0 then 0xa0 \<le> c \<and> c \<le> 0xbf
      else if b = 0xed then 0x80 \<le> c \<and> c \<le> 0x9f
      else if b = 0xf0 then 0x90 \<le> c \<and> c \<le> 0xbf
      else if b = 0xf4 then 0x80 \<le> c \<and> c \<le> 0x8f
      else utf8_cont c)"

fun utf8_valid :: "u8 list \<Rightarrow> bool" where
  "utf8_valid [] = True"
| "utf8_valid (b # bs) =
     (if b < 0x80 then utf8_valid bs
      else if 0xc2 \<le> b \<and> b \<le> 0xdf
      then (case bs of c # r \<Rightarrow> utf8_cont c \<and> utf8_valid r | _ \<Rightarrow> False)
      else if 0xe0 \<le> b \<and> b \<le> 0xef
      then (case bs of c # d # r \<Rightarrow> utf8_second b c \<and> utf8_cont d \<and> utf8_valid r | _ \<Rightarrow> False)
      else if 0xf0 \<le> b \<and> b \<le> 0xf4
      then (case bs of c # d # e # r \<Rightarrow> utf8_second b c \<and> utf8_cont d \<and> utf8_cont e \<and> utf8_valid r | _ \<Rightarrow> False)
      else False)"

text \<open>\<open>str::split\<close> at an ASCII character.\<close>

definition ascii :: "string \<Rightarrow> u8 list" where
  "ascii s = map of_char s"

fun split_on :: "u8 \<Rightarrow> u8 list \<Rightarrow> u8 list list" where
  "split_on c [] = [[]]"
| "split_on c (x # xs) =
     (if x = c then [] # split_on c xs
      else case split_on c xs of s # ss \<Rightarrow> (x # s) # ss | [] \<Rightarrow> [[x]])"

end
