(* ===== verification/Coap.thy ===== *)
theory Coap
  imports Heapless
begin

unbundle bit_operations_syntax

text \<open>
  The CoAP implementation of the edge runtime (\<open>mielin-rt/src/coap.rs\<close>): message types and
  codes, options, the header, encoding and decoding of messages, the request builder, the
  client with its retransmission queue, and the server.

  Bytes and protocol fields keep their width. Offsets into a slice are natural numbers: a
  Rust slice is shorter than \<open>2 ^ 63\<close> bytes and the sums that occur are at most its length
  plus 66000. The additions of option numbers are 16-bit additions, which wrap in the
  release profiles. A text is the list of its UTF-8 bytes.
\<close>

section \<open>Constants and codes\<close>

definition COAP_VERSION :: u8 where "COAP_VERSION = 1"
definition MAX_MESSAGE_SIZE :: nat where "MAX_MESSAGE_SIZE = 1152"
definition MAX_TOKEN_LENGTH :: nat where "MAX_TOKEN_LENGTH = 8"
definition MAX_RETRANSMIT :: u8 where "MAX_RETRANSMIT = 4"
definition ACK_TIMEOUT_MS :: u32 where "ACK_TIMEOUT_MS = 2000"

datatype CoapError = InvalidMessageType | InvalidMethod | InvalidResponseCode | UnknownOption
  | UnsupportedVersion | TokenTooLong | MessageTooShort | OptionTooLarge | TooManyOptions
  | PayloadTooLarge | EncodingFailed | InvalidOptionValue | InvalidOptionDelta | InvalidOptionLength
  | InvalidPayload | UnsupportedContentFormatError | PathTooLong | TooManyResources | ResourceNotFound
  | TooManyPendingRequests

datatype CoapMessageType = Confirmable | NonConfirmable | Acknowledgment | Reset

definition MessageType_from_u8 :: "u8 \<Rightarrow> CoapError + CoapMessageType" where
  "MessageType_from_u8 v =
     (let m = v AND 0x03 in
      if m = 0 then Ok Confirmable else if m = 1 then Ok NonConfirmable
      else if m = 2 then Ok Acknowledgment else if m = 3 then Ok Reset else Err InvalidMessageType)"

fun MessageType_to_u8 :: "CoapMessageType \<Rightarrow> u8" where
  "MessageType_to_u8 Confirmable = 0"
| "MessageType_to_u8 NonConfirmable = 1"
| "MessageType_to_u8 Acknowledgment = 2"
| "MessageType_to_u8 Reset = 3"

datatype Method = Get | Post | Put | Delete

definition Method_from_code :: "u8 \<Rightarrow> CoapError + Method" where
  "Method_from_code c =
     (if c = 1 then Ok Get else if c = 2 then Ok Post else if c = 3 then Ok Put
      else if c = 4 then Ok Delete else Err InvalidMethod)"

fun Method_to_code :: "Method \<Rightarrow> u8" where
  "Method_to_code Get = 1"
| "Method_to_code Post = 2"
| "Method_to_code Put = 3"
| "Method_to_code Delete = 4"

datatype ResponseCode = Created | Deleted | Valid | Changed | Content
  | BadRequest | Unauthorized | BadOption | Forbidden | NotFound | MethodNotAllowed | NotAcceptable
  | PreconditionFailed | RequestEntityTooLarge | UnsupportedContentFormat
  | InternalServerError | NotImplemented | BadGateway | ServiceUnavailable | GatewayTimeout | ProxyingNotSupported

fun ResponseCode_to_u8 :: "ResponseCode \<Rightarrow> u8" where
  "ResponseCode_to_u8 Created = 0x41"
| "ResponseCode_to_u8 Deleted = 0x42"
| "ResponseCode_to_u8 Valid = 0x43"
| "ResponseCode_to_u8 Changed = 0x44"
| "ResponseCode_to_u8 Content = 0x45"
| "ResponseCode_to_u8 BadRequest = 0x80"
| "ResponseCode_to_u8 Unauthorized = 0x81"
| "ResponseCode_to_u8 BadOption = 0x82"
| "ResponseCode_to_u8 Forbidden = 0x83"
| "ResponseCode_to_u8 NotFound = 0x84"
| "ResponseCode_to_u8 MethodNotAllowed = 0x85"
| "ResponseCode_to_u8 NotAcceptable = 0x86"
| "ResponseCode_to_u8 PreconditionFailed = 0x8c"
| "ResponseCode_to_u8 RequestEntityTooLarge = 0x8d"
| "ResponseCode_to_u8 UnsupportedContentFormat = 0x8f"
| "ResponseCode_to_u8 InternalServerError = 0xa0"
| "ResponseCode_to_u8 NotImplemented = 0xa1"
| "ResponseCode_to_u8 BadGateway = 0xa2"
| "ResponseCode_to_u8 ServiceUnavailable = 0xa3"
| "ResponseCode_to_u8 GatewayTimeout = 0xa4"
| "ResponseCode_to_u8 ProxyingNotSupported = 0xa5"

definition ResponseCode_from_u8 :: "u8 \<Rightarrow> CoapError + ResponseCode" where
  "ResponseCode_from_u8 c =
     (if c = 0x41 then Ok Created else if c = 0x42 then Ok Deleted else if c = 0x43 then Ok Valid
      else if c = 0x44 then Ok Changed else if c = 0x45 then Ok Content
      else if c = 0x80 then Ok BadRequest else if c = 0x81 then Ok Unauthorized
      else if c = 0x82 then Ok BadOption else if c = 0x83 then Ok Forbidden
      else if c = 0x84 then Ok NotFound else if c = 0x85 then Ok MethodNotAllowed
      else if c = 0x86 then Ok NotAcceptable else if c = 0x8c then Ok PreconditionFailed
      else if c = 0x8d then Ok RequestEntityTooLarge else if c = 0x8f then Ok UnsupportedContentFormat
      else if c = 0xa0 then Ok InternalServerError else if c = 0xa1 then Ok NotImplemented
      else if c = 0xa2 then Ok BadGateway else if c = 0xa3 then Ok ServiceUnavailable
      else if c = 0xa4 then Ok GatewayTimeout else if c = 0xa5 then Ok ProxyingNotSupported
      else Err InvalidResponseCode)"

definition ResponseCode_class :: "ResponseCode \<Rightarrow> u8" where
  "ResponseCode_class c = drop_bit 5 (ResponseCode_to_u8 c)"

definition ResponseCode_detail :: "ResponseCode \<Rightarrow> u8" where
  "ResponseCode_detail c = ResponseCode_to_u8 c AND 0x1f"

definition is_success :: "ResponseCode \<Rightarrow> bool" where
  "is_success c \<longleftrightarrow> ResponseCode_class c = 2"

definition is_client_error :: "ResponseCode \<Rightarrow> bool" where
  "is_client_error c \<longleftrightarrow> ResponseCode_class c = 4"

definition is_server_error :: "ResponseCode \<Rightarrow> bool" where
  "is_server_error c \<longleftrightarrow> ResponseCode_class c = 5"

datatype OptionNumber = IfMatch | UriHost | ETag | IfNoneMatch | UriPort | LocationPath | UriPath
  | ContentFormatOpt | MaxAge | UriQuery | Accept | LocationQuery | ProxyUri | ProxyScheme | Size1
  | Observe | Block2 | Block1 | Size2

fun OptionNumber_to_u16 :: "OptionNumber \<Rightarrow> u16" where
  "OptionNumber_to_u16 IfMatch = 1"
| "OptionNumber_to_u16 UriHost = 3"
| "OptionNumber_to_u16 ETag = 4"
| "OptionNumber_to_u16 IfNoneMatch = 5"
| "OptionNumber_to_u16 UriPort = 7"
| "OptionNumber_to_u16 LocationPath = 8"
| "OptionNumber_to_u16 UriPath = 11"
| "OptionNumber_to_u16 ContentFormatOpt = 12"
| "OptionNumber_to_u16 MaxAge = 14"
| "OptionNumber_to_u16 UriQuery = 15"
| "OptionNumber_to_u16 Accept = 17"
| "OptionNumber_to_u16 LocationQuery = 20"
| "OptionNumber_to_u16 ProxyUri = 35"
| "OptionNumber_to_u16 ProxyScheme = 39"
| "OptionNumber_to_u16 Size1 = 60"
| "OptionNumber_to_u16 Observe = 6"
| "OptionNumber_to_u16 Block2 = 23"
| "OptionNumber_to_u16 Block1 = 27"
| "OptionNumber_to_u16 Size2 = 28"

definition OptionNumber_from_u16 :: "u16 \<Rightarrow> CoapError + OptionNumber" where
  "OptionNumber_from_u16 v =
     (if v = 1 then Ok IfMatch else if v = 3 then Ok UriHost else if v = 4 then Ok ETag
      else if v = 5 then Ok IfNoneMatch else if v = 6 then Ok Observe else if v = 7 then Ok UriPort
      else if v = 8 then Ok LocationPath else if v = 11 then Ok UriPath else if v = 12 then Ok ContentFormatOpt
      else if v = 14 then Ok MaxAge else if v = 15 then Ok UriQuery else if v = 17 then Ok Accept
      else if v = 20 then Ok LocationQuery else if v = 23 then Ok Block2 else if v = 27 then Ok Block1
      else if v = 28 then Ok Size2 else if v = 35 then Ok ProxyUri else if v = 39 then Ok ProxyScheme
      else if v = 60 then Ok Size1 else Err UnknownOption)"

datatype ContentFormat = TextPlain | ApplicationLinkFormat | ApplicationXml | ApplicationOctetStream
  | ApplicationExi | ApplicationJson | ApplicationCbor

fun ContentFormat_to_u16 :: "ContentFormat \<Rightarrow> u16" where
  "ContentFormat_to_u16 TextPlain = 0"
| "ContentFormat_to_u16 ApplicationLinkFormat = 40"
| "ContentFormat_to_u16 ApplicationXml = 41"
| "ContentFormat_to_u16 ApplicationOctetStream = 42"
| "ContentFormat_to_u16 ApplicationExi = 47"
| "ContentFormat_to_u16 ApplicationJson = 50"
| "ContentFormat_to_u16 ApplicationCbor = 60"

definition ContentFormat_from_u16 :: "u16 \<Rightarrow> CoapError + ContentFormat" where
  "ContentFormat_from_u16 v =
     (if v = 0 then Ok TextPlain else if v = 40 then Ok ApplicationLinkFormat
      else if v = 41 then Ok ApplicationXml else if v = 42 then Ok ApplicationOctetStream
      else if v = 47 then Ok ApplicationExi else if v = 50 then Ok ApplicationJson
      else if v = 60 then Ok ApplicationCbor else Err UnsupportedContentFormatError)"

section \<open>Data\<close>

record CoapOption =
  opt_number :: u16
  opt_value :: "u8 list"

record CoapHeader =
  hdr_version :: u8
  hdr_msg_type :: CoapMessageType
  hdr_token_length :: u8
  hdr_code :: u8
  hdr_message_id :: u16

record CoapMessage =
  cm_header :: CoapHeader
  cm_token :: "u8 list"
  cm_options :: "CoapOption list"
  cm_payload :: "u8 list"

record CoapRequest =
  req_method :: Method
  req_uri_path :: "u8 list"
  req_uri_query :: "u8 list"
  req_token :: "u8 list"
  req_content_format :: "ContentFormat option"
  req_accept :: "ContentFormat option"
  req_observe :: "bool option"
  req_payload :: "u8 list"

record CoapResponse =
  resp_code :: ResponseCode
  resp_token :: "u8 list"
  resp_options :: "CoapOption list"
  resp_payload :: "u8 list"

record PendingRequest =
  pr_message_id :: u16
  pr_message :: "u8 list"
  pr_retransmit_count :: u8
  pr_timeout_ms :: u32

record CoapClient =
  cl_message_id :: u16
  cl_pending :: "PendingRequest list"

record CoapResource =
  res_path :: "u8 list"
  res_methods :: "Method list"
  res_type :: "u8 list option"
  res_interface :: "u8 list option"
  res_observable :: bool

record CoapServer =
  srv_resources :: "CoapResource list"

text \<open>The containers of \<open>heapless\<close> the module uses, one field for each element type.\<close>

record coap_vecs =
  cv_bytes :: "u8 heapless_vec"
  cv_str :: "u8 heapless_vec"
  cv_options :: "CoapOption heapless_vec"
  cv_pending :: "PendingRequest heapless_vec"
  cv_sends :: "u8 list heapless_vec"
  cv_methods :: "Method heapless_vec"
  cv_resources :: "CoapResource heapless_vec"

section \<open>Options\<close>

definition CoapOption_new :: "coap_vecs \<Rightarrow> OptionNumber \<Rightarrow> u8 list \<Rightarrow> CoapError + CoapOption" where
  "CoapOption_new cv n v =
     res_bind (ok_or OptionTooLarge (hv_extend (cv_bytes cv) 256 [] v)) (\<lambda>vec.
       Ok \<lparr>opt_number = OptionNumber_to_u16 n, opt_value = vec\<rparr>)"

definition CoapOption_uri_path :: "coap_vecs \<Rightarrow> u8 list \<Rightarrow> CoapError + CoapOption" where
  "CoapOption_uri_path cv path = CoapOption_new cv UriPath path"

definition CoapOption_content_format :: "coap_vecs \<Rightarrow> ContentFormat \<Rightarrow> CoapError + CoapOption" where
  "CoapOption_content_format cv format =
     (let v = ContentFormat_to_u16 format in
      if v < 256 then CoapOption_new cv ContentFormatOpt [ucast v]
      else CoapOption_new cv ContentFormatOpt [ucast (drop_bit 8 v), ucast v])"

definition CoapOption_observe :: "coap_vecs \<Rightarrow> bool \<Rightarrow> CoapError + CoapOption" where
  "CoapOption_observe cv register = CoapOption_new cv Observe [if register then 0 else 1]"

definition to_be_bytes :: "u32 \<Rightarrow> u8 list" where
  "to_be_bytes v = [ucast (drop_bit 24 v), ucast (drop_bit 16 v), ucast (drop_bit 8 v), ucast v]"

definition CoapOption_max_age :: "coap_vecs \<Rightarrow> u32 \<Rightarrow> CoapError + CoapOption" where
  "CoapOption_max_age cv seconds =
     (let bytes = to_be_bytes seconds;
          start = (case first_index (\<lambda>b. b \<noteq> 0) bytes of Some i \<Rightarrow> i | None \<Rightarrow> 3)
      in CoapOption_new cv MaxAge (drop start bytes))"

definition CoapOption_as_u32 :: "CoapOption \<Rightarrow> CoapError + u32" where
  "CoapOption_as_u32 opt =
     (if length (opt_value opt) > 4 then Err InvalidOptionValue
      else Ok (fold (\<lambda>b result. push_bit 8 result OR ucast b) (opt_value opt) 0))"

definition CoapOption_as_str :: "CoapOption \<Rightarrow> CoapError + u8 list" where
  "CoapOption_as_str opt = (if utf8_valid (opt_value opt) then Ok (opt_value opt) else Err InvalidOptionValue)"

section \<open>Header\<close>

definition CoapHeader_new :: "CoapMessageType \<Rightarrow> u8 \<Rightarrow> u16 \<Rightarrow> CoapHeader" where
  "CoapHeader_new t code i =
     \<lparr>hdr_version = COAP_VERSION, hdr_msg_type = t, hdr_token_length = 0, hdr_code = code, hdr_message_id = i\<rparr>"

definition with_token_length :: "u8 \<Rightarrow> CoapHeader \<Rightarrow> CoapError + CoapHeader" where
  "with_token_length n h =
     (if n > of_nat MAX_TOKEN_LENGTH then Err TokenTooLong else Ok (h\<lparr>hdr_token_length := n\<rparr>))"

definition CoapHeader_encode :: "CoapHeader \<Rightarrow> u8 list" where
  "CoapHeader_encode h =
     [push_bit 6 (hdr_version h) OR push_bit 4 (MessageType_to_u8 (hdr_msg_type h)) OR (hdr_token_length h AND 0x0f),
      hdr_code h, ucast (drop_bit 8 (hdr_message_id h)), ucast (hdr_message_id h)]"

definition CoapHeader_decode :: "u8 list \<Rightarrow> CoapError + CoapHeader" where
  "CoapHeader_decode bytes =
     (if length bytes < 4 then Err MessageTooShort
      else let version = drop_bit 6 (bytes ! 0) in
        if version \<noteq> COAP_VERSION then Err UnsupportedVersion
        else res_bind (MessageType_from_u8 (drop_bit 4 (bytes ! 0) AND 0x03)) (\<lambda>t.
          let token_length = bytes ! 0 AND 0x0f in
          if token_length > of_nat MAX_TOKEN_LENGTH then Err TokenTooLong
          else Ok \<lparr>hdr_version = version, hdr_msg_type = t, hdr_token_length = token_length, hdr_code = bytes ! 1,
                   hdr_message_id = push_bit 8 (ucast (bytes ! 2)) OR ucast (bytes ! 3)\<rparr>))"

section \<open>Messages\<close>

definition CoapMessage_new :: "CoapMessageType \<Rightarrow> u8 \<Rightarrow> u16 \<Rightarrow> CoapMessage" where
  "CoapMessage_new t code i =
     \<lparr>cm_header = CoapHeader_new t code i, cm_token = [], cm_options = [], cm_payload = []\<rparr>"

definition CoapMessage_with_token :: "coap_vecs \<Rightarrow> u8 list \<Rightarrow> CoapMessage \<Rightarrow> CoapError + CoapMessage" where
  "CoapMessage_with_token cv token m =
     (if length token > MAX_TOKEN_LENGTH then Err TokenTooLong
      else res_bind (ok_or TokenTooLong (hv_extend (cv_bytes cv) 8 [] token)) (\<lambda>t.
        Ok (m\<lparr>cm_token := t, cm_header := (cm_header m)\<lparr>hdr_token_length := of_nat (length token)\<rparr>\<rparr>)))"

definition add_option :: "coap_vecs \<Rightarrow> CoapOption \<Rightarrow> CoapMessage \<Rightarrow> CoapError + CoapMessage" where
  "add_option cv opt m =
     res_bind (ok_or TooManyOptions (hv_push (cv_options cv) 16 (cm_options m) opt)) (\<lambda>os. Ok (m\<lparr>cm_options := os\<rparr>))"

definition CoapMessage_with_payload :: "coap_vecs \<Rightarrow> u8 list \<Rightarrow> CoapMessage \<Rightarrow> CoapError + CoapMessage" where
  "CoapMessage_with_payload cv payload m =
     res_bind (ok_or PayloadTooLarge (hv_extend (cv_bytes cv) 1024 [] payload)) (\<lambda>p. Ok (m\<lparr>cm_payload := p\<rparr>))"

text \<open>The bubble sort of the options. An index out of range would panic.\<close>

definition sort_step :: "nat \<Rightarrow> CoapOption list \<Rightarrow> CoapOption list option" where
  "sort_step j os =
     Option.bind (arr_get os j) (\<lambda>a. Option.bind (arr_get os (j + 1)) (\<lambda>b.
       Some (if opt_number a > opt_number b then os[j := b, j + 1 := a] else os)))"

definition sort_options :: "CoapMessage \<Rightarrow> CoapMessage option" where
  "sort_options m =
     (let len = length (cm_options m) in
      map_option (\<lambda>os. m\<lparr>cm_options := os\<rparr>)
        (for_range 0 len (\<lambda>i. for_range 0 (len - 1 - i) sort_step) (cm_options m)))"

definition push_all :: "coap_vecs \<Rightarrow> u8 list \<Rightarrow> u8 list \<Rightarrow> CoapError + u8 list" where
  "push_all cv buffer bytes = ok_or EncodingFailed (hv_extend (cv_bytes cv) MAX_MESSAGE_SIZE buffer bytes)"

definition push_byte :: "coap_vecs \<Rightarrow> u8 list \<Rightarrow> u8 \<Rightarrow> CoapError + u8 list" where
  "push_byte cv buffer b = ok_or EncodingFailed (hv_push (cv_bytes cv) MAX_MESSAGE_SIZE buffer b)"

text \<open>The loop body of \<open>encode\<close>.\<close>

definition encode_option :: "coap_vecs \<Rightarrow> u16 \<Rightarrow> CoapOption \<Rightarrow> u8 list \<Rightarrow> CoapError + u8 list" where
  "encode_option cv prev opt buffer =
     (let delta = opt_number opt - prev;
          delta_nibble = (if delta < 13 then ucast delta else if delta < 269 then 13 else 14);
          len = length (opt_value opt);
          length_nibble = (if len < 13 then of_nat len else if len < 269 then 13 else 14)
      in res_bind (push_byte cv buffer (push_bit 4 delta_nibble OR length_nibble)) (\<lambda>b1.
         res_bind
           (if delta_nibble = 13 then push_byte cv b1 (ucast (delta - 13))
            else if delta_nibble = 14 then
              let extended = delta - 269 in
              res_bind (push_byte cv b1 (ucast (drop_bit 8 extended))) (\<lambda>b. push_byte cv b (ucast extended))
            else Ok b1) (\<lambda>b2.
         res_bind
           (if length_nibble = 13 then push_byte cv b2 (of_nat (len - 13))
            else if length_nibble = 14 then
              let extended = len - 269 in
              res_bind (push_byte cv b2 (of_nat (extended div 256))) (\<lambda>b. push_byte cv b (of_nat extended))
            else Ok b2) (\<lambda>b3.
         push_all cv b3 (opt_value opt)))))"

fun encode_options :: "coap_vecs \<Rightarrow> u16 \<Rightarrow> CoapOption list \<Rightarrow> u8 list \<Rightarrow> CoapError + u8 list" where
  "encode_options cv prev [] buffer = Ok buffer"
| "encode_options cv prev (opt # os) buffer =
     res_bind (encode_option cv prev opt buffer) (\<lambda>b. encode_options cv (opt_number opt) os b)"

definition CoapMessage_encode :: "coap_vecs \<Rightarrow> CoapMessage \<Rightarrow> ((CoapError + u8 list) \<times> CoapMessage) option" where
  "CoapMessage_encode cv m =
     (case res_bind (push_all cv [] (CoapHeader_encode (cm_header m))) (\<lambda>b. push_all cv b (cm_token m)) of
        Inl e \<Rightarrow> Some (Err e, m)
      | Inr b1 \<Rightarrow>
          Option.bind (sort_options m) (\<lambda>m'.
            Some (res_bind (encode_options cv 0 (cm_options m') b1) (\<lambda>b2.
                    if cm_payload m' \<noteq> [] then res_bind (push_byte cv b2 0xff) (\<lambda>b3. push_all cv b3 (cm_payload m'))
                    else Ok b2),
                  m')))"

section \<open>Decoding\<close>

definition decode_delta :: "u8 list \<Rightarrow> nat \<Rightarrow> u16 \<Rightarrow> (CoapError + (u16 \<times> nat)) option" where
  "decode_delta bytes offset delta =
     (if delta = 13 then
        if offset \<ge> length bytes then Some (Err MessageTooShort)
        else Option.bind (arr_get bytes offset) (\<lambda>b. Some (Ok (ucast b + 13, offset + 1)))
      else if delta = 14 then
        if offset + 1 \<ge> length bytes then Some (Err MessageTooShort)
        else Option.bind (arr_get bytes offset) (\<lambda>b0. Option.bind (arr_get bytes (offset + 1)) (\<lambda>b1.
               Some (Ok (push_bit 8 (ucast b0) OR (ucast b1 + 269), offset + 2))))
      else if delta = 15 then Some (Err InvalidOptionDelta)
      else Some (Ok (delta, offset)))"

definition decode_length :: "u8 list \<Rightarrow> nat \<Rightarrow> nat \<Rightarrow> (CoapError + (nat \<times> nat)) option" where
  "decode_length bytes offset len =
     (if len = 13 then
        if offset \<ge> length bytes then Some (Err MessageTooShort)
        else Option.bind (arr_get bytes offset) (\<lambda>b. Some (Ok (unat b + 13, offset + 1)))
      else if len = 14 then
        if offset + 1 \<ge> length bytes then Some (Err MessageTooShort)
        else Option.bind (arr_get bytes offset) (\<lambda>b0. Option.bind (arr_get bytes (offset + 1)) (\<lambda>b1.
               Some (Ok ((push_bit 8 (unat b0) OR unat b1) + 269, offset + 2))))
      else if len = 15 then Some (Err InvalidOptionLength)
      else Some (Ok (len, offset)))"

text \<open>The loop body of \<open>decode\<close>: the new list of options, the number of the option and the new offset.\<close>

definition decode_option ::
  "coap_vecs \<Rightarrow> u8 list \<Rightarrow> nat \<Rightarrow> u16 \<Rightarrow> CoapOption list \<Rightarrow> (CoapError + (CoapOption list \<times> u16 \<times> nat)) option" where
  "decode_option cv bytes offset prev options =
     Option.bind (arr_get bytes offset) (\<lambda>h.
       run_bind (decode_delta bytes (offset + 1) (ucast (drop_bit 4 h AND 0x0f))) (\<lambda>(delta, offset2).
       run_bind (decode_length bytes offset2 (unat (h AND 0x0f))) (\<lambda>(len, offset3).
         if offset3 + len > length bytes then Some (Err MessageTooShort)
         else
           let number = prev + delta in
           Some (res_bind (ok_or OptionTooLarge (hv_extend (cv_bytes cv) 256 [] (take len (drop offset3 bytes)))) (\<lambda>v.
                 res_bind (ok_or TooManyOptions (hv_push (cv_options cv) 16 options \<lparr>opt_number = number, opt_value = v\<rparr>)) (\<lambda>os.
                   Ok (os, number, offset3 + len)))))))"

lemma decode_delta_progress: "decode_delta bytes offset delta = Some (Inr (d, offset')) \<Longrightarrow> offset \<le> offset'"
  by (auto simp: decode_delta_def split: if_splits bind_splits)

lemma decode_length_progress: "decode_length bytes offset len = Some (Inr (l, offset')) \<Longrightarrow> offset \<le> offset'"
  by (auto simp: decode_length_def split: if_splits bind_splits)

lemma decode_option_progress:
  "decode_option cv bytes offset prev options = Some (Inr (os, n, offset')) \<Longrightarrow> offset < offset' \<and> offset' \<le> length bytes"
  by (auto simp: decode_option_def run_bind_def res_bind_Ok_iff ok_or_Ok_iff Let_def
      split: if_splits option.splits sum.splits bind_splits dest!: decode_delta_progress decode_length_progress)

function decode_options ::
  "coap_vecs \<Rightarrow> u8 list \<Rightarrow> nat \<Rightarrow> u16 \<Rightarrow> CoapOption list \<Rightarrow> (CoapError + (CoapOption list \<times> nat)) option" where
  "decode_options cv bytes offset prev options =
     (if offset < length bytes then
        Option.bind (arr_get bytes offset) (\<lambda>b.
          if b \<noteq> 0xff then
            (case decode_option cv bytes offset prev options of
               None \<Rightarrow> None
             | Some (Inl e) \<Rightarrow> Some (Err e)
             | Some (Inr (os, n, offset')) \<Rightarrow> decode_options cv bytes offset' n os)
          else Some (Ok (options, offset)))
      else Some (Ok (options, offset)))"
  by pat_completeness auto
termination
  by (relation "measure (\<lambda>(cv, bytes, offset, prev, options). length bytes - offset)")
    (auto dest!: decode_option_progress)

declare decode_options.simps [simp del]

definition CoapMessage_decode :: "coap_vecs \<Rightarrow> u8 list \<Rightarrow> (CoapError + CoapMessage) option" where
  "CoapMessage_decode cv bytes =
     (if length bytes < 4 then Some (Err MessageTooShort)
      else case CoapHeader_decode bytes of
        Inl e \<Rightarrow> Some (Err e)
      | Inr header \<Rightarrow>
          let token_end = 4 + unat (hdr_token_length header) in
          if token_end > length bytes then Some (Err MessageTooShort)
          else case ok_or TokenTooLong (hv_extend (cv_bytes cv) 8 [] (take (token_end - 4) (drop 4 bytes))) of
            Inl e \<Rightarrow> Some (Err e)
          | Inr token \<Rightarrow>
              run_bind (decode_options cv bytes token_end 0 []) (\<lambda>(options, offset).
                run_bind
                  (if offset < length bytes then
                     Option.bind (arr_get bytes offset) (\<lambda>b.
                       if b = 0xff
                       then Some (ok_or PayloadTooLarge (hv_extend (cv_bytes cv) 1024 [] (drop (offset + 1) bytes)))
                       else Some (Ok []))
                   else Some (Ok []))
                  (\<lambda>payload. Some (Ok \<lparr>cm_header = header, cm_token = token, cm_options = options, cm_payload = payload\<rparr>))))"

section \<open>Requests and responses\<close>

text \<open>\<open>let _ = s.push_str(x)\<close>: the text stays as it is when there is no room.\<close>

definition str_push :: "coap_vecs \<Rightarrow> nat \<Rightarrow> u8 list \<Rightarrow> u8 list \<Rightarrow> u8 list" where
  "str_push cv n s x = (case hv_extend (cv_str cv) n s x of Some s' \<Rightarrow> s' | None \<Rightarrow> s)"

definition str_push_char :: "coap_vecs \<Rightarrow> nat \<Rightarrow> u8 list \<Rightarrow> u8 \<Rightarrow> u8 list" where
  "str_push_char cv n s c = (case hv_push (cv_str cv) n s c of Some s' \<Rightarrow> s' | None \<Rightarrow> s)"

definition CoapRequest_new :: "Method \<Rightarrow> CoapRequest" where
  "CoapRequest_new method =
     \<lparr>req_method = method, req_uri_path = [], req_uri_query = [], req_token = [], req_content_format = None,
      req_accept = None, req_observe = None, req_payload = []\<rparr>"

definition with_uri_path :: "coap_vecs \<Rightarrow> u8 list \<Rightarrow> CoapRequest \<Rightarrow> CoapRequest" where
  "with_uri_path cv path r = r\<lparr>req_uri_path := str_push cv 256 [] path\<rparr>"

definition with_uri_query :: "coap_vecs \<Rightarrow> u8 list \<Rightarrow> CoapRequest \<Rightarrow> CoapRequest" where
  "with_uri_query cv query r = r\<lparr>req_uri_query := str_push cv 256 [] query\<rparr>"

definition CoapRequest_with_token :: "coap_vecs \<Rightarrow> u8 list \<Rightarrow> CoapRequest \<Rightarrow> CoapRequest" where
  "CoapRequest_with_token cv token r =
     r\<lparr>req_token := (case hv_extend (cv_bytes cv) 8 [] token of Some t \<Rightarrow> t | None \<Rightarrow> [])\<rparr>"

definition with_content_format :: "ContentFormat \<Rightarrow> CoapRequest \<Rightarrow> CoapRequest" where
  "with_content_format f r = r\<lparr>req_content_format := Some f\<rparr>"

definition with_accept :: "ContentFormat \<Rightarrow> CoapRequest \<Rightarrow> CoapRequest" where
  "with_accept f r = r\<lparr>req_accept := Some f\<rparr>"

definition with_observe :: "bool \<Rightarrow> CoapRequest \<Rightarrow> CoapRequest" where
  "with_observe register r = r\<lparr>req_observe := Some register\<rparr>"

definition CoapRequest_with_payload :: "coap_vecs \<Rightarrow> u8 list \<Rightarrow> CoapRequest \<Rightarrow> CoapError + CoapRequest" where
  "CoapRequest_with_payload cv payload r =
     res_bind (ok_or PayloadTooLarge (hv_extend (cv_bytes cv) 1024 [] payload)) (\<lambda>p. Ok (r\<lparr>req_payload := p\<rparr>))"

text \<open>The loops over the segments of a path and the parameters of a query.\<close>

fun add_segments :: "coap_vecs \<Rightarrow> OptionNumber \<Rightarrow> u8 list list \<Rightarrow> CoapMessage \<Rightarrow> CoapError + CoapMessage" where
  "add_segments cv n [] m = Ok m"
| "add_segments cv n (s # ss) m =
     (if s \<noteq> [] then res_bind (CoapOption_new cv n s) (\<lambda>opt. res_bind (add_option cv opt m) (add_segments cv n ss))
      else add_segments cv n ss m)"

definition CoapRequest_build :: "coap_vecs \<Rightarrow> u16 \<Rightarrow> CoapRequest \<Rightarrow> CoapError + CoapMessage" where
  "CoapRequest_build cv message_id r =
     (let m0 = CoapMessage_new Confirmable (Method_to_code (req_method r)) message_id in
      res_bind (if req_token r \<noteq> [] then CoapMessage_with_token cv (req_token r) m0 else Ok m0) (\<lambda>m1.
      res_bind (if req_uri_path r \<noteq> [] then add_segments cv UriPath (split_on 0x2f (req_uri_path r)) m1 else Ok m1) (\<lambda>m2.
      res_bind (if req_uri_query r \<noteq> [] then add_segments cv UriQuery (split_on 0x26 (req_uri_query r)) m2 else Ok m2) (\<lambda>m3.
      res_bind (case req_content_format r of
                  Some f \<Rightarrow> res_bind (CoapOption_content_format cv f) (\<lambda>opt. add_option cv opt m3)
                | None \<Rightarrow> Ok m3) (\<lambda>m4.
      res_bind (case req_accept r of
                  Some f \<Rightarrow>
                    let v = ContentFormat_to_u16 f in
                    res_bind (CoapOption_new cv Accept (if v < 256 then [ucast v] else [ucast (drop_bit 8 v), ucast v]))
                      (\<lambda>opt. add_option cv opt m4)
                | None \<Rightarrow> Ok m4) (\<lambda>m5.
      res_bind (case req_observe r of
                  Some register \<Rightarrow> res_bind (CoapOption_observe cv register) (\<lambda>opt. add_option cv opt m5)
                | None \<Rightarrow> Ok m5) (\<lambda>m6.
      if req_payload r \<noteq> [] then CoapMessage_with_payload cv (req_payload r) m6 else Ok m6)))))))"

definition CoapResponse_from_message :: "CoapMessage \<Rightarrow> CoapError + CoapResponse" where
  "CoapResponse_from_message m =
     res_bind (ResponseCode_from_u8 (hdr_code (cm_header m))) (\<lambda>code.
       Ok \<lparr>resp_code = code, resp_token = cm_token m, resp_options = cm_options m, resp_payload = cm_payload m\<rparr>)"

definition payload_str :: "CoapResponse \<Rightarrow> CoapError + u8 list" where
  "payload_str r = (if utf8_valid (resp_payload r) then Ok (resp_payload r) else Err InvalidPayload)"

definition find_option :: "OptionNumber \<Rightarrow> CoapResponse \<Rightarrow> CoapOption option" where
  "find_option n r = List.find (\<lambda>opt. opt_number opt = OptionNumber_to_u16 n) (resp_options r)"

definition response_content_format :: "CoapResponse \<Rightarrow> ContentFormat option" where
  "response_content_format r =
     Option.bind (find_option ContentFormatOpt r) (\<lambda>opt.
       case CoapOption_as_u32 opt of
         Inl _ \<Rightarrow> None
       | Inr v \<Rightarrow> (case ContentFormat_from_u16 (ucast v) of Inl _ \<Rightarrow> None | Inr f \<Rightarrow> Some f))"

section \<open>Client\<close>

definition CoapClient_new :: CoapClient where
  "CoapClient_new = \<lparr>cl_message_id = 1, cl_pending = []\<rparr>"

definition next_message_id :: "CoapClient \<Rightarrow> u16 \<times> CoapClient" where
  "next_message_id c = (cl_message_id c, c\<lparr>cl_message_id := cl_message_id c + 1\<rparr>)"

definition prepare_request :: "coap_vecs \<Rightarrow> CoapRequest \<Rightarrow> CoapClient \<Rightarrow> ((CoapError + u8 list) \<times> CoapClient) option" where
  "prepare_request cv r c =
     (let (message_id, c') = next_message_id c in
      case CoapRequest_build cv message_id r of
        Inl e \<Rightarrow> Some (Err e, c')
      | Inr m \<Rightarrow> map_option (\<lambda>(res, _). (res, c')) (CoapMessage_encode cv m))"

definition add_pending :: "coap_vecs \<Rightarrow> u16 \<Rightarrow> u8 list \<Rightarrow> CoapClient \<Rightarrow> (CoapError + unit) \<times> CoapClient" where
  "add_pending cv message_id message c =
     (let p = \<lparr>pr_message_id = message_id, pr_message = message, pr_retransmit_count = 0, pr_timeout_ms = ACK_TIMEOUT_MS\<rparr> in
      case hv_push (cv_pending cv) 8 (cl_pending c) p of
        None \<Rightarrow> (Err TooManyPendingRequests, c)
      | Some ps \<Rightarrow> (Ok (), c\<lparr>cl_pending := ps\<rparr>))"

definition remove_pending :: "coap_vecs \<Rightarrow> u16 \<Rightarrow> CoapClient \<Rightarrow> CoapClient" where
  "remove_pending cv message_id c =
     c\<lparr>cl_pending := hv_retain (cv_pending cv) (\<lambda>p. pr_message_id p \<noteq> message_id) (cl_pending c)\<rparr>"

definition timeout_step :: "coap_vecs \<Rightarrow> u32 \<Rightarrow> PendingRequest \<Rightarrow> u8 list list \<Rightarrow> PendingRequest \<times> u8 list list" where
  "timeout_step cv elapsed p sends =
     (if pr_timeout_ms p > elapsed then (p\<lparr>pr_timeout_ms := pr_timeout_ms p - elapsed\<rparr>, sends)
      else if pr_retransmit_count p < MAX_RETRANSMIT then
        let count = pr_retransmit_count p + 1 in
        (p\<lparr>pr_retransmit_count := count, pr_timeout_ms := ACK_TIMEOUT_MS * 2 ^ unat count\<rparr>,
         case hv_push (cv_sends cv) 8 sends (pr_message p) of Some s \<Rightarrow> s | None \<Rightarrow> sends)
      else (p, sends))"

fun timeout_loop :: "coap_vecs \<Rightarrow> u32 \<Rightarrow> PendingRequest list \<Rightarrow> u8 list list \<Rightarrow> PendingRequest list \<times> u8 list list" where
  "timeout_loop cv elapsed [] sends = ([], sends)"
| "timeout_loop cv elapsed (p # ps) sends =
     (let (p', sends1) = timeout_step cv elapsed p sends; (ps', sends2) = timeout_loop cv elapsed ps sends1
      in (p' # ps', sends2))"

definition process_timeouts :: "coap_vecs \<Rightarrow> u32 \<Rightarrow> CoapClient \<Rightarrow> u8 list list \<times> CoapClient" where
  "process_timeouts cv elapsed c =
     (let (ps, sends) = timeout_loop cv elapsed (cl_pending c) []
      in (sends, c\<lparr>cl_pending := hv_retain (cv_pending cv) (\<lambda>p. pr_retransmit_count p \<le> MAX_RETRANSMIT) ps\<rparr>))"

definition parse_response :: "coap_vecs \<Rightarrow> u8 list \<Rightarrow> CoapClient \<Rightarrow> ((CoapError + CoapResponse) \<times> CoapClient) option" where
  "parse_response cv bytes c =
     Option.bind (CoapMessage_decode cv bytes) (\<lambda>r.
       case r of
         Inl e \<Rightarrow> Some (Err e, c)
       | Inr m \<Rightarrow>
           let c' = (if hdr_msg_type (cm_header m) = Acknowledgment
                     then remove_pending cv (hdr_message_id (cm_header m)) c else c)
           in Some (CoapResponse_from_message m, c'))"

section \<open>Server\<close>

definition CoapResource_new :: "coap_vecs \<Rightarrow> u8 list \<Rightarrow> CoapError + CoapResource" where
  "CoapResource_new cv path =
     res_bind (ok_or PathTooLong (hv_extend (cv_str cv) 64 [] path)) (\<lambda>s.
       Ok \<lparr>res_path = s, res_methods = [], res_type = None, res_interface = None, res_observable = False\<rparr>)"

definition with_method :: "coap_vecs \<Rightarrow> Method \<Rightarrow> CoapResource \<Rightarrow> CoapResource" where
  "with_method cv method r =
     r\<lparr>res_methods := (case hv_push (cv_methods cv) 4 (res_methods r) method of Some ms \<Rightarrow> ms | None \<Rightarrow> res_methods r)\<rparr>"

definition with_resource_type :: "coap_vecs \<Rightarrow> u8 list \<Rightarrow> CoapResource \<Rightarrow> CoapResource" where
  "with_resource_type cv rt r = r\<lparr>res_type := Some (str_push cv 32 [] rt)\<rparr>"

definition with_observable :: "bool \<Rightarrow> CoapResource \<Rightarrow> CoapResource" where
  "with_observable b r = r\<lparr>res_observable := b\<rparr>"

definition is_method_allowed :: "Method \<Rightarrow> CoapResource \<Rightarrow> bool" where
  "is_method_allowed method r \<longleftrightarrow> method \<in> set (res_methods r)"

definition CoapServer_new :: CoapServer where
  "CoapServer_new = \<lparr>srv_resources = []\<rparr>"

definition register_resource :: "coap_vecs \<Rightarrow> CoapResource \<Rightarrow> CoapServer \<Rightarrow> (CoapError + unit) \<times> CoapServer" where
  "register_resource cv r s =
     (case hv_push (cv_resources cv) 16 (srv_resources s) r of
        None \<Rightarrow> (Err TooManyResources, s)
      | Some rs \<Rightarrow> (Ok (), s\<lparr>srv_resources := rs\<rparr>))"

definition find_resource :: "u8 list \<Rightarrow> CoapServer \<Rightarrow> CoapResource option" where
  "find_resource path s = List.find (\<lambda>r. res_path r = path) (srv_resources s)"

fun collect_path :: "coap_vecs \<Rightarrow> CoapOption list \<Rightarrow> u8 list \<Rightarrow> CoapError + u8 list" where
  "collect_path cv [] uri_path = Ok uri_path"
| "collect_path cv (opt # os) uri_path =
     (if opt_number opt = OptionNumber_to_u16 UriPath then
        let u1 = str_push_char cv 256 uri_path 0x2f in
        res_bind (CoapOption_as_str opt) (\<lambda>s. collect_path cv os (str_push cv 256 u1 s))
      else collect_path cv os uri_path)"

definition answer :: "coap_vecs \<Rightarrow> ResponseCode \<Rightarrow> CoapMessage \<Rightarrow> CoapError + CoapMessage" where
  "answer cv code request =
     (let response = CoapMessage_new Acknowledgment (ResponseCode_to_u8 code) (hdr_message_id (cm_header request)) in
      if cm_token request \<noteq> [] then CoapMessage_with_token cv (cm_token request) response else Ok response)"

definition handle_request :: "coap_vecs \<Rightarrow> u8 list \<Rightarrow> CoapServer \<Rightarrow> (CoapError + CoapMessage) option" where
  "handle_request cv bytes s =
     run_bind (CoapMessage_decode cv bytes) (\<lambda>request.
       Some (res_bind (Method_from_code (hdr_code (cm_header request))) (\<lambda>method.
             res_bind (collect_path cv (cm_options request) []) (\<lambda>uri_path.
             res_bind (ok_or ResourceNotFound (find_resource uri_path s)) (\<lambda>resource.
               if \<not> is_method_allowed method resource then answer cv MethodNotAllowed request
               else answer cv Content request)))))"

definition link_of :: "coap_vecs \<Rightarrow> CoapResource \<Rightarrow> u8 list \<Rightarrow> u8 list" where
  "link_of cv r s0 =
     (let s1 = str_push_char cv 1024 (str_push cv 1024 (str_push_char cv 1024 s0 0x3c) (res_path r)) 0x3e;
          s2 = (case res_type r of
                  Some rt \<Rightarrow> str_push_char cv 1024 (str_push cv 1024 (str_push cv 1024 s1 (ascii '';rt='' @ [0x22])) rt) 0x22
                | None \<Rightarrow> s1)
      in if res_observable r then str_push cv 1024 s2 (ascii '';obs'') else s2)"

fun core_links :: "coap_vecs \<Rightarrow> bool \<Rightarrow> CoapResource list \<Rightarrow> u8 list \<Rightarrow> u8 list" where
  "core_links cv later [] s = s"
| "core_links cv later (r # rs) s =
     core_links cv True rs (link_of cv r (if later then str_push_char cv 1024 s 0x2c else s))"

definition generate_core_link_format :: "coap_vecs \<Rightarrow> CoapServer \<Rightarrow> u8 list" where
  "generate_core_link_format cv s = core_links cv False (srv_resources s) []"

end
