(* ===== verification/Coap_Codec.thy ===== *)
theory Coap_Codec
  imports Coap "HOL-Library.Multiset"
begin

unbundle bit_operations_syntax

text \<open>
  The CoAP codec: the option sort is the stable sort, encoding and decoding are inverse to
  each other, decoding returns on every input and yields well-formed messages only.
\<close>

section \<open>The option sort\<close>

definition same_options :: "CoapOption list \<Rightarrow> CoapOption list \<Rightarrow> bool" where
  "same_options xs ys \<longleftrightarrow> mset xs = mset ys \<and> (\<forall>k. filter (\<lambda>x. k = opt_number x) xs = filter (\<lambda>x. k = opt_number x) ys)"

lemma same_options_refl [simp]: "same_options xs xs"
  by (simp add: same_options_def)

lemma same_options_trans: "same_options xs ys \<Longrightarrow> same_options ys zs \<Longrightarrow> same_options xs zs"
  by (simp add: same_options_def)

lemma same_options_length: "same_options xs ys \<Longrightarrow> length ys = length xs"
  by (force simp: same_options_def dest: mset_eq_length)

lemma swap_split:
  assumes "j + 1 < length os"
  shows "os = take j os @ os ! j # os ! (j + 1) # drop (j + 2) os"
    and "os[j := os ! (j + 1), j + 1 := os ! j] = take j os @ os ! (j + 1) # os ! j # drop (j + 2) os"
proof -
  show s: "os = take j os @ os ! j # os ! (j + 1) # drop (j + 2) os"
    using assms by (metis Cons_nth_drop_Suc Suc_eq_plus1 Suc_lessD add_2_eq_Suc' append_take_drop_id)
  have l: "length (take j os) = j" using assms by simp
  show "os[j := os ! (j + 1), j + 1 := os ! j] = take j os @ os ! (j + 1) # os ! j # drop (j + 2) os"
    by (subst s) (use l in \<open>simp add: list_update_append\<close>)
qed

lemma sort_step_spec:
  assumes "j + 1 < length os"
  obtains os' where "sort_step j os = Some os'" "same_options os os'" "length os' = length os"
    "os' ! (j + 1) = (if opt_number (os ! j) > opt_number (os ! (j + 1)) then os ! j else os ! (j + 1))"
    "os' ! j = (if opt_number (os ! j) > opt_number (os ! (j + 1)) then os ! (j + 1) else os ! j)"
    "\<And>k. k \<noteq> j \<Longrightarrow> k \<noteq> j + 1 \<Longrightarrow> os' ! k = os ! k"
proof
  let ?os = "if opt_number (os ! j) > opt_number (os ! (j + 1)) then os[j := os ! (j + 1), j + 1 := os ! j] else os"
  show "sort_step j os = Some ?os" using assms by (simp add: sort_step_def)
  show "same_options os ?os"
  proof (cases "opt_number (os ! j) > opt_number (os ! (j + 1))")
    case True
    have "same_options (take j os @ os ! j # os ! (j + 1) # drop (j + 2) os) (take j os @ os ! (j + 1) # os ! j # drop (j + 2) os)"
      using True by (auto simp: same_options_def)
    then show ?thesis using True swap_split [OF assms] by simp
  qed simp
qed (use assms in auto)

text \<open>After pass \<open>i\<close> the last \<open>i\<close> options are in their places.\<close>

definition settled :: "nat \<Rightarrow> CoapOption list \<Rightarrow> bool" where
  "settled i os \<longleftrightarrow> (\<forall>a b. a < b \<longrightarrow> length os - i \<le> b \<longrightarrow> b < length os \<longrightarrow> opt_number (os ! a) \<le> opt_number (os ! b))"

definition bubbled :: "nat \<Rightarrow> CoapOption list \<Rightarrow> bool" where
  "bubbled j os \<longleftrightarrow> (\<forall>a < j. opt_number (os ! a) \<le> opt_number (os ! j))"

lemma sort_pass:
  assumes "settled i os" and "i < length os"
  shows "\<exists>os'. for_range 0 (length os - 1 - i) sort_step os = Some os' \<and> same_options os os' \<and> settled (Suc i) os'"
proof -
  let ?n = "length os - 1 - i"
  define I where "I j os' \<longleftrightarrow> same_options os os' \<and> settled i os' \<and> bubbled j os'" for j os'
  have "\<exists>os'. for_range 0 ?n sort_step os = Some os' \<and> I ?n os'"
  proof (rule for_range_rule)
    show "I 0 os" using assms by (simp add: I_def bubbled_def)
    fix j xs assume j: "j < ?n" and I: "I j xs"
    have len: "length xs = length os" using I by (auto simp: I_def dest: same_options_length)
    have j1: "j + 1 < length xs" using j len by simp
    obtain ys where ys: "sort_step j xs = Some ys" "same_options xs ys" "length ys = length xs"
      "ys ! (j + 1) = (if opt_number (xs ! j) > opt_number (xs ! (j + 1)) then xs ! j else xs ! (j + 1))"
      "ys ! j = (if opt_number (xs ! j) > opt_number (xs ! (j + 1)) then xs ! (j + 1) else xs ! j)"
      "\<And>k. k \<noteq> j \<Longrightarrow> k \<noteq> j + 1 \<Longrightarrow> ys ! k = xs ! k"
      by (rule sort_step_spec [OF j1]) blast
    have "settled i ys" unfolding settled_def
    proof (intro allI impI)
      fix a b assume ab: "a < b" "length ys - i \<le> b" "b < length ys"
      have b: "b \<noteq> j" "b \<noteq> j + 1" "j < b" "j + 1 < b" using ab j len ys(3) by auto
      have le: "\<And>a. a < b \<Longrightarrow> opt_number (xs ! a) \<le> opt_number (xs ! b)" using I ab ys(3) by (auto simp: I_def settled_def)
      have "ys ! b = xs ! b" using ys(6) b by simp
      moreover have "ys ! a = xs ! a \<or> ys ! a = xs ! j \<or> ys ! a = xs ! (j + 1)"
        using ys(4,5) ys(6) [of a] by (cases "a = j"; cases "a = j + 1") auto
      ultimately show "opt_number (ys ! a) \<le> opt_number (ys ! b)" using le [OF ab(1)] le [OF b(3)] le [OF b(4)] by metis
    qed
    moreover have "bubbled (Suc j) ys" unfolding bubbled_def
    proof (intro allI impI)
      fix a assume a: "a < Suc j"
      have bub: "\<And>a. a < j \<Longrightarrow> opt_number (xs ! a) \<le> opt_number (xs ! j)" using I by (simp add: I_def bubbled_def)
      show "opt_number (ys ! a) \<le> opt_number (ys ! Suc j)"
      proof (cases "a = j")
        case False
        then have "ys ! a = xs ! a" "opt_number (xs ! a) \<le> opt_number (xs ! j)" using ys(6) [of a] bub a by auto
        then show ?thesis using ys(4) by (auto simp: not_less)
      qed (use ys(4,5) in auto)
    qed
    ultimately show "\<exists>s'. sort_step j xs = Some s' \<and> I (Suc j) s'"
      using ys I same_options_trans by (auto simp: I_def)
  qed simp
  then obtain os' where os': "for_range 0 ?n sort_step os = Some os'" "I ?n os'" by blast
  have len: "length os' = length os" using os'(2) by (auto simp: I_def dest: same_options_length)
  have "settled (Suc i) os'" unfolding settled_def
  proof (intro allI impI)
    fix a b assume ab: "a < b" "length os' - Suc i \<le> b" "b < length os'"
    show "opt_number (os' ! a) \<le> opt_number (os' ! b)"
    proof (cases "b = ?n")
      case True
      then show ?thesis using os'(2) ab by (simp add: I_def bubbled_def)
    next
      case False
      then have "length os' - i \<le> b" using ab len by simp
      then show ?thesis using os'(2) ab by (simp add: I_def settled_def)
    qed
  qed
  then show ?thesis using os' by (auto simp: I_def)
qed

lemma sort_loop: "for_range 0 (length os) (\<lambda>i. for_range 0 (length os - 1 - i) sort_step) os = Some (sort_key opt_number os)"
proof -
  define I where "I i os' \<longleftrightarrow> same_options os os' \<and> settled i os'" for i os'
  have "\<exists>os'. for_range 0 (length os) (\<lambda>i. for_range 0 (length os - 1 - i) sort_step) os = Some os' \<and> I (length os) os'"
  proof (rule for_range_rule)
    show "I 0 os" by (simp add: I_def settled_def)
    fix i xs assume i: "i < length os" "I i xs"
    then have "length xs = length os" by (auto simp: I_def dest: same_options_length)
    with i sort_pass [of i xs] show "\<exists>s'. for_range 0 (length os - 1 - i) sort_step xs = Some s' \<and> I (Suc i) s'"
      using same_options_trans by (auto simp: I_def)
  qed simp
  then obtain os' where os': "for_range 0 (length os) (\<lambda>i. for_range 0 (length os - 1 - i) sort_step) os = Some os'"
      "same_options os os'" "settled (length os) os'" by (auto simp: I_def)
  have "length os' = length os" using os'(2) by (rule same_options_length)
  with os'(3) have "sorted (map opt_number os')" by (auto simp: sorted_iff_nth_mono_less settled_def)
  then have "sort_key opt_number os = os'"
    using os'(2) by (intro properties_for_sort_key) (auto simp: same_options_def)
  with os'(1) show ?thesis by simp
qed

section \<open>Encoding\<close>

definition vecs_ok :: "coap_vecs \<Rightarrow> bool" where
  "vecs_ok cv \<longleftrightarrow> heapless_ok (cv_bytes cv) \<and> heapless_ok (cv_str cv) \<and> heapless_ok (cv_options cv) \<and>
     heapless_ok (cv_pending cv) \<and> heapless_ok (cv_sends cv) \<and> heapless_ok (cv_methods cv) \<and> heapless_ok (cv_resources cv)"

text \<open>The bytes of an option, without the buffer.\<close>

definition delta_nibble :: "u16 \<Rightarrow> u8" where
  "delta_nibble d = (if d < 13 then ucast d else if d < 269 then 13 else 14)"

definition length_nibble :: "nat \<Rightarrow> u8" where
  "length_nibble n = (if n < 13 then of_nat n else if n < 269 then 13 else 14)"

definition delta_bytes :: "u16 \<Rightarrow> u8 list" where
  "delta_bytes d =
     (if delta_nibble d = 13 then [ucast (d - 13)]
      else if delta_nibble d = 14 then [ucast (drop_bit 8 (d - 269)), ucast (d - 269)] else [])"

definition length_bytes :: "nat \<Rightarrow> u8 list" where
  "length_bytes n =
     (if length_nibble n = 13 then [of_nat (n - 13)]
      else if length_nibble n = 14 then [of_nat ((n - 269) div 256), of_nat (n - 269)] else [])"

definition option_bytes :: "u16 \<Rightarrow> CoapOption \<Rightarrow> u8 list" where
  "option_bytes prev opt =
     (push_bit 4 (delta_nibble (opt_number opt - prev)) OR length_nibble (length (opt_value opt)))
     # delta_bytes (opt_number opt - prev) @ length_bytes (length (opt_value opt)) @ opt_value opt"

fun options_bytes :: "u16 \<Rightarrow> CoapOption list \<Rightarrow> u8 list" where
  "options_bytes prev [] = []"
| "options_bytes prev (opt # os) = option_bytes prev opt @ options_bytes (opt_number opt) os"

definition payload_bytes :: "u8 list \<Rightarrow> u8 list" where
  "payload_bytes p = (if p \<noteq> [] then 0xff # p else [])"

definition message_bytes :: "CoapMessage \<Rightarrow> u8 list" where
  "message_bytes m = CoapHeader_encode (cm_header m) @ cm_token m @ options_bytes 0 (cm_options m) @ payload_bytes (cm_payload m)"

text \<open>A step of the encoder appends its bytes, or fails when they do not fit.\<close>

definition appends :: "u8 list \<Rightarrow> u8 list \<Rightarrow> CoapError + u8 list" where
  "appends buffer bytes = (if length buffer + length bytes \<le> MAX_MESSAGE_SIZE then Ok (buffer @ bytes) else Err EncodingFailed)"

lemma appends_Nil [simp]: "length buffer \<le> MAX_MESSAGE_SIZE \<Longrightarrow> appends buffer [] = Ok buffer"
  by (simp add: appends_def)

lemma appends_then:
  assumes "length buffer \<le> MAX_MESSAGE_SIZE"
    and "\<And>b. length b \<le> MAX_MESSAGE_SIZE \<Longrightarrow> f b = appends b ys"
  shows "res_bind (appends buffer xs) f = appends buffer (xs @ ys)"
  using assms by (auto simp: appends_def)

lemma push_appends:
  assumes "vecs_ok cv" and "length buffer \<le> MAX_MESSAGE_SIZE"
  shows "push_all cv buffer xs = appends buffer xs" and "push_byte cv buffer b = appends buffer [b]"
  using assms by (auto simp: push_all_def push_byte_def appends_def vecs_ok_def heapless)

lemma encode_option_appends:
  assumes "vecs_ok cv" and "length buffer \<le> MAX_MESSAGE_SIZE"
  shows "encode_option cv prev opt buffer = appends buffer (option_bytes prev opt)"
proof -
  let ?d = "opt_number opt - prev" and ?n = "length (opt_value opt)"
  note push = push_appends [OF assms(1)]
  have ed: "(if delta_nibble ?d = 13 then push_byte cv b (ucast (?d - 13))
       else if delta_nibble ?d = 14 then
         res_bind (push_byte cv b (ucast (drop_bit 8 (?d - 269)))) (\<lambda>b. push_byte cv b (ucast (?d - 269)))
       else Ok b) = appends b (delta_bytes ?d)" if "length b \<le> MAX_MESSAGE_SIZE" for b
    using that push appends_then [where ys = "[ucast (?d - 269)]" and xs = "[ucast (drop_bit 8 (?d - 269))]"]
    by (auto simp: delta_bytes_def)
  have el: "(if length_nibble ?n = 13 then push_byte cv b (of_nat (?n - 13))
       else if length_nibble ?n = 14 then
         res_bind (push_byte cv b (of_nat ((?n - 269) div 256))) (\<lambda>b. push_byte cv b (of_nat (?n - 269)))
       else Ok b) = appends b (length_bytes ?n)" if "length b \<le> MAX_MESSAGE_SIZE" for b
    using that push appends_then [where ys = "[of_nat (?n - 269)]" and xs = "[of_nat ((?n - 269) div 256)]"]
    by (auto simp: length_bytes_def)
  have "encode_option cv prev opt buffer =
      res_bind (appends buffer [push_bit 4 (delta_nibble ?d) OR length_nibble ?n]) (\<lambda>b1.
        res_bind (if delta_nibble ?d = 13 then push_byte cv b1 (ucast (?d - 13))
           else if delta_nibble ?d = 14 then
             res_bind (push_byte cv b1 (ucast (drop_bit 8 (?d - 269)))) (\<lambda>b. push_byte cv b (ucast (?d - 269)))
           else Ok b1) (\<lambda>b2.
        res_bind (if length_nibble ?n = 13 then push_byte cv b2 (of_nat (?n - 13))
           else if length_nibble ?n = 14 then
             res_bind (push_byte cv b2 (of_nat ((?n - 269) div 256))) (\<lambda>b. push_byte cv b (of_nat (?n - 269)))
           else Ok b2) (\<lambda>b3. push_all cv b3 (opt_value opt))))"
    by (simp only: encode_option_def Let_def delta_nibble_def [symmetric] length_nibble_def [symmetric] push(2) [OF assms(2)])
  also have "\<dots> = appends buffer ([push_bit 4 (delta_nibble ?d) OR length_nibble ?n] @ delta_bytes ?d @ length_bytes ?n @ opt_value opt)"
    by (intro appends_then assms; subst ed; (assumption | intro appends_then); (assumption | (subst el; (assumption | intro appends_then))))
      (assumption | rule push)+
  finally show ?thesis by (simp add: option_bytes_def)
qed

lemma encode_options_appends:
  assumes "vecs_ok cv" and "length buffer \<le> MAX_MESSAGE_SIZE"
  shows "encode_options cv prev os buffer = appends buffer (options_bytes prev os)"
  using assms(2)
proof (induction os arbitrary: prev buffer)
  case Nil
  then show ?case by simp
next
  case (Cons opt os)
  then show ?case
    using appends_then [where xs = "option_bytes prev opt" and ys = "options_bytes (opt_number opt) os"]
    by (simp add: encode_option_appends [OF assms(1)])
qed

lemma sort_options_sort: "sort_options m = Some (m\<lparr>cm_options := sort_key opt_number (cm_options m)\<rparr>)"
  using sort_loop [of "cm_options m"] by (simp add: sort_options_def Let_def)

lemma encode_spec:
  assumes "vecs_ok cv" and "length (cm_token m) \<le> 8"
  shows "CoapMessage_encode cv m =
    (let m' = m\<lparr>cm_options := sort_key opt_number (cm_options m)\<rparr> in Some (appends [] (message_bytes m'), m'))"
proof -
  let ?m = "m\<lparr>cm_options := sort_key opt_number (cm_options m)\<rparr>" and ?b = "CoapHeader_encode (cm_header m) @ cm_token m"
  note push = push_appends [OF assms(1)]
  have len: "length ?b \<le> MAX_MESSAGE_SIZE" using assms(2) by (simp add: CoapHeader_encode_def MAX_MESSAGE_SIZE_def)
  have start: "res_bind (push_all cv [] (CoapHeader_encode (cm_header m))) (\<lambda>b. push_all cv b (cm_token m)) = Ok ?b"
    using len by (simp add: push appends_def)
  have pay: "(if cm_payload m \<noteq> [] then res_bind (push_byte cv b 0xff) (\<lambda>b3. push_all cv b3 (cm_payload m)) else Ok b) =
      appends b (payload_bytes (cm_payload m))" if "length b \<le> MAX_MESSAGE_SIZE" for b
    using that push appends_then [where xs = "[0xff]" and ys = "cm_payload m"] by (simp add: payload_bytes_def)
  have "res_bind (appends ?b (options_bytes 0 (cm_options ?m)))
      (\<lambda>b. if cm_payload m \<noteq> [] then res_bind (push_byte cv b 0xff) (\<lambda>b3. push_all cv b3 (cm_payload m)) else Ok b) =
      appends ?b (options_bytes 0 (cm_options ?m) @ payload_bytes (cm_payload m))"
    by (rule appends_then [OF len pay])
  also have "\<dots> = appends [] (message_bytes ?m)" by (simp add: appends_def message_bytes_def)
  finally show ?thesis
    using start by (simp add: CoapMessage_encode_def Let_def sort_options_sort encode_options_appends [OF assms(1) len] cong: if_cong)
qed

section \<open>Decoding what was encoded\<close>

lemma nibbles:
  fixes d n :: u8
  assumes "d < 15" and "n < 15"
  shows "drop_bit 4 (push_bit 4 d OR n) AND 0x0f = d" and "(push_bit 4 d OR n) AND 0x0f = n" and "push_bit 4 d OR n \<noteq> 0xff"
proof -
  have all: "\<forall>i \<in> set [0..<15]. \<forall>j \<in> set [0..<15].
      drop_bit 4 (push_bit 4 (of_nat i) OR of_nat j) AND (0x0f :: u8) = of_nat i \<and>
      (push_bit 4 (of_nat i) OR of_nat j) AND (0x0f :: u8) = of_nat j \<and> push_bit 4 (of_nat i) OR of_nat j \<noteq> (0xff :: u8)"
    by code_simp
  have "unat d \<in> set [0..<15]" "unat n \<in> set [0..<15]" using assms by (simp_all add: word_less_nat_alt)
  from bspec [OF bspec [OF all this(1)] this(2)]
  show "drop_bit 4 (push_bit 4 d OR n) AND 0x0f = d" and "(push_bit 4 d OR n) AND 0x0f = n" and "push_bit 4 d OR n \<noteq> 0xff"
    by simp_all
qed

lemma u16_small:
  fixes d :: u16
  assumes "unat d < 256"
  shows "unat (ucast d :: u8) = unat d" and "ucast (ucast d :: u8) = d"
proof -
  show u: "unat (ucast d :: u8) = unat d" using assms by (simp add: unsigned_ucast_eq take_bit_nat_eq_self)
  have "unat (ucast (ucast d :: u8) :: u16) = unat d" using assms by (simp add: unsigned_ucast_eq unsigned_take_bit_eq take_bit_nat_eq_self)
  then show "ucast (ucast d :: u8) = d" by (simp only: word_unat_eq_iff)
qed

lemma delta_nibble_less: "delta_nibble d < 15"
  using u16_small(1) [of d] by (auto simp: delta_nibble_def word_less_nat_alt)

lemma length_nibble_less: "length_nibble n < 15"
  by (auto simp: length_nibble_def word_less_nat_alt unat_of_nat)

lemma drop_Cons_get:
  assumes "drop offset bytes = x # rest"
  shows "offset < length bytes" and "arr_get bytes offset = Some x" and "drop (offset + 1) bytes = rest"
proof -
  show o: "offset < length bytes" using assms by (cases "offset < length bytes") auto
  show "arr_get bytes offset = Some x" using assms o by (simp add: arr_get_def nth_via_drop)
  show "drop (offset + 1) bytes = rest" using assms by (metis drop_drop drop_Suc_Cons drop0 add.commute Suc_eq_plus1)
qed

lemma decode_delta_bytes:
  assumes "d < 525" and "drop offset bytes = delta_bytes d @ rest"
  shows "decode_delta bytes offset (ucast (delta_nibble d)) = Some (Ok (d, offset + length (delta_bytes d)))"
proof -
  have less: "unat d < 525" using assms(1) by (simp add: word_less_nat_alt)
  consider "unat d < 13" | "13 \<le> unat d" "unat d < 269" | "269 \<le> unat d" by linarith
  then show ?thesis
  proof cases
    case 1
    then have "d < 13" "d \<noteq> 13" "d \<noteq> 14" "d \<noteq> 15" "(ucast d :: u8) \<noteq> 13" "(ucast d :: u8) \<noteq> 14"
      using u16_small(1) [of d] by (auto simp: word_less_nat_alt word_unat_eq_iff)
    then show ?thesis using u16_small(2) [of d] 1 by (simp add: decode_delta_def delta_bytes_def delta_nibble_def)
  next
    case 2
    then have n: "\<not> d < 13" "d < 269" by (auto simp: word_less_nat_alt)
    have "unat (d - 13) = unat d - 13" using 2 by (simp add: unat_sub word_le_nat_alt)
    then have "ucast (ucast (d - 13) :: u8) = d - 13" using u16_small(2) [of "d - 13"] 2 by simp
    moreover have "drop offset bytes = ucast (d - 13) # rest" using assms(2) n by (simp add: delta_bytes_def delta_nibble_def)
    note drop_Cons_get [OF this]
    ultimately show ?thesis using n by (simp add: decode_delta_def delta_bytes_def delta_nibble_def)
  next
    case 3
    then have n: "\<not> d < 13" "\<not> d < 269" by (auto simp: word_less_nat_alt)
    have e: "unat (d - 269) = unat d - 269" using 3 by (simp add: unat_sub word_le_nat_alt)
    then have lo: "ucast (ucast (d - 269) :: u8) = d - 269" using u16_small(2) [of "d - 269"] less by simp
    have "drop_bit 8 (unat (d - 269)) = 0" using e less by (simp add: drop_bit_eq_div)
    then have "unat (drop_bit 8 (d - 269)) = 0" by (simp only: unat_drop_bit_eq)
    then have hi: "drop_bit 8 (d - 269) = 0" by (simp only: unat_eq_0)
    have "drop offset bytes = 0 # ucast (d - 269) # rest" using assms(2) n hi by (simp add: delta_bytes_def delta_nibble_def)
    note 1 = drop_Cons_get [OF this] note 2 = drop_Cons_get [OF 1(3)]
    show ?thesis using n 1 2 lo hi by (simp add: decode_delta_def delta_bytes_def delta_nibble_def)
  qed
qed

lemma decode_length_bytes:
  assumes "n \<le> 256" and "drop offset bytes = length_bytes n @ rest"
  shows "decode_length bytes offset (unat (length_nibble n)) = Some (Ok (n, offset + length (length_bytes n)))"
proof (cases "n < 13")
  case True
  then have u: "unat (of_nat n :: u8) = n" by (simp add: unat_of_nat)
  have "(of_nat n :: u8) \<noteq> 13" "(of_nat n :: u8) \<noteq> 14" using True u by (auto simp: word_unat_eq_iff)
  then show ?thesis using True u by (simp add: decode_length_def length_bytes_def length_nibble_def)
next
  case False
  have u: "unat (of_nat (n - 13) :: u8) = n - 13" using assms(1) by (simp add: unat_of_nat)
  have "drop offset bytes = of_nat (n - 13) # rest" using assms False by (simp add: length_bytes_def length_nibble_def)
  note drop_Cons_get [OF this]
  then show ?thesis using assms(1) False u by (simp add: decode_length_def length_bytes_def length_nibble_def del: of_nat_diff)
qed

lemma decode_option_bytes:
  assumes cv: "vecs_ok cv" and d: "opt_number opt - prev < 525" and n: "length (opt_value opt) \<le> 256" and o: "length options < 16"
    and bytes: "drop offset bytes = option_bytes prev opt @ rest"
  shows "decode_option cv bytes offset prev options =
    Some (Ok (options @ [opt], opt_number opt, offset + length (option_bytes prev opt)))"
proof -
  let ?d = "opt_number opt - prev" and ?n = "length (opt_value opt)"
  let ?h = "push_bit 4 (delta_nibble ?d) OR length_nibble ?n"
  have "drop offset bytes = ?h # delta_bytes ?d @ length_bytes ?n @ opt_value opt @ rest" using bytes by (simp add: option_bytes_def)
  note h = drop_Cons_get [OF this]
  note nib = nibbles [OF delta_nibble_less [of ?d] length_nibble_less [of ?n]]
  define o2 where "o2 = offset + 1 + length (delta_bytes ?d)"
  define o3 where "o3 = o2 + length (length_bytes ?n)"
  have d1: "decode_delta bytes (offset + 1) (ucast (drop_bit 4 ?h AND 0x0f)) = Some (Ok (?d, o2))"
    unfolding nib o2_def by (rule decode_delta_bytes [OF d h(3)])
  have "drop o2 bytes = length_bytes ?n @ opt_value opt @ rest"
    using arg_cong [OF h(3), of "drop (length (delta_bytes ?d))"] by (simp add: o2_def add.commute)
  note d2 = decode_length_bytes [OF n this, folded o3_def]
  have val: "drop o3 bytes = opt_value opt @ rest"
    using arg_cong [OF \<open>drop o2 bytes = _\<close>, of "drop (length (length_bytes ?n))"] by (simp add: o3_def add.commute)
  have fit: "o3 + ?n \<le> length bytes" using arg_cong [OF h(3), of length] h(1) by (simp add: o3_def o2_def)
  have "decode_option cv bytes offset prev options = Some (Ok (options @ [opt], prev + ?d, o3 + ?n))"
    using h(2) d1 d2 nib fit val cv n o
    by (simp add: decode_option_def Let_def vecs_ok_def heapless)
  then show ?thesis by (simp add: o3_def o2_def option_bytes_def)
qed

lemma options_bytes_head:
  "os \<noteq> [] \<Longrightarrow> \<exists>h t. options_bytes prev os = h # t \<and> h \<noteq> 0xff"
  using nibbles(3) [OF delta_nibble_less length_nibble_less] by (cases os) (auto simp: option_bytes_def)

lemma u16_sub_le:
  fixes a b :: u16
  assumes "a \<le> b"
  shows "b - a \<le> b"
  using assms by (simp add: word_le_nat_alt unat_sub)

lemma decode_options_bytes:
  assumes cv: "vecs_ok cv" and stop: "rest = [] \<or> hd rest = 0xff"
  shows "sorted (prev # map opt_number os) \<Longrightarrow> \<forall>opt \<in> set os. opt_number opt < 525 \<and> length (opt_value opt) \<le> 256 \<Longrightarrow>
    length options + length os \<le> 16 \<Longrightarrow> offset \<le> length bytes \<Longrightarrow> drop offset bytes = options_bytes prev os @ rest \<Longrightarrow>
    decode_options cv bytes offset prev options = Some (Ok (options @ os, offset + length (options_bytes prev os)))"
proof (induction os arbitrary: prev options offset)
  case Nil
  then have "drop offset bytes = rest" by simp
  then show ?case
    using stop Nil.prems(4) drop_Cons_get(1,2) [of offset bytes "0xff" "tl rest"]
    by (cases rest) (auto simp: decode_options.simps [of _ _ offset])
next
  case (Cons opt os)
  have "opt_number opt - prev \<le> opt_number opt" using Cons.prems(1) by (intro u16_sub_le) simp
  then have d: "opt_number opt - prev < 525" using Cons.prems(2) by (auto intro: le_less_trans)
  have bytes: "drop offset bytes = option_bytes prev opt @ options_bytes (opt_number opt) os @ rest" using Cons.prems(5) by simp
  have one: "decode_option cv bytes offset prev options =
      Some (Ok (options @ [opt], opt_number opt, offset + length (option_bytes prev opt)))"
    using Cons.prems by (intro decode_option_bytes [OF cv d _ _ bytes]) auto
  obtain h t where h: "options_bytes prev (opt # os) = h # t" "h \<noteq> 0xff" using options_bytes_head [of "opt # os" prev] by auto
  have "drop offset bytes = h # t @ rest" using Cons.prems(5) h(1) by simp
  note h2 = drop_Cons_get [OF this]
  have more: "drop (offset + length (option_bytes prev opt)) bytes = options_bytes (opt_number opt) os @ rest"
    using arg_cong [OF bytes, of "drop (length (option_bytes prev opt))"] by (simp add: add.commute)
  have "offset + length (option_bytes prev opt) \<le> length bytes"
    using decode_option_progress [OF one] by simp
  then have "decode_options cv bytes (offset + length (option_bytes prev opt)) (opt_number opt) (options @ [opt]) =
      Some (Ok (options @ opt # os, offset + length (option_bytes prev opt) + length (options_bytes (opt_number opt) os)))"
    using Cons.IH [of "opt_number opt" "options @ [opt]" "offset + length (option_bytes prev opt)"] Cons.prems more by simp
  then show ?case using h(2) h2(1,2) one by (simp add: decode_options.simps [of _ _ offset] add.assoc)
qed

lemma header_roundtrip:
  assumes "hdr_version h = 1" and "hdr_token_length h \<le> 8"
  shows "CoapHeader_decode (CoapHeader_encode h @ rest) = Ok h"
proof -
  let ?t = "MessageType_to_u8 (hdr_msg_type h)" and ?n = "hdr_token_length h" and ?i = "hdr_message_id h"
  have all: "\<forall>t \<in> set [Confirmable, NonConfirmable, Acknowledgment, Reset]. \<forall>n \<in> set [0..<9].
      drop_bit 6 (push_bit 6 1 OR push_bit 4 (MessageType_to_u8 t) OR (of_nat n AND 0x0f)) = (1 :: u8) \<and>
      MessageType_from_u8 (drop_bit 4 (push_bit 6 1 OR push_bit 4 (MessageType_to_u8 t) OR (of_nat n AND 0x0f)) AND 0x03) = Ok t \<and>
      (push_bit 6 1 OR push_bit 4 (MessageType_to_u8 t) OR (of_nat n AND 0x0f)) AND 0x0f = (of_nat n :: u8)"
    by code_simp
  have "hdr_msg_type h \<in> set [Confirmable, NonConfirmable, Acknowledgment, Reset]" by (cases "hdr_msg_type h") auto
  moreover have "unat ?n \<in> set [0..<9]" using assms(2) by (simp add: word_le_nat_alt)
  ultimately have byte0: "drop_bit 6 (push_bit 6 1 OR push_bit 4 ?t OR (?n AND 0x0f)) = (1 :: u8)"
      "MessageType_from_u8 (drop_bit 4 (push_bit 6 1 OR push_bit 4 ?t OR (?n AND 0x0f)) AND 0x03) = Ok (hdr_msg_type h)"
      "(push_bit 6 1 OR push_bit 4 ?t OR (?n AND 0x0f)) AND 0x0f = ?n"
    using bspec [OF bspec [OF all], of "hdr_msg_type h" "unat ?n"] by simp_all
  have i: "push_bit 8 (ucast (ucast (drop_bit 8 ?i) :: u8)) OR ucast (ucast ?i :: u8) = ?i"
    by (intro bit_eqI) (auto simp: bit_simps)
  show ?thesis
    using assms byte0 i by (simp add: CoapHeader_decode_def CoapHeader_encode_def COAP_VERSION_def MAX_TOKEN_LENGTH_def Let_def not_less)
qed

text \<open>Well-formed messages: the capacities of the containers, and a header that agrees with the token.\<close>

definition coap_wf :: "CoapMessage \<Rightarrow> bool" where
  "coap_wf m \<longleftrightarrow> hdr_version (cm_header m) = 1 \<and> length (cm_token m) \<le> 8 \<and>
     hdr_token_length (cm_header m) = of_nat (length (cm_token m)) \<and> length (cm_options m) \<le> 16 \<and>
     (\<forall>opt \<in> set (cm_options m). length (opt_value opt) \<le> 256) \<and> length (cm_payload m) \<le> 1024"

lemma decode_message_bytes:
  assumes cv: "vecs_ok cv" and wf: "coap_wf m" and num: "\<forall>opt \<in> set (cm_options m). opt_number opt < 525"
    and sorted: "sorted (map opt_number (cm_options m))"
  shows "CoapMessage_decode cv (message_bytes m) = Some (Ok m)"
proof -
  let ?t = "cm_token m" and ?ob = "options_bytes 0 (cm_options m)" and ?pb = "payload_bytes (cm_payload m)"
  define bytes where "bytes = message_bytes m"
  have bytes: "bytes = CoapHeader_encode (cm_header m) @ ?t @ ?ob @ ?pb" by (simp add: bytes_def message_bytes_def)
  have hl: "length (CoapHeader_encode (cm_header m)) = 4" by (simp add: CoapHeader_encode_def)
  have tl: "unat (hdr_token_length (cm_header m)) = length ?t" "hdr_token_length (cm_header m) \<le> 8"
    using wf by (auto simp: coap_wf_def unat_of_nat word_le_nat_alt)
  have header: "CoapHeader_decode bytes = Ok (cm_header m)"
    unfolding bytes using wf tl by (intro header_roundtrip) (auto simp: coap_wf_def)
  have token: "take (length ?t) (drop 4 bytes) = ?t" "drop (4 + length ?t) bytes = ?ob @ ?pb" and len: "4 + length ?t \<le> length bytes"
    using hl by (simp_all add: bytes)
  have stop: "?pb = [] \<or> hd ?pb = 0xff" by (simp add: payload_bytes_def)
  have opts: "decode_options cv bytes (4 + length ?t) 0 [] = Some (Ok (cm_options m, 4 + length ?t + length ?ob))"
    using decode_options_bytes [OF cv stop, of 0 "cm_options m" "[]" "4 + length ?t" bytes] sorted num wf token len
    by (auto simp: coap_wf_def)
  have "drop (4 + length ?t + length ?ob) bytes = ?pb"
    using arg_cong [OF token(2), of "drop (length ?ob)"] by (simp add: add.commute add.left_commute)
  then show ?thesis
    unfolding bytes_def [symmetric]
    using header token len opts tl cv wf drop_Cons_get [of "4 + length ?t + length ?ob" bytes "0xff" "cm_payload m"]
    by (cases "cm_payload m = []")
      (auto simp: CoapMessage_decode_def Let_def vecs_ok_def heapless coap_wf_def payload_bytes_def bytes hl)
qed

section \<open>Decoding any input\<close>

lemma decode_option_returns:
  assumes "vecs_ok cv" and "offset < length bytes" and "length options \<le> 16"
  shows "\<exists>r. decode_option cv bytes offset prev options = Some r \<and>
    (\<forall>os n o'. r = Ok (os, n, o') \<longrightarrow> length os \<le> 16 \<and> (\<exists>v. os = options @ [\<lparr>opt_number = n, opt_value = v\<rparr>] \<and> length v \<le> 256))"
proof -
  have d: "\<exists>r. decode_delta bytes k delta = Some r" for k delta by (simp add: decode_delta_def)
  have l: "\<exists>r. decode_length bytes k n = Some r" for k n by (simp add: decode_length_def)
  obtain rd where rd: "decode_delta bytes (offset + 1) (ucast (drop_bit 4 (bytes ! offset) AND 0x0f)) = Some rd" using d by blast
  show ?thesis
  proof (cases rd)
    case (Inl e)
    then show ?thesis using rd assms by (simp add: decode_option_def)
  next
    case (Inr p)
    obtain delta o2 where p: "p = (delta, o2)" by (cases p)
    obtain rl where rl: "decode_length bytes o2 (unat (bytes ! offset AND 0x0f)) = Some rl" using l by blast
    show ?thesis
    proof (cases rl)
      case (Inl e)
      then show ?thesis using rd rl Inr p assms by (simp add: decode_option_def)
    next
      case (Inr q)
      then show ?thesis
        using rd rl \<open>rd = Inr p\<close> p assms
        by (cases q) (auto simp: decode_option_def Let_def vecs_ok_def heapless)
    qed
  qed
qed

lemma decode_options_returns:
  "vecs_ok cv \<Longrightarrow> length options \<le> 16 \<Longrightarrow> \<forall>opt \<in> set options. length (opt_value opt) \<le> 256 \<Longrightarrow>
    \<exists>r. decode_options cv bytes offset prev options = Some r \<and>
      (\<forall>os o'. r = Ok (os, o') \<longrightarrow> length os \<le> 16 \<and> (\<forall>opt \<in> set os. length (opt_value opt) \<le> 256))"
proof (induction cv bytes offset prev options rule: decode_options.induct)
  case (1 cv bytes offset prev options)
  show ?case
  proof (cases "offset < length bytes \<and> bytes ! offset \<noteq> 0xff")
    case True
    obtain r where r: "decode_option cv bytes offset prev options = Some r"
        "\<forall>os n o'. r = Ok (os, n, o') \<longrightarrow> length os \<le> 16 \<and> (\<exists>v. os = options @ [\<lparr>opt_number = n, opt_value = v\<rparr>] \<and> length v \<le> 256)"
      using decode_option_returns [OF "1.prems"(1) _ "1.prems"(2), of offset bytes prev] True by blast
    show ?thesis
    proof (cases r)
      case (Inl e)
      then show ?thesis using True r(1) by (simp add: decode_options.simps [of _ _ offset])
    next
      case (Inr x)
      obtain os n o' where x: "x = (os, n, o')" by (cases x) auto
      have os: "length os \<le> 16" "\<forall>opt \<in> set os. length (opt_value opt) \<le> 256" using r(2) Inr x "1.prems"(3) by auto
      have "arr_get bytes offset = Some (bytes ! offset)" using True by simp
      from "1.IH" [OF _ this _ r(1) Inr x [symmetric] refl "1.prems"(1) os] True
      have "\<exists>r. decode_options cv bytes o' n os = Some r \<and>
          (\<forall>os o'. r = Ok (os, o') \<longrightarrow> length os \<le> 16 \<and> (\<forall>opt \<in> set os. length (opt_value opt) \<le> 256))" by blast
      then show ?thesis using True r(1) Inr x by (simp add: decode_options.simps [of _ _ offset])
    qed
  next
    case False
    then show ?thesis using "1.prems" by (auto simp: decode_options.simps [of _ _ offset])
  qed
qed

lemma decode_returns:
  assumes cv: "vecs_ok cv"
  shows "\<exists>r. CoapMessage_decode cv bytes = Some r \<and> (\<forall>m. r = Ok m \<longrightarrow> coap_wf m)"
proof -
  obtain r where r: "decode_options cv bytes k 0 [] = Some (r k)"
      "\<forall>os o'. r k = Ok (os, o') \<longrightarrow> length os \<le> 16 \<and> (\<forall>opt \<in> set os. length (opt_value opt) \<le> 256)" for k
    using decode_options_returns [OF cv, of "[]" bytes _ 0] by simp metis
  show ?thesis
  proof (cases "CoapHeader_decode bytes")
    case (Inl e)
    then show ?thesis by (simp add: CoapMessage_decode_def)
  next
    case (Inr h)
    then have h: "hdr_version h = 1" "hdr_token_length h \<le> 8"
      by (auto simp: CoapHeader_decode_def Let_def COAP_VERSION_def MAX_TOKEN_LENGTH_def res_bind_Ok_iff split: if_splits)
    then have u: "unat (hdr_token_length h) \<le> 8" "of_nat (unat (hdr_token_length h)) = hdr_token_length h" by (simp_all add: word_le_nat_alt)
    show ?thesis
      using Inr r [of "4 + unat (hdr_token_length h)"] h u cv
      by (cases "r (4 + unat (hdr_token_length h))")
        (auto simp: CoapMessage_decode_def Let_def vecs_ok_def heapless coap_wf_def)
  qed
qed

section \<open>The properties\<close>

text \<open>
  The bubble sort of the options is the stable sort by option number: it never indexes
  out of range, and options with the same number, such as the segments of a path, keep
  their order.
\<close>

theorem option_sort_stable: "sort_options m = Some (m\<lparr>cm_options := sort_key opt_number (cm_options m)\<rparr>)"
  by (rule sort_options_sort)

text \<open>
  C6. Round trip: encoding a well-formed message whose option numbers are below 525 returns
  and sorts its options. It fails exactly when the message is longer than 1152 bytes;
  otherwise decoding the bytes gives the sorted message back.
\<close>

theorem coap_roundtrip:
  assumes "vecs_ok cv" and "coap_wf m" and "\<forall>opt \<in> set (cm_options m). opt_number opt < 525"
  shows "\<exists>r m'. CoapMessage_encode cv m = Some (r, m') \<and> m' = m\<lparr>cm_options := sort_key opt_number (cm_options m)\<rparr> \<and>
    (if length (message_bytes m') \<le> MAX_MESSAGE_SIZE
     then \<exists>bytes. r = Ok bytes \<and> CoapMessage_decode cv bytes = Some (Ok m')
     else r = Err EncodingFailed)"
proof -
  let ?m = "m\<lparr>cm_options := sort_key opt_number (cm_options m)\<rparr>"
  have "coap_wf ?m" "\<forall>opt \<in> set (cm_options ?m). opt_number opt < 525" "sorted (map opt_number (cm_options ?m))"
    using assms(2,3) by (simp_all add: coap_wf_def)
  then have "CoapMessage_decode cv (message_bytes ?m) = Some (Ok ?m)" by (rule decode_message_bytes [OF assms(1)])
  moreover have "CoapMessage_encode cv m = Some (appends [] (message_bytes ?m), ?m)"
    using encode_spec [OF assms(1)] assms(2) by (simp add: coap_wf_def Let_def)
  ultimately show ?thesis by (simp add: appends_def)
qed

definition list_vecs :: coap_vecs where
  "list_vecs = \<lparr>cv_bytes = list_vec, cv_str = list_vec, cv_options = list_vec, cv_pending = list_vec,
                cv_sends = list_vec, cv_methods = list_vec, cv_resources = list_vec\<rparr>"

lemma list_vecs_ok [simp]: "vecs_ok list_vecs"
  by (simp add: vecs_ok_def list_vecs_def)

definition sample_message :: CoapMessage where
  "sample_message = (CoapMessage_new Confirmable 1 0x1234)\<lparr>
     cm_options := [\<lparr>opt_number = 60, opt_value = [1]\<rparr>, \<lparr>opt_number = 11, opt_value = [0x61]\<rparr>], cm_payload := [0xff, 2]\<rparr>"

theorem coap_roundtrip_witness:
  "\<exists>bytes. fst (the (CoapMessage_encode list_vecs sample_message)) = Ok bytes \<and>
     CoapMessage_decode list_vecs bytes =
       Some (Ok (sample_message\<lparr>cm_options := [\<lparr>opt_number = 11, opt_value = [0x61]\<rparr>, \<lparr>opt_number = 60, opt_value = [1]\<rparr>]\<rparr>))"
proof -
  have wf: "coap_wf sample_message" "\<forall>opt \<in> set (cm_options sample_message). opt_number opt < 525"
    by (simp_all add: sample_message_def coap_wf_def CoapMessage_new_def CoapHeader_new_def COAP_VERSION_def)
  have sort: "sort_key opt_number (cm_options sample_message) =
      [\<lparr>opt_number = 11, opt_value = [0x61]\<rparr>, \<lparr>opt_number = 60, opt_value = [1]\<rparr>]"
    by (simp add: sample_message_def)
  have "length (message_bytes (sample_message\<lparr>cm_options := [\<lparr>opt_number = 11, opt_value = [0x61]\<rparr>, \<lparr>opt_number = 60, opt_value = [1]\<rparr>]\<rparr>)) \<le> MAX_MESSAGE_SIZE"
    by (simp add: message_bytes_def CoapHeader_encode_def sample_message_def CoapMessage_new_def option_bytes_def
        delta_bytes_def length_bytes_def payload_bytes_def MAX_MESSAGE_SIZE_def)
  with coap_roundtrip [OF list_vecs_ok wf] sort show ?thesis by auto
qed



lemma large_delta_words:
  assumes "k < 243"
  shows "option_bytes 0 \<lparr>opt_number = 525 + of_nat k, opt_value = []\<rparr> = [0xe0, 1, of_nat k]"
    and "push_bit 8 1 OR (ucast (of_nat k :: u8) + 269) = 269 + (of_nat k :: u16)"
proof -
  let ?d = "525 + of_nat k :: u16"
  have d: "unat ?d = 525 + k" using assms by (simp add: unat_word_ariths unat_of_nat)
  then have n: "\<not> ?d < 13" "\<not> ?d < 269" by (simp_all add: word_less_nat_alt)
  have diff: "?d - 269 = 256 + of_nat k" by simp
  have e: "unat (256 + of_nat k :: u16) = 256 + k" using assms by (simp add: unat_word_ariths unat_of_nat)
  have "drop_bit 8 (256 + k) = (1 :: nat)" using assms by (simp add: drop_bit_eq_div)
  then have "unat (drop_bit 8 (?d - 269)) = 1" by (simp only: unat_drop_bit_eq diff e)
  then have "unat (ucast (drop_bit 8 (?d - 269)) :: u8) = 1" by (simp only: unsigned_ucast_eq) simp
  then have hi: "ucast (drop_bit 8 (?d - 269)) = (1 :: u8)" by (simp only: word_unat_eq_iff unat_1)
  have "unat (ucast (?d - 269) :: u8) = k"
    using assms by (simp add: unsigned_ucast_eq e take_bit_eq_mod)
  then have lo: "ucast (?d - 269) = (of_nat k :: u8)" by (metis of_nat_unat ucast_id)
  show "option_bytes 0 \<lparr>opt_number = ?d, opt_value = []\<rparr> = [0xe0, 1, of_nat k]"
    using n hi lo by (simp add: option_bytes_def delta_nibble_def length_nibble_def delta_bytes_def length_bytes_def)
  have "ucast (of_nat k :: u8) + 269 = (269 + of_nat k :: u16)"
    using assms by (simp add: unsigned_of_nat take_bit_nat_eq_self)
  moreover have "bit (269 + of_nat k :: u16) 8"
  proof -
    have "unat (269 + of_nat k :: u16) = 269 + k" using assms by (simp add: unat_word_ariths unat_of_nat)
    moreover have "(269 + k) div 2 ^ 8 = 1" using assms by (intro div_nat_eqI) auto
    then have "bit (269 + k) 8" by (simp only: bit_iff_odd) simp
    ultimately have "bit (unat (269 + of_nat k :: u16)) 8" by (simp only:)
    then show ?thesis by (simp only: bit_unsigned_iff)
  qed
  moreover have "push_bit 8 1 OR x = x" if "bit x 8" for x :: u16
    by (rule bit_eqI) (use that in \<open>simp only: bit_or_iff bit_push_bit_iff bit_1_iff\<close>, auto)
  ultimately show "push_bit 8 1 OR (ucast (of_nat k :: u8) + 269) = 269 + (of_nat k :: u16)" by (simp only:)
qed

text \<open>
  Large option numbers are misread. The decoder joins the two bytes of an extended delta
  and the offset 269 with a bitwise or in place of the addition, so that an option with
  number 525 to 767 is encoded correctly and decoded as an option with a number 256 lower.
\<close>

theorem large_delta_misread:
  assumes "vecs_ok cv" and "k < 243"
  shows "\<exists>bytes m'. CoapMessage_encode cv ((CoapMessage_new t code i)\<lparr>cm_options := [\<lparr>opt_number = 525 + of_nat k, opt_value = []\<rparr>]\<rparr>) =
      Some (Ok bytes, m') \<and>
    CoapMessage_decode cv bytes =
      Some (Ok ((CoapMessage_new t code i)\<lparr>cm_options := [\<lparr>opt_number = 269 + of_nat k, opt_value = []\<rparr>]\<rparr>))"
proof -
  let ?h = "CoapHeader_new t code i"
  let ?m = "(CoapMessage_new t code i)\<lparr>cm_options := [\<lparr>opt_number = 525 + of_nat k, opt_value = []\<rparr>]\<rparr>"
  define bytes where "bytes = CoapHeader_encode ?h @ [0xe0, 1, of_nat k]"
  have mb: "message_bytes ?m = bytes"
    using large_delta_words(1) [OF assms(2)] by (simp add: message_bytes_def payload_bytes_def CoapMessage_new_def bytes_def)
  have len: "length bytes = 7" by (simp add: bytes_def CoapHeader_encode_def)
  have enc: "CoapMessage_encode cv ?m = Some (Ok bytes, ?m)"
    using encode_spec [OF assms(1), of ?m] mb len by (simp add: Let_def appends_def CoapMessage_new_def MAX_MESSAGE_SIZE_def)
  have hd: "CoapHeader_decode bytes = Ok ?h"
    unfolding bytes_def by (rule header_roundtrip) (simp_all add: CoapHeader_new_def COAP_VERSION_def)
  have get: "bytes ! 4 = 0xe0" "bytes ! 5 = 1" "bytes ! 6 = of_nat k"
    by (simp_all add: bytes_def CoapHeader_encode_def nth_append)
  have "decode_delta bytes 5 14 = Some (Ok (269 + of_nat k, 7))"
    using get len large_delta_words(2) [OF assms(2)] by (simp add: decode_delta_def)
  then have one: "decode_option cv bytes 4 0 [] = Some (Ok ([\<lparr>opt_number = 269 + of_nat k, opt_value = []\<rparr>], 269 + of_nat k, 7))"
    using get len assms(1) by (simp add: decode_option_def decode_length_def Let_def vecs_ok_def heapless)
  have "decode_options cv bytes 4 0 [] = Some (Ok ([\<lparr>opt_number = 269 + of_nat k, opt_value = []\<rparr>], 7))"
    using get len one by (simp add: decode_options.simps [of _ _ 4] decode_options.simps [of _ _ 7])
  then have "CoapMessage_decode cv bytes = Some (Ok ((CoapMessage_new t code i)\<lparr>cm_options := [\<lparr>opt_number = 269 + of_nat k, opt_value = []\<rparr>]\<rparr>))"
    using hd len assms(1) by (simp add: CoapMessage_decode_def Let_def vecs_ok_def heapless CoapHeader_new_def CoapMessage_new_def)
  with enc show ?thesis by blast
qed

theorem large_delta_misread_witness:
  "\<exists>bytes m'. CoapMessage_encode list_vecs ((CoapMessage_new Confirmable 1 7)\<lparr>cm_options := [\<lparr>opt_number = 525, opt_value = []\<rparr>]\<rparr>) =
      Some (Ok bytes, m') \<and>
    CoapMessage_decode list_vecs bytes = Some (Ok ((CoapMessage_new Confirmable 1 7)\<lparr>cm_options := [\<lparr>opt_number = 269, opt_value = []\<rparr>]\<rparr>))"
  using large_delta_misread [OF list_vecs_ok, of 0 Confirmable 1 7] by simp

end
