(* ===== verification/Coap_Exchange.thy ===== *)
theory Coap_Exchange
  imports Coap_Codec
begin

unbundle bit_operations_syntax

text \<open>
  CoAP client and server: a request built by the client reaches the resource it names on the
  server and the answer comes back to the client, and the client's retransmission queue.
\<close>

section \<open>Paths\<close>

definition path_of :: "u8 list list \<Rightarrow> u8 list" where
  "path_of segs = concat (map (\<lambda>s. 0x2f # s) segs)"

definition good_segment :: "u8 list \<Rightarrow> bool" where
  "good_segment s \<longleftrightarrow> s \<noteq> [] \<and> 0x2f \<notin> set s \<and> utf8_valid s"

lemma split_on_append: "c \<notin> set s \<Longrightarrow> split_on c (s @ c # r) = s # split_on c r"
  by (induction s) auto

lemma split_on_id: "c \<notin> set s \<Longrightarrow> split_on c s = [s]"
  by (induction s) auto

lemma split_on_path_tail: "c \<notin> set s \<Longrightarrow> \<forall>t \<in> set segs. c \<notin> set t \<Longrightarrow> split_on c (s @ concat (map (\<lambda>s. c # s) segs)) = s # segs"
  by (induction segs arbitrary: s) (auto simp: split_on_id split_on_append)

lemma split_path: "\<forall>s \<in> set segs. good_segment s \<Longrightarrow> split_on 0x2f (path_of segs) = [] # segs"
  using split_on_path_tail [of "0x2f" "[]" segs] by (simp add: path_of_def good_segment_def)

lemma length_path: "length (path_of segs) = length segs + sum_list (map length segs)"
  by (induction segs) (auto simp: path_of_def)

definition path_option :: "u8 list \<Rightarrow> CoapOption" where
  "path_option s = \<lparr>opt_number = 11, opt_value = s\<rparr>"

lemma add_segments_path:
  assumes cv: "vecs_ok cv"
  shows "\<forall>s \<in> set segs. s \<noteq> [] \<and> length s \<le> 256 \<Longrightarrow> length (cm_options m) + length segs \<le> 16 \<Longrightarrow>
    add_segments cv UriPath segs m = Ok (m\<lparr>cm_options := cm_options m @ map path_option segs\<rparr>)"
proof (induction segs arbitrary: m)
  case (Cons s segs)
  then show ?case
    using cv by (simp add: CoapOption_new_def add_option_def vecs_ok_def heapless path_option_def)
qed simp

lemma collect_path_path:
  assumes cv: "vecs_ok cv"
  shows "\<forall>s \<in> set segs. utf8_valid s \<Longrightarrow> length u + length (path_of segs) \<le> 256 \<Longrightarrow>
    collect_path cv (map path_option segs) u = Ok (u @ path_of segs)"
proof (induction segs arbitrary: u)
  case (Cons s segs)
  then show ?case
    using cv by (simp add: path_option_def CoapOption_as_str_def str_push_def str_push_char_def vecs_ok_def heapless path_of_def)
qed (simp add: path_of_def)

section \<open>Sizes\<close>

lemma length_option_bytes: "length (option_bytes prev opt) \<le> 5 + length (opt_value opt)"
  by (simp add: option_bytes_def delta_bytes_def length_bytes_def)

lemma length_options_bytes: "length (options_bytes prev os) \<le> sum_list (map (\<lambda>opt. 5 + length (opt_value opt)) os)"
proof (induction os arbitrary: prev)
  case (Cons opt os)
  show ?case using add_mono [OF length_option_bytes [of prev opt] Cons.IH [of "opt_number opt"]] by simp
qed simp

lemma message_roundtrip:
  assumes cv: "vecs_ok cv" and wf: "coap_wf m" and num: "\<forall>opt \<in> set (cm_options m). opt_number opt = n" "n < 525"
    and size: "length (message_bytes m) \<le> MAX_MESSAGE_SIZE"
  shows "CoapMessage_encode cv m = Some (Ok (message_bytes m), m)" and "CoapMessage_decode cv (message_bytes m) = Some (Ok m)"
proof -
  have "map opt_number (cm_options m) = map (\<lambda>_. n) (cm_options m)" using num(1) by (intro map_cong) auto
  also have "\<dots> = replicate (length (cm_options m)) n" by (simp add: map_replicate_const)
  finally have s: "sorted (map opt_number (cm_options m))" by simp
  then have "sort_key opt_number (cm_options m) = cm_options m" by (rule sort_key_id_if_sorted)
  then show "CoapMessage_encode cv m = Some (Ok (message_bytes m), m)"
    using encode_spec [OF cv, of m] wf size by (simp add: coap_wf_def Let_def appends_def)
  show "CoapMessage_decode cv (message_bytes m) = Some (Ok m)"
    using num by (intro decode_message_bytes [OF cv wf _ s]) auto
qed

section \<open>One exchange\<close>

definition path_request :: "coap_vecs \<Rightarrow> Method \<Rightarrow> u8 list list \<Rightarrow> u8 list \<Rightarrow> CoapRequest" where
  "path_request cv method segs token = CoapRequest_with_token cv token (with_uri_path cv (path_of segs) (CoapRequest_new method))"

definition path_message :: "Method \<Rightarrow> u8 list list \<Rightarrow> u8 list \<Rightarrow> u16 \<Rightarrow> CoapMessage" where
  "path_message method segs token i =
     \<lparr>cm_header = (CoapHeader_new Confirmable (Method_to_code method) i)\<lparr>hdr_token_length := of_nat (length token)\<rparr>,
      cm_token = token, cm_options = map path_option segs, cm_payload = []\<rparr>"

definition reply_message :: "ResponseCode \<Rightarrow> u8 list \<Rightarrow> u16 \<Rightarrow> CoapMessage" where
  "reply_message code token i =
     \<lparr>cm_header = (CoapHeader_new Acknowledgment (ResponseCode_to_u8 code) i)\<lparr>hdr_token_length := of_nat (length token)\<rparr>,
      cm_token = token, cm_options = [], cm_payload = []\<rparr>"

lemma Method_roundtrip: "Method_from_code (Method_to_code m) = Ok m"
  by (cases m) (simp_all add: Method_from_code_def)

lemma ResponseCode_roundtrip: "ResponseCode_from_u8 (ResponseCode_to_u8 c) = Ok c"
  by (cases c) (simp_all add: ResponseCode_from_u8_def)

lemma header_token_0: "h\<lparr>hdr_token_length := 0\<rparr> = h" if "hdr_token_length h = 0" for h :: CoapHeader
  using that by (cases h) simp

text \<open>The requests of the theorem: non-empty segments of valid text, and the capacities of the containers.\<close>

definition path_ok :: "u8 list list \<Rightarrow> u8 list \<Rightarrow> bool" where
  "path_ok segs token \<longleftrightarrow> (\<forall>s \<in> set segs. good_segment s) \<and> length segs \<le> 16 \<and> length (path_of segs) \<le> 256 \<and> length token \<le> 8"

lemma segment_length:
  assumes "path_ok segs token" and "s \<in> set segs"
  shows "length s \<le> 256"
proof -
  have "length s \<le> sum_list (map length segs)" using assms(2) by (simp add: member_le_sum_list)
  then show ?thesis using assms(1) by (simp add: path_ok_def length_path)
qed

lemma build_path_request:
  assumes cv: "vecs_ok cv" and ok: "path_ok segs token"
  shows "CoapRequest_build cv i (path_request cv method segs token) = Ok (path_message method segs token i)"
proof -
  let ?m0 = "CoapMessage_new Confirmable (Method_to_code method) i"
  let ?m1 = "?m0\<lparr>cm_token := token, cm_header := (cm_header ?m0)\<lparr>hdr_token_length := of_nat (length token)\<rparr>\<rparr>"
  have req: "path_request cv method segs token =
      (CoapRequest_new method)\<lparr>req_uri_path := path_of segs, req_token := token\<rparr>"
    using cv ok by (simp add: path_request_def CoapRequest_with_token_def with_uri_path_def str_push_def vecs_ok_def heapless path_ok_def)
  have m1: "(if token \<noteq> [] then CoapMessage_with_token cv token ?m0 else Ok ?m0) = Ok ?m1"
    using cv ok by (auto simp: CoapMessage_with_token_def vecs_ok_def heapless path_ok_def MAX_TOKEN_LENGTH_def
        CoapMessage_new_def CoapHeader_new_def)
  have "add_segments cv UriPath ([] # segs) ?m1 = Ok (path_message method segs token i)"
    using add_segments_path [OF cv, of segs ?m1] ok segment_length [OF ok]
    by (simp add: path_ok_def good_segment_def path_message_def CoapMessage_new_def)
  moreover have "path_of segs = [] \<longleftrightarrow> segs = []" by (cases segs) (auto simp: path_of_def)
  ultimately have "(if path_of segs \<noteq> [] then add_segments cv UriPath (split_on 0x2f (path_of segs)) ?m1 else Ok ?m1) =
      Ok (path_message method segs token i)"
    using split_path [of segs] ok by (cases "segs = []") (simp_all add: path_ok_def)
  then show ?thesis
    using m1 by (simp add: CoapRequest_build_def req CoapRequest_new_def Let_def cong: if_cong split del: if_split)
qed

lemma path_message_roundtrip:
  assumes cv: "vecs_ok cv" and ok: "path_ok segs token"
  shows "CoapMessage_encode cv (path_message method segs token i) =
      Some (Ok (message_bytes (path_message method segs token i)), path_message method segs token i)"
    and "CoapMessage_decode cv (message_bytes (path_message method segs token i)) = Some (Ok (path_message method segs token i))"
proof -
  let ?m = "path_message method segs token i"
  have wf: "coap_wf ?m"
    using ok segment_length [OF ok] by (auto simp: coap_wf_def path_message_def CoapHeader_new_def COAP_VERSION_def path_ok_def path_option_def)
  have "length (options_bytes 0 (cm_options ?m)) \<le> sum_list (map (\<lambda>opt. 5 + length (opt_value opt)) (cm_options ?m))"
    by (rule length_options_bytes)
  also have "\<dots> = 5 * length segs + sum_list (map length segs)"
    by (simp add: path_message_def path_option_def sum_list_addf sum_list_triv o_def)
  also have "\<dots> \<le> 80 + 256" using ok by (simp add: path_ok_def length_path)
  finally have size: "length (message_bytes ?m) \<le> MAX_MESSAGE_SIZE"
    using ok by (simp add: message_bytes_def path_message_def payload_bytes_def CoapHeader_encode_def MAX_MESSAGE_SIZE_def path_ok_def)
  have num: "\<forall>opt \<in> set (cm_options ?m). opt_number opt = 11" by (simp add: path_message_def path_option_def)
  show "CoapMessage_encode cv ?m = Some (Ok (message_bytes ?m), ?m)" "CoapMessage_decode cv (message_bytes ?m) = Some (Ok ?m)"
    using message_roundtrip [OF cv wf num _ size] by simp_all
qed

lemma reply_message_roundtrip:
  assumes cv: "vecs_ok cv" and "length token \<le> 8"
  shows "CoapMessage_encode cv (reply_message code token i) =
      Some (Ok (message_bytes (reply_message code token i)), reply_message code token i)"
    and "CoapMessage_decode cv (message_bytes (reply_message code token i)) = Some (Ok (reply_message code token i))"
proof -
  let ?m = "reply_message code token i"
  have wf: "coap_wf ?m" using assms by (simp add: coap_wf_def reply_message_def CoapHeader_new_def COAP_VERSION_def)
  have size: "length (message_bytes ?m) \<le> MAX_MESSAGE_SIZE"
    using assms by (simp add: message_bytes_def reply_message_def payload_bytes_def CoapHeader_encode_def MAX_MESSAGE_SIZE_def)
  have num: "\<forall>opt \<in> set (cm_options ?m). opt_number opt = 0" by (simp add: reply_message_def)
  show "CoapMessage_encode cv ?m = Some (Ok (message_bytes ?m), ?m)" "CoapMessage_decode cv (message_bytes ?m) = Some (Ok ?m)"
    using message_roundtrip [OF cv wf num _ size] by simp_all
qed

lemma answer_reply:
  assumes "vecs_ok cv" and "length (cm_token m) \<le> 8"
  shows "answer cv code m = Ok (reply_message code (cm_token m) (hdr_message_id (cm_header m)))"
  using assms
  by (auto simp: answer_def Let_def CoapMessage_with_token_def vecs_ok_def heapless MAX_TOKEN_LENGTH_def reply_message_def
      CoapMessage_new_def CoapHeader_new_def)

lemma handle_path_message:
  assumes cv: "vecs_ok cv" and ok: "path_ok segs token" and res: "find_resource (path_of segs) srv = Some r"
  shows "handle_request cv (message_bytes (path_message method segs token i)) srv =
    Some (Ok (reply_message (if method \<in> set (res_methods r) then Content else MethodNotAllowed) token i))"
proof -
  let ?m = "path_message method segs token i"
  have "collect_path cv (cm_options ?m) [] = Ok (path_of segs)"
    using collect_path_path [OF cv, of segs "[]"] ok by (simp add: path_ok_def good_segment_def path_message_def)
  moreover have "Method_from_code (hdr_code (cm_header ?m)) = Ok method"
    by (simp add: path_message_def CoapHeader_new_def Method_roundtrip)
  moreover have "answer cv code ?m = Ok (reply_message code token i)" for code
    using answer_reply [OF cv, of ?m] ok by (simp add: path_ok_def path_message_def CoapHeader_new_def)
  ultimately show ?thesis
    using path_message_roundtrip(2) [OF cv ok] res by (simp add: handle_request_def is_method_allowed_def)
qed

lemma parse_reply:
  assumes cv: "vecs_ok cv" and "length token \<le> 8"
  shows "parse_response cv (message_bytes (reply_message code token i)) c =
    Some (Ok \<lparr>resp_code = code, resp_token = token, resp_options = [], resp_payload = []\<rparr>,
          c\<lparr>cl_pending := filter (\<lambda>p. pr_message_id p \<noteq> i) (cl_pending c)\<rparr>)"
  using reply_message_roundtrip(2) [OF assms, of code i] cv
  by (simp add: parse_response_def reply_message_def CoapHeader_new_def CoapResponse_from_message_def ResponseCode_roundtrip
      remove_pending_def vecs_ok_def heapless)

text \<open>
  C18. One exchange, from client to server and back: a request for a path that names a
  registered resource is encoded, found by the server's handler, and answered with the
  request's token and message identifier, 2.05 when the resource allows the method and 4.05
  otherwise. The encoded answer is parsed by the client, which drops exactly the pending
  requests with that identifier.
\<close>

theorem coap_exchange:
  assumes "vecs_ok cv" and "path_ok segs token" and "find_resource (path_of segs) srv = Some r"
  shows "\<exists>bytes c1 resp bytes2 m2. prepare_request cv (path_request cv method segs token) c = Some (Ok bytes, c1) \<and>
    cl_message_id c1 = cl_message_id c + 1 \<and> cl_pending c1 = cl_pending c \<and>
    handle_request cv bytes srv = Some (Ok resp) \<and> CoapMessage_encode cv resp = Some (Ok bytes2, m2) \<and>
    (\<forall>c2. parse_response cv bytes2 c2 =
       Some (Ok \<lparr>resp_code = (if method \<in> set (res_methods r) then Content else MethodNotAllowed),
                 resp_token = token, resp_options = [], resp_payload = []\<rparr>,
             c2\<lparr>cl_pending := filter (\<lambda>p. pr_message_id p \<noteq> cl_message_id c) (cl_pending c2)\<rparr>))"
proof -
  let ?m = "path_message method segs token (cl_message_id c)"
  have tok: "length token \<le> 8" using assms(2) by (simp add: path_ok_def)
  have "prepare_request cv (path_request cv method segs token) c = Some (Ok (message_bytes ?m), c\<lparr>cl_message_id := cl_message_id c + 1\<rparr>)"
    using build_path_request [OF assms(1,2)] path_message_roundtrip(1) [OF assms(1,2)]
    by (simp add: prepare_request_def next_message_id_def)
  moreover note handle_path_message [OF assms, of "method" "cl_message_id c"]
  moreover note reply_message_roundtrip(1) [OF assms(1) tok] parse_reply [OF assms(1) tok]
  ultimately show ?thesis by (intro exI conjI allI) (assumption | simp)+
qed

definition sample_server :: CoapServer where
  "sample_server = \<lparr>srv_resources = [\<lparr>res_path = [0x2f, 0x61], res_methods = [Get], res_type = None, res_interface = None, res_observable = False\<rparr>]\<rparr>"

theorem coap_exchange_witness:
  "\<exists>bytes c1 resp. prepare_request list_vecs (path_request list_vecs Get [[0x61]] [1, 2]) CoapClient_new = Some (Ok bytes, c1) \<and>
     handle_request list_vecs bytes sample_server = Some (Ok resp)"
proof -
  have ok: "path_ok [[0x61]] [1, 2]" by (simp add: path_ok_def good_segment_def path_of_def)
  have res: "find_resource (path_of [[0x61]]) sample_server = Some (hd (srv_resources sample_server))"
    by (simp add: find_resource_def path_of_def sample_server_def)
  show ?thesis using coap_exchange [OF list_vecs_ok ok res, of Get CoapClient_new] by blast
qed

section \<open>Retransmission\<close>

fun timeout_run :: "coap_vecs \<Rightarrow> u32 list \<Rightarrow> CoapClient \<Rightarrow> u8 list list \<times> CoapClient" where
  "timeout_run cv [] c = ([], c)"
| "timeout_run cv (e # es) c =
     (let (sends, c1) = process_timeouts cv e c; (sends2, c2) = timeout_run cv es c1 in (sends @ sends2, c2))"

definition resent :: "u32 \<Rightarrow> PendingRequest \<Rightarrow> bool" where
  "resent e p \<longleftrightarrow> pr_timeout_ms p \<le> e \<and> pr_retransmit_count p < MAX_RETRANSMIT"

definition tick :: "u32 \<Rightarrow> PendingRequest \<Rightarrow> PendingRequest" where
  "tick e p =
     (if pr_timeout_ms p > e then p\<lparr>pr_timeout_ms := pr_timeout_ms p - e\<rparr>
      else if pr_retransmit_count p < MAX_RETRANSMIT
      then p\<lparr>pr_retransmit_count := pr_retransmit_count p + 1, pr_timeout_ms := ACK_TIMEOUT_MS * 2 ^ unat (pr_retransmit_count p + 1)\<rparr>
      else p)"

lemma tick_fields [simp]: "pr_message (tick e p) = pr_message p" "pr_message_id (tick e p) = pr_message_id p"
  by (simp_all add: tick_def)

lemma tick_count:
  assumes "unat (pr_retransmit_count p) \<le> 4"
  shows "unat (pr_retransmit_count (tick e p)) = unat (pr_retransmit_count p) + (if resent e p then 1 else 0)"
    and "unat (pr_retransmit_count (tick e p)) \<le> 4"
proof -
  have "unat (pr_retransmit_count p + 1) = unat (pr_retransmit_count p) + 1" using assms by (simp add: unat_word_ariths)
  then show "unat (pr_retransmit_count (tick e p)) = unat (pr_retransmit_count p) + (if resent e p then 1 else 0)"
    and "unat (pr_retransmit_count (tick e p)) \<le> 4"
    using assms by (auto simp: tick_def resent_def MAX_RETRANSMIT_def word_less_nat_alt word_le_nat_alt not_less)
qed

lemma timeout_loop_spec:
  assumes "vecs_ok cv"
  shows "length sends + length ps \<le> 8 \<Longrightarrow>
    timeout_loop cv e ps sends = (map (tick e) ps, sends @ map pr_message (filter (resent e) ps))"
proof (induction ps arbitrary: sends)
  case (Cons p ps)
  have "timeout_step cv e p sends = (tick e p, sends @ (if resent e p then [pr_message p] else []))"
    using Cons.prems assms by (auto simp: timeout_step_def tick_def resent_def Let_def vecs_ok_def heapless)
  then show ?case using Cons by simp
qed simp

definition queue_ok :: "PendingRequest list \<Rightarrow> bool" where
  "queue_ok ps \<longleftrightarrow> length ps \<le> 8 \<and> (\<forall>p \<in> set ps. unat (pr_retransmit_count p) \<le> 4)"

lemma queue_ok_tick: "queue_ok ps \<Longrightarrow> queue_ok (map (tick e) ps)"
  by (auto simp: queue_ok_def intro: tick_count(2))

lemma process_timeouts_spec:
  assumes "vecs_ok cv" and "queue_ok (cl_pending c)"
  shows "process_timeouts cv e c =
    (map pr_message (filter (resent e) (cl_pending c)), c\<lparr>cl_pending := map (tick e) (cl_pending c)\<rparr>)"
proof -
  have "filter (\<lambda>p. pr_retransmit_count p \<le> MAX_RETRANSMIT) (map (tick e) (cl_pending c)) = map (tick e) (cl_pending c)"
    using queue_ok_tick [OF assms(2), of e] by (auto simp: queue_ok_def filter_id_conv word_le_nat_alt MAX_RETRANSMIT_def)
  then show ?thesis
    using assms by (simp add: process_timeouts_def timeout_loop_spec queue_ok_def vecs_ok_def heapless)
qed

abbreviation ticks :: "u32 list \<Rightarrow> PendingRequest \<Rightarrow> PendingRequest" where
  "ticks es p \<equiv> fold tick es p"

lemma count_list_filter:
  "distinct (map f ps) \<Longrightarrow> p \<in> set ps \<Longrightarrow> count_list (map f (filter P ps)) (f p) = (if P p then 1 else 0)"
proof (induction ps)
  case (Cons q ps)
  have none: "count_list (map f (filter P ps)) (f q) = 0"
    using Cons.prems(1) by (auto simp: count_list_0_iff)
  show ?case
  proof (cases "p = q")
    case True
    then show ?thesis using none by simp
  next
    case False
    then have p: "p \<in> set ps" using Cons.prems(2) by simp
    then have "f p \<in> f ` set ps" "f q \<notin> f ` set ps" using Cons.prems(1) by simp_all
    then have "f p \<noteq> f q" by metis
    with p have "p \<in> set ps" "f p \<noteq> f q" by simp_all
    then show ?thesis using Cons by simp
  qed
qed simp

lemma timeout_run_spec:
  assumes cv: "vecs_ok cv"
  shows "queue_ok (cl_pending c) \<Longrightarrow> distinct (map pr_message (cl_pending c)) \<Longrightarrow>
    snd (timeout_run cv es c) = c\<lparr>cl_pending := map (ticks es) (cl_pending c)\<rparr> \<and>
    (\<forall>p \<in> set (cl_pending c).
       count_list (fst (timeout_run cv es c)) (pr_message p) + unat (pr_retransmit_count p) = unat (pr_retransmit_count (ticks es p)))"
proof (induction es arbitrary: c)
  case (Cons e es)
  let ?c = "c\<lparr>cl_pending := map (tick e) (cl_pending c)\<rparr>"
  have IH: "snd (timeout_run cv es ?c) = ?c\<lparr>cl_pending := map (ticks es) (cl_pending ?c)\<rparr>"
      "\<And>p. p \<in> set (cl_pending ?c) \<Longrightarrow>
        count_list (fst (timeout_run cv es ?c)) (pr_message p) + unat (pr_retransmit_count p) = unat (pr_retransmit_count (ticks es p))"
    using Cons.IH [of ?c] Cons.prems queue_ok_tick by (auto simp: o_def)
  have "count_list (map pr_message (filter (resent e) (cl_pending c))) (pr_message p) +
      count_list (fst (timeout_run cv es ?c)) (pr_message p) + unat (pr_retransmit_count p) = unat (pr_retransmit_count (ticks es (tick e p)))"
    if p: "p \<in> set (cl_pending c)" for p
    using IH(2) [of "tick e p"] count_list_filter [OF Cons.prems(2) p, of "resent e"] tick_count(1) [of p e] Cons.prems(1) p
    by (auto simp: queue_ok_def)
  then show ?case
    using IH(1) Cons.prems by (simp add: process_timeouts_spec [OF cv] split_beta)
qed simp

text \<open>How the count of retransmissions relates to the time that has passed, in steps of at most \<open>d\<close>.\<close>

definition backoff :: "nat \<Rightarrow> nat \<Rightarrow> PendingRequest \<Rightarrow> bool" where
  "backoff d time p \<longleftrightarrow> (let k = unat (pr_retransmit_count p); t = unat (pr_timeout_ms p) in
     k \<le> 4 \<and> 0 < t \<and> t \<le> 2000 * 2 ^ k \<and> 2000 * (2 ^ k - 1) + (2000 * 2 ^ k - t) \<le> time \<and>
     (k < 4 \<longrightarrow> time + t \<le> 2000 * (2 ^ (k + 1) - 1) + k * d))"

lemma backoff_tick:
  assumes "backoff d time p" and "unat e \<le> d"
  shows "backoff d (time + unat e) (tick e p)"
proof -
  define k where "k = unat (pr_retransmit_count p)"
  define t where "t = unat (pr_timeout_ms p)"
  have b: "k \<le> 4" "0 < t" "t \<le> 2000 * 2 ^ k" "2000 * (2 ^ k - 1) + (2000 * 2 ^ k - t) \<le> time"
      "k < 4 \<longrightarrow> time + t \<le> 2000 * (2 ^ (k + 1) - 1) + k * d"
    using assms(1) unfolding backoff_def Let_def k_def t_def by blast+
  consider (wait) "unat e < t" | (send) "t \<le> unat e" "k < 4" | (idle) "t \<le> unat e" "k = 4" using b(1) by linarith
  then show ?thesis
  proof cases
    case wait
    have t': "unat (pr_timeout_ms p - e) = t - unat e" using wait by (simp add: t_def unat_sub word_le_nat_alt)
    have "tick e p = p\<lparr>pr_timeout_ms := pr_timeout_ms p - e\<rparr>" using wait by (simp add: tick_def t_def word_less_nat_alt)
    then show ?thesis using b wait t' by (auto simp: backoff_def Let_def k_def)
  next
    case send
    have c: "unat (pr_retransmit_count p + 1) = k + 1" using send by (simp add: k_def unat_word_ariths)
    have "tick e p = p\<lparr>pr_retransmit_count := pr_retransmit_count p + 1, pr_timeout_ms := ACK_TIMEOUT_MS * 2 ^ (k + 1)\<rparr>"
      using send c by (simp add: tick_def t_def k_def word_less_nat_alt MAX_RETRANSMIT_def)
    moreover have "unat (ACK_TIMEOUT_MS * 2 ^ (k + 1)) = 2000 * 2 ^ (k + 1) \<and>
        2000 * (2 ^ (k + 1) - 1) \<le> time + unat e \<and>
        (k + 1 < 4 \<longrightarrow> time + unat e + 2000 * 2 ^ (k + 1) \<le> 2000 * (2 ^ (k + 2) - 1) + (k + 1) * d)"
    proof -
      have "k = 0 \<or> k = 1 \<or> k = 2 \<or> k = 3" using send by linarith
      then show ?thesis using b send assms(2) by (auto simp: ACK_TIMEOUT_MS_def)
    qed
    ultimately show ?thesis using b send c by (simp add: backoff_def Let_def)
  next
    case idle
    then have "tick e p = p" by (simp add: tick_def t_def k_def word_less_nat_alt MAX_RETRANSMIT_def)
    then show ?thesis using b idle by (simp add: backoff_def Let_def k_def [symmetric] t_def [symmetric])
  qed
qed

lemma backoff_ticks: "backoff d time p \<Longrightarrow> \<forall>e \<in> set es. unat e \<le> d \<Longrightarrow> backoff d (time + sum_list (map unat es)) (ticks es p)"
proof (induction es arbitrary: time p)
  case (Cons e es)
  then have "backoff d (time + unat e) (tick e p)" using backoff_tick by simp
  from Cons.IH [OF this] Cons.prems(2) show ?case by (simp add: add.assoc)
qed simp

lemma backoff_fresh: "pr_retransmit_count p = 0 \<Longrightarrow> pr_timeout_ms p = ACK_TIMEOUT_MS \<Longrightarrow> backoff d 0 p"
  by (simp add: backoff_def Let_def ACK_TIMEOUT_MS_def)

text \<open>
  Retransmission. Requests with different bytes are queued and the clock advances in any
  sequence of steps of at most \<open>d\<close> milliseconds. Each request is sent again at most four
  times, the \<open>k\<close>-th time not before \<open>2000 (2 ^ k - 1)\<close> milliseconds have passed, and all
  four times once \<open>30000 + 3 d\<close> have passed. No request ever leaves the queue, also not after
  its last retransmission.
\<close>

theorem retransmission_backoff:
  assumes "vecs_ok cv" and "length (cl_pending c) \<le> 8" and "distinct (map pr_message (cl_pending c))"
    and "\<forall>p \<in> set (cl_pending c). pr_retransmit_count p = 0 \<and> pr_timeout_ms p = ACK_TIMEOUT_MS"
    and "\<forall>e \<in> set es. unat e \<le> d"
  shows "map pr_message_id (cl_pending (snd (timeout_run cv es c))) = map pr_message_id (cl_pending c) \<and>
    (\<forall>p \<in> set (cl_pending c).
       let k = count_list (fst (timeout_run cv es c)) (pr_message p); time = sum_list (map unat es) in
       k \<le> 4 \<and> 2000 * (2 ^ k - 1) \<le> time \<and> (30000 + 3 * d \<le> time \<longrightarrow> k = 4))"
proof -
  have q: "queue_ok (cl_pending c)" using assms(2,4) by (simp add: queue_ok_def)
  note run = timeout_run_spec [OF assms(1) q assms(3), of es]
  have ids: "map (pr_message_id \<circ> ticks es) ps = map pr_message_id ps" for ps
  proof -
    have "pr_message_id (ticks es p) = pr_message_id p" for p by (induction es arbitrary: p) simp_all
    then show ?thesis by simp
  qed
  have "let k = count_list (fst (timeout_run cv es c)) (pr_message p); time = sum_list (map unat es) in
      k \<le> 4 \<and> 2000 * (2 ^ k - 1) \<le> time \<and> (30000 + 3 * d \<le> time \<longrightarrow> k = 4)" if p: "p \<in> set (cl_pending c)" for p
  proof -
    let ?k = "unat (pr_retransmit_count (ticks es p))" and ?time = "sum_list (map unat es)"
    have k: "count_list (fst (timeout_run cv es c)) (pr_message p) = ?k" using run assms(4) p by force
    have "backoff d 0 p" using assms(4) p by (simp add: backoff_fresh)
    from backoff_ticks [OF this assms(5)]
    have b: "?k \<le> 4" "0 < unat (pr_timeout_ms (ticks es p))" "2000 * (2 ^ ?k - 1) \<le> ?time"
        "?k < 4 \<longrightarrow> ?time + unat (pr_timeout_ms (ticks es p)) \<le> 2000 * (2 ^ (?k + 1) - 1) + ?k * d"
      unfolding backoff_def Let_def by auto
    have "?time < 30000 + 3 * d" if "?k \<noteq> 4"
    proof -
      have "?k = 0 \<or> ?k = 1 \<or> ?k = 2 \<or> ?k = 3" using b(1) that by linarith
      then show ?thesis using b(2,4) by auto
    qed
    then show ?thesis unfolding k Let_def using b(1,3) by (meson not_less)
  qed
  then show ?thesis using run ids by simp
qed

theorem retransmission_backoff_witness:
  "let c = snd (add_pending list_vecs 1 [0x40] CoapClient_new);
       run = timeout_run list_vecs (replicate 40 1000) c in
   count_list (fst run) [0x40] = 4 \<and> map pr_message_id (cl_pending (snd run)) = [1]"
proof -
  let ?c = "snd (add_pending list_vecs 1 [0x40] CoapClient_new)"
  have pend: "cl_pending ?c = [\<lparr>pr_message_id = 1, pr_message = [0x40], pr_retransmit_count = 0, pr_timeout_ms = ACK_TIMEOUT_MS\<rparr>]"
    by (simp add: add_pending_def CoapClient_new_def list_vecs_def list_vec_def)
  have "sum_list (map unat (replicate 40 (1000 :: u32))) = 40000" by (simp add: sum_list_replicate)
  then show ?thesis
    using retransmission_backoff [OF list_vecs_ok, of ?c "replicate 40 1000" 1000] by (simp add: pend Let_def)
qed

section \<open>Integer options\<close>

lemma fold_bytes_zeros:
  "\<forall>b \<in> set xs. b = 0 \<Longrightarrow> fold (\<lambda>b result. push_bit 8 result OR ucast (b :: u8)) xs (0 :: u32) = 0"
  by (induction xs) auto

lemma fold_be_bytes: "fold (\<lambda>b result. push_bit 8 result OR ucast b) (to_be_bytes v) 0 = v"
  unfolding to_be_bytes_def fold_simps comp_def
proof (rule bit_eqI)
  fix n :: nat
  consider "n < 8" | "8 \<le> n" "n < 16" | "16 \<le> n" "n < 24" | "24 \<le> n" by linarith
  then show "bit (push_bit 8 (push_bit 8 (push_bit 8 (push_bit 8 0 OR ucast (ucast (drop_bit 24 v) :: u8)) OR
      ucast (ucast (drop_bit 16 v) :: u8)) OR ucast (ucast (drop_bit 8 v) :: u8)) OR ucast (ucast v :: u8) :: u32) n = bit v n"
    by cases (auto simp: bit_simps dest: bit_imp_le_length)
qed

text \<open>A Max-Age option carries its value: reading the option back gives the number of seconds.\<close>

lemma max_age_value:
  assumes "vecs_ok cv"
  shows "res_bind (CoapOption_max_age cv seconds) CoapOption_as_u32 = Ok seconds"
proof -
  let ?b = "to_be_bytes seconds" and ?f = "\<lambda>b result. push_bit 8 result OR ucast (b :: u8) :: u32"
  define start where "start = (case first_index (\<lambda>b. b \<noteq> 0) ?b of Some i \<Rightarrow> i | None \<Rightarrow> 3)"
  have len: "length ?b = 4" by (simp add: to_be_bytes_def)
  have zero: "\<forall>b \<in> set (take start ?b). b = 0"
    by (auto simp: start_def set_conv_nth first_index_None_iff first_index_Some_iff split: option.splits)
  have "fold ?f (take start ?b @ drop start ?b) 0 = fold ?f (drop start ?b) (fold ?f (take start ?b) 0)" by (simp only: fold_append comp_def)
  then have "fold ?f (drop start ?b) 0 = seconds" by (simp add: fold_bytes_zeros [OF zero] fold_be_bytes)
  then show ?thesis
    using assms len
    by (simp add: CoapOption_max_age_def start_def [symmetric] CoapOption_new_def CoapOption_as_u32_def vecs_ok_def heapless)
qed

end
