(* ===== verification/Heap.thy ===== *)
theory Heap
  imports Pool_Correct
begin

text \<open>
  The kernel heap, \<open>mielin-kernel/src/heap.rs\<close>: the bump allocator, the heap allocator that
  sends small requests to the block pools and the rest to the bump allocator, the
  out-of-memory handler, and the profiling hook with the built-in profiler.

  Addresses are natural numbers below \<open>2 ^ 64\<close>, 0 is the null pointer, and the sums of the
  source are machine sums. The out-of-memory handler and the profiling hook are functions a
  client installs; they are arguments, in a record, and act on the whole state. \<open>hp_bytes\<close>
  is the memory of the blocks in use and of the bump region; the links of free pool blocks
  are part of the pools. The source's loop around the compare-exchange of the bump pointer
  is \<open>bump_step\<close>, one atomic access a step; \<open>bump_allocate\<close> is the whole call when no other
  processor interferes, in which case the first compare-exchange succeeds.
\<close>

section \<open>Bump allocator\<close>

definition MAX_POOL_SIZE :: nat where "MAX_POOL_SIZE = 4096"
definition MIN_ALIGNMENT :: nat where "MIN_ALIGNMENT = 8"
definition HEADER_SIZE :: nat where "HEADER_SIZE = 24"
definition HEADER_MAGIC :: nat where "HEADER_MAGIC = 0xdeadbeef"

record Layout =
  lay_size :: nat
  lay_align :: nat

definition align_up :: "nat \<Rightarrow> nat \<Rightarrow> nat" where
  "align_up addr align =
     (let remainder = addr mod align in
      if remainder = 0 then addr else usize_sub (usize_add addr align) remainder)"

record BumpAllocator =
  bump_start :: nat
  bump_end :: nat
  bump_next :: nat
  bump_count :: nat

definition BumpAllocator_new :: BumpAllocator where
  "BumpAllocator_new = \<lparr>bump_start = 0, bump_end = 0, bump_next = 0, bump_count = 0\<rparr>"

definition bump_init :: "nat \<Rightarrow> nat \<Rightarrow> BumpAllocator \<Rightarrow> BumpAllocator" where
  "bump_init start sz b =
     b\<lparr>bump_start := start, bump_end := usize_add start sz, bump_next := start, bump_count := 0\<rparr>"

definition bump_is_initialized :: "BumpAllocator \<Rightarrow> bool" where
  "bump_is_initialized b \<longleftrightarrow> bump_start b \<noteq> 0"

text \<open>\<open>NonNull::new\<close>\<close>

definition non_null :: "nat \<Rightarrow> nat option" where
  "non_null a = (if a = 0 then None else Some a)"

definition bump_allocate :: "Layout \<Rightarrow> BumpAllocator \<Rightarrow> nat option \<times> BumpAllocator" where
  "bump_allocate l b =
     (let aligned_start = align_up (bump_next b) (lay_align l) in
      case usize_checked_add aligned_start (lay_size l) of
        None \<Rightarrow> (None, b)
      | Some new_end \<Rightarrow>
          if new_end > bump_end b then (None, b)
          else (non_null aligned_start, b\<lparr>bump_next := new_end, bump_count := usize_add (bump_count b) 1\<rparr>))"

definition bump_deallocate :: "BumpAllocator \<Rightarrow> BumpAllocator" where
  "bump_deallocate b =
     (let prev = bump_count b; b1 = b\<lparr>bump_count := usize_sub prev 1\<rparr> in
      if prev = 1 then b1\<lparr>bump_next := bump_start b1\<rparr> else b1)"

definition bump_used :: "BumpAllocator \<Rightarrow> nat" where
  "bump_used b = bump_next b - bump_start b"

definition bump_free :: "BumpAllocator \<Rightarrow> nat" where
  "bump_free b = bump_end b - bump_next b"

definition bump_total :: "BumpAllocator \<Rightarrow> nat" where
  "bump_total b = bump_end b - bump_start b"

text \<open>
  The control points of concurrent calls. \<open>BumpLoad\<close> is the load of the bump pointer before
  the loop, with the test that follows it; \<open>BumpReload\<close>, \<open>BumpCas\<close> and \<open>BumpCount\<close> are the
  accesses of the loop; a release subtracts from the counter and then may store the bump pointer.
\<close>

datatype bump_pc =
    BumpLoad Layout
  | BumpReload Layout
  | BumpCas Layout nat nat nat
  | BumpCount nat
  | BumpRet "nat option"
  | BumpFree
  | BumpReset
  | BumpFreed

definition bump_room :: "Layout \<Rightarrow> nat \<Rightarrow> BumpAllocator \<Rightarrow> (nat \<times> nat) option" where
  "bump_room l current b =
     (let aligned_start = align_up current (lay_align l) in
      case usize_checked_add aligned_start (lay_size l) of
        None \<Rightarrow> None
      | Some new_end \<Rightarrow> if new_end > bump_end b then None else Some (aligned_start, new_end))"

fun bump_step :: "bump_pc \<Rightarrow> BumpAllocator \<Rightarrow> bump_pc \<times> BumpAllocator" where
  "bump_step (BumpLoad l) b =
     (case bump_room l (bump_next b) b of None \<Rightarrow> BumpRet None | Some _ \<Rightarrow> BumpReload l, b)"
| "bump_step (BumpReload l) b =
     (let current = bump_next b in
      (case bump_room l current b of None \<Rightarrow> BumpRet None | Some (s, e) \<Rightarrow> BumpCas l current s e, b))"
| "bump_step (BumpCas l current s e) b =
     (if bump_next b = current then (BumpCount s, b\<lparr>bump_next := e\<rparr>) else (BumpReload l, b))"
| "bump_step (BumpCount s) b = (BumpRet (non_null s), b\<lparr>bump_count := usize_add (bump_count b) 1\<rparr>)"
| "bump_step (BumpRet r) b = (BumpRet r, b)"
| "bump_step BumpFree b =
     (let prev = bump_count b in (if prev = 1 then BumpReset else BumpFreed, b\<lparr>bump_count := usize_sub prev 1\<rparr>))"
| "bump_step BumpReset b = (BumpFreed, b\<lparr>bump_next := bump_start b\<rparr>)"
| "bump_step BumpFreed b = (BumpFreed, b)"

section \<open>Events and the profiler\<close>

datatype AllocationEvent =
    EvAlloc nat nat nat bool
  | EvDealloc nat nat
  | EvRealloc nat nat nat nat

record ProfilingStats =
  prof_alloc_count :: nat
  prof_dealloc_count :: nat
  prof_realloc_count :: nat
  prof_total_alloc :: nat
  prof_total_dealloc :: nat
  prof_current :: nat
  prof_peak :: nat
  prof_pool_allocs :: nat
  prof_bump_allocs :: nat

definition reset_profiling_stats :: ProfilingStats where
  "reset_profiling_stats =
     \<lparr>prof_alloc_count = 0, prof_dealloc_count = 0, prof_realloc_count = 0, prof_total_alloc = 0,
      prof_total_dealloc = 0, prof_current = 0, prof_peak = 0, prof_pool_allocs = 0, prof_bump_allocs = 0\<rparr>"

definition prof_grow :: "nat \<Rightarrow> ProfilingStats \<Rightarrow> ProfilingStats" where
  "prof_grow n s =
     (let current = usize_add (prof_current s) n
      in s\<lparr>prof_total_alloc := usize_add (prof_total_alloc s) n, prof_current := current,
           prof_peak := (if current > prof_peak s then current else prof_peak s)\<rparr>)"

definition prof_shrink :: "nat \<Rightarrow> ProfilingStats \<Rightarrow> ProfilingStats" where
  "prof_shrink n s =
     s\<lparr>prof_total_dealloc := usize_add (prof_total_dealloc s) n,
       prof_current := usize_sub (prof_current s) (min n (prof_current s))\<rparr>"

fun builtin_profiler :: "AllocationEvent \<Rightarrow> ProfilingStats \<Rightarrow> ProfilingStats" where
  "builtin_profiler (EvAlloc sz align ptr is_pool) s =
     (let s1 = prof_grow sz (s\<lparr>prof_alloc_count := usize_add (prof_alloc_count s) 1\<rparr>)
      in if is_pool then s1\<lparr>prof_pool_allocs := usize_add (prof_pool_allocs s1) 1\<rparr>
         else s1\<lparr>prof_bump_allocs := usize_add (prof_bump_allocs s1) 1\<rparr>)"
| "builtin_profiler (EvDealloc ptr sz) s =
     prof_shrink sz (s\<lparr>prof_dealloc_count := usize_add (prof_dealloc_count s) 1\<rparr>)"
| "builtin_profiler (EvRealloc old_ptr old_size new_ptr new_size) s =
     (let s1 = s\<lparr>prof_realloc_count := usize_add (prof_realloc_count s) 1\<rparr>
      in if new_size > old_size then prof_grow (new_size - old_size) s1 else prof_shrink (old_size - new_size) s1)"

section \<open>The heap\<close>

record Heap =
  hp_bump :: BumpAllocator
  hp_initialized :: bool
  hp_pool_allocations :: nat
  hp_pool_deallocations :: nat
  hp_bump_allocations :: nat
  hp_bump_deallocations :: nat
  hp_pools :: PoolAllocator
  hp_oom_count :: nat
  hp_oom_recovery :: nat
  hp_oom_failed :: nat
  hp_profiling :: bool
  hp_hook_set :: bool
  hp_profile :: ProfilingStats
  hp_bytes :: "nat \<Rightarrow> u8"

record heap_env =
  env_hook :: "AllocationEvent \<Rightarrow> Heap \<Rightarrow> Heap"
  env_oom :: "Layout \<Rightarrow> Heap \<Rightarrow> bool \<times> Heap"

definition default_oom_handler :: "Layout \<Rightarrow> Heap \<Rightarrow> bool \<times> Heap" where
  "default_oom_handler l h = (False, h)"

definition HeapAllocator_new :: Heap where
  "HeapAllocator_new =
     \<lparr>hp_bump = BumpAllocator_new, hp_initialized = False, hp_pool_allocations = 0, hp_pool_deallocations = 0,
      hp_bump_allocations = 0, hp_bump_deallocations = 0, hp_pools = PoolAllocator_new, hp_oom_count = 0,
      hp_oom_recovery = 0, hp_oom_failed = 0, hp_profiling = False, hp_hook_set = False,
      hp_profile = reset_profiling_stats, hp_bytes = (\<lambda>_. 0)\<rparr>"

definition heap_init :: "nat list \<Rightarrow> nat \<Rightarrow> nat \<Rightarrow> Heap \<Rightarrow> Heap option" where
  "heap_init bases start sz h =
     Option.bind (pools_init bases (hp_pools h)) (\<lambda>ps.
       Some (h\<lparr>hp_pools := ps, hp_bump := bump_init start sz (hp_bump h), hp_initialized := True\<rparr>))"

definition set_allocation_hook :: "Heap \<Rightarrow> Heap" where
  "set_allocation_hook h = h\<lparr>hp_hook_set := True\<rparr>"

definition clear_allocation_hook :: "Heap \<Rightarrow> Heap" where
  "clear_allocation_hook h = h\<lparr>hp_hook_set := False\<rparr>"

definition enable_profiling :: "bool \<Rightarrow> Heap \<Rightarrow> Heap" where
  "enable_profiling b h = h\<lparr>hp_profiling := b\<rparr>"

definition call_hook :: "heap_env \<Rightarrow> AllocationEvent \<Rightarrow> Heap \<Rightarrow> Heap" where
  "call_hook env ev h = (if hp_profiling h \<and> hp_hook_set h then env_hook env ev h else h)"

definition record_oom :: "bool \<Rightarrow> Heap \<Rightarrow> Heap" where
  "record_oom recovered h =
     (let h1 = h\<lparr>hp_oom_count := usize_add (hp_oom_count h) 1\<rparr>
      in if recovered then h1\<lparr>hp_oom_recovery := usize_add (hp_oom_recovery h1) 1\<rparr>
         else h1\<lparr>hp_oom_failed := usize_add (hp_oom_failed h1) 1\<rparr>)"

text \<open>\<open>Layout::from_size_align(size, 8)\<close>: the size rounded up must not exceed \<open>isize::MAX\<close>.\<close>

definition layout_8 :: "nat \<Rightarrow> Layout option" where
  "layout_8 sz = (if sz \<le> USIZE_MOD div 2 - 1 - 7 then Some \<lparr>lay_size = sz, lay_align = 8\<rparr> else None)"

definition le_bytes :: "nat \<Rightarrow> nat \<Rightarrow> u8 list" where
  "le_bytes n v = map (\<lambda>i. of_nat (v div 256 ^ i)) [0..<n]"

definition write_bytes :: "nat \<Rightarrow> u8 list \<Rightarrow> (nat \<Rightarrow> u8) \<Rightarrow> nat \<Rightarrow> u8" where
  "write_bytes addr bs m = (\<lambda>a. if addr \<le> a \<and> a < addr + length bs then bs ! (a - addr) else m a)"

text \<open>The fields of the header in the order of \<open>repr(C)\<close>; the padding at its end is not written.\<close>

definition header_bytes :: "nat \<Rightarrow> nat \<Rightarrow> u8 list" where
  "header_bytes sz align = le_bytes 8 sz @ le_bytes 8 align @ le_bytes 4 HEADER_MAGIC"

definition max_padding :: "nat \<Rightarrow> nat" where
  "max_padding align = (if align > HEADER_SIZE then align - HEADER_SIZE mod align else 0)"

definition bump_branch :: "heap_env \<Rightarrow> Layout \<Rightarrow> Heap \<Rightarrow> nat option \<times> Heap" where
  "bump_branch env l h =
     (let align = max (lay_align l) MIN_ALIGNMENT;
          total_size = usize_add (usize_add HEADER_SIZE (max_padding align)) (lay_size l);
          alloc_layout = (case layout_8 total_size of Some l' \<Rightarrow> l' | None \<Rightarrow> l);
          (r, b) = bump_allocate alloc_layout (hp_bump h);
          h1 = h\<lparr>hp_bump := b\<rparr>
      in case r of
           None \<Rightarrow> (None, h1)
         | Some base_addr \<Rightarrow>
             let data_addr = align_up (usize_add base_addr HEADER_SIZE) align;
                 header_addr = usize_sub data_addr HEADER_SIZE;
                 h2 = h1\<lparr>hp_bytes := write_bytes header_addr (header_bytes total_size align) (hp_bytes h1),
                         hp_bump_allocations := usize_add (hp_bump_allocations h1) 1\<rparr>
             in (Some data_addr, call_hook env (EvAlloc (lay_size l) align data_addr False) h2))"

definition pool_branch :: "heap_env \<Rightarrow> (nat \<Rightarrow> bool) \<Rightarrow> Layout \<Rightarrow> Heap \<Rightarrow> (nat option \<times> Heap) option" where
  "pool_branch env weak l h =
     (let align = max (lay_align l) MIN_ALIGNMENT in
      if lay_size l \<le> MAX_POOL_SIZE \<and> align \<le> MIN_ALIGNMENT then
        Option.bind (pools_allocate weak (hp_pools h) (lay_size l)) (\<lambda>(r, ps).
          let h1 = h\<lparr>hp_pools := ps\<rparr> in
          case r of
            None \<Rightarrow> Some (None, h1)
          | Some al \<Rightarrow>
              let h2 = h1\<lparr>hp_pool_allocations := usize_add (hp_pool_allocations h1) 1\<rparr>
              in Some (Some (pa_ptr al), call_hook env (EvAlloc (lay_size l) align (pa_ptr al) True) h2))
      else Some (None, h))"

function alloc_with_retry :: "heap_env \<Rightarrow> (nat \<Rightarrow> bool) \<Rightarrow> Layout \<Rightarrow> bool \<Rightarrow> Heap \<Rightarrow> (nat \<times> Heap) option" where
  "alloc_with_retry env weak l allow_retry h =
     (if \<not> hp_initialized h then Some (0, h)
      else Option.bind (pool_branch env weak l h) (\<lambda>(r, h1).
        case r of
          Some p \<Rightarrow> Some (p, h1)
        | None \<Rightarrow>
            (case bump_branch env l h1 of
               (Some p, h2) \<Rightarrow> Some (p, h2)
             | (None, h2) \<Rightarrow>
                 if allow_retry then
                   (case env_oom env l h2 of
                      (True, h3) \<Rightarrow> alloc_with_retry env weak l False (record_oom True h3)
                    | (False, h3) \<Rightarrow> Some (0, record_oom False h3))
                 else Some (0, record_oom False h2))))"
  by pat_completeness auto
termination
  by (relation "measure (\<lambda>(env, weak, l, allow_retry, h). if allow_retry then 1 else 0)") auto

declare alloc_with_retry.simps [simp del]

definition heap_alloc :: "heap_env \<Rightarrow> (nat \<Rightarrow> bool) \<Rightarrow> Layout \<Rightarrow> Heap \<Rightarrow> (nat \<times> Heap) option" where
  "heap_alloc env weak l h = alloc_with_retry env weak l True h"

definition heap_dealloc :: "heap_env \<Rightarrow> (nat \<Rightarrow> bool) \<Rightarrow> nat \<Rightarrow> Layout \<Rightarrow> Heap \<Rightarrow> Heap option" where
  "heap_dealloc env weak ptr l h =
     (if ptr = 0 \<or> \<not> hp_initialized h then Some h
      else
        let h1 = call_hook env (EvDealloc ptr (lay_size l)) h in
        case (if lay_size l \<le> MAX_POOL_SIZE then for_size (lay_size l) else None) of
          Some bs \<Rightarrow>
            Option.bind (pools_deallocate weak (hp_pools h1)
                \<lparr>pa_ptr = ptr, pa_block_size = bs, pa_requested_size = lay_size l\<rparr>) (\<lambda>ps.
              Some (h1\<lparr>hp_pools := ps, hp_pool_deallocations := usize_add (hp_pool_deallocations h1) 1\<rparr>))
        | None \<Rightarrow>
            Some (h1\<lparr>hp_bump := bump_deallocate (hp_bump h1),
                     hp_bump_deallocations := usize_add (hp_bump_deallocations h1) 1\<rparr>))"

definition heap_realloc :: "heap_env \<Rightarrow> (nat \<Rightarrow> bool) \<Rightarrow> nat \<Rightarrow> Layout \<Rightarrow> nat \<Rightarrow> Heap \<Rightarrow> (nat \<times> Heap) option" where
  "heap_realloc env weak ptr l new_size h =
     Option.bind (heap_alloc env weak \<lparr>lay_size = new_size, lay_align = lay_align l\<rparr> h) (\<lambda>(new_ptr, h1).
       if new_ptr \<noteq> 0 \<and> ptr \<noteq> 0 then
         let copy_size = min (lay_size l) new_size;
             h2 = h1\<lparr>hp_bytes := write_bytes new_ptr (map (\<lambda>i. hp_bytes h1 (ptr + i)) [0..<copy_size]) (hp_bytes h1)\<rparr>;
             h3 = call_hook env (EvRealloc ptr (lay_size l) new_ptr new_size) h2
         in map_option (\<lambda>h4. (new_ptr, h4)) (heap_dealloc env weak ptr l h3)
       else Some (new_ptr, h1))"

end
