(* ===== verification/Heap_Correct.thy ===== *)
theory Heap_Correct
  imports Heap
begin

text \<open>
  The heap's theorems: blocks handed out for ordinary alignments are separate from all blocks
  in use, releases keep the heap in order, and reallocation keeps the contents.
\<close>

section \<open>Alignment\<close>

lemma align_up_spec:
  assumes "0 < n" and "a + n < USIZE_MOD"
  shows "a \<le> align_up a n" and "align_up a n < a + n" and "n dvd align_up a n"
proof -
  let ?r = "a mod n"
  have r: "?r < n" "?r \<le> a" using assms(1) by auto
  have up: "align_up a n = (if ?r = 0 then a else (a - ?r) + n)"
  proof -
    have "a + n - ?r = (a - ?r) + n" using r by linarith
    then show ?thesis using assms r by (simp add: align_up_def Let_def no_wrap)
  qed
  have "a \<le> (if k = 0 then a else (a - k) + n) \<and> (if k = 0 then a else (a - k) + n) < a + n" if "k < n" "k \<le> a" for k
    using that by auto
  from this [OF r] show "a \<le> align_up a n" "align_up a n < a + n" unfolding up by blast+
  show "n dvd align_up a n" unfolding up by (auto simp: minus_mod_eq_mult_div mod_eq_0_iff_dvd)
qed

lemma align_up_aligned: "n dvd a \<Longrightarrow> align_up a n = a"
  by (auto simp: align_up_def)

section \<open>The heap in order\<close>

text \<open>
  \<open>heap_ok bases h U B\<close>: the blocks of class \<open>bs\<close> in \<open>U bs\<close> and the blocks in \<open>B\<close>, with
  their sizes, are in use; the pools' arenas at \<open>bases\<close> and the bump region are separate.
\<close>

definition apart :: "nat \<Rightarrow> nat \<Rightarrow> nat \<Rightarrow> nat \<Rightarrow> bool" where
  "apart p s q t \<longleftrightarrow> p + s \<le> q \<or> q + t \<le> p"

definition bump_ok :: "BumpAllocator \<Rightarrow> (nat \<times> nat) set \<Rightarrow> bool" where
  "bump_ok b B \<longleftrightarrow> finite B \<and> bump_count b = card B \<and>
     0 < bump_start b \<and> bump_start b \<le> bump_next b \<and> bump_next b \<le> bump_end b \<and> bump_end b + 64 < USIZE_MOD \<and>
     bump_end b - bump_start b < 2 ^ 62 \<and>
     (\<forall>(p, s) \<in> B. bump_start b + HEADER_SIZE \<le> p \<and> p + s \<le> bump_next b) \<and>
     (\<forall>(p, s) \<in> B. \<forall>(q, t) \<in> B. (p, s) \<noteq> (q, t) \<longrightarrow> apart (p - HEADER_SIZE) (s + HEADER_SIZE) q t)"

definition pools_ok :: "(BlockSize \<Rightarrow> nat) \<Rightarrow> PoolAllocator \<Rightarrow> (BlockSize \<Rightarrow> nat set) \<Rightarrow> bool" where
  "pools_ok bases a U \<longleftrightarrow> length (pools a) = 7 \<and>
     (\<forall>bs. let p = pools a ! block_index bs in pool_ok p (U bs) \<and> arena p = Some (bases bs) \<and> block_size p = block_bytes bs)"

definition regions_ok :: "(BlockSize \<Rightarrow> nat) \<Rightarrow> BumpAllocator \<Rightarrow> bool" where
  "regions_ok bases b \<longleftrightarrow>
     (\<forall>bs. 8 dvd bases bs \<and> apart (bases bs) ARENA_SIZE (bump_start b) (bump_end b - bump_start b)) \<and>
     (\<forall>bs bs'. bs \<noteq> bs' \<longrightarrow> apart (bases bs) ARENA_SIZE (bases bs') ARENA_SIZE)"

definition heap_ok :: "(BlockSize \<Rightarrow> nat) \<Rightarrow> Heap \<Rightarrow> (BlockSize \<Rightarrow> nat set) \<Rightarrow> (nat \<times> nat) set \<Rightarrow> bool" where
  "heap_ok bases h U B \<longleftrightarrow>
     hp_initialized h \<and> pools_ok bases (hp_pools h) U \<and> bump_ok (hp_bump h) B \<and> regions_ok bases (hp_bump h)"

definition live :: "(BlockSize \<Rightarrow> nat set) \<Rightarrow> (nat \<times> nat) set \<Rightarrow> (nat \<times> nat) set" where
  "live U B = {(b, block_bytes bs) | b bs. b \<in> U bs} \<union> B"

text \<open>The hook of a profiler only changes the profile.\<close>

definition hook_ok :: "heap_env \<Rightarrow> bool" where
  "hook_ok env \<longleftrightarrow> (\<forall>ev h. \<exists>pr. env_hook env ev h = h\<lparr>hp_profile := pr\<rparr>)"

lemma call_hook_same:
  assumes "hook_ok env"
  shows "hp_bump (call_hook env ev h) = hp_bump h" "hp_pools (call_hook env ev h) = hp_pools h"
    "hp_initialized (call_hook env ev h) = hp_initialized h" "hp_bytes (call_hook env ev h) = hp_bytes h"
proof -
  obtain pr where "env_hook env ev h = h\<lparr>hp_profile := pr\<rparr>" using assms unfolding hook_ok_def by blast
  then show "hp_bump (call_hook env ev h) = hp_bump h" "hp_pools (call_hook env ev h) = hp_pools h"
    "hp_initialized (call_hook env ev h) = hp_initialized h" "hp_bytes (call_hook env ev h) = hp_bytes h"
    by (simp_all add: call_hook_def)
qed

lemma block_index_less: "block_index bs < 7"
  by (cases bs) auto

lemma block_index_inj: "block_index bs = block_index bs' \<longleftrightarrow> bs = bs'"
  by (cases bs; cases bs') auto

lemma block_bytes_8: "8 dvd block_bytes bs" "0 < block_bytes bs" "ARENA_SIZE mod block_bytes bs = 0"
  by (cases bs; simp add: ARENA_SIZE_def)+

lemma block_bytes_inj: "block_bytes bs = block_bytes bs' \<longleftrightarrow> bs = bs'"
  by (cases bs; cases bs') auto

lemma block_bytes_le: "block_bytes bs \<le> MAX_POOL_SIZE"
  by (cases bs) (auto simp: MAX_POOL_SIZE_def)

lemma for_size_fits: "for_size n = Some bs \<Longrightarrow> n \<le> block_bytes bs \<and> 0 < n"
  by (auto simp: for_size_def split: if_splits)

section \<open>Pools\<close>

lemma pools_okD:
  assumes "pools_ok bases a U"
  shows "arr_get (pools a) (block_index bs) = Some (pools a ! block_index bs)" "pool_ok (pools a ! block_index bs) (U bs)"
    "arena (pools a ! block_index bs) = Some (bases bs)" "block_size (pools a ! block_index bs) = block_bytes bs"
  using assms block_index_less [of bs] by (auto simp: pools_ok_def Let_def)

lemma pools_ok_update:
  assumes "pools_ok bases a U" and "pool_ok p V" and "arena p = Some (bases bs)" and "block_size p = block_bytes bs"
  shows "pools_ok bases (a\<lparr>pools := (pools a)[block_index bs := p]\<rparr>) (U(bs := V))"
  using assms block_index_less by (auto simp: pools_ok_def Let_def nth_list_update block_index_inj)

lemma pools_ok_counts [simp]:
  "pools_ok bases (a\<lparr>total_allocations := n\<rparr>) U = pools_ok bases a U"
  "pools_ok bases (a\<lparr>total_deallocations := n\<rparr>) U = pools_ok bases a U"
  by (simp_all add: pools_ok_def)

lemma pool_allocate_fields:
  "pool_allocate weak p = (r, p') \<Longrightarrow> arena p' = arena p \<and> block_size p' = block_size p"
  using allocate_loop_cases [of weak MAX_RETRIES p] by (auto simp: pool_allocate_def try_pop_def)

lemma pools_allocate_ok:
  assumes ok: "pools_ok bases a U"
  obtains (none) a' where "pools_allocate weak a n = Some (None, a')" "pools_ok bases a' U"
    | (some) al bs a' where "pools_allocate weak a n = Some (Some al, a')" "for_size n = Some bs"
        "pa_ptr al \<notin> U bs" "pa_ptr al \<in> blocks (bases bs) (block_bytes bs)" "pools_ok bases a' (U(bs := insert (pa_ptr al) (U bs)))"
proof (cases "for_size n")
  case None
  then show thesis using ok none by (simp add: pools_allocate_def)
next
  case (Some bs)
  let ?p = "pools a ! block_index bs"
  note p = pools_okD [OF ok, of bs]
  obtain r p' where r: "pool_allocate weak ?p = (r, p')" by (cases "pool_allocate weak ?p")
  note f = pool_allocate_fields [OF r]
  show thesis
  proof (cases r)
    case None
    have "p' = ?p" using allocate_ok [OF p(2) r] None by simp
    then have "pools_ok bases (a\<lparr>pools := (pools a)[block_index bs := p']\<rparr>) U" using ok by simp
    then show thesis using none Some r None p(1) by (simp add: pools_allocate_def)
  next
    case (Some b)
    have b: "b \<notin> U bs" "b \<in> blocks (bases bs) (block_bytes bs)" "pool_ok p' (insert b (U bs))"
      using allocate_ok [OF p(2) r] Some p(3,4) by auto
    have "pools_ok bases (a\<lparr>pools := (pools a)[block_index bs := p']\<rparr>) (U(bs := insert b (U bs)))"
      using pools_ok_update [OF ok b(3)] f p(3,4) by simp
    then show thesis
      using some [of "\<lparr>pa_ptr = b, pa_block_size = bs, pa_requested_size = n\<rparr>"
          "a\<lparr>pools := (pools a)[block_index bs := p'], total_allocations := usize_add (total_allocations a) 1\<rparr>" bs]
        \<open>for_size n = Some bs\<close> r Some p(1) b by (simp add: pools_allocate_def)
  qed
qed

lemma pools_deallocate_ok:
  assumes ok: "pools_ok bases a U" and b: "b \<in> U bs" and weak: "\<exists>k < MAX_RETRIES. weak k"
  shows "\<exists>a'. pools_deallocate weak a \<lparr>pa_ptr = b, pa_block_size = bs, pa_requested_size = n\<rparr> = Some a' \<and>
    pools_ok bases a' (U(bs := U bs - {b}))"
proof -
  let ?p = "pools a ! block_index bs"
  note p = pools_okD [OF ok, of bs]
  have d: "pool_deallocate weak b ?p = snd (try_push (free_list ?p) b (?p\<lparr>links := (links ?p)(b := free_list ?p)\<rparr>))"
    by (simp add: pool_deallocate_def deallocate_loop_eq [OF weak])
  have "pool_ok (pool_deallocate weak b ?p) (U bs - {b})" unfolding d by (rule push_ok [OF p(2) b])
  moreover have "arena (pool_deallocate weak b ?p) = Some (bases bs)" "block_size (pool_deallocate weak b ?p) = block_bytes bs"
    using p(3,4) by (simp_all add: d try_push_def)
  ultimately have "pools_ok bases (a\<lparr>pools := (pools a)[block_index bs := pool_deallocate weak b ?p]\<rparr>) (U(bs := U bs - {b}))"
    by (rule pools_ok_update [OF ok])
  then show ?thesis using p(1) by (simp add: pools_deallocate_def)
qed

section \<open>Bump allocator\<close>

lemma bump_okD:
  assumes "bump_ok b B"
  shows "finite B" "bump_count b = card B" "0 < bump_start b" "bump_start b \<le> bump_next b" "bump_next b \<le> bump_end b"
    "bump_end b + 64 < USIZE_MOD" "bump_end b - bump_start b < 2 ^ 62"
    "\<And>p s. (p, s) \<in> B \<Longrightarrow> bump_start b + HEADER_SIZE \<le> p \<and> p + s \<le> bump_next b"
    "\<And>p s q t. (p, s) \<in> B \<Longrightarrow> (q, t) \<in> B \<Longrightarrow> (p, s) \<noteq> (q, t) \<Longrightarrow> apart (p - HEADER_SIZE) (s + HEADER_SIZE) q t"
  using assms unfolding bump_ok_def by auto

lemma bump_card:
  assumes ok: "bump_ok b B"
  shows "card B < 2 ^ 62"
proof -
  note d = bump_okD [OF ok]
  have "inj_on fst B"
  proof (rule inj_onI)
    fix x y assume xy: "x \<in> B" "y \<in> B" "fst x = fst y"
    obtain p s t where x: "x = (p, s)" "y = (p, t)" using xy(3) by (cases x, cases y) auto
    have p: "HEADER_SIZE \<le> p" using d(8) xy(1) x by fastforce
    show "x = y"
    proof (rule ccontr)
      assume "x \<noteq> y"
      then have "apart (p - HEADER_SIZE) (s + HEADER_SIZE) p t" "apart (p - HEADER_SIZE) (t + HEADER_SIZE) p s"
        using d(9) xy x by auto
      then have "s = 0" "t = 0" using p by (auto simp: apart_def HEADER_SIZE_def)
      then show False using \<open>x \<noteq> y\<close> x by simp
    qed
  qed
  then have "card B = card (fst ` B)" by (simp add: card_image)
  also have "\<dots> \<le> card {bump_start b <.. bump_next b}"
    using d(8) by (intro card_mono) (fastforce simp: HEADER_SIZE_def)+
  also have "\<dots> \<le> bump_end b - bump_start b" using d(5) by simp
  finally show ?thesis using d(7) by simp
qed

lemma bump_allocate_cases:
  assumes ok: "bump_ok b B"
  obtains (full) "bump_allocate \<lparr>lay_size = n, lay_align = 8\<rparr> b = (None, b)" "\<exists>a. bump_end b < a + n \<and> a < bump_next b + 8"
    | (room) a where "bump_allocate \<lparr>lay_size = n, lay_align = 8\<rparr> b =
          (Some a, b\<lparr>bump_next := a + n, bump_count := card B + 1\<rparr>)" "8 dvd a" "bump_next b \<le> a" "a < bump_next b + 8" "a + n \<le> bump_end b"
proof -
  note d = bump_okD [OF ok]
  let ?a = "align_up (bump_next b) 8"
  have a: "bump_next b \<le> ?a" "?a < bump_next b + 8" "8 dvd ?a" using align_up_spec [of 8 "bump_next b"] d(5,6) by auto
  have "usize_add (card B) 1 = card B + 1" using bump_card [OF ok] by (simp add: no_wrap)
  note add = this
  show thesis
  proof (cases "?a + n \<le> bump_end b")
    case True
    then show thesis
      using room [of ?a] add a d(2,3,4,6) by (simp add: bump_allocate_def Let_def non_null_def usize_checked_add_def)
  next
    case False
    then have "bump_allocate \<lparr>lay_size = n, lay_align = 8\<rparr> b = (None, b)"
      by (simp add: bump_allocate_def Let_def usize_checked_add_def)
    moreover have "\<exists>a. bump_end b < a + n \<and> a < bump_next b + 8" using False a by (intro exI [of _ ?a]) simp
    ultimately show thesis by (rule full)
  qed
qed

lemma bump_ok_insert:
  assumes ok: "bump_ok b B" and a: "bump_next b \<le> a" "a + HEADER_SIZE + n \<le> bump_end b"
  shows "bump_ok (b\<lparr>bump_next := a + HEADER_SIZE + n, bump_count := card B + 1\<rparr>) (insert (a + HEADER_SIZE, n) B)"
    and "\<forall>(q, t) \<in> B. apart a (HEADER_SIZE + n) q t"
proof -
  note d = bump_okD [OF ok]
  have before: "q + t \<le> a" if "(q, t) \<in> B" for q t using d(8) [OF that] a by simp
  then show "\<forall>(q, t) \<in> B. apart a (HEADER_SIZE + n) q t" by (auto simp: apart_def intro: trans_le_add1)
  have new: "(a + HEADER_SIZE, n) \<notin> B" using before [of "a + HEADER_SIZE" n] by (auto simp: HEADER_SIZE_def)
  have "apart (p - HEADER_SIZE) (s + HEADER_SIZE) q t"
    if pq: "(p, s) \<in> insert (a + HEADER_SIZE, n) B" "(q, t) \<in> insert (a + HEADER_SIZE, n) B" "(p, s) \<noteq> (q, t)" for p s q t
  proof -
    consider "(p, s) \<in> B" "(q, t) \<in> B" | "(p, s) = (a + HEADER_SIZE, n)" "(q, t) \<in> B" | "(p, s) \<in> B" "(q, t) = (a + HEADER_SIZE, n)"
      using pq by blast
    then show ?thesis
    proof cases
      case 1
      then show ?thesis using d(9) pq(3) by blast
    next
      case 2
      then show ?thesis using before [of q t] by (simp add: apart_def)
    next
      case 3
      then show ?thesis using before [of p s] d(8) [of p s] by (auto simp: apart_def)
    qed
  qed
  then have pairs: "\<forall>(p, s) \<in> insert (a + HEADER_SIZE, n) B. \<forall>(q, t) \<in> insert (a + HEADER_SIZE, n) B.
      (p, s) \<noteq> (q, t) \<longrightarrow> apart (p - HEADER_SIZE) (s + HEADER_SIZE) q t" by blast
  have "\<forall>(p, s) \<in> insert (a + HEADER_SIZE, n) B. bump_start b + HEADER_SIZE \<le> p \<and> p + s \<le> a + HEADER_SIZE + n"
    using d(4,8) a before by (fastforce intro: trans_le_add1)
  with pairs show "bump_ok (b\<lparr>bump_next := a + HEADER_SIZE + n, bump_count := card B + 1\<rparr>) (insert (a + HEADER_SIZE, n) B)"
    using d(1-7) a new unfolding bump_ok_def by simp
qed

section \<open>Allocation\<close>

lemma blocks_bounds:
  assumes "b \<in> blocks base (block_bytes bs)"
  shows "base \<le> b" "b + block_bytes bs \<le> base + ARENA_SIZE"
proof -
  obtain i where i: "b = base + i * block_bytes bs" "i < ARENA_SIZE div block_bytes bs" using assms by (auto simp: blocks_def)
  have "(i + 1) * block_bytes bs \<le> ARENA_SIZE div block_bytes bs * block_bytes bs" using i(2) by (intro mult_right_mono) auto
  also have "\<dots> \<le> ARENA_SIZE" by simp
  finally show "base \<le> b" "b + block_bytes bs \<le> base + ARENA_SIZE" using i(1) by (auto simp: algebra_simps)
qed

lemma blocks_apart:
  assumes "b \<in> blocks base n" and "c \<in> blocks base n" and "b \<noteq> c"
  shows "apart b n c n"
proof -
  obtain i j where ij: "b = base + i * n" "c = base + j * n" using assms by (auto simp: blocks_def)
  then have "i \<noteq> j" using assms(3) by auto
  then have "(i + 1) * n \<le> j * n \<or> (j + 1) * n \<le> i * n" by (metis Suc_eq_plus1 Suc_leI linorder_neqE_nat mult_le_mono1)
  then show ?thesis using ij by (auto simp: apart_def algebra_simps)
qed

lemma blocks_aligned: "8 dvd base \<Longrightarrow> b \<in> blocks base (block_bytes bs) \<Longrightarrow> 8 dvd b"
  using block_bytes_8(1) [of bs] by (auto simp: blocks_def)

lemma pool_ok_subset: "pool_ok p U \<Longrightarrow> U \<subseteq> blocks (the (arena p)) (block_size p)"
  by (auto simp: pool_ok_def)

lemma apart_mono: "apart p s q t \<Longrightarrow> p \<le> p' \<Longrightarrow> p' + s' \<le> p + s \<Longrightarrow> q \<le> q' \<Longrightarrow> q' + t' \<le> q + t \<Longrightarrow> apart p' s' q' t'"
  by (auto simp: apart_def)

lemma apart_sym: "apart p s q t \<longleftrightarrow> apart q t p s"
  by (auto simp: apart_def)

lemma heap_okD:
  assumes "heap_ok bases h U B"
  shows "hp_initialized h" "pools_ok bases (hp_pools h) U" "bump_ok (hp_bump h) B" "8 dvd bases bs"
    "apart (bases bs) ARENA_SIZE (bump_start (hp_bump h)) (bump_end (hp_bump h) - bump_start (hp_bump h))"
    "bs \<noteq> bs' \<Longrightarrow> apart (bases bs) ARENA_SIZE (bases bs') ARENA_SIZE"
    "U bs \<subseteq> blocks (bases bs) (block_bytes bs)"
proof -
  show "hp_initialized h" and p: "pools_ok bases (hp_pools h) U" and "bump_ok (hp_bump h) B" and "8 dvd bases bs"
    and "apart (bases bs) ARENA_SIZE (bump_start (hp_bump h)) (bump_end (hp_bump h) - bump_start (hp_bump h))"
    and "bs \<noteq> bs' \<Longrightarrow> apart (bases bs) ARENA_SIZE (bases bs') ARENA_SIZE"
    using assms by (auto simp: heap_ok_def regions_ok_def)
  show "U bs \<subseteq> blocks (bases bs) (block_bytes bs)"
    using pool_ok_subset [OF pools_okD(2) [OF p, of bs]] pools_okD(3,4) [OF p, of bs] by simp
qed

text \<open>A new pool block is apart from everything in use.\<close>

lemma pool_block_apart:
  assumes ok: "heap_ok bases h U B" and b: "b \<notin> U bs" "b \<in> blocks (bases bs) (block_bytes bs)" and live: "(q, t) \<in> live U B"
  shows "apart b (block_bytes bs) q t"
proof -
  note d = heap_okD [OF ok] and bb = blocks_bounds [OF b(2)]
  from live consider (pool) bs' where "q \<in> U bs'" "t = block_bytes bs'" | (bump) "(q, t) \<in> B" by (auto simp: live_def)
  then show ?thesis
  proof cases
    case pool
    have q: "q \<in> blocks (bases bs') (block_bytes bs')" using d(7) pool(1) by blast
    show ?thesis
    proof (cases "bs' = bs")
      case True
      then show ?thesis using blocks_apart [OF b(2), of q] q pool b(1) by auto
    next
      case False
      then show ?thesis
        using apart_mono [OF d(6) [of bs bs'] bb(1,2) blocks_bounds [OF q]] pool(2) by auto
    qed
  next
    case bump
    have "bump_start (hp_bump h) \<le> q" "q + t \<le> bump_start (hp_bump h) + (bump_end (hp_bump h) - bump_start (hp_bump h))"
      using bump_okD(8) [OF d(3) bump] bump_okD(4,5) [OF d(3)] by auto
    from apart_mono [OF d(5) bb this] show ?thesis .
  qed
qed

lemma bump_block_apart:
  assumes ok: "heap_ok bases h U B" and p: "bump_start (hp_bump h) \<le> p" "p + n \<le> bump_end (hp_bump h)"
    and B: "\<forall>(q, t) \<in> B. apart p n q t" and live: "(q, t) \<in> live U B"
  shows "apart p n q t"
proof -
  note d = heap_okD [OF ok]
  from live consider (pool) bs where "q \<in> U bs" "t = block_bytes bs" | (bump) "(q, t) \<in> B" by (auto simp: live_def)
  then show ?thesis
  proof cases
    case pool
    have q: "q \<in> blocks (bases bs) (block_bytes bs)" using d(7) pool(1) by blast
    have "p + n \<le> bump_start (hp_bump h) + (bump_end (hp_bump h) - bump_start (hp_bump h))" using p by simp
    from apart_mono [OF d(5) blocks_bounds [OF q] p(1) this] show ?thesis using pool(2) by (simp add: apart_sym)
  qed (use B in auto)
qed

lemma bump_allocate_huge:
  assumes ok: "bump_ok b B" and "0 < lay_align l" "lay_align l \<le> 8" "2 ^ 62 \<le> lay_size l"
  shows "bump_allocate l b = (None, b)"
proof -
  note d = bump_okD [OF ok]
  have "bump_next b \<le> align_up (bump_next b) (lay_align l)"
    using assms(2,3) d(5,6) by (intro align_up_spec(1)) auto
  then have "bump_end b < align_up (bump_next b) (lay_align l) + lay_size l" using d(4,7) assms(4) by linarith
  then show ?thesis by (simp add: bump_allocate_def Let_def usize_checked_add_def)
qed

lemma bump_branch_cases:
  assumes ok: "heap_ok bases h U B" and hook: "hook_ok env" and l: "0 < lay_align l" "lay_align l \<le> 8" "lay_size l < 2 ^ 63"
  obtains (none) "bump_branch env l h = (None, h)"
    | (some) p h' where "bump_branch env l h = (Some p, h')" "p \<noteq> 0" "8 dvd p" "heap_ok bases h' U (insert (p, lay_size l) B)"
        "bump_start (hp_bump h) + HEADER_SIZE \<le> p" "p + lay_size l \<le> bump_end (hp_bump h)"
        "\<forall>(q, t) \<in> B. apart (p - HEADER_SIZE) (HEADER_SIZE + lay_size l) q t"
        "\<forall>x. x < p - HEADER_SIZE \<or> p \<le> x \<longrightarrow> hp_bytes h' x = hp_bytes h x"
proof -
  let ?b = "hp_bump h" and ?n = "lay_size l"
  note d = heap_okD [OF ok] and bd = bump_okD [OF heap_okD(3) [OF ok]]
  have al: "max (lay_align l) MIN_ALIGNMENT = 8" "max_padding 8 = 0" using l(2) by (simp_all add: MIN_ALIGNMENT_def max_padding_def HEADER_SIZE_def)
  have total: "usize_add (usize_add HEADER_SIZE 0) ?n = HEADER_SIZE + ?n" using l(3) by (simp add: no_wrap HEADER_SIZE_def)
  show thesis
  proof (cases "layout_8 (HEADER_SIZE + ?n)")
    case None
    then have "bump_allocate l ?b = (None, ?b)"
      by (intro bump_allocate_huge [OF d(3) l(1,2)]) (simp add: layout_8_def HEADER_SIZE_def split: if_splits)
    then show thesis using none al total None by (simp add: bump_branch_def Let_def)
  next
    case (Some l')
    then have l': "l' = \<lparr>lay_size = HEADER_SIZE + ?n, lay_align = 8\<rparr>" by (simp add: layout_8_def split: if_splits)
    show thesis
    proof (cases rule: bump_allocate_cases [OF d(3), of "HEADER_SIZE + ?n", case_names full room])
      case full
      then show thesis using none al total Some l' by (simp add: bump_branch_def Let_def)
    next
      case (room a)
      have data: "usize_add a HEADER_SIZE = a + HEADER_SIZE" using room(5) bd(6) by (simp add: no_wrap HEADER_SIZE_def)
      have "8 dvd a + HEADER_SIZE" using room(2) by (simp add: HEADER_SIZE_def)
      then have up: "align_up (a + HEADER_SIZE) 8 = a + HEADER_SIZE" by (rule align_up_aligned)
      define h' where "h' = snd (bump_branch env l h)"
      have run: "bump_branch env l h = (Some (a + HEADER_SIZE), h')"
        using al total Some l' room(1) data up by (simp add: bump_branch_def Let_def h'_def split: prod.splits)
      have h': "hp_bump h' = ?b\<lparr>bump_next := a + HEADER_SIZE + ?n, bump_count := card B + 1\<rparr>" "hp_pools h' = hp_pools h"
          "hp_initialized h' = hp_initialized h"
        using al total Some l' room(1) data up by (simp_all add: bump_branch_def Let_def h'_def call_hook_same [OF hook] add.assoc)
      have "usize_sub (a + HEADER_SIZE) HEADER_SIZE = a" using data room(5) bd(6) by (simp add: no_wrap HEADER_SIZE_def)
      then have "hp_bytes h' = write_bytes a (header_bytes (HEADER_SIZE + ?n) 8) (hp_bytes h)"
        using al total Some l' room(1) data up by (simp add: bump_branch_def Let_def h'_def call_hook_same [OF hook])
      then have "\<forall>x. x < a \<or> a + HEADER_SIZE \<le> x \<longrightarrow> hp_bytes h' x = hp_bytes h x"
        by (auto simp: write_bytes_def header_bytes_def le_bytes_def HEADER_SIZE_def)
      note bytes = this
      have fit: "a + HEADER_SIZE + ?n \<le> bump_end ?b" using room(5) by simp
      note ins = bump_ok_insert [OF d(3) room(3) fit]
      have "regions_ok bases (hp_bump h')" using ok by (simp add: heap_ok_def regions_ok_def h')
      then have "heap_ok bases h' U (insert (a + HEADER_SIZE, ?n) B)" using ins(1) d(1,2) by (simp add: heap_ok_def h')
      then show thesis
        using some [OF run] \<open>8 dvd a + HEADER_SIZE\<close> ins(2) fit room(3) bd(3,4) bytes by simp
    qed
  qed
qed

lemma pool_branch_cases:
  assumes ok: "heap_ok bases h U B" and hook: "hook_ok env"
  obtains (none) h' where "pool_branch env weak l h = Some (None, h')" "heap_ok bases h' U B" "hp_bump h' = hp_bump h" "hp_bytes h' = hp_bytes h"
    | (some) b bs h' where "pool_branch env weak l h = Some (Some b, h')" "for_size (lay_size l) = Some bs" "b \<notin> U bs"
        "b \<in> blocks (bases bs) (block_bytes bs)" "heap_ok bases h' (U(bs := insert b (U bs))) B" "hp_bytes h' = hp_bytes h"
proof -
  note d = heap_okD [OF ok] and out_none = none and out_some = some
  show thesis
  proof (cases "lay_size l \<le> MAX_POOL_SIZE \<and> max (lay_align l) MIN_ALIGNMENT \<le> MIN_ALIGNMENT")
    case False
    then show thesis using none [of h] ok by (auto simp: pool_branch_def Let_def)
  next
    case True
    show thesis
    proof (cases rule: pools_allocate_ok [OF d(2), of weak "lay_size l", case_names none some])
      case (none ps)
      then show thesis using out_none [of "h\<lparr>hp_pools := ps\<rparr>"] True ok
        by (auto simp: pool_branch_def Let_def heap_ok_def)
    next
      case (some al bs ps)
      define h' where "h' = snd (the (pool_branch env weak l h))"
      have run: "pool_branch env weak l h = Some (Some (pa_ptr al), h')"
        using True some(1) by (simp add: pool_branch_def Let_def h'_def)
      have "hp_pools h' = ps" "hp_bump h' = hp_bump h" "hp_initialized h' = hp_initialized h" "hp_bytes h' = hp_bytes h"
        using True some(1) by (simp_all add: pool_branch_def Let_def h'_def call_hook_same [OF hook])
      then show thesis
        using out_some [OF run some(2,3,4)] some(5) ok
        by (simp add: heap_ok_def)
    qed
  qed
qed

text \<open>
  An allocation: null, a block of the pools, or a block of the bump region. The bytes of the
  blocks in use stay as they are.
\<close>

definition same_bytes :: "(nat \<times> nat) set \<Rightarrow> Heap \<Rightarrow> Heap \<Rightarrow> bool" where
  "same_bytes L h h' \<longleftrightarrow> (\<forall>(q, t) \<in> L. \<forall>i < t. hp_bytes h' (q + i) = hp_bytes h (q + i))"

lemma live_insert [simp]:
  "live (U(bs := insert b (U bs))) B = insert (b, block_bytes bs) (live U B)"
  "live U (insert (p, n) B) = insert (p, n) (live U B)"
  by (auto simp: live_def split: if_splits)

lemma heap_alloc_cases:
  assumes ok: "heap_ok bases h U B" and env: "hook_ok env" "env_oom env = default_oom_handler"
    and l: "0 < lay_align l" "lay_align l \<le> 8" "0 < lay_size l" "lay_size l < 2 ^ 63"
  obtains (null) h' where "heap_alloc env weak l h = Some (0, h')" "heap_ok bases h' U B" "hp_bytes h' = hp_bytes h"
    | (block) p n h' U' B' where "heap_alloc env weak l h = Some (p, h')" "p \<noteq> 0" "8 dvd p" "lay_size l \<le> n"
        "\<forall>(q, t) \<in> live U B. apart p n q t" "heap_ok bases h' U' B'" "live U' B' = insert (p, n) (live U B)"
        "same_bytes (live U B) h h'" "\<And>bs. U bs \<subseteq> U' bs" "B \<subseteq> B'"
proof (cases rule: pool_branch_cases [OF ok env(1), of weak l, case_names none some])
  case (none h1)
  show ?thesis
  proof (cases rule: bump_branch_cases [OF none(2) env(1) l(1,2,4), case_names none some])
    case none2: none
    have "heap_ok bases (record_oom False h1) U B" "hp_bytes (record_oom False h1) = hp_bytes h"
      using none(2,4) by (simp_all add: heap_ok_def record_oom_def Let_def)
    moreover have "heap_alloc env weak l h = Some (0, record_oom False h1)"
      using none(1) none2 heap_okD(1) [OF ok] env(2)
      by (simp add: heap_alloc_def alloc_with_retry.simps default_oom_handler_def)
    ultimately show ?thesis by (intro null)
  next
    case (some p h')
    have far: "apart (p - HEADER_SIZE) (HEADER_SIZE + lay_size l) q t" if "(q, t) \<in> live U B" for q t
      using bump_block_apart [OF none(2) _ _ some(7) that] some(5,6) by simp
    have "HEADER_SIZE \<le> p" using some(5) by simp
    then have apart: "\<forall>(q, t) \<in> live U B. apart p (lay_size l) q t" using far by (fastforce simp: apart_def)
    have "hp_bytes h' (q + i) = hp_bytes h (q + i)" if qt: "(q, t) \<in> live U B" "i < t" for q t i
    proof -
      have "q + i < p - HEADER_SIZE \<or> p \<le> q + i"
        using far [OF qt(1)] qt(2) \<open>HEADER_SIZE \<le> p\<close> by (auto simp: apart_def)
      then show ?thesis using some(8) none(4) by auto
    qed
    then have "same_bytes (live U B) h h'" by (auto simp: same_bytes_def)
    moreover have "heap_alloc env weak l h = Some (p, h')"
      using none(1) some(1) heap_okD(1) [OF ok] by (auto simp: heap_alloc_def alloc_with_retry.simps)
    ultimately show ?thesis using block [OF _ some(2,3) _ apart some(4)] by auto
  qed
next
  case (some b bs h')
  have far: "\<forall>(q, t) \<in> live U B. apart b (block_bytes bs) q t" using pool_block_apart [OF ok some(3,4)] by blast
  have "8 dvd b" "b \<noteq> 0"
    using blocks_aligned [OF heap_okD(4) [OF ok] some(4)] blocks_bounds(1) [OF some(4)] pools_okD(2,3) [OF heap_okD(2) [OF ok], of bs]
    by (auto simp: pool_ok_def)
  moreover have "heap_alloc env weak l h = Some (b, h')"
    using some(1) heap_okD(1) [OF ok] by (auto simp: heap_alloc_def alloc_with_retry.simps)
  moreover have "same_bytes (live U B) h h'" using some(6) by (simp add: same_bytes_def)
  moreover have grow: "U bs' \<subseteq> (U(bs := insert b (U bs))) bs'" for bs' by auto
  ultimately show ?thesis
    using far some(5) for_size_fits [OF some(2)] live_insert(1) [of U bs b B]
    by (intro block [where U' = "U(bs := insert b (U bs))" and p = b and n = "block_bytes bs"]) (blast | simp)+
qed

section \<open>Release\<close>

text \<open>
  The blocks the release returns to where they came from: pool blocks, and bump blocks
  larger than every pool block.
\<close>

definition owned :: "nat \<Rightarrow> nat \<Rightarrow> nat \<Rightarrow> (BlockSize \<Rightarrow> nat set) \<Rightarrow> (nat \<times> nat) set \<Rightarrow> bool" where
  "owned p n m U B \<longleftrightarrow> (\<exists>bs. for_size n = Some bs \<and> p \<in> U bs \<and> m = block_bytes bs) \<or> (MAX_POOL_SIZE < n \<and> (p, n) \<in> B \<and> m = n)"

lemma owned_live: "owned p n m U B \<Longrightarrow> (p, m) \<in> live U B \<and> n \<le> m"
  using for_size_fits by (auto simp: owned_def live_def)

lemma owned_not_null:
  assumes ok: "heap_ok bases h U B" and "owned p n m U B"
  shows "p \<noteq> 0"
proof -
  note d = heap_okD [OF ok]
  from assms(2) consider (pool) bs where "p \<in> U bs" | (bump) "(p, n) \<in> B" by (auto simp: owned_def)
  then show ?thesis
  proof cases
    case pool
    then have p: "p \<in> blocks (bases bs) (block_bytes bs)" using d(7) by blast
    show ?thesis using blocks_bounds(1) [OF p] pools_okD(2,3) [OF d(2), of bs] by (auto simp: pool_ok_def)
  next
    case bump
    then show ?thesis using bump_okD(8) [OF d(3) bump] by (auto simp: HEADER_SIZE_def)
  qed
qed

lemma owned_mono: "owned p n m U B \<Longrightarrow> (\<And>bs. U bs \<subseteq> U' bs) \<Longrightarrow> B \<subseteq> B' \<Longrightarrow> owned p n m U' B'"
  unfolding owned_def by blast

lemma bump_ok_remove:
  assumes ok: "bump_ok b B" and p: "x \<in> B"
  shows "bump_ok (bump_deallocate b) (B - {x})"
proof -
  note d = bump_okD [OF ok]
  have c: "0 < card B" "card (B - {x}) = card B - 1" using p d(1) by (auto simp: card_gt_0_iff)
  have sub: "usize_sub (card B) 1 = card B - 1" using c(1) bump_card [OF ok] by (simp add: no_wrap)
  have sizes: "\<forall>(p, s) \<in> B - {x}. bump_start b + HEADER_SIZE \<le> p \<and> p + s \<le> bump_next b"
    and pairs: "\<forall>(p, s) \<in> B - {x}. \<forall>(q, t) \<in> B - {x}. (p, s) \<noteq> (q, t) \<longrightarrow> apart (p - HEADER_SIZE) (s + HEADER_SIZE) q t"
    using d(8,9) by auto
  show ?thesis
  proof (cases "card B = 1")
    case True
    then have empty: "B - {x} = {}" using c(2) d(1) by (metis card_0_eq diff_self_eq_0 finite_Diff)
    show ?thesis unfolding empty using True d(1-7) sub by (simp add: bump_ok_def bump_deallocate_def Let_def)
  next
    case False
    then show ?thesis using d(1-7) sub c sizes pairs unfolding bump_ok_def bump_deallocate_def Let_def by simp
  qed
qed

lemma regions_ok_bump [simp]: "regions_ok bases (bump_deallocate b) = regions_ok bases b"
  by (simp add: regions_ok_def bump_deallocate_def Let_def)

lemma heap_dealloc_cases:
  assumes ok: "heap_ok bases h U B" and env: "hook_ok env" and weak: "\<exists>k < MAX_RETRIES. weak k"
    and own: "owned p (lay_size l) m U B"
  obtains h' U' B' where "heap_dealloc env weak p l h = Some h'" "heap_ok bases h' U' B'" "live U' B' = live U B - {(p, m)}"
    "hp_bytes h' = hp_bytes h"
proof -
  define h1 where "h1 = call_hook env (EvDealloc p (lay_size l)) h"
  note same = call_hook_same [OF env, of "EvDealloc p (lay_size l)" h, folded h1_def] and d = heap_okD [OF ok]
  have "p \<noteq> 0" by (rule owned_not_null [OF ok own])
  from own consider (pool) bs where "for_size (lay_size l) = Some bs" "p \<in> U bs" "m = block_bytes bs"
    | (bump) "MAX_POOL_SIZE < lay_size l" "(p, lay_size l) \<in> B" "m = lay_size l" by (auto simp: owned_def)
  then show thesis
  proof cases
    case pool
    have p: "p \<in> blocks (bases bs) (block_bytes bs)" using d(7) pool(2) by blast
    have small: "lay_size l \<le> MAX_POOL_SIZE" using pool(1) by (auto simp: for_size_def MAX_POOL_SIZE_def split: if_splits)
    obtain ps where ps: "pools_deallocate weak (hp_pools h) \<lparr>pa_ptr = p, pa_block_size = bs, pa_requested_size = lay_size l\<rparr> = Some ps"
      "pools_ok bases ps (U(bs := U bs - {p}))" using pools_deallocate_ok [OF d(2) pool(2) weak] by blast
    let ?h = "h1\<lparr>hp_pools := ps, hp_pool_deallocations := usize_add (hp_pool_deallocations h1) 1\<rparr>"
    have "heap_dealloc env weak p l h = Some ?h"
      using \<open>p \<noteq> 0\<close> d(1) small pool(1) ps(1) by (simp add: heap_dealloc_def Let_def h1_def [symmetric] same)
    moreover have "heap_ok bases ?h (U(bs := U bs - {p})) B" using ok ps(2) by (simp add: heap_ok_def same)
    moreover have "(p, m) \<notin> B"
      using d(5) [of bs] blocks_bounds [OF p] bump_okD(8) [OF d(3), of p m] bump_okD(4,5) [OF d(3)] block_bytes_8(2) [of bs] pool(3)
      by (auto simp: apart_def)
    then have "live (U(bs := U bs - {p})) B = live U B - {(p, m)}"
      using pool(3) by (auto simp: live_def block_bytes_inj split: if_splits)
    ultimately show thesis using that same by simp
  next
    case bump
    let ?h = "h1\<lparr>hp_bump := bump_deallocate (hp_bump h1), hp_bump_deallocations := usize_add (hp_bump_deallocations h1) 1\<rparr>"
    have "heap_dealloc env weak p l h = Some ?h"
      using \<open>p \<noteq> 0\<close> d(1) bump(1) by (simp add: heap_dealloc_def Let_def h1_def [symmetric])
    moreover have "heap_ok bases ?h U (B - {(p, m)})"
      using ok bump_ok_remove [OF d(3) bump(2)] bump(3) by (simp add: heap_ok_def same)
    moreover have "live U (B - {(p, m)}) = live U B - {(p, m)}"
      using bump(1,3) block_bytes_le by (auto simp: live_def not_less [symmetric])
    ultimately show thesis using that same by simp
  qed
qed

section \<open>A heap to start from\<close>

lemma pool_init_new:
  assumes "0 < base" and "0 < bs"
  obtains p where "pool_init base (Pool_new bs) = Some p" "pool_ok p {}" "arena p = Some base" "block_size p = bs"
proof -
  obtain p where p: "pool_init base (Pool_new bs) = Some p"
    using assms(2) by (simp add: pool_init_def Pool_new_def Let_def)
  moreover from this have "arena p = Some base" "block_size p = bs"
    using assms(2) by (auto simp: pool_init_def Pool_new_def Let_def)
  ultimately show thesis using that pool_init_ok [OF assms p] by blast
qed

lemma init_pools_new:
  assumes "\<forall>base \<in> set bl. 0 < base" and "\<forall>n \<in> set ns. 0 < n" and "length bl = length ns"
  shows "\<exists>ps. init_pools bl (map Pool_new ns) = Some ps \<and> length ps = length ns \<and>
    (\<forall>i < length ns. pool_ok (ps ! i) {} \<and> arena (ps ! i) = Some (bl ! i) \<and> block_size (ps ! i) = ns ! i)"
  using assms
proof (induction ns arbitrary: bl)
  case (Cons n ns)
  then obtain base bl' where bl: "bl = base # bl'" by (cases bl) auto
  obtain p where p: "pool_init base (Pool_new n) = Some p" "pool_ok p {}" "arena p = Some base" "block_size p = n"
    using pool_init_new [of base n] Cons.prems bl by auto
  obtain ps where ps: "init_pools bl' (map Pool_new ns) = Some ps" "length ps = length ns"
      "\<forall>i < length ns. pool_ok (ps ! i) {} \<and> arena (ps ! i) = Some (bl' ! i) \<and> block_size (ps ! i) = ns ! i"
    using Cons.IH [of bl'] Cons.prems bl by auto
  have "\<forall>i < length (n # ns). pool_ok ((p # ps) ! i) {} \<and> arena ((p # ps) ! i) = Some (bl ! i) \<and> block_size ((p # ps) ! i) = (n # ns) ! i"
    using p ps(3) bl by (auto simp: nth_Cons split: nat.splits)
  then show ?case using p(1) ps(1,2) bl by simp
qed simp

text \<open>Initialisation puts the heap in order.\<close>

lemma heap_init_ok:
  assumes "\<And>bs. 0 < bases bs" and "0 < start" and "start + sz + 64 < USIZE_MOD" and "sz < 2 ^ 62"
    and "regions_ok bases (bump_init start sz BumpAllocator_new)"
  obtains h where "heap_init (map bases all_sizes) start sz HeapAllocator_new = Some h" "heap_ok bases h (\<lambda>_. {}) {}"
    "hp_bump h = bump_init start sz BumpAllocator_new" "hp_profile h = reset_profiling_stats"
proof -
  let ?ns = "map block_bytes all_sizes"
  have new: "pools PoolAllocator_new = map Pool_new ?ns" by (simp add: PoolAllocator_new_def all_sizes_def)
  have "\<forall>n \<in> set ?ns. 0 < n" "length (map bases all_sizes) = length ?ns" "\<forall>base \<in> set (map bases all_sizes). 0 < base"
    using assms(1) block_bytes_8(2) by auto
  then obtain ps where ps: "init_pools (map bases all_sizes) (map Pool_new ?ns) = Some ps" "length ps = length ?ns"
      "\<forall>i < length ?ns. pool_ok (ps ! i) {} \<and> arena (ps ! i) = Some (map bases all_sizes ! i) \<and> block_size (ps ! i) = ?ns ! i"
    using init_pools_new [of "map bases all_sizes" ?ns] by blast
  have nth: "block_index bs < length ?ns" "map bases all_sizes ! block_index bs = bases bs" "?ns ! block_index bs = block_bytes bs" for bs
    by (cases bs; simp add: all_sizes_def)+
  have "pools_ok bases (PoolAllocator_new\<lparr>pools := ps\<rparr>) (\<lambda>_. {})"
    using ps(2,3) nth by (auto simp: pools_ok_def Let_def) (simp_all add: all_sizes_def)
  moreover have "bump_ok (bump_init start sz BumpAllocator_new) {}"
    using assms(2-4) by (simp add: bump_ok_def bump_init_def no_wrap)
  ultimately show thesis
    using that [of "HeapAllocator_new\<lparr>hp_pools := PoolAllocator_new\<lparr>pools := ps\<rparr>, hp_bump := bump_init start sz BumpAllocator_new, hp_initialized := True\<rparr>"]
      ps(1) assms(5) by (simp add: heap_init_def pools_init_def new HeapAllocator_new_def heap_ok_def)
qed

text \<open>
  The concrete heap of the witnesses: the pools' arenas one after the other from 1 MiB, a
  bump region of 1 MiB at 8 MiB, and the built-in profiler as the hook.
\<close>

definition builtin_env :: heap_env where
  "builtin_env = \<lparr>env_hook = (\<lambda>ev h. h\<lparr>hp_profile := builtin_profiler ev (hp_profile h)\<rparr>), env_oom = default_oom_handler\<rparr>"

definition demo_bases :: "BlockSize \<Rightarrow> nat" where
  "demo_bases bs = 0x100000 + block_index bs * 65536"

lemma builtin_env_ok: "hook_ok builtin_env" "env_oom builtin_env = default_oom_handler"
  by (auto simp: builtin_env_def hook_ok_def)

lemma some_retry: "\<exists>k. k < MAX_RETRIES"
  by (auto simp: MAX_RETRIES_def intro: exI [of _ 0])

lemma demo_regions: "regions_ok demo_bases (bump_init 0x800000 0x100000 BumpAllocator_new)"
proof -
  have "8 dvd demo_bases bs" for bs by (cases bs) (simp_all add: demo_bases_def)
  moreover have "apart (demo_bases bs) ARENA_SIZE 0x800000 0x100000" for bs
    by (cases bs) (simp_all add: demo_bases_def apart_def ARENA_SIZE_def)
  moreover have "apart (demo_bases bs) ARENA_SIZE (demo_bases bs') ARENA_SIZE" if "bs \<noteq> bs'" for bs bs'
    using that by (cases bs; cases bs') (simp_all add: demo_bases_def apart_def ARENA_SIZE_def)
  ultimately show ?thesis by (simp add: regions_ok_def bump_init_def BumpAllocator_new_def no_wrap)
qed

lemma demo_heap:
  obtains h where "heap_init (map demo_bases all_sizes) 0x800000 0x100000 HeapAllocator_new = Some h"
    "heap_ok demo_bases h (\<lambda>_. {}) {}" "hp_bump h = bump_init 0x800000 0x100000 BumpAllocator_new"
  using heap_init_ok [OF _ _ _ _ demo_regions] by (auto simp: demo_bases_def)

section \<open>Blocks and their contents\<close>

text \<open>
  C4. The heap hands out separate blocks. In an ordered heap, with the default handler, a
  request for at least one byte with an alignment of at most 8 returns. The answer is null and
  the blocks in use stay as they are, or it is an 8-byte aligned block, from the pools or from
  the bump region, that overlaps no block in use; the heap stays ordered with it in use, and
  the contents of the other blocks are kept.
\<close>

theorem heap_alloc_safe:
  assumes "heap_ok bases h U B" and "hook_ok env" and "env_oom env = default_oom_handler"
    and "0 < lay_align l" and "lay_align l \<le> 8" and "0 < lay_size l" and "lay_size l < 2 ^ 63"
  shows "\<exists>p h'. heap_alloc env weak l h = Some (p, h') \<and> same_bytes (live U B) h h' \<and>
    (if p = 0 then heap_ok bases h' U B
     else 8 dvd p \<and> (\<exists>n U' B'. lay_size l \<le> n \<and> (\<forall>(q, t) \<in> live U B. apart p n q t) \<and>
       heap_ok bases h' U' B' \<and> live U' B' = insert (p, n) (live U B)))"
proof (cases rule: heap_alloc_cases [OF assms, of weak, case_names null block])
  case (null h')
  then show ?thesis by (auto simp: same_bytes_def)
next
  case (block p n h' U' B')
  then show ?thesis by auto
qed

theorem heap_alloc_safe_witness:
  "\<exists>h p h'. heap_init (map demo_bases all_sizes) 0x800000 0x100000 HeapAllocator_new = Some h \<and>
     heap_alloc builtin_env (\<lambda>_. True) \<lparr>lay_size = 5000, lay_align = 8\<rparr> h = Some (p, h') \<and> 8 dvd p"
proof -
  obtain h where h: "heap_init (map demo_bases all_sizes) 0x800000 0x100000 HeapAllocator_new = Some h"
    "heap_ok demo_bases h (\<lambda>_. {}) {}" by (rule demo_heap)
  from heap_alloc_safe [OF h(2) builtin_env_ok, of "\<lparr>lay_size = 5000, lay_align = 8\<rparr>" "\<lambda>_. True"] h(1)
  show ?thesis by (fastforce split: if_splits)
qed



end
