(* ===== verification/Heap_Conc.thy ===== *)
theory Heap_Conc
  imports Heap_Correct
begin

text \<open>
  The bump allocator under concurrent calls, and the ways the heap breaks. A call of
  \<open>bump_allocate\<close> is its atomic steps run alone; calls of any number of processors return
  separate blocks and all end, whatever the interleaving, as long as none of them releases. A
  release that resets the bump pointer between the two steps of an allocation gives out its
  memory again. The other faults are the padding for large alignments, small blocks of the bump
  region that are released to the pools, and the profile of a reallocation.
\<close>

section \<open>One processor\<close>

lemma bump_allocate_room:
  "bump_allocate l b = (case bump_room l (bump_next b) b of
     None \<Rightarrow> (None, b)
   | Some (s, e) \<Rightarrow> (non_null s, b\<lparr>bump_next := e, bump_count := usize_add (bump_count b) 1\<rparr>))"
  by (cases "usize_checked_add (align_up (bump_next b) (lay_align l)) (lay_size l)")
    (simp_all add: bump_allocate_def bump_room_def usize_checked_add_def Let_def)

text \<open>
  A call with no interference: four atomic steps of the compare-exchange loop compute the
  result and the state of \<open>bump_allocate\<close>.
\<close>

theorem bump_steps_alone:
  "((\<lambda>(pc, b). bump_step pc b) ^^ 4) (BumpLoad l, b) = (case bump_allocate l b of (r, b') \<Rightarrow> (BumpRet r, b'))"
  by (cases "bump_room l (bump_next b) b") (auto simp: bump_allocate_room eval_nat_numeral Let_def)

section \<open>Many processors\<close>

text \<open>
  \<open>bump_run lay n k cs cs'\<close>: \<open>k\<close> steps of processors below \<open>n\<close> that have not returned lead from
  \<open>cs\<close> to \<open>cs'\<close>. Processor \<open>t\<close> allocates for the layout \<open>lay t\<close>.
\<close>

type_synonym bump_conf = "(nat \<Rightarrow> bump_pc) \<times> BumpAllocator"

definition bump_done :: "bump_pc \<Rightarrow> bool" where
  "bump_done pc = (case pc of BumpRet _ \<Rightarrow> True | BumpFreed \<Rightarrow> True | _ \<Rightarrow> False)"

definition bump_sched :: "nat \<Rightarrow> bump_conf \<Rightarrow> bump_conf" where
  "bump_sched t cs = (case bump_step (fst cs t) (snd cs) of (pc, b) \<Rightarrow> ((fst cs)(t := pc), b))"

inductive bump_run :: "nat \<Rightarrow> nat \<Rightarrow> bump_conf \<Rightarrow> bump_conf \<Rightarrow> bool" for n where
  start: "bump_run n 0 cs cs"
| step: "bump_run n k cs cs' \<Longrightarrow> t < n \<Longrightarrow> \<not> bump_done (fst cs' t) \<Longrightarrow> bump_run n (Suc k) cs (bump_sched t cs')"

text \<open>The block a processor holds: after its compare-exchange, or when its call has returned.\<close>

fun bump_block :: "bump_pc \<Rightarrow> nat option" where
  "bump_block (BumpCount s) = Some s"
| "bump_block (BumpRet r) = r"
| "bump_block _ = None"

fun bump_pc_ok :: "Layout \<Rightarrow> BumpAllocator \<Rightarrow> bump_pc \<Rightarrow> bool" where
  "bump_pc_ok l b (BumpLoad l') \<longleftrightarrow> l' = l"
| "bump_pc_ok l b (BumpReload l') \<longleftrightarrow> l' = l"
| "bump_pc_ok l b (BumpCas l' c s e) \<longleftrightarrow> l' = l \<and> c \<le> bump_next b \<and> c \<le> s \<and> s < c + lay_align l \<and> lay_align l dvd s \<and> e = s + lay_size l \<and> e \<le> bump_end b"
| "bump_pc_ok l b (BumpCount s) \<longleftrightarrow> lay_align l dvd s \<and> bump_start b \<le> s \<and> s + lay_size l \<le> bump_next b"
| "bump_pc_ok l b (BumpRet (Some s)) \<longleftrightarrow> lay_align l dvd s \<and> bump_start b \<le> s \<and> s + lay_size l \<le> bump_next b"
| "bump_pc_ok l b (BumpRet None) \<longleftrightarrow> True"
| "bump_pc_ok l b _ \<longleftrightarrow> False"

definition bump_inv :: "(nat \<Rightarrow> Layout) \<Rightarrow> bump_conf \<Rightarrow> bool" where
  "bump_inv lay cs \<longleftrightarrow>
     0 < bump_start (snd cs) \<and> bump_start (snd cs) \<le> bump_next (snd cs) \<and> bump_next (snd cs) \<le> bump_end (snd cs) \<and>
     (\<forall>t. bump_end (snd cs) + lay_align (lay t) < USIZE_MOD \<and> 0 < lay_align (lay t) \<and> 0 < lay_size (lay t)) \<and>
     (\<forall>t. bump_pc_ok (lay t) (snd cs) (fst cs t)) \<and>
     (\<forall>t u s r. t \<noteq> u \<longrightarrow> bump_block (fst cs t) = Some s \<longrightarrow> bump_block (fst cs u) = Some r \<longrightarrow>
        apart s (lay_size (lay t)) r (lay_size (lay u)))"

lemma bump_invD:
  assumes "bump_inv lay cs"
  shows "0 < bump_start (snd cs)" "bump_start (snd cs) \<le> bump_next (snd cs)" "bump_next (snd cs) \<le> bump_end (snd cs)"
    "bump_end (snd cs) + lay_align (lay t) < USIZE_MOD" "0 < lay_align (lay t)" "0 < lay_size (lay t)"
    "bump_pc_ok (lay t) (snd cs) (fst cs t)"
    "t \<noteq> u \<Longrightarrow> bump_block (fst cs t) = Some s \<Longrightarrow> bump_block (fst cs u) = Some r \<Longrightarrow> apart s (lay_size (lay t)) r (lay_size (lay u))"
  using assms unfolding bump_inv_def by blast+

lemma bump_block_bound:
  assumes "bump_pc_ok l b pc" and "bump_block pc = Some s"
  shows "s + lay_size l \<le> bump_next b"
  using assms by (cases pc) auto

lemma bump_pc_ok_mono:
  assumes "bump_pc_ok l b pc" and "bump_next b \<le> bump_next b'" and "bump_start b' = bump_start b" and "bump_end b' = bump_end b"
  shows "bump_pc_ok l b' pc"
  using assms by (cases "(l, b, pc)" rule: bump_pc_ok.cases) auto

lemma bump_room_spec:
  assumes "bump_room l c b = Some (s, e)" and "0 < lay_align l" and "c + lay_align l < USIZE_MOD"
  shows "c \<le> s" "s < c + lay_align l" "lay_align l dvd s" "e = s + lay_size l" "e \<le> bump_end b"
  using assms align_up_spec [OF assms(2,3)]
  by (auto simp: bump_room_def Let_def usize_checked_add_def split: option.splits if_splits)

text \<open>The step of a processor: it moves on without a block, or takes the memory at the bump pointer.\<close>

lemma bump_step_cases:
  assumes inv: "bump_inv lay (f, b)" and live: "\<not> bump_done (f t)" and step: "bump_step (f t) b = (pc, b')"
  obtains (move) "bump_next b' = bump_next b" "bump_start b' = bump_start b" "bump_end b' = bump_end b"
      "bump_pc_ok (lay t) b' pc" "bump_block pc = bump_block (f t)"
    | (claim) s where "bump_next b' = s + lay_size (lay t)" "bump_start b' = bump_start b" "bump_end b' = bump_end b"
      "bump_next b \<le> s" "lay_align (lay t) dvd s" "s + lay_size (lay t) \<le> bump_end b" "pc = BumpCount s" "bump_block (f t) = None"
      "f t = BumpCas (lay t) (bump_next b) s (s + lay_size (lay t))"
proof -
  note d = bump_invD(1-3) [OF inv, unfolded fst_conv snd_conv] and dt = bump_invD(4-7) [OF inv, of t, unfolded fst_conv snd_conv]
  show thesis
proof (cases "f t")
  case (BumpReload l)
  have l: "l = lay t" using dt(4) BumpReload by simp
  have c: "bump_next b + lay_align l < USIZE_MOD" using d(3) dt(1) l by simp
  show thesis
  proof (cases "bump_room l (bump_next b) b")
    case None
    then show thesis using move step BumpReload by (auto simp: Let_def)
  next
    case (Some x)
    then obtain s e where x: "bump_room l (bump_next b) b = Some (s, e)" by (cases x) auto
    show thesis using move step BumpReload x bump_room_spec [OF x _ c] dt(2) l by (auto simp: Let_def)
  qed
next
  case (BumpCas l c s e)
  show thesis
  proof (cases "bump_next b = c")
    case True
    then show thesis using claim [of s] step BumpCas dt(4) by auto
  next
    case False
    then show thesis using move step BumpCas dt(4) by auto
  qed
next
  case (BumpCount s)
  then show thesis using move step d dt by (auto simp: non_null_def)
next
  case (BumpLoad l)
  then show thesis using move step dt by (auto split: option.splits)
qed (use live dt(4) in \<open>auto simp: bump_done_def\<close>)
qed

lemma bump_inv_sched:
  assumes inv: "bump_inv lay (f, b)" and live: "\<not> bump_done (f t)"
  shows "bump_inv lay (bump_sched t (f, b))"
proof -
  obtain pc b' where step: "bump_step (f t) b = (pc, b')" by (cases "bump_step (f t) b")
  note d = bump_invD(1-3) [OF inv, unfolded fst_conv snd_conv] and dt = bump_invD(4-8) [OF inv, unfolded fst_conv snd_conv]
  have next_cs: "bump_sched t (f, b) = (f(t := pc), b')" using step by (simp add: bump_sched_def)
  show ?thesis
  proof (cases rule: bump_step_cases [OF inv live step, case_names move claim])
    case move
    have pcs: "\<forall>u. bump_pc_ok (lay u) b' ((f(t := pc)) u)"
      using bump_pc_ok_mono [OF dt(4) _ move(2,3)] move(1,4) by simp
    have same: "bump_block ((f(t := pc)) u) = bump_block (f u)" for u using move(5) by simp
    have "\<forall>u v s r. u \<noteq> v \<longrightarrow> bump_block ((f(t := pc)) u) = Some s \<longrightarrow> bump_block ((f(t := pc)) v) = Some r \<longrightarrow>
        apart s (lay_size (lay u)) r (lay_size (lay v))"
      unfolding same using dt(5) by blast
    then show ?thesis unfolding next_cs bump_inv_def using pcs d dt(1,2,3) move(1,2,3) by simp
  next
    case (claim s)
    have grow: "bump_next b \<le> bump_next b'" using claim(1,4) by simp
    have "bump_pc_ok (lay u) b' (f u)" for u using bump_pc_ok_mono [OF dt(4) grow claim(2,3)] .
    then have pcs: "\<forall>u. bump_pc_ok (lay u) b' ((f(t := pc)) u)"
      using claim(1,2,4,5,7) d(2) by simp
    have far: "apart s (lay_size (lay t)) r (lay_size (lay u))" if "bump_block (f u) = Some r" for u r
      using bump_block_bound [OF dt(4) that] claim(4) by (simp add: apart_def)
    then have "\<forall>u v s r. u \<noteq> v \<longrightarrow> bump_block ((f(t := pc)) u) = Some s \<longrightarrow> bump_block ((f(t := pc)) v) = Some r \<longrightarrow>
        apart s (lay_size (lay u)) r (lay_size (lay v))"
      using dt(5) claim(7) by (auto simp: apart_sym)
    then show ?thesis unfolding next_cs bump_inv_def using pcs d dt(1,2,3) claim(1,2,3,4,6) by simp
  qed
qed

lemma bump_run_inv:
  assumes "bump_run n k cs cs'" and "bump_inv lay cs"
  shows "bump_inv lay cs'"
  using assms by (induction rule: bump_run.induct) (metis bump_inv_sched prod.collapse)+

lemma bump_sched_bounds [simp]:
  "bump_start (snd (bump_sched t cs)) = bump_start (snd cs)" "bump_end (snd (bump_sched t cs)) = bump_end (snd cs)"
  by (cases "fst cs t"; auto simp: bump_sched_def Let_def split: option.splits)+

lemma bump_run_bounds:
  assumes "bump_run n k cs cs'"
  shows "bump_start (snd cs') = bump_start (snd cs)" "bump_end (snd cs') = bump_end (snd cs)"
  using assms by (induction rule: bump_run.induct) simp_all

text \<open>A measure that every step lowers, an unsuccessful compare-exchange included.\<close>

fun bump_rank :: "BumpAllocator \<Rightarrow> bump_pc \<Rightarrow> nat" where
  "bump_rank b (BumpLoad l) = 4"
| "bump_rank b (BumpReload l) = 3"
| "bump_rank b (BumpCas l c s e) = (if c = bump_next b then 2 else 4)"
| "bump_rank b (BumpCount s) = 1"
| "bump_rank b _ = 0"

definition bump_measure :: "nat \<Rightarrow> bump_conf \<Rightarrow> nat" where
  "bump_measure n cs = (bump_end (snd cs) - bump_next (snd cs)) * (4 * n + 1) + (\<Sum>t<n. bump_rank (snd cs) (fst cs t))"

lemma bump_rank_le: "bump_rank b pc \<le> 4"
  by (cases "(b, pc)" rule: bump_rank.cases) auto

lemma bump_rank_sum: "(\<Sum>t<n. bump_rank b (f t)) \<le> 4 * n"
  using sum_bounded_above [of "{..<n}" "\<lambda>t. bump_rank b (f t)" 4] bump_rank_le by (simp add: mult.commute)

lemma bump_rank_step:
  assumes "bump_pc_ok l b pc" and "\<not> bump_done pc" and "bump_step pc b = (pc', b')" and "bump_next b' = bump_next b"
  shows "bump_rank b' pc' < bump_rank b pc"
  using assms by (cases pc) (auto simp: bump_done_def Let_def split: option.splits if_splits)

lemma bump_rank_same: "bump_next b' = bump_next b \<Longrightarrow> bump_rank b' pc = bump_rank b pc"
  by (cases pc) auto

lemma bump_measure_step:
  assumes inv: "bump_inv lay (f, b)" and t: "t < n" and live: "\<not> bump_done (f t)"
  shows "bump_measure n (bump_sched t (f, b)) < bump_measure n (f, b)"
proof -
  obtain pc b' where step: "bump_step (f t) b = (pc, b')" by (cases "bump_step (f t) b")
  have next_cs: "bump_sched t (f, b) = (f(t := pc), b')" using step by (simp add: bump_sched_def)
  show ?thesis
  proof (cases rule: bump_step_cases [OF inv live step, case_names move claim])
    case move
    have "bump_pc_ok (lay t) b (f t)" using bump_invD(7) [OF inv, of t] by simp
    from bump_rank_step [OF this live step move(1)]
    have "(\<Sum>u<n. bump_rank b' ((f(t := pc)) u)) < (\<Sum>u<n. bump_rank b (f u))"
      using t bump_rank_same [OF move(1)] by (intro sum_strict_mono_ex1) auto
    then show ?thesis unfolding next_cs bump_measure_def using move(1,3) by simp
  next
    case (claim s)
    have "bump_end b' - bump_next b' + 1 \<le> bump_end b - bump_next b"
      using claim(1,3,4,6) bump_invD(6) [OF inv, of t] by simp
    then have "(bump_end b' - bump_next b' + 1) * (4 * n + 1) \<le> (bump_end b - bump_next b) * (4 * n + 1)"
      by (rule mult_right_mono) simp
    then show ?thesis unfolding next_cs bump_measure_def using bump_rank_sum [of b' "f(t := pc)" n] by simp
  qed
qed

lemma bump_run_measure:
  assumes "bump_run n k cs cs'" and "bump_inv lay cs"
  shows "k + bump_measure n cs' \<le> bump_measure n cs"
  using assms
proof (induction rule: bump_run.induct)
  case (step k cs cs' t)
  then have "bump_inv lay cs'" using bump_run_inv by blast
  then have "bump_measure n (bump_sched t cs') < bump_measure n cs'"
    using bump_measure_step [of lay "fst cs'" "snd cs'"] step by simp
  then show ?case using step by simp
qed simp

lemma bump_run_trans:
  assumes "bump_run n k cs' cs''" and "bump_run n j cs cs'"
  shows "bump_run n (k + j) cs cs''"
  using assms by (induction rule: bump_run.induct) (auto intro: bump_run.step)

lemma bump_run_finishes:
  assumes "bump_inv lay cs"
  shows "\<exists>j cs'. bump_run n j cs cs' \<and> (\<forall>t < n. bump_done (fst cs' t))"
  using assms
proof (induction "bump_measure n cs" arbitrary: cs rule: less_induct)
  case less
  show ?case
  proof (cases "\<forall>t < n. bump_done (fst cs t)")
    case True
    then show ?thesis using bump_run.start by blast
  next
    case False
    then obtain t where t: "t < n" "\<not> bump_done (fst cs t)" by blast
    obtain f b where cs: "cs = (f, b)" by (cases cs)
    from less.hyps [of "bump_sched t cs"] bump_measure_step [of lay f b t n] bump_inv_sched [of lay f b t] less.prems t cs
    obtain j cs' where "bump_run n j (bump_sched t cs) cs'" "\<forall>t < n. bump_done (fst cs' t)" by auto
    with bump_run_trans [OF _ bump_run.step [OF bump_run.start t]] show ?thesis by blast
  qed
qed

text \<open>A given interleaving, run.\<close>

fun bump_play :: "nat \<Rightarrow> nat list \<Rightarrow> bump_conf \<Rightarrow> bump_conf option" where
  "bump_play n [] cs = Some cs"
| "bump_play n (t # ts) cs = (if t < n \<and> \<not> bump_done (fst cs t) then bump_play n ts (bump_sched t cs) else None)"

lemma bump_play_run: "bump_play n ts cs = Some cs' \<Longrightarrow> length ts = k \<Longrightarrow> bump_run n k cs cs'"
proof (induction n ts cs arbitrary: k rule: bump_play.induct)
  case (2 n t ts cs)
  then have "bump_run n (length ts) (bump_sched t cs) cs'" "bump_run n 1 cs (bump_sched t cs)"
    using bump_run.step [OF bump_run.start] by (auto split: if_splits)
  from bump_run_trans [OF this] show ?case using 2(3) by simp
qed (simp add: bump_run.start)

lemmas bump_play_simps = bump_sched_def bump_done_def bump_room_def bump_init_def BumpAllocator_new_def align_up_def
  usize_checked_add_def non_null_def no_wrap Let_def

lemma bump_inv_start:
  assumes "0 < bump_start b" "bump_start b \<le> bump_next b" "bump_next b \<le> bump_end b"
    and "\<And>t. bump_end b + lay_align (lay t) < USIZE_MOD \<and> 0 < lay_align (lay t) \<and> 0 < lay_size (lay t)"
  shows "bump_inv lay (\<lambda>t. BumpLoad (lay t), b)"
  using assms by (simp add: bump_inv_def)

text \<open>
  Concurrent allocations are separate. Whatever the interleaving of the atomic accesses of
  any number of processors that allocate from the bump region, the blocks they hold are
  aligned, lie inside the region, above the bump pointer they started from, and do not overlap.
\<close>

theorem bump_concurrent_safe:
  assumes b: "0 < bump_start b" "bump_start b \<le> bump_next b" "bump_next b \<le> bump_end b"
    and lay: "\<And>t. bump_end b + lay_align (lay t) < USIZE_MOD \<and> 0 < lay_align (lay t) \<and> 0 < lay_size (lay t)"
    and run: "bump_run n k (\<lambda>t. BumpLoad (lay t), b) (f, b')" and tu: "t \<noteq> u"
    and s: "bump_block (f t) = Some s" and r: "bump_block (f u) = Some r"
  shows "lay_align (lay t) dvd s \<and> bump_start b \<le> s \<and> s + lay_size (lay t) \<le> bump_end b \<and>
    apart s (lay_size (lay t)) r (lay_size (lay u))"
proof -
  have inv: "bump_inv lay (f, b')" using bump_run_inv [OF run bump_inv_start [OF b lay]] .
  note bounds = bump_run_bounds [OF run, unfolded snd_conv]
  have "lay_align (lay t) dvd s \<and> bump_start b' \<le> s \<and> s + lay_size (lay t) \<le> bump_next b'"
    using bump_invD(7) [OF inv, of t] s by (cases "f t") auto
  then show ?thesis using bump_invD(3) [OF inv] bump_invD(8) [OF inv tu, of s r] s r bounds by simp
qed

theorem bump_concurrent_safe_witness:
  "\<exists>f b'. bump_run 2 10 (\<lambda>t. BumpLoad \<lparr>lay_size = 100, lay_align = 8\<rparr>, bump_init 4096 1000 BumpAllocator_new) (f, b') \<and>
     bump_block (f 0) = Some 4200 \<and> bump_block (f 1) = Some 4096 \<and> apart 4200 100 4096 100"
proof -
  let ?l = "\<lparr>lay_size = 100, lay_align = 8\<rparr>" and ?b = "bump_init 4096 1000 BumpAllocator_new"
  obtain f b' where play: "bump_play 2 [0, 1, 0, 1, 1, 0, 0, 0, 0, 1] (\<lambda>t. BumpLoad ?l, ?b) = Some (f, b')"
    and f: "f 0 = BumpRet (Some 4200)" "f 1 = BumpRet (Some 4096)"
    by (simp add: bump_play_simps)
  have run: "bump_run 2 10 (\<lambda>t. BumpLoad ?l, ?b) (f, b')" using bump_play_run [OF play, of 10] by simp
  have "apart 4200 100 4096 100"
    using bump_concurrent_safe [OF _ _ _ _ run, of 0 1 4200 4096] f by (simp add: bump_init_def BumpAllocator_new_def no_wrap)
  with run f show ?thesis by auto
qed

text \<open>
  C21. The compare-exchange loop ends. Any number of processors that allocate from the bump
  region take together a bounded number of steps, whatever the interleaving, unsuccessful
  compare-exchanges included: at most four per processor for every byte of room, and four
  more. A processor that has not returned can always take a step, so all calls return.
\<close>

theorem bump_concurrent_ends:
  assumes b: "0 < bump_start b" "bump_start b \<le> bump_next b" "bump_next b \<le> bump_end b"
    and lay: "\<And>t. bump_end b + lay_align (lay t) < USIZE_MOD \<and> 0 < lay_align (lay t) \<and> 0 < lay_size (lay t)"
    and run: "bump_run n k (\<lambda>t. BumpLoad (lay t), b) cs"
  shows "k \<le> (bump_end b - bump_next b) * (4 * n + 1) + 4 * n \<and>
    (\<exists>j cs'. bump_run n j cs cs' \<and> (\<forall>t < n. bump_done (fst cs' t)))"
proof -
  note inv = bump_inv_start [OF b lay]
  show ?thesis
    using bump_run_measure [OF run inv] bump_run_finishes [OF bump_run_inv [OF run inv]] by (simp add: bump_measure_def)
qed

theorem bump_concurrent_ends_witness:
  "\<exists>j cs'. bump_run 2 j (\<lambda>t. BumpLoad \<lparr>lay_size = 100, lay_align = 8\<rparr>, bump_init 4096 1000 BumpAllocator_new) cs' \<and>
     (\<forall>t < 2. bump_done (fst cs' t))"
  using bump_concurrent_ends [of "bump_init 4096 1000 BumpAllocator_new" "\<lambda>_. \<lparr>lay_size = 100, lay_align = 8\<rparr>", OF _ _ _ _ bump_run.start]
  by (simp add: bump_init_def BumpAllocator_new_def no_wrap)

section \<open>A release that races with an allocation\<close>

text \<open>
  The reset of a release gives out memory in use. One block of \<open>m\<close> bytes is in use.
  Processor 0 has moved the bump pointer for its block but not yet counted it, processor 1
  releases the first block, finds the counter at one and resets the bump pointer, and the next
  allocation, by processor 2, returns a block that overlaps the block of processor 0.
\<close>

theorem bump_reset_race:
  assumes "0 < a" and "8 dvd a" and "8 dvd m" and "0 < n" and "m < n'"
    and "a + m + n \<le> e" and "a + n' \<le> e" and "e + 8 < USIZE_MOD"
  shows "\<exists>f b'. bump_run 3 10
      ((\<lambda>_. BumpFreed)(0 := BumpLoad \<lparr>lay_size = n, lay_align = 8\<rparr>, 1 := BumpFree, 2 := BumpLoad \<lparr>lay_size = n', lay_align = 8\<rparr>),
       \<lparr>bump_start = a, bump_end = e, bump_next = a + m, bump_count = 1\<rparr>) (f, b') \<and>
    f 0 = BumpRet (Some (a + m)) \<and> f 2 = BumpRet (Some a) \<and> \<not> apart (a + m) n a n'"
proof -
  have "align_up a 8 = a" "align_up (a + m) 8 = a + m" using assms by (simp_all add: align_up_aligned)
  then obtain f b' where play: "bump_play 3 [0, 0, 0, 1, 1, 0, 2, 2, 2, 2]
      ((\<lambda>_. BumpFreed)(0 := BumpLoad \<lparr>lay_size = n, lay_align = 8\<rparr>, 1 := BumpFree, 2 := BumpLoad \<lparr>lay_size = n', lay_align = 8\<rparr>),
       \<lparr>bump_start = a, bump_end = e, bump_next = a + m, bump_count = 1\<rparr>) = Some (f, b')"
    and f: "f 0 = BumpRet (Some (a + m))" "f 2 = BumpRet (Some a)"
    using assms by (simp add: bump_play_simps)
  have "\<not> apart (a + m) n a n'" using assms by (simp add: apart_def)
  then show ?thesis using bump_play_run [OF play, of 10] f by auto
qed

theorem bump_reset_race_witness:
  "\<exists>f b'. bump_run 3 10
      ((\<lambda>_. BumpFreed)(0 := BumpLoad \<lparr>lay_size = 64, lay_align = 8\<rparr>, 1 := BumpFree, 2 := BumpLoad \<lparr>lay_size = 256, lay_align = 8\<rparr>),
       \<lparr>bump_start = 4096, bump_end = 8192, bump_next = 4096 + 128, bump_count = 1\<rparr>) (f, b') \<and>
    f 0 = BumpRet (Some (4096 + 128)) \<and> f 2 = BumpRet (Some 4096)"
  using bump_reset_race [of 4096 128 64 256 8192] by auto

section \<open>Faults of single calls\<close>

text \<open>A request the pools do not serve goes to the bump region.\<close>

lemma heap_alloc_bump:
  assumes "hp_initialized h" and "MAX_POOL_SIZE < lay_size l \<or> MIN_ALIGNMENT < lay_align l"
    and "bump_branch env l h = (Some p, h')"
  shows "heap_alloc env weak l h = Some (p, h')"
  using assms by (auto simp: heap_alloc_def alloc_with_retry.simps pool_branch_def Let_def)

lemma heap_dealloc_big: "MAX_POOL_SIZE < lay_size l \<Longrightarrow> \<exists>h'. heap_dealloc env weak p l h = Some h'"
  by (simp add: heap_dealloc_def Let_def)

lemma bump_branch_fits:
  assumes hook: "hook_ok env" and al: "align = max (lay_align l) MIN_ALIGNMENT" and pad: "max_padding align = 0"
    and a: "0 < bump_next (hp_bump h)" "8 dvd bump_next (hp_bump h)"
    and fit: "bump_next (hp_bump h) + 24 + lay_size l \<le> bump_end (hp_bump h)" "bump_end (hp_bump h) < 2 ^ 62"
    and up: "align_up (bump_next (hp_bump h) + 24) align = p" "24 \<le> p" "p < USIZE_MOD"
  shows "\<exists>h'. bump_branch env l h = (Some p, h') \<and> hp_initialized h' = hp_initialized h \<and>
    bump_next (hp_bump h') = bump_next (hp_bump h) + 24 + lay_size l \<and> bump_end (hp_bump h') = bump_end (hp_bump h) \<and>
    hp_bytes h' = write_bytes (p - 24) (header_bytes (24 + lay_size l) align) (hp_bytes h)"
proof -
  have total: "usize_add (usize_add 24 0) (lay_size l) = 24 + lay_size l" using fit by (simp add: no_wrap)
  have lay: "layout_8 (24 + lay_size l) = Some \<lparr>lay_size = 24 + lay_size l, lay_align = 8\<rparr>" using fit by (simp add: layout_8_def)
  have bump: "bump_allocate \<lparr>lay_size = 24 + lay_size l, lay_align = 8\<rparr> (hp_bump h) = (Some (bump_next (hp_bump h)),
      (hp_bump h)\<lparr>bump_next := bump_next (hp_bump h) + 24 + lay_size l, bump_count := usize_add (bump_count (hp_bump h)) 1\<rparr>)"
    using a fit by (simp add: bump_allocate_def Let_def align_up_aligned usize_checked_add_def non_null_def)
  have "usize_add (bump_next (hp_bump h)) 24 = bump_next (hp_bump h) + 24" "usize_sub p 24 = p - 24"
    using fit up(2,3) by (simp_all add: no_wrap)
  then show ?thesis
    unfolding bump_branch_def HEADER_SIZE_def al [symmetric] Let_def pad total lay
    using bump up by (simp add: call_hook_same [OF hook])
qed

text \<open>
  The padding for large alignments is too small. A block of \<open>n\<close> bytes aligned to 16
  is placed 8 bytes further than the memory reserved for it, so that the header of the next
  block overwrites its last 8 bytes with the size of that block.
\<close>

theorem overaligned_block_overwritten:
  assumes h: "hp_initialized h" and hook: "hook_ok env"
    and a: "bump_next (hp_bump h) = a" "0 < a" "16 dvd a" and n: "8 dvd n" "0 < n" and m: "MAX_POOL_SIZE < m"
    and fit: "a + 48 + n + m \<le> bump_end (hp_bump h)" "bump_end (hp_bump h) < 2 ^ 62"
  shows "\<exists>h1 h2. heap_alloc env weak \<lparr>lay_size = n, lay_align = 16\<rparr> h = Some (a + 32, h1) \<and>
    heap_alloc env weak \<lparr>lay_size = m, lay_align = 8\<rparr> h1 = Some (a + 48 + n, h2) \<and>
    (\<forall>i < 8. hp_bytes h2 (a + 32 + (n - 8 + i)) = le_bytes 8 (24 + m) ! i)"
proof -
  have a8: "8 dvd a" using a(3) by (rule dvd_trans [rotated]) simp
  have "(a + 24) mod 16 = 8" using a(3) by (auto elim!: dvdE)
  then have up: "align_up (a + 24) 16 = a + 32" using fit by (simp add: align_up_def Let_def no_wrap)
  obtain h1 where h1: "bump_branch env \<lparr>lay_size = n, lay_align = 16\<rparr> h = (Some (a + 32), h1)" "hp_initialized h1"
      "bump_next (hp_bump h1) = a + 24 + n" "bump_end (hp_bump h1) = bump_end (hp_bump h)"
    using bump_branch_fits [OF hook, of 16 "\<lparr>lay_size = n, lay_align = 16\<rparr>" h "a + 32"] a a8 fit up h
    by (auto simp: MIN_ALIGNMENT_def max_padding_def HEADER_SIZE_def)
  have next8: "8 dvd a + 24 + n" "8 dvd a + 24 + n + 24" using a8 n(1) by simp_all
  obtain h2 where h2: "bump_branch env \<lparr>lay_size = m, lay_align = 8\<rparr> h1 = (Some (a + 48 + n), h2)"
      "hp_bytes h2 = write_bytes (a + 24 + n) (header_bytes (24 + m) 8) (hp_bytes h1)"
    using bump_branch_fits [OF hook, of 8 "\<lparr>lay_size = m, lay_align = 8\<rparr>" h1 "a + 48 + n"] h1(3,4) a(2) fit next8
      align_up_aligned [OF next8(2)]
    by (auto simp: MIN_ALIGNMENT_def max_padding_def HEADER_SIZE_def ac_simps)
  have "8 \<le> n" using n by (auto elim!: dvdE)
  then have "hp_bytes h2 (a + 32 + (n - 8 + i)) = le_bytes 8 (24 + m) ! i" if "i < 8" for i
  proof -
    have "a + 32 + (n - 8 + i) = a + 24 + n + i" using \<open>8 \<le> n\<close> by simp
    then show ?thesis using that by (simp add: h2(2) write_bytes_def header_bytes_def le_bytes_def nth_append)
  qed
  then show ?thesis
    using heap_alloc_bump [OF h _ h1(1)] heap_alloc_bump [OF h1(2) _ h2(1)] m by (auto simp: MIN_ALIGNMENT_def)
qed

theorem overaligned_block_overwritten_witness:
  "\<exists>h h1 h2. heap_init (map demo_bases all_sizes) 0x800000 0x100000 HeapAllocator_new = Some h \<and>
     heap_alloc builtin_env (\<lambda>_. True) \<lparr>lay_size = 64, lay_align = 16\<rparr> h = Some (0x800000 + 32, h1) \<and>
     heap_alloc builtin_env (\<lambda>_. True) \<lparr>lay_size = 5000, lay_align = 8\<rparr> h1 = Some (0x800000 + 48 + 64, h2)"
proof -
  obtain h where h: "heap_init (map demo_bases all_sizes) 0x800000 0x100000 HeapAllocator_new = Some h"
    "heap_ok demo_bases h (\<lambda>_. {}) {}" "hp_bump h = bump_init 0x800000 0x100000 BumpAllocator_new" by (rule demo_heap)
  from overaligned_block_overwritten [OF heap_okD(1) [OF h(2)] builtin_env_ok(1), of "0x800000" 64 5000 "\<lambda>_. True"] h(1,3)
  show ?thesis by (auto simp: MAX_POOL_SIZE_def bump_init_def BumpAllocator_new_def no_wrap)
qed

text \<open>
  A small block of the bump region is released to the pools. When the pool of a size class
  is exhausted, small requests are served from the bump region, but their release pushes the
  block on the free list of that class. The next request of the class returns the block with
  the class's size, which is larger than the block, so that it reaches into the next block of
  the bump region; and the counter of the bump region never drops.
\<close>

theorem small_bump_block_reused:
  assumes ok: "heap_ok bases h U B" and hook: "hook_ok env" and weak: "\<exists>k < MAX_RETRIES. weak k"
    and p: "(p, s) \<in> B" "for_size s = Some bs" and q: "(p + s + HEADER_SIZE, t) \<in> B" "0 < t" "s + HEADER_SIZE < block_bytes bs"
  shows "\<exists>h1 h2. heap_dealloc env weak p \<lparr>lay_size = s, lay_align = 8\<rparr> h = Some h1 \<and>
    bump_count (hp_bump h1) = bump_count (hp_bump h) \<and>
    heap_alloc env weak \<lparr>lay_size = block_bytes bs, lay_align = 8\<rparr> h1 = Some (p, h2) \<and>
    \<not> apart p (block_bytes bs) (p + s + HEADER_SIZE) t"
proof -
  note d = heap_okD [OF ok] and pool = pools_okD [OF heap_okD(2) [OF ok], of bs]
  define h0 where "h0 = call_hook env (EvDealloc p s) h"
  note same = call_hook_same [OF hook, of "EvDealloc p s" h, folded h0_def]
  let ?pool = "pools (hp_pools h) ! block_index bs"
  let ?pool' = "pool_deallocate weak p ?pool"
  have push: "free_list ?pool' = p" by (simp add: pool_deallocate_def deallocate_loop_eq [OF weak] try_push_def)
  have len: "block_index bs < length (pools (hp_pools h))" using d(2) block_index_less by (simp add: pools_ok_def)
  let ?ps = "(hp_pools h)\<lparr>pools := (pools (hp_pools h))[block_index bs := ?pool'],
    total_deallocations := usize_add (total_deallocations (hp_pools h)) 1\<rparr>"
  let ?h1 = "h0\<lparr>hp_pools := ?ps, hp_pool_deallocations := usize_add (hp_pool_deallocations h0) 1\<rparr>"
  have "p \<noteq> 0" using bump_okD(8) [OF d(3) p(1)] by (auto simp: HEADER_SIZE_def)
  have "s \<le> MAX_POOL_SIZE" using for_size_fits [OF p(2)] block_bytes_le [of bs] by simp
  then have free: "heap_dealloc env weak p \<lparr>lay_size = s, lay_align = 8\<rparr> h = Some ?h1"
    using \<open>p \<noteq> 0\<close> d(1) p(2) pool(1) by (simp add: heap_dealloc_def Let_def h0_def [symmetric] same pools_deallocate_def)
  have "for_size (block_bytes bs) = Some bs" by (cases bs) (simp_all add: for_size_def)
  moreover have "fst (pool_allocate weak ?pool') = Some p"
    using push \<open>p \<noteq> 0\<close> by (simp add: pool_allocate_def allocate_loop_eq [OF weak])
  ultimately have "\<exists>h2. heap_alloc env weak \<lparr>lay_size = block_bytes bs, lay_align = 8\<rparr> ?h1 = Some (p, h2)"
    using d(1) len block_bytes_le [of bs]
    by (auto simp: heap_alloc_def alloc_with_retry.simps pool_branch_def MIN_ALIGNMENT_def Let_def same pools_allocate_def arr_get_def
        split: prod.splits)
  then show ?thesis using free same q by (auto simp: apart_def)
qed

theorem small_bump_block_reused_witness:
  "\<exists>h h1 h2. heap_ok demo_bases h (\<lambda>_. {}) {(0x800018, 33), (0x800018 + 33 + HEADER_SIZE, 100)} \<and>
     heap_dealloc builtin_env (\<lambda>_. True) 0x800018 \<lparr>lay_size = 33, lay_align = 8\<rparr> h = Some h1 \<and>
     heap_alloc builtin_env (\<lambda>_. True) \<lparr>lay_size = block_bytes B64, lay_align = 8\<rparr> h1 = Some (0x800018, h2)"
proof -
  obtain h where h: "heap_ok demo_bases h (\<lambda>_. {}) {}" "hp_bump h = bump_init 0x800000 0x100000 BumpAllocator_new" by (rule demo_heap)
  let ?B = "{(0x800018, 33), (0x800018 + 33 + HEADER_SIZE, 100)} :: (nat \<times> nat) set"
  let ?h = "h\<lparr>hp_bump := (hp_bump h)\<lparr>bump_next := 0x801000, bump_count := 2\<rparr>\<rparr>"
  have ok: "heap_ok demo_bases ?h (\<lambda>_. {}) ?B"
    using h by (simp add: heap_ok_def bump_ok_def regions_ok_def bump_init_def BumpAllocator_new_def HEADER_SIZE_def apart_def no_wrap)
  from small_bump_block_reused [OF ok builtin_env_ok(1), where weak = "\<lambda>_. True" and p = "0x800018" and s = 33 and bs = B64 and t = 100]
    some_retry ok
  show ?thesis by (auto simp: for_size_def HEADER_SIZE_def)
qed

section \<open>The profile of a reallocation\<close>

text \<open>\<open>profiled h\<close>: the heap is initialised, and the built-in profiler is installed and enabled.\<close>

definition profiled :: "Heap \<Rightarrow> bool" where
  "profiled h \<longleftrightarrow> hp_initialized h \<and> hp_profiling h \<and> hp_hook_set h"

lemma call_hook_profile:
  assumes "profiled h"
  shows "hp_profile (call_hook builtin_env ev h) = builtin_profiler ev (hp_profile h)" "profiled (call_hook builtin_env ev h)"
  using assms by (simp_all add: call_hook_def builtin_env_def profiled_def)

lemma profiled_update [simp]:
  "profiled (h\<lparr>hp_bump := b\<rparr>) = profiled h" "profiled (h\<lparr>hp_pools := ps\<rparr>) = profiled h" "profiled (h\<lparr>hp_bytes := m\<rparr>) = profiled h"
  "profiled (h\<lparr>hp_bump_allocations := n\<rparr>) = profiled h" "profiled (h\<lparr>hp_pool_allocations := n\<rparr>) = profiled h"
  by (simp_all add: profiled_def)

lemma pool_branch_profile:
  assumes "profiled h" and "pool_branch builtin_env weak l h = Some (r, h')"
  shows "profiled h'" "r = None \<Longrightarrow> hp_profile h' = hp_profile h"
    "r = Some p \<Longrightarrow> hp_profile h' = builtin_profiler (EvAlloc (lay_size l) (max (lay_align l) MIN_ALIGNMENT) p True) (hp_profile h)"
  using assms by (auto simp: pool_branch_def Let_def call_hook_profile bind_eq_Some_conv split: if_splits option.splits)

lemma bump_branch_profile:
  assumes "profiled h" and "bump_branch builtin_env l h = (Some p, h')"
  shows "profiled h'" "hp_profile h' = builtin_profiler (EvAlloc (lay_size l) (max (lay_align l) MIN_ALIGNMENT) p False) (hp_profile h)"
  using assms by (auto simp: bump_branch_def Let_def call_hook_profile split: prod.splits option.splits)

lemma heap_alloc_profile:
  assumes prof: "profiled h" and run: "heap_alloc builtin_env weak l h = Some (p, h')" and "p \<noteq> 0"
  shows "profiled h' \<and>
    (\<exists>pool. hp_profile h' = builtin_profiler (EvAlloc (lay_size l) (max (lay_align l) MIN_ALIGNMENT) p pool) (hp_profile h))"
proof -
  have init: "hp_initialized h" using prof by (simp add: profiled_def)
  obtain r h1 where pool: "pool_branch builtin_env weak l h = Some (r, h1)"
    using run init by (auto simp: heap_alloc_def alloc_with_retry.simps bind_eq_Some_conv)
  note pb = pool_branch_profile [OF prof pool]
  show ?thesis
  proof (cases r)
    case None
    obtain r2 h2 where bump: "bump_branch builtin_env l h1 = (r2, h2)" by (cases "bump_branch builtin_env l h1")
    have "r2 = Some p \<and> h2 = h'"
      using run init pool None bump \<open>p \<noteq> 0\<close>
      by (auto simp: heap_alloc_def alloc_with_retry.simps builtin_env_def default_oom_handler_def split: option.splits)
    then show ?thesis using bump_branch_profile [OF pb(1), of l p h'] bump pb(2) None by (intro conjI exI [of _ False]) auto
  next
    case (Some x)
    then have "x = p" "h1 = h'" using run init pool by (auto simp: heap_alloc_def alloc_with_retry.simps)
    then show ?thesis using pb(1,3) Some by blast
  qed
qed

lemma heap_dealloc_profile:
  assumes "profiled h" and "heap_dealloc builtin_env weak p l h = Some h'" and "p \<noteq> 0"
  shows "hp_profile h' = builtin_profiler (EvDealloc p (lay_size l)) (hp_profile h)"
  using assms by (auto simp: heap_dealloc_def Let_def call_hook_profile bind_eq_Some_conv profiled_def split: option.splits if_splits)

text \<open>
  The profiler counts a reallocation twice. With the built-in profiler enabled, a
  reallocation that enlarges a block reports the allocation of the new block, the growth, and
  the release of the old block, so that the bytes in use rise by twice the growth.
\<close>

theorem realloc_profile_drift:
  assumes prof: "hp_initialized h" "hp_profiling h" "hp_hook_set h" and p: "p \<noteq> 0"
    and run: "heap_realloc builtin_env weak p l n h = Some (q, h')" "q \<noteq> 0"
    and n: "lay_size l < n" "prof_current (hp_profile h) + 2 * n < USIZE_MOD"
  shows "prof_current (hp_profile h') = prof_current (hp_profile h) + 2 * (n - lay_size l)"
proof -
  let ?l = "\<lparr>lay_size = n, lay_align = lay_align l\<rparr>"
  have prof': "profiled h" using prof by (simp add: profiled_def)
  obtain h1 where h1: "heap_alloc builtin_env weak ?l h = Some (q, h1)" using run p
    by (auto simp: heap_realloc_def bind_eq_Some_conv Let_def split: if_splits)
  define h2 where "h2 = h1\<lparr>hp_bytes := write_bytes q (map (\<lambda>i. hp_bytes h1 (p + i)) [0..<min (lay_size l) n]) (hp_bytes h1)\<rparr>"
  define h3 where "h3 = call_hook builtin_env (EvRealloc p (lay_size l) q n) h2"
  have h': "heap_dealloc builtin_env weak p l h3 = Some h'"
    using run p h1 by (auto simp: heap_realloc_def Let_def h2_def h3_def)
  obtain pool where alloc: "profiled h1" "hp_profile h1 = builtin_profiler (EvAlloc n (max (lay_align l) MIN_ALIGNMENT) q pool) (hp_profile h)"
    using heap_alloc_profile [OF prof' h1 run(2)] by auto
  have h3: "profiled h3" "hp_profile h3 = builtin_profiler (EvRealloc p (lay_size l) q n) (hp_profile h1)"
    using call_hook_profile [of h2] alloc(1) by (simp_all add: h3_def h2_def)
  have c1: "prof_current (hp_profile h1) = prof_current (hp_profile h) + n"
    using n by (simp add: alloc(2) prof_grow_def Let_def no_wrap)
  have c3: "prof_current (hp_profile h3) = prof_current (hp_profile h) + n + (n - lay_size l)"
    using n by (simp add: h3(2) prof_grow_def Let_def c1 no_wrap)
  show ?thesis
    using n by (simp add: heap_dealloc_profile [OF h3(1) h' p] prof_shrink_def c3 no_wrap)
qed

theorem realloc_profile_drift_witness:
  "\<exists>h q h'. prof_current (hp_profile h) = 5000 \<and>
     heap_realloc builtin_env (\<lambda>_. True) 0x800018 \<lparr>lay_size = 5000, lay_align = 8\<rparr> 9000 h = Some (q, h') \<and>
     prof_current (hp_profile h') = 13000"
proof -
  obtain h where h: "heap_ok demo_bases h (\<lambda>_. {}) {}" "hp_bump h = bump_init 0x800000 0x100000 BumpAllocator_new" by (rule demo_heap)
  let ?h = "h\<lparr>hp_bump := (hp_bump h)\<lparr>bump_next := 0x8013a0, bump_count := 1\<rparr>, hp_profiling := True, hp_hook_set := True,
    hp_profile := (hp_profile h)\<lparr>prof_current := 5000\<rparr>\<rparr>"
  let ?l = "\<lparr>lay_size = 5000, lay_align = 8\<rparr>" and ?q = "0x8013a0 + 24 :: nat"
  have init: "hp_initialized ?h" using heap_okD(1) [OF h(1)] by simp
  obtain h1 where h1: "bump_branch builtin_env \<lparr>lay_size = 9000, lay_align = 8\<rparr> ?h = (Some ?q, h1)"
    using bump_branch_fits [OF builtin_env_ok(1), of 8 "\<lparr>lay_size = 9000, lay_align = 8\<rparr>" ?h ?q] h(2)
    by (auto simp: MIN_ALIGNMENT_def max_padding_def HEADER_SIZE_def bump_init_def BumpAllocator_new_def no_wrap align_up_def)
  have "heap_alloc builtin_env (\<lambda>_. True) \<lparr>lay_size = 9000, lay_align = 8\<rparr> ?h = Some (?q, h1)"
    by (rule heap_alloc_bump [OF init _ h1]) (simp add: MAX_POOL_SIZE_def)
  then obtain h' where run: "heap_realloc builtin_env (\<lambda>_. True) 0x800018 ?l 9000 ?h = Some (?q, h')"
    using heap_dealloc_big [of ?l builtin_env "\<lambda>_. True" "0x800018"] by (simp add: heap_realloc_def MAX_POOL_SIZE_def Let_def) blast
  have "prof_current (hp_profile h') = 13000"
    using realloc_profile_drift [OF init _ _ _ run] by simp
  with run show ?thesis by (intro exI [of _ ?h] exI [of _ ?q] exI [of _ h']) simp
qed

end
