(* ===== verification/Rt.thy ===== *)
theory Rt
  imports Scheduler Complex_Main
begin

text \<open>
  The real-time support of the kernel, \<open>mielin-kernel/src/rt.rs\<close>: the mutex with priority
  inheritance, the priority ceiling mutex, and the earliest deadline first scheduler.

  The two mutexes are used by several tasks at once; a call is a sequence of steps, one for each
  atomic access, each lock of the waiter list and each call into the scheduler. The utilisation
  of the deadline scheduler is an exact rational, with \<open>None\<close> for the floating point value
  that is not a number, which additions propagate and comparisons refuse.
\<close>

abbreviation NO_OWNER :: nat where
  "NO_OWNER \<equiv> USIZE_MOD - 1"

section \<open>Priority inheritance\<close>

record RtMutex =
  rt_id :: nat
  rt_owner :: nat
  rt_original :: u8
  rt_boosted :: u8
  rt_locked :: bool
  rt_waiters_count :: nat
  rt_waiters :: "(nat \<times> u8) list"
  rt_lock_count :: u64
  rt_unlock_count :: u64
  rt_inversions :: u64

definition RtMutex_new :: "nat \<Rightarrow> RtMutex" where
  "RtMutex_new i = \<lparr>rt_id = i, rt_owner = NO_OWNER, rt_original = 0, rt_boosted = 0, rt_locked = False, rt_waiters_count = 0,
     rt_waiters = [], rt_lock_count = 0, rt_unlock_count = 0, rt_inversions = 0\<rparr>"

text \<open>
  Where a task is: outside, in a step of \<open>lock\<close> (\<open>Rl\<close>) or \<open>unlock\<close> (\<open>Ru\<close>), back from a
  successful \<open>lock\<close>, or back from a \<open>lock\<close> that failed after it had taken the mutex.
\<close>

datatype rt_pc =
    RtOut "KernelError option"
  | RtIn
  | RtLeak KernelError
  | RlTry | RlOwn | RlCount | RlPrio | RlSetOrig u8 | RlSetBoost u8
  | RlWaitPrio | RlPush u8 | RlWaitCount u8 | RlOwner u8 | RlBoostLoad u8 nat | RlBoostStore u8 nat | RlBoostTask u8 nat | RlInversion u8
  | RlSpin u8 | RlOwn2 u8 | RlCount2 u8 | RlRetain u8 | RlWaitSub u8
  | RuOwner | RuOrig | RuBoosted u8 | RuRestore u8 | RuNext | RuClear u8 | RuRelease u8 | RuCount u8 | RuZero u8 | RuSetBoost u8

type_synonym rt_world = "RtMutex \<times> scheduler_state"

definition waiters_max :: "(nat \<times> u8) list \<Rightarrow> u8" where
  "waiters_max ws = fold max (map snd ws) 0"

fun rt_lock_step :: "nat \<Rightarrow> rt_pc \<Rightarrow> rt_world \<Rightarrow> rt_pc \<times> rt_world" where
  "rt_lock_step t RlTry (m, g) = (if \<not> rt_locked m then (RlOwn, m\<lparr>rt_locked := True\<rparr>, g) else (RlWaitPrio, m, g))"
| "rt_lock_step t RlOwn (m, g) = (RlCount, m\<lparr>rt_owner := t\<rparr>, g)"
| "rt_lock_step t RlCount (m, g) = (RlPrio, m\<lparr>rt_lock_count := rt_lock_count m + 1\<rparr>, g)"
| "rt_lock_step t RlPrio (m, g) = (case g_get_task_priority g t of Inl e \<Rightarrow> (RtLeak e, m, g) | Inr p \<Rightarrow> (RlSetOrig p, m, g))"
| "rt_lock_step t (RlSetOrig p) (m, g) = (RlSetBoost p, m\<lparr>rt_original := p\<rparr>, g)"
| "rt_lock_step t (RlSetBoost p) (m, g) = (RtIn, m\<lparr>rt_boosted := p\<rparr>, g)"
| "rt_lock_step t RlWaitPrio (m, g) = (case g_get_task_priority g t of Inl e \<Rightarrow> (RtOut (Some e), m, g) | Inr p \<Rightarrow> (RlPush p, m, g))"
| "rt_lock_step t (RlPush p) (m, g) = (RlWaitCount p, m\<lparr>rt_waiters := rt_waiters m @ [(t, p)]\<rparr>, g)"
| "rt_lock_step t (RlWaitCount p) (m, g) = (RlOwner p, m\<lparr>rt_waiters_count := usize_add (rt_waiters_count m) 1\<rparr>, g)"
| "rt_lock_step t (RlOwner p) (m, g) = (if rt_owner m \<noteq> NO_OWNER then RlBoostLoad p (rt_owner m) else RlSpin p, m, g)"
| "rt_lock_step t (RlBoostLoad p owner) (m, g) = (if p > rt_boosted m then RlBoostStore p owner else RlSpin p, m, g)"
| "rt_lock_step t (RlBoostStore p owner) (m, g) = (RlBoostTask p owner, m\<lparr>rt_boosted := p\<rparr>, g)"
| "rt_lock_step t (RlBoostTask p owner) (m, g) =
     (case g_set_task_priority g owner p of (Inl e, g') \<Rightarrow> (RtOut (Some e), m, g') | (Inr _, g') \<Rightarrow> (RlInversion p, m, g'))"
| "rt_lock_step t (RlInversion p) (m, g) = (RlSpin p, m\<lparr>rt_inversions := rt_inversions m + 1\<rparr>, g)"
| "rt_lock_step t (RlSpin p) (m, g) = (if \<not> rt_locked m then (RlOwn2 p, m\<lparr>rt_locked := True\<rparr>, g) else (RlSpin p, m, g))"
| "rt_lock_step t (RlOwn2 p) (m, g) = (RlCount2 p, m\<lparr>rt_owner := t\<rparr>, g)"
| "rt_lock_step t (RlCount2 p) (m, g) = (RlRetain p, m\<lparr>rt_lock_count := rt_lock_count m + 1\<rparr>, g)"
| "rt_lock_step t (RlRetain p) (m, g) = (RlWaitSub p, m\<lparr>rt_waiters := filter (\<lambda>(i, _). i \<noteq> t) (rt_waiters m)\<rparr>, g)"
| "rt_lock_step t (RlWaitSub p) (m, g) = (RlSetOrig p, m\<lparr>rt_waiters_count := usize_sub (rt_waiters_count m) 1\<rparr>, g)"
| "rt_lock_step t pc w = (pc, w)"

fun rt_unlock_step :: "nat \<Rightarrow> rt_pc \<Rightarrow> rt_world \<Rightarrow> rt_pc \<times> rt_world" where
  "rt_unlock_step t RuOwner (m, g) = (if rt_owner m \<noteq> t then (RtOut (Some (TaskNotFound t)), m, g) else (RuOrig, m, g))"
| "rt_unlock_step t RuOrig (m, g) = (RuBoosted (rt_original m), m, g)"
| "rt_unlock_step t (RuBoosted original) (m, g) = (if rt_boosted m > original then RuRestore original else RuNext, m, g)"
| "rt_unlock_step t (RuRestore original) (m, g) =
     (case g_set_task_priority g t original of (Inl e, g') \<Rightarrow> (RtLeak e, m, g') | (Inr _, g') \<Rightarrow> (RuNext, m, g'))"
| "rt_unlock_step t RuNext (m, g) = (RuClear (waiters_max (rt_waiters m)), m, g)"
| "rt_unlock_step t (RuClear nxt) (m, g) = (RuRelease nxt, m\<lparr>rt_owner := NO_OWNER\<rparr>, g)"
| "rt_unlock_step t (RuRelease nxt) (m, g) = (RuCount nxt, m\<lparr>rt_locked := False\<rparr>, g)"
| "rt_unlock_step t (RuCount nxt) (m, g) = (RuZero nxt, m\<lparr>rt_unlock_count := rt_unlock_count m + 1\<rparr>, g)"
| "rt_unlock_step t (RuZero nxt) (m, g) = (RuSetBoost nxt, m\<lparr>rt_original := 0\<rparr>, g)"
| "rt_unlock_step t (RuSetBoost nxt) (m, g) = (RtOut None, m\<lparr>rt_boosted := nxt\<rparr>, g)"
| "rt_unlock_step t pc w = (pc, w)"

definition rt_is_locked :: "RtMutex \<Rightarrow> bool" where
  "rt_is_locked m = rt_locked m"

definition rt_get_owner :: "RtMutex \<Rightarrow> nat option" where
  "rt_get_owner m = (if rt_owner m = NO_OWNER then None else Some (rt_owner m))"

section \<open>Priority ceiling\<close>

record PcpMutex =
  pcp_ceiling :: u8
  pcp_owner :: nat
  pcp_locked :: bool
  pcp_lock_count :: u64
  pcp_unlock_count :: u64

definition PcpMutex_new :: "u8 \<Rightarrow> PcpMutex" where
  "PcpMutex_new c = \<lparr>pcp_ceiling = c, pcp_owner = NO_OWNER, pcp_locked = False, pcp_lock_count = 0, pcp_unlock_count = 0\<rparr>"

text \<open>A \<open>lock\<close> that no other task interferes with; on a locked mutex it spins for ever.\<close>

definition pcp_lock :: "nat \<Rightarrow> PcpMutex \<Rightarrow> scheduler_state \<Rightarrow> ((KernelError + unit) \<times> PcpMutex) option" where
  "pcp_lock t m g =
     (case g_get_task_priority g t of
        Inl e \<Rightarrow> Some (Err e, m)
      | Inr p \<Rightarrow>
          if p < pcp_ceiling m then Some (Err (TaskNotFound t), m)
          else if \<not> pcp_locked m
          then Some (Ok (), m\<lparr>pcp_locked := True, pcp_owner := t, pcp_lock_count := pcp_lock_count m + 1\<rparr>)
          else None)"

definition pcp_unlock :: "nat \<Rightarrow> PcpMutex \<Rightarrow> (KernelError + unit) \<times> PcpMutex" where
  "pcp_unlock t m =
     (if pcp_owner m \<noteq> t then (Err (TaskNotFound t), m)
      else (Ok (), m\<lparr>pcp_owner := NO_OWNER, pcp_locked := False, pcp_unlock_count := pcp_unlock_count m + 1\<rparr>))"

section \<open>Earliest deadline first\<close>

record DeadlineParams =
  dl_task_id :: nat
  dl_period_us :: nat
  dl_wcet_us :: nat
  dl_deadline_us :: nat
  dl_absolute_us :: nat

definition DeadlineParams_new :: "nat \<Rightarrow> nat \<Rightarrow> nat \<Rightarrow> nat \<Rightarrow> DeadlineParams" where
  "DeadlineParams_new t period wcet deadline =
     \<lparr>dl_task_id = t, dl_period_us = period, dl_wcet_us = wcet, dl_deadline_us = deadline, dl_absolute_us = 0\<rparr>"

definition params_valid :: "DeadlineParams \<Rightarrow> bool" where
  "params_valid p \<longleftrightarrow> dl_deadline_us p \<le> dl_period_us p \<and> dl_wcet_us p \<le> dl_deadline_us p"

text \<open>\<open>0 / 0\<close> is not a number; \<open>x / 0\<close> cannot occur for valid parameters.\<close>

definition utilization :: "DeadlineParams \<Rightarrow> rat option" where
  "utilization p = (if dl_period_us p = 0 then None else Some (of_nat (dl_wcet_us p) / of_nat (dl_period_us p)))"

definition f_add :: "rat option \<Rightarrow> rat option \<Rightarrow> rat option" where
  "f_add x y = (case (x, y) of (Some a, Some b) \<Rightarrow> Some (a + b) | _ \<Rightarrow> None)"

definition f_greater :: "rat option \<Rightarrow> rat \<Rightarrow> bool" where
  "f_greater x c = (case x of Some a \<Rightarrow> a > c | None \<Rightarrow> False)"

record EdfScheduler =
  edf_max_tasks :: nat
  edf_tasks :: "DeadlineParams list"
  edf_utilization :: "rat option"
  edf_misses :: u64

definition EdfScheduler_new :: "nat \<Rightarrow> EdfScheduler" where
  "EdfScheduler_new n = \<lparr>edf_max_tasks = n, edf_tasks = [], edf_utilization = Some 0, edf_misses = 0\<rparr>"

definition edf_add_task :: "DeadlineParams \<Rightarrow> EdfScheduler \<Rightarrow> (KernelError + unit) \<times> EdfScheduler" where
  "edf_add_task p s =
     (if \<not> params_valid p then (Err InvalidPageCount, s)
      else if length (edf_tasks s) \<ge> edf_max_tasks s then (Err TaskSpawnFailed, s)
      else
        let new_util = f_add (edf_utilization s) (utilization p) in
        if f_greater new_util 1 then (Err InvalidPageCount, s)
        else (Ok (), s\<lparr>edf_tasks := edf_tasks s @ [p], edf_utilization := new_util\<rparr>))"

definition edf_schedule :: "EdfScheduler \<Rightarrow> nat option" where
  "edf_schedule s = map_option dl_task_id (min_by_key dl_absolute_us (edf_tasks s))"

definition edf_release_task :: "nat \<Rightarrow> nat \<Rightarrow> EdfScheduler \<Rightarrow> (KernelError + unit) \<times> EdfScheduler" where
  "edf_release_task t now s =
     (case first_index (\<lambda>p. dl_task_id p = t) (edf_tasks s) of
        None \<Rightarrow> (Err (TaskNotFound t), s)
      | Some i \<Rightarrow>
          (Ok (), s\<lparr>edf_tasks := (edf_tasks s)[i := (edf_tasks s ! i)\<lparr>dl_absolute_us := usize_add now (dl_deadline_us (edf_tasks s ! i))\<rparr>]\<rparr>))"

definition edf_check_deadline :: "nat \<Rightarrow> nat \<Rightarrow> EdfScheduler \<Rightarrow> bool \<times> EdfScheduler" where
  "edf_check_deadline t now s =
     (case find (\<lambda>p. dl_task_id p = t) (edf_tasks s) of
        Some p \<Rightarrow> if now > dl_absolute_us p then (True, s\<lparr>edf_misses := edf_misses s + 1\<rparr>) else (False, s)
      | None \<Rightarrow> (False, s))"

end
