(* ===== verification/Rt_Correct.thy ===== *)
theory Rt_Correct
  imports Rt
begin

text \<open>
  The theorems on the real-time support: mutual exclusion of the inheritance mutex under every
  interleaving, the boost and the restoration of the owner's priority, the choice of the deadline
  scheduler, and the faults: the stores after the release, a lock that fails after it has taken
  the mutex, the ceiling test, and tasks that were never released.
\<close>

section \<open>Priorities in the scheduler\<close>

lemma first_index_cong: "map P xs = map P ys \<Longrightarrow> first_index P xs = first_index P ys"
proof (induction xs arbitrary: ys)
  case (Cons x xs)
  then show ?case by (cases ys) auto
qed simp

lemma set_priority_same_ids:
  assumes "k < length ts" and "has_id i (ts ! k)"
  shows "map (has_id j) (ts[k := map_option (\<lambda>t. t\<lparr>task_priority := p\<rparr>) (ts ! k)]) = map (has_id j) ts"
proof -
  have "has_id j (map_option (\<lambda>t. t\<lparr>task_priority := p\<rparr>) (ts ! k)) = has_id j (ts ! k)" by (cases "ts ! k") (simp_all add: has_id_def)
  then show ?thesis by (simp add: map_update list_update_same_conv assms(1))
qed

lemma g_set_priority:
  assumes "g_get_task_priority g i = Ok q"
  obtains g' where "g_set_task_priority g i p = (Ok (), g')" "g_get_task_priority g' i = Ok p"
    "\<And>j. j \<noteq> i \<Longrightarrow> g_get_task_priority g' j = g_get_task_priority g j"
proof -
  obtain s where g: "g = Some s" using assms by (cases g) (auto simp: g_get_task_priority_def)
  obtain k where k: "first_index (has_id i) (tasks s) = Some k" using assms g
    by (auto simp: g_get_task_priority_def get_task_priority_def split: option.splits)
  note kd = first_index_SomeD [OF k]
  let ?ts = "(tasks s)[k := map_option (\<lambda>t. t\<lparr>task_priority := p\<rparr>) (tasks s ! k)]"
  have same: "first_index (has_id j) ?ts = first_index (has_id j) (tasks s)" for j
    by (rule first_index_cong) (use set_priority_same_ids kd in blast)
  have "get_task_priority (s\<lparr>tasks := ?ts\<rparr>) i = Ok p"
    using k kd by (simp add: get_task_priority_def same has_id_def split: option.splits)
  moreover have "get_task_priority (s\<lparr>tasks := ?ts\<rparr>) j = get_task_priority s j" if j: "j \<noteq> i" for j
  proof (cases "first_index (has_id j) (tasks s)")
    case (Some l)
    then have "l \<noteq> k" using first_index_SomeD [OF Some] kd j by (auto simp: has_id_def split: option.splits)
    then show ?thesis using Some by (simp add: get_task_priority_def same)
  qed (simp add: get_task_priority_def same)
  ultimately show thesis
    using that [of "Some (s\<lparr>tasks := ?ts\<rparr>)"] g k by (simp add: g_set_task_priority_def set_task_priority_def g_get_task_priority_def)
qed

section \<open>Mutual exclusion\<close>

fun in_unlock :: "rt_pc \<Rightarrow> bool" where
  "in_unlock RuOwner = True" | "in_unlock RuOrig = True" | "in_unlock (RuBoosted _) = True" | "in_unlock (RuRestore _) = True"
| "in_unlock RuNext = True" | "in_unlock (RuClear _) = True" | "in_unlock (RuRelease _) = True" | "in_unlock (RuCount _) = True"
| "in_unlock (RuZero _) = True" | "in_unlock (RuSetBoost _) = True" | "in_unlock _ = False"

definition rt_step :: "nat \<Rightarrow> rt_pc \<times> rt_world \<Rightarrow> rt_pc \<times> rt_world" where
  "rt_step t = (\<lambda>(pc, w). if in_unlock pc then rt_unlock_step t pc w else rt_lock_step t pc w)"

text \<open>
  Any number of tasks call \<open>lock\<close> and \<open>unlock\<close>, each one call at a time, in any order and at
  any time; the rest of the kernel changes the scheduler in between.
\<close>

inductive rt_run :: "(nat \<Rightarrow> rt_pc) \<Rightarrow> rt_world \<Rightarrow> bool" where
  start: "rt_run (\<lambda>_. RtOut None) (RtMutex_new i, g)"
| lock: "rt_run f w \<Longrightarrow> f t = RtOut r \<Longrightarrow> t \<noteq> NO_OWNER \<Longrightarrow> rt_run (f(t := RlTry)) w"
| unlock: "rt_run f w \<Longrightarrow> f t = RtIn \<or> (\<exists>r. f t = RtOut r) \<or> (\<exists>e. f t = RtLeak e) \<Longrightarrow> t \<noteq> NO_OWNER \<Longrightarrow> rt_run (f(t := RuOwner)) w"
| step: "rt_run f w \<Longrightarrow> rt_step t (f t, w) = (pc, w') \<Longrightarrow> t \<noteq> NO_OWNER \<Longrightarrow> rt_run (f(t := pc)) w'"
| kernel: "rt_run f (m, g) \<Longrightarrow> rt_run f (m, g')"

text \<open>The control points of a task that has taken the mutex; at some it is not recorded as the owner.\<close>

fun taken :: "rt_pc \<Rightarrow> bool" where
  "taken RtIn = True" | "taken (RtLeak _) = True" | "taken RlOwn = True" | "taken RlCount = True" | "taken RlPrio = True"
| "taken (RlSetOrig _) = True" | "taken (RlSetBoost _) = True" | "taken (RlOwn2 _) = True" | "taken (RlCount2 _) = True"
| "taken (RlRetain _) = True" | "taken (RlWaitSub _) = True" | "taken RuOrig = True" | "taken (RuBoosted _) = True"
| "taken (RuRestore _) = True" | "taken RuNext = True" | "taken (RuClear _) = True" | "taken (RuRelease _) = True" | "taken _ = False"

fun recorded :: "rt_pc \<Rightarrow> bool" where
  "recorded RlOwn = False" | "recorded (RlOwn2 _) = False" | "recorded (RuRelease _) = False" | "recorded pc = taken pc"

fun releasing :: "rt_pc \<Rightarrow> bool" where
  "releasing (RuRelease _) = True" | "releasing _ = False"

definition holds :: "nat \<Rightarrow> rt_pc \<Rightarrow> RtMutex \<Rightarrow> bool" where
  "holds t pc m \<longleftrightarrow> taken pc \<or> pc = RuOwner \<and> rt_owner m = t"

definition rt_inv :: "(nat \<Rightarrow> rt_pc) \<Rightarrow> RtMutex \<Rightarrow> bool" where
  "rt_inv f m \<longleftrightarrow> (rt_locked m \<longleftrightarrow> (\<exists>t. holds t (f t) m)) \<and> (\<forall>t u. holds t (f t) m \<longrightarrow> holds u (f u) m \<longrightarrow> t = u) \<and>
     (rt_owner m \<noteq> NO_OWNER \<longrightarrow> holds (rt_owner m) (f (rt_owner m)) m) \<and> (\<forall>t. recorded (f t) \<longrightarrow> rt_owner m = t) \<and>
     (\<forall>t. releasing (f t) \<longrightarrow> rt_owner m = NO_OWNER) \<and> \<not> taken (f NO_OWNER) \<and> f NO_OWNER \<noteq> RuOwner"

lemma recorded_taken: "recorded pc \<Longrightarrow> taken pc"
  by (cases pc) auto

lemma releasing_taken: "releasing pc \<Longrightarrow> taken pc \<and> \<not> recorded pc"
  by (cases pc) auto

text \<open>The invariant of a mutex that one task holds, and of a free one.\<close>

lemma rt_inv_heldI:
  assumes "\<And>u. holds u (f u) m \<longleftrightarrow> u = t" "rt_locked m" "rt_owner m = t \<or> rt_owner m = NO_OWNER" "recorded (f t) \<Longrightarrow> rt_owner m = t"
    "releasing (f t) \<Longrightarrow> rt_owner m = NO_OWNER" "t \<noteq> NO_OWNER" "\<not> taken (f NO_OWNER)" "f NO_OWNER \<noteq> RuOwner"
  shows "rt_inv f m"
proof -
  have one: "taken (f u) \<Longrightarrow> u = t" for u using assms(1) [of u] by (simp add: holds_def)
  have "recorded (f u) \<Longrightarrow> rt_owner m = u" for u using one [OF recorded_taken] assms(4) by blast
  moreover have "releasing (f u) \<Longrightarrow> rt_owner m = NO_OWNER" for u using one releasing_taken assms(5) by blast
  ultimately show ?thesis unfolding rt_inv_def assms(1) using assms(2,3,7,8) by blast
qed

lemma rt_inv_freeI:
  assumes "\<And>u. \<not> holds u (f u) m" "\<not> rt_locked m" "rt_owner m = NO_OWNER" "f NO_OWNER \<noteq> RuOwner"
  shows "rt_inv f m"
proof -
  have none: "\<not> taken (f u)" for u using assms(1) [of u] by (simp add: holds_def)
  then have "\<not> recorded (f u)" "\<not> releasing (f u)" for u using recorded_taken releasing_taken by blast+
  then show ?thesis unfolding rt_inv_def using assms none by blast
qed

lemma rt_invD:
  assumes "rt_inv f m"
  shows "holds t (f t) m \<Longrightarrow> rt_locked m" "rt_locked m \<Longrightarrow> \<exists>t. holds t (f t) m" "holds t (f t) m \<Longrightarrow> holds u (f u) m \<Longrightarrow> t = u"
    "rt_owner m \<noteq> NO_OWNER \<Longrightarrow> holds (rt_owner m) (f (rt_owner m)) m" "recorded (f t) \<Longrightarrow> rt_owner m = t"
    "\<not> taken (f NO_OWNER)" "f NO_OWNER \<noteq> RuOwner" "releasing (f t) \<Longrightarrow> rt_owner m = NO_OWNER"
  using assms unfolding rt_inv_def by blast+

text \<open>What a step does to the lock and its owner.\<close>

lemma rt_step_cases:
  assumes step: "rt_step t (pc, m, g) = (pc', m', g')" and rec: "recorded pc \<longrightarrow> rt_owner m = t"
  obtains (same) "rt_locked m' = rt_locked m" "rt_owner m' = rt_owner m" "holds t pc' m' = holds t pc m" "recorded pc' \<longrightarrow> rt_owner m = t" "\<not> releasing pc'"
    | (acquire) "\<not> rt_locked m" "rt_locked m'" "rt_owner m' = rt_owner m" "\<not> holds t pc m" "taken pc'" "\<not> recorded pc'" "\<not> releasing pc'"
    | (own) "taken pc" "rt_locked m' = rt_locked m" "rt_owner m' = t" "taken pc'" "\<not> releasing pc'"
    | (clear) "recorded pc" "rt_locked m' = rt_locked m" "rt_owner m' = NO_OWNER" "taken pc'" "\<not> recorded pc'"
    | (release) "releasing pc" "\<not> rt_locked m'" "rt_owner m' = rt_owner m" "\<not> taken pc'" "pc' \<noteq> RuOwner"
proof (cases pc)
  case RlTry
  then show thesis using step same acquire by (auto simp: rt_step_def holds_def split: if_splits)
next
  case (RlSpin p)
  then show thesis using step same acquire by (auto simp: rt_step_def holds_def split: if_splits)
next
  case (RuRelease n)
  then show thesis using step release by (auto simp: rt_step_def)
next
  case (RuClear n)
  then show thesis using step clear by (auto simp: rt_step_def)
next
  case RlOwn
  then show thesis using step own by (auto simp: rt_step_def)
next
  case (RlOwn2 p)
  then show thesis using step own by (auto simp: rt_step_def)
qed (use step rec same in \<open>auto simp: rt_step_def holds_def split: sum.splits prod.splits if_splits\<close>)

lemma rt_inv_step:
  assumes inv: "rt_inv f m" and step: "rt_step t (f t, m, g) = (pc, m', g')" and t: "t \<noteq> NO_OWNER"
  shows "rt_inv (f(t := pc)) m'"
proof -
  note d = rt_invD [OF inv]
  have others: "holds u ((f(t := pc)) u) m' = holds u (f u) m" if "u \<noteq> t" "rt_owner m' = rt_owner m" for u
    using that by (simp add: holds_def)
  have rec: "recorded (f t) \<longrightarrow> rt_owner m = t" using d(5) by blast
  from step rec show ?thesis
  proof (cases rule: rt_step_cases)
    case same
    have all: "holds u ((f(t := pc)) u) m' = holds u (f u) m" for u using same others [of u] by (cases "u = t") auto
    show ?thesis unfolding rt_inv_def all same(1,2) using inv same(4,5) t by (auto simp: rt_inv_def)
  next
    case acquire
    have none: "\<not> holds u (f u) m" for u using d(1) acquire(1) by blast
    have all: "holds u ((f(t := pc)) u) m' \<longleftrightarrow> u = t" for u
      using none others [of u] acquire by (cases "u = t") (auto simp: holds_def)
    have free: "rt_owner m = NO_OWNER" using d(4) none by blast
    show ?thesis by (rule rt_inv_heldI [OF all]) (use acquire free t d(6,7) in auto)
  next
    case own
    have t_holds: "holds t (f t) m" using own(1) by (simp add: holds_def)
    have all: "holds u ((f(t := pc)) u) m' \<longleftrightarrow> u = t" for u
      using d(3) [OF t_holds, of u] own by (cases "u = t") (auto simp: holds_def)
    show ?thesis by (rule rt_inv_heldI [OF all]) (use own d(1) [OF t_holds] t d(6,7) in auto)
  next
    case clear
    have t_holds: "holds t (f t) m" using recorded_taken [OF clear(1)] by (simp add: holds_def)
    have all: "holds u ((f(t := pc)) u) m' \<longleftrightarrow> u = t" for u
    proof (cases "u = t")
      case False
      have "u = NO_OWNER \<Longrightarrow> f u \<noteq> RuOwner" using d(7) by simp
      then show ?thesis using False d(3) [OF t_holds, of u] clear(3) unfolding holds_def by force
    qed (use clear in \<open>simp add: holds_def\<close>)
    show ?thesis by (rule rt_inv_heldI [OF all]) (use clear d(1) [OF t_holds] t d(6,7) in auto)
  next
    case release
    have t_holds: "holds t (f t) m" using releasing_taken [OF release(1)] by (simp add: holds_def)
    note free = d(8) [OF release(1)]
    have all: "\<not> holds u ((f(t := pc)) u) m'" for u
      using d(3) [OF t_holds, of u] others [of u] release by (cases "u = t") (auto simp: holds_def)
    show ?thesis by (rule rt_inv_freeI [OF all]) (use release free t d(7) in auto)
  qed
qed

lemma rt_inv_call:
  assumes inv: "rt_inv f m" and same: "holds t pc m = holds t (f t) m" and pc: "\<not> recorded pc" "\<not> releasing pc" and t: "t \<noteq> NO_OWNER"
  shows "rt_inv (f(t := pc)) m"
proof -
  have all: "holds u ((f(t := pc)) u) m = holds u (f u) m" for u using same by simp
  have rec: "recorded ((f(t := pc)) u) \<Longrightarrow> recorded (f u)" and rel: "releasing ((f(t := pc)) u) \<Longrightarrow> releasing (f u)" for u
    using pc by (cases "u = t", simp_all)+
  have no: "(f(t := pc)) NO_OWNER = f NO_OWNER" using t by (simp only: fun_upd_other)
  note d = inv [unfolded rt_inv_def]
  show ?thesis unfolding rt_inv_def all no
  proof (intro conjI allI impI)
    show "rt_owner m = u" if "recorded ((f(t := pc)) u)" for u by (rule rt_invD(5) [OF inv rec [OF that]])
    show "rt_owner m = NO_OWNER" if "releasing ((f(t := pc)) u)" for u by (rule rt_invD(8) [OF inv rel [OF that]])
  qed (use d in \<open>blast+\<close>)
qed

lemma rt_run_inv: "rt_run f w \<Longrightarrow> rt_inv f (fst w)"
proof (induction rule: rt_run.induct)
  case (start i g)
  then show ?case by (simp add: rt_inv_def holds_def RtMutex_new_def)
next
  case (lock f w t r)
  then show ?case by (intro rt_inv_call) (simp_all add: holds_def)
next
  case (unlock f w t)
  have "holds t RuOwner (fst w) = holds t (f t) (fst w)"
    using unlock(2,3) rt_invD(4) [OF unlock(4)] rt_invD(5) [OF unlock(4), of t] by (auto simp: holds_def)
  then show ?case using unlock by (intro rt_inv_call) simp_all
next
  case (step f w t pc w')
  show ?case by (rule rt_inv_step [OF step(4), of t "snd w" pc _ "snd w'"]) (use step in simp_all)
qed simp

text \<open>
  C12. However the tasks' calls interleave, and whatever the rest of the kernel does to the
  scheduler meanwhile, at most one task is inside the mutex; the mutex is then locked and names
  that task as its owner, so an \<open>unlock\<close> by any other task is refused and changes nothing.
\<close>

theorem rt_mutual_exclusion:
  assumes run: "rt_run f (m, g)" and inside: "f t = RtIn"
  shows "rt_is_locked m \<and> rt_get_owner m = Some t \<and> (\<forall>u. f u = RtIn \<longrightarrow> u = t) \<and>
    (\<forall>u. u \<noteq> t \<longrightarrow> rt_unlock_step u RuOwner (m, g) = (RtOut (Some (TaskNotFound u)), m, g))"
proof -
  have inv: "rt_inv f m" using rt_run_inv [OF run] by simp
  have h: "holds t (f t) m" and o: "rt_owner m = t" using inside rt_invD(5) [OF inv, of t] by (simp_all add: holds_def)
  have "t \<noteq> NO_OWNER" using rt_invD(6) [OF inv] inside by auto
  moreover have "f u = RtIn \<longrightarrow> u = t" for u using rt_invD(3) [OF inv h, of u] by (simp add: holds_def)
  ultimately show ?thesis using rt_invD(1) [OF inv h] o by (simp add: rt_is_locked_def rt_get_owner_def)
qed

text \<open>A task takes the free mutex in six steps.\<close>

lemma rt_step_simps [simp]: "rt_step t (pc, w) = (if in_unlock pc then rt_unlock_step t pc w else rt_lock_step t pc w)"
  by (simp add: rt_step_def)

lemma rt_steps: "(f ^^ numeral k) x = (f ^^ pred_numeral k) (f x)"
  by (simp add: numeral_eq_Suc funpow_swap1)

definition "rt_demo_g = Some (Scheduler_new\<lparr>tasks := [Some (Task_new 5 10), Some (Task_new 6 30)]\<rparr>)"

lemma rt_demo_prio: "g_get_task_priority rt_demo_g 5 = Ok 10" "g_get_task_priority rt_demo_g 6 = Ok 30"
  by (simp_all add: rt_demo_g_def g_get_task_priority_def get_task_priority_def has_id_def Task_new_def Task_new_with_affinity_def)

lemma rt_run_steps: "rt_run f w \<Longrightarrow> t \<noteq> NO_OWNER \<Longrightarrow> (rt_step t ^^ n) (f t, w) = (pc, w') \<Longrightarrow> rt_run (f(t := pc)) w'"
proof (induction n arbitrary: pc w')
  case (Suc n)
  obtain pc1 w1 where 1: "(rt_step t ^^ n) (f t, w) = (pc1, w1)" by (cases "(rt_step t ^^ n) (f t, w)")
  have "rt_run ((f(t := pc1))(t := pc)) w'" by (rule rt_run.step [OF Suc.IH [OF Suc.prems(1,2) 1]]) (use Suc.prems 1 in simp_all)
  then show ?case by (simp only: fun_upd_upd)
qed (auto simp: fun_upd_idem)

theorem rt_mutual_exclusion_witness:
  "\<exists>f m. rt_run f (m, rt_demo_g) \<and> f 5 = RtIn \<and> rt_is_locked m \<and> rt_get_owner m = Some 5 \<and>
     rt_unlock_step 6 RuOwner (m, rt_demo_g) = (RtOut (Some (TaskNotFound 6)), m, rt_demo_g)"
proof -
  define f where "f = (\<lambda>_ :: nat. RtOut None)(5 := RlTry)"
  have "rt_run f (RtMutex_new 7, rt_demo_g)" unfolding f_def by (intro rt_run.lock [OF rt_run.start]) simp_all
  moreover obtain m where "(rt_step 5 ^^ 6) (f 5, RtMutex_new 7, rt_demo_g) = (RtIn, m, rt_demo_g)"
    by (simp add: rt_steps f_def RtMutex_new_def rt_demo_prio)
  ultimately have "rt_run (f(5 := RtIn)) (m, rt_demo_g)" by (intro rt_run_steps) simp_all
  then show ?thesis using rt_mutual_exclusion [of "f(5 := RtIn)" m rt_demo_g 5] by (intro exI [of _ "f(5 := RtIn)"] exI [of _ m]) simp
qed

section \<open>Inheritance\<close>



text \<open>
  The stores that follow the release can fall into the next owner's critical section:
  an owner that is preempted right after its release, while a waiting task takes the mutex,
  clears the original priority the new owner has just recorded. When the new owner unlocks,
  its priority is set to zero instead of being left alone.
\<close>

theorem late_stores_lose_priority:
  assumes "rt_locked m" and "t \<noteq> v" and "t \<noteq> NO_OWNER" and "0 < nxt" and prio: "g_get_task_priority g t = Ok p"
  shows "\<exists>m1 m2 m3 m4 g4. (rt_step v ^^ 1) (RuRelease nxt, m, g) = (RuCount nxt, m1, g) \<and>
     (rt_step t ^^ 7) (RlSpin p, m1, g) = (RtIn, m2, g) \<and>
     (rt_step v ^^ 3) (RuCount nxt, m2, g) = (RtOut None, m3, g) \<and>
     (rt_step t ^^ 10) (RuOwner, m3, g) = (RtOut None, m4, g4) \<and> g_get_task_priority g4 t = Ok 0"
proof -
  obtain g4 where g4: "g_set_task_priority g t 0 = (Ok (), g4)" "g_get_task_priority g4 t = Ok 0" using g_set_priority [OF prio, of 0] by blast
  obtain m1 where m1: "(rt_step v ^^ 1) (RuRelease nxt, m, g) = (RuCount nxt, m1, g)" "\<not> rt_locked m1" by simp
  obtain m2 where m2: "(rt_step t ^^ 7) (RlSpin p, m1, g) = (RtIn, m2, g)" "rt_owner m2 = t" using m1(2) by (simp add: rt_steps)
  obtain m3 where m3: "(rt_step v ^^ 3) (RuCount nxt, m2, g) = (RtOut None, m3, g)" "rt_owner m3 = t" "rt_original m3 = 0" "rt_boosted m3 = nxt"
    using m2(2) by (simp add: rt_steps)
  obtain m4 where "(rt_step t ^^ 10) (RuOwner, m3, g) = (RtOut None, m4, g4)" using m3(2-) g4(1) assms(4) by (simp add: rt_steps)
  then show ?thesis using m1(1) m2(1) m3(1) g4(2) by blast
qed

theorem late_stores_lose_priority_witness:
  "\<exists>m1 m2 m3 m4 g4. (rt_step 5 ^^ 1) (RuRelease 30, (RtMutex_new 7)\<lparr>rt_locked := True\<rparr>, rt_demo_g) = (RuCount 30, m1, rt_demo_g) \<and>
     (rt_step 6 ^^ 7) (RlSpin 30, m1, rt_demo_g) = (RtIn, m2, rt_demo_g) \<and>
     (rt_step 5 ^^ 3) (RuCount 30, m2, rt_demo_g) = (RtOut None, m3, rt_demo_g) \<and>
     (rt_step 6 ^^ 10) (RuOwner, m3, rt_demo_g) = (RtOut None, m4, g4) \<and> g_get_task_priority g4 6 = Ok 0"
  by (rule late_stores_lose_priority [OF _ _ _ _ rt_demo_prio(2)]) simp_all

text \<open>
  A \<open>lock\<close> by a task the scheduler does not know returns an error, but it has already taken
  the mutex: every other task spins for ever.
\<close>

theorem failed_lock_keeps_mutex:
  assumes "\<not> rt_locked m" and "g_get_task_priority g t = Err e"
  shows "\<exists>m'. (rt_step t ^^ 4) (RlTry, m, g) = (RtLeak e, m', g) \<and> rt_locked m' \<and> (\<forall>u n p g'. (rt_step u ^^ n) (RlSpin p, m', g') = (RlSpin p, m', g'))"
proof -
  obtain m' where m': "(rt_step t ^^ 4) (RlTry, m, g) = (RtLeak e, m', g)" "rt_locked m'" using assms by (simp add: rt_steps)
  have "(rt_step u ^^ n) (RlSpin p, m', g') = (RlSpin p, m', g')" for u n p g' using m'(2) by (induction n) simp_all
  then show ?thesis using m' by blast
qed

section \<open>Priority ceiling\<close>

text \<open>
  The ceiling is documented as the highest priority of any task that may lock the mutex; then
  every such task whose own priority is below it is refused.
\<close>

lemma pcp_refuses_lower: "g_get_task_priority g t = Ok p \<Longrightarrow> p < pcp_ceiling m \<Longrightarrow> pcp_lock t m g = Some (Err (TaskNotFound t), m)"
  by (simp add: pcp_lock_def)

lemma pcp_roundtrip:
  assumes "g_get_task_priority g t = Ok p" and "pcp_ceiling m \<le> p" and "\<not> pcp_locked m"
  obtains m' where "pcp_lock t m g = Some (Ok (), m')" "pcp_locked m'" "pcp_owner m' = t"
    "\<And>u. u \<noteq> t \<Longrightarrow> pcp_unlock u m' = (Err (TaskNotFound u), m')"
    "\<not> pcp_locked (snd (pcp_unlock t m'))" "fst (pcp_unlock t m') = Ok ()"
  using that [of "m\<lparr>pcp_locked := True, pcp_owner := t, pcp_lock_count := pcp_lock_count m + 1\<rparr>"] assms(1,3) leD [OF assms(2)]
  by (simp add: pcp_lock_def pcp_unlock_def)

section \<open>Earliest deadline first\<close>

inductive edf_reach :: "EdfScheduler \<Rightarrow> bool" where
  new: "edf_reach (EdfScheduler_new n)"
| add: "edf_reach s \<Longrightarrow> edf_add_task p s = (r, s') \<Longrightarrow> edf_reach s'"
| release: "edf_reach s \<Longrightarrow> edf_release_task t now s = (r, s') \<Longrightarrow> edf_reach s'"
| check: "edf_reach s \<Longrightarrow> edf_check_deadline t now s = (b, s') \<Longrightarrow> edf_reach s'"

definition edf_load :: "DeadlineParams list \<Rightarrow> rat option" where
  "edf_load ps = foldl f_add (Some 0) (map utilization ps)"

lemma f_greater_not [simp]: "\<not> f_greater None c" "f_greater (Some a) c \<longleftrightarrow> a > c"
  by (simp_all add: f_greater_def)

lemma edf_load_snoc [simp]: "edf_load (ps @ [p]) = f_add (edf_load ps) (utilization p)" and edf_load_Nil [simp]: "edf_load [] = Some 0"
  by (simp_all add: edf_load_def)

lemma edf_load_eq: "\<forall>p \<in> set ps. dl_period_us p \<noteq> 0 \<Longrightarrow> edf_load ps = Some (\<Sum>p\<leftarrow>ps. of_nat (dl_wcet_us p) / of_nat (dl_period_us p))"
  by (induction ps rule: rev_induct) (simp_all add: f_add_def utilization_def)

lemma edf_reach_inv: "edf_reach s \<Longrightarrow> edf_utilization s = edf_load (edf_tasks s) \<and> \<not> f_greater (edf_utilization s) 1 \<and>
   length (edf_tasks s) \<le> edf_max_tasks s \<and> (\<forall>p \<in> set (edf_tasks s). params_valid p)"
proof (induction rule: edf_reach.induct)
  case (new n)
  then show ?case by (simp add: EdfScheduler_new_def)
next
  case (add s p r s')
  then show ?case by (auto simp: edf_add_task_def Let_def split: if_splits)
next
  case (release s t now r s')
  show ?case
  proof (cases "first_index (\<lambda>p. dl_task_id p = t) (edf_tasks s)")
    case (Some i)
    let ?x = "edf_tasks s ! i" and ?d = "usize_add now (dl_deadline_us (edf_tasks s ! i))"
    have i: "i < length (edf_tasks s)" using first_index_SomeD [OF Some] by blast
    have "map utilization ((edf_tasks s)[i := ?x\<lparr>dl_absolute_us := ?d\<rparr>]) = map utilization (edf_tasks s)"
      by (simp add: map_update list_update_same_conv i utilization_def)
    then have "edf_load ((edf_tasks s)[i := ?x\<lparr>dl_absolute_us := ?d\<rparr>]) = edf_load (edf_tasks s)" by (simp only: edf_load_def)
    moreover have "params_valid (?x\<lparr>dl_absolute_us := ?d\<rparr>)" using release(3) nth_mem [OF i] by (auto simp: params_valid_def)
    moreover have "\<forall>p \<in> set ((edf_tasks s)[i := ?x\<lparr>dl_absolute_us := ?d\<rparr>]). params_valid p"
      using calculation(2) release(3) set_update_in [OF i] by blast
    ultimately show ?thesis using release Some by (auto simp: edf_release_task_def)
  qed (use release in \<open>auto simp: edf_release_task_def\<close>)
next
  case (check s t now b s')
  then show ?case by (auto simp: edf_check_deadline_def split: option.splits if_splits)
qed


lemma edf_demo: "edf_reach \<lparr>edf_max_tasks = 2, edf_tasks = [DeadlineParams_new 1 10 4 8], edf_utilization = Some (4 / 10), edf_misses = 0\<rparr>"
  by (rule edf_reach.add [OF edf_reach.new [of 2], of "DeadlineParams_new 1 10 4 8" "Ok ()"])
     (simp add: edf_add_task_def EdfScheduler_new_def DeadlineParams_new_def params_valid_def f_add_def utilization_def)


text \<open>A task that was never released has the absolute deadline 0 and is preferred to every released one.\<close>

lemma unreleased_task_preferred:
  assumes "p \<in> set (edf_tasks s)" "dl_absolute_us p = 0"
  shows "\<exists>q \<in> set (edf_tasks s). edf_schedule s = Some (dl_task_id q) \<and> dl_absolute_us q = 0"
proof -
  obtain q where q: "min_by_key dl_absolute_us (edf_tasks s) = Some q" using assms(1) by (cases "min_by_key dl_absolute_us (edf_tasks s)") auto
  have "q \<in> set (edf_tasks s)" "dl_absolute_us q \<le> 0" using min_by_key_spec [OF q] assms by auto
  then show ?thesis using q by (auto simp: edf_schedule_def intro!: bexI [of _ q])
qed

text \<open>One task of period zero makes the utilisation not a number; from then on no load is refused.\<close>

lemma zero_period_disables_admission:
  assumes "edf_utilization s = None" and "params_valid p" and "length (edf_tasks s) < edf_max_tasks s"
  shows "edf_add_task p s = (Ok (), s\<lparr>edf_tasks := edf_tasks s @ [p]\<rparr>)"
  using assms by (simp add: edf_add_task_def f_add_def)

lemma zero_period_admitted:
  assumes "length (edf_tasks s) < edf_max_tasks s"
  shows "edf_utilization (snd (edf_add_task (DeadlineParams_new t 0 0 0) s)) = None"
  using assms by (simp add: edf_add_task_def DeadlineParams_new_def params_valid_def utilization_def f_add_def split: option.splits)

end
