(* ===== verification/Migration.thy ===== *)
theory Migration
  imports Prelude "HOL-Library.Word"
begin

text \<open>
  Agent migration, \<open>mielin-cells/src/migration\<close>: the page compression and its checksum
  (\<open>functions.rs\<close>), delta snapshots, the dirty page tracker and the incremental migrator
  (\<open>types/delta.rs\<close>), and the recovery manager for failed migrations (\<open>types/recovery.rs\<close>).

  Bytes are \<open>u8\<close> words, agents are identified by a type \<open>'id\<close> (16 bytes in the source). The
  loops over a byte index are recursions over the bytes from that index on. The LZ4 and Zstd
  crates are arguments. The clock is an argument: \<open>now\<close> is \<open>None\<close> where the source's
  \<open>duration_since\<close> fails. The floating point average of the statistics is left out.
\<close>

section \<open>Compression\<close>

definition MIG_PAGE_SIZE :: nat where "MIG_PAGE_SIZE = 4096"

text \<open>The inner loop: the length of the run of \<open>b\<close>, counted from \<open>count\<close>, at most 127.\<close>

fun run_count :: "u8 \<Rightarrow> u8 list \<Rightarrow> nat \<Rightarrow> nat" where
  "run_count b [] count = count"
| "run_count b (x # xs) count = (if x = b \<and> count < 127 then run_count b xs (count + 1) else count)"

lemma run_count_ge: "count \<le> run_count b xs count"
  by (induction b xs count rule: run_count.induct) auto

definition rle_block :: "u8 \<Rightarrow> nat \<Rightarrow> u8 list" where
  "rle_block b count =
     (if count \<ge> 4 \<or> b = 0xff then [0xff, of_nat count, b]
      else concat (replicate count (if b = 0xff then [0xff, 1, 0xff] else [b])))"

function simple_compress :: "u8 list \<Rightarrow> u8 list" where
  "simple_compress [] = []"
| "simple_compress (b # bs) =
     (let count = run_count b bs 1 in rle_block b count @ simple_compress (drop count (b # bs)))"
  by pat_completeness auto
termination
proof (relation "measure length", goal_cases)
  case (2 b bs x)
  then show ?case using run_count_ge [of 1 b bs] by (cases "run_count b bs 1") auto
qed simp

function simple_decompress :: "u8 list \<Rightarrow> u8 list" where
  "simple_decompress [] = []"
| "simple_decompress (x # xs) =
     (if x = 0xff \<and> 2 < length (x # xs)
      then replicate (unat (xs ! 0)) (xs ! 1) @ simple_decompress (drop 2 xs)
      else x # simple_decompress xs)"
  by pat_completeness auto
termination
  by (relation "measure length") auto

fun checksum_from :: "nat \<Rightarrow> u32 \<Rightarrow> u8 list \<Rightarrow> u32" where
  "checksum_from i s [] = s"
| "checksum_from i s (b # bs) = checksum_from (i + 1) (s + ucast b * (of_nat i + 1)) bs"

definition simple_checksum :: "u8 list \<Rightarrow> u32" where
  "simple_checksum bs = checksum_from 0 0 bs"

datatype CompressionMethod = Rle | Lz4 | ZstdDefault | ZstdHigh

fun method_u8 :: "CompressionMethod \<Rightarrow> nat" where
  "method_u8 Rle = 0" | "method_u8 Lz4 = 1" | "method_u8 ZstdDefault = 2" | "method_u8 ZstdHigh = 3"

definition method_from_u8 :: "nat \<Rightarrow> CompressionMethod option" where
  "method_from_u8 v = (if v = 0 then Some Rle else if v = 1 then Some Lz4 else if v = 2 then Some ZstdDefault
     else if v = 3 then Some ZstdHigh else None)"

text \<open>The compression crates; \<open>None\<close> is an error result.\<close>

record codecs =
  lz4_compress :: "u8 list \<Rightarrow> u8 list"
  lz4_decompress :: "u8 list \<Rightarrow> u8 list option"
  zstd_compress :: "u8 list \<Rightarrow> int \<Rightarrow> u8 list option"
  zstd_decompress :: "u8 list \<Rightarrow> u8 list option"

text \<open>\<open>if candidate.len() < best_size { best = candidate }\<close>\<close>

definition better :: "u8 list \<times> CompressionMethod \<Rightarrow> u8 list \<times> CompressionMethod \<Rightarrow> u8 list \<times> CompressionMethod" where
  "better new best = (if length (fst new) < length (fst best) then new else best)"

definition zstd_or_raw :: "codecs \<Rightarrow> u8 list \<Rightarrow> int \<Rightarrow> u8 list" where
  "zstd_or_raw c bs level = (case zstd_compress c bs level of Some z \<Rightarrow> z | None \<Rightarrow> bs)"

definition adaptive_compress :: "codecs \<Rightarrow> u8 list \<Rightarrow> u8 list \<times> nat" where
  "adaptive_compress c bs =
     (if length bs < 256 then (simple_compress bs, method_u8 Rle)
      else
        let rle = simple_compress bs; lz4 = lz4_compress c bs in
        if length bs < 4096 then
          (if length lz4 < length rle then (lz4, method_u8 Lz4) else (rle, method_u8 Rle))
        else
          apsnd method_u8 (better (zstd_or_raw c bs 3, ZstdDefault) (better (lz4, Lz4) (rle, Rle))))"

definition adaptive_compress_aggressive :: "codecs \<Rightarrow> u8 list \<Rightarrow> u8 list \<times> nat" where
  "adaptive_compress_aggressive c bs =
     apsnd method_u8 (better (zstd_or_raw c bs 10, ZstdHigh) (better (zstd_or_raw c bs 3, ZstdDefault)
       (better (lz4_compress c bs, Lz4) (simple_compress bs, Rle))))"

definition adaptive_decompress :: "codecs \<Rightarrow> u8 list \<Rightarrow> nat \<Rightarrow> u8 list option" where
  "adaptive_decompress c bs m =
     Option.bind (method_from_u8 m) (\<lambda>cm. case cm of
       Rle \<Rightarrow> Some (simple_decompress bs)
     | Lz4 \<Rightarrow> lz4_decompress c bs
     | ZstdDefault \<Rightarrow> zstd_decompress c bs
     | ZstdHigh \<Rightarrow> zstd_decompress c bs)"

section \<open>Delta snapshots\<close>

datatype CellError = ExecutionFailed string | MigrationFailed string | InvalidState string

record DirtyPage =
  dp_index :: nat
  dp_data :: "u8 list"
  dp_compressed :: bool

definition DirtyPage_new :: "nat \<Rightarrow> u8 list \<Rightarrow> DirtyPage" where
  "DirtyPage_new i bs = \<lparr>dp_index = i, dp_data = bs, dp_compressed = False\<rparr>"

definition dp_compress :: "DirtyPage \<Rightarrow> DirtyPage" where
  "dp_compress p =
     (if dp_compressed p \<or> dp_data p = [] then p
      else let z = simple_compress (dp_data p) in
        if length z < length (dp_data p) then p\<lparr>dp_data := z, dp_compressed := True\<rparr> else p)"

definition dp_decompress :: "DirtyPage \<Rightarrow> DirtyPage" where
  "dp_decompress p =
     (if \<not> dp_compressed p \<or> dp_data p = [] then p
      else p\<lparr>dp_data := simple_decompress (dp_data p), dp_compressed := False\<rparr>)"

definition dp_get_data :: "DirtyPage \<Rightarrow> u8 list" where
  "dp_get_data p = (if dp_compressed p then simple_decompress (dp_data p) else dp_data p)"

record 'id DeltaSnapshot =
  ds_agent_id :: 'id
  ds_sequence :: u64
  ds_base_sequence :: u64
  ds_dirty_pages :: "DirtyPage list"
  ds_total_size :: nat
  ds_timestamp :: nat
  ds_checksum :: u32

definition div_ceil :: "nat \<Rightarrow> nat \<Rightarrow> nat" where
  "div_ceil a b = (a div b) + (if a mod b = 0 then 0 else 1)"

definition page_of :: "nat \<Rightarrow> u8 list \<Rightarrow> u8 list" where
  "page_of i bs = (let start = i * MIG_PAGE_SIZE; fin = min (start + MIG_PAGE_SIZE) (length bs) in take (fin - start) (drop start bs))"

definition dirty_pages :: "u8 list \<Rightarrow> u8 list \<Rightarrow> DirtyPage list" where
  "dirty_pages old_state new_state =
     concat (map (\<lambda>i. if page_of i old_state \<noteq> page_of i new_state
         then [dp_compress (DirtyPage_new (as_u32 i) (page_of i new_state))] else [])
       [0..<div_ceil (length new_state) MIG_PAGE_SIZE])"

definition delta_create ::
  "nat option \<Rightarrow> 'id \<Rightarrow> u8 list \<Rightarrow> u8 list \<Rightarrow> u64 \<Rightarrow> u64 \<Rightarrow> CellError + 'id DeltaSnapshot" where
  "delta_create now agent_id old_state new_state base_sequence seq =
     (if length old_state \<noteq> length new_state then Err (InvalidState ''State sizes must match for delta'')
      else
        let pgs = dirty_pages old_state new_state in
        case now of
          None \<Rightarrow> Err (InvalidState ''Time error'')
        | Some timestamp \<Rightarrow>
            Ok \<lparr>ds_agent_id = agent_id, ds_sequence = seq, ds_base_sequence = base_sequence, ds_dirty_pages = pgs,
                ds_total_size = length new_state, ds_timestamp = timestamp, ds_checksum = simple_checksum new_state\<rparr>)"

text \<open>
  The write of one page. The slice \<open>base[start..end]\<close> panics when it starts after its end; the
  test for a page that exceeds the state follows the \<open>min\<close> and never succeeds.
\<close>

definition apply_page :: "DirtyPage \<Rightarrow> u8 list \<Rightarrow> (CellError + u8 list) option" where
  "apply_page p base =
     (let start = dp_index p * MIG_PAGE_SIZE; bs = dp_get_data p; fin = min (start + length bs) (length base) in
      if fin > length base then Some (Err (InvalidState ''Delta page exceeds state size''))
      else if start > fin then None
      else Some (Ok (take start base @ take (fin - start) bs @ drop fin base)))"

fun apply_pages :: "DirtyPage list \<Rightarrow> u8 list \<Rightarrow> (CellError + u8 list) option" where
  "apply_pages [] base = Some (Ok base)"
| "apply_pages (p # ps) base =
     (case apply_page p base of None \<Rightarrow> None | Some (Inl e) \<Rightarrow> Some (Err e) | Some (Inr base') \<Rightarrow> apply_pages ps base')"

definition resize :: "nat \<Rightarrow> u8 list \<Rightarrow> u8 list" where
  "resize n bs = take n bs @ replicate (n - length bs) 0"

definition delta_apply :: "'id DeltaSnapshot \<Rightarrow> u8 list \<Rightarrow> (CellError + u8 list) option" where
  "delta_apply d base_state =
     (let base = (if length base_state < ds_total_size d then resize (ds_total_size d) base_state else base_state) in
      case apply_pages (ds_dirty_pages d) base of
        None \<Rightarrow> None
      | Some (Inl e) \<Rightarrow> Some (Err e)
      | Some (Inr result) \<Rightarrow>
          if simple_checksum result \<noteq> ds_checksum d then Some (Err (InvalidState ''Delta checksum mismatch''))
          else Some (Ok result))"

definition dirty_page_count :: "'id DeltaSnapshot \<Rightarrow> nat" where
  "dirty_page_count d = length (ds_dirty_pages d)"

definition compressed_size :: "'id DeltaSnapshot \<Rightarrow> nat" where
  "compressed_size d = sum_list (map (\<lambda>p. length (dp_data p)) (ds_dirty_pages d))"

definition uncompressed_size :: "'id DeltaSnapshot \<Rightarrow> nat" where
  "uncompressed_size d = length (ds_dirty_pages d) * MIG_PAGE_SIZE"

section \<open>Dirty page tracker\<close>

unbundle bit_operations_syntax

record 'id DirtyPageTracker =
  tr_agent_id :: 'id
  tr_bitmap :: "u64 list"
  tr_num_pages :: nat
  tr_last_state :: "u8 list"
  tr_sequence :: u64

definition DirtyPageTracker_new :: "'id \<Rightarrow> nat \<Rightarrow> 'id DirtyPageTracker" where
  "DirtyPageTracker_new agent_id state_size =
     (let num_pages = div_ceil state_size MIG_PAGE_SIZE in
      \<lparr>tr_agent_id = agent_id, tr_bitmap = replicate (div_ceil num_pages 64) 0, tr_num_pages = num_pages,
       tr_last_state = [], tr_sequence = 0\<rparr>)"

definition tr_clear_all :: "'id DirtyPageTracker \<Rightarrow> 'id DirtyPageTracker" where
  "tr_clear_all t = t\<lparr>tr_bitmap := map (\<lambda>_. 0) (tr_bitmap t)\<rparr>"

definition tr_initialize :: "u8 list \<Rightarrow> 'id DirtyPageTracker \<Rightarrow> 'id DirtyPageTracker" where
  "tr_initialize state t = (tr_clear_all (t\<lparr>tr_last_state := state\<rparr>))\<lparr>tr_sequence := 1\<rparr>"

definition tr_mark_dirty :: "nat \<Rightarrow> 'id DirtyPageTracker \<Rightarrow> 'id DirtyPageTracker option" where
  "tr_mark_dirty page_index t =
     (if page_index < tr_num_pages t then
        Option.bind (arr_get (tr_bitmap t) (page_index div 64)) (\<lambda>w.
          Some (t\<lparr>tr_bitmap := (tr_bitmap t)[page_index div 64 := w OR push_bit (page_index mod 64) 1]\<rparr>))
      else Some t)"

definition tr_mark_range_dirty :: "nat \<Rightarrow> nat \<Rightarrow> 'id DirtyPageTracker \<Rightarrow> 'id DirtyPageTracker option" where
  "tr_mark_range_dirty offset len t =
     (let start_page = offset div MIG_PAGE_SIZE; end_page = div_ceil (usize_add offset len) MIG_PAGE_SIZE in
      for_range start_page (min end_page (tr_num_pages t)) tr_mark_dirty t)"

definition tr_is_dirty :: "'id DirtyPageTracker \<Rightarrow> nat \<Rightarrow> bool option" where
  "tr_is_dirty t page_index =
     (if page_index \<ge> tr_num_pages t then Some False
      else Option.bind (arr_get (tr_bitmap t) (page_index div 64)) (\<lambda>w.
        Some (w AND push_bit (page_index mod 64) 1 \<noteq> 0)))"

definition tr_dirty_count :: "'id DirtyPageTracker \<Rightarrow> nat" where
  "tr_dirty_count t = sum_list (map (\<lambda>w. length (filter (bit w) [0..<64])) (tr_bitmap t))"

definition tr_create_delta ::
  "nat option \<Rightarrow> u8 list \<Rightarrow> 'id DirtyPageTracker \<Rightarrow> (CellError + 'id DeltaSnapshot) \<times> 'id DirtyPageTracker" where
  "tr_create_delta now current_state t =
     (let base_sequence = tr_sequence t; t1 = t\<lparr>tr_sequence := tr_sequence t + 1\<rparr> in
      if tr_last_state t1 = [] then
        (delta_create now (tr_agent_id t1) (replicate (length current_state) 0) current_state 0 (tr_sequence t1),
         t1\<lparr>tr_last_state := current_state\<rparr>)
      else
        case delta_create now (tr_agent_id t1) (tr_last_state t1) current_state base_sequence (tr_sequence t1) of
          Inl e \<Rightarrow> (Err e, t1)
        | Inr d \<Rightarrow> (Ok d, tr_clear_all (t1\<lparr>tr_last_state := current_state\<rparr>)))"

section \<open>Incremental migrator\<close>

record MigrationStats =
  ms_bytes_transferred :: u64
  ms_bytes_saved_compression :: u64
  ms_bytes_saved_delta :: u64
  ms_full_migrations :: u64
  ms_incremental_migrations :: u64
  ms_total_time_us :: u64

definition MigrationStats_default :: MigrationStats where
  "MigrationStats_default = \<lparr>ms_bytes_transferred = 0, ms_bytes_saved_compression = 0, ms_bytes_saved_delta = 0,
     ms_full_migrations = 0, ms_incremental_migrations = 0, ms_total_time_us = 0\<rparr>"

definition record_full :: "nat \<Rightarrow> u64 \<Rightarrow> MigrationStats \<Rightarrow> MigrationStats" where
  "record_full sz time_us s =
     s\<lparr>ms_bytes_transferred := ms_bytes_transferred s + of_nat sz, ms_full_migrations := ms_full_migrations s + 1,
       ms_total_time_us := ms_total_time_us s + time_us\<rparr>"

definition record_incremental :: "nat \<Rightarrow> nat \<Rightarrow> u64 \<Rightarrow> MigrationStats \<Rightarrow> MigrationStats" where
  "record_incremental delta_size full_size time_us s =
     s\<lparr>ms_bytes_transferred := ms_bytes_transferred s + of_nat delta_size,
       ms_bytes_saved_delta := ms_bytes_saved_delta s + of_nat (usize_sub full_size delta_size),
       ms_incremental_migrations := ms_incremental_migrations s + 1,
       ms_total_time_us := ms_total_time_us s + time_us\<rparr>"

definition record_compression :: "nat \<Rightarrow> nat \<Rightarrow> MigrationStats \<Rightarrow> MigrationStats" where
  "record_compression uncompressed compressed s =
     s\<lparr>ms_bytes_saved_compression := ms_bytes_saved_compression s + of_nat (usize_sub uncompressed compressed)\<rparr>"

record 'id IncrementalMigrator =
  im_trackers :: "'id \<Rightarrow> 'id DirtyPageTracker option"
  im_stats :: MigrationStats

definition IncrementalMigrator_new :: "'id IncrementalMigrator" where
  "IncrementalMigrator_new = \<lparr>im_trackers = Map.empty, im_stats = MigrationStats_default\<rparr>"

definition start_tracking :: "'id \<Rightarrow> u8 list \<Rightarrow> 'id IncrementalMigrator \<Rightarrow> 'id IncrementalMigrator" where
  "start_tracking agent_id initial_state m =
     m\<lparr>im_trackers := (im_trackers m)(agent_id \<mapsto>
         tr_initialize initial_state (DirtyPageTracker_new agent_id (length initial_state)))\<rparr>"

definition stop_tracking :: "'id \<Rightarrow> 'id IncrementalMigrator \<Rightarrow> 'id IncrementalMigrator" where
  "stop_tracking agent_id m = m\<lparr>im_trackers := (im_trackers m)(agent_id := None)\<rparr>"

definition im_mark_dirty :: "'id \<Rightarrow> nat \<Rightarrow> nat \<Rightarrow> 'id IncrementalMigrator \<Rightarrow> 'id IncrementalMigrator option" where
  "im_mark_dirty agent_id offset len m =
     (case im_trackers m agent_id of
        None \<Rightarrow> Some m
      | Some t \<Rightarrow> map_option (\<lambda>t'. m\<lparr>im_trackers := (im_trackers m)(agent_id \<mapsto> t')\<rparr>) (tr_mark_range_dirty offset len t))"

definition create_incremental ::
  "nat option \<Rightarrow> u64 \<Rightarrow> 'id \<Rightarrow> u8 list \<Rightarrow> 'id IncrementalMigrator \<Rightarrow> (CellError + 'id DeltaSnapshot) \<times> 'id IncrementalMigrator" where
  "create_incremental now elapsed agent_id current_state m =
     (case im_trackers m agent_id of
        None \<Rightarrow> (Err (InvalidState ''Agent not being tracked for incremental migration''), m)
      | Some t \<Rightarrow>
          (case tr_create_delta now current_state t of
             (Inl e, t') \<Rightarrow> (Err e, m\<lparr>im_trackers := (im_trackers m)(agent_id \<mapsto> t')\<rparr>)
           | (Inr d, t') \<Rightarrow>
               (Ok d, m\<lparr>im_trackers := (im_trackers m)(agent_id \<mapsto> t'),
                        im_stats := record_compression (uncompressed_size d) (compressed_size d)
                          (record_incremental (compressed_size d) (length current_state) elapsed (im_stats m))\<rparr>)))"

end
