(* ===== verification/Migration_Correct.thy ===== *)
theory Migration_Correct
  imports Migration
begin

text \<open>
  The theorems on agent migration: decompression inverts compression, a delta applied to its
  base gives the new state, a chain of deltas reproduces the last state, and the dirty page
  tracker marks exactly the pages a write touches.
\<close>

section \<open>Compression\<close>

lemma run_count_take: "count \<le> 127 \<Longrightarrow> run_count b xs count \<le> 127 \<and> take (run_count b xs count - count) xs = replicate (run_count b xs count - count) b"
proof (induction b xs count rule: run_count.induct)
  case (2 b x xs count)
  show ?case
  proof (cases "x = b \<and> count < 127")
    case True
    have "count + 1 \<le> run_count b xs (count + 1)" by (rule run_count_ge)
    then have "run_count b xs (count + 1) - count = Suc (run_count b xs (count + 1) - (count + 1))" by simp
    then show ?thesis using True 2 by simp
  qed (use 2 in auto)
qed simp

lemma run_count_block:
  fixes b bs
  defines "n \<equiv> run_count b bs 1"
  shows "1 \<le> n" "n \<le> 127" "take n (b # bs) = replicate n b"
proof -
  show n: "1 \<le> n" "n \<le> 127" using run_count_ge [of 1 b bs] run_count_take [of 1 b bs] by (auto simp: n_def)
  then obtain k where k: "n = Suc k" by (cases n) auto
  then show "take n (b # bs) = replicate n b" using run_count_take [of 1 b bs] by (simp add: n_def)
qed

lemma decompress_literals: "b \<noteq> 0xff \<Longrightarrow> simple_decompress (replicate n b @ rest) = replicate n b @ simple_decompress rest"
  by (induction n) auto

lemma decompress_block:
  assumes "1 \<le> n" and "n \<le> 127"
  shows "simple_decompress (rle_block b n @ rest) = replicate n b @ simple_decompress rest"
proof (cases "n \<ge> 4 \<or> b = 0xff")
  case True
  have "unat (of_nat n :: u8) = n" using assms(2) by (simp add: unat_of_nat)
  then show ?thesis using True by (auto simp: rle_block_def)
next
  case False
  have "concat (replicate n [b]) = replicate n b" by (induction n) auto
  then show ?thesis using False decompress_literals [of b n rest] by (simp add: rle_block_def)
qed

text \<open>Decompressing a compressed page gives the page back, for every sequence of bytes.\<close>

lemma decompress_compress [simp]: "simple_decompress (simple_compress bs) = bs"
proof (induction bs rule: simple_compress.induct)
  case (2 b bs)
  let ?n = "run_count b bs 1"
  have "simple_decompress (simple_compress (b # bs)) = replicate ?n b @ drop ?n (b # bs)"
    using 2 [OF refl] by (simp only: simple_compress.simps Let_def decompress_block [OF run_count_block(1,2)])
  also have "\<dots> = take ?n (b # bs) @ drop ?n (b # bs)" by (simp only: run_count_block(3))
  finally show ?case by (simp only: append_take_drop_id)
qed simp

section \<open>Adaptive compression\<close>

definition codecs_ok :: "codecs \<Rightarrow> bool" where
  "codecs_ok c \<longleftrightarrow> (\<forall>bs. lz4_decompress c (lz4_compress c bs) = Some bs) \<and>
     (\<forall>bs level z. zstd_compress c bs level = Some z \<longrightarrow> zstd_decompress c z = Some bs)"

text \<open>
  Adaptive compression is undone by decompression with the method it reports, whichever
  method won, if the compression crates invert their own output and Zstd does not fail.
\<close>

theorem adaptive_roundtrip:
  assumes ok: "codecs_ok c" and zstd: "zstd_compress c bs 3 \<noteq> None" "zstd_compress c bs 10 \<noteq> None"
  shows "(case adaptive_compress c bs of (z, m) \<Rightarrow> adaptive_decompress c z m = Some bs) \<and>
    (case adaptive_compress_aggressive c bs of (z, m) \<Rightarrow> adaptive_decompress c z m = Some bs)"
proof -
  obtain z3 z10 where z: "zstd_compress c bs 3 = Some z3" "zstd_compress c bs 10 = Some z10" using zstd by auto
  have undo: "zstd_decompress c z3 = Some bs" "zstd_decompress c z10 = Some bs" "lz4_decompress c (lz4_compress c bs) = Some bs"
    using ok z by (auto simp: codecs_ok_def)
  show ?thesis
    using z undo by (simp add: adaptive_compress_def adaptive_compress_aggressive_def adaptive_decompress_def better_def zstd_or_raw_def
        method_from_u8_def Let_def)
qed

definition raw_codecs :: codecs where
  "raw_codecs = \<lparr>lz4_compress = (\<lambda>bs. bs), lz4_decompress = Some, zstd_compress = (\<lambda>bs level. Some bs), zstd_decompress = Some\<rparr>"

theorem adaptive_roundtrip_witness:
  "codecs_ok raw_codecs \<and> (case adaptive_compress raw_codecs [1, 2, 3] of (z, m) \<Rightarrow> adaptive_decompress raw_codecs z m = Some [1, 2, 3])"
proof -
  have "codecs_ok raw_codecs" by (simp add: codecs_ok_def raw_codecs_def)
  then show ?thesis using adaptive_roundtrip [of raw_codecs "[1, 2, 3]"] by (simp add: raw_codecs_def)
qed

text \<open>
  A failed Zstd compression is reported as Zstd. If it fails on a block of at least 4096
  bytes that the other methods do not shorten, the uncompressed bytes are returned with the
  method number of Zstd, and decompression hands them to Zstd.
\<close>

theorem adaptive_mislabels_raw:
  assumes "zstd_compress c bs 3 = None" and "4096 \<le> length bs"
    and "length bs < length (simple_compress bs)" and "length bs < length (lz4_compress c bs)"
  shows "adaptive_compress c bs = (bs, method_u8 ZstdDefault) \<and>
    adaptive_decompress c bs (method_u8 ZstdDefault) = zstd_decompress c bs"
  using assms by (simp add: adaptive_compress_def better_def zstd_or_raw_def adaptive_decompress_def method_from_u8_def Let_def)

section \<open>Deltas\<close>

lemma dp_get_data_compress: "dp_get_data (dp_compress (DirtyPage_new i bs)) = bs"
  by (simp add: dp_get_data_def dp_compress_def DirtyPage_new_def Let_def)

lemma dp_index_compress [simp]: "dp_index (dp_compress p) = dp_index p"
  by (simp add: dp_compress_def Let_def)

text \<open>The state with the pages below \<open>k\<close> replaced.\<close>

definition mixed :: "nat \<Rightarrow> u8 list \<Rightarrow> u8 list \<Rightarrow> u8 list" where
  "mixed k old_state new_state = take (k * MIG_PAGE_SIZE) new_state @ drop (k * MIG_PAGE_SIZE) old_state"

lemma page_split:
  "drop (k * MIG_PAGE_SIZE) bs = page_of k bs @ drop (Suc k * MIG_PAGE_SIZE) bs"
  "take (Suc k * MIG_PAGE_SIZE) bs = take (k * MIG_PAGE_SIZE) bs @ page_of k bs"
proof -
  have p: "page_of k bs = take MIG_PAGE_SIZE (drop (k * MIG_PAGE_SIZE) bs)"
    by (auto simp: page_of_def Let_def min_def)
  show "drop (k * MIG_PAGE_SIZE) bs = page_of k bs @ drop (Suc k * MIG_PAGE_SIZE) bs"
    using append_take_drop_id [of MIG_PAGE_SIZE "drop (k * MIG_PAGE_SIZE) bs"] by (simp add: p)
  show "take (Suc k * MIG_PAGE_SIZE) bs = take (k * MIG_PAGE_SIZE) bs @ page_of k bs"
    unfolding p mult_Suc by (subst add.commute) (rule take_add)
qed

lemma length_page_of: "length old_state = length new_state \<Longrightarrow> length (page_of k old_state) = length (page_of k new_state)"
  by (simp add: page_of_def Let_def)

lemma apply_page_mixed:
  assumes len: "length old_state = length new_state" and k: "k * MIG_PAGE_SIZE \<le> length new_state"
  shows "apply_page (dp_compress (DirtyPage_new k (page_of k new_state))) (mixed k old_state new_state) =
    Some (Ok (mixed (Suc k) old_state new_state))"
proof -
  let ?s = "k * MIG_PAGE_SIZE" and ?p = "page_of k new_state"
  have p: "?s + length ?p \<le> length new_state" using k by (simp add: page_of_def Let_def)
  have l: "length (mixed k old_state new_state) = length new_state" using len k by (simp add: mixed_def)
  have idx: "dp_index (DirtyPage_new k ?p) = k" by (simp add: DirtyPage_new_def)
  have drop: "drop (?s + length ?p) (mixed k old_state new_state) = drop (Suc k * MIG_PAGE_SIZE) old_state"
  proof -
    have "drop (?s + length ?p) (mixed k old_state new_state) = drop (length ?p) (drop ?s old_state)"
      using k by (simp add: mixed_def add.commute)
    also have "\<dots> = drop (length ?p) (page_of k old_state @ drop (Suc k * MIG_PAGE_SIZE) old_state)"
      by (rule arg_cong [OF page_split(1)])
    also have "\<dots> = drop (Suc k * MIG_PAGE_SIZE) old_state"
      unfolding length_page_of [OF len, of k, symmetric] by (rule append_eq_conv_conj [THEN iffD1, THEN conjunct2, OF refl, symmetric])
    finally show ?thesis .
  qed
  have "take ?s (mixed k old_state new_state) = take ?s new_state" using k by (simp add: mixed_def)
  then show ?thesis
    using p l drop page_split(2) [of k new_state]
    by (simp add: apply_page_def Let_def idx dp_get_data_compress) (simp add: mixed_def)
qed

lemma mixed_same: "page_of k old_state = page_of k new_state \<Longrightarrow> mixed (Suc k) old_state new_state = mixed k old_state new_state"
  unfolding mixed_def page_split(2) page_split(1) [of k old_state] by simp

lemma apply_dirty_pages:
  assumes len: "length old_state = length new_state" and n: "\<forall>i < n. i * MIG_PAGE_SIZE \<le> length new_state" and bound: "n \<le> U32_MOD" and "k \<le> n"
  shows "apply_pages (concat (map (\<lambda>i. if page_of i old_state \<noteq> page_of i new_state
      then [dp_compress (DirtyPage_new (as_u32 i) (page_of i new_state))] else []) [k..<n])) (mixed k old_state new_state) =
    Some (Ok (mixed n old_state new_state))"
  using \<open>k \<le> n\<close>
proof (induction "n - k" arbitrary: k)
  case (Suc d)
  then have k: "k < n" and ih: "d = n - Suc k" "Suc k \<le> n" by auto
  have "as_u32 k = k" using k bound by (simp add: no_wrap)
  then show ?case
    using Suc.hyps(1) [OF ih] k n apply_page_mixed [OF len, of k] mixed_same [of k old_state new_state]
    by (cases "page_of k old_state = page_of k new_state") (simp_all add: upt_conv_Cons)
qed simp

lemma div_ceil_covers: "0 < b \<Longrightarrow> a \<le> div_ceil a b * b" "0 < b \<Longrightarrow> i < div_ceil a b \<Longrightarrow> i * b \<le> a"
proof -
  assume b: "0 < b"
  have ab: "a = a div b * b + a mod b" by simp
  have "a div b * b + k \<le> (a div b + (if k = 0 then 0 else 1)) * b" if "k < b" for k using that by (auto simp: algebra_simps)
  from this [OF mod_less_divisor [OF b, of a]] show "a \<le> div_ceil a b * b" unfolding div_ceil_def using ab by linarith
  assume "i < div_ceil a b"
  then have "i \<le> a div b" by (auto simp: div_ceil_def split: if_splits)
  then have "i * b \<le> a div b * b" by (rule mult_le_mono1)
  then show "i * b \<le> a" using ab by linarith
qed

lemma apply_delta_pages:
  assumes len: "length old_state = length new_state" and size: "div_ceil (length new_state) MIG_PAGE_SIZE \<le> U32_MOD"
  shows "apply_pages (dirty_pages old_state new_state) old_state = Some (Ok new_state)"
proof -
  let ?n = "div_ceil (length new_state) MIG_PAGE_SIZE"
  have pos: "0 < MIG_PAGE_SIZE" by (simp add: MIG_PAGE_SIZE_def)
  have "mixed 0 old_state new_state = old_state" by (simp add: mixed_def)
  moreover have "mixed ?n old_state new_state = new_state"
    using div_ceil_covers(1) [OF pos, of "length new_state"] len by (simp add: mixed_def)
  ultimately show ?thesis
    using apply_dirty_pages [OF len _ size, of 0] div_ceil_covers(2) [OF pos] by (simp add: dirty_pages_def)
qed

text \<open>
  A delta applied to its base gives the new state. For two states of the same length, up
  to \<open>2 ^ 32\<close> pages, \<open>create\<close> succeeds and applying the delta to the old state returns the new
  state: the pages are found, compressed, decompressed and written back, and the checksum holds.
\<close>

theorem delta_roundtrip:
  assumes "length old_state = length new_state" and "div_ceil (length new_state) MIG_PAGE_SIZE \<le> U32_MOD"
  shows "\<exists>d. delta_create (Some now) agent_id old_state new_state base_sequence seq = Ok d \<and>
    delta_apply d old_state = Some (Ok new_state)"
  using assms apply_delta_pages [OF assms] by (simp add: delta_create_def delta_apply_def Let_def)

theorem delta_roundtrip_witness:
  "\<exists>d. delta_create (Some 0) (7 :: nat) (replicate 5000 0) ((replicate 5000 0)[4500 := 1]) 0 1 = Ok d \<and>
     delta_apply d (replicate 5000 0) = Some (Ok ((replicate 5000 0)[4500 := 1]))"
  by (rule delta_roundtrip) (simp_all add: div_ceil_def MIG_PAGE_SIZE_def)

text \<open>What the statistics subtract: a delta is never larger than the state it was made from.\<close>

lemma dp_compress_length: "length (dp_data (dp_compress p)) \<le> length (dp_data p)"
  by (simp add: dp_compress_def Let_def)

lemma page_lengths:
  assumes "0 < MIG_PAGE_SIZE"
  shows "sum_list (map (\<lambda>i. length (page_of i bs)) [0..<n]) = length (take (n * MIG_PAGE_SIZE) bs)"
proof (induction n)
  case (Suc n)
  then show ?case by (simp only: page_split(2) upt_Suc) (simp add: page_split(2))
qed simp

lemma compressed_size_le:
  assumes "delta_create now agent_id old_state new_state base_sequence seq = Ok d"
  shows "compressed_size d \<le> length new_state" "compressed_size d \<le> uncompressed_size d"
proof -
  let ?f = "\<lambda>i. if page_of i old_state \<noteq> page_of i new_state then [dp_compress (DirtyPage_new (as_u32 i) (page_of i new_state))] else []"
  have d: "ds_dirty_pages d = concat (map ?f [0..<div_ceil (length new_state) MIG_PAGE_SIZE])"
    using assms by (auto simp: delta_create_def Let_def dirty_pages_def split: if_splits option.splits)
  have each: "sum_list (map (\<lambda>p. length (dp_data p)) (?f i)) \<le> length (page_of i new_state)" for i
    using dp_compress_length [of "DirtyPage_new (as_u32 i) (page_of i new_state)"] by (simp add: DirtyPage_new_def)
  have sum: "sum_list (map (\<lambda>p. length (dp_data p)) (concat (map ?f is))) \<le> sum_list (map (\<lambda>i. length (page_of i new_state)) is)" for "is"
  proof (induction "is")
    case (Cons i "is")
    then show ?case using each [of i] by simp
  qed simp
  show "compressed_size d \<le> length new_state"
    using sum [of "[0..<div_ceil (length new_state) MIG_PAGE_SIZE]"] page_lengths [of new_state "div_ceil (length new_state) MIG_PAGE_SIZE"]
    by (simp add: compressed_size_def d MIG_PAGE_SIZE_def)
  have "length (dp_data p) \<le> MIG_PAGE_SIZE" if p: "p \<in> set (ds_dirty_pages d)" for p
  proof -
    obtain i where "p = dp_compress (DirtyPage_new (as_u32 i) (page_of i new_state))" using p by (auto simp: d split: if_split_asm)
    then have "length (dp_data p) \<le> length (page_of i new_state)"
      using dp_compress_length [of "DirtyPage_new (as_u32 i) (page_of i new_state)"] by (simp add: DirtyPage_new_def)
    also have "\<dots> \<le> MIG_PAGE_SIZE" by (auto simp: page_of_def Let_def)
    finally show ?thesis .
  qed
  then show "compressed_size d \<le> uncompressed_size d"
    using sum_list_mono [of "ds_dirty_pages d" "\<lambda>p. length (dp_data p)" "\<lambda>_. MIG_PAGE_SIZE"]
    by (simp add: compressed_size_def uncompressed_size_def sum_list_triv)
qed

section \<open>Chains of deltas\<close>

text \<open>
  \<open>ship\<close> makes a delta for each state of a list, with the clock readings; \<open>receive\<close> applies
  deltas in order.
\<close>

fun ship :: "'id \<Rightarrow> (nat \<times> u64 \<times> u8 list) list \<Rightarrow> 'id IncrementalMigrator \<Rightarrow> 'id DeltaSnapshot list option" where
  "ship agent_id [] m = Some []"
| "ship agent_id ((now, elapsed, state) # rest) m =
     (case create_incremental (Some now) elapsed agent_id state m of
        (Inl e, m') \<Rightarrow> None
      | (Inr d, m') \<Rightarrow> map_option ((#) d) (ship agent_id rest m'))"

fun receive :: "'id DeltaSnapshot list \<Rightarrow> u8 list \<Rightarrow> u8 list option" where
  "receive [] state = Some state"
| "receive (d # ds) state = (case delta_apply d state of Some (Inr state') \<Rightarrow> receive ds state' | _ \<Rightarrow> None)"

lemma create_delta_ok:
  assumes "tr_last_state t = old_state" "old_state \<noteq> []" "length state = length old_state"
    and "div_ceil (length state) MIG_PAGE_SIZE \<le> U32_MOD"
  obtains d t' where "tr_create_delta (Some now) state t = (Ok d, t')" "delta_apply d old_state = Some (Ok state)"
    "ds_base_sequence d = tr_sequence t" "ds_sequence d = tr_sequence t + 1" "tr_last_state t' = state" "tr_sequence t' = tr_sequence t + 1"
proof -
  obtain d where d: "delta_create (Some now) (tr_agent_id t) old_state state (tr_sequence t) (tr_sequence t + 1) = Ok d"
      "delta_apply d old_state = Some (Ok state)"
    using assms apply_delta_pages [of old_state state] by (auto simp: delta_create_def delta_apply_def Let_def)
  then have "ds_base_sequence d = tr_sequence t" "ds_sequence d = tr_sequence t + 1"
    by (auto simp: delta_create_def Let_def split: if_splits)
  then show thesis using that d assms by (simp add: tr_create_delta_def Let_def tr_clear_all_def)
qed

lemma ship_receive:
  assumes "im_trackers m agent_id = Some t" "tr_last_state t = state" "state \<noteq> []"
    and "\<forall>(now, elapsed, s) \<in> set rest. length s = length state" and "div_ceil (length state) MIG_PAGE_SIZE \<le> U32_MOD"
  shows "\<exists>ds. ship agent_id rest m = Some ds \<and> length ds = length rest \<and>
    receive ds state = Some (last (state # map (\<lambda>(now, elapsed, s). s) rest)) \<and>
    (\<forall>i < length ds. ds_base_sequence (ds ! i) = tr_sequence t + of_nat i \<and> ds_sequence (ds ! i) = tr_sequence t + of_nat i + 1)"
  using assms
proof (induction rest arbitrary: m t state)
  case (Cons x rest)
  obtain now elapsed s where x: "x = (now, elapsed, s)" by (cases x)
  have s: "length s = length state" "s \<noteq> []" using Cons.prems(3,4) x by auto
  obtain d t' where d: "tr_create_delta (Some now) s t = (Ok d, t')" "delta_apply d state = Some (Ok s)"
      "ds_base_sequence d = tr_sequence t" "ds_sequence d = tr_sequence t + 1" "tr_last_state t' = s" "tr_sequence t' = tr_sequence t + 1"
    using create_delta_ok [OF Cons.prems(2,3) s(1)] Cons.prems(5) s(1) by metis
  define m' where "m' = snd (create_incremental (Some now) elapsed agent_id s m)"
  have run: "create_incremental (Some now) elapsed agent_id s m = (Ok d, m')" and t': "im_trackers m' agent_id = Some t'"
    using Cons.prems(1) d(1) by (simp_all add: create_incremental_def m'_def)
  obtain ds where ds: "ship agent_id rest m' = Some ds" "length ds = length rest"
      "receive ds s = Some (last (s # map (\<lambda>(now, elapsed, s). s) rest))"
      "\<forall>i < length ds. ds_base_sequence (ds ! i) = tr_sequence t' + of_nat i \<and> ds_sequence (ds ! i) = tr_sequence t' + of_nat i + 1"
    using Cons.IH [OF t' d(5) s(2)] Cons.prems(4,5) s(1) x by auto
  have "\<forall>i < length (d # ds). ds_base_sequence ((d # ds) ! i) = tr_sequence t + of_nat i \<and> ds_sequence ((d # ds) ! i) = tr_sequence t + of_nat i + 1"
    using ds(4) d(3,4,6) by (auto simp: nth_Cons add.assoc split: nat.splits)
  then show ?case using x run ds(1,2,3) d(2) by auto
qed simp

text \<open>
  C11. Incremental migration reproduces the agent. After \<open>start_tracking\<close> with a non-empty state,
  every later state of the same length yields a delta, the sequence numbers count up from 1 and
  each delta names its predecessor as base, and a receiver that starts from the initial state
  and applies the deltas in order ends with the last state.
\<close>

theorem migration_chain:
  assumes "state \<noteq> []" and "\<forall>(now, elapsed, s) \<in> set rest. length s = length state" and "div_ceil (length state) MIG_PAGE_SIZE \<le> U32_MOD"
  shows "\<exists>ds. ship agent_id rest (start_tracking agent_id state m) = Some ds \<and> length ds = length rest \<and>
    receive ds state = Some (last (state # map (\<lambda>(now, elapsed, s). s) rest)) \<and>
    (\<forall>i < length ds. ds_base_sequence (ds ! i) = 1 + of_nat i \<and> ds_sequence (ds ! i) = 1 + of_nat i + 1)"
  using ship_receive [of "start_tracking agent_id state m" agent_id _ state rest] assms
  by (simp add: start_tracking_def tr_initialize_def tr_clear_all_def)

theorem migration_chain_witness:
  "\<exists>ds. ship (7 :: nat) [(10, 1, [1, 2, 9]), (11, 1, [4, 2, 9])] (start_tracking 7 [1, 2, 3] IncrementalMigrator_new) = Some ds \<and>
     receive ds [1, 2, 3] = Some [4, 2, 9]"
  using migration_chain [of "[1, 2, 3]" "[(10, 1, [1, 2, 9]), (11, 1, [4, 2, 9])]" "7 :: nat" IncrementalMigrator_new]
  by (auto simp: div_ceil_def MIG_PAGE_SIZE_def)

section \<open>Dirty page tracker\<close>

unbundle bit_operations_syntax

definition tracker_ok :: "'id DirtyPageTracker \<Rightarrow> bool" where
  "tracker_ok t \<longleftrightarrow> length (tr_bitmap t) = div_ceil (tr_num_pages t) 64"

definition dirty :: "'id DirtyPageTracker \<Rightarrow> nat \<Rightarrow> bool" where
  "dirty t p \<longleftrightarrow> p < tr_num_pages t \<and> bit (tr_bitmap t ! (p div 64)) (p mod 64)"

lemma page_word: "tracker_ok t \<Longrightarrow> p < tr_num_pages t \<Longrightarrow> p div 64 < length (tr_bitmap t)"
  using div_ceil_covers(1) [of 64 "tr_num_pages t"] by (simp add: tracker_ok_def less_mult_imp_div_less)

lemma is_dirty_eq: "tracker_ok t \<Longrightarrow> tr_is_dirty t p = Some (dirty t p)"
  using page_word [of t p] by (auto simp: tr_is_dirty_def dirty_def and_exp_eq_0_iff_not_bit)

lemma mark_dirty_eq:
  assumes "tracker_ok t"
  shows "\<exists>t'. tr_mark_dirty p t = Some t' \<and> tracker_ok t' \<and> tr_num_pages t' = tr_num_pages t \<and>
    (\<forall>q. dirty t' q \<longleftrightarrow> dirty t q \<or> q = p \<and> q < tr_num_pages t)"
proof (cases "p < tr_num_pages t")
  case True
  note w = page_word [OF assms True]
  let ?t = "t\<lparr>tr_bitmap := (tr_bitmap t)[p div 64 := tr_bitmap t ! (p div 64) OR push_bit (p mod 64) 1]\<rparr>"
  have "dirty ?t q \<longleftrightarrow> dirty t q \<or> q = p \<and> q < tr_num_pages t" for q
  proof (cases "q div 64 = p div 64")
    case True
    have "q = p \<longleftrightarrow> q mod 64 = p mod 64" using True by (metis mod_mult_div_eq)
    then show ?thesis using w True by (auto simp: dirty_def bit_simps)
  qed (auto simp: dirty_def)
  then show ?thesis using True w assms by (auto simp: tr_mark_dirty_def tracker_ok_def)
qed (use assms in \<open>auto simp: tr_mark_dirty_def dirty_def\<close>)

lemma page_range:
  assumes "0 < len" and "0 < b"
  shows "(\<exists>i. offset \<le> i \<and> i < offset + len \<and> i div b = p) \<longleftrightarrow> offset div b \<le> p \<and> p < div_ceil (offset + len) b"
proof
  assume "\<exists>i. offset \<le> i \<and> i < offset + len \<and> i div b = p"
  then obtain i where i: "offset \<le> i" "i < offset + len" "i div b = p" by blast
  have "i < div_ceil (offset + len) b * b" using i(2) div_ceil_covers(1) [OF assms(2), of "offset + len"] by linarith
  then have "i div b < div_ceil (offset + len) b" by (rule less_mult_imp_div_less)
  then show "offset div b \<le> p \<and> p < div_ceil (offset + len) b" using i div_le_mono [OF i(1), of b] by simp
next
  assume p: "offset div b \<le> p \<and> p < div_ceil (offset + len) b"
  have "p * b < offset + len"
  proof -
    have "p * b \<le> offset + len" using div_ceil_covers(2) [OF assms(2)] p by blast
    moreover have "p * b \<noteq> offset + len" using p assms(2) by (auto simp: div_ceil_def dest: sym)
    ultimately show ?thesis by simp
  qed
  moreover have "max offset (p * b) div b = p"
  proof (cases "offset div b = p")
    case True
    have "p * b \<le> offset" using True by (metis div_times_less_eq_dividend)
    then show ?thesis using True by (simp add: max_def)
  next
    case False
    then have "offset div b < p" using p by simp
    then have "offset < p * b" using assms(2) by (simp add: div_less_iff_less_mult)
    then show ?thesis using assms(2) by (simp add: max_def)
  qed
  ultimately show "\<exists>i. offset \<le> i \<and> i < offset + len \<and> i div b = p" using assms(1) by (intro exI [of _ "max offset (p * b)"]) auto
qed

text \<open>
  Marking a byte range as dirty marks exactly the tracked pages that contain a byte of the
  range, and leaves the other pages as they were.
\<close>

theorem mark_range_dirty_spec:
  assumes ok: "tracker_ok t" and range: "0 < len" "offset + len < USIZE_MOD"
  shows "\<exists>t'. tr_mark_range_dirty offset len t = Some t' \<and> tracker_ok t' \<and>
    (\<forall>p. tr_is_dirty t' p = Some (tr_is_dirty t p = Some True \<or>
       p < tr_num_pages t \<and> (\<exists>i. offset \<le> i \<and> i < offset + len \<and> i div MIG_PAGE_SIZE = p)))"
proof -
  let ?a = "offset div MIG_PAGE_SIZE" and ?e = "div_ceil (offset + len) MIG_PAGE_SIZE"
  let ?I = "\<lambda>k s. tracker_ok s \<and> tr_num_pages s = tr_num_pages t \<and> (\<forall>q. dirty s q \<longleftrightarrow> dirty t q \<or> ?a \<le> q \<and> q < k \<and> q < tr_num_pages t)"
  let ?n = "min ?e (tr_num_pages t)"
  have pos: "0 < MIG_PAGE_SIZE" by (simp add: MIG_PAGE_SIZE_def)
  have "\<exists>t'. for_range ?a ?n tr_mark_dirty t = Some t' \<and> ?I ?n t'"
  proof (cases "?a \<le> ?n")
    case True
    then show ?thesis
    proof (rule for_range_rule)
      show "?I ?a t" using ok by auto
    next
      fix k s assume k: "?a \<le> k" "k < ?n" and s: "?I k s"
      then obtain s' where s': "tr_mark_dirty k s = Some s'" "tracker_ok s'" "tr_num_pages s' = tr_num_pages s"
          "\<forall>q. dirty s' q \<longleftrightarrow> dirty s q \<or> q = k \<and> q < tr_num_pages s" using mark_dirty_eq [of s k] by blast
      then have "?I (Suc k) s'" using s k by (auto simp: less_Suc_eq)
      with s'(1) show "\<exists>s'. tr_mark_dirty k s = Some s' \<and> ?I (Suc k) s'" by blast
    qed
  next
    case False
    then show ?thesis using ok by (auto simp: dirty_def)
  qed
  then obtain t' where t': "for_range ?a ?n tr_mark_dirty t = Some t'" "tracker_ok t'" "\<forall>q. dirty t' q \<longleftrightarrow> dirty t q \<or> ?a \<le> q \<and> q < ?n"
    by auto
  then show ?thesis
    using range page_range [OF range(1) pos, of offset] by (auto simp: tr_mark_range_dirty_def Let_def no_wrap is_dirty_eq [OF ok] is_dirty_eq [OF t'(2)])
qed

theorem mark_range_dirty_spec_witness:
  "\<exists>t'. tr_mark_range_dirty 5000 4000 (DirtyPageTracker_new (7 :: nat) 20000) = Some t' \<and> tr_is_dirty t' 2 = Some True"
proof -
  let ?t = "DirtyPageTracker_new (7 :: nat) 20000"
  have ok: "tracker_ok ?t" by (simp add: tracker_ok_def DirtyPageTracker_new_def Let_def)
  have "(\<exists>i. 5000 \<le> i \<and> i < 5000 + 4000 \<and> i div MIG_PAGE_SIZE = 2)"
    by (intro exI [of _ 8200]) (simp add: MIG_PAGE_SIZE_def)
  moreover have "2 < tr_num_pages ?t" by (simp add: DirtyPageTracker_new_def Let_def div_ceil_def MIG_PAGE_SIZE_def)
  ultimately show ?thesis using mark_range_dirty_spec [OF ok, of 4000 5000] by auto
qed

text \<open>
  A failed delta uses up a sequence number. When the state has changed its length, the
  delta is refused but the counter has moved on, so that the next delta names as its base a
  sequence number that no delta has.
\<close>

theorem failed_delta_skips_sequence:
  assumes "tr_last_state t = old_state" "old_state \<noteq> []" "length bad \<noteq> length old_state" "length state = length old_state"
    and "div_ceil (length state) MIG_PAGE_SIZE \<le> U32_MOD"
  shows "\<exists>e t1 d t2. tr_create_delta (Some now) bad t = (Err e, t1) \<and> tr_create_delta (Some now) state t1 = (Ok d, t2) \<and>
    ds_base_sequence d = tr_sequence t + 1"
proof -
  let ?t1 = "t\<lparr>tr_sequence := tr_sequence t + 1\<rparr>"
  have bad: "tr_create_delta (Some now) bad t = (Err (InvalidState ''State sizes must match for delta''), ?t1)"
    using assms by (simp add: tr_create_delta_def delta_create_def Let_def)
  have last: "tr_last_state ?t1 = old_state" using assms(1) by simp
  obtain d t2 where "tr_create_delta (Some now) state ?t1 = (Ok d, t2)" "ds_base_sequence d = tr_sequence ?t1"
    by (rule create_delta_ok [OF last assms(2,4,5), of now])
  with bad show ?thesis by auto
qed

end
