(* ===== verification/Recovery.thy ===== *)
theory Recovery
  imports Migration_Correct
begin

text \<open>
  Recovery of failed migrations, \<open>mielin-cells/src/migration/types/recovery.rs\<close>: the
  classification of errors, the retry delays, and the recovery manager with its pending
  failures and the history of attempts. The maps of the source are functions from agents; the
  clock reading \<open>now\<close> is an argument. The migration validator that the manager holds is not part
  of the model: no operation of the manager calls it.
\<close>

datatype MigrationErrorType =
    NetworkTransient | NetworkPermanent | InsufficientResources | IncompatibleTarget
  | StateCorruption | MigTimeout | TargetUnreachable | MigUnknown

definition is_retryable :: "MigrationErrorType \<Rightarrow> bool" where
  "is_retryable e \<longleftrightarrow> e = NetworkTransient \<or> e = InsufficientResources \<or> e = MigTimeout \<or> e = TargetUnreachable"

definition should_change_target :: "MigrationErrorType \<Rightarrow> bool" where
  "should_change_target e \<longleftrightarrow> e = InsufficientResources \<or> e = IncompatibleTarget \<or> e = TargetUnreachable"

record 'id MigrationError =
  me_error_type :: MigrationErrorType
  me_message :: string
  me_agent_id :: 'id
  me_target_node :: "'id option"
  me_timestamp :: nat
  me_retry_count :: nat

definition MigrationError_new :: "nat \<Rightarrow> MigrationErrorType \<Rightarrow> string \<Rightarrow> 'id \<Rightarrow> 'id option \<Rightarrow> 'id MigrationError" where
  "MigrationError_new now ty msg agent_id target =
     \<lparr>me_error_type = ty, me_message = msg, me_agent_id = agent_id, me_target_node = target, me_timestamp = now, me_retry_count = 0\<rparr>"

definition increment_retry :: "'id MigrationError \<Rightarrow> 'id MigrationError" where
  "increment_retry e = e\<lparr>me_retry_count := u32_add (me_retry_count e) 1\<rparr>"

datatype RecoveryStrategy = RetryOnSameTarget | RetryOnDifferentTarget | Rollback | GiveUp

record 'id RecoveryAttempt =
  ra_attempt_number :: nat
  ra_strategy :: RecoveryStrategy
  ra_timestamp :: nat
  ra_target_node :: "'id option"
  ra_success :: bool
  ra_error :: "string option"

record RecoveryConfig =
  rc_max_retries :: nat
  rc_initial_delay :: nat
  rc_max_delay :: nat
  rc_exponential :: bool
  rc_timeout :: nat
  rc_auto_rollback :: bool

definition RecoveryConfig_default :: RecoveryConfig where
  "RecoveryConfig_default = \<lparr>rc_max_retries = 3, rc_initial_delay = 10, rc_max_delay = 300, rc_exponential = True,
     rc_timeout = 600, rc_auto_rollback = True\<rparr>"

definition calculate_retry_delay :: "RecoveryConfig \<Rightarrow> nat \<Rightarrow> nat" where
  "calculate_retry_delay c attempt =
     (if \<not> rc_exponential c then rc_initial_delay c
      else
        let delay = (rc_initial_delay c * (2 ^ (attempt - 1) mod U32_MOD)) mod U32_MOD
        in min delay (rc_max_delay c))"

definition config_validate :: "RecoveryConfig \<Rightarrow> string + unit" where
  "config_validate c =
     (if rc_initial_delay c = 0 then Err ''initial_retry_delay_secs must be > 0''
      else if rc_max_delay c < rc_initial_delay c then Err ''max_retry_delay_secs must be >= initial_retry_delay_secs''
      else if rc_timeout c = 0 then Err ''recovery_timeout_secs must be > 0''
      else Ok ())"

record 'id RecoveryManager =
  rm_config :: RecoveryConfig
  rm_pending :: "'id \<Rightarrow> 'id MigrationError option"
  rm_history :: "'id \<Rightarrow> 'id RecoveryAttempt list option"

definition RecoveryManager_new :: "RecoveryConfig \<Rightarrow> string + 'id RecoveryManager" where
  "RecoveryManager_new c =
     (case config_validate c of
        Inl e \<Rightarrow> Err e
      | Inr _ \<Rightarrow> Ok \<lparr>rm_config = c, rm_pending = Map.empty, rm_history = Map.empty\<rparr>)"

definition history_or_empty :: "'id RecoveryManager \<Rightarrow> 'id \<Rightarrow> 'id RecoveryAttempt list" where
  "history_or_empty m a = (case rm_history m a of Some hs \<Rightarrow> hs | None \<Rightarrow> [])"

definition record_migration_failure :: "'id MigrationError \<Rightarrow> 'id RecoveryManager \<Rightarrow> 'id RecoveryManager" where
  "record_migration_failure e m =
     m\<lparr>rm_pending := (rm_pending m)(me_agent_id e \<mapsto> e),
       rm_history := (rm_history m)(me_agent_id e \<mapsto> history_or_empty m (me_agent_id e))\<rparr>"

definition determine_strategy :: "'id RecoveryManager \<Rightarrow> 'id MigrationError \<Rightarrow> RecoveryStrategy" where
  "determine_strategy m e =
     (if me_retry_count e \<ge> rc_max_retries (rm_config m) then (if rc_auto_rollback (rm_config m) then Rollback else GiveUp)
      else case me_error_type e of
        NetworkTransient \<Rightarrow> RetryOnSameTarget
      | MigTimeout \<Rightarrow> RetryOnSameTarget
      | InsufficientResources \<Rightarrow> RetryOnDifferentTarget
      | IncompatibleTarget \<Rightarrow> RetryOnDifferentTarget
      | TargetUnreachable \<Rightarrow> RetryOnDifferentTarget
      | _ \<Rightarrow> (if rc_auto_rollback (rm_config m) then Rollback else GiveUp))"

definition execute_recovery :: "nat \<Rightarrow> 'id \<Rightarrow> 'id RecoveryManager \<Rightarrow> (string + RecoveryStrategy) \<times> 'id RecoveryManager" where
  "execute_recovery now agent_id m =
     (case rm_pending m agent_id of
        None \<Rightarrow> (Err ''No pending recovery for agent'', m)
      | Some e \<Rightarrow>
          let strategy = determine_strategy m e;
              attempt = \<lparr>ra_attempt_number = u32_add (me_retry_count e) 1, ra_strategy = strategy, ra_timestamp = now,
                         ra_target_node = me_target_node e, ra_success = False, ra_error = None\<rparr>
          in (Ok strategy,
              m\<lparr>rm_history := (rm_history m)(agent_id \<mapsto> history_or_empty m agent_id @ [attempt]),
                rm_pending := (rm_pending m)(agent_id \<mapsto> increment_retry e)\<rparr>))"

definition update_last :: "('a \<Rightarrow> 'a) \<Rightarrow> 'a list \<Rightarrow> 'a list" where
  "update_last f xs = (if xs = [] then [] else butlast xs @ [f (last xs)])"

definition mark_recovery_success :: "'id \<Rightarrow> 'id RecoveryManager \<Rightarrow> 'id RecoveryManager" where
  "mark_recovery_success agent_id m =
     m\<lparr>rm_pending := (rm_pending m)(agent_id := None),
       rm_history := (case rm_history m agent_id of
          None \<Rightarrow> rm_history m
        | Some hs \<Rightarrow> (rm_history m)(agent_id \<mapsto> update_last (\<lambda>a. a\<lparr>ra_success := True\<rparr>) hs))\<rparr>"

definition mark_recovery_failure :: "'id \<Rightarrow> string \<Rightarrow> 'id RecoveryManager \<Rightarrow> 'id RecoveryManager" where
  "mark_recovery_failure agent_id msg m =
     m\<lparr>rm_history := (case rm_history m agent_id of
          None \<Rightarrow> rm_history m
        | Some hs \<Rightarrow> (rm_history m)(agent_id \<mapsto> update_last (\<lambda>a. a\<lparr>ra_success := False, ra_error := Some msg\<rparr>) hs))\<rparr>"

definition next_retry_time :: "'id RecoveryManager \<Rightarrow> 'id \<Rightarrow> nat option" where
  "next_retry_time m agent_id =
     Option.bind (rm_pending m agent_id) (\<lambda>e.
       Some (usize_add (me_timestamp e) (calculate_retry_delay (rm_config m) (me_retry_count e))))"

definition is_ready_for_retry :: "nat \<Rightarrow> 'id RecoveryManager \<Rightarrow> 'id \<Rightarrow> bool" where
  "is_ready_for_retry now m agent_id = (case next_retry_time m agent_id of None \<Rightarrow> False | Some t \<Rightarrow> now \<ge> t)"

definition clear_history :: "'id \<Rightarrow> 'id RecoveryManager \<Rightarrow> 'id RecoveryManager" where
  "clear_history agent_id m = m\<lparr>rm_history := (rm_history m)(agent_id := None), rm_pending := (rm_pending m)(agent_id := None)\<rparr>"

definition set_config :: "RecoveryConfig \<Rightarrow> 'id RecoveryManager \<Rightarrow> (string + unit) \<times> 'id RecoveryManager" where
  "set_config c m = (case config_validate c of Inl e \<Rightarrow> (Err e, m) | Inr _ \<Rightarrow> (Ok (), m\<lparr>rm_config := c\<rparr>))"

section \<open>Bounded recovery\<close>

text \<open>
  A round of recovery: \<open>execute_recovery\<close> returns the strategy, and the attempt is then reported
  as failed, with the agent's pending failure kept.
\<close>

fun failed_rounds :: "'id \<Rightarrow> (nat \<times> string) list \<Rightarrow> 'id RecoveryManager \<Rightarrow> (RecoveryStrategy list \<times> 'id RecoveryManager) option" where
  "failed_rounds a [] m = Some ([], m)"
| "failed_rounds a ((now, msg) # rs) m =
     (case execute_recovery now a m of
        (Inl e, m') \<Rightarrow> None
      | (Inr s, m') \<Rightarrow> map_option (apfst ((#) s)) (failed_rounds a rs (mark_recovery_failure a msg m')))"

definition final_strategy :: "RecoveryConfig \<Rightarrow> RecoveryStrategy" where
  "final_strategy c = (if rc_auto_rollback c then Rollback else GiveUp)"

definition first_strategy :: "RecoveryConfig \<Rightarrow> MigrationErrorType \<Rightarrow> RecoveryStrategy" where
  "first_strategy c ty =
     (if ty \<in> {NetworkTransient, MigTimeout} then RetryOnSameTarget else if should_change_target ty then RetryOnDifferentTarget
      else final_strategy c)"

lemma determine_strategy_eq:
  "determine_strategy m e = (if me_retry_count e < rc_max_retries (rm_config m) then first_strategy (rm_config m) (me_error_type e)
     else final_strategy (rm_config m))"
  by (cases "me_error_type e") (auto simp: determine_strategy_def first_strategy_def final_strategy_def should_change_target_def)

lemma failed_rounds_eq:
  assumes "rm_pending m a = Some e" and "me_retry_count e + length rs < U32_MOD"
  shows "\<exists>m'. failed_rounds a rs m =
    Some (map (\<lambda>k. if k < rc_max_retries (rm_config m) then first_strategy (rm_config m) (me_error_type e) else final_strategy (rm_config m))
        [me_retry_count e..<me_retry_count e + length rs], m') \<and>
    map ra_attempt_number (history_or_empty m' a) =
      map ra_attempt_number (history_or_empty m a) @ [me_retry_count e + 1..<me_retry_count e + length rs + 1]"
  using assms
proof (induction rs arbitrary: m e)
  case (Cons r rs)
  obtain now msg where r: "r = (now, msg)" by (cases r)
  define m1 where "m1 = mark_recovery_failure a msg (snd (execute_recovery now a m))"
  have add: "u32_add (me_retry_count e) 1 = me_retry_count e + 1" using Cons.prems(2) by (simp add: no_wrap)
  have m1: "rm_pending m1 a = Some (increment_retry e)" "rm_config m1 = rm_config m"
      "map ra_attempt_number (history_or_empty m1 a) = map ra_attempt_number (history_or_empty m a) @ [me_retry_count e + 1]"
    using Cons.prems(1) add
    by (simp_all add: m1_def mark_recovery_failure_def execute_recovery_def history_or_empty_def Let_def update_last_def)
  have e1: "me_retry_count (increment_retry e) = me_retry_count e + 1" "me_error_type (increment_retry e) = me_error_type e"
    using add by (simp_all add: increment_retry_def)
  let ?f = "\<lambda>k. if k < rc_max_retries (rm_config m) then first_strategy (rm_config m) (me_error_type e) else final_strategy (rm_config m)"
  obtain s where "execute_recovery now a m = (Ok (determine_strategy m e), s)" using Cons.prems(1) by (simp add: execute_recovery_def Let_def)
  then have run: "failed_rounds a (r # rs) m = map_option (apfst ((#) (?f (me_retry_count e)))) (failed_rounds a rs m1)"
    by (simp add: r m1_def determine_strategy_eq)
  have "me_retry_count (increment_retry e) + length rs < U32_MOD" using Cons.prems(2) e1 by simp
  from Cons.IH [OF m1(1) this]
  obtain m' where m': "failed_rounds a rs m1 = Some (map ?f [me_retry_count e + 1..<me_retry_count e + 1 + length rs], m')"
      "map ra_attempt_number (history_or_empty m' a) =
        map ra_attempt_number (history_or_empty m1 a) @ [me_retry_count e + 1 + 1..<me_retry_count e + 1 + length rs + 1]"
    unfolding m1(2) e1 by blast
  have "[me_retry_count e..<me_retry_count e + length (r # rs)] = me_retry_count e # [me_retry_count e + 1..<me_retry_count e + 1 + length rs]"
    "[me_retry_count e + 1..<me_retry_count e + length (r # rs) + 1] = (me_retry_count e + 1) # [me_retry_count e + 1 + 1..<me_retry_count e + 1 + length rs + 1]"
    by (simp_all add: upt_conv_Cons del: upt_Suc)
  then show ?case unfolding run m'(1) using m'(2) m1(3) by simp
qed (auto simp: history_or_empty_def)

text \<open>
  C38. A failing migration is retried a bounded number of times. After a recorded failure, in a
  run of recoveries that all fail, the first \<open>max_retries\<close> strategies are the one for the class
  of the error, all later ones are the configured last resort, roll back or give up, and the
  history numbers the attempts from 1.
\<close>

theorem recovery_bounded:
  assumes "length rs < U32_MOD" and "history_or_empty m a = []"
  shows "\<exists>m'. failed_rounds a rs (record_migration_failure (MigrationError_new now ty msg a target) m) =
    Some (replicate (min (length rs) (rc_max_retries (rm_config m))) (first_strategy (rm_config m) ty) @
          replicate (length rs - rc_max_retries (rm_config m)) (final_strategy (rm_config m)), m') \<and>
    map ra_attempt_number (history_or_empty m' a) = [1..<length rs + 1]"
proof -
  let ?e = "MigrationError_new now ty msg a target" and ?c = "rm_config m"
  let ?f = "\<lambda>k. if k < rc_max_retries ?c then first_strategy ?c ty else final_strategy ?c"
  have "map ?f [0..<length rs] = replicate (min (length rs) (rc_max_retries ?c)) (first_strategy ?c ty) @
      replicate (length rs - rc_max_retries ?c) (final_strategy ?c)"
    by (intro nth_equalityI) (auto simp: nth_append)
  then show ?thesis
    using failed_rounds_eq [of "record_migration_failure ?e m" a ?e rs] assms
    by (simp add: record_migration_failure_def MigrationError_new_def history_or_empty_def del: upt_Suc cong: if_cong)
qed

theorem recovery_bounded_witness:
  "\<exists>m'. failed_rounds (7 :: nat) [(1, ''a''), (2, ''b''), (3, ''c''), (4, ''d'')]
      (record_migration_failure (MigrationError_new 0 TargetUnreachable ''x'' 7 None)
        \<lparr>rm_config = RecoveryConfig_default, rm_pending = Map.empty, rm_history = Map.empty\<rparr>) =
    Some ([RetryOnDifferentTarget, RetryOnDifferentTarget, RetryOnDifferentTarget, Rollback], m')"
proof -
  let ?rs = "[(1, ''a''), (2, ''b''), (3, ''c''), (4, ''d'')]"
  let ?m = "\<lparr>rm_config = RecoveryConfig_default, rm_pending = Map.empty, rm_history = Map.empty\<rparr> :: nat RecoveryManager"
  have len: "length ?rs < U32_MOD" and empty: "history_or_empty ?m 7 = []" by (simp_all add: history_or_empty_def)
  have strategies: "replicate (min (length ?rs) (rc_max_retries (rm_config ?m))) (first_strategy (rm_config ?m) TargetUnreachable) @
      replicate (length ?rs - rc_max_retries (rm_config ?m)) (final_strategy (rm_config ?m)) =
      [RetryOnDifferentTarget, RetryOnDifferentTarget, RetryOnDifferentTarget, Rollback]"
    by (simp add: RecoveryConfig_default_def first_strategy_def final_strategy_def should_change_target_def eval_nat_numeral)
  show ?thesis
    using recovery_bounded [OF len empty, of 0 TargetUnreachable "''x''" None] unfolding strategies by blast
qed

section \<open>Delays\<close>

text \<open>The delay doubles with every attempt up to the configured maximum, as long as the product fits 32 bits.\<close>

theorem retry_delay_doubles:
  assumes "config_validate c = Ok ()" and "rc_exponential c" and "rc_initial_delay c * 2 ^ (attempt - 1) < U32_MOD"
  shows "calculate_retry_delay c attempt = min (rc_initial_delay c * 2 ^ (attempt - 1)) (rc_max_delay c) \<and>
    rc_initial_delay c \<le> calculate_retry_delay c attempt"
proof -
  have pos: "0 < rc_initial_delay c" "rc_initial_delay c \<le> rc_max_delay c"
    using assms(1) by (auto simp: config_validate_def split: if_splits)
  then have "2 ^ (attempt - 1) \<le> rc_initial_delay c * 2 ^ (attempt - 1)" by simp
  then have "(2 :: nat) ^ (attempt - 1) < U32_MOD" using assms(3) by linarith
  then show ?thesis using assms pos by (simp add: calculate_retry_delay_def Let_def)
qed

text \<open>
  The delay collapses after 32 attempts: the power of two leaves 32 bits, and the wait
  before the next retry becomes 0 seconds.
\<close>

theorem retry_delay_overflows: "32 < attempt \<Longrightarrow> rc_exponential c \<Longrightarrow> calculate_retry_delay c attempt = 0"
proof -
  assume a: "32 < attempt" and e: "rc_exponential c"
  have "(2 :: nat) ^ 32 dvd 2 ^ (attempt - 1)" using a by (intro le_imp_power_dvd) simp
  then have "(2 :: nat) ^ (attempt - 1) mod U32_MOD = 0" by (simp add: mod_eq_0_iff_dvd)
  then show ?thesis using e by (simp add: calculate_retry_delay_def)
qed

end
