(* ===== verification/Dht.thy ===== *)
theory Dht
  imports Prelude Complex_Main
begin

text \<open>
  The distributed hash table of the mesh, \<open>mielin-mesh/core/src/dht.rs\<close>: the XOR distance, the
  lookup cache, the iterative lookup, the churn tracker, the routing replica and the routing
  table with its queries.

  A node identifier is its 16 bytes. Instants and durations are seconds, and a call reads the
  clock once, as its argument \<open>now\<close>. A hash map is a finite map; a call that iterates over one
  takes the iteration order as an argument, a list of the map's keys, since the source leaves it
  to the hash map. The churn rate is the exact quotient.
\<close>

unbundle bit_operations_syntax

type_synonym node_id = "u8 list"
type_synonym u128 = "128 word"

definition nid_ok :: "node_id \<Rightarrow> bool" where
  "nid_ok n \<longleftrightarrow> length n = 16"

definition K_BUCKET_SIZE :: nat where "K_BUCKET_SIZE = 20"
definition PEER_TIMEOUT :: nat where "PEER_TIMEOUT = 300"
definition DEFAULT_CACHE_TTL :: nat where "DEFAULT_CACHE_TTL = 300"
definition DEFAULT_LOOKUP_PARALLELISM :: nat where "DEFAULT_LOOKUP_PARALLELISM = 3"
definition MAX_LOOKUP_ITERATIONS :: nat where "MAX_LOOKUP_ITERATIONS = 20"
definition CHURN_WINDOW :: nat where "CHURN_WINDOW = 60"
definition DEFAULT_LOOKUP_CACHE_SIZE :: nat where "DEFAULT_LOOKUP_CACHE_SIZE = 1000"

section \<open>Distance\<close>

definition xor_distance :: "node_id \<Rightarrow> node_id \<Rightarrow> u128" where
  "xor_distance a b = fold (\<lambda>i result. push_bit 8 result OR ucast (a ! i XOR b ! i)) [0..<16] 0"

section \<open>Peers\<close>

record PeerInfo =
  pi_node_id :: node_id
  pi_address :: string
  pi_last_seen :: nat
  pi_latency_ms :: "nat option"
  pi_reliability :: nat

definition PeerInfo_new :: "nat \<Rightarrow> node_id \<Rightarrow> string \<Rightarrow> PeerInfo" where
  "PeerInfo_new now n addr = \<lparr>pi_node_id = n, pi_address = addr, pi_last_seen = now, pi_latency_ms = None, pi_reliability = 100\<rparr>"

definition peer_is_alive :: "nat \<Rightarrow> PeerInfo \<Rightarrow> bool" where
  "peer_is_alive now p \<longleftrightarrow> now - pi_last_seen p < PEER_TIMEOUT"

definition update_seen :: "nat \<Rightarrow> PeerInfo \<Rightarrow> PeerInfo" where
  "update_seen now p = p\<lparr>pi_last_seen := now\<rparr>"

definition set_latency :: "nat \<Rightarrow> PeerInfo \<Rightarrow> PeerInfo" where
  "set_latency l p = p\<lparr>pi_latency_ms := Some l\<rparr>"

section \<open>Lookup cache\<close>

record CachedLookup =
  cl_target :: node_id
  cl_results :: "node_id list"
  cl_cached_at :: nat
  cl_ttl :: nat
  cl_hits :: u64

definition CachedLookup_new :: "nat \<Rightarrow> node_id \<Rightarrow> node_id list \<Rightarrow> nat \<Rightarrow> CachedLookup" where
  "CachedLookup_new now target results ttl =
     \<lparr>cl_target = target, cl_results = results, cl_cached_at = now, cl_ttl = ttl, cl_hits = 0\<rparr>"

definition entry_is_valid :: "nat \<Rightarrow> CachedLookup \<Rightarrow> bool" where
  "entry_is_valid now e \<longleftrightarrow> now - cl_cached_at e < cl_ttl e"

record LookupCache =
  lc_entries :: "node_id \<Rightarrow> CachedLookup option"
  lc_default_ttl :: nat
  lc_max_size :: nat
  lc_hits :: u64
  lc_misses :: u64
  lc_evictions :: u64
  lc_insertions :: u64

definition LookupCache_new :: "nat \<Rightarrow> LookupCache" where
  "LookupCache_new max_size =
     \<lparr>lc_entries = Map.empty, lc_default_ttl = DEFAULT_CACHE_TTL, lc_max_size = max_size, lc_hits = 0, lc_misses = 0,
      lc_evictions = 0, lc_insertions = 0\<rparr>"

text \<open>\<open>HashMap::retain\<close>\<close>

definition retain :: "('k \<Rightarrow> 'v \<Rightarrow> bool) \<Rightarrow> ('k \<Rightarrow> 'v option) \<Rightarrow> 'k \<Rightarrow> 'v option" where
  "retain P m = (\<lambda>k. case m k of Some v \<Rightarrow> if P k v then Some v else None | None \<Rightarrow> None)"

definition cleanup_expired :: "nat \<Rightarrow> LookupCache \<Rightarrow> LookupCache" where
  "cleanup_expired now c = c\<lparr>lc_entries := retain (\<lambda>_ e. entry_is_valid now e) (lc_entries c)\<rparr>"

definition cache_get :: "nat \<Rightarrow> node_id \<Rightarrow> LookupCache \<Rightarrow> node_id list option \<times> LookupCache" where
  "cache_get now target c =
     (let c1 = cleanup_expired now c;
          miss = (None, c1\<lparr>lc_misses := lc_misses c1 + 1\<rparr>) in
      case lc_entries c1 target of
        Some e \<Rightarrow>
          if entry_is_valid now e then
            (Some (cl_results e),
             c1\<lparr>lc_entries := (lc_entries c1)(target \<mapsto> e\<lparr>cl_hits := cl_hits e + 1\<rparr>), lc_hits := lc_hits c1 + 1\<rparr>)
          else miss
      | None \<Rightarrow> miss)"

definition evict_lru :: "node_id list \<Rightarrow> LookupCache \<Rightarrow> LookupCache" where
  "evict_lru keys c =
     (case min_by_key (\<lambda>k. cl_cached_at (the (lc_entries c k))) keys of
        Some oldest_key \<Rightarrow> c\<lparr>lc_entries := (lc_entries c)(oldest_key := None), lc_evictions := lc_evictions c + 1\<rparr>
      | None \<Rightarrow> c)"

definition insert_with_ttl :: "nat \<Rightarrow> node_id list \<Rightarrow> node_id \<Rightarrow> node_id list \<Rightarrow> nat \<Rightarrow> LookupCache \<Rightarrow> LookupCache" where
  "insert_with_ttl now keys target results ttl c =
     (let c1 = (if length keys \<ge> lc_max_size c \<and> lc_entries c target = None then evict_lru keys c else c)
      in c1\<lparr>lc_entries := (lc_entries c1)(target \<mapsto> CachedLookup_new now target results ttl), lc_insertions := lc_insertions c1 + 1\<rparr>)"

definition cache_invalidate :: "node_id \<Rightarrow> LookupCache \<Rightarrow> LookupCache" where
  "cache_invalidate target c = c\<lparr>lc_entries := (lc_entries c)(target := None)\<rparr>"

definition invalidate_containing :: "node_id \<Rightarrow> LookupCache \<Rightarrow> LookupCache" where
  "invalidate_containing n c = c\<lparr>lc_entries := retain (\<lambda>_ e. n \<notin> set (cl_results e)) (lc_entries c)\<rparr>"

definition cache_clear :: "LookupCache \<Rightarrow> LookupCache" where
  "cache_clear c = c\<lparr>lc_entries := Map.empty\<rparr>"

section \<open>Iterative lookup\<close>

record LookupConfig =
  lk_parallelism :: nat
  lk_result_count :: nat
  lk_max_iterations :: nat
  lk_use_cache :: bool
  lk_query_timeout :: nat

definition LookupConfig_default :: LookupConfig where
  "LookupConfig_default = \<lparr>lk_parallelism = DEFAULT_LOOKUP_PARALLELISM, lk_result_count = K_BUCKET_SIZE,
     lk_max_iterations = MAX_LOOKUP_ITERATIONS, lk_use_cache = True, lk_query_timeout = 5\<rparr>"

definition LookupConfig_fast :: LookupConfig where
  "LookupConfig_fast = \<lparr>lk_parallelism = 5, lk_result_count = K_BUCKET_SIZE, lk_max_iterations = 10, lk_use_cache = True,
     lk_query_timeout = 2\<rparr>"

definition LookupConfig_thorough :: LookupConfig where
  "LookupConfig_thorough = \<lparr>lk_parallelism = 3, lk_result_count = K_BUCKET_SIZE * 2, lk_max_iterations = MAX_LOOKUP_ITERATIONS,
     lk_use_cache = False, lk_query_timeout = 10\<rparr>"

record LookupState =
  ls_target :: node_id
  ls_config :: LookupConfig
  ls_queried :: "node_id list"
  ls_pending :: "node_id list"
  ls_results :: "node_id list"
  ls_iteration :: nat
  ls_complete :: bool

definition LookupState_new :: "node_id \<Rightarrow> node_id list \<Rightarrow> LookupConfig \<Rightarrow> LookupState" where
  "LookupState_new target initial_nodes cfg =
     \<lparr>ls_target = target, ls_config = cfg, ls_queried = [],
      ls_pending = remdups_adj (sort_key (xor_distance target) initial_nodes),
      ls_results = [], ls_iteration = 0, ls_complete = False\<rparr>"

fun batch_loop :: "nat \<Rightarrow> node_id list \<Rightarrow> node_id list \<Rightarrow> node_id list \<Rightarrow> node_id list \<times> node_id list" where
  "batch_loop parallelism queried batch [] = (batch, [])"
| "batch_loop parallelism queried batch (n # pending) =
     (if length batch < parallelism
      then batch_loop parallelism queried (if n \<notin> set queried then batch @ [n] else batch) pending
      else (batch, n # pending))"

definition next_batch :: "LookupState \<Rightarrow> node_id list \<times> LookupState" where
  "next_batch s =
     (case batch_loop (lk_parallelism (ls_config s)) (ls_queried s) [] (ls_pending s) of
        (batch, pending) \<Rightarrow> (batch, s\<lparr>ls_pending := pending\<rparr>))"

text \<open>
  \<open>binary_search_by_key\<close> on a sorted list that has no element with the key returns the number
  of elements with a smaller key; \<open>pending\<close> is sorted and does not contain the node.
\<close>

definition insert_pos :: "node_id \<Rightarrow> node_id \<Rightarrow> node_id list \<Rightarrow> nat" where
  "insert_pos target n pending = length (takeWhile (\<lambda>m. xor_distance target m < xor_distance target n) pending)"

definition lookup_add_pending :: "node_id \<Rightarrow> LookupState \<Rightarrow> LookupState" where
  "lookup_add_pending n s =
     (if n \<notin> set (ls_queried s) \<and> n \<notin> set (ls_pending s) then
        let pos = insert_pos (ls_target s) n (ls_pending s)
        in s\<lparr>ls_pending := take pos (ls_pending s) @ n # drop pos (ls_pending s)\<rparr>
      else s)"

definition add_response :: "node_id \<times> node_id list \<Rightarrow> LookupState \<Rightarrow> LookupState" where
  "add_response r s = fold lookup_add_pending (snd r) (s\<lparr>ls_queried := ls_queried s @ [fst r]\<rparr>)"

definition update_results :: "LookupState \<Rightarrow> LookupState" where
  "update_results s =
     s\<lparr>ls_results := take (lk_result_count (ls_config s))
        (remdups_adj (sort_key (xor_distance (ls_target s)) (ls_queried s @ ls_pending s)))\<rparr>"

definition check_complete :: "LookupState \<Rightarrow> LookupState" where
  "check_complete s =
     (if ls_pending s = [] \<or> ls_iteration s \<ge> lk_max_iterations (ls_config s) then s\<lparr>ls_complete := True\<rparr> else s)"

definition check_converged :: "LookupState \<Rightarrow> LookupState" where
  "check_converged s =
     (if ls_results s \<noteq> [] \<and> ls_pending s \<noteq> [] then
        let best_result_dist = xor_distance (ls_target s) (hd (ls_results s));
            best_pending_dist = xor_distance (ls_target s) (hd (ls_pending s))
        in if best_pending_dist \<ge> best_result_dist \<and> length (ls_results s) \<ge> lk_result_count (ls_config s)
           then s\<lparr>ls_complete := True\<rparr> else s
      else s)"

definition process_responses :: "(node_id \<times> node_id list) list \<Rightarrow> LookupState \<Rightarrow> LookupState" where
  "process_responses responses s =
     (let s1 = update_results (fold add_response responses s);
          s2 = s1\<lparr>ls_iteration := ls_iteration s1 + 1\<rparr>
      in check_converged (check_complete s2))"

section \<open>Churn\<close>

record ChurnTracker =
  ct_arrivals :: "(nat \<times> node_id) list"
  ct_departures :: "(nat \<times> node_id) list"
  ct_window :: nat

definition ChurnTracker_new :: ChurnTracker where
  "ChurnTracker_new = \<lparr>ct_arrivals = [], ct_departures = [], ct_window = CHURN_WINDOW\<rparr>"

definition in_window :: "nat \<Rightarrow> nat \<Rightarrow> (nat \<times> node_id) list \<Rightarrow> (nat \<times> node_id) list" where
  "in_window now window evs = filter (\<lambda>(t, _). now - t < window) evs"

definition churn_cleanup :: "nat \<Rightarrow> ChurnTracker \<Rightarrow> ChurnTracker" where
  "churn_cleanup now c =
     c\<lparr>ct_arrivals := in_window now (ct_window c) (ct_arrivals c), ct_departures := in_window now (ct_window c) (ct_departures c)\<rparr>"

definition record_arrival :: "nat \<Rightarrow> node_id \<Rightarrow> ChurnTracker \<Rightarrow> ChurnTracker" where
  "record_arrival now n c = (let c1 = churn_cleanup now c in c1\<lparr>ct_arrivals := ct_arrivals c1 @ [(now, n)]\<rparr>)"

definition record_departure :: "nat \<Rightarrow> node_id \<Rightarrow> ChurnTracker \<Rightarrow> ChurnTracker" where
  "record_departure now n c = (let c1 = churn_cleanup now c in c1\<lparr>ct_departures := ct_departures c1 @ [(now, n)]\<rparr>)"

definition arrival_count :: "nat \<Rightarrow> ChurnTracker \<Rightarrow> nat" where
  "arrival_count now c = length (in_window now (ct_window c) (ct_arrivals c))"

definition departure_count :: "nat \<Rightarrow> ChurnTracker \<Rightarrow> nat" where
  "departure_count now c = length (in_window now (ct_window c) (ct_departures c))"

definition churn_rate :: "nat \<Rightarrow> ChurnTracker \<Rightarrow> rat" where
  "churn_rate now c = of_nat (arrival_count now c + departure_count now c) / (of_nat (ct_window c) / 60)"

definition recommended_cache_ttl :: "nat \<Rightarrow> ChurnTracker \<Rightarrow> nat" where
  "recommended_cache_ttl now c =
     (let rate = churn_rate now c in
      if rate < 1 then 600 else if rate < 5 then 300 else if rate < 10 then 60 else 15)"

section \<open>Routing table\<close>

record Dht =
  dht_local_id :: node_id
  dht_table :: "node_id \<Rightarrow> PeerInfo option"
  dht_cache :: LookupCache
  dht_churn :: ChurnTracker

definition Dht_new :: "node_id \<Rightarrow> Dht" where
  "Dht_new local = \<lparr>dht_local_id = local, dht_table = Map.empty, dht_cache = LookupCache_new DEFAULT_LOOKUP_CACHE_SIZE, dht_churn = ChurnTracker_new\<rparr>"

definition evict_old_peers :: "nat \<Rightarrow> Dht \<Rightarrow> Dht" where
  "evict_old_peers now d = d\<lparr>dht_table := retain (\<lambda>_ p. peer_is_alive now p) (dht_table d)\<rparr>"

definition insert_peer :: "nat \<Rightarrow> PeerInfo \<Rightarrow> Dht \<Rightarrow> Dht" where
  "insert_peer now peer d =
     (if pi_node_id peer \<noteq> dht_local_id d then
        let is_new = (dht_table d (pi_node_id peer) = None);
            d1 = evict_old_peers now (d\<lparr>dht_table := (dht_table d)(pi_node_id peer \<mapsto> peer)\<rparr>)
        in if is_new
           then d1\<lparr>dht_churn := record_arrival now (pi_node_id peer) (dht_churn d1),
                   dht_cache := invalidate_containing (pi_node_id peer) (dht_cache d1)\<rparr>
           else d1
      else d)"

definition find_closest_uncached :: "node_id list \<Rightarrow> node_id \<Rightarrow> nat \<Rightarrow> Dht \<Rightarrow> node_id list" where
  "find_closest_uncached keys target k d =
     (let peers = sort_key (xor_distance (dht_local_id d)) keys;
          peers' = (if target \<noteq> dht_local_id d then sort_key (xor_distance target) peers else peers)
      in take k peers')"

definition find_closest :: "nat \<Rightarrow> node_id list \<Rightarrow> node_id list \<Rightarrow> node_id \<Rightarrow> nat \<Rightarrow> Dht \<Rightarrow> node_id list \<times> Dht" where
  "find_closest now keys cache_keys target k d =
     (let (cached, d1) = (if k = K_BUCKET_SIZE
            then (case cache_get now target (dht_cache d) of (r, c) \<Rightarrow> (r, d\<lparr>dht_cache := c\<rparr>))
            else (None, d)) in
      case cached of
        Some r \<Rightarrow> (r, d1)
      | None \<Rightarrow>
          let result = find_closest_uncached keys target k d1;
              d2 = (if k = K_BUCKET_SIZE \<and> result \<noteq> []
                    then d1\<lparr>dht_cache := insert_with_ttl now cache_keys target result (recommended_cache_ttl now (dht_churn d1)) (dht_cache d1)\<rparr>
                    else d1)
          in (result, d2))"

definition find_closest_by_latency :: "nat \<Rightarrow> node_id list \<Rightarrow> nat \<Rightarrow> Dht \<Rightarrow> node_id list" where
  "find_closest_by_latency now keys k d =
     take k (sort_key (\<lambda>n. the (pi_latency_ms (the (dht_table d n))))
       (filter (\<lambda>n. peer_is_alive now (the (dht_table d n)) \<and> pi_latency_ms (the (dht_table d n)) \<noteq> None) keys))"

definition update_peer_latency :: "nat \<Rightarrow> node_id \<Rightarrow> nat \<Rightarrow> Dht \<Rightarrow> Dht" where
  "update_peer_latency now n l d =
     (case dht_table d n of
        None \<Rightarrow> d
      | Some p \<Rightarrow> d\<lparr>dht_table := (dht_table d)(n \<mapsto> update_seen now (set_latency l p))\<rparr>)"

definition route_to :: "nat \<Rightarrow> node_id list \<Rightarrow> node_id \<Rightarrow> Dht \<Rightarrow> PeerInfo option" where
  "route_to now keys target d =
     (case dht_table d target of
        Some p \<Rightarrow> Some p
      | None \<Rightarrow> min_by_key (\<lambda>p. xor_distance target (pi_node_id p)) (filter (peer_is_alive now) (map (\<lambda>n. the (dht_table d n)) keys)))"

definition remove_peer :: "nat \<Rightarrow> node_id \<Rightarrow> Dht \<Rightarrow> PeerInfo option \<times> Dht" where
  "remove_peer now n d =
     (case dht_table d n of
        None \<Rightarrow> (None, d)
      | Some p \<Rightarrow>
          (Some p, d\<lparr>dht_table := (dht_table d)(n := None), dht_churn := record_departure now n (dht_churn d),
                     dht_cache := invalidate_containing n (dht_cache d)\<rparr>))"

section \<open>Routing replica\<close>

record RoutingReplica =
  rr_entries :: "node_id \<Rightarrow> PeerInfo option"
  rr_last_sync :: nat
  rr_max_entries :: nat

definition RoutingReplica_new :: "nat \<Rightarrow> nat \<Rightarrow> RoutingReplica" where
  "RoutingReplica_new now max_entries = \<lparr>rr_entries = Map.empty, rr_last_sync = now, rr_max_entries = max_entries\<rparr>"

text \<open>The loop that trims the copy, over the keys that are left.\<close>

function trim :: "nat \<Rightarrow> node_id list \<Rightarrow> (node_id \<Rightarrow> PeerInfo option) \<Rightarrow> node_id \<Rightarrow> PeerInfo option" where
  "trim n keys m =
     (if length keys > n then
        (case min_by_key (\<lambda>k. pi_last_seen (the (m k))) keys of
           Some oldest \<Rightarrow> trim n (remove1 oldest keys) (m(oldest := None))
         | None \<Rightarrow> m)
      else m)"
  by pat_completeness auto
termination
  by (relation "measure (\<lambda>(n, keys, m). length keys)") (auto dest: min_by_key_spec simp: length_remove1)

declare trim.simps [simp del]

definition sync_from :: "nat \<Rightarrow> node_id list \<Rightarrow> (node_id \<Rightarrow> PeerInfo option) \<Rightarrow> RoutingReplica \<Rightarrow> RoutingReplica" where
  "sync_from now keys primary r = r\<lparr>rr_entries := trim (rr_max_entries r) keys primary, rr_last_sync := now\<rparr>"

end
