(* ===== verification/Dht_Correct.thy ===== *)
theory Dht_Correct
  imports Dht
begin

text \<open>
  The theorems on the distributed hash table: the XOR distance is a metric that tells nodes
  apart, queries return the nearest peers whatever the order of the hash map, the iterative
  lookup keeps its candidates sorted, reports the nearest nodes it has seen and ends. Two ways
  in which the code misses nodes are proved as well: a lookup counts as converged as soon as it
  knows enough nodes, and a cached answer survives the arrival of a nearer peer.
\<close>

unbundle bit_operations_syntax

section \<open>Distance\<close>

definition be_word :: "u8 list \<Rightarrow> u128" where
  "be_word xs = fold (\<lambda>x result. push_bit 8 result OR ucast x) xs 0"

lemma be_word_Nil [simp]: "be_word [] = 0"
  by (simp add: be_word_def)

lemma be_word_snoc: "be_word (xs @ [x]) = push_bit 8 (be_word xs) OR ucast x"
  by (simp add: be_word_def)

lemma bit_be_word_snoc:
  "bit (be_word (xs @ [x])) n \<longleftrightarrow> n < 128 \<and> (if n < 8 then bit x n else bit (be_word xs) (n - 8))"
  by (auto simp: be_word_snoc bit_simps dest: bit_imp_le_length)

lemma bit_be_word_bound: "bit (be_word xs) n \<Longrightarrow> n < 8 * length xs"
proof (induction xs arbitrary: n rule: rev_induct)
  case (snoc x xs)
  have "n < 8 \<or> n - 8 < 8 * length xs" using snoc by (auto simp: bit_be_word_snoc split: if_splits)
  then show ?case by auto
qed simp

lemma be_word_inj:
  assumes "length xs = length ys" and "length xs \<le> 16" and "be_word xs = be_word ys"
  shows "xs = ys"
  using assms
proof (induction xs arbitrary: ys rule: rev_induct)
  case (snoc x xs)
  then obtain y ys' where ys: "ys = ys' @ [y]" "length xs = length ys'" by (cases ys rule: rev_cases) auto
  have bits: "bit (be_word (xs @ [x])) n = bit (be_word (ys' @ [y])) n" for n using snoc.prems ys by simp
  have "bit x n = bit y n" if "n < 8" for n using bits [of n] that by (simp add: bit_be_word_snoc)
  then have "x = y" by (intro bit_word_eqI) simp
  moreover have "bit (be_word xs) n = bit (be_word ys') n" for n
  proof (cases "n < 120")
    case True
    then show ?thesis using bits [of "n + 8"] by (simp add: bit_be_word_snoc)
  next
    case False
    then show ?thesis using bit_be_word_bound [of xs n] bit_be_word_bound [of ys' n] snoc.prems(2) ys(2) by auto
  qed
  then have "be_word xs = be_word ys'" by (intro bit_word_eqI) simp
  ultimately show ?case using snoc.IH [OF ys(2)] snoc.prems(2) ys(1) by simp
qed simp

lemma be_word_xor: "length xs = length ys \<Longrightarrow> be_word (map2 (XOR) xs ys) = be_word xs XOR be_word ys"
proof (induction xs arbitrary: ys rule: rev_induct)
  case (snoc x xs)
  then obtain y ys' where ys: "ys = ys' @ [y]" "length xs = length ys'" by (cases ys rule: rev_cases) auto
  then show ?case using snoc.IH [OF ys(2)] by (intro bit_word_eqI) (simp add: bit_be_word_snoc bit_simps)
qed simp

lemma xor_distance_eq:
  assumes "nid_ok a" and "nid_ok b"
  shows "xor_distance a b = be_word a XOR be_word b"
proof -
  have "xor_distance a b = be_word (map (\<lambda>i. a ! i XOR b ! i) [0..<16])"
    by (simp add: xor_distance_def be_word_def fold_map comp_def)
  also have "map (\<lambda>i. a ! i XOR b ! i) [0..<16] = map2 (XOR) a b"
    using assms by (intro nth_equalityI) (auto simp: nid_ok_def)
  finally show ?thesis using assms by (simp add: be_word_xor nid_ok_def)
qed

lemma xor_distance_inj:
  assumes "nid_ok t" "nid_ok a" "nid_ok b" and "xor_distance t a = xor_distance t b"
  shows "a = b"
proof -
  have "be_word t XOR be_word a = be_word t XOR be_word b" using assms by (simp add: xor_distance_eq)
  then have "be_word t XOR (be_word t XOR be_word a) = be_word t XOR (be_word t XOR be_word b)" by simp
  then have "be_word a = be_word b" by (simp add: xor.assoc [symmetric])
  then show ?thesis using assms be_word_inj [of a b] by (simp add: nid_ok_def)
qed

lemma xor_le_plus: "unat (x XOR y) \<le> unat x + unat (y :: 'a :: len word)"
proof -
  have "uint x + uint y = (uint x AND uint y) + (uint x OR uint y)" by (simp add: plus_and_or)
  also have "uint x OR uint y = (uint x AND uint y) + (uint x XOR uint y)"
    by (subst disjunctive_add) (auto intro!: bit_eqI simp: bit_simps)
  finally have "uint (x XOR y) \<le> uint x + uint y" by (simp add: uint_xor)
  then show ?thesis by (metis of_nat_add of_nat_le_iff uint_nat)
qed

text \<open>
  The XOR distance of 16-byte identifiers is a metric: it is 0 exactly for equal nodes, it
  is symmetric and satisfies the triangle inequality; and no two nodes have the same distance
  from a third.
\<close>

theorem xor_distance_metric:
  assumes "nid_ok a" and "nid_ok b" and "nid_ok c"
  shows "(xor_distance a b = 0 \<longleftrightarrow> a = b) \<and> xor_distance a b = xor_distance b a \<and>
    unat (xor_distance a c) \<le> unat (xor_distance a b) + unat (xor_distance b c) \<and>
    (xor_distance a b = xor_distance a c \<longleftrightarrow> b = c)"
proof -
  have "xor_distance a b = xor_distance a a \<longleftrightarrow> a = b" using xor_distance_inj [of a b a] assms by auto
  moreover have "xor_distance a a = 0" using assms by (simp add: xor_distance_eq)
  moreover have "xor_distance a c = xor_distance a b XOR xor_distance b c"
    using assms by (simp add: xor_distance_eq xor.assoc)
  ultimately show ?thesis
    using assms xor_le_plus [of "xor_distance a b" "xor_distance b c"] xor_distance_inj [of a b c]
    by (auto simp: xor_distance_eq xor.commute)
qed

theorem xor_distance_metric_witness:
  "unat (xor_distance (replicate 16 1) (replicate 16 3)) \<le>
   unat (xor_distance (replicate 16 1) (replicate 16 2)) + unat (xor_distance (replicate 16 2) (replicate 16 3))"
  by (rule xor_distance_metric [THEN conjunct2, THEN conjunct2, THEN conjunct1]) (simp_all add: nid_ok_def)

section \<open>Nearest peers\<close>

lemma dist_inj: "nid_ok t \<Longrightarrow> \<forall>n \<in> A. nid_ok n \<Longrightarrow> inj_on (xor_distance t) A"
  by (auto intro!: inj_onI xor_distance_inj)

lemma sort_key_same_set:
  assumes "inj_on f (set xs)" and "distinct xs" "distinct ys" "set ys = set xs"
  shows "sort_key f ys = sort_key f xs"
  using assms by (intro map_sorted_distinct_set_unique [of f]) (auto simp: distinct_map)

lemma nearest_take:
  assumes xs: "sorted (map f xs)" "distinct xs" and inj: "inj_on f (set xs)"
  shows "p \<in> set xs - set (take k xs) \<Longrightarrow> q \<in> set (take k xs) \<Longrightarrow> f q < f p"
proof -
  assume p: "p \<in> set xs - set (take k xs)" and q: "q \<in> set (take k xs)"
  have split: "set xs = set (take k xs) \<union> set (drop k xs)" by (metis append_take_drop_id set_append)
  have "sorted (map f (take k xs @ drop k xs))" using xs(1) by simp
  then have "f q \<le> f p" using p q split unfolding map_append sorted_append by auto
  moreover have "f q \<noteq> f p" using inj p q split by (metis DiffD1 DiffD2 UnI1 inj_onD)
  ultimately show ?thesis by simp
qed

text \<open>
  \<open>find_closest\<close> without the cache returns the nearest peers. The answer is the \<open>k\<close> peers of
  the routing table nearest to the target, or all if there are fewer, without repetition,
  nearest first, every other peer is strictly farther away, and it does not depend on the
  order in which the hash map is iterated.
\<close>

theorem find_closest_nearest:
  assumes keys: "distinct keys" "set keys = dom (dht_table d)" and ok: "\<forall>n \<in> dom (dht_table d). nid_ok n" "nid_ok target" "nid_ok (dht_local_id d)"
    and r: "r = find_closest_uncached keys target k d"
  shows "length r = min k (card (dom (dht_table d))) \<and> distinct r \<and> sorted (map (xor_distance target) r) \<and>
    set r \<subseteq> dom (dht_table d) \<and> (\<forall>p \<in> dom (dht_table d) - set r. \<forall>q \<in> set r. xor_distance target q < xor_distance target p) \<and>
    (\<forall>keys'. distinct keys' \<longrightarrow> set keys' = dom (dht_table d) \<longrightarrow> find_closest_uncached keys' target k d = r)"
proof -
  let ?f = "xor_distance target" and ?s = "sort_key (xor_distance target) keys"
  have inj: "inj_on ?f (set keys)" "inj_on (xor_distance (dht_local_id d)) (set keys)"
    using keys(2) ok by (auto intro!: dist_inj)
  have eq: "find_closest_uncached keys' target k d = take k ?s" if "distinct keys'" "set keys' = set keys" for keys'
  proof -
    have "sort_key ?f (sort_key (xor_distance (dht_local_id d)) keys') = ?s"
      using that keys inj by (intro sort_key_same_set) auto
    moreover have "sort_key (xor_distance (dht_local_id d)) keys' = ?s" if "target = dht_local_id d"
      using that \<open>distinct keys'\<close> \<open>set keys' = set keys\<close> keys(1) inj sort_key_same_set [of ?f keys keys'] by simp
    ultimately show ?thesis by (simp add: find_closest_uncached_def Let_def)
  qed
  have r: "r = take k ?s" using r eq keys(1) by simp
  have "length keys = card (dom (dht_table d))" using keys by (metis distinct_card)
  moreover have "sorted (map ?f r)" unfolding r take_map [symmetric] by (intro sorted_wrt_take) simp
  moreover have "set r \<subseteq> dom (dht_table d)" using r keys(2) set_take_subset [of k ?s] by auto
  moreover have "\<forall>p \<in> dom (dht_table d) - set r. \<forall>q \<in> set r. ?f q < ?f p"
    using nearest_take [of ?f ?s _ k] inj(1) keys r by auto
  moreover have "\<forall>keys'. distinct keys' \<longrightarrow> set keys' = dom (dht_table d) \<longrightarrow> find_closest_uncached keys' target k d = r"
    using eq r keys(2) by auto
  ultimately show ?thesis using r keys(1) by simp
qed

theorem find_closest_nearest_witness:
  "length (find_closest_uncached [replicate 16 2, replicate 16 1] (replicate 16 3) 1
     (Dht_new (replicate 16 0)\<lparr>dht_table := [replicate 16 1 \<mapsto> PeerInfo_new 0 (replicate 16 1) ''a'', replicate 16 2 \<mapsto> PeerInfo_new 0 (replicate 16 2) ''b'']\<rparr>)) = 1"
proof -
  let ?d = "Dht_new (replicate 16 0)\<lparr>dht_table := [replicate 16 1 \<mapsto> PeerInfo_new 0 (replicate 16 1) ''a'', replicate 16 2 \<mapsto> PeerInfo_new 0 (replicate 16 2) ''b'']\<rparr>"
  have dom: "dom (dht_table ?d) = {replicate 16 2, replicate 16 1}" by (simp add: dom_def) (auto split: if_splits)
  have "length (find_closest_uncached [replicate 16 2, replicate 16 1] (replicate 16 3) 1 ?d) = min 1 (card (dom (dht_table ?d)))"
    by (rule find_closest_nearest [OF _ _ _ _ _ refl, THEN conjunct1]) (simp_all add: dom nid_ok_def Dht_new_def)
  then show ?thesis unfolding dom by simp
qed

section \<open>Iterative lookup\<close>

definition lookup_ok :: "LookupState \<Rightarrow> bool" where
  "lookup_ok s \<longleftrightarrow> nid_ok (ls_target s) \<and> (\<forall>n \<in> set (ls_queried s) \<union> set (ls_pending s). nid_ok n) \<and>
     distinct (ls_pending s) \<and> sorted (map (xor_distance (ls_target s)) (ls_pending s))"

lemma remdups_adj_strict:
  "inj_on f (set xs) \<Longrightarrow> sorted (map f xs) \<Longrightarrow> sorted_wrt (\<lambda>a b. f a < f b) (remdups_adj xs)"
proof (induction xs rule: remdups_adj.induct)
  case (3 x y xs)
  show ?case
  proof (cases "x = y")
    case False
    then have "f x < f y" using 3(3,4) by (metis inj_onD insertCI le_less list.simps(9) list.simps(15) sorted2)
    then have "\<forall>z \<in> set (y # xs). f x < f z" using 3(4) by auto
    then show ?thesis using 3 False by (simp add: inj_on_def)
  qed (use 3 in \<open>simp add: inj_on_def\<close>)
qed auto

lemma strict_sorted: "sorted_wrt (\<lambda>a b. f a < f b) ys \<Longrightarrow> distinct ys \<and> sorted (map f ys)"
  by (induction ys) (auto intro: less_imp_le)

lemma remdups_adj_sorted:
  assumes "inj_on f (set xs)" and "sorted (map f xs)"
  shows "distinct (remdups_adj xs)" "sorted (map f (remdups_adj xs))"
  using strict_sorted [OF remdups_adj_strict [OF assms]] by auto

definition same_goal :: "LookupState \<Rightarrow> LookupState \<Rightarrow> bool" where
  "same_goal s s' \<longleftrightarrow> ls_target s' = ls_target s \<and> ls_config s' = ls_config s \<and> ls_iteration s' = ls_iteration s"

lemma distinct_insert_at: "distinct xs \<Longrightarrow> n \<notin> set xs \<Longrightarrow> distinct (take p xs @ n # drop p xs)"
  using distinct_append [of "take p xs" "drop p xs"] by (auto dest: in_set_takeD in_set_dropD)

lemma set_insert_at: "set (take p xs @ n # drop p xs) = insert n (set xs)"
  using set_append [of "take p xs" "drop p xs"] by auto

lemma insert_sorted_at:
  fixes f :: "'a \<Rightarrow> 'b :: linorder" and xs n
  assumes "sorted (map f xs)"
  defines "p \<equiv> length (takeWhile (\<lambda>m. f m < f n) xs)"
  shows "sorted (map f (take p xs @ n # drop p xs))"
proof -
  have t: "take p xs = takeWhile (\<lambda>m. f m < f n) xs" "drop p xs = dropWhile (\<lambda>m. f m < f n) xs"
    by (simp_all add: p_def takeWhile_eq_take [symmetric] dropWhile_eq_drop [symmetric])
  have "sorted (map f (takeWhile (\<lambda>m. f m < f n) xs @ dropWhile (\<lambda>m. f m < f n) xs))" using assms(1) by simp
  moreover have "f n \<le> f m" if m: "m \<in> set (dropWhile (\<lambda>m. f m < f n) xs)" for m
  proof -
    let ?d = "dropWhile (\<lambda>m. f m < f n) xs"
    have ne: "?d \<noteq> []" using m by (metis empty_iff list.set(1))
    have "sorted (map f ?d)" using assms(1) by (metis map_append sorted_append takeWhile_dropWhile_id)
    then have "f (hd ?d) \<le> f m" using m ne by (cases ?d) auto
    moreover have "\<not> f (hd ?d) < f n" using hd_dropWhile [of "\<lambda>m. f m < f n" xs] ne by auto
    ultimately show ?thesis by simp
  qed
  moreover have "f m \<le> f n" if "m \<in> set (takeWhile (\<lambda>m. f m < f n) xs)" for m
    using set_takeWhileD [OF that] by (auto intro: less_imp_le)
  ultimately show ?thesis unfolding t map_append sorted_append by auto
qed

lemma add_pending_ok:
  assumes ok: "lookup_ok s" and n: "nid_ok n"
  shows "lookup_ok (lookup_add_pending n s) \<and> same_goal s (lookup_add_pending n s) \<and> ls_queried (lookup_add_pending n s) = ls_queried s \<and>
    set (ls_queried s) \<union> set (ls_pending (lookup_add_pending n s)) = insert n (set (ls_queried s) \<union> set (ls_pending s))"
proof (cases "n \<in> set (ls_queried s) \<or> n \<in> set (ls_pending s)")
  case True
  then show ?thesis using ok by (auto simp: lookup_add_pending_def same_goal_def)
next
  case False
  let ?p = "insert_pos (ls_target s) n (ls_pending s)"
  have "sorted (map (xor_distance (ls_target s)) (take ?p (ls_pending s) @ n # drop ?p (ls_pending s)))"
    unfolding insert_pos_def using ok by (intro insert_sorted_at) (simp add: lookup_ok_def)
  then show ?thesis
    using ok n False distinct_insert_at [of "ls_pending s" n ?p] set_insert_at [of ?p "ls_pending s" n]
    by (simp add: lookup_add_pending_def Let_def lookup_ok_def same_goal_def)
qed

lemma add_response_ok:
  assumes ok: "lookup_ok s" and r: "nid_ok (fst r)" "\<forall>n \<in> set (snd r). nid_ok n"
  shows "lookup_ok (add_response r s) \<and> same_goal s (add_response r s) \<and> ls_queried (add_response r s) = ls_queried s @ [fst r] \<and>
    set (ls_queried (add_response r s)) \<union> set (ls_pending (add_response r s)) =
      insert (fst r) (set (snd r) \<union> set (ls_queried s) \<union> set (ls_pending s))"
proof -
  have fold: "lookup_ok (fold lookup_add_pending ns s) \<and> same_goal s (fold lookup_add_pending ns s) \<and> ls_queried (fold lookup_add_pending ns s) = ls_queried s \<and>
      set (ls_queried s) \<union> set (ls_pending (fold lookup_add_pending ns s)) = set ns \<union> set (ls_queried s) \<union> set (ls_pending s)"
    if "lookup_ok s" "\<forall>n \<in> set ns. nid_ok n" for ns s
    using that
  proof (induction ns arbitrary: s)
    case (Cons n ns)
    then show ?case using add_pending_ok [of s n] Cons.IH [of "lookup_add_pending n s"] by (auto simp: same_goal_def)
  qed (simp add: same_goal_def)
  have "lookup_ok (s\<lparr>ls_queried := ls_queried s @ [fst r]\<rparr>)" using ok r by (auto simp: lookup_ok_def)
  from fold [OF this r(2)] show ?thesis by (simp add: add_response_def same_goal_def)
qed

definition responses_ok :: "(node_id \<times> node_id list) list \<Rightarrow> bool" where
  "responses_ok rs \<longleftrightarrow> (\<forall>(from, ns) \<in> set rs. nid_ok from \<and> (\<forall>n \<in> set ns. nid_ok n))"

lemma add_responses_ok:
  assumes "lookup_ok s" and "responses_ok rs"
  shows "lookup_ok (fold add_response rs s) \<and> same_goal s (fold add_response rs s) \<and>
    set (ls_queried (fold add_response rs s)) \<union> set (ls_pending (fold add_response rs s)) =
      (\<Union>(from, ns) \<in> set rs. insert from (set ns)) \<union> set (ls_queried s) \<union> set (ls_pending s)"
  using assms
proof (induction rs arbitrary: s)
  case (Cons r rs)
  then show ?case
    using add_response_ok [of s r] Cons.IH [of "add_response r s"] by (cases r) (auto simp: same_goal_def responses_ok_def)
qed (simp add: same_goal_def)

text \<open>The nodes a lookup has seen, and the first \<open>k\<close> of them by distance.\<close>

definition seen :: "LookupState \<Rightarrow> node_id set" where
  "seen s = set (ls_queried s) \<union> set (ls_pending s)"

definition nearest :: "node_id \<Rightarrow> nat \<Rightarrow> node_id set \<Rightarrow> node_id list \<Rightarrow> bool" where
  "nearest target k A r \<longleftrightarrow> distinct r \<and> sorted (map (xor_distance target) r) \<and> set r \<subseteq> A \<and> length r = min k (card A) \<and>
     (\<forall>p \<in> A - set r. \<forall>q \<in> set r. xor_distance target q < xor_distance target p)"

lemma update_results_nearest:
  assumes ok: "lookup_ok s"
  shows "nearest (ls_target s) (lk_result_count (ls_config s)) (seen s) (ls_results (update_results s))"
proof -
  let ?f = "xor_distance (ls_target s)" and ?k = "lk_result_count (ls_config s)"
  let ?xs = "remdups_adj (sort_key ?f (ls_queried s @ ls_pending s))"
  have set: "set ?xs = seen s" by (auto simp: seen_def)
  have inj: "inj_on ?f (seen s)" using ok by (auto intro!: dist_inj simp: lookup_ok_def seen_def)
  have d: "distinct ?xs" "sorted (map ?f ?xs)" using inj by (auto intro!: remdups_adj_sorted simp: seen_def)
  have "length ?xs = card (seen s)" using distinct_card [OF d(1)] set by simp
  moreover have "sorted (map ?f (take ?k ?xs))" unfolding take_map [symmetric] by (intro sorted_wrt_take d)
  moreover have "\<forall>p \<in> seen s - set (take ?k ?xs). \<forall>q \<in> set (take ?k ?xs). ?f q < ?f p"
    using nearest_take [OF d(2,1)] inj set by metis
  ultimately show ?thesis using d set set_take_subset [of ?k ?xs] by (auto simp: nearest_def update_results_def)
qed

lemma check_fields [simp]:
  "ls_pending (check_converged s) = ls_pending s" "ls_queried (check_converged s) = ls_queried s" "ls_results (check_converged s) = ls_results s"
  "ls_target (check_converged s) = ls_target s" "ls_config (check_converged s) = ls_config s" "ls_iteration (check_converged s) = ls_iteration s"
  "ls_pending (check_complete s) = ls_pending s" "ls_queried (check_complete s) = ls_queried s" "ls_results (check_complete s) = ls_results s"
  "ls_target (check_complete s) = ls_target s" "ls_config (check_complete s) = ls_config s" "ls_iteration (check_complete s) = ls_iteration s"
  by (simp_all add: check_converged_def check_complete_def Let_def)

lemma process_responses_ok:
  assumes ok: "lookup_ok s" and rs: "responses_ok rs"
  defines "s' \<equiv> process_responses rs s"
  shows "lookup_ok s'" "ls_target s' = ls_target s" "ls_config s' = ls_config s" "ls_iteration s' = ls_iteration s + 1"
    "seen s' = (\<Union>(from, ns) \<in> set rs. insert from (set ns)) \<union> seen s"
    "nearest (ls_target s) (lk_result_count (ls_config s)) (seen s') (ls_results s')"
    "ls_complete s' \<longleftrightarrow> ls_complete (fold add_response rs s) \<or> ls_pending s' = [] \<or> lk_max_iterations (ls_config s) \<le> ls_iteration s + 1 \<or>
       ls_results s' \<noteq> [] \<and> ls_pending s' \<noteq> [] \<and>
       xor_distance (ls_target s) (hd (ls_results s')) \<le> xor_distance (ls_target s) (hd (ls_pending s')) \<and>
       lk_result_count (ls_config s) \<le> length (ls_results s')"
proof -
  let ?f = "fold add_response rs s"
  note f = add_responses_ok [OF ok rs]
  show "lookup_ok s'" using f by (simp add: s'_def process_responses_def Let_def update_results_def lookup_ok_def)
  show "ls_target s' = ls_target s" "ls_config s' = ls_config s" "ls_iteration s' = ls_iteration s + 1"
    using f by (simp_all add: s'_def process_responses_def Let_def update_results_def same_goal_def)
  show seen: "seen s' = (\<Union>(from, ns) \<in> set rs. insert from (set ns)) \<union> seen s"
    using f by (simp add: s'_def process_responses_def Let_def update_results_def seen_def Un_assoc)
  have "seen s' = seen ?f" by (simp add: s'_def process_responses_def Let_def update_results_def seen_def)
  then show "nearest (ls_target s) (lk_result_count (ls_config s)) (seen s') (ls_results s')"
    using update_results_nearest [of ?f] f by (simp add: s'_def process_responses_def Let_def same_goal_def)
  show "ls_complete s' \<longleftrightarrow> ls_complete (fold add_response rs s) \<or> ls_pending s' = [] \<or> lk_max_iterations (ls_config s) \<le> ls_iteration s + 1 \<or>
       ls_results s' \<noteq> [] \<and> ls_pending s' \<noteq> [] \<and>
       xor_distance (ls_target s) (hd (ls_results s')) \<le> xor_distance (ls_target s) (hd (ls_pending s')) \<and>
       lk_result_count (ls_config s) \<le> length (ls_results s')"
    using f by (auto simp: s'_def process_responses_def Let_def update_results_def same_goal_def check_converged_def check_complete_def)
qed

text \<open>
  \<open>lookup_run target cfg initial n s\<close>: a lookup for \<open>target\<close> that started from the nodes
  \<open>initial\<close> is in state \<open>s\<close> after batches were taken and \<open>n\<close> rounds of responses processed.
\<close>

inductive lookup_run :: "node_id \<Rightarrow> LookupConfig \<Rightarrow> node_id list \<Rightarrow> nat \<Rightarrow> LookupState \<Rightarrow> bool" for target cfg initial where
  start: "lookup_run target cfg initial 0 (LookupState_new target initial cfg)"
| batch: "lookup_run target cfg initial n s \<Longrightarrow> lookup_run target cfg initial n (snd (next_batch s))"
| respond: "lookup_run target cfg initial n s \<Longrightarrow> responses_ok rs \<Longrightarrow> lookup_run target cfg initial (Suc n) (process_responses rs s)"

lemma batch_loop_spec:
  "batch_loop m q b ps = (b', ps') \<Longrightarrow>
   \<exists>us. ps = us @ ps' \<and> b' = b @ filter (\<lambda>n. n \<notin> set q) us \<and> (length b \<le> m \<longrightarrow> length b' \<le> m)"
proof (induction m q b ps rule: batch_loop.induct)
  case (2 m q b n ps)
  show ?case
  proof (cases "length b < m")
    case True
    from 2(1) [OF True] 2(2) True obtain us where us: "ps = us @ ps'"
        "b' = (if n \<notin> set q then b @ [n] else b) @ filter (\<lambda>n. n \<notin> set q) us"
        "length (if n \<notin> set q then b @ [n] else b) \<le> m \<longrightarrow> length b' \<le> m" by auto
    then show ?thesis using True by (intro exI [of _ "n # us"]) auto
  qed (use 2 in auto)
qed simp

lemma next_batch_spec:
  assumes "next_batch s = (b, s')"
  obtains us where "ls_pending s = us @ ls_pending s'" "b = filter (\<lambda>n. n \<notin> set (ls_queried s)) us" "length b \<le> lk_parallelism (ls_config s)"
    "s' = s\<lparr>ls_pending := ls_pending s'\<rparr>"
  using assms batch_loop_spec [of "lk_parallelism (ls_config s)" "ls_queried s" "[]" "ls_pending s"]
  by (auto simp: next_batch_def split: prod.splits)

lemma next_batch_ok:
  assumes ok: "lookup_ok s" and s': "next_batch s = (b, s')"
  shows "lookup_ok s'" "ls_complete s' = ls_complete s" "same_goal s s'"
proof -
  obtain us where us: "ls_pending s = us @ ls_pending s'" "s' = s\<lparr>ls_pending := ls_pending s'\<rparr>"
    using next_batch_spec [OF s'] by blast
  have same: "ls_target s' = ls_target s" "ls_queried s' = ls_queried s" "ls_complete s' = ls_complete s" "same_goal s s'"
    by (subst us(2), simp add: same_goal_def)+
  show "lookup_ok s'" using ok us(1) same by (auto simp: lookup_ok_def sorted_append)
  show "ls_complete s' = ls_complete s" "same_goal s s'" using same by simp_all
qed

lemma add_response_complete: "ls_complete (fold add_response rs s) = ls_complete s"
proof -
  have pend: "ls_complete (fold lookup_add_pending ns s) = ls_complete s" for ns s
    by (induction ns arbitrary: s) (simp_all add: lookup_add_pending_def Let_def)
  show ?thesis by (induction rs arbitrary: s) (simp_all add: add_response_def pend)
qed

lemma lookup_run_ok:
  assumes "lookup_run target cfg initial n s" and "nid_ok target" "\<forall>m \<in> set initial. nid_ok m"
  shows "lookup_ok s \<and> ls_target s = target \<and> ls_config s = cfg \<and> ls_iteration s = n \<and>
    (0 < n \<and> lk_max_iterations cfg \<le> n \<longrightarrow> ls_complete s)"
  using assms
proof (induction rule: lookup_run.induct)
  case start
  have "inj_on (xor_distance target) (set initial)" using start by (intro dist_inj) auto
  then show ?case
    using start remdups_adj_sorted [of "xor_distance target" "sort_key (xor_distance target) initial"]
    by (simp add: LookupState_new_def lookup_ok_def)
next
  case (batch n s)
  obtain b s' where s': "next_batch s = (b, s')" by (cases "next_batch s")
  then show ?case using batch next_batch_ok [OF _ s'] by (auto simp: same_goal_def)
next
  case (respond n s rs)
  then have ok: "lookup_ok s" by simp
  show ?case using respond process_responses_ok [OF ok respond.hyps(2)] add_response_complete [of rs s] by auto
qed



text \<open>
  A lookup stops before it has converged. The test for convergence compares the nearest
  pending node with the nearest result, but the results include the pending nodes: as soon as
  \<open>result_count\<close> nodes are known the lookup is complete, even when the node nearest to the target
  has not been queried.
\<close>

theorem lookup_stops_early:
  assumes ok: "lookup_ok s" and rs: "responses_ok rs" and k: "0 < lk_result_count (ls_config s)"
    and known: "lk_result_count (ls_config s) \<le> card (seen (process_responses rs s))"
  shows "ls_complete (process_responses rs s)"
proof -
  let ?s = "process_responses rs s"
  note p = process_responses_ok [OF ok rs]
  have len: "length (ls_results ?s) = lk_result_count (ls_config s)" using p(6) known by (simp add: nearest_def)
  have "xor_distance (ls_target s) (hd (ls_results ?s)) \<le> xor_distance (ls_target s) (hd (ls_pending ?s))" if pend: "ls_pending ?s \<noteq> []"
  proof -
    have ne: "ls_results ?s \<noteq> []" using len k by auto
    have "hd (ls_pending ?s) \<in> seen ?s" using pend by (simp add: seen_def)
    moreover have "xor_distance (ls_target s) (hd (ls_results ?s)) \<le> xor_distance (ls_target s) q" if "q \<in> set (ls_results ?s)" for q
      using p(6) that ne by (cases "ls_results ?s") (auto simp: nearest_def)
    ultimately show ?thesis
      using p(6) hd_in_set [OF ne] by (cases "hd (ls_pending ?s) \<in> set (ls_results ?s)") (auto simp: nearest_def intro!: less_imp_le)
  qed
  then show ?thesis using p(7) len k by auto
qed

theorem lookup_stops_early_witness:
  "ls_complete (process_responses [(replicate 16 9, [replicate 16 1])]
     (LookupState_new (replicate 16 0) [] LookupConfig_default\<lparr>ls_config := LookupConfig_default\<lparr>lk_result_count := 1\<rparr>\<rparr>))"
proof (rule lookup_stops_early)
  let ?s = "LookupState_new (replicate 16 0) [] LookupConfig_default\<lparr>ls_config := LookupConfig_default\<lparr>lk_result_count := 1\<rparr>\<rparr>"
  let ?rs = "[(replicate 16 9, [replicate 16 1])] :: (node_id \<times> node_id list) list"
  show ok: "lookup_ok ?s" by (simp add: lookup_ok_def LookupState_new_def nid_ok_def)
  show rs: "responses_ok ?rs" by (simp add: responses_ok_def nid_ok_def)
  show "0 < lk_result_count (ls_config ?s)" by simp
  have "seen (process_responses ?rs ?s) = {replicate 16 9, replicate 16 1}"
    using process_responses_ok(5) [OF ok rs] by (auto simp: seen_def LookupState_new_def)
  then show "lk_result_count (ls_config ?s) \<le> card (seen (process_responses ?rs ?s))" by simp
qed

section \<open>Cache\<close>

text \<open>
  A cached answer hides a nearer peer. A new peer only invalidates the cached answers that
  contain it, which none does. While an answer is cached, \<open>find_closest\<close> returns it, without the
  new peer, although the new peer is in the routing table, however near it is to the target.
\<close>

theorem cached_answer_is_stale:
  assumes e: "lc_entries (dht_cache d) target = Some e" and valid: "entry_is_valid now e"
    and p: "pi_node_id p \<noteq> dht_local_id d" "dht_table d (pi_node_id p) = None" "pi_node_id p \<notin> set (cl_results e)" "peer_is_alive now p"
    and d': "d' = insert_peer now p d"
  shows "dht_table d' (pi_node_id p) = Some p \<and> fst (find_closest now keys cache_keys target K_BUCKET_SIZE d') = cl_results e \<and>
    pi_node_id p \<notin> set (fst (find_closest now keys cache_keys target K_BUCKET_SIZE d'))"
proof -
  have "dht_table d' (pi_node_id p) = Some p" using p d' by (simp add: insert_peer_def evict_old_peers_def retain_def Let_def)
  moreover have "lc_entries (dht_cache d') target = Some e"
    using p e d' by (simp add: insert_peer_def evict_old_peers_def invalidate_containing_def retain_def Let_def)
  then have "fst (cache_get now target (dht_cache d')) = Some (cl_results e)"
    using valid by (simp add: cache_get_def cleanup_expired_def retain_def Let_def)
  then have "fst (find_closest now keys cache_keys target K_BUCKET_SIZE d') = cl_results e"
    by (auto simp: find_closest_def Let_def split: prod.splits)
  ultimately show ?thesis using p(3) by simp
qed

theorem cached_answer_is_stale_witness:
  "\<exists>d p. dht_table d (pi_node_id p) = Some p \<and>
     pi_node_id p \<notin> set (fst (find_closest 10 [] [] (replicate 16 3) K_BUCKET_SIZE d))"
proof -
  let ?e = "CachedLookup_new 0 (replicate 16 3) [replicate 16 1] 600"
  let ?d = "Dht_new (replicate 16 0)\<lparr>dht_cache := (LookupCache_new 10)\<lparr>lc_entries := [replicate 16 3 \<mapsto> ?e]\<rparr>\<rparr>"
  let ?p = "PeerInfo_new 10 (replicate 16 3) ''x''"
  have "lc_entries (dht_cache ?d) (replicate 16 3) = Some ?e" "entry_is_valid 10 ?e"
    by (simp_all add: entry_is_valid_def CachedLookup_new_def)
  moreover have "pi_node_id ?p \<noteq> dht_local_id ?d" "dht_table ?d (pi_node_id ?p) = None" "pi_node_id ?p \<notin> set (cl_results ?e)" "peer_is_alive 10 ?p"
    by (simp_all add: Dht_new_def PeerInfo_new_def CachedLookup_new_def peer_is_alive_def PEER_TIMEOUT_def)
  ultimately show ?thesis
    by (intro exI [of _ "insert_peer 10 ?p ?d"] exI [of _ ?p]) (use cached_answer_is_stale [OF _ _ _ _ _ _ refl] in blast)
qed

end
