(* ===== verification/Election.thy ===== *)
theory Election
  imports Prelude Complex_Main
begin

text \<open>
  Leader election and quorum voting of the agent cells, \<open>mielin-cells/src/ha/leader.rs\<close> and
  \<open>mielin-cells/src/ha/quorum.rs\<close>.

  Node identifiers are strings. The locks of the source are never poisoned in the model, since
  no thread panics while it holds one; the results that only report a poisoned lock are left
  out. Instants are seconds, with the clock reading \<open>now\<close> as an argument. A call of the elector is one
  step, except for the vote request, whose accesses to the single locks are also given one by
  one. Weights and thresholds are exact rationals in place of floating point numbers.
\<close>

section \<open>Leader election\<close>

datatype LeaderState = Follower | Candidate | Leader

record VoteRequest =
  vr_term :: nat
  vr_candidate :: string
  vr_timestamp :: nat

record VoteResponse =
  vp_term :: nat
  vp_granted :: bool
  vp_node_id :: string

record LeaderElection =
  el_leader :: string
  el_term :: nat
  el_participants :: "string set"
  el_elected_at :: nat

datatype LeaderError = LeTimeout | InvalidTerm nat nat | SplitVote | NodeNotFound string | AlreadyHasLeader

record ElectionConfig =
  ec_election_timeout :: nat
  ec_heartbeat_interval :: nat
  ec_min_quorum_size :: nat

record LeaderElector =
  le_node_id :: string
  le_state :: LeaderState
  le_term :: nat
  le_current_leader :: "string option"
  le_voted_for :: "string option"
  le_last_heartbeat :: nat
  le_cluster_nodes :: "string set"
  le_config :: ElectionConfig
  le_vote_history :: "nat \<Rightarrow> VoteRequest option"

definition LeaderElector_new :: "nat \<Rightarrow> string \<Rightarrow> ElectionConfig \<Rightarrow> LeaderElector" where
  "LeaderElector_new now n cfg =
     \<lparr>le_node_id = n, le_state = Follower, le_term = 0, le_current_leader = None, le_voted_for = None, le_last_heartbeat = now,
      le_cluster_nodes = {}, le_config = cfg, le_vote_history = Map.empty\<rparr>"

definition add_node :: "string \<Rightarrow> LeaderElector \<Rightarrow> LeaderElector" where
  "add_node n e = e\<lparr>le_cluster_nodes := insert n (le_cluster_nodes e)\<rparr>"

definition remove_node :: "string \<Rightarrow> LeaderElector \<Rightarrow> LeaderElector" where
  "remove_node n e = e\<lparr>le_cluster_nodes := le_cluster_nodes e - {n}\<rparr>"

definition is_leader :: "LeaderElector \<Rightarrow> bool" where
  "is_leader e \<longleftrightarrow> le_state e = Leader"

definition become_leader :: "nat \<Rightarrow> nat \<Rightarrow> LeaderElector \<Rightarrow> LeaderElector" where
  "become_leader now t e =
     e\<lparr>le_state := Leader, le_current_leader := Some (le_node_id e), le_term := t, le_last_heartbeat := now\<rparr>"

definition start_election :: "nat \<Rightarrow> LeaderElector \<Rightarrow> (LeaderError + LeaderElection) \<times> LeaderElector" where
  "start_election now e =
     (let new_term = usize_add (le_term e) 1;
          request = \<lparr>vr_term = new_term, vr_candidate = le_node_id e, vr_timestamp = 0\<rparr>;
          e1 = e\<lparr>le_term := new_term, le_state := Candidate, le_voted_for := Some (le_node_id e),
                 le_vote_history := (le_vote_history e)(new_term \<mapsto> request)\<rparr>;
          cluster_size = card (le_cluster_nodes e1) + 1;
          votes_needed = cluster_size div 2 + 1;
          votes_received = cluster_size
      in if votes_received \<ge> votes_needed
         then (Ok \<lparr>el_leader = le_node_id e1, el_term = new_term, el_participants = insert (le_node_id e1) (le_cluster_nodes e1), el_elected_at = now\<rparr>,
               become_leader now new_term e1)
         else (Err SplitVote, e1))"

definition handle_vote_request :: "VoteRequest \<Rightarrow> LeaderElector \<Rightarrow> VoteResponse \<times> LeaderElector" where
  "handle_vote_request req e =
     (let current_term = le_term e;
          voted_for = le_voted_for e;
          (granted, e1) =
            (if vr_term req < current_term then (False, e)
             else if vr_term req > current_term
             then (True, e\<lparr>le_term := vr_term req, le_voted_for := Some (vr_candidate req), le_state := Follower\<rparr>)
             else (voted_for = None \<or> voted_for = Some (vr_candidate req), e));
          e2 = (if granted \<and> voted_for = None then e1\<lparr>le_voted_for := Some (vr_candidate req)\<rparr> else e1)
      in (\<lparr>vp_term = le_term e2, vp_granted = granted, vp_node_id = le_node_id e2\<rparr>, e2))"

definition receive_heartbeat :: "nat \<Rightarrow> string \<Rightarrow> nat \<Rightarrow> LeaderElector \<Rightarrow> (LeaderError + unit) \<times> LeaderElector" where
  "receive_heartbeat now leader_id t e =
     (if t < le_term e then (Err (InvalidTerm (le_term e) t), e)
      else
        let e1 = (if t > le_term e then e\<lparr>le_term := t, le_voted_for := None\<rparr> else e)
        in (Ok (), e1\<lparr>le_state := Follower, le_current_leader := Some leader_id, le_last_heartbeat := now\<rparr>))"

definition check_timeout :: "nat \<Rightarrow> LeaderElector \<Rightarrow> bool" where
  "check_timeout now e \<longleftrightarrow> now - le_last_heartbeat e > ec_election_timeout (le_config e)"

definition step_down :: "LeaderElector \<Rightarrow> LeaderElector" where
  "step_down e = e\<lparr>le_state := Follower, le_current_leader := None\<rparr>"

definition send_heartbeat :: "nat \<Rightarrow> LeaderElector \<Rightarrow> (LeaderError + unit) \<times> LeaderElector" where
  "send_heartbeat now e =
     (if \<not> is_leader e then (Err (NodeNotFound ''Only leader can send heartbeats''), e)
      else (Ok (), e\<lparr>le_last_heartbeat := now\<rparr>))"

text \<open>
  The accesses of \<open>handle_vote_request\<close> to the locks of the elector, one by one: the reads of
  the term and of the vote, the writes for a newer term, the write of a first vote, and the read
  of the term for the response.
\<close>

datatype vote_pc =
    VTerm VoteRequest
  | VVoted VoteRequest nat
  | VSetTerm VoteRequest "string option"
  | VSetVoted VoteRequest "string option"
  | VSetState VoteRequest "string option"
  | VGrant VoteRequest
  | VRespond bool
  | VRet VoteResponse

definition after_decision :: "VoteRequest \<Rightarrow> bool \<Rightarrow> string option \<Rightarrow> vote_pc" where
  "after_decision req granted voted_for = (if granted \<and> voted_for = None then VGrant req else VRespond granted)"

fun vote_step :: "vote_pc \<Rightarrow> LeaderElector \<Rightarrow> vote_pc \<times> LeaderElector" where
  "vote_step (VTerm req) e = (VVoted req (le_term e), e)"
| "vote_step (VVoted req current_term) e =
     (let voted_for = le_voted_for e in
      (if vr_term req < current_term then VRespond False
       else if vr_term req > current_term then VSetTerm req voted_for
       else after_decision req (voted_for = None \<or> voted_for = Some (vr_candidate req)) voted_for, e))"
| "vote_step (VSetTerm req voted_for) e = (VSetVoted req voted_for, e\<lparr>le_term := vr_term req\<rparr>)"
| "vote_step (VSetVoted req voted_for) e = (VSetState req voted_for, e\<lparr>le_voted_for := Some (vr_candidate req)\<rparr>)"
| "vote_step (VSetState req voted_for) e = (after_decision req True voted_for, e\<lparr>le_state := Follower\<rparr>)"
| "vote_step (VGrant req) e = (VRespond True, e\<lparr>le_voted_for := Some (vr_candidate req)\<rparr>)"
| "vote_step (VRespond granted) e = (VRet \<lparr>vp_term = le_term e, vp_granted = granted, vp_node_id = le_node_id e\<rparr>, e)"
| "vote_step (VRet r) e = (VRet r, e)"

section \<open>Quorum voting\<close>

datatype QuorumPolicy = SimpleMajority | SuperMajority | Unanimous | Custom rat | Weighted rat

definition ceil_at_least_1 :: "rat \<Rightarrow> nat" where
  "ceil_at_least_1 x = max (nat \<lceil>x\<rceil>) 1"

fun required_votes :: "QuorumPolicy \<Rightarrow> nat \<Rightarrow> nat" where
  "required_votes SimpleMajority n = n div 2 + 1"
| "required_votes SuperMajority n = usize_mul n 2 div 3 + 1"
| "required_votes Unanimous n = n"
| "required_votes (Custom th) n = ceil_at_least_1 (th * of_nat n)"
| "required_votes (Weighted th) n = ceil_at_least_1 (th * of_nat n)"

datatype QuorumError = QuorumNotReached nat nat | QTimeout | InvalidVote string | AlreadyVoted | AlreadyDecided

record QuorumConfig =
  qc_policy :: QuorumPolicy
  qc_vote_timeout :: nat
  qc_min_participants :: nat

record QuorumVote =
  qv_node_id :: string
  qv_vote :: bool
  qv_weight :: rat
  qv_timestamp :: nat

record QuorumDecision =
  qd_passed :: bool
  qd_total_votes :: nat
  qd_yes_votes :: nat
  qd_no_votes :: nat
  qd_required_votes :: nat
  qd_decided_at :: nat

record QuorumVoter =
  qr_config :: QuorumConfig
  qr_total_nodes :: nat
  qr_votes :: "(string \<times> QuorumVote) list"
  qr_decision :: "QuorumDecision option"
  qr_start_time :: nat

definition QuorumVoter_new :: "nat \<Rightarrow> QuorumConfig \<Rightarrow> nat \<Rightarrow> QuorumVoter" where
  "QuorumVoter_new now cfg n = \<lparr>qr_config = cfg, qr_total_nodes = n, qr_votes = [], qr_decision = None, qr_start_time = now\<rparr>"

definition voters :: "bool \<Rightarrow> (string \<times> QuorumVote) list \<Rightarrow> (string \<times> QuorumVote) list" where
  "voters b vs = filter (\<lambda>(_, v). qv_vote v = b) vs"

definition vote_total :: "QuorumPolicy \<Rightarrow> bool \<Rightarrow> (string \<times> QuorumVote) list \<Rightarrow> nat" where
  "vote_total policy b vs =
     (case policy of
        Weighted _ \<Rightarrow> nat \<lfloor>\<Sum>(_, v)\<leftarrow>voters b vs. qv_weight v\<rfloor>
      | _ \<Rightarrow> length (voters b vs))"

definition check_quorum :: "nat \<Rightarrow> QuorumVoter \<Rightarrow> QuorumVoter" where
  "check_quorum now q =
     (let required = required_votes (qc_policy (qr_config q)) (qr_total_nodes q);
          total_votes = length (qr_votes q) in
      if total_votes < qc_min_participants (qr_config q) then q
      else
        let yes_votes = vote_total (qc_policy (qr_config q)) True (qr_votes q);
            no_votes = vote_total (qc_policy (qr_config q)) False (qr_votes q);
            passed = (yes_votes \<ge> required);
            failed = (no_votes > usize_sub (qr_total_nodes q) required)
        in if passed \<or> failed \<or> total_votes = qr_total_nodes q
           then q\<lparr>qr_decision := Some \<lparr>qd_passed = passed, qd_total_votes = total_votes, qd_yes_votes = yes_votes,
                  qd_no_votes = no_votes, qd_required_votes = required, qd_decided_at = now\<rparr>\<rparr>
           else q)"

definition cast_vote :: "nat \<Rightarrow> QuorumVote \<Rightarrow> QuorumVoter \<Rightarrow> (QuorumError + unit) \<times> QuorumVoter" where
  "cast_vote now v q =
     (if qr_decision q \<noteq> None then (Err AlreadyDecided, q)
      else if map_of (qr_votes q) (qv_node_id v) \<noteq> None then (Err AlreadyVoted, q)
      else (Ok (), check_quorum now (q\<lparr>qr_votes := (qv_node_id v, v) # qr_votes q\<rparr>)))"

definition is_timeout :: "nat \<Rightarrow> QuorumVoter \<Rightarrow> bool" where
  "is_timeout now q \<longleftrightarrow> now - qr_start_time q > qc_vote_timeout (qr_config q)"

end
