(* ===== verification/Election_Correct.thy ===== *)
theory Election_Correct
  imports Election
begin

text \<open>
  The theorems on election and voting: a node that handles its calls one at a time grants one
  vote per term, so that no two candidates can collect a majority in a term; quorum decisions
  agree with the votes and are final. The ways in which the election code breaks this are proved
  as well: vote requests handled at the same time, and elections that do not ask for votes.
\<close>

section \<open>One vote per term\<close>

text \<open>
  \<open>elector_run n e V\<close>: the elector of node \<open>n\<close> is in state \<open>e\<close> after a sequence of calls in
  which it granted the votes \<open>V\<close>, pairs of a term and a candidate. A node that starts an
  election votes for itself. The term counter has not overflowed.
\<close>

inductive elector_run :: "string \<Rightarrow> LeaderElector \<Rightarrow> (nat \<times> string) set \<Rightarrow> bool" for n where
  new: "elector_run n (LeaderElector_new now n cfg) {}"
| add: "elector_run n e V \<Longrightarrow> elector_run n (add_node m e) V"
| remove: "elector_run n e V \<Longrightarrow> elector_run n (remove_node m e) V"
| election: "elector_run n e V \<Longrightarrow> le_term e + 1 < USIZE_MOD \<Longrightarrow> start_election now e = (r, e') \<Longrightarrow>
    elector_run n e' (insert (le_term e', le_node_id e) V)"
| vote: "elector_run n e V \<Longrightarrow> handle_vote_request req e = (r, e') \<Longrightarrow>
    elector_run n e' (if vp_granted r then insert (vr_term req, vr_candidate req) V else V)"
| heartbeat: "elector_run n e V \<Longrightarrow> receive_heartbeat now m t e = (r, e') \<Longrightarrow> elector_run n e' V"
| step_down: "elector_run n e V \<Longrightarrow> elector_run n (step_down e) V"
| send: "elector_run n e V \<Longrightarrow> send_heartbeat now e = (r, e') \<Longrightarrow> elector_run n e' V"

definition votes_ok :: "LeaderElector \<Rightarrow> (nat \<times> string) set \<Rightarrow> bool" where
  "votes_ok e V \<longleftrightarrow> (\<forall>(t, c) \<in> V. t \<le> le_term e \<and> (t = le_term e \<longrightarrow> le_voted_for e = Some c)) \<and>
     (\<forall>t c c'. (t, c) \<in> V \<longrightarrow> (t, c') \<in> V \<longrightarrow> c = c')"

lemma votes_okD:
  assumes "votes_ok e V"
  shows "(t, c) \<in> V \<Longrightarrow> t \<le> le_term e" "(le_term e, c) \<in> V \<Longrightarrow> le_voted_for e = Some c" "(t, c) \<in> V \<Longrightarrow> (t, c') \<in> V \<Longrightarrow> c = c'"
  using assms unfolding votes_ok_def by blast+

lemma votes_ok_newer:
  assumes ok: "votes_ok e V" and e': "le_term e < le_term e'"
  shows "votes_ok e' V" "le_voted_for e' = Some c \<Longrightarrow> votes_ok e' (insert (le_term e', c) V)"
proof -
  note d = votes_okD [OF ok]
  have old: "t < le_term e'" if "(t, c) \<in> V" for t c using d(1) [OF that] e' by simp
  show "votes_ok e' V" unfolding votes_ok_def using old d(3) by fastforce
  show "votes_ok e' (insert (le_term e', c) V)" if "le_voted_for e' = Some c"
    unfolding votes_ok_def using old d(3) that by (auto dest: less_imp_le)
qed

lemma vote_request_ok:
  assumes ok: "votes_ok e V" and r: "handle_vote_request req e = (r, e')"
  shows "votes_ok e' (if vp_granted r then insert (vr_term req, vr_candidate req) V else V)"
proof -
  note d = votes_okD [OF ok]
  consider (old) "vr_term req < le_term e" | (newer) "vr_term req > le_term e" | (same) "vr_term req = le_term e" by linarith
  then show ?thesis
  proof cases
    case old
    then show ?thesis using r ok by (auto simp: handle_vote_request_def Let_def)
  next
    case newer
    then have "vp_granted r" "le_term e' = vr_term req" "le_voted_for e' = Some (vr_candidate req)"
      using r by (auto simp: handle_vote_request_def Let_def split: if_splits)
    then show ?thesis using votes_ok_newer(2) [OF ok, of e'] newer by auto
  next
    case same
    show ?thesis
    proof (cases "le_voted_for e = None \<or> le_voted_for e = Some (vr_candidate req)")
      case True
      then have e': "vp_granted r" "le_term e' = le_term e" "le_voted_for e' = Some (vr_candidate req)"
        using r same by (auto simp: handle_vote_request_def Let_def split: if_splits)
      have "c = vr_candidate req" if "(le_term e, c) \<in> V" for c using d(2) [OF that] True by auto
      then show ?thesis using ok e' same by (fastforce simp: votes_ok_def)
    next
      case False
      then show ?thesis using r same ok by (auto simp: handle_vote_request_def Let_def)
    qed
  qed
qed

lemma elector_votes_ok: "elector_run n e V \<Longrightarrow> votes_ok e V \<and> le_node_id e = n"
proof (induction rule: elector_run.induct)
  case (election e V now r e')
  have e': "le_term e' = le_term e + 1" "le_voted_for e' = Some (le_node_id e)" "le_node_id e' = le_node_id e"
    using election.hyps by (auto simp: start_election_def Let_def become_leader_def no_wrap split: if_splits)
  then show ?case using votes_ok_newer(2) [of e V e'] election.IH by simp
next
  case (vote e V req r e')
  then have "le_node_id e' = n" by (auto simp: handle_vote_request_def Let_def split: if_splits)
  then show ?case using vote_request_ok [OF _ vote.hyps(2)] vote.IH by blast
next
  case (heartbeat e V now m t r e')
  show ?case
  proof (cases "le_term e < t")
    case True
    then have "le_term e' = t" "le_node_id e' = le_node_id e" using heartbeat.hyps by (auto simp: receive_heartbeat_def Let_def)
    then show ?thesis using votes_ok_newer(1) [of e V e'] heartbeat.IH True by simp
  next
    case False
    then show ?thesis using heartbeat by (auto simp: receive_heartbeat_def Let_def votes_ok_def split: if_splits)
  qed
qed (auto simp: votes_ok_def LeaderElector_new_def add_node_def remove_node_def step_down_def send_heartbeat_def split: if_splits)



section \<open>Faults of the election\<close>

lemma vote_steps_alone:
  "\<exists>k. ((\<lambda>(pc, e). vote_step pc e) ^^ k) (VTerm req, e) = (case handle_vote_request req e of (r, e') \<Rightarrow> (VRet r, e'))"
proof -
  have seven: "((\<lambda>(pc, e). vote_step pc e) ^^ 7) (VTerm req, e) = (case handle_vote_request req e of (r, e') \<Rightarrow> (VRet r, e'))"
    by (cases "le_voted_for e") (auto simp: eval_nat_numeral handle_vote_request_def after_decision_def Let_def)
  then show ?thesis by blast
qed

text \<open>Two vote requests at the same node, interleaved: a list of which request takes a step.\<close>

fun vote_play :: "bool list \<Rightarrow> vote_pc \<times> vote_pc \<times> LeaderElector \<Rightarrow> vote_pc \<times> vote_pc \<times> LeaderElector" where
  "vote_play [] s = s"
| "vote_play (b # bs) (p, q, e) =
     vote_play bs (if b then (case vote_step p e of (p', e') \<Rightarrow> (p', q, e')) else (case vote_step q e of (q', e') \<Rightarrow> (p, q', e')))"

text \<open>
  Vote requests that are handled at the same time break the election. A node that has not
  voted in its term grants two requests of different candidates for this term when both read its
  vote before either writes it.
\<close>

theorem double_vote_race:
  assumes "le_voted_for e = None" and "vr_term req = le_term e" and "vr_term req' = le_term e"
  shows "\<exists>e'. vote_play [True, True, False, False, True, True, False, False] (VTerm req, VTerm req', e) =
    (VRet \<lparr>vp_term = le_term e, vp_granted = True, vp_node_id = le_node_id e\<rparr>,
     VRet \<lparr>vp_term = le_term e, vp_granted = True, vp_node_id = le_node_id e\<rparr>, e')"
  using assms by (simp add: after_decision_def Let_def)

theorem double_vote_race_witness:
  "\<exists>e'. vote_play [True, True, False, False, True, True, False, False]
     (VTerm \<lparr>vr_term = 0, vr_candidate = ''a'', vr_timestamp = 0\<rparr>, VTerm \<lparr>vr_term = 0, vr_candidate = ''b'', vr_timestamp = 0\<rparr>,
      LeaderElector_new 0 ''n'' \<lparr>ec_election_timeout = 1, ec_heartbeat_interval = 1, ec_min_quorum_size = 2\<rparr>) =
    (VRet \<lparr>vp_term = 0, vp_granted = True, vp_node_id = ''n''\<rparr>, VRet \<lparr>vp_term = 0, vp_granted = True, vp_node_id = ''n''\<rparr>, e')"
  using double_vote_race [of "LeaderElector_new 0 ''n'' \<lparr>ec_election_timeout = 1, ec_heartbeat_interval = 1, ec_min_quorum_size = 2\<rparr>"
      "\<lparr>vr_term = 0, vr_candidate = ''a'', vr_timestamp = 0\<rparr>" "\<lparr>vr_term = 0, vr_candidate = ''b'', vr_timestamp = 0\<rparr>"]
  by (simp add: LeaderElector_new_def)

text \<open>
  An election asks nobody. \<open>start_election\<close> counts one vote for every known node without
  sending a request, so it always makes its node the leader of the new term; two nodes with the
  same term both become leader of the same term.
\<close>

theorem two_leaders:
  assumes "le_term e = le_term e'"
  shows "is_leader (snd (start_election now e)) \<and> is_leader (snd (start_election now' e')) \<and>
    le_term (snd (start_election now e)) = le_term (snd (start_election now' e'))"
proof -
  have "Suc k div 2 \<le> k" for k :: nat by presburger
  then show ?thesis using assms by (simp add: start_election_def Let_def become_leader_def is_leader_def)
qed

theorem two_leaders_witness:
  "is_leader (snd (start_election 0 (LeaderElector_new 0 ''a'' \<lparr>ec_election_timeout = 1, ec_heartbeat_interval = 1, ec_min_quorum_size = 2\<rparr>))) \<and>
   is_leader (snd (start_election 0 (add_node ''a'' (LeaderElector_new 0 ''b'' \<lparr>ec_election_timeout = 1, ec_heartbeat_interval = 1, ec_min_quorum_size = 2\<rparr>))))"
  using two_leaders [of "LeaderElector_new 0 ''a'' \<lparr>ec_election_timeout = 1, ec_heartbeat_interval = 1, ec_min_quorum_size = 2\<rparr>"
      "add_node ''a'' (LeaderElector_new 0 ''b'' \<lparr>ec_election_timeout = 1, ec_heartbeat_interval = 1, ec_min_quorum_size = 2\<rparr>)" 0 0]
  by (simp add: LeaderElector_new_def add_node_def)

section \<open>Quorum decisions\<close>

fun unweighted :: "QuorumPolicy \<Rightarrow> bool" where
  "unweighted (Weighted _) = False"
| "unweighted _ = True"

inductive voting :: "QuorumConfig \<Rightarrow> nat \<Rightarrow> QuorumVoter \<Rightarrow> bool" for cfg n where
  open_vote: "voting cfg n (QuorumVoter_new now cfg n)"
| cast: "voting cfg n q \<Longrightarrow> cast_vote now v q = (r, q') \<Longrightarrow> voting cfg n q'"

definition decided_ok :: "QuorumVoter \<Rightarrow> QuorumDecision \<Rightarrow> bool" where
  "decided_ok q d \<longleftrightarrow>
     (let yes = length (voters True (qr_votes q)); no = length (voters False (qr_votes q));
          req = required_votes (qc_policy (qr_config q)) (qr_total_nodes q) in
      qd_yes_votes d = yes \<and> qd_no_votes d = no \<and> qd_total_votes d = yes + no \<and> qd_required_votes d = req \<and>
      (qd_passed d \<longleftrightarrow> req \<le> yes) \<and>
      (\<not> qd_passed d \<longrightarrow> yes + (qr_total_nodes q - (yes + no)) < req))"

lemma voters_split: "length vs = length (voters True vs) + length (voters False vs)"
  unfolding voters_def by (induction vs) auto

lemma check_quorum_ok:
  assumes q: "qr_decision q = None" "unweighted (qc_policy (qr_config q))"
    and req: "required_votes (qc_policy (qr_config q)) (qr_total_nodes q) \<le> qr_total_nodes q" and n: "qr_total_nodes q < USIZE_MOD"
    and q': "q' = check_quorum now q"
  shows "case qr_decision q' of
      Some d \<Rightarrow> decided_ok q' d
    | None \<Rightarrow> length (qr_votes q') < qc_min_participants (qr_config q') \<or>
        length (voters True (qr_votes q')) < required_votes (qc_policy (qr_config q')) (qr_total_nodes q')"
    and "qr_votes q' = qr_votes q" "qr_config q' = qr_config q" "qr_total_nodes q' = qr_total_nodes q"
proof -
  let ?req = "required_votes (qc_policy (qr_config q)) (qr_total_nodes q)"
  have tot: "vote_total (qc_policy (qr_config q)) b vs = length (voters b vs)" for b vs
    using q(2) by (cases "qc_policy (qr_config q)") (auto simp: vote_total_def)
  have sub: "usize_sub (qr_total_nodes q) ?req = qr_total_nodes q - ?req" using req n by (simp add: no_wrap)
  show same: "qr_votes q' = qr_votes q" "qr_config q' = qr_config q" "qr_total_nodes q' = qr_total_nodes q"
    using q' by (simp_all add: check_quorum_def Let_def)
  show "case qr_decision q' of
      Some d \<Rightarrow> decided_ok q' d
    | None \<Rightarrow> length (qr_votes q') < qc_min_participants (qr_config q') \<or>
        length (voters True (qr_votes q')) < required_votes (qc_policy (qr_config q')) (qr_total_nodes q')"
    unfolding decided_ok_def Let_def same
    using q' q(1) req voters_split [of "qr_votes q"] by (auto simp: check_quorum_def Let_def tot sub)
qed

lemma voting_ok:
  assumes "voting cfg n q" and "unweighted (qc_policy cfg)" "required_votes (qc_policy cfg) n \<le> n" "n < USIZE_MOD"
  shows "distinct (map fst (qr_votes q)) \<and> qr_config q = cfg \<and> qr_total_nodes q = n \<and>
    (case qr_decision q of
       Some d \<Rightarrow> decided_ok q d
     | None \<Rightarrow> qr_votes q = [] \<or> length (qr_votes q) < qc_min_participants cfg \<or>
         length (voters True (qr_votes q)) < required_votes (qc_policy cfg) n)"
  using assms
proof (induction rule: voting.induct)
  case (cast q now v r q')
  show ?case
  proof (cases "qr_decision q = None \<and> map_of (qr_votes q) (qv_node_id v) = None")
    case True
    let ?q = "q\<lparr>qr_votes := (qv_node_id v, v) # qr_votes q\<rparr>"
    have q': "q' = check_quorum now ?q" using cast.hyps(2) True by (auto simp: cast_vote_def)
    have ih: "distinct (map fst (qr_votes q))" "qr_config q = cfg" "qr_total_nodes q = n" using cast by simp_all
    have dist: "distinct (map fst (qr_votes ?q))" using ih(1) True by (simp add: map_of_eq_None_iff)
    have pre: "qr_decision ?q = None" "unweighted (qc_policy (qr_config ?q))"
        "required_votes (qc_policy (qr_config ?q)) (qr_total_nodes ?q) \<le> qr_total_nodes ?q" "qr_total_nodes ?q < USIZE_MOD"
      using True ih cast.prems by simp_all
    note c = check_quorum_ok [OF pre(1,2,3,4) q']
    have same: "qr_config q' = cfg" "qr_total_nodes q' = n" "distinct (map fst (qr_votes q'))" using c(2,3,4) ih dist by simp_all
    show ?thesis using c(1) same by (auto split: option.splits)
  next
    case False
    then have "q' = q" using cast.hyps(2) by (auto simp: cast_vote_def split: if_splits)
    then show ?thesis using cast by blast
  qed
qed (simp add: QuorumVoter_new_def)



end
