(* ===== verification/Mqttsn.thy ===== *)
theory Mqttsn
  imports Heapless
begin

unbundle bit_operations_syntax

text \<open>
  The MQTT-SN implementation of the edge runtime (\<open>mielin-rt/src/mqttsn.rs\<close>): message types,
  the flags byte, encoding and decoding of messages, and the client.

  Bytes and protocol fields keep their width. A text is the list of its UTF-8 bytes. The
  containers of the \<open>heapless\<close> crate are the interface of the theory Heapless, here one
  for bytes and one for the topic table of the client.
\<close>

section \<open>Codes\<close>

datatype MqttsnError = MqInvalidMessageType | MqInvalidQoS | MqInvalidTopicIdType | MqInvalidReturnCode
  | MqBufferTooSmall | MqMessageTooLong | MqMessageTooShort | MqInvalidLength | MqInvalidUtf8
  | MqClientIdTooLong | MqTopicNameTooLong | MqPayloadTooLarge | MqNotConnected | MqRegistrationRejected
  | MqUnexpectedMessage | MqTooManyTopics | MqUnsupportedMessageType

definition MAX_MESSAGE_LENGTH :: nat where "MAX_MESSAGE_LENGTH = 256"
definition MAX_CLIENT_ID_LENGTH :: nat where "MAX_CLIENT_ID_LENGTH = 23"
definition MAX_TOPIC_NAME_LENGTH :: nat where "MAX_TOPIC_NAME_LENGTH = 64"

datatype MqMessageType = TAdvertise | TSearchGw | TGwInfo | TConnect | TConnAck | TWillTopicReq | TWillTopic
  | TWillMsgReq | TWillMsg | TRegister | TRegAck | TPublish | TPubAck | TPubComp | TPubRec | TPubRel
  | TSubscribe | TSubAck | TUnsubscribe | TUnsubAck | TPingReq | TPingResp | TDisconnect
  | TWillTopicUpd | TWillTopicResp | TWillMsgUpd | TWillMsgResp

definition MqMessageType_from_u8 :: "u8 \<Rightarrow> MqttsnError + MqMessageType" where
  "MqMessageType_from_u8 v =
     (if v = 0x00 then Ok TAdvertise else if v = 0x01 then Ok TSearchGw else if v = 0x02 then Ok TGwInfo
      else if v = 0x04 then Ok TConnect else if v = 0x05 then Ok TConnAck else if v = 0x06 then Ok TWillTopicReq
      else if v = 0x07 then Ok TWillTopic else if v = 0x08 then Ok TWillMsgReq else if v = 0x09 then Ok TWillMsg
      else if v = 0x0a then Ok TRegister else if v = 0x0b then Ok TRegAck else if v = 0x0c then Ok TPublish
      else if v = 0x0d then Ok TPubAck else if v = 0x0e then Ok TPubComp else if v = 0x0f then Ok TPubRec
      else if v = 0x10 then Ok TPubRel else if v = 0x12 then Ok TSubscribe else if v = 0x13 then Ok TSubAck
      else if v = 0x14 then Ok TUnsubscribe else if v = 0x15 then Ok TUnsubAck else if v = 0x16 then Ok TPingReq
      else if v = 0x17 then Ok TPingResp else if v = 0x18 then Ok TDisconnect else if v = 0x1a then Ok TWillTopicUpd
      else if v = 0x1b then Ok TWillTopicResp else if v = 0x1c then Ok TWillMsgUpd else if v = 0x1d then Ok TWillMsgResp
      else Err MqInvalidMessageType)"

fun MqMessageType_to_u8 :: "MqMessageType \<Rightarrow> u8" where
  "MqMessageType_to_u8 TAdvertise = 0x00" | "MqMessageType_to_u8 TSearchGw = 0x01" | "MqMessageType_to_u8 TGwInfo = 0x02"
| "MqMessageType_to_u8 TConnect = 0x04" | "MqMessageType_to_u8 TConnAck = 0x05" | "MqMessageType_to_u8 TWillTopicReq = 0x06"
| "MqMessageType_to_u8 TWillTopic = 0x07" | "MqMessageType_to_u8 TWillMsgReq = 0x08" | "MqMessageType_to_u8 TWillMsg = 0x09"
| "MqMessageType_to_u8 TRegister = 0x0a" | "MqMessageType_to_u8 TRegAck = 0x0b" | "MqMessageType_to_u8 TPublish = 0x0c"
| "MqMessageType_to_u8 TPubAck = 0x0d" | "MqMessageType_to_u8 TPubComp = 0x0e" | "MqMessageType_to_u8 TPubRec = 0x0f"
| "MqMessageType_to_u8 TPubRel = 0x10" | "MqMessageType_to_u8 TSubscribe = 0x12" | "MqMessageType_to_u8 TSubAck = 0x13"
| "MqMessageType_to_u8 TUnsubscribe = 0x14" | "MqMessageType_to_u8 TUnsubAck = 0x15" | "MqMessageType_to_u8 TPingReq = 0x16"
| "MqMessageType_to_u8 TPingResp = 0x17" | "MqMessageType_to_u8 TDisconnect = 0x18" | "MqMessageType_to_u8 TWillTopicUpd = 0x1a"
| "MqMessageType_to_u8 TWillTopicResp = 0x1b" | "MqMessageType_to_u8 TWillMsgUpd = 0x1c" | "MqMessageType_to_u8 TWillMsgResp = 0x1d"

datatype QoS = Level0 | Level1 | Level2 | LevelMinus1

definition QoS_from_u8 :: "u8 \<Rightarrow> MqttsnError + QoS" where
  "QoS_from_u8 v = (if v = 0 then Ok Level0 else if v = 1 then Ok Level1 else if v = 2 then Ok Level2
     else if v = 3 then Ok LevelMinus1 else Err MqInvalidQoS)"

fun QoS_to_u8 :: "QoS \<Rightarrow> u8" where
  "QoS_to_u8 Level0 = 0" | "QoS_to_u8 Level1 = 1" | "QoS_to_u8 Level2 = 2" | "QoS_to_u8 LevelMinus1 = 3"

datatype TopicIdType = TopicNormal | Predefined | Short

definition TopicIdType_from_flags :: "u8 \<Rightarrow> MqttsnError + TopicIdType" where
  "TopicIdType_from_flags flags =
     (let v = drop_bit 1 flags AND 0x03 in
      if v = 0 then Ok TopicNormal else if v = 1 then Ok Predefined else if v = 2 then Ok Short else Err MqInvalidTopicIdType)"

fun TopicIdType_to_flags :: "TopicIdType \<Rightarrow> u8" where
  "TopicIdType_to_flags TopicNormal = push_bit 1 0"
| "TopicIdType_to_flags Predefined = push_bit 1 1"
| "TopicIdType_to_flags Short = push_bit 1 2"

datatype ReturnCode = RcAccepted | RejectedCongestion | RejectedInvalidTopicId | RejectedNotSupported

definition ReturnCode_from_u8 :: "u8 \<Rightarrow> MqttsnError + ReturnCode" where
  "ReturnCode_from_u8 v = (if v = 0 then Ok RcAccepted else if v = 1 then Ok RejectedCongestion
     else if v = 2 then Ok RejectedInvalidTopicId else if v = 3 then Ok RejectedNotSupported else Err MqInvalidReturnCode)"

fun ReturnCode_to_u8 :: "ReturnCode \<Rightarrow> u8" where
  "ReturnCode_to_u8 RcAccepted = 0" | "ReturnCode_to_u8 RejectedCongestion = 1"
| "ReturnCode_to_u8 RejectedInvalidTopicId = 2" | "ReturnCode_to_u8 RejectedNotSupported = 3"

section \<open>Flags\<close>

record Flags =
  fl_dup :: bool
  fl_qos :: QoS
  fl_retain :: bool
  fl_will :: bool
  fl_clean_session :: bool
  fl_topic_id_type :: TopicIdType

definition Flags_new :: Flags where
  "Flags_new = \<lparr>fl_dup = False, fl_qos = Level0, fl_retain = False, fl_will = False, fl_clean_session = False, fl_topic_id_type = TopicNormal\<rparr>"

definition Flags_encode :: "Flags \<Rightarrow> u8" where
  "Flags_encode f =
     (let flags = (if fl_dup f then 0x80 else 0);
          flags = flags OR push_bit 5 (QoS_to_u8 (fl_qos f) AND 0x03);
          flags = (if fl_retain f then flags OR 0x10 else flags);
          flags = (if fl_will f then flags OR 0x08 else flags);
          flags = (if fl_clean_session f then flags OR 0x04 else flags)
      in flags OR TopicIdType_to_flags (fl_topic_id_type f))"

definition Flags_decode :: "u8 \<Rightarrow> MqttsnError + Flags" where
  "Flags_decode byte =
     (let dup = (byte AND 0x80 \<noteq> 0) in
      res_bind (QoS_from_u8 (drop_bit 5 byte AND 0x03)) (\<lambda>qos.
        let retain = (byte AND 0x10 \<noteq> 0); will = (byte AND 0x08 \<noteq> 0); clean_session = (byte AND 0x04 \<noteq> 0) in
        res_bind (TopicIdType_from_flags byte) (\<lambda>topic_id_type.
          Ok \<lparr>fl_dup = dup, fl_qos = qos, fl_retain = retain, fl_will = will, fl_clean_session = clean_session,
              fl_topic_id_type = topic_id_type\<rparr>)))"

section \<open>Messages\<close>

datatype SubscribeTopic = TopicName "u8 list" | TopicId u16 | TopicShort u8 u8

datatype MqttsnMessage =
    Advertise u8 u16
  | SearchGw u8
  | GwInfo u8 "u8 list option"
  | Connect Flags u8 u16 "u8 list"
  | ConnAck ReturnCode
  | Register u16 u16 "u8 list"
  | RegAck u16 u16 ReturnCode
  | Publish Flags u16 u16 "u8 list"
  | PubAck u16 u16 ReturnCode
  | Subscribe Flags u16 SubscribeTopic
  | SubAck Flags u16 u16 ReturnCode
  | Unsubscribe Flags u16 SubscribeTopic
  | UnsubAck u16
  | PingReq "u8 list option"
  | PingResp
  | Disconnect "u16 option"
  | WillTopic Flags "u8 list"
  | WillMsg "u8 list"

fun message_type :: "MqttsnMessage \<Rightarrow> MqMessageType" where
  "message_type (Advertise _ _) = TAdvertise" | "message_type (SearchGw _) = TSearchGw" | "message_type (GwInfo _ _) = TGwInfo"
| "message_type (Connect _ _ _ _) = TConnect" | "message_type (ConnAck _) = TConnAck" | "message_type (Register _ _ _) = TRegister"
| "message_type (RegAck _ _ _) = TRegAck" | "message_type (Publish _ _ _ _) = TPublish" | "message_type (PubAck _ _ _) = TPubAck"
| "message_type (Subscribe _ _ _) = TSubscribe" | "message_type (SubAck _ _ _ _) = TSubAck"
| "message_type (Unsubscribe _ _ _) = TUnsubscribe" | "message_type (UnsubAck _) = TUnsubAck" | "message_type (PingReq _) = TPingReq"
| "message_type PingResp = TPingResp" | "message_type (Disconnect _) = TDisconnect" | "message_type (WillTopic _ _) = TWillTopic"
| "message_type (WillMsg _) = TWillMsg"

definition u16_to_be_bytes :: "u16 \<Rightarrow> u8 list" where
  "u16_to_be_bytes x = [ucast (drop_bit 8 x), ucast x]"

definition u16_from_be_bytes :: "u8 \<Rightarrow> u8 \<Rightarrow> u16" where
  "u16_from_be_bytes a b = push_bit 8 (ucast a) OR ucast b"

definition mq_push :: "u8 heapless_vec \<Rightarrow> u8 \<Rightarrow> u8 list \<Rightarrow> MqttsnError + u8 list" where
  "mq_push hv b buffer = ok_or MqBufferTooSmall (hv_push hv MAX_MESSAGE_LENGTH buffer b)"

definition mq_extend :: "u8 heapless_vec \<Rightarrow> u8 list \<Rightarrow> u8 list \<Rightarrow> MqttsnError + u8 list" where
  "mq_extend hv bs buffer = ok_or MqBufferTooSmall (hv_extend hv MAX_MESSAGE_LENGTH buffer bs)"

section \<open>Encoding\<close>

text \<open>The arms of the match on the message that have more than one field.\<close>

fun encode_topic :: "u8 heapless_vec \<Rightarrow> SubscribeTopic \<Rightarrow> u8 list \<Rightarrow> MqttsnError + u8 list" where
  "encode_topic hv (TopicName name) b = mq_extend hv name b"
| "encode_topic hv (TopicId i) b = mq_extend hv (u16_to_be_bytes i) b"
| "encode_topic hv (TopicShort x y) b = mq_extend hv [x, y] b"

definition encode_gw_info :: "u8 heapless_vec \<Rightarrow> u8 \<Rightarrow> u8 list option \<Rightarrow> u8 list \<Rightarrow> MqttsnError + u8 list" where
  "encode_gw_info hv gateway_id gateway_address b =
     res_bind (mq_push hv gateway_id b) (\<lambda>b. case gateway_address of Some addr \<Rightarrow> mq_extend hv addr b | None \<Rightarrow> Ok b)"

definition encode_connect :: "u8 heapless_vec \<Rightarrow> Flags \<Rightarrow> u8 \<Rightarrow> u16 \<Rightarrow> u8 list \<Rightarrow> u8 list \<Rightarrow> MqttsnError + u8 list" where
  "encode_connect hv flags protocol_id duration client_id b =
     res_bind (mq_push hv (Flags_encode flags) b) (\<lambda>b.
     res_bind (mq_push hv protocol_id b) (\<lambda>b.
     res_bind (mq_extend hv (u16_to_be_bytes duration) b) (\<lambda>b. mq_extend hv client_id b)))"

definition encode_register :: "u8 heapless_vec \<Rightarrow> u16 \<Rightarrow> u16 \<Rightarrow> u8 list \<Rightarrow> u8 list \<Rightarrow> MqttsnError + u8 list" where
  "encode_register hv topic_id msg_id topic_name b =
     res_bind (mq_extend hv (u16_to_be_bytes topic_id) b) (\<lambda>b.
     res_bind (mq_extend hv (u16_to_be_bytes msg_id) b) (\<lambda>b. mq_extend hv topic_name b))"

definition encode_reg_ack :: "u8 heapless_vec \<Rightarrow> u16 \<Rightarrow> u16 \<Rightarrow> ReturnCode \<Rightarrow> u8 list \<Rightarrow> MqttsnError + u8 list" where
  "encode_reg_ack hv topic_id msg_id return_code b =
     res_bind (mq_extend hv (u16_to_be_bytes topic_id) b) (\<lambda>b.
     res_bind (mq_extend hv (u16_to_be_bytes msg_id) b) (\<lambda>b. mq_push hv (ReturnCode_to_u8 return_code) b))"

definition encode_publish :: "u8 heapless_vec \<Rightarrow> Flags \<Rightarrow> u16 \<Rightarrow> u16 \<Rightarrow> u8 list \<Rightarrow> u8 list \<Rightarrow> MqttsnError + u8 list" where
  "encode_publish hv flags topic_id msg_id payload b =
     res_bind (mq_push hv (Flags_encode flags) b) (\<lambda>b.
     res_bind (mq_extend hv (u16_to_be_bytes topic_id) b) (\<lambda>b.
     res_bind (mq_extend hv (u16_to_be_bytes msg_id) b) (\<lambda>b. mq_extend hv payload b)))"

definition encode_pub_ack :: "u8 heapless_vec \<Rightarrow> u16 \<Rightarrow> u16 \<Rightarrow> ReturnCode \<Rightarrow> u8 list \<Rightarrow> MqttsnError + u8 list" where
  "encode_pub_ack hv topic_id msg_id return_code b =
     res_bind (mq_extend hv (u16_to_be_bytes topic_id) b) (\<lambda>b.
     res_bind (mq_extend hv (u16_to_be_bytes msg_id) b) (\<lambda>b. mq_push hv (ReturnCode_to_u8 return_code) b))"

definition encode_subscribe :: "u8 heapless_vec \<Rightarrow> Flags \<Rightarrow> u16 \<Rightarrow> SubscribeTopic \<Rightarrow> u8 list \<Rightarrow> MqttsnError + u8 list" where
  "encode_subscribe hv flags msg_id topic b =
     res_bind (mq_push hv (Flags_encode flags) b) (\<lambda>b.
     res_bind (mq_extend hv (u16_to_be_bytes msg_id) b) (\<lambda>b. encode_topic hv topic b))"

definition encode_sub_ack :: "u8 heapless_vec \<Rightarrow> Flags \<Rightarrow> u16 \<Rightarrow> u16 \<Rightarrow> ReturnCode \<Rightarrow> u8 list \<Rightarrow> MqttsnError + u8 list" where
  "encode_sub_ack hv flags topic_id msg_id return_code b =
     res_bind (mq_push hv (Flags_encode flags) b) (\<lambda>b.
     res_bind (mq_extend hv (u16_to_be_bytes topic_id) b) (\<lambda>b.
     res_bind (mq_extend hv (u16_to_be_bytes msg_id) b) (\<lambda>b. mq_push hv (ReturnCode_to_u8 return_code) b)))"

definition encode_unsubscribe :: "u8 heapless_vec \<Rightarrow> Flags \<Rightarrow> u16 \<Rightarrow> SubscribeTopic \<Rightarrow> u8 list \<Rightarrow> MqttsnError + u8 list" where
  "encode_unsubscribe hv flags msg_id topic b =
     res_bind (mq_push hv (Flags_encode flags) b) (\<lambda>b.
     res_bind (mq_extend hv (u16_to_be_bytes msg_id) b) (\<lambda>b. encode_topic hv topic b))"

definition encode_will_topic :: "u8 heapless_vec \<Rightarrow> Flags \<Rightarrow> u8 list \<Rightarrow> u8 list \<Rightarrow> MqttsnError + u8 list" where
  "encode_will_topic hv flags will_topic b = res_bind (mq_push hv (Flags_encode flags) b) (\<lambda>b. mq_extend hv will_topic b)"

fun encode_fields :: "u8 heapless_vec \<Rightarrow> MqttsnMessage \<Rightarrow> u8 list \<Rightarrow> MqttsnError + u8 list" where
  "encode_fields hv (Advertise gateway_id duration) b =
     res_bind (mq_push hv gateway_id b) (\<lambda>b. mq_extend hv (u16_to_be_bytes duration) b)"
| "encode_fields hv (SearchGw radius) b = mq_push hv radius b"
| "encode_fields hv (GwInfo gateway_id gateway_address) b = encode_gw_info hv gateway_id gateway_address b"
| "encode_fields hv (Connect flags protocol_id duration client_id) b = encode_connect hv flags protocol_id duration client_id b"
| "encode_fields hv (ConnAck return_code) b = mq_push hv (ReturnCode_to_u8 return_code) b"
| "encode_fields hv (Register topic_id msg_id topic_name) b = encode_register hv topic_id msg_id topic_name b"
| "encode_fields hv (RegAck topic_id msg_id return_code) b = encode_reg_ack hv topic_id msg_id return_code b"
| "encode_fields hv (Publish flags topic_id msg_id payload) b = encode_publish hv flags topic_id msg_id payload b"
| "encode_fields hv (PubAck topic_id msg_id return_code) b = encode_pub_ack hv topic_id msg_id return_code b"
| "encode_fields hv (Subscribe flags msg_id topic) b = encode_subscribe hv flags msg_id topic b"
| "encode_fields hv (SubAck flags topic_id msg_id return_code) b = encode_sub_ack hv flags topic_id msg_id return_code b"
| "encode_fields hv (Unsubscribe flags msg_id topic) b = encode_unsubscribe hv flags msg_id topic b"
| "encode_fields hv (UnsubAck msg_id) b = mq_extend hv (u16_to_be_bytes msg_id) b"
| "encode_fields hv (PingReq client_id) b = (case client_id of Some i \<Rightarrow> mq_extend hv i b | None \<Rightarrow> Ok b)"
| "encode_fields hv PingResp b = Ok b"
| "encode_fields hv (Disconnect duration) b = (case duration of Some d \<Rightarrow> mq_extend hv (u16_to_be_bytes d) b | None \<Rightarrow> Ok b)"
| "encode_fields hv (WillTopic flags will_topic) b = encode_will_topic hv flags will_topic b"
| "encode_fields hv (WillMsg will_msg) b = mq_extend hv will_msg b"

definition MqttsnMessage_encode :: "u8 heapless_vec \<Rightarrow> MqttsnMessage \<Rightarrow> MqttsnError + u8 list" where
  "MqttsnMessage_encode hv m =
     res_bind (mq_push hv 0 []) (\<lambda>b.
     res_bind (mq_push hv (MqMessageType_to_u8 (message_type m)) b) (\<lambda>b.
     res_bind (encode_fields hv m b) (\<lambda>b.
       let len = length b in
       if len > 255 then Err MqMessageTooLong else Ok (b[0 := of_nat len]))))"

section \<open>Decoding\<close>

text \<open>The arms of the match on the message type; an index into the payload is within the length tested before.\<close>

definition decode_text :: "u8 heapless_vec \<Rightarrow> u8 list \<Rightarrow> MqttsnError + u8 list" where
  "decode_text hv bytes =
     (if \<not> utf8_valid bytes then Err MqInvalidUtf8 else ok_or MqTopicNameTooLong (hv_extend hv MAX_TOPIC_NAME_LENGTH [] bytes))"

definition decode_gw_info :: "u8 heapless_vec \<Rightarrow> u8 list \<Rightarrow> MqttsnError + MqttsnMessage" where
  "decode_gw_info hv p =
     (if p = [] then Err MqMessageTooShort
      else if length p > 1 then res_bind (ok_or MqBufferTooSmall (hv_extend hv 16 [] (drop 1 p))) (\<lambda>addr. Ok (GwInfo (p ! 0) (Some addr)))
      else Ok (GwInfo (p ! 0) None))"

definition decode_connect :: "u8 heapless_vec \<Rightarrow> u8 list \<Rightarrow> MqttsnError + MqttsnMessage" where
  "decode_connect hv p =
     (if length p < 4 then Err MqMessageTooShort
      else res_bind (Flags_decode (p ! 0)) (\<lambda>flags.
        res_bind (ok_or MqClientIdTooLong (hv_extend hv MAX_CLIENT_ID_LENGTH [] (drop 4 p))) (\<lambda>client_id.
          Ok (Connect flags (p ! 1) (u16_from_be_bytes (p ! 2) (p ! 3)) client_id))))"

definition decode_register :: "u8 heapless_vec \<Rightarrow> u8 list \<Rightarrow> MqttsnError + MqttsnMessage" where
  "decode_register hv p =
     (if length p < 4 then Err MqMessageTooShort
      else res_bind (decode_text hv (drop 4 p)) (\<lambda>topic_name.
        Ok (Register (u16_from_be_bytes (p ! 0) (p ! 1)) (u16_from_be_bytes (p ! 2) (p ! 3)) topic_name)))"

definition decode_reg_ack :: "u8 list \<Rightarrow> MqttsnError + MqttsnMessage" where
  "decode_reg_ack p =
     (if length p < 5 then Err MqMessageTooShort
      else res_bind (ReturnCode_from_u8 (p ! 4)) (\<lambda>return_code.
        Ok (RegAck (u16_from_be_bytes (p ! 0) (p ! 1)) (u16_from_be_bytes (p ! 2) (p ! 3)) return_code)))"

definition decode_publish :: "u8 heapless_vec \<Rightarrow> u8 list \<Rightarrow> MqttsnError + MqttsnMessage" where
  "decode_publish hv p =
     (if length p < 5 then Err MqMessageTooShort
      else res_bind (Flags_decode (p ! 0)) (\<lambda>flags.
        res_bind (ok_or MqPayloadTooLarge (hv_extend hv 192 [] (drop 5 p))) (\<lambda>payload.
          Ok (Publish flags (u16_from_be_bytes (p ! 1) (p ! 2)) (u16_from_be_bytes (p ! 3) (p ! 4)) payload))))"

definition decode_pub_ack :: "u8 list \<Rightarrow> MqttsnError + MqttsnMessage" where
  "decode_pub_ack p =
     (if length p < 5 then Err MqMessageTooShort
      else res_bind (ReturnCode_from_u8 (p ! 4)) (\<lambda>return_code.
        Ok (PubAck (u16_from_be_bytes (p ! 0) (p ! 1)) (u16_from_be_bytes (p ! 2) (p ! 3)) return_code)))"

definition decode_topic :: "u8 heapless_vec \<Rightarrow> TopicIdType \<Rightarrow> u8 list \<Rightarrow> MqttsnError + SubscribeTopic" where
  "decode_topic hv ty p =
     (case ty of
        TopicNormal \<Rightarrow> res_bind (decode_text hv (drop 3 p)) (\<lambda>name. Ok (TopicName name))
      | Predefined \<Rightarrow> if length p < 5 then Err MqMessageTooShort else Ok (TopicId (u16_from_be_bytes (p ! 3) (p ! 4)))
      | Short \<Rightarrow> if length p < 5 then Err MqMessageTooShort else Ok (TopicShort (p ! 3) (p ! 4)))"

definition decode_subscribe :: "u8 heapless_vec \<Rightarrow> u8 list \<Rightarrow> MqttsnError + MqttsnMessage" where
  "decode_subscribe hv p =
     (if length p < 3 then Err MqMessageTooShort
      else res_bind (Flags_decode (p ! 0)) (\<lambda>flags.
        res_bind (decode_topic hv (fl_topic_id_type flags) p) (\<lambda>topic.
          Ok (Subscribe flags (u16_from_be_bytes (p ! 1) (p ! 2)) topic))))"

definition decode_sub_ack :: "u8 list \<Rightarrow> MqttsnError + MqttsnMessage" where
  "decode_sub_ack p =
     (if length p < 6 then Err MqMessageTooShort
      else res_bind (Flags_decode (p ! 0)) (\<lambda>flags.
        res_bind (ReturnCode_from_u8 (p ! 5)) (\<lambda>return_code.
          Ok (SubAck flags (u16_from_be_bytes (p ! 1) (p ! 2)) (u16_from_be_bytes (p ! 3) (p ! 4)) return_code))))"

definition decode_unsubscribe :: "u8 heapless_vec \<Rightarrow> u8 list \<Rightarrow> MqttsnError + MqttsnMessage" where
  "decode_unsubscribe hv p =
     (if length p < 3 then Err MqMessageTooShort
      else res_bind (Flags_decode (p ! 0)) (\<lambda>flags.
        res_bind (decode_topic hv (fl_topic_id_type flags) p) (\<lambda>topic.
          Ok (Unsubscribe flags (u16_from_be_bytes (p ! 1) (p ! 2)) topic))))"

definition decode_ping_req :: "u8 heapless_vec \<Rightarrow> u8 list \<Rightarrow> MqttsnError + MqttsnMessage" where
  "decode_ping_req hv p =
     (if p \<noteq> [] then res_bind (ok_or MqClientIdTooLong (hv_extend hv MAX_CLIENT_ID_LENGTH [] p)) (\<lambda>i. Ok (PingReq (Some i)))
      else Ok (PingReq None))"

definition decode_will_topic :: "u8 heapless_vec \<Rightarrow> u8 list \<Rightarrow> MqttsnError + MqttsnMessage" where
  "decode_will_topic hv p =
     (if p = [] then Err MqMessageTooShort
      else res_bind (Flags_decode (p ! 0)) (\<lambda>flags.
        res_bind (decode_text hv (drop 1 p)) (\<lambda>will_topic. Ok (WillTopic flags will_topic))))"

definition decode_fields :: "u8 heapless_vec \<Rightarrow> MqMessageType \<Rightarrow> u8 list \<Rightarrow> MqttsnError + MqttsnMessage" where
  "decode_fields hv ty p =
     (case ty of
        TAdvertise \<Rightarrow> if length p < 3 then Err MqMessageTooShort else Ok (Advertise (p ! 0) (u16_from_be_bytes (p ! 1) (p ! 2)))
      | TSearchGw \<Rightarrow> if p = [] then Err MqMessageTooShort else Ok (SearchGw (p ! 0))
      | TGwInfo \<Rightarrow> decode_gw_info hv p
      | TConnect \<Rightarrow> decode_connect hv p
      | TConnAck \<Rightarrow> if p = [] then Err MqMessageTooShort else res_bind (ReturnCode_from_u8 (p ! 0)) (\<lambda>rc. Ok (ConnAck rc))
      | TRegister \<Rightarrow> decode_register hv p
      | TRegAck \<Rightarrow> decode_reg_ack p
      | TPublish \<Rightarrow> decode_publish hv p
      | TPubAck \<Rightarrow> decode_pub_ack p
      | TSubscribe \<Rightarrow> decode_subscribe hv p
      | TSubAck \<Rightarrow> decode_sub_ack p
      | TUnsubscribe \<Rightarrow> decode_unsubscribe hv p
      | TUnsubAck \<Rightarrow> if length p < 2 then Err MqMessageTooShort else Ok (UnsubAck (u16_from_be_bytes (p ! 0) (p ! 1)))
      | TPingReq \<Rightarrow> decode_ping_req hv p
      | TPingResp \<Rightarrow> Ok PingResp
      | TDisconnect \<Rightarrow> Ok (Disconnect (if length p \<ge> 2 then Some (u16_from_be_bytes (p ! 0) (p ! 1)) else None))
      | TWillTopic \<Rightarrow> decode_will_topic hv p
      | TWillMsg \<Rightarrow> res_bind (ok_or MqPayloadTooLarge (hv_extend hv 192 [] p)) (\<lambda>will_msg. Ok (WillMsg will_msg))
      | _ \<Rightarrow> Err MqUnsupportedMessageType)"

definition MqttsnMessage_decode :: "u8 heapless_vec \<Rightarrow> u8 list \<Rightarrow> MqttsnError + MqttsnMessage" where
  "MqttsnMessage_decode hv bytes =
     (if length bytes < 2 then Err MqMessageTooShort
      else if unat (bytes ! 0) \<noteq> length bytes then Err MqInvalidLength
      else res_bind (MqMessageType_from_u8 (bytes ! 1)) (\<lambda>ty. decode_fields hv ty (drop 2 bytes)))"

section \<open>Client\<close>

record MqttsnClient =
  mc_client_id :: "u8 list"
  mc_msg_id :: u16
  mc_topics :: "(u8 list \<times> u16) list"
  mc_connected :: bool

record mqtt_vecs =
  mv_bytes :: "u8 heapless_vec"
  mv_topics :: "(u8 list \<times> u16) heapless_vec"

definition MqttsnClient_new :: "mqtt_vecs \<Rightarrow> u8 list \<Rightarrow> MqttsnError + MqttsnClient" where
  "MqttsnClient_new mv client_id =
     (if length client_id > MAX_CLIENT_ID_LENGTH then Err MqClientIdTooLong
      else res_bind (ok_or MqClientIdTooLong (hv_extend (mv_bytes mv) MAX_CLIENT_ID_LENGTH [] client_id)) (\<lambda>i.
        Ok \<lparr>mc_client_id = i, mc_msg_id = 1, mc_topics = [], mc_connected = False\<rparr>))"

definition next_msg_id :: "MqttsnClient \<Rightarrow> u16 \<times> MqttsnClient" where
  "next_msg_id c = (mc_msg_id c, c\<lparr>mc_msg_id := mc_msg_id c + 1\<rparr>)"

definition search_gateway :: "mqtt_vecs \<Rightarrow> MqttsnError + u8 list" where
  "search_gateway mv = MqttsnMessage_encode (mv_bytes mv) (SearchGw 1)"

definition mqtt_connect :: "mqtt_vecs \<Rightarrow> u16 \<Rightarrow> bool \<Rightarrow> MqttsnClient \<Rightarrow> MqttsnError + u8 list" where
  "mqtt_connect mv duration clean_session c =
     MqttsnMessage_encode (mv_bytes mv) (Connect (Flags_new\<lparr>fl_clean_session := clean_session\<rparr>) 1 duration (mc_client_id c))"

definition handle_connack :: "mqtt_vecs \<Rightarrow> u8 list \<Rightarrow> MqttsnClient \<Rightarrow> (MqttsnError + bool) \<times> MqttsnClient" where
  "handle_connack mv bytes c =
     (case MqttsnMessage_decode (mv_bytes mv) bytes of
        Inl e \<Rightarrow> (Err e, c)
      | Inr (ConnAck return_code) \<Rightarrow> (Ok (return_code = RcAccepted), c\<lparr>mc_connected := (return_code = RcAccepted)\<rparr>)
      | Inr _ \<Rightarrow> (Err MqUnexpectedMessage, c))"

text \<open>\<open>push_str\<close> into a new topic name.\<close>

definition topic_name :: "mqtt_vecs \<Rightarrow> u8 list \<Rightarrow> MqttsnError + u8 list" where
  "topic_name mv name = ok_or MqTopicNameTooLong (hv_extend (mv_bytes mv) MAX_TOPIC_NAME_LENGTH [] name)"

definition register_topic :: "mqtt_vecs \<Rightarrow> u8 list \<Rightarrow> MqttsnClient \<Rightarrow> (MqttsnError + u8 list \<times> u16) \<times> MqttsnClient" where
  "register_topic mv name c =
     (if \<not> mc_connected c then (Err MqNotConnected, c)
      else case find (\<lambda>(n, _). n = name) (mc_topics c) of
        Some (_, i) \<Rightarrow> (Ok ([], i), c)
      | None \<Rightarrow>
          let (msg_id, c1) = next_msg_id c in
          (res_bind (topic_name mv name) (\<lambda>n.
             res_bind (MqttsnMessage_encode (mv_bytes mv) (Register 0 msg_id n)) (\<lambda>bytes. Ok (bytes, msg_id))), c1))"

definition handle_regack :: "mqtt_vecs \<Rightarrow> u8 list \<Rightarrow> MqttsnError + u16" where
  "handle_regack mv bytes =
     (case MqttsnMessage_decode (mv_bytes mv) bytes of
        Inl e \<Rightarrow> Err e
      | Inr (RegAck topic_id _ return_code) \<Rightarrow> if return_code = RcAccepted then Ok topic_id else Err MqRegistrationRejected
      | Inr _ \<Rightarrow> Err MqUnexpectedMessage)"

definition add_topic :: "mqtt_vecs \<Rightarrow> u8 list \<Rightarrow> u16 \<Rightarrow> MqttsnClient \<Rightarrow> (MqttsnError + unit) \<times> MqttsnClient" where
  "add_topic mv name i c =
     (case topic_name mv name of
        Inl e \<Rightarrow> (Err e, c)
      | Inr n \<Rightarrow> case hv_push (mv_topics mv) 16 (mc_topics c) (n, i) of
          None \<Rightarrow> (Err MqTooManyTopics, c)
        | Some ts \<Rightarrow> (Ok (), c\<lparr>mc_topics := ts\<rparr>))"

definition mqtt_publish :: "mqtt_vecs \<Rightarrow> u16 \<Rightarrow> u8 list \<Rightarrow> QoS \<Rightarrow> bool \<Rightarrow> MqttsnClient \<Rightarrow> (MqttsnError + u8 list) \<times> MqttsnClient" where
  "mqtt_publish mv topic_id payload qos retain c =
     (if \<not> mc_connected c then (Err MqNotConnected, c)
      else
        let flags = Flags_new\<lparr>fl_qos := qos, fl_retain := retain, fl_topic_id_type := TopicNormal\<rparr>;
            (msg_id, c1) = (if qos \<noteq> Level0 then next_msg_id c else (0, c)) in
        (res_bind (ok_or MqPayloadTooLarge (hv_extend (mv_bytes mv) 192 [] payload)) (\<lambda>p.
           MqttsnMessage_encode (mv_bytes mv) (Publish flags topic_id msg_id p)), c1))"

definition mqtt_subscribe :: "mqtt_vecs \<Rightarrow> u8 list \<Rightarrow> QoS \<Rightarrow> MqttsnClient \<Rightarrow> (MqttsnError + u8 list) \<times> MqttsnClient" where
  "mqtt_subscribe mv name qos c =
     (if \<not> mc_connected c then (Err MqNotConnected, c)
      else
        let flags = Flags_new\<lparr>fl_qos := qos, fl_topic_id_type := TopicNormal\<rparr>;
            (msg_id, c1) = next_msg_id c in
        (res_bind (topic_name mv name) (\<lambda>n. MqttsnMessage_encode (mv_bytes mv) (Subscribe flags msg_id (TopicName n))), c1))"

definition mqtt_unsubscribe :: "mqtt_vecs \<Rightarrow> u8 list \<Rightarrow> MqttsnClient \<Rightarrow> (MqttsnError + u8 list) \<times> MqttsnClient" where
  "mqtt_unsubscribe mv name c =
     (if \<not> mc_connected c then (Err MqNotConnected, c)
      else
        let flags = Flags_new\<lparr>fl_topic_id_type := TopicNormal\<rparr>;
            (msg_id, c1) = next_msg_id c in
        (res_bind (topic_name mv name) (\<lambda>n. MqttsnMessage_encode (mv_bytes mv) (Unsubscribe flags msg_id (TopicName n))), c1))"

definition mqtt_ping :: "mqtt_vecs \<Rightarrow> MqttsnError + u8 list" where
  "mqtt_ping mv = MqttsnMessage_encode (mv_bytes mv) (PingReq None)"

definition mqtt_disconnect :: "mqtt_vecs \<Rightarrow> u16 option \<Rightarrow> MqttsnClient \<Rightarrow> (MqttsnError + u8 list) \<times> MqttsnClient" where
  "mqtt_disconnect mv duration c = (MqttsnMessage_encode (mv_bytes mv) (Disconnect duration), c\<lparr>mc_connected := False\<rparr>)"

definition get_topic_id :: "u8 list \<Rightarrow> MqttsnClient \<Rightarrow> u16 option" where
  "get_topic_id name c = map_option snd (find (\<lambda>(n, _). n = name) (mc_topics c))"

end
