(* ===== verification/Codec.thy ===== *)
theory Codec
  imports Heapless
begin

text \<open>
  The contract of a message codec: an encoder that succeeds on the well-formed messages, and a
  decoder that inverts it and only produces well-formed messages. The protocol modules of the
  edge runtime provide it; what a gateway or a relay relies on follows from it.
\<close>

locale message_codec =
  fixes enc :: "'m \<Rightarrow> 'e + 'b list" and dec :: "'b list \<Rightarrow> 'e + 'm" and wf :: "'m \<Rightarrow> bool"
  assumes roundtrip: "wf m \<Longrightarrow> \<exists>bs. enc m = Ok bs \<and> dec bs = Ok m"
    and decoded_wf: "dec bs = Ok m \<Longrightarrow> wf m"
begin

lemma enc_inj: "wf m \<Longrightarrow> wf m' \<Longrightarrow> enc m = enc m' \<Longrightarrow> m = m'"
  using roundtrip [of m] roundtrip [of m'] by auto

lemma dec_enc: "enc m = Ok bs \<Longrightarrow> wf m \<Longrightarrow> dec bs = Ok m"
  using roundtrip [of m] by auto

text \<open>Relaying a received message by decoding and encoding it again does not change its meaning.\<close>

lemma relay: "dec bs = Ok m \<Longrightarrow> \<exists>bs'. enc m = Ok bs' \<and> dec bs' = Ok m"
  using decoded_wf roundtrip by blast

lemma wf_iff_received: "wf m \<longleftrightarrow> (\<exists>bs. dec bs = Ok m)"
  using decoded_wf roundtrip by blast

end

end
