(* ===== verification/Mqttsn_Correct.thy ===== *)
theory Mqttsn_Correct
  imports Mqttsn Codec
begin

unbundle bit_operations_syntax

text \<open>
  The theorems on MQTT-SN: the flags byte, the round trip of messages, what decoding accepts,
  and the messages and message identifiers of the client.
\<close>

section \<open>Fields\<close>

lemma be_bytes [simp]: "u16_from_be_bytes (ucast (drop_bit 8 x)) (ucast x) = x"
proof (rule bit_word_eqI)
  fix n
  assume "n < LENGTH(16)"
  then show "bit (u16_from_be_bytes (ucast (drop_bit 8 x)) (ucast x)) n = bit x n"
    by (auto simp: u16_from_be_bytes_def bit_or_iff bit_push_bit_iff bit_ucast_iff bit_drop_bit_eq)
qed

lemma MessageType_roundtrip [simp]: "MqMessageType_from_u8 (MqMessageType_to_u8 t) = Ok t"
  by (cases t) (simp_all add: MqMessageType_from_u8_def)

lemma QoS_roundtrip [simp]: "QoS_from_u8 (QoS_to_u8 q) = Ok q"
  by (cases q) (simp_all add: QoS_from_u8_def)

lemma ReturnCode_roundtrip [simp]: "ReturnCode_from_u8 (ReturnCode_to_u8 r) = Ok r"
  by (cases r) (simp_all add: ReturnCode_from_u8_def)

section \<open>Flags\<close>

text \<open>The bit of the clean session flag is also the upper bit of the topic identifier type.\<close>

definition flags_ok :: "Flags \<Rightarrow> bool" where
  "flags_ok f \<longleftrightarrow> fl_clean_session f = (fl_topic_id_type f = Short)"

lemma flags_transfer:
  "Flags_decode (Flags_encode f) =
     (if fl_clean_session f \<and> fl_topic_id_type f = Predefined then Err MqInvalidTopicIdType
      else if fl_clean_session f then Ok (f\<lparr>fl_topic_id_type := Short\<rparr>)
      else if fl_topic_id_type f = Short then Ok (f\<lparr>fl_clean_session := True\<rparr>)
      else Ok f)"
proof (cases f)
  case (fields dup qos retain will clean_session ty)
  show ?thesis unfolding fields
    by (cases dup; cases qos; cases retain; cases will; cases clean_session; cases ty)
      (simp_all add: Flags_decode_def Flags_encode_def QoS_from_u8_def TopicIdType_from_flags_def)
qed

lemma flags_roundtrip [simp]: "flags_ok f \<Longrightarrow> Flags_decode (Flags_encode f) = Ok f"
  by (cases f, cases "fl_topic_id_type f") (auto simp: flags_transfer flags_ok_def)

lemma flags_decoded:
  assumes "Flags_decode b = Ok f"
  shows "flags_ok f"
proof -
  let ?v = "drop_bit 1 b AND 3"
  have "bit ?v 1 = bit b 2" by (simp add: bit_and_iff bit_drop_bit_eq bit_numeral_rec numeral_2_eq_2)
  then have clean: "(b AND 4 \<noteq> 0) = bit ?v 1" using and_exp_eq_0_iff_not_bit [of b 2] by simp
  obtain ty where ty: "TopicIdType_from_flags b = Ok ty" "fl_topic_id_type f = ty" "fl_clean_session f = (b AND 4 \<noteq> 0)"
    using assms by (auto simp: Flags_decode_def Let_def res_bind_Ok_iff)
  have "?v = 0 \<and> ty = TopicNormal \<or> ?v = 1 \<and> ty = Predefined \<or> ?v = 2 \<and> ty = Short"
    using ty(1) by (auto simp: TopicIdType_from_flags_def Let_def split: if_splits)
  then show ?thesis using ty(2,3) clean by (auto simp: flags_ok_def bit_numeral_rec)
qed

section \<open>The round trip\<close>

text \<open>The bytes of a message after its length and type.\<close>

fun topic_bytes :: "SubscribeTopic \<Rightarrow> u8 list" where
  "topic_bytes (TopicName n) = n" | "topic_bytes (TopicId i) = u16_to_be_bytes i" | "topic_bytes (TopicShort x y) = [x, y]"

fun field_bytes :: "MqttsnMessage \<Rightarrow> u8 list" where
  "field_bytes (Advertise g d) = g # u16_to_be_bytes d"
| "field_bytes (SearchGw r) = [r]"
| "field_bytes (GwInfo g a) = g # (case a of None \<Rightarrow> [] | Some bs \<Rightarrow> bs)"
| "field_bytes (Connect f p d c) = Flags_encode f # p # u16_to_be_bytes d @ c"
| "field_bytes (ConnAck r) = [ReturnCode_to_u8 r]"
| "field_bytes (Register t i n) = u16_to_be_bytes t @ u16_to_be_bytes i @ n"
| "field_bytes (RegAck t i r) = u16_to_be_bytes t @ u16_to_be_bytes i @ [ReturnCode_to_u8 r]"
| "field_bytes (Publish f t i d) = Flags_encode f # u16_to_be_bytes t @ u16_to_be_bytes i @ d"
| "field_bytes (PubAck t i r) = u16_to_be_bytes t @ u16_to_be_bytes i @ [ReturnCode_to_u8 r]"
| "field_bytes (Subscribe f i t) = Flags_encode f # u16_to_be_bytes i @ topic_bytes t"
| "field_bytes (SubAck f t i r) = Flags_encode f # u16_to_be_bytes t @ u16_to_be_bytes i @ [ReturnCode_to_u8 r]"
| "field_bytes (Unsubscribe f i t) = Flags_encode f # u16_to_be_bytes i @ topic_bytes t"
| "field_bytes (UnsubAck i) = u16_to_be_bytes i"
| "field_bytes (PingReq c) = (case c of None \<Rightarrow> [] | Some bs \<Rightarrow> bs)"
| "field_bytes PingResp = []"
| "field_bytes (Disconnect d) = (case d of None \<Rightarrow> [] | Some x \<Rightarrow> u16_to_be_bytes x)"
| "field_bytes (WillTopic f n) = Flags_encode f # n"
| "field_bytes (WillMsg d) = d"

text \<open>The messages the decoder can produce: containers within their capacity, valid texts, and flags that fit the topic.\<close>

definition name_ok :: "u8 list \<Rightarrow> bool" where
  "name_ok n \<longleftrightarrow> utf8_valid n \<and> length n \<le> 64"

fun topic_ok :: "TopicIdType \<Rightarrow> SubscribeTopic \<Rightarrow> bool" where
  "topic_ok ty (TopicName n) \<longleftrightarrow> ty = TopicNormal \<and> name_ok n"
| "topic_ok ty (TopicId _) \<longleftrightarrow> ty = Predefined"
| "topic_ok ty (TopicShort _ _) \<longleftrightarrow> ty = Short"

fun mq_wf :: "MqttsnMessage \<Rightarrow> bool" where
  "mq_wf (GwInfo _ (Some a)) \<longleftrightarrow> a \<noteq> [] \<and> length a \<le> 16"
| "mq_wf (Connect f _ _ c) \<longleftrightarrow> flags_ok f \<and> length c \<le> 23"
| "mq_wf (Register _ _ n) \<longleftrightarrow> name_ok n"
| "mq_wf (Publish f _ _ d) \<longleftrightarrow> flags_ok f \<and> length d \<le> 192"
| "mq_wf (Subscribe f _ t) \<longleftrightarrow> flags_ok f \<and> topic_ok (fl_topic_id_type f) t"
| "mq_wf (SubAck f _ _ _) \<longleftrightarrow> flags_ok f"
| "mq_wf (Unsubscribe f _ t) \<longleftrightarrow> flags_ok f \<and> topic_ok (fl_topic_id_type f) t"
| "mq_wf (PingReq (Some c)) \<longleftrightarrow> c \<noteq> [] \<and> length c \<le> 23"
| "mq_wf (WillTopic f n) \<longleftrightarrow> flags_ok f \<and> name_ok n"
| "mq_wf (WillMsg d) \<longleftrightarrow> length d \<le> 192"
| "mq_wf _ \<longleftrightarrow> True"

lemma length_be [simp]: "length (u16_to_be_bytes x) = 2"
  by (simp add: u16_to_be_bytes_def)

lemma field_bytes_short:
  assumes "mq_wf m"
  shows "length (field_bytes m) \<le> 197"
proof -
  have topic: "length (topic_bytes t) \<le> 64" if "topic_ok ty t" for ty t using that by (cases t) (auto simp: name_ok_def)
  show ?thesis using assms topic by (cases m rule: mq_wf.cases) (fastforce simp: name_ok_def split: option.splits)+
qed

text \<open>Appending to the buffer, as far as it has room.\<close>

definition put :: "u8 list \<Rightarrow> u8 list \<Rightarrow> MqttsnError + u8 list" where
  "put bs b = (if length b + length bs \<le> 256 then Ok (b @ bs) else Err MqBufferTooSmall)"

lemma mq_puts:
  assumes "heapless_ok hv" "length b \<le> 256"
  shows "mq_push hv x b = put [x] b" "mq_extend hv xs b = put xs b"
  using assms by (simp_all add: mq_push_def mq_extend_def put_def heapless MAX_MESSAGE_LENGTH_def)

lemma put_bind:
  assumes "\<And>b'. length b' \<le> 256 \<Longrightarrow> k b' = put cs b'"
  shows "res_bind (put bs b) k = put (bs @ cs) b"
  using assms by (auto simp: put_def)

lemma put_last: "res_bind (put bs b) Ok = put bs b" and put_none: "length b \<le> 256 \<Longrightarrow> Ok b = put [] b"
  by (simp_all add: put_def)

lemma mq_bind:
  assumes "heapless_ok hv" "length b \<le> 256" "\<And>b'. length b' \<le> 256 \<Longrightarrow> k b' = put cs b'"
  shows "res_bind (mq_push hv x b) k = put (x # cs) b" "res_bind (mq_extend hv xs b) k = put (xs @ cs) b"
  using assms put_bind [of k cs "[x]" b] put_bind [of k cs xs b] by (simp_all add: mq_puts)

lemmas encode_arms = encode_gw_info_def encode_connect_def encode_register_def encode_reg_ack_def encode_publish_def
  encode_pub_ack_def encode_subscribe_def encode_sub_ack_def encode_unsubscribe_def encode_will_topic_def

lemma encode_fields_put:
  assumes hv: "heapless_ok hv" and b: "length b \<le> 256"
  shows "encode_fields hv m b = put (field_bytes m) b"
proof -
  have topic: "encode_topic hv t b' = put (topic_bytes t) b'" if "length b' \<le> 256" for t b'
    using that by (cases t) (simp_all add: mq_puts [OF hv])
  have last: "mq_push hv x b' = put [x] b'" "mq_extend hv xs b' = put xs b'" if "length b' \<le> 256" for x xs b'
    using mq_puts [OF hv that] by blast+
  note step = mq_bind [OF hv]
  show ?thesis using b
    by (cases m; simp only: encode_fields.simps encode_arms field_bytes.simps)
      (auto split: option.splits intro!: step last topic put_none)
qed

lemma mqtt_encode_spec:
  assumes hv: "heapless_ok hv" and wf: "mq_wf m"
  shows "MqttsnMessage_encode hv m = Ok (of_nat (2 + length (field_bytes m)) # MqMessageType_to_u8 (message_type m) # field_bytes m)"
  using field_bytes_short [OF wf] by (simp add: MqttsnMessage_encode_def mq_puts [OF hv] encode_fields_put [OF hv] put_def Let_def)

lemmas decode_arms = decode_gw_info_def decode_connect_def decode_register_def decode_reg_ack_def decode_publish_def decode_pub_ack_def
  decode_subscribe_def decode_sub_ack_def decode_unsubscribe_def decode_ping_req_def decode_will_topic_def

lemma decode_text_ok: "heapless_ok hv \<Longrightarrow> decode_text hv n = Ok n' \<longleftrightarrow> n' = n \<and> name_ok n"
  by (auto simp: decode_text_def heapless MAX_TOPIC_NAME_LENGTH_def name_ok_def ok_or_Ok_iff)

lemma decode_topic_bytes:
  assumes "heapless_ok hv" and "topic_ok ty t" and "length p = 3"
  shows "decode_topic hv ty (p @ topic_bytes t) = Ok t"
  using assms decode_text_ok [OF assms(1)]
  by (cases t) (auto simp: decode_topic_def u16_to_be_bytes_def nth_append res_bind_Ok_iff)

lemma decode_field_bytes:
  assumes hv: "heapless_ok hv" and wf: "mq_wf m"
  shows "decode_fields hv (message_type m) (field_bytes m) = Ok m"
proof -
  have nm: "decode_text hv n = Ok n" if "name_ok n" for n using that decode_text_ok [OF hv] by blast
  have topic: "decode_topic hv (fl_topic_id_type f) (x # y # z # topic_bytes t) = Ok t" if "topic_ok (fl_topic_id_type f) t" for f x y z t
    using decode_topic_bytes [OF hv that, of "[x, y, z]"] by simp
  have two: "u16_to_be_bytes x = [ucast (drop_bit 8 x), ucast x]" for x by (rule u16_to_be_bytes_def)
  show ?thesis using wf
    by (cases m rule: mq_wf.cases) (auto simp: decode_fields_def decode_arms two nm topic heapless [OF hv] MAX_CLIENT_ID_LENGTH_def split: option.splits)
qed

lemma decode_spec:
  assumes hv: "heapless_ok hv" and wf: "mq_wf m"
  shows "MqttsnMessage_decode hv (of_nat (2 + length (field_bytes m)) # MqMessageType_to_u8 (message_type m) # field_bytes m) = Ok m"
proof -
  have "unat (of_nat (2 + length (field_bytes m)) :: u8) = 2 + length (field_bytes m)"
    using field_bytes_short [OF wf] by (subst unsigned_of_nat, subst take_bit_nat_eq_self) simp_all
  then show ?thesis using decode_field_bytes [OF assms] by (simp add: MqttsnMessage_decode_def)
qed

lemma decode_topic_ok: "heapless_ok hv \<Longrightarrow> decode_topic hv ty p = Ok t \<Longrightarrow> topic_ok ty t"
  using decode_text_ok [of hv] by (cases ty) (auto simp: decode_topic_def res_bind_Ok_iff split: if_splits)

lemma decode_wf:
  assumes hv: "heapless_ok hv" and dec: "MqttsnMessage_decode hv bs = Ok m"
  shows "mq_wf m"
proof -
  obtain ty p where "decode_fields hv ty p = Ok m"
    using dec by (auto simp: MqttsnMessage_decode_def res_bind_Ok_iff split: if_splits)
  then show ?thesis
    using flags_decoded decode_topic_ok [OF hv] decode_text_ok [OF hv]
    by (cases ty) (auto simp: decode_fields_def decode_arms res_bind_Ok_iff ok_or_Ok_iff heapless [OF hv] MAX_CLIENT_ID_LENGTH_def split: if_splits)
qed

lemma mqtt_codec: "heapless_ok hv \<Longrightarrow> message_codec (MqttsnMessage_encode hv) (MqttsnMessage_decode hv) mq_wf"
  using mqtt_encode_spec decode_spec decode_wf by unfold_locales blast+

locale mqtt_bytes =
  fixes hv :: "u8 heapless_vec"
  assumes hv: "heapless_ok hv"

sublocale mqtt_bytes < cod: message_codec "MqttsnMessage_encode hv" "MqttsnMessage_decode hv" mq_wf
  by (rule mqtt_codec [OF hv])

interpretation mq_list: mqtt_bytes list_vec
  by unfold_locales simp



text \<open>
  Decoding accepts only well-formed messages. Whatever bytes arrive, if they are decoded
  at all, the message is well-formed, and the receiver can relay it: encoding it again succeeds
  and the new bytes are decoded to the same message.
\<close>

theorem mqttsn_decode_sound:
  assumes "heapless_ok hv" and "MqttsnMessage_decode hv bs = Ok m"
  shows "mq_wf m \<and> (\<exists>bs'. MqttsnMessage_encode hv m = Ok bs' \<and> MqttsnMessage_decode hv bs' = Ok m)"
  using message_codec.relay [OF mqtt_codec] message_codec.decoded_wf [OF mqtt_codec] assms by metis

theorem mqttsn_decode_sound_witness:
  "mq_wf (SearchGw 9) \<and> (\<exists>bs'. MqttsnMessage_encode list_vec (SearchGw 9) = Ok bs' \<and> MqttsnMessage_decode list_vec bs' = Ok (SearchGw 9))"
  by (rule mqttsn_decode_sound [of _ "[4, 1, 9, 77]"])
     (simp_all add: MqttsnMessage_decode_def MqMessageType_from_u8_def decode_fields_def)

section \<open>The client\<close>

definition mqtt_vecs_ok :: "mqtt_vecs \<Rightarrow> bool" where
  "mqtt_vecs_ok mv \<longleftrightarrow> heapless_ok (mv_bytes mv) \<and> heapless_ok (mv_topics mv)"

text \<open>
  A clean session is announced as something else. The bytes of a connect request with a clean
  session are decoded to a request whose flags carry the short topic type, which the client did
  not ask for; without a clean session the request arrives unchanged.
\<close>

theorem clean_session_misread:
  assumes mv: "mqtt_vecs_ok mv" and c: "length (mc_client_id c) \<le> 23"
  shows "\<exists>bs. mqtt_connect mv duration clean c = Ok bs \<and>
    MqttsnMessage_decode (mv_bytes mv) bs =
      Ok (Connect (Flags_new\<lparr>fl_clean_session := clean, fl_topic_id_type := (if clean then Short else TopicNormal)\<rparr>) 1 duration (mc_client_id c))"
proof -
  let ?f = "Flags_new\<lparr>fl_clean_session := clean, fl_topic_id_type := (if clean then Short else TopicNormal)\<rparr>"
  have hv: "heapless_ok (mv_bytes mv)" using mv by (simp add: mqtt_vecs_ok_def)
  have byte: "Flags_encode (Flags_new\<lparr>fl_clean_session := clean\<rparr>) = Flags_encode ?f"
    by (cases clean) (simp_all add: Flags_encode_def Flags_new_def)
  have "mqtt_connect mv duration clean c = MqttsnMessage_encode (mv_bytes mv) (Connect ?f 1 duration (mc_client_id c))"
    by (simp add: mqtt_connect_def MqttsnMessage_encode_def encode_connect_def byte)
  moreover have "mq_wf (Connect ?f 1 duration (mc_client_id c))" using c by (simp add: flags_ok_def Flags_new_def)
  ultimately show ?thesis using mqtt_encode_spec [OF hv] decode_spec [OF hv] by metis
qed

theorem clean_session_misread_witness:
  "\<exists>bs. mqtt_connect \<lparr>mv_bytes = list_vec, mv_topics = list_vec\<rparr> 60 True \<lparr>mc_client_id = [115], mc_msg_id = 1, mc_topics = [], mc_connected = False\<rparr> = Ok bs \<and>
    MqttsnMessage_decode list_vec bs = Ok (Connect (Flags_new\<lparr>fl_clean_session := True, fl_topic_id_type := Short\<rparr>) 1 60 [115])"
  using clean_session_misread [of "\<lparr>mv_bytes = list_vec, mv_topics = list_vec\<rparr>" "\<lparr>mc_client_id = [115], mc_msg_id = 1, mc_topics = [], mc_connected = False\<rparr>" 60 True]
  by (simp add: mqtt_vecs_ok_def)

text \<open>The requests of a client, and the messages a gateway decodes from a sequence of them.\<close>

datatype mq_op = OpRegister "u8 list" | OpPublish u16 "u8 list" QoS bool | OpSubscribe "u8 list" QoS | OpUnsubscribe "u8 list"

fun mq_apply :: "mqtt_vecs \<Rightarrow> mq_op \<Rightarrow> MqttsnClient \<Rightarrow> (MqttsnError + u8 list) \<times> MqttsnClient" where
  "mq_apply mv (OpRegister n) c = map_prod (map_sum id fst) id (register_topic mv n c)"
| "mq_apply mv (OpPublish t d q r) c = mqtt_publish mv t d q r c"
| "mq_apply mv (OpSubscribe n q) c = mqtt_subscribe mv n q c"
| "mq_apply mv (OpUnsubscribe n) c = mqtt_unsubscribe mv n c"

fun received :: "mqtt_vecs \<Rightarrow> mq_op list \<Rightarrow> MqttsnClient \<Rightarrow> MqttsnMessage list" where
  "received mv [] c = []"
| "received mv (op # ops) c =
     (case mq_apply mv op c of (r, c') \<Rightarrow>
        (case res_bind r (MqttsnMessage_decode (mv_bytes mv)) of Inr m \<Rightarrow> [m] | Inl _ \<Rightarrow> []) @ received mv ops c')"

text \<open>The identifier of a message that asks for an acknowledgement.\<close>

fun ack_id :: "MqttsnMessage \<Rightarrow> u16 list" where
  "ack_id (Register _ i _) = [i]"
| "ack_id (Publish f _ i _) = (if fl_qos f = Level0 then [] else [i])"
| "ack_id (Subscribe _ i _) = [i]"
| "ack_id (Unsubscribe _ i _) = [i]"
| "ack_id _ = []"

lemma topic_name_cases:
  assumes "mqtt_vecs_ok mv"
  shows "topic_name mv n = (if length n \<le> 64 then Ok n else Err MqTopicNameTooLong)"
  using assms by (simp add: topic_name_def mqtt_vecs_ok_def heapless MAX_TOPIC_NAME_LENGTH_def)

text \<open>A \<open>str\<close> of the source is valid UTF-8.\<close>

fun op_ok :: "mq_op \<Rightarrow> bool" where
  "op_ok (OpRegister n) = utf8_valid n" | "op_ok (OpPublish _ _ _ _) = True"
| "op_ok (OpSubscribe n _) = utf8_valid n" | "op_ok (OpUnsubscribe n) = utf8_valid n"

lemma sent_received:
  assumes "mqtt_vecs_ok mv" and "mq_wf m"
  shows "res_bind (MqttsnMessage_encode (mv_bytes mv) m) (MqttsnMessage_decode (mv_bytes mv)) = Ok m"
  using assms mqtt_encode_spec decode_spec by (simp add: mqtt_vecs_ok_def)

text \<open>A request either leaves the identifier alone and asks for no acknowledgement, or uses up one identifier.\<close>

lemma mq_apply_id:
  assumes mv: "mqtt_vecs_ok mv" and c: "mc_connected c" and op: "op_ok op" and ap: "mq_apply mv op c = (r, c')"
  shows "mc_connected c' \<and> (\<exists>k \<in> {0, 1}. mc_msg_id c' = mc_msg_id c + of_nat k \<and>
     (case res_bind r (MqttsnMessage_decode (mv_bytes mv)) of Inr m \<Rightarrow> ack_id m = [] \<or> ack_id m = [mc_msg_id c] \<and> k = 1 | Inl _ \<Rightarrow> True))"
proof (cases op)
  case (OpRegister n)
  show ?thesis
  proof (cases "find (\<lambda>(m, _). m = n) (mc_topics c)")
    case None
    have "mq_wf (Register 0 (mc_msg_id c) n)" if "length n \<le> 64" using that op OpRegister by (simp add: name_ok_def)
    moreover have "map_sum id fst (res_bind a (\<lambda>x. Ok (x, i))) = a" for a :: "MqttsnError + u8 list" and i :: u16 by (cases a) simp_all
    ultimately show ?thesis using sent_received [OF mv, of "Register 0 (mc_msg_id c) n"]
      using ap c OpRegister None by (cases "length n \<le> 64") (auto simp: register_topic_def next_msg_id_def Let_def topic_name_cases [OF mv])
  next
    case (Some x)
    then show ?thesis using ap c OpRegister by (cases x) (auto simp: register_topic_def MqttsnMessage_decode_def)
  qed
next
  case (OpPublish t d q x)
  let ?m = "Publish (Flags_new\<lparr>fl_qos := q, fl_retain := x, fl_topic_id_type := TopicNormal\<rparr>) t (if q = Level0 then 0 else mc_msg_id c) d"
  have ext: "hv_extend (mv_bytes mv) 192 [] d = (if length d \<le> 192 then Some d else None)" using mv by (simp add: mqtt_vecs_ok_def heapless)
  have "mq_wf ?m" if "length d \<le> 192" using that by (simp add: flags_ok_def Flags_new_def)
  from sent_received [OF mv this] show ?thesis
    using ap c OpPublish by (cases "q = Level0"; cases "length d \<le> 192") (auto simp: mqtt_publish_def next_msg_id_def Let_def ext split: if_splits)
next
  case (OpSubscribe n q)
  let ?m = "Subscribe (Flags_new\<lparr>fl_qos := q, fl_topic_id_type := TopicNormal\<rparr>) (mc_msg_id c) (TopicName n)"
  have "mq_wf ?m" if "length n \<le> 64" using that op OpSubscribe by (simp add: flags_ok_def Flags_new_def name_ok_def)
  from sent_received [OF mv this] show ?thesis
    using ap c OpSubscribe by (cases "length n \<le> 64") (auto simp: mqtt_subscribe_def next_msg_id_def Let_def topic_name_cases [OF mv])
next
  case (OpUnsubscribe n)
  let ?m = "Unsubscribe (Flags_new\<lparr>fl_topic_id_type := TopicNormal\<rparr>) (mc_msg_id c) (TopicName n)"
  have "mq_wf ?m" if "length n \<le> 64" using that op OpUnsubscribe by (simp add: flags_ok_def Flags_new_def name_ok_def)
  from sent_received [OF mv this] show ?thesis
    using ap c OpUnsubscribe by (cases "length n \<le> 64") (auto simp: mqtt_unsubscribe_def next_msg_id_def Let_def topic_name_cases [OF mv])
qed

lemma received_ids:
  assumes "mqtt_vecs_ok mv" and "mc_connected c" and "\<forall>op \<in> set ops. op_ok op"
  shows "\<exists>ks. concat (map ack_id (received mv ops c)) = map (\<lambda>k. mc_msg_id c + of_nat k) ks \<and> sorted_wrt (<) ks \<and> set ks \<subseteq> {..<length ops}"
  using assms
proof (induction ops arbitrary: c)
  case (Cons op ops)
  obtain r c' where ap: "mq_apply mv op c = (r, c')" by (cases "mq_apply mv op c")
  have "op_ok op" using Cons.prems(3) by simp
  from mq_apply_id [OF Cons.prems(1,2) this ap] obtain k where k: "mc_connected c'" "k \<in> {0, 1}" "mc_msg_id c' = mc_msg_id c + of_nat k"
    "case res_bind r (MqttsnMessage_decode (mv_bytes mv)) of Inr m \<Rightarrow> ack_id m = [] \<or> ack_id m = [mc_msg_id c] \<and> k = 1 | Inl _ \<Rightarrow> True"
    by blast
  obtain ks where ks: "concat (map ack_id (received mv ops c')) = map (\<lambda>j. mc_msg_id c' + of_nat j) ks" "sorted_wrt (<) ks" "set ks \<subseteq> {..<length ops}"
    using Cons.IH [OF Cons.prems(1) k(1)] Cons.prems(3) by auto
  let ?ks = "map (\<lambda>j. k + j) ks"
  have tail: "concat (map ack_id (received mv ops c')) = map (\<lambda>j. mc_msg_id c + of_nat j) ?ks"
    using ks(1) k(3) by (simp add: add.assoc)
  have sub: "sorted_wrt (<) ?ks" "set ?ks \<subseteq> {k..<length (op # ops)}" using ks(2,3) k(2) by (auto simp: sorted_wrt_map)
  show ?case
  proof (cases "\<exists>m. res_bind r (MqttsnMessage_decode (mv_bytes mv)) = Ok m \<and> ack_id m \<noteq> []")
    case True
    then have "concat (map ack_id (received mv (op # ops) c)) = map (\<lambda>j. mc_msg_id c + of_nat j) (0 # ?ks)" "k = 1"
      using ap k(4) tail by auto
    then show ?thesis using sub by (intro exI [of _ "0 # ?ks"]) auto
  next
    case False
    then have "concat (map ack_id (received mv (op # ops) c)) = map (\<lambda>j. mc_msg_id c + of_nat j) ?ks"
      using ap tail by (auto split: sum.splits)
    then show ?thesis using sub by (intro exI [of _ ?ks]) auto
  qed
qed simp

text \<open>
  Acknowledgements cannot be confused. In a session of a connected client with at most 65536
  requests, whatever they are and whether they succeed or fail, all the messages that the gateway
  decodes and has to acknowledge carry different identifiers.
\<close>

theorem message_ids_distinct:
  assumes "mqtt_vecs_ok mv" and "mc_connected c" and "\<forall>op \<in> set ops. op_ok op" and "length ops \<le> 65536"
  shows "distinct (concat (map ack_id (received mv ops c)))"
proof -
  obtain ks where ks: "concat (map ack_id (received mv ops c)) = map (\<lambda>k. mc_msg_id c + of_nat k) ks" "sorted_wrt (<) ks" "set ks \<subseteq> {..<length ops}"
    using received_ids [OF assms(1-3)] by blast
  have "distinct ks" using ks(2) by (simp add: strict_sorted_iff)
  moreover have "inj_on (\<lambda>k. mc_msg_id c + of_nat k) (set ks)"
  proof (rule inj_onI)
    fix i j
    assume "i \<in> set ks" "j \<in> set ks" and eq: "mc_msg_id c + of_nat i = mc_msg_id c + of_nat j"
    then have small: "i < 2 ^ LENGTH(16)" "j < 2 ^ LENGTH(16)" using ks(3) assms(4) by auto
    have "unat (of_nat i :: u16) = unat (of_nat j :: u16)" using eq by simp
    then show "i = j" using small by (simp add: unsigned_of_nat take_bit_nat_eq_self)
  qed
  ultimately show ?thesis unfolding ks(1) by (simp add: distinct_map)
qed

theorem message_ids_distinct_witness:
  "distinct (concat (map ack_id (received \<lparr>mv_bytes = list_vec, mv_topics = list_vec\<rparr> [OpRegister [116], OpPublish 3 [50] Level1 False]
     \<lparr>mc_client_id = [115], mc_msg_id = 65535, mc_topics = [], mc_connected = True\<rparr>)))"
  by (rule message_ids_distinct) (simp_all add: mqtt_vecs_ok_def)

end
