(* ===== verification/Ack.thy ===== *)
theory Ack
  imports Prelude Complex_Main
begin

text \<open>
  The acknowledgement system of the mesh, \<open>mielin-mesh/wire/src/ack.rs\<close>: identifiers, the
  retry timeouts, the tracker with its retries and its duplicate detection, and the manager with
  delivery callbacks.

  Times are microseconds in 64 bits, and the clock reading \<open>now\<close> is an argument. The counter
  behind \<open>MessageId::generate\<close> is passed through. A hash map is the list of its entries in the
  order of their iteration, which the source leaves open; no theorem depends on it. The timeout
  is computed with exact rationals in place of floating point numbers. A callback is represented
  by the identifier of its message, and a call of it by that identifier with the result.
\<close>

type_synonym ack_node = "u8 list"

datatype AckStatus = AckPending | AckAcknowledged | AckFailed | AckRejected | AckExpired

record Acknowledgment =
  ack_message_id :: nat
  ack_sender :: ack_node
  ack_success :: bool
  ack_error :: "string option"
  ack_timestamp_us :: nat

definition Acknowledgment_success :: "nat \<Rightarrow> nat \<Rightarrow> ack_node \<Rightarrow> Acknowledgment" where
  "Acknowledgment_success now i s = \<lparr>ack_message_id = i, ack_sender = s, ack_success = True, ack_error = None, ack_timestamp_us = now\<rparr>"

definition Acknowledgment_reject :: "nat \<Rightarrow> nat \<Rightarrow> ack_node \<Rightarrow> string \<Rightarrow> Acknowledgment" where
  "Acknowledgment_reject now i s err = \<lparr>ack_message_id = i, ack_sender = s, ack_success = False, ack_error = Some err, ack_timestamp_us = now\<rparr>"

section \<open>Configuration\<close>

record AckConfig =
  ac_initial_timeout_us :: nat
  ac_max_timeout_us :: nat
  ac_backoff_multiplier :: rat
  ac_max_retries :: nat
  ac_duplicate_window_us :: nat
  ac_max_pending :: nat

definition AckConfig_default :: AckConfig where
  "AckConfig_default = \<lparr>ac_initial_timeout_us = 100000, ac_max_timeout_us = 30000000, ac_backoff_multiplier = 2, ac_max_retries = 5,
     ac_duplicate_window_us = 60000000, ac_max_pending = 10000\<rparr>"

definition AckConfig_low_latency :: AckConfig where
  "AckConfig_low_latency = \<lparr>ac_initial_timeout_us = 50000, ac_max_timeout_us = 5000000, ac_backoff_multiplier = 3 / 2, ac_max_retries = 3,
     ac_duplicate_window_us = 30000000, ac_max_pending = 5000\<rparr>"

definition AckConfig_high_reliability :: AckConfig where
  "AckConfig_high_reliability = \<lparr>ac_initial_timeout_us = 200000, ac_max_timeout_us = 60000000, ac_backoff_multiplier = 2, ac_max_retries = 10,
     ac_duplicate_window_us = 120000000, ac_max_pending = 50000\<rparr>"

definition AckConfig_embedded :: AckConfig where
  "AckConfig_embedded = \<lparr>ac_initial_timeout_us = 500000, ac_max_timeout_us = 10000000, ac_backoff_multiplier = 2, ac_max_retries = 3,
     ac_duplicate_window_us = 30000000, ac_max_pending = 100\<rparr>"

text \<open>
  The conversion to \<open>u64\<close> truncates and saturates. The number of retries of a message is below
  \<open>2 ^ 31\<close>, so that its conversion to \<open>i32\<close> keeps the value.
\<close>

definition f64_to_u64 :: "rat \<Rightarrow> nat" where
  "f64_to_u64 x = min (nat \<lfloor>x\<rfloor>) (USIZE_MOD - 1)"

definition timeout_for_retry :: "AckConfig \<Rightarrow> nat \<Rightarrow> nat" where
  "timeout_for_retry c attempt =
     min (f64_to_u64 (of_nat (ac_initial_timeout_us c) * ac_backoff_multiplier c ^ attempt)) (ac_max_timeout_us c)"

section \<open>Tracker\<close>

record PendingMessage =
  pm_message_id :: nat
  pm_destination :: ack_node
  pm_payload :: "u8 list"
  pm_sent_at_us :: nat
  pm_timeout_at_us :: nat
  pm_retry_count :: nat
  pm_status :: AckStatus

definition PendingMessage_new :: "nat \<Rightarrow> nat \<Rightarrow> ack_node \<Rightarrow> u8 list \<Rightarrow> nat \<Rightarrow> PendingMessage" where
  "PendingMessage_new now i d p timeout_us =
     \<lparr>pm_message_id = i, pm_destination = d, pm_payload = p, pm_sent_at_us = now, pm_timeout_at_us = usize_add now timeout_us,
      pm_retry_count = 0, pm_status = AckPending\<rparr>"

definition is_timed_out :: "nat \<Rightarrow> PendingMessage \<Rightarrow> bool" where
  "is_timed_out now p \<longleftrightarrow> now \<ge> pm_timeout_at_us p"

definition elapsed_us :: "nat \<Rightarrow> PendingMessage \<Rightarrow> nat" where
  "elapsed_us now p = now - pm_sent_at_us p"

record AckStats =
  as_messages_sent :: u64
  as_acks_received :: u64
  as_delivery_failures :: u64
  as_retries :: u64
  as_duplicates_detected :: u64
  as_pending_count :: nat
  as_avg_rtt_us :: nat

definition AckStats_default :: AckStats where
  "AckStats_default = \<lparr>as_messages_sent = 0, as_acks_received = 0, as_delivery_failures = 0, as_retries = 0, as_duplicates_detected = 0,
     as_pending_count = 0, as_avg_rtt_us = 0\<rparr>"

record AckTracker =
  at_config :: AckConfig
  at_pending :: "(nat \<times> PendingMessage) list"
  at_seen :: "((nat \<times> ack_node) \<times> nat) list"
  at_stats :: AckStats

definition AckTracker_new :: "AckConfig \<Rightarrow> AckTracker" where
  "AckTracker_new c = \<lparr>at_config = c, at_pending = [], at_seen = [], at_stats = AckStats_default\<rparr>"

definition MessageId_generate :: "nat \<Rightarrow> nat \<times> nat" where
  "MessageId_generate counter = (counter, usize_add counter 1)"

datatype AckError = TooManyPending | AckNotFound | InvalidMessageId

definition drop_key :: "'k \<Rightarrow> ('k \<times> 'v) list \<Rightarrow> ('k \<times> 'v) list" where
  "drop_key k es = filter (\<lambda>(i, _). i \<noteq> k) es"

definition ack_register :: "nat \<Rightarrow> ack_node \<Rightarrow> u8 list \<Rightarrow> nat \<Rightarrow> AckTracker \<Rightarrow> (AckError + nat) \<times> nat \<times> AckTracker" where
  "ack_register now d p counter t =
     (if length (at_pending t) \<ge> ac_max_pending (at_config t) then (Err TooManyPending, counter, t)
      else
        let (i, counter') = MessageId_generate counter;
            timeout = ac_initial_timeout_us (at_config t);
            pending = PendingMessage_new now i d p timeout;
            t1 = t\<lparr>at_pending := (i, pending) # drop_key i (at_pending t)\<rparr>
        in (Ok i, counter',
            t1\<lparr>at_stats := (at_stats t1)\<lparr>as_messages_sent := as_messages_sent (at_stats t1) + 1, as_pending_count := length (at_pending t1)\<rparr>\<rparr>))"

datatype AckResult = ResAcknowledged nat | ResRejected "string option" | ResUnknown

text \<open>The update of the statistics for an acknowledgement.\<close>

definition ack_rtt :: "nat \<Rightarrow> nat \<Rightarrow> AckStats \<Rightarrow> AckStats" where
  "ack_rtt rtt n st =
     (let st1 = st\<lparr>as_avg_rtt_us := (if as_acks_received st = 0 then rtt else usize_add (usize_mul (as_avg_rtt_us st) 7) rtt div 8)\<rparr>
      in st1\<lparr>as_acks_received := as_acks_received st1 + 1, as_pending_count := n\<rparr>)"

definition process_ack :: "nat \<Rightarrow> Acknowledgment \<Rightarrow> AckTracker \<Rightarrow> AckResult \<times> AckTracker" where
  "process_ack now a t =
     (case map_of (at_pending t) (ack_message_id a) of
        Some pending \<Rightarrow>
          let t1 = t\<lparr>at_pending := drop_key (ack_message_id a) (at_pending t)\<rparr>;
              rtt = now - pm_sent_at_us pending;
              t2 = t1\<lparr>at_stats := ack_rtt rtt (length (at_pending t1)) (at_stats t1)\<rparr>
          in if ack_success a then (ResAcknowledged rtt, t2)
             else (ResRejected (ack_error a), t2\<lparr>at_stats := (at_stats t2)\<lparr>as_delivery_failures := as_delivery_failures (at_stats t2) + 1\<rparr>\<rparr>)
      | None \<Rightarrow> (ResUnknown, t))"

text \<open>The subtraction of the time of reception wraps around when the clock was set back.\<close>

definition clean_duplicates :: "nat \<Rightarrow> AckTracker \<Rightarrow> AckTracker" where
  "clean_duplicates now t =
     t\<lparr>at_seen := filter (\<lambda>(_, received_at). usize_sub now received_at < ac_duplicate_window_us (at_config t)) (at_seen t)\<rparr>"

definition is_duplicate :: "nat \<Rightarrow> nat \<Rightarrow> ack_node \<Rightarrow> AckTracker \<Rightarrow> bool \<times> AckTracker" where
  "is_duplicate now i sender t =
     (let t1 = clean_duplicates now t in
      case map_of (at_seen t1) (i, sender) of
        None \<Rightarrow> (False, t1\<lparr>at_seen := ((i, sender), now) # at_seen t1\<rparr>)
      | Some _ \<Rightarrow> (True, t1\<lparr>at_stats := (at_stats t1)\<lparr>as_duplicates_detected := as_duplicates_detected (at_stats t1) + 1\<rparr>\<rparr>))"

datatype RetryAction = Retry nat ack_node "u8 list" nat | RetryGiveUp nat ack_node nat

text \<open>The body of the loop over the pending messages: the message, the action if there is one, and the counters.\<close>

definition retry_entry :: "nat \<Rightarrow> AckConfig \<Rightarrow> nat \<Rightarrow> PendingMessage \<Rightarrow> RetryAction option \<times> PendingMessage" where
  "retry_entry now c i p =
     (if is_timed_out now p then
        if pm_retry_count p \<ge> ac_max_retries c
        then (Some (RetryGiveUp i (pm_destination p) (u32_add (pm_retry_count p) 1)), p\<lparr>pm_status := AckFailed\<rparr>)
        else
          let n = u32_add (pm_retry_count p) 1;
              p1 = p\<lparr>pm_retry_count := n, pm_timeout_at_us := usize_add now (timeout_for_retry c n)\<rparr>
          in (Some (Retry i (pm_destination p1) (pm_payload p1) n), p1)
      else (None, p))"

fun count_retry :: "RetryAction option \<Rightarrow> AckStats \<Rightarrow> AckStats" where
  "count_retry (Some (RetryGiveUp _ _ _)) st = st\<lparr>as_delivery_failures := as_delivery_failures st + 1\<rparr>"
| "count_retry (Some (Retry _ _ _ _)) st = st\<lparr>as_retries := as_retries st + 1\<rparr>"
| "count_retry None st = st"

fun retry_loop :: "nat \<Rightarrow> AckConfig \<Rightarrow> (nat \<times> PendingMessage) list \<Rightarrow> AckStats \<Rightarrow> RetryAction list \<times> (nat \<times> PendingMessage) list \<times> AckStats" where
  "retry_loop now c [] st = ([], [], st)"
| "retry_loop now c ((i, p) # es) st =
     (let (a, p') = retry_entry now c i p;
          (acts, es', st') = retry_loop now c es (count_retry a st)
      in ((case a of Some x \<Rightarrow> [x] | None \<Rightarrow> []) @ acts, (i, p') # es', st'))"

definition get_retries :: "nat \<Rightarrow> AckTracker \<Rightarrow> RetryAction list \<times> AckTracker" where
  "get_retries now t =
     (let (acts, es, st) = retry_loop now (at_config t) (at_pending t) (at_stats t);
          es' = filter (\<lambda>(_, p). pm_status p \<noteq> AckFailed) es
      in (acts, t\<lparr>at_pending := es', at_stats := st\<lparr>as_pending_count := length es'\<rparr>\<rparr>))"

definition cancel :: "nat \<Rightarrow> AckTracker \<Rightarrow> bool \<times> AckTracker" where
  "cancel i t =
     (case map_of (at_pending t) i of
        Some _ \<Rightarrow> let es = drop_key i (at_pending t) in (True, t\<lparr>at_pending := es, at_stats := (at_stats t)\<lparr>as_pending_count := length es\<rparr>\<rparr>)
      | None \<Rightarrow> (False, t))"

definition ack_expire :: "nat \<Rightarrow> AckTracker \<Rightarrow> bool \<times> AckTracker" where
  "ack_expire i t =
     (case map_of (at_pending t) i of
        Some _ \<Rightarrow> let es = drop_key i (at_pending t) in (True, t\<lparr>at_pending := es, at_stats := (at_stats t)\<lparr>as_pending_count := length es\<rparr>\<rparr>)
      | None \<Rightarrow> (False, t))"

section \<open>Manager\<close>

record AckManager =
  am_config :: AckConfig
  am_pending :: "(nat \<times> PendingMessage) list"
  am_seen :: "((nat \<times> ack_node) \<times> nat) list"
  am_stats :: AckStats

type_synonym callback_call = "nat \<times> AckResult"

definition AckManager_new :: "AckConfig \<Rightarrow> AckManager" where
  "AckManager_new c = \<lparr>am_config = c, am_pending = [], am_seen = [], am_stats = AckStats_default\<rparr>"

definition send_with_callback :: "nat \<Rightarrow> ack_node \<Rightarrow> u8 list \<Rightarrow> nat \<Rightarrow> AckManager \<Rightarrow> (AckError + nat) \<times> nat \<times> AckManager" where
  "send_with_callback now d p counter m =
     (if length (am_pending m) \<ge> ac_max_pending (am_config m) then (Err TooManyPending, counter, m)
      else
        let (i, counter') = MessageId_generate counter;
            pending = PendingMessage_new now i d p (ac_initial_timeout_us (am_config m));
            m1 = m\<lparr>am_pending := (i, pending) # drop_key i (am_pending m)\<rparr>
        in (Ok i, counter',
            m1\<lparr>am_stats := (am_stats m1)\<lparr>as_messages_sent := as_messages_sent (am_stats m1) + 1, as_pending_count := length (am_pending m1)\<rparr>\<rparr>))"

definition am_process_ack :: "nat \<Rightarrow> Acknowledgment \<Rightarrow> AckManager \<Rightarrow> callback_call list \<times> AckManager" where
  "am_process_ack now a m =
     (case map_of (am_pending m) (ack_message_id a) of
        Some delivery \<Rightarrow>
          let m1 = m\<lparr>am_pending := drop_key (ack_message_id a) (am_pending m)\<rparr>;
              rtt = now - pm_sent_at_us delivery;
              m2 = m1\<lparr>am_stats := ack_rtt rtt (length (am_pending m1)) (am_stats m1)\<rparr>
          in if ack_success a then ([(ack_message_id a, ResAcknowledged rtt)], m2)
             else ([(ack_message_id a, ResRejected (ack_error a))],
                   m2\<lparr>am_stats := (am_stats m2)\<lparr>as_delivery_failures := as_delivery_failures (am_stats m2) + 1\<rparr>\<rparr>)
      | None \<Rightarrow> ([], m))"

definition am_is_duplicate :: "nat \<Rightarrow> nat \<Rightarrow> ack_node \<Rightarrow> AckManager \<Rightarrow> bool \<times> AckManager" where
  "am_is_duplicate now i sender m =
     (let m1 = m\<lparr>am_seen := filter (\<lambda>(_, received_at). usize_sub now received_at < ac_duplicate_window_us (am_config m)) (am_seen m)\<rparr> in
      case map_of (am_seen m1) (i, sender) of
        None \<Rightarrow> (False, m1\<lparr>am_seen := ((i, sender), now) # am_seen m1\<rparr>)
      | Some _ \<Rightarrow> (True, m1\<lparr>am_stats := (am_stats m1)\<lparr>as_duplicates_detected := as_duplicates_detected (am_stats m1) + 1\<rparr>\<rparr>))"

text \<open>The first loop of \<open>process_retries\<close>: messages to retry, messages to remove, the entries, the number of retries.\<close>

fun am_retry_loop :: "nat \<Rightarrow> AckConfig \<Rightarrow> (nat \<times> PendingMessage) list \<Rightarrow> u64 \<Rightarrow>
    (nat \<times> ack_node \<times> u8 list) list \<times> nat list \<times> (nat \<times> PendingMessage) list \<times> u64" where
  "am_retry_loop now c [] n = ([], [], [], n)"
| "am_retry_loop now c ((i, p) # es) n =
     (if is_timed_out now p then
        if pm_retry_count p \<ge> ac_max_retries c then
          let (retry, remove, es', n') = am_retry_loop now c es n in (retry, i # remove, (i, p) # es', n')
        else
          let k = u32_add (pm_retry_count p) 1;
              p1 = p\<lparr>pm_retry_count := k, pm_timeout_at_us := usize_add now (timeout_for_retry c k)\<rparr>;
              (retry, remove, es', n') = am_retry_loop now c es (n + 1)
          in ((i, pm_destination p1, pm_payload p1) # retry, remove, (i, p1) # es', n')
      else let (retry, remove, es', n') = am_retry_loop now c es n in (retry, remove, (i, p) # es', n'))"

text \<open>The second loop: the failed messages are removed and their callbacks called.\<close>

fun am_fail_loop :: "nat list \<Rightarrow> (nat \<times> PendingMessage) list \<Rightarrow> u64 \<Rightarrow> callback_call list \<times> (nat \<times> PendingMessage) list \<times> u64" where
  "am_fail_loop [] es n = ([], es, n)"
| "am_fail_loop (i # is') es n =
     (case map_of es i of
        None \<Rightarrow> am_fail_loop is' es n
      | Some _ \<Rightarrow>
          let (calls, es', n') = am_fail_loop is' (drop_key i es) (n + 1)
          in ((i, ResRejected (Some ''Max retries exceeded'')) # calls, es', n'))"

definition process_retries :: "nat \<Rightarrow> AckManager \<Rightarrow> (nat \<times> ack_node \<times> u8 list) list \<times> callback_call list \<times> AckManager" where
  "process_retries now m =
     (let (retry, remove, es, n) = am_retry_loop now (am_config m) (am_pending m) (as_retries (am_stats m));
          (calls, es', f) = am_fail_loop remove es (as_delivery_failures (am_stats m))
      in (retry, calls,
          m\<lparr>am_pending := es', am_stats := (am_stats m)\<lparr>as_retries := n, as_delivery_failures := f, as_pending_count := length es'\<rparr>\<rparr>))"

end
