(* ===== verification/Ack_Manager.thy ===== *)
theory Ack_Manager
  imports Ack
begin

text \<open>
  The acknowledgement manager: it keeps the same books as the tracker, and it calls every
  delivery callback exactly once.
\<close>

section \<open>The manager and the tracker\<close>

definition tracker_of :: "AckManager \<Rightarrow> AckTracker" where
  "tracker_of m = \<lparr>at_config = am_config m, at_pending = am_pending m, at_seen = am_seen m, at_stats = am_stats m\<rparr>"

lemma tracker_of_simps [simp]:
  "at_config (tracker_of m) = am_config m" "at_pending (tracker_of m) = am_pending m" "at_seen (tracker_of m) = am_seen m" "at_stats (tracker_of m) = am_stats m"
  by (simp_all add: tracker_of_def)

definition manager_ok :: "AckManager \<Rightarrow> bool" where
  "manager_ok m \<longleftrightarrow> distinct (map fst (am_pending m)) \<and> (\<forall>(i, p) \<in> set (am_pending m). pm_status p \<noteq> AckFailed)"

definition action_retries :: "RetryAction list \<Rightarrow> (nat \<times> ack_node \<times> u8 list) list" where
  "action_retries acts = concat (map (\<lambda>a. case a of Retry i d p _ \<Rightarrow> [(i, d, p)] | RetryGiveUp _ _ _ \<Rightarrow> []) acts)"

definition action_failures :: "RetryAction list \<Rightarrow> nat list" where
  "action_failures acts = concat (map (\<lambda>a. case a of Retry _ _ _ _ \<Rightarrow> [] | RetryGiveUp i _ _ \<Rightarrow> [i]) acts)"

lemma action_simps [simp]:
  "action_retries [] = []" "action_retries (Retry i d p n # as) = (i, d, p) # action_retries as" "action_retries (RetryGiveUp i d n # as) = action_retries as"
  "action_failures [] = []" "action_failures (Retry i d p n # as) = action_failures as" "action_failures (RetryGiveUp i d n # as) = i # action_failures as"
  by (simp_all add: action_retries_def action_failures_def)

text \<open>The two loops over the pending messages side by side.\<close>

lemma loops_agree:
  assumes "retry_loop now c es st = (acts, es', st')" and "\<forall>(i, p) \<in> set es. pm_status p \<noteq> AckFailed" and "distinct (map fst es)"
  shows "\<exists>es''. am_retry_loop now c es (as_retries st) = (action_retries acts, action_failures acts, es'', as_retries st') \<and>
    map fst es'' = map fst es \<and> set (action_failures acts) \<subseteq> fst ` set es \<and> distinct (action_failures acts) \<and>
    filter (\<lambda>(_, p). pm_status p \<noteq> AckFailed) es' = filter (\<lambda>(i, _). i \<notin> set (action_failures acts)) es'' \<and>
    st' = st\<lparr>as_retries := as_retries st', as_delivery_failures := as_delivery_failures st + of_nat (length (action_failures acts))\<rparr>"
  using assms
proof (induction es arbitrary: st acts es' st')
  case (Cons e es)
  obtain i p where e: "e = (i, p)" by (cases e)
  obtain a p' where r: "retry_entry now c i p = (a, p')" by (cases "retry_entry now c i p")
  obtain acts1 es1 st1 where l: "retry_loop now c es (count_retry a st) = (acts1, es1, st1)" by (cases "retry_loop now c es (count_retry a st)") auto
  have prems: "\<forall>(i, p) \<in> set es. pm_status p \<noteq> AckFailed" "distinct (map fst es)" using Cons.prems(2,3) by auto
  obtain es2 where ih: "am_retry_loop now c es (as_retries (count_retry a st)) = (action_retries acts1, action_failures acts1, es2, as_retries st1)"
    "map fst es2 = map fst es" "set (action_failures acts1) \<subseteq> fst ` set es" "distinct (action_failures acts1)"
    "filter (\<lambda>(_, p). pm_status p \<noteq> AckFailed) es1 = filter (\<lambda>(i, _). i \<notin> set (action_failures acts1)) es2"
    "st1 = (count_retry a st)\<lparr>as_retries := as_retries st1, as_delivery_failures := as_delivery_failures (count_retry a st) + of_nat (length (action_failures acts1))\<rparr>"
    using Cons.IH [OF l prems] by blast
  have i: "i \<notin> fst ` set es" "pm_status p \<noteq> AckFailed" using Cons.prems(2,3) e by auto
  then have j: "i \<notin> set (action_failures acts1)" "i \<notin> fst ` set es2" using ih(2,3) by (auto simp flip: set_map)
  have out: "acts = (case a of Some x \<Rightarrow> [x] | None \<Rightarrow> []) @ acts1" "es' = (i, p') # es1" "st' = st1" using Cons.prems(1) e by (simp_all add: r l)
  have other: "filter (\<lambda>(j, _). j \<notin> set (i # action_failures acts1)) es2 = filter (\<lambda>(j, _). j \<notin> set (action_failures acts1)) es2"
    using j(2) by (intro filter_cong) force+
  consider (wait) "\<not> is_timed_out now p" | (fail) "is_timed_out now p" "pm_retry_count p \<ge> ac_max_retries c"
    | (again) "is_timed_out now p" "\<not> pm_retry_count p \<ge> ac_max_retries c" by blast
  then show ?case
  proof cases
    case wait
    then have "a = None" "p' = p" using r by (auto simp: retry_entry_def)
    then show ?thesis using wait ih i j out by (intro exI [of _ "(i, p) # es2"]) (auto simp: e)
  next
    case fail
    then have a: "a = Some (RetryGiveUp i (pm_destination p) (u32_add (pm_retry_count p) 1))" "pm_status p' = AckFailed" using r by (auto simp: retry_entry_def)
    show ?thesis
    proof (intro exI [of _ "(i, p) # es2"] conjI)
      show "st' = st\<lparr>as_retries := as_retries st', as_delivery_failures := as_delivery_failures st + of_nat (length (action_failures acts))\<rparr>"
        using ih(6) out a(1) by (simp add: add.assoc)
      show "filter (\<lambda>(_, p). pm_status p \<noteq> AckFailed) es' = filter (\<lambda>(j, _). j \<notin> set (action_failures acts)) ((i, p) # es2)"
        using ih(5) out a other by simp
    qed (use fail ih(1-4) a(1) j out in \<open>auto simp: e\<close>)
  next
    case again
    let ?k = "u32_add (pm_retry_count p) 1"
    let ?p = "p\<lparr>pm_retry_count := ?k, pm_timeout_at_us := usize_add now (timeout_for_retry c ?k)\<rparr>"
    have "a = Some (Retry i (pm_destination p) (pm_payload p) ?k)" "p' = ?p" using again r by (auto simp: retry_entry_def Let_def)
    then show ?thesis using again ih i j out by (intro exI [of _ "(i, ?p) # es2"]) (auto simp: e Let_def)
  qed
qed simp

text \<open>Removing the failed messages.\<close>

lemma fail_loop_spec:
  "distinct ids \<Longrightarrow> set ids \<subseteq> fst ` set es \<Longrightarrow> am_fail_loop ids es n =
     (map (\<lambda>i. (i, ResRejected (Some ''Max retries exceeded''))) ids, filter (\<lambda>(i, _). i \<notin> set ids) es, n + of_nat (length ids))"
proof (induction ids arbitrary: es n)
  case (Cons i ids)
  have "set ids \<subseteq> fst ` set (drop_key i es)" using Cons.prems by (force simp: drop_key_def)
  note ih = Cons.IH [OF _ this]
  obtain q where q: "map_of es i = Some q" using Cons.prems(2) by (cases "map_of es i") (auto simp: map_of_eq_None_iff)
  have "filter (\<lambda>(j, _). j \<notin> set ids) (drop_key i es) = filter (\<lambda>(j, _). j \<notin> set (i # ids)) es"
    unfolding drop_key_def filter_filter by (intro filter_cong) auto
  then show ?case using ih Cons.prems(1) by (simp add: q add.assoc)
qed simp

lemma retries_books:
  assumes ok: "manager_ok m" and r: "process_retries now m = (retry, calls, m')" and g: "get_retries now (tracker_of m) = (acts, t)"
  shows "tracker_of m' = t" "retry = action_retries acts" "map fst calls = action_failures acts"
    "set (action_failures acts) \<subseteq> fst ` set (am_pending m)" "distinct (action_failures acts)"
    "map fst (am_pending m') = filter (\<lambda>i. i \<notin> set (action_failures acts)) (map fst (am_pending m))"
    "\<forall>(i, p) \<in> set (am_pending m'). pm_status p \<noteq> AckFailed"
proof -
  obtain acts' es st where l: "retry_loop now (am_config m) (am_pending m) (am_stats m) = (acts', es, st)"
    by (cases "retry_loop now (am_config m) (am_pending m) (am_stats m)") auto
  have acts: "acts' = acts" using g by (simp add: get_retries_def l Let_def)
  obtain es2 where es2: "am_retry_loop now (am_config m) (am_pending m) (as_retries (am_stats m)) = (action_retries acts, action_failures acts, es2, as_retries st)"
    "map fst es2 = map fst (am_pending m)" "set (action_failures acts) \<subseteq> fst ` set (am_pending m)" "distinct (action_failures acts)"
    "filter (\<lambda>(_, p). pm_status p \<noteq> AckFailed) es = filter (\<lambda>(i, _). i \<notin> set (action_failures acts)) es2"
    "st = (am_stats m)\<lparr>as_retries := as_retries st, as_delivery_failures := as_delivery_failures (am_stats m) + of_nat (length (action_failures acts))\<rparr>"
    using loops_agree [OF l] ok unfolding manager_ok_def acts by blast
  have "set (action_failures acts) \<subseteq> fst ` set es2" using es2(2,3) by (metis list.set_map)
  note f = fail_loop_spec [OF es2(4) this]
  have st: "st\<lparr>as_pending_count := x\<rparr> = (am_stats m)\<lparr>as_retries := as_retries st, as_delivery_failures := as_delivery_failures (am_stats m) + of_nat (length (action_failures acts)), as_pending_count := x\<rparr>" for x
    by (subst es2(6)) simp
  show "tracker_of m' = t" "retry = action_retries acts" "map fst calls = action_failures acts"
    using r g es2(5) by (auto simp: process_retries_def get_retries_def l acts es2(1) f st Let_def tracker_of_def comp_def)
  show "set (action_failures acts) \<subseteq> fst ` set (am_pending m)" "distinct (action_failures acts)" by (rule es2(3,4))+
  have m': "am_pending m' = filter (\<lambda>(i, _). i \<notin> set (action_failures acts)) es2" using r by (auto simp: process_retries_def es2(1) f Let_def)
  show "map fst (am_pending m') = filter (\<lambda>i. i \<notin> set (action_failures acts)) (map fst (am_pending m))"
    unfolding m' es2(2) [symmetric] by (simp add: filter_map comp_def case_prod_unfold)
  show "\<forall>(i, p) \<in> set (am_pending m'). pm_status p \<noteq> AckFailed" unfolding m' es2(5) [symmetric] by auto
qed



section \<open>Callbacks\<close>

text \<open>A sequence of calls of the manager, with the identifiers it gave out and the callbacks it called.\<close>

inductive am_run :: "AckConfig \<Rightarrow> AckManager \<Rightarrow> nat \<Rightarrow> nat set \<Rightarrow> callback_call list \<Rightarrow> bool" for c where
  start: "am_run c (AckManager_new c) 1 {} []"
| send: "am_run c m k R cs \<Longrightarrow> k < USIZE_MOD - 1 \<Longrightarrow> send_with_callback now d p k m = (Ok i, k', m') \<Longrightarrow> am_run c m' k' (insert i R) cs"
| full: "am_run c m k R cs \<Longrightarrow> send_with_callback now d p k m = (Err e, k', m') \<Longrightarrow> am_run c m' k' R cs"
| ack: "am_run c m k R cs \<Longrightarrow> am_process_ack now a m = (calls, m') \<Longrightarrow> am_run c m' k R (cs @ calls)"
| duplicate: "am_run c m k R cs \<Longrightarrow> am_is_duplicate now i n m = (b, m') \<Longrightarrow> am_run c m' k R cs"
| retries: "am_run c m k R cs \<Longrightarrow> process_retries now m = (retry, calls, m') \<Longrightarrow> am_run c m' k R (cs @ calls)"

definition callbacks_ok :: "AckManager \<Rightarrow> nat \<Rightarrow> nat set \<Rightarrow> callback_call list \<Rightarrow> bool" where
  "callbacks_ok m k R cs \<longleftrightarrow> manager_ok m \<and> distinct (map fst cs) \<and> fst ` set (am_pending m) \<inter> fst ` set cs = {} \<and>
     R = fst ` set (am_pending m) \<union> fst ` set cs \<and> (\<forall>i \<in> R. i < k)"

lemma drop_key_set: "set (drop_key i es) = {e \<in> set es. fst e \<noteq> i}" and distinct_drop_key: "distinct (map fst es) \<Longrightarrow> distinct (map fst (drop_key i es))"
  by (auto simp: drop_key_def distinct_map inj_on_def)

text \<open>Moving messages from the pending ones to the called ones keeps the invariant.\<close>

lemma callbacks_move:
  assumes ok: "callbacks_ok m k R cs" and sub: "set ids \<subseteq> fst ` set (am_pending m)" "distinct ids" and calls: "map fst calls = ids"
    and m': "map fst (am_pending m') = filter (\<lambda>i. i \<notin> set ids) (map fst (am_pending m))" "\<forall>(i, p) \<in> set (am_pending m'). pm_status p \<noteq> AckFailed"
  shows "callbacks_ok m' k R (cs @ calls)"
proof -
  have ids: "fst ` set calls = set ids" using calls by (metis list.set_map)
  have pend: "fst ` set (am_pending m') = fst ` set (am_pending m) - set ids" using arg_cong [OF m'(1), of set] by auto
  have "distinct (map fst (am_pending m'))" unfolding m'(1) using ok by (simp add: callbacks_ok_def manager_ok_def)
  moreover have "distinct (map fst (cs @ calls))" using ok sub ids calls by (auto simp: callbacks_ok_def)
  ultimately show ?thesis using ok m'(2) ids pend sub by (auto simp: callbacks_ok_def manager_ok_def)
qed

lemma am_run_ok: "am_run c m k R cs \<Longrightarrow> callbacks_ok m k R cs"
proof (induction rule: am_run.induct)
  case start
  then show ?case by (simp add: callbacks_ok_def manager_ok_def AckManager_new_def)
next
  case (send m k R cs now d p i k' m')
  have m': "i = k" "k' = Suc k" "am_pending m' = (k, PendingMessage_new now k d p (ac_initial_timeout_us (am_config m))) # drop_key k (am_pending m)"
    using send(2,3) by (auto simp: send_with_callback_def MessageId_generate_def Let_def no_wrap split: if_splits)
  have fresh: "k \<notin> R" using send(4) by (auto simp: callbacks_ok_def)
  have new: "k \<notin> fst ` set (am_pending m)" "k \<notin> fst ` set cs" using fresh send(4) by (auto simp: callbacks_ok_def)
  have "drop_key k (am_pending m) = am_pending m" using new(1) unfolding drop_key_def by (intro filter_True) force
  then have pend: "am_pending m' = (k, PendingMessage_new now k d p (ac_initial_timeout_us (am_config m))) # am_pending m" using m'(3) by simp
  have "manager_ok m'" using send(4) new(1) by (simp add: callbacks_ok_def manager_ok_def pend PendingMessage_new_def)
  moreover have "\<forall>j \<in> insert i R. j < k'" using send(4) m'(1,2) by (auto simp: callbacks_ok_def less_Suc_eq)
  ultimately show ?case using send(4) new m'(1) by (simp add: callbacks_ok_def pend)
next
  case (full m k R cs now d p e k' m')
  then show ?case by (auto simp: send_with_callback_def MessageId_generate_def Let_def split: if_splits)
next
  case (ack m k R cs now a calls m')
  show ?case
  proof (cases "map_of (am_pending m) (ack_message_id a)")
    case None
    then show ?thesis using ack by (simp add: am_process_ack_def)
  next
    case (Some q)
    then have r: "map fst calls = [ack_message_id a]" "am_pending m' = drop_key (ack_message_id a) (am_pending m)"
      using ack(2) by (auto simp: am_process_ack_def Let_def split: if_splits)
    show ?thesis
    proof (rule callbacks_move [OF ack(3), where ids = "[ack_message_id a]"])
      show "map fst (am_pending m') = filter (\<lambda>i. i \<notin> set [ack_message_id a]) (map fst (am_pending m))"
        unfolding r(2) drop_key_def by (simp add: filter_map comp_def case_prod_unfold)
      show "set [ack_message_id a] \<subseteq> fst ` set (am_pending m)" using image_eqI [OF _ map_of_SomeD [OF Some], of _ fst] by simp
      show "\<forall>(i, p) \<in> set (am_pending m'). pm_status p \<noteq> AckFailed"
        using ack(3) unfolding r(2) by (auto simp: callbacks_ok_def manager_ok_def drop_key_set)
    qed (simp_all add: r(1))
  qed
next
  case (duplicate m k R cs now i n b m')
  then have "am_pending m' = am_pending m" by (auto simp: am_is_duplicate_def Let_def split: option.splits)
  then show ?case using duplicate(3) by (simp add: callbacks_ok_def manager_ok_def)
next
  case (retries m k R cs now retry calls m')
  obtain acts t where g: "get_retries now (tracker_of m) = (acts, t)" by (cases "get_retries now (tracker_of m)")
  have "manager_ok m" using retries(3) by (simp add: callbacks_ok_def)
  note b = retries_books [OF this retries(2) g]
  show ?case by (rule callbacks_move [OF retries(3) b(4,5,3,6,7)])
qed

text \<open>
  C30. Every delivery callback is called exactly once. After any sequence of calls, each message
  that the manager accepted is either still pending, and its callback has not been called, or its
  callback has been called once; no callback is called twice or for another message.
\<close>

theorem callback_once:
  assumes "am_run c m k R cs"
  shows "distinct (map fst cs) \<and> R = fst ` set (am_pending m) \<union> fst ` set cs \<and> fst ` set (am_pending m) \<inter> fst ` set cs = {}"
  using am_run_ok [OF assms] by (simp add: callbacks_ok_def)

theorem callback_once_witness:
  "\<exists>m k cs. am_run AckConfig_default m k {1} cs \<and> cs = [(1, ResAcknowledged 4)] \<and> distinct (map fst cs) \<and> fst ` set (am_pending m) \<inter> fst ` set cs = {}"
proof -
  obtain k m where s: "send_with_callback 5 [2] [42] 1 (AckManager_new AckConfig_default) = (Ok 1, k, m)" "\<exists>q. map_of (am_pending m) 1 = Some q \<and> pm_sent_at_us q = 5"
    by (simp add: send_with_callback_def AckManager_new_def AckConfig_default_def MessageId_generate_def PendingMessage_new_def Let_def)
  have m: "am_run AckConfig_default m k {1} []" by (rule am_run.send [OF am_run.start _ s(1)]) simp
  obtain m' where "am_process_ack 9 (Acknowledgment_success 9 1 [2]) m = ([(1, ResAcknowledged 4)], m')" using s(2) by (auto simp: am_process_ack_def Acknowledgment_success_def Let_def)
  from am_run.ack [OF m this] have run: "am_run AckConfig_default m' k {1} [(1, ResAcknowledged 4)]" by simp
  then show ?thesis using callback_once [OF run] by blast
qed

end
