(* ===== verification/Ack_Delivery.thy ===== *)
theory Ack_Delivery
  imports Ack
begin

text \<open>
  Reliable delivery: two trackers, one at the sender and one at the receiver, over a network that
  loses, repeats, delays and reorders messages and acknowledgements.
\<close>

section \<open>The system\<close>

record ack_sys =
  sy_now :: nat
  sy_counter :: nat
  sy_sender :: AckTracker
  sy_receiver :: AckTracker
  sy_sent :: "(nat \<times> u8 list) set"
  sy_packets :: "(nat \<times> nat \<times> u8 list) set"
  sy_log :: "(nat \<times> u8 list) list"
  sy_acks :: "nat set"
  sy_confirmed :: "nat set"
  sy_failed :: "nat set"

definition retried :: "nat \<Rightarrow> RetryAction list \<Rightarrow> (nat \<times> nat \<times> u8 list) set" where
  "retried now acts = {(now, i, p) | i d p n. Retry i d p n \<in> set acts}"

definition given_up :: "RetryAction list \<Rightarrow> nat set" where
  "given_up acts = {i | i d n. RetryGiveUp i d n \<in> set acts}"

text \<open>
  The steps of the system. A packet arrives at most \<open>D\<close> after it was sent, if it arrives, and can
  arrive more than once. The sender polls for retries at most \<open>P\<close> after a timeout. The receiver
  passes a message on unless it is a duplicate and acknowledges it in either case. The time stays
  below \<open>2 ^ 62\<close> microseconds.
\<close>

inductive ack_run :: "AckConfig \<Rightarrow> ack_node \<Rightarrow> nat \<Rightarrow> nat \<Rightarrow> ack_sys \<Rightarrow> bool" for c me P D where
  start: "now < 2 ^ 62 \<Longrightarrow> ack_run c me P D \<lparr>sy_now = now, sy_counter = 1, sy_sender = AckTracker_new c, sy_receiver = AckTracker_new c,
     sy_sent = {}, sy_packets = {}, sy_log = [], sy_acks = {}, sy_confirmed = {}, sy_failed = {}\<rparr>"
| send: "ack_run c me P D s \<Longrightarrow> sy_counter s < USIZE_MOD - 1 \<Longrightarrow> ack_register (sy_now s) d p (sy_counter s) (sy_sender s) = (Ok i, k, t) \<Longrightarrow>
    ack_run c me P D (s\<lparr>sy_counter := k, sy_sender := t, sy_sent := insert (i, p) (sy_sent s), sy_packets := insert (sy_now s, i, p) (sy_packets s)\<rparr>)"
| poll: "ack_run c me P D s \<Longrightarrow> get_retries (sy_now s) (sy_sender s) = (acts, t) \<Longrightarrow>
    ack_run c me P D (s\<lparr>sy_sender := t, sy_packets := sy_packets s \<union> retried (sy_now s) acts, sy_failed := sy_failed s \<union> given_up acts\<rparr>)"
| deliver: "ack_run c me P D s \<Longrightarrow> (ts, i, p) \<in> sy_packets s \<Longrightarrow> sy_now s \<le> ts + D \<Longrightarrow> is_duplicate (sy_now s) i me (sy_receiver s) = (dup, t) \<Longrightarrow>
    ack_run c me P D (s\<lparr>sy_receiver := t, sy_log := (if dup then sy_log s else sy_log s @ [(i, p)]), sy_acks := insert i (sy_acks s)\<rparr>)"
| acknowledge: "ack_run c me P D s \<Longrightarrow> i \<in> sy_acks s \<Longrightarrow> process_ack (sy_now s) (Acknowledgment_success ts i peer) (sy_sender s) = (r, t) \<Longrightarrow>
    ack_run c me P D (s\<lparr>sy_sender := t, sy_confirmed := (if r = ResUnknown then sy_confirmed s else insert i (sy_confirmed s))\<rparr>)"
| tick: "ack_run c me P D s \<Longrightarrow> sy_now s \<le> now \<Longrightarrow> now < 2 ^ 62 \<Longrightarrow> \<forall>(i, p) \<in> set (at_pending (sy_sender s)). now \<le> pm_timeout_at_us p + P \<Longrightarrow>
    ack_run c me P D (s\<lparr>sy_now := now\<rparr>)"

text \<open>How long after the first transmission a message with \<open>k\<close> retries can time out, and can be sent for the last time.\<close>

fun resolve_time :: "AckConfig \<Rightarrow> nat \<Rightarrow> nat \<Rightarrow> nat" where
  "resolve_time c P 0 = ac_initial_timeout_us c"
| "resolve_time c P (Suc k) = resolve_time c P k + P + timeout_for_retry c (Suc k)"

definition last_send :: "AckConfig \<Rightarrow> nat \<Rightarrow> nat" where
  "last_send c P = (case ac_max_retries c of 0 \<Rightarrow> 0 | Suc k \<Rightarrow> resolve_time c P k + P)"

definition config_ok :: "AckConfig \<Rightarrow> bool" where
  "config_ok c \<longleftrightarrow> ac_initial_timeout_us c < 2 ^ 62 \<and> ac_max_timeout_us c < 2 ^ 62 \<and> ac_max_retries c < U32_MOD"

section \<open>The invariant\<close>

text \<open>\<open>F i\<close> is the time of the first transmission of message \<open>i\<close>.\<close>

definition entry_ok :: "AckConfig \<Rightarrow> nat \<Rightarrow> (nat \<Rightarrow> nat) \<Rightarrow> nat \<Rightarrow> nat \<Rightarrow> PendingMessage \<Rightarrow> bool" where
  "entry_ok c P F now i p \<longleftrightarrow> pm_sent_at_us p = F i \<and> F i \<le> now \<and> pm_status p \<noteq> AckFailed \<and> pm_retry_count p \<le> ac_max_retries c \<and>
     pm_timeout_at_us p \<le> F i + resolve_time c P (pm_retry_count p) \<and> now \<le> pm_timeout_at_us p + P"

definition sender_ok :: "AckConfig \<Rightarrow> nat \<Rightarrow> (nat \<Rightarrow> nat) \<Rightarrow> ack_sys \<Rightarrow> bool" where
  "sender_ok c P F s \<longleftrightarrow> at_config (sy_sender s) = c \<and> sy_now s < 2 ^ 62 \<and> sy_counter s < USIZE_MOD \<and>
     (\<forall>(i, p) \<in> set (at_pending (sy_sender s)). (i, pm_payload p) \<in> sy_sent s \<and> entry_ok c P F (sy_now s) i p) \<and>
     (\<forall>(i, p) \<in> sy_sent s. i < sy_counter s) \<and>
     fst ` sy_sent s = fst ` set (at_pending (sy_sender s)) \<union> sy_confirmed s \<union> sy_failed s"

definition network_ok :: "AckConfig \<Rightarrow> nat \<Rightarrow> (nat \<Rightarrow> nat) \<Rightarrow> ack_sys \<Rightarrow> bool" where
  "network_ok c P F s \<longleftrightarrow> (\<forall>(ts, i, p) \<in> sy_packets s. (i, p) \<in> sy_sent s \<and> F i \<le> ts \<and> ts \<le> F i + last_send c P \<and> ts \<le> sy_now s)"

definition receiver_ok :: "AckConfig \<Rightarrow> ack_node \<Rightarrow> (nat \<Rightarrow> nat) \<Rightarrow> ack_sys \<Rightarrow> bool" where
  "receiver_ok c me F s \<longleftrightarrow> at_config (sy_receiver s) = c \<and>
     (\<forall>((i, n), r) \<in> set (at_seen (sy_receiver s)). n = me \<and> i \<in> fst ` set (sy_log s) \<and> F i \<le> r \<and> r \<le> sy_now s) \<and>
     (\<forall>(i, p) \<in> set (sy_log s). (i, p) \<in> sy_sent s \<and> (map_of (at_seen (sy_receiver s)) (i, me) = None \<longrightarrow> F i + ac_duplicate_window_us c \<le> sy_now s)) \<and>
     distinct (map fst (sy_log s)) \<and> sy_acks s \<subseteq> fst ` set (sy_log s) \<and> sy_confirmed s \<subseteq> fst ` set (sy_log s)"

lemma timeout_le: "timeout_for_retry c k \<le> ac_max_timeout_us c"
  by (simp add: timeout_for_retry_def)

lemma resolve_time_mono: "j \<le> k \<Longrightarrow> resolve_time c P j \<le> resolve_time c P k"
  by (induction k) (auto simp: le_Suc_eq)

lemma retry_loop_spec:
  "retry_loop now c es st = (acts, es', st') \<Longrightarrow> es' = map (\<lambda>(i, p). (i, snd (retry_entry now c i p))) es \<and>
     acts = concat (map (\<lambda>(i, p). case fst (retry_entry now c i p) of Some a \<Rightarrow> [a] | None \<Rightarrow> []) es)"
proof (induction es arbitrary: st acts es' st')
  case (Cons e es)
  obtain i p where e: "e = (i, p)" by (cases e)
  obtain a p' where r: "retry_entry now c i p = (a, p')" by (cases "retry_entry now c i p")
  obtain acts1 es1 st1 where l: "retry_loop now c es (count_retry a st) = (acts1, es1, st1)" by (cases "retry_loop now c es (count_retry a st)") auto
  show ?case using Cons.IH [OF l] Cons.prems unfolding e by (auto simp: r l split: option.splits)
qed simp

lemma acts_mem: "x \<in> set (concat (map (\<lambda>(i, p). case f i p of Some a \<Rightarrow> [a] | None \<Rightarrow> []) es)) \<longleftrightarrow> (\<exists>e \<in> set es. f (fst e) (snd e) = Some x)"
  by (induction es) (auto split: option.splits)

text \<open>What becomes of a pending message at a poll.\<close>

lemma retry_entry_cases:
  assumes "config_ok c" and "pm_retry_count p \<le> ac_max_retries c" and "now < 2 ^ 62"
  obtains (wait) "now < pm_timeout_at_us p" "retry_entry now c i p = (None, p)"
    | (fail) "pm_retry_count p = ac_max_retries c" "retry_entry now c i p = (Some (RetryGiveUp i (pm_destination p) (u32_add (pm_retry_count p) 1)), p\<lparr>pm_status := AckFailed\<rparr>)"
    | (again) "pm_timeout_at_us p \<le> now" "pm_retry_count p < ac_max_retries c"
        "retry_entry now c i p = (Some (Retry i (pm_destination p) (pm_payload p) (Suc (pm_retry_count p))),
           p\<lparr>pm_retry_count := Suc (pm_retry_count p), pm_timeout_at_us := now + timeout_for_retry c (Suc (pm_retry_count p))\<rparr>)"
proof (cases "pm_timeout_at_us p \<le> now \<and> pm_retry_count p < ac_max_retries c")
  case True
  have "u32_add (pm_retry_count p) 1 = Suc (pm_retry_count p)" using True assms(1) by (simp add: no_wrap config_ok_def)
  moreover have "usize_add now (timeout_for_retry c (Suc (pm_retry_count p))) = now + timeout_for_retry c (Suc (pm_retry_count p))"
    using timeout_le [of c "Suc (pm_retry_count p)"] assms(1,3) by (intro no_wrap) (auto simp: config_ok_def)
  ultimately show thesis using True again by (simp add: retry_entry_def is_timed_out_def Let_def)
next
  case False
  then show thesis using assms(2) wait fail by (cases "now < pm_timeout_at_us p") (auto simp: retry_entry_def is_timed_out_def)
qed

lemma poll_pending:
  assumes g: "get_retries now t = (acts, t')" and ok: "config_ok (at_config t)" and now: "now < 2 ^ 62"
    and pend: "\<forall>(i, p) \<in> set (at_pending t). pm_retry_count p \<le> ac_max_retries (at_config t) \<and> pm_status p \<noteq> AckFailed"
  shows "at_config t' = at_config t"
    "(i, p') \<in> set (at_pending t') \<longleftrightarrow> (\<exists>p. (i, p) \<in> set (at_pending t) \<and> p' = snd (retry_entry now (at_config t) i p) \<and> pm_status p' \<noteq> AckFailed)"
    "x \<in> set acts \<longleftrightarrow> (\<exists>i q. (i, q) \<in> set (at_pending t) \<and> fst (retry_entry now (at_config t) i q) = Some x)"
proof -
  obtain a es st where l: "retry_loop now (at_config t) (at_pending t) (at_stats t) = (a, es, st)"
    by (cases "retry_loop now (at_config t) (at_pending t) (at_stats t)") auto
  note spec = retry_loop_spec [OF l]
  have t': "acts = a" "at_config t' = at_config t" "at_pending t' = filter (\<lambda>(_, p). pm_status p \<noteq> AckFailed) es"
    using g by (auto simp: get_retries_def l Let_def)
  show "at_config t' = at_config t" by (rule t'(2))
  show "(i, p') \<in> set (at_pending t') \<longleftrightarrow> (\<exists>p. (i, p) \<in> set (at_pending t) \<and> p' = snd (retry_entry now (at_config t) i p) \<and> pm_status p' \<noteq> AckFailed)"
    unfolding t'(3) conjunct1 [OF spec] by (auto simp: image_iff Bex_def)
  show "x \<in> set acts \<longleftrightarrow> (\<exists>i q. (i, q) \<in> set (at_pending t) \<and> fst (retry_entry now (at_config t) i q) = Some x)"
    unfolding t'(1) conjunct2 [OF spec] acts_mem Bex_def split_paired_Ex by simp
qed

lemma entry_poll:
  assumes c: "config_ok c" and now: "now < 2 ^ 62" and e: "entry_ok c P F now i p"
  shows "pm_status (snd (retry_entry now c i p)) \<noteq> AckFailed \<Longrightarrow> entry_ok c P F now i (snd (retry_entry now c i p))"
    and "pm_payload (snd (retry_entry now c i p)) = pm_payload p"
    and "fst (retry_entry now c i p) = Some (Retry j d q n) \<Longrightarrow> j = i \<and> q = pm_payload p \<and> now \<le> F i + last_send c P"
    and "fst (retry_entry now c i p) = Some (RetryGiveUp j d n) \<Longrightarrow> j = i"
    and "pm_status (snd (retry_entry now c i p)) = AckFailed \<Longrightarrow> \<exists>d n. fst (retry_entry now c i p) = Some (RetryGiveUp i d n)"
proof -
  have r: "pm_retry_count p \<le> ac_max_retries c" using e by (simp add: entry_ok_def)
  have last: "now \<le> F i + last_send c P" if lt: "pm_retry_count p < ac_max_retries c"
  proof -
    obtain k where k: "ac_max_retries c = Suc k" using lt by (cases "ac_max_retries c") auto
    then have "resolve_time c P (pm_retry_count p) \<le> resolve_time c P k" using lt by (intro resolve_time_mono) simp
    then show ?thesis using e k by (simp add: entry_ok_def last_send_def)
  qed
  from c r now show "pm_status (snd (retry_entry now c i p)) \<noteq> AckFailed \<Longrightarrow> entry_ok c P F now i (snd (retry_entry now c i p))"
    by (cases rule: retry_entry_cases [where i = i]) (use e in \<open>auto simp: entry_ok_def\<close>)
  from c r now show "pm_payload (snd (retry_entry now c i p)) = pm_payload p"
    by (cases rule: retry_entry_cases [where i = i]) auto
  from c r now show "fst (retry_entry now c i p) = Some (Retry j d q n) \<Longrightarrow> j = i \<and> q = pm_payload p \<and> now \<le> F i + last_send c P"
    by (cases rule: retry_entry_cases [where i = i]) (use last in auto)
  from c r now show "fst (retry_entry now c i p) = Some (RetryGiveUp j d n) \<Longrightarrow> j = i"
    by (cases rule: retry_entry_cases [where i = i]) auto
  from c r now show "pm_status (snd (retry_entry now c i p)) = AckFailed \<Longrightarrow> \<exists>d n. fst (retry_entry now c i p) = Some (RetryGiveUp i d n)"
    by (cases rule: retry_entry_cases [where i = i]) (use e in \<open>auto simp: entry_ok_def\<close>)
qed

section \<open>The invariant is kept\<close>

lemma sender_okD:
  assumes "sender_ok c P F s"
  shows "at_config (sy_sender s) = c" "sy_now s < 2 ^ 62" "sy_counter s < USIZE_MOD"
    "(i, p) \<in> set (at_pending (sy_sender s)) \<Longrightarrow> (i, pm_payload p) \<in> sy_sent s \<and> entry_ok c P F (sy_now s) i p"
    "(i, q) \<in> sy_sent s \<Longrightarrow> i < sy_counter s"
    "fst ` sy_sent s = fst ` set (at_pending (sy_sender s)) \<union> sy_confirmed s \<union> sy_failed s"
  using assms unfolding sender_ok_def by blast+

lemma network_okD: "network_ok c P F s \<Longrightarrow> (ts, i, p) \<in> sy_packets s \<Longrightarrow> (i, p) \<in> sy_sent s \<and> F i \<le> ts \<and> ts \<le> F i + last_send c P \<and> ts \<le> sy_now s"
  unfolding network_ok_def by blast

lemma receiver_okD:
  assumes "receiver_ok c me F s"
  shows "at_config (sy_receiver s) = c"
    "((i, n), r) \<in> set (at_seen (sy_receiver s)) \<Longrightarrow> n = me \<and> i \<in> fst ` set (sy_log s) \<and> F i \<le> r \<and> r \<le> sy_now s"
    "(i, p) \<in> set (sy_log s) \<Longrightarrow> (i, p) \<in> sy_sent s"
    "(i, p) \<in> set (sy_log s) \<Longrightarrow> map_of (at_seen (sy_receiver s)) (i, me) = None \<Longrightarrow> F i + ac_duplicate_window_us c \<le> sy_now s"
    "distinct (map fst (sy_log s))" "sy_acks s \<subseteq> fst ` set (sy_log s)" "sy_confirmed s \<subseteq> fst ` set (sy_log s)"
  using assms unfolding receiver_ok_def by blast+

lemma receiver_okI:
  assumes "at_config (sy_receiver s) = c"
    "\<And>i n r. ((i, n), r) \<in> set (at_seen (sy_receiver s)) \<Longrightarrow> n = me \<and> i \<in> fst ` set (sy_log s) \<and> F i \<le> r \<and> r \<le> sy_now s"
    "\<And>i p. (i, p) \<in> set (sy_log s) \<Longrightarrow> (i, p) \<in> sy_sent s"
    "\<And>i p. (i, p) \<in> set (sy_log s) \<Longrightarrow> map_of (at_seen (sy_receiver s)) (i, me) = None \<Longrightarrow> F i + ac_duplicate_window_us c \<le> sy_now s"
    "distinct (map fst (sy_log s))" "sy_acks s \<subseteq> fst ` set (sy_log s)" "sy_confirmed s \<subseteq> fst ` set (sy_log s)"
  shows "receiver_ok c me F s"
  using assms unfolding receiver_ok_def by blast

lemma poll_ids:
  assumes c: "config_ok c" and s: "sender_ok c P F s" and g: "get_retries (sy_now s) (sy_sender s) = (acts, t)"
  shows "fst ` set (at_pending t) \<union> given_up acts = fst ` set (at_pending (sy_sender s))"
proof -
  note d = sender_okD [OF s]
  have c': "config_ok (at_config (sy_sender s))" using c d(1) by simp
  have pend: "\<forall>(i, p) \<in> set (at_pending (sy_sender s)). pm_retry_count p \<le> ac_max_retries (at_config (sy_sender s)) \<and> pm_status p \<noteq> AckFailed"
    using d(1,4) by (auto simp: entry_ok_def)
  note g' = poll_pending [OF g c' d(2) pend, unfolded d(1)]
  note e = entry_poll [OF c d(2)]
  show ?thesis
  proof (intro set_eqI iffI)
    fix i
    assume "i \<in> fst ` set (at_pending t) \<union> given_up acts"
    then consider p where "(i, p) \<in> set (at_pending t)" | dd n where "RetryGiveUp i dd n \<in> set acts" by (auto simp: given_up_def)
    then show "i \<in> fst ` set (at_pending (sy_sender s))"
    proof cases
      case 1
      then show ?thesis using g'(2) by force
    next
      case 2
      then obtain j q where q: "(j, q) \<in> set (at_pending (sy_sender s))" "fst (retry_entry (sy_now s) c j q) = Some (RetryGiveUp i dd n)" using g'(3) by blast
      then show ?thesis using e(4) [OF conjunct2 [OF d(4) [OF q(1)]] q(2)] by force
    qed
  next
    fix i
    assume "i \<in> fst ` set (at_pending (sy_sender s))"
    then obtain p where p: "(i, p) \<in> set (at_pending (sy_sender s))" by force
    note ok = conjunct2 [OF d(4) [OF p]]
    show "i \<in> fst ` set (at_pending t) \<union> given_up acts"
    proof (cases "pm_status (snd (retry_entry (sy_now s) c i p)) = AckFailed")
      case True
      then show ?thesis using e(5) [OF ok True] p g'(3) by (auto simp: given_up_def)
    next
      case False
      then have "(i, snd (retry_entry (sy_now s) c i p)) \<in> set (at_pending t)" using p g'(2) by blast
      then show ?thesis by force
    qed
  qed
qed

lemma poll_ok:
  assumes c: "config_ok c" and s: "sender_ok c P F s" "network_ok c P F s" and g: "get_retries (sy_now s) (sy_sender s) = (acts, t)"
  defines "s' \<equiv> s\<lparr>sy_sender := t, sy_packets := sy_packets s \<union> retried (sy_now s) acts, sy_failed := sy_failed s \<union> given_up acts\<rparr>"
  shows "sender_ok c P F s'" "network_ok c P F s'"
proof -
  note d = sender_okD [OF s(1)]
  have pend: "\<forall>(i, p) \<in> set (at_pending (sy_sender s)). pm_retry_count p \<le> ac_max_retries (at_config (sy_sender s)) \<and> pm_status p \<noteq> AckFailed"
    using d(1,4) by (auto simp: entry_ok_def)
  have c': "config_ok (at_config (sy_sender s))" using c d(1) by simp
  note g' = poll_pending [OF g c' d(2) pend, unfolded d(1)]
  note e = entry_poll [OF c d(2)]
  have new: "(i, pm_payload p') \<in> sy_sent s \<and> entry_ok c P F (sy_now s) i p'" if mem: "(i, p') \<in> set (at_pending t)" for i p'
  proof -
    obtain p where p: "(i, p) \<in> set (at_pending (sy_sender s))" "p' = snd (retry_entry (sy_now s) c i p)" "pm_status p' \<noteq> AckFailed" using mem g'(2) by blast
    note ok = conjunct2 [OF d(4) [OF p(1)]]
    show ?thesis using e(1) [OF ok] e(2) [OF ok] d(4) [OF p(1)] p(2,3) by auto
  qed
  show "sender_ok c P F s'"
    unfolding sender_ok_def s'_def using g'(1) new d(2,3,5,6) poll_ids [OF c s(1) g] by auto
  have pkt: "(i, p) \<in> sy_sent s \<and> F i \<le> sy_now s \<and> sy_now s \<le> F i + last_send c P" if mem: "Retry i dd p n \<in> set acts" for i dd p n
  proof -
    obtain j q where q: "(j, q) \<in> set (at_pending (sy_sender s))" "fst (retry_entry (sy_now s) c j q) = Some (Retry i dd p n)" using mem g'(3) by blast
    note ok = conjunct2 [OF d(4) [OF q(1)]]
    show ?thesis using e(3) [OF ok q(2)] d(4) [OF q(1)] ok by (auto simp: entry_ok_def)
  qed
  show "network_ok c P F s'" using s(2) pkt unfolding network_ok_def s'_def retried_def by auto
qed


lemma send_ok:
  assumes c: "config_ok c" and s: "sender_ok c P F s" "network_ok c P F s" "receiver_ok c me F s"
    and n: "sy_counter s < USIZE_MOD - 1" and r: "ack_register (sy_now s) d p (sy_counter s) (sy_sender s) = (Ok i, k, t)"
  defines "s' \<equiv> s\<lparr>sy_counter := k, sy_sender := t, sy_sent := insert (i, p) (sy_sent s), sy_packets := insert (sy_now s, i, p) (sy_packets s)\<rparr>"
  shows "sender_ok c P (F(i := sy_now s)) s'" "network_ok c P (F(i := sy_now s)) s'" "receiver_ok c me (F(i := sy_now s)) s'"
proof -
  note dd = sender_okD [OF s(1)]
  let ?F = "F(i := sy_now s)" and ?p = "PendingMessage_new (sy_now s) i d p (ac_initial_timeout_us c)"
  have k: "i = sy_counter s" "k = Suc i" "at_config t = c" "at_pending t = (i, ?p) # drop_key i (at_pending (sy_sender s))"
    using r n dd(1) by (auto simp: ack_register_def MessageId_generate_def Let_def no_wrap split: if_splits)
  have old: "j \<noteq> i" if "(j, q) \<in> sy_sent s" for j q using dd(5) [OF that] k(1) by simp
  then have "(j, q) \<in> set (at_pending (sy_sender s)) \<Longrightarrow> j \<noteq> i" for j q using dd(4) by blast
  then have keep: "drop_key i (at_pending (sy_sender s)) = at_pending (sy_sender s)" unfolding drop_key_def by (auto intro!: filter_True)
  have "usize_add (sy_now s) (ac_initial_timeout_us c) = sy_now s + ac_initial_timeout_us c"
    using c dd(2) by (intro no_wrap) (simp add: config_ok_def)
  then have new: "entry_ok c P ?F (sy_now s) i ?p" by (simp add: entry_ok_def PendingMessage_new_def)
  have same: "entry_ok c P ?F (sy_now s) j q = entry_ok c P F (sy_now s) j q" if "j \<noteq> i" for j q using that by (simp add: entry_ok_def)
  have pend: "(j, pm_payload q) \<in> insert (i, p) (sy_sent s) \<and> entry_ok c P ?F (sy_now s) j q" if mem: "(j, q) \<in> set (at_pending t)" for j q
  proof (cases "(j, q) = (i, ?p)")
    case True
    then show ?thesis using new by (simp add: PendingMessage_new_def)
  next
    case False
    then have "(j, q) \<in> set (at_pending (sy_sender s))" using mem k(4) keep by auto
    from dd(4) [OF this] show ?thesis using old same [of j q] by blast
  qed
  have "\<forall>(j, q) \<in> insert (i, p) (sy_sent s). j < k" using dd(5) k(1,2) by fastforce
  moreover have "fst ` insert (i, p) (sy_sent s) = fst ` set (at_pending t) \<union> sy_confirmed s \<union> sy_failed s" using dd(6) k(4) keep by auto
  ultimately show "sender_ok c P ?F s'" using pend k(1-3) n dd(2) unfolding sender_ok_def s'_def by auto
  show "network_ok c P ?F s'" unfolding network_ok_def s'_def using network_okD [OF s(2)] old by fastforce
  note rd = receiver_okD [OF s(3)]
  have logged: "?F j = F j" if "j \<in> fst ` set (sy_log s)" for j using that rd(3) old by fastforce
  show "receiver_ok c me ?F s'"
  proof (rule receiver_okI)
    show "n = me \<and> j \<in> fst ` set (sy_log s') \<and> ?F j \<le> r \<and> r \<le> sy_now s'" if "((j, n), r) \<in> set (at_seen (sy_receiver s'))" for j n r
      using rd(2) [of j n r] that logged [of j] by (simp add: s'_def del: fun_upd_apply)
    show "?F j + ac_duplicate_window_us c \<le> sy_now s'" if "(j, q) \<in> set (sy_log s')" "map_of (at_seen (sy_receiver s')) (j, me) = None" for j q
      using rd(4) [of j q] that logged [of j] by (force simp: s'_def simp del: fun_upd_apply)
  qed (use rd in \<open>auto simp: s'_def\<close>)
qed

text \<open>A duplicate that arrives within the window is recognised.\<close>

lemma clean_seen:
  assumes "((i, n), r) \<in> set (at_seen t)" and "r \<le> now" and "now < 2 ^ 62"
  shows "((i, n), r) \<in> set (at_seen (clean_duplicates now t)) \<longleftrightarrow> now < r + ac_duplicate_window_us (at_config t)"
  using assms by (auto simp: clean_duplicates_def no_wrap)

lemma clean_map_of: "map_of (at_seen (clean_duplicates now t)) k = Some r \<Longrightarrow> (k, r) \<in> set (at_seen t)"
  by (auto simp: clean_duplicates_def dest: map_of_SomeD)

text \<open>A message that was passed on before and whose entry has been cleaned was first sent before the window.\<close>

lemma cleaned_old:
  assumes r: "receiver_ok c me F s" and now: "sy_now s < 2 ^ 62" and log: "(j, q) \<in> set (sy_log s)"
    and none: "map_of (at_seen (clean_duplicates (sy_now s) (sy_receiver s))) (j, me) = None"
  shows "F j + ac_duplicate_window_us c \<le> sy_now s"
proof (cases "map_of (at_seen (sy_receiver s)) (j, me)")
  case (Some x)
  note mem = map_of_SomeD [OF Some] and d = receiver_okD [OF r]
  have "((j, me), x) \<notin> set (at_seen (clean_duplicates (sy_now s) (sy_receiver s)))"
    using none by (auto simp: map_of_eq_None_iff image_iff)
  then have "x + ac_duplicate_window_us c \<le> sy_now s" using clean_seen [OF mem _ now] d(1) d(2) [OF mem] by force
  then show ?thesis using d(2) [OF mem] by simp
qed (use receiver_okD(4) [OF r log] in simp)

lemma deliver_ok:
  assumes s: "sender_ok c P F s" "network_ok c P F s" "receiver_ok c me F s"
    and pkt: "(ts, i, p) \<in> sy_packets s" "sy_now s \<le> ts + D" and dup: "is_duplicate (sy_now s) i me (sy_receiver s) = (b, t)"
    and window: "last_send c P + D < ac_duplicate_window_us c"
  defines "s' \<equiv> s\<lparr>sy_receiver := t, sy_log := (if b then sy_log s else sy_log s @ [(i, p)]), sy_acks := insert i (sy_acks s)\<rparr>"
  shows "receiver_ok c me F s'"
proof -
  note d = receiver_okD [OF s(3)] and now = sender_okD(2) [OF s(1)] and k = network_okD [OF s(2) pkt(1)]
  let ?t = "clean_duplicates (sy_now s) (sy_receiver s)"
  have fresh: "sy_now s < F i + ac_duplicate_window_us c" using k pkt(2) window by simp
  have known: "i \<in> fst ` set (sy_log s) \<longleftrightarrow> map_of (at_seen ?t) (i, me) \<noteq> None"
  proof
    show "map_of (at_seen ?t) (i, me) \<noteq> None" if "i \<in> fst ` set (sy_log s)"
      using that cleaned_old [OF s(3) now, of i] fresh by (force simp: not_le [symmetric])
    show "i \<in> fst ` set (sy_log s)" if "map_of (at_seen ?t) (i, me) \<noteq> None"
      using that clean_map_of d(2) by blast
  qed
  have seen: "n = me \<and> j \<in> fst ` set (sy_log s) \<and> F j \<le> r \<and> r \<le> sy_now s" if "((j, n), r) \<in> set (at_seen ?t)" for j n r
    using d(2) that by (auto simp: clean_duplicates_def)
  have cfg: "at_config ?t = c" using d(1) by (simp add: clean_duplicates_def)
  show ?thesis
  proof (cases b)
    case True
    then have t: "at_seen t = at_seen ?t" "at_config t = c" "map_of (at_seen ?t) (i, me) \<noteq> None"
      using dup cfg by (auto simp: is_duplicate_def Let_def split: option.splits)
    then show ?thesis using True known seen cleaned_old [OF s(3) now] d(3,5,6,7) unfolding receiver_ok_def s'_def by auto
  next
    case False
    then have t: "at_seen t = ((i, me), sy_now s) # at_seen ?t" "at_config t = c" "map_of (at_seen ?t) (i, me) = None"
      using dup cfg by (auto simp: is_duplicate_def Let_def split: option.splits)
    have "i \<notin> fst ` set (sy_log s)" using known t(3) by blast
    then show ?thesis using False t seen cleaned_old [OF s(3) now] k d(3,5,6,7) unfolding receiver_ok_def s'_def by (auto split: if_splits)
  qed
qed

lemma acknowledge_ok:
  assumes s: "sender_ok c P F s" "receiver_ok c me F s" and i: "i \<in> sy_acks s"
    and a: "process_ack (sy_now s) (Acknowledgment_success ts i peer) (sy_sender s) = (r, t)"
  defines "s' \<equiv> s\<lparr>sy_sender := t, sy_confirmed := (if r = ResUnknown then sy_confirmed s else insert i (sy_confirmed s))\<rparr>"
  shows "sender_ok c P F s'" "receiver_ok c me F s'"
proof -
  note d = sender_okD [OF s(1)]
  have "receiver_ok c me F s' \<and> sender_ok c P F s'"
  proof (cases "map_of (at_pending (sy_sender s)) i")
    case None
    then have "s' = s" using a by (auto simp: process_ack_def Acknowledgment_success_def s'_def)
    then show ?thesis using s by simp
  next
    case (Some q)
    then have r: "r \<noteq> ResUnknown" "at_config t = at_config (sy_sender s)" "at_pending t = drop_key i (at_pending (sy_sender s))"
      using a by (auto simp: process_ack_def Acknowledgment_success_def Let_def)
    have sub: "set (at_pending t) \<subseteq> set (at_pending (sy_sender s))" using r(3) by (auto simp: drop_key_def)
    have "insert i (fst ` set (at_pending t)) = insert i (fst ` set (at_pending (sy_sender s)))" using r(3) by (force simp: drop_key_def)
    moreover have "i \<in> fst ` set (at_pending (sy_sender s))" using map_of_SomeD [OF Some] by force
    ultimately have "fst ` sy_sent s = fst ` set (at_pending t) \<union> insert i (sy_confirmed s) \<union> sy_failed s" using d(6) by auto
    then have "sender_ok c P F s'" using d(1-5) r sub unfolding sender_ok_def s'_def by auto
    moreover have "receiver_ok c me F s'" using s(2) i r(1) unfolding receiver_ok_def s'_def by auto
    ultimately show ?thesis by blast
  qed
  then show "sender_ok c P F s'" "receiver_ok c me F s'" by blast+
qed

lemma ack_tick_ok:
  assumes s: "sender_ok c P F s" "network_ok c P F s" "receiver_ok c me F s" and t: "sy_now s \<le> now" "now < 2 ^ 62"
    and polled: "\<forall>(i, p) \<in> set (at_pending (sy_sender s)). now \<le> pm_timeout_at_us p + P"
  defines "s' \<equiv> s\<lparr>sy_now := now\<rparr>"
  shows "sender_ok c P F s'" "network_ok c P F s'" "receiver_ok c me F s'"
proof -
  have "entry_ok c P F now i p" if "(i, p) \<in> set (at_pending (sy_sender s))" for i p
    using sender_okD(4) [OF s(1) that] polled t(1) that by (auto simp: entry_ok_def)
  then show "sender_ok c P F s'" using sender_okD [OF s(1)] t(2) unfolding sender_ok_def s'_def by auto
  show "network_ok c P F s'" using network_okD [OF s(2)] t(1) unfolding network_ok_def s'_def by fastforce
  note d = receiver_okD [OF s(3)]
  show "receiver_ok c me F s'"
  proof (rule receiver_okI)
    show "n = me \<and> j \<in> fst ` set (sy_log s') \<and> F j \<le> r \<and> r \<le> sy_now s'" if "((j, n), r) \<in> set (at_seen (sy_receiver s'))" for j n r
      using d(2) [of j n r] that t(1) by (simp add: s'_def)
    show "F j + ac_duplicate_window_us c \<le> sy_now s'" if "(j, q) \<in> set (sy_log s')" "map_of (at_seen (sy_receiver s')) (j, me) = None" for j q
      using d(4) [of j q] that t(1) by (simp add: s'_def)
  qed (use d in \<open>auto simp: s'_def\<close>)
qed

lemma ack_run_inv:
  assumes "ack_run c me P D s" and c: "config_ok c" and window: "last_send c P + D < ac_duplicate_window_us c"
  shows "\<exists>F. sender_ok c P F s \<and> network_ok c P F s \<and> receiver_ok c me F s"
  using assms(1)
proof induction
  case (start now)
  then show ?case by (auto simp: sender_ok_def network_ok_def receiver_ok_def AckTracker_new_def)
next
  case (send s d p i k t)
  then obtain F where F: "sender_ok c P F s" "network_ok c P F s" "receiver_ok c me F s" by blast
  show ?case using send_ok [OF c F send(2,3)] by blast
next
  case (poll s acts t)
  then obtain F where F: "sender_ok c P F s" "network_ok c P F s" "receiver_ok c me F s" by blast
  note p = poll_ok [OF c F(1,2) poll(2)]
  have "receiver_ok c me F (s\<lparr>sy_sender := t, sy_packets := sy_packets s \<union> retried (sy_now s) acts, sy_failed := sy_failed s \<union> given_up acts\<rparr>)"
    using F(3) by (simp add: receiver_ok_def)
  then show ?case using p by blast
next
  case (deliver s ts i p dup t)
  then obtain F where F: "sender_ok c P F s" "network_ok c P F s" "receiver_ok c me F s" by blast
  note r = deliver_ok [OF F deliver(2,3,4) window]
  moreover have "sender_ok c P F (s\<lparr>sy_receiver := t, sy_log := (if dup then sy_log s else sy_log s @ [(i, p)]), sy_acks := insert i (sy_acks s)\<rparr>)"
    using F(1) by (simp add: sender_ok_def)
  moreover have "network_ok c P F (s\<lparr>sy_receiver := t, sy_log := (if dup then sy_log s else sy_log s @ [(i, p)]), sy_acks := insert i (sy_acks s)\<rparr>)"
    using F(2) by (simp add: network_ok_def)
  ultimately show ?case by blast
next
  case (acknowledge s i ts peer r t)
  then obtain F where F: "sender_ok c P F s" "network_ok c P F s" "receiver_ok c me F s" by blast
  note a = acknowledge_ok [OF F(1,3) acknowledge(2,3)]
  moreover have "network_ok c P F (s\<lparr>sy_sender := t, sy_confirmed := (if r = ResUnknown then sy_confirmed s else insert i (sy_confirmed s))\<rparr>)"
    using F(2) by (simp add: network_ok_def)
  ultimately show ?case by blast
next
  case (tick s now)
  then obtain F where F: "sender_ok c P F s" "network_ok c P F s" "receiver_ok c me F s" by blast
  show ?case using ack_tick_ok [OF F tick(2-4)] by blast
qed


lemma resolve_time_numeral: "resolve_time c P (numeral n) = resolve_time c P (pred_numeral n) + P + timeout_for_retry c (numeral n)"
  by (simp add: numeral_eq_Suc)

lemma last_send_numeral: "ac_max_retries c = numeral n \<Longrightarrow> last_send c P = resolve_time c P (pred_numeral n) + P"
  by (simp add: last_send_def numeral_eq_Suc)

lemma default_timing: "config_ok AckConfig_default" "last_send AckConfig_default 1000 + 1000 < ac_duplicate_window_us AckConfig_default"
proof -
  show "config_ok AckConfig_default" by (simp add: config_ok_def AckConfig_default_def)
  have "ac_max_retries AckConfig_default = 5" by (simp add: AckConfig_default_def)
  then show "last_send AckConfig_default 1000 + 1000 < ac_duplicate_window_us AckConfig_default"
    by (simp add: last_send_numeral resolve_time_numeral AckConfig_default_def timeout_for_retry_def f64_to_u64_def)
qed

text \<open>A message that is sent, delivered and acknowledged.\<close>

lemma demo_run: "\<exists>s. ack_run AckConfig_default [1] 1000 1000 s \<and> sy_sent s = {(1, [42])} \<and> sy_log s = [(1, [42])] \<and> sy_confirmed s = {1}"
proof -
  let ?c = AckConfig_default
  define s0 where "s0 = \<lparr>sy_now = 5, sy_counter = 1, sy_sender = AckTracker_new ?c, sy_receiver = AckTracker_new ?c, sy_sent = {},
     sy_packets = {}, sy_log = [], sy_acks = {}, sy_confirmed = {}, sy_failed = {}\<rparr>"
  have s0: "ack_run ?c [1] 1000 1000 s0" unfolding s0_def by (rule ack_run.start) simp
  obtain k t where r: "ack_register 5 [2] [42] 1 (AckTracker_new ?c) = (Ok 1, k, t)" and t: "map_of (at_pending t) 1 \<noteq> None"
    by (simp add: ack_register_def AckTracker_new_def AckConfig_default_def MessageId_generate_def Let_def)
  define s1 where "s1 = s0\<lparr>sy_counter := k, sy_sender := t, sy_sent := insert (1, [42]) (sy_sent s0), sy_packets := insert (sy_now s0, 1, [42]) (sy_packets s0)\<rparr>"
  have s1: "ack_run ?c [1] 1000 1000 s1" unfolding s1_def by (rule ack_run.send [OF s0, where d = "[2]"]) (use r in \<open>simp_all add: s0_def\<close>)
  obtain u where u: "is_duplicate 5 1 [1] (AckTracker_new ?c) = (False, u)"
    by (simp add: is_duplicate_def clean_duplicates_def AckTracker_new_def Let_def)
  define s2 where "s2 = s1\<lparr>sy_receiver := u, sy_log := sy_log s1 @ [(1, [42])], sy_acks := insert 1 (sy_acks s1)\<rparr>"
  have s2: "ack_run ?c [1] 1000 1000 s2"
    unfolding s2_def using ack_run.deliver [OF s1, of 5 1 "[42]" False u] u by (simp add: s1_def s0_def)
  obtain x v where v: "process_ack 5 (Acknowledgment_success 5 1 [1]) t = (x, v)" "x \<noteq> ResUnknown"
    using t by (auto simp: process_ack_def Acknowledgment_success_def Let_def)
  have "ack_run ?c [1] 1000 1000 (s2\<lparr>sy_sender := v, sy_confirmed := insert 1 (sy_confirmed s2)\<rparr>)"
    using ack_run.acknowledge [OF s2, of 1 5 "[1]" x v] v by (simp add: s2_def s1_def s0_def)
  then show ?thesis by (intro exI [of _ "s2\<lparr>sy_sender := v, sy_confirmed := insert 1 (sy_confirmed s2)\<rparr>"]) (simp add: s2_def s1_def s0_def)
qed


section \<open>The window is tight\<close>

text \<open>The time and the pending entry of a message after \<open>k\<close> retries, when all acknowledgements are lost.\<close>

fun silent_time :: "AckConfig \<Rightarrow> nat \<Rightarrow> nat" where
  "silent_time c 0 = 0"
| "silent_time c (Suc k) = resolve_time c 0 k"

definition silent_entry :: "AckConfig \<Rightarrow> u8 list \<Rightarrow> nat \<Rightarrow> PendingMessage" where
  "silent_entry c p k = \<lparr>pm_message_id = 1, pm_destination = [], pm_payload = p, pm_sent_at_us = 0, pm_timeout_at_us = resolve_time c 0 k,
     pm_retry_count = k, pm_status = AckPending\<rparr>"

definition silent :: "AckConfig \<Rightarrow> ack_node \<Rightarrow> u8 list \<Rightarrow> nat \<Rightarrow> ack_sys \<Rightarrow> bool" where
  "silent c me p k s \<longleftrightarrow> ack_run c me 0 0 s \<and> sy_now s = silent_time c k \<and> at_config (sy_sender s) = c \<and> at_pending (sy_sender s) = [(1, silent_entry c p k)] \<and>
     (silent_time c k, 1, p) \<in> sy_packets s \<and> sy_log s = [(1, p)] \<and> at_config (sy_receiver s) = c \<and> at_seen (sy_receiver s) = [((1, me), 0)]"

lemma silent_start:
  assumes c: "config_ok c" and n: "0 < ac_max_pending c"
  shows "\<exists>s. silent c me p 0 s"
proof -
  define s0 where "s0 = \<lparr>sy_now = 0, sy_counter = 1, sy_sender = AckTracker_new c, sy_receiver = AckTracker_new c, sy_sent = {},
     sy_packets = {}, sy_log = [], sy_acks = {}, sy_confirmed = {}, sy_failed = {}\<rparr>"
  have s0: "ack_run c me 0 0 s0" unfolding s0_def by (rule ack_run.start) simp
  have "usize_add 0 (ac_initial_timeout_us c) = ac_initial_timeout_us c" using c by (simp add: no_wrap config_ok_def)
  then obtain k t where r: "ack_register 0 [] p 1 (AckTracker_new c) = (Ok 1, k, t)" "at_config t = c" "at_pending t = [(1, silent_entry c p 0)]"
    using n by (simp add: ack_register_def AckTracker_new_def MessageId_generate_def Let_def PendingMessage_new_def silent_entry_def drop_key_def)
  define s1 where "s1 = s0\<lparr>sy_counter := k, sy_sender := t, sy_sent := insert (1, p) (sy_sent s0), sy_packets := insert (sy_now s0, 1, p) (sy_packets s0)\<rparr>"
  have s1: "ack_run c me 0 0 s1" unfolding s1_def by (rule ack_run.send [OF s0, where d = "[]"]) (use r in \<open>simp_all add: s0_def\<close>)
  obtain u where u: "is_duplicate 0 1 me (AckTracker_new c) = (False, u)" "at_config u = c" "at_seen u = [((1, me), 0)]"
    by (simp add: is_duplicate_def clean_duplicates_def AckTracker_new_def Let_def)
  have "ack_run c me 0 0 (s1\<lparr>sy_receiver := u, sy_log := sy_log s1 @ [(1, p)], sy_acks := insert 1 (sy_acks s1)\<rparr>)"
    using ack_run.deliver [OF s1, of 0 1 p False u] u by (simp add: s1_def s0_def)
  then show ?thesis
    by (intro exI [of _ "s1\<lparr>sy_receiver := u, sy_log := sy_log s1 @ [(1, p)], sy_acks := insert 1 (sy_acks s1)\<rparr>"])
      (use r u in \<open>simp add: silent_def s1_def s0_def\<close>)
qed

lemma silent_retry:
  assumes c: "config_ok c" and s: "silent c me p k s" and k: "k < ac_max_retries c" and t: "resolve_time c 0 k < 2 ^ 62"
  shows "\<exists>s. silent c me p (Suc k) s"
proof -
  let ?now = "resolve_time c 0 k"
  have le: "sy_now s \<le> ?now" using s by (cases k) (auto simp: silent_def)
  have run: "ack_run c me 0 0 (s\<lparr>sy_now := ?now\<rparr>)"
    by (rule ack_run.tick) (use s le t in \<open>auto simp: silent_def silent_entry_def\<close>)
  have "retry_entry ?now c 1 (silent_entry c p k) = (Some (Retry 1 [] p (Suc k)), silent_entry c p (Suc k))"
    using retry_entry_cases [OF c, of "silent_entry c p k" ?now 1] k t by (auto simp: silent_entry_def)
  then obtain v where v: "get_retries ?now (sy_sender s) = ([Retry 1 [] p (Suc k)], v)" "at_config v = c" "at_pending v = [(1, silent_entry c p (Suc k))]"
    using s by (simp add: silent_def get_retries_def Let_def silent_entry_def)
  let ?s = "s\<lparr>sy_now := ?now, sy_sender := v, sy_packets := sy_packets s \<union> retried ?now [Retry 1 [] p (Suc k)], sy_failed := sy_failed s \<union> given_up [Retry 1 [] p (Suc k)]\<rparr>"
  have "ack_run c me 0 0 ?s" using ack_run.poll [OF run, of "[Retry 1 [] p (Suc k)]" v] v by simp
  then have "silent c me p (Suc k) ?s" using s v by (auto simp: silent_def retried_def)
  then show ?thesis by blast
qed

lemma silent_reach:
  assumes "config_ok c" and "0 < ac_max_pending c" and "last_send c 0 < 2 ^ 62" and "k \<le> ac_max_retries c"
  shows "\<exists>s. silent c me p k s"
  using assms(4)
proof (induction k)
  case (Suc k)
  obtain m where m: "ac_max_retries c = Suc m" using Suc.prems by (cases "ac_max_retries c") auto
  have "resolve_time c 0 k \<le> last_send c 0" using Suc.prems resolve_time_mono [of k m c 0] m by (simp add: last_send_def)
  then show ?case using silent_retry [OF assms(1)] Suc assms(3) by (metis Suc_le_lessD less_imp_le order.strict_trans1)
qed (use silent_start assms in blast)

text \<open>
  C40. The condition on the duplicate window is necessary. If the window is not longer than the time
  between the first and the last transmission of a message whose acknowledgements are lost, then even
  on a network without delay and with a sender that polls at once the receiver passes the message on
  twice. The configuration for high reliability is of this kind: the last of its ten retries is sent
  162.2 seconds after the message, and the window is 120 seconds.
\<close>

theorem duplicate_window_tight:
  assumes c: "config_ok c" "0 < ac_max_pending c" "0 < ac_max_retries c" "last_send c 0 < 2 ^ 62" and w: "ac_duplicate_window_us c \<le> last_send c 0"
  shows "\<exists>s. ack_run c me 0 0 s \<and> sy_log s = [(1, p), (1, p)]"
proof -
  obtain m where m: "ac_max_retries c = Suc m" using c(3) by (cases "ac_max_retries c") auto
  then have now: "silent_time c (ac_max_retries c) = last_send c 0" by (simp add: last_send_def)
  obtain s where s: "silent c me p (ac_max_retries c) s" using silent_reach [OF c(1,2,4) le_refl] by blast
  obtain u where u: "is_duplicate (sy_now s) 1 me (sy_receiver s) = (False, u)"
    using s w c(4) by (simp add: silent_def now is_duplicate_def clean_duplicates_def Let_def no_wrap)
  have "ack_run c me 0 0 (s\<lparr>sy_receiver := u, sy_log := sy_log s @ [(1, p)], sy_acks := insert 1 (sy_acks s)\<rparr>)"
    using s ack_run.deliver [of c me 0 0 s "sy_now s" 1 p False u] u by (simp add: silent_def)
  then show ?thesis using s by (intro exI [of _ "s\<lparr>sy_receiver := u, sy_log := sy_log s @ [(1, p)], sy_acks := insert 1 (sy_acks s)\<rparr>"]) (simp add: silent_def)
qed

theorem duplicate_window_tight_witness:
  "\<exists>s. ack_run AckConfig_high_reliability [1] 0 0 s \<and> sy_log s = [(1, [42]), (1, [42])]"
proof -
  have ten: "ac_max_retries AckConfig_high_reliability = 10" by (simp add: AckConfig_high_reliability_def)
  have "last_send AckConfig_high_reliability 0 = 162200000"
    unfolding last_send_numeral [OF ten] by (simp add: resolve_time_numeral AckConfig_high_reliability_def timeout_for_retry_def f64_to_u64_def)
  then show ?thesis by (intro duplicate_window_tight) (simp_all add: config_ok_def AckConfig_high_reliability_def)
qed

end
