(* ===== verification/Wire_Queue.thy ===== *)
theory Wire_Queue
  imports Prelude Complex_Main
begin

text \<open>
  The message queue of the mesh protocol (\<open>mielin-mesh/wire/src/priority.rs\<close>): messages with four
  priorities, kept either in one binary heap or in one queue for each priority, with limits,
  counters and the removal of old messages.

  The reading of the clock is an argument of the operations that take one, in nanoseconds; an operation
  that reads it for several messages is given one reading. \<open>BinaryHeap\<close> of the standard library is the
  list of its elements, of which \<open>pop\<close> takes a greatest. The parts of messages that belong to other
  modules are values of a type parameter.
\<close>

section \<open>Messages and priorities\<close>

datatype WireError = WireConnectionFailed string | WireSerializationError string | WireTransportError string | WireInvalidInput string

datatype NodeRole = RoleEdge | RoleRelay | RoleCore

datatype 'x WireMessage =
    WPing u64
  | WPong u64 u32
  | WAgentMigration "u8 list" "u8 list" u8
  | WMigrationAck "u8 list" bool "string option"
  | WDiscovery "u8 list" NodeRole "string list"
  | WDiscoveryResponse "u8 list" "(u8 list \<times> string \<times> u32 option) list"
  | WLoadInfo rat rat nat
  | WAgentQuery "u8 list"
  | WRoutedMessage "u8 list" "u8 list" u8 u8 "'x WireMessage"
  | WVersionNegotiationRequest 'x
  | WVersionNegotiationResponse "string + 'x"
  | WProtocolUpgrade 'x
  | WProtocolUpgradeResponse 'x
  | WWebSocketUpgrade 'x
  | WWebSocketUpgradeResponse 'x

datatype Priority = PrioCritical | PrioHigh | PrioNormal | PrioLow

fun Priority_as_u8 :: "Priority \<Rightarrow> nat" where
  "Priority_as_u8 PrioCritical = 0" | "Priority_as_u8 PrioHigh = 1" | "Priority_as_u8 PrioNormal = 2" | "Priority_as_u8 PrioLow = 3"

definition Priority_from_u8 :: "nat \<Rightarrow> Priority" where
  "Priority_from_u8 v = (if v = 0 then PrioCritical else if v = 1 then PrioHigh else if v = 2 then PrioNormal else PrioLow)"

fun Priority_name :: "Priority \<Rightarrow> string" where
  "Priority_name PrioCritical = ''critical''" | "Priority_name PrioHigh = ''high''" | "Priority_name PrioNormal = ''normal''" | "Priority_name PrioLow = ''low''"

text \<open>The derived order is that of the constructors.\<close>

instantiation Priority :: linorder
begin

definition less_eq_Priority :: "Priority \<Rightarrow> Priority \<Rightarrow> bool" where
  "less_eq_Priority a b \<longleftrightarrow> Priority_as_u8 a \<le> Priority_as_u8 b"

definition less_Priority :: "Priority \<Rightarrow> Priority \<Rightarrow> bool" where
  "less_Priority a b \<longleftrightarrow> Priority_as_u8 a < Priority_as_u8 b"

instance
proof
  fix a b :: Priority
  show "a \<le> b \<Longrightarrow> b \<le> a \<Longrightarrow> a = b" by (cases a; cases b) (simp_all add: less_eq_Priority_def)
qed (auto simp: less_eq_Priority_def less_Priority_def)

end

fun detect_priority :: "'x WireMessage \<Rightarrow> Priority" where
  "detect_priority (WAgentMigration _ _ priority) = (if priority \<ge> 8 then PrioCritical else if priority \<ge> 5 then PrioHigh else PrioNormal)"
| "detect_priority (WMigrationAck _ success _) = (if success then PrioNormal else PrioCritical)"
| "detect_priority (WDiscovery _ _ _) = PrioHigh"
| "detect_priority (WDiscoveryResponse _ _) = PrioHigh"
| "detect_priority (WAgentQuery _) = PrioNormal"
| "detect_priority (WLoadInfo _ _ _) = PrioLow"
| "detect_priority (WPing _) = PrioLow"
| "detect_priority (WPong _ _) = PrioLow"
| "detect_priority (WRoutedMessage _ _ _ _ payload) = detect_priority payload"
| "detect_priority (WVersionNegotiationRequest _) = PrioHigh"
| "detect_priority (WVersionNegotiationResponse _) = PrioHigh"
| "detect_priority (WProtocolUpgrade _) = PrioHigh"
| "detect_priority (WProtocolUpgradeResponse _) = PrioHigh"
| "detect_priority (WWebSocketUpgrade _) = PrioNormal"
| "detect_priority (WWebSocketUpgradeResponse _) = PrioNormal"

record 'x QueuedMessage =
  qm_message :: "'x WireMessage"
  qm_priority :: Priority
  qm_sequence :: nat
  qm_enqueued_at :: nat
  qm_destination :: "u8 list option"
  qm_attempts :: nat
  qm_max_attempts :: nat

definition QueuedMessage_new :: "nat \<Rightarrow> 'x WireMessage \<Rightarrow> Priority \<Rightarrow> nat \<Rightarrow> 'x QueuedMessage" where
  "QueuedMessage_new now message priority sequence =
     \<lparr>qm_message = message, qm_priority = priority, qm_sequence = sequence, qm_enqueued_at = now, qm_destination = None, qm_attempts = 0, qm_max_attempts = 3\<rparr>"

definition with_destination :: "nat \<Rightarrow> 'x WireMessage \<Rightarrow> Priority \<Rightarrow> nat \<Rightarrow> u8 list \<Rightarrow> 'x QueuedMessage" where
  "with_destination now message priority sequence destination =
     \<lparr>qm_message = message, qm_priority = priority, qm_sequence = sequence, qm_enqueued_at = now, qm_destination = Some destination, qm_attempts = 0, qm_max_attempts = 3\<rparr>"

definition queue_time :: "nat \<Rightarrow> 'x QueuedMessage \<Rightarrow> nat" where
  "queue_time now m = now - qm_enqueued_at m"

definition can_retry :: "'x QueuedMessage \<Rightarrow> bool" where
  "can_retry m = (qm_attempts m < qm_max_attempts m)"

definition increment_attempts :: "'x QueuedMessage \<Rightarrow> 'x QueuedMessage" where
  "increment_attempts m = m\<lparr>qm_attempts := u32_add (qm_attempts m) 1\<rparr>"

text \<open>The order of the heap: the comparison is reversed, so that the greatest element is the most urgent.\<close>

definition qm_less :: "'x QueuedMessage \<Rightarrow> 'x QueuedMessage \<Rightarrow> bool" where
  "qm_less a b \<longleftrightarrow> (if qm_priority b = qm_priority a then qm_sequence b < qm_sequence a else qm_priority b < qm_priority a)"

section \<open>The two stores\<close>

fun heap_max :: "'x QueuedMessage list \<Rightarrow> 'x QueuedMessage option" where
  "heap_max [] = None"
| "heap_max (x # xs) = (case heap_max xs of None \<Rightarrow> Some x | Some y \<Rightarrow> if qm_less x y then Some y else Some x)"

definition heap_push :: "'x QueuedMessage \<Rightarrow> 'x QueuedMessage list \<Rightarrow> 'x QueuedMessage list" where
  "heap_push m h = m # h"

definition heap_pop :: "'x QueuedMessage list \<Rightarrow> 'x QueuedMessage option \<times> 'x QueuedMessage list" where
  "heap_pop h = (case heap_max h of None \<Rightarrow> (None, h) | Some m \<Rightarrow> (Some m, remove1 m h))"

definition fair_push :: "'x QueuedMessage \<Rightarrow> 'x QueuedMessage list list \<Rightarrow> 'x QueuedMessage list list" where
  "fair_push m qs = (let i = Priority_as_u8 (qm_priority m) in qs[i := (qs ! i) @ [m]])"

fun dequeue_fair :: "'x QueuedMessage list list \<Rightarrow> 'x QueuedMessage option \<times> 'x QueuedMessage list list" where
  "dequeue_fair [] = (None, [])"
| "dequeue_fair ([] # qs) = (case dequeue_fair qs of (r, qs') \<Rightarrow> (r, [] # qs'))"
| "dequeue_fair ((m # q) # qs) = (Some m, q # qs)"

section \<open>The queue\<close>

record QueueStats =
  qs_enqueued :: u64
  qs_dequeued :: nat
  qs_dropped :: u64
  qs_current_size :: nat
  qs_by_priority :: "u64 list"
  qs_avg_queue_time_ms :: nat

definition QueueStats_default :: QueueStats where
  "QueueStats_default = \<lparr>qs_enqueued = 0, qs_dequeued = 0, qs_dropped = 0, qs_current_size = 0, qs_by_priority = replicate 4 0, qs_avg_queue_time_ms = 0\<rparr>"

record QueueConfig =
  qc_max_size :: nat
  qc_max_per_priority :: "nat list"
  qc_max_age_ms :: nat
  qc_fair_scheduling :: bool

definition QueueConfig_default :: QueueConfig where
  "QueueConfig_default = \<lparr>qc_max_size = 10000, qc_max_per_priority = [1000, 2000, 4000, 3000], qc_max_age_ms = 30000, qc_fair_scheduling = True\<rparr>"

definition QueueConfig_high_throughput :: QueueConfig where
  "QueueConfig_high_throughput = \<lparr>qc_max_size = 50000, qc_max_per_priority = [5000, 10000, 20000, 15000], qc_max_age_ms = 60000, qc_fair_scheduling = True\<rparr>"

definition QueueConfig_low_latency :: QueueConfig where
  "QueueConfig_low_latency = \<lparr>qc_max_size = 1000, qc_max_per_priority = [200, 300, 300, 200], qc_max_age_ms = 5000, qc_fair_scheduling = False\<rparr>"

definition QueueConfig_embedded :: QueueConfig where
  "QueueConfig_embedded = \<lparr>qc_max_size = 100, qc_max_per_priority = [25, 25, 30, 20], qc_max_age_ms = 10000, qc_fair_scheduling = False\<rparr>"

record 'x PriorityQueue =
  pq_heap :: "'x QueuedMessage list"
  pq_fair_queues :: "'x QueuedMessage list list"
  pq_sequence :: nat
  pq_config :: QueueConfig
  pq_priority_counts :: "nat list"
  pq_stats :: QueueStats
  pq_total_queue_time_ns :: nat

definition PriorityQueue_with_config :: "QueueConfig \<Rightarrow> 'x PriorityQueue" where
  "PriorityQueue_with_config config = \<lparr>pq_heap = [], pq_fair_queues = replicate 4 [], pq_sequence = 0, pq_config = config,
     pq_priority_counts = replicate 4 0, pq_stats = QueueStats_default, pq_total_queue_time_ns = 0\<rparr>"

definition pq_len :: "'x PriorityQueue \<Rightarrow> nat" where
  "pq_len q = (if qc_fair_scheduling (pq_config q) then sum_list (map length (pq_fair_queues q)) else length (pq_heap q))"

text \<open>The body that the two forms of \<open>enqueue\<close> share; they differ in the message they make.\<close>

definition enqueue_queued :: "(nat \<Rightarrow> 'x QueuedMessage) \<Rightarrow> Priority \<Rightarrow> 'x PriorityQueue \<Rightarrow> (WireError + nat) \<times> 'x PriorityQueue" where
  "enqueue_queued mk priority q =
     (let i = Priority_as_u8 priority; st = pq_stats q in
      if pq_len q \<ge> qc_max_size (pq_config q)
      then (Err (WireTransportError ''Queue capacity exceeded''), q\<lparr>pq_stats := st\<lparr>qs_dropped := qs_dropped st + 1\<rparr>\<rparr>)
      else if pq_priority_counts q ! i \<ge> qc_max_per_priority (pq_config q) ! i
      then (Err (WireTransportError (''Priority '' @ Priority_name priority @ '' capacity exceeded'')), q\<lparr>pq_stats := st\<lparr>qs_dropped := qs_dropped st + 1\<rparr>\<rparr>)
      else
        let sequence = pq_sequence q;
            q1 = q\<lparr>pq_sequence := usize_add sequence 1\<rparr>;
            queued = mk sequence;
            q2 = (if qc_fair_scheduling (pq_config q) then q1\<lparr>pq_fair_queues := fair_push queued (pq_fair_queues q1)\<rparr>
                  else q1\<lparr>pq_heap := heap_push queued (pq_heap q1)\<rparr>);
            q3 = q2\<lparr>pq_priority_counts := (pq_priority_counts q2)[i := pq_priority_counts q2 ! i + 1]\<rparr>
        in (Ok sequence, q3\<lparr>pq_stats := st\<lparr>qs_enqueued := qs_enqueued st + 1, qs_current_size := pq_len q3,
              qs_by_priority := (qs_by_priority st)[i := qs_by_priority st ! i + 1]\<rparr>\<rparr>))"

definition enqueue_with_priority :: "nat \<Rightarrow> 'x WireMessage \<Rightarrow> Priority \<Rightarrow> 'x PriorityQueue \<Rightarrow> (WireError + nat) \<times> 'x PriorityQueue" where
  "enqueue_with_priority now message priority q = enqueue_queued (QueuedMessage_new now message priority) priority q"

definition pq_enqueue :: "nat \<Rightarrow> 'x WireMessage \<Rightarrow> 'x PriorityQueue \<Rightarrow> (WireError + nat) \<times> 'x PriorityQueue" where
  "pq_enqueue now message q = enqueue_with_priority now message (detect_priority message) q"

definition enqueue_to_with_priority :: "nat \<Rightarrow> 'x WireMessage \<Rightarrow> Priority \<Rightarrow> u8 list \<Rightarrow> 'x PriorityQueue \<Rightarrow> (WireError + nat) \<times> 'x PriorityQueue" where
  "enqueue_to_with_priority now message priority destination q =
     enqueue_queued (\<lambda>sequence. with_destination now message priority sequence destination) priority q"

definition enqueue_to :: "nat \<Rightarrow> 'x WireMessage \<Rightarrow> u8 list \<Rightarrow> 'x PriorityQueue \<Rightarrow> (WireError + nat) \<times> 'x PriorityQueue" where
  "enqueue_to now message destination q = enqueue_to_with_priority now message (detect_priority message) destination q"

text \<open>The counters after a message was taken out.\<close>

definition record_dequeue :: "nat \<Rightarrow> 'x QueuedMessage \<Rightarrow> 'x PriorityQueue \<Rightarrow> 'x PriorityQueue" where
  "record_dequeue now m q =
     (let i = Priority_as_u8 (qm_priority m); st = pq_stats q;
          dequeued = usize_add (qs_dequeued st) 1;
          total = usize_add (pq_total_queue_time_ns q) (queue_time now m mod USIZE_MOD);
          avg = (if dequeued > 0 then total div dequeued div 1000000 else qs_avg_queue_time_ms st)
      in q\<lparr>pq_priority_counts := (pq_priority_counts q)[i := pq_priority_counts q ! i - 1], pq_total_queue_time_ns := total,
           pq_stats := st\<lparr>qs_dequeued := dequeued, qs_current_size := pq_len q, qs_avg_queue_time_ms := avg\<rparr>\<rparr>)"

definition pq_dequeue :: "nat \<Rightarrow> 'x PriorityQueue \<Rightarrow> 'x QueuedMessage option \<times> 'x PriorityQueue" where
  "pq_dequeue now q =
     (let (msg, q1) = (if qc_fair_scheduling (pq_config q)
                       then (case dequeue_fair (pq_fair_queues q) of (r, qs) \<Rightarrow> (r, q\<lparr>pq_fair_queues := qs\<rparr>))
                       else (case heap_pop (pq_heap q) of (r, h) \<Rightarrow> (r, q\<lparr>pq_heap := h\<rparr>)))
      in (msg, case msg of None \<Rightarrow> q1 | Some m \<Rightarrow> record_dequeue now m q1))"

definition pq_peek :: "'x PriorityQueue \<Rightarrow> 'x QueuedMessage option" where
  "pq_peek q = (if qc_fair_scheduling (pq_config q) then fst (dequeue_fair (pq_fair_queues q)) else heap_max (pq_heap q))"

definition count_by_priority :: "Priority \<Rightarrow> 'x PriorityQueue \<Rightarrow> nat" where
  "count_by_priority priority q = pq_priority_counts q ! Priority_as_u8 priority"

text \<open>The loop over the four queues, with the counts and the number of messages removed.\<close>

fun cleanup_fair :: "('x QueuedMessage \<Rightarrow> bool) \<Rightarrow> 'x QueuedMessage list list \<Rightarrow> nat list \<Rightarrow> 'x QueuedMessage list list \<times> nat list \<times> nat" where
  "cleanup_fair keep (q # qs) (c # cs) =
     (let q' = filter keep q; diff = length q - length q'; (qs', cs', removed) = cleanup_fair keep qs cs in (q' # qs', (c - diff) # cs', diff + removed))"
| "cleanup_fair keep qs cs = (qs, cs, 0)"

text \<open>The loop that rebuilds the heap.\<close>

fun cleanup_heap :: "nat list \<Rightarrow> 'x QueuedMessage list \<Rightarrow> 'x QueuedMessage list \<Rightarrow> nat list \<Rightarrow> nat \<Rightarrow> 'x QueuedMessage list \<times> nat list \<times> nat" where
  "cleanup_heap expired [] heap counts removed = (heap, counts, removed)"
| "cleanup_heap expired (m # old) heap counts removed =
     (if qm_sequence m \<notin> set expired then cleanup_heap expired old (heap_push m heap) counts removed
      else let i = Priority_as_u8 (qm_priority m) in cleanup_heap expired old heap (counts[i := counts ! i - 1]) (removed + 1))"

definition cleanup_expired_queue :: "nat \<Rightarrow> 'x PriorityQueue \<Rightarrow> nat \<times> 'x PriorityQueue" where
  "cleanup_expired_queue now q =
     (let max_age = qc_max_age_ms (pq_config q) * 1000000;
          (removed, q1) =
            (if qc_fair_scheduling (pq_config q)
             then (case cleanup_fair (\<lambda>m. queue_time now m < max_age) (pq_fair_queues q) (pq_priority_counts q) of
                     (qs, cs, removed) \<Rightarrow> (removed, q\<lparr>pq_fair_queues := qs, pq_priority_counts := cs\<rparr>))
             else let expired = map qm_sequence (filter (\<lambda>m. queue_time now m \<ge> max_age) (pq_heap q)) in
               if expired = [] then (0, q)
               else (case cleanup_heap expired (pq_heap q) [] (pq_priority_counts q) 0 of
                       (h, cs, removed) \<Rightarrow> (removed, q\<lparr>pq_heap := h, pq_priority_counts := cs\<rparr>)))
      in (removed, q1\<lparr>pq_stats := (pq_stats q1)\<lparr>qs_current_size := pq_len q1\<rparr>\<rparr>))"

definition pq_clear :: "'x PriorityQueue \<Rightarrow> 'x PriorityQueue" where
  "pq_clear q = q\<lparr>pq_heap := [], pq_fair_queues := map (\<lambda>_. []) (pq_fair_queues q), pq_priority_counts := replicate 4 0,
     pq_stats := (pq_stats q)\<lparr>qs_current_size := 0\<rparr>\<rparr>"

end
