(* ===== verification/Wire_Queue_Correct.thy ===== *)
theory Wire_Queue_Correct
  imports Wire_Queue
begin

text \<open>
  The theorems on the message queue: both stores implement one list of messages in the order of
  urgency, the limits and counters are right, and the choice of the store cannot be observed.
\<close>

section \<open>The order of urgency\<close>

definition ordered :: "'x QueuedMessage list \<Rightarrow> bool" where
  "ordered ms = sorted_wrt (\<lambda>a b. qm_less b a) ms"

definition fresh :: "nat \<Rightarrow> 'x QueuedMessage list \<Rightarrow> bool" where
  "fresh n ms \<longleftrightarrow> (\<forall>m \<in> set ms. qm_sequence m < n)"

text \<open>A new message goes behind those that are at least as urgent.\<close>

definition put_message :: "'x QueuedMessage \<Rightarrow> 'x QueuedMessage list \<Rightarrow> 'x QueuedMessage list" where
  "put_message m ms = filter (\<lambda>x. qm_priority x \<le> qm_priority m) ms @ m # filter (\<lambda>x. qm_priority m < qm_priority x) ms"

lemma qm_less_irrefl [simp]: "\<not> qm_less a a"
  by (simp add: qm_less_def)

lemma qm_less_trans: "qm_less a b \<Longrightarrow> qm_less b c \<Longrightarrow> qm_less a c"
  by (auto simp: qm_less_def split: if_splits)

lemma ordered_distinct: "ordered ms \<Longrightarrow> distinct ms"
  by (induction ms) (auto simp: ordered_def)

lemma ordered_unique:
  assumes "ordered xs" and "ordered ys" and "set xs = set ys"
  shows "xs = ys"
  using assms
proof (induction xs arbitrary: ys)
  case (Cons x xs)
  then obtain y ys' where ys: "ys = y # ys'" by (cases ys) auto
  have "x = y"
  proof (rule ccontr)
    assume "x \<noteq> y"
    then have "x \<in> set ys'" "y \<in> set xs" using Cons.prems(3) ys by auto
    then have "qm_less x y" "qm_less y x" using Cons.prems(1,2) ys by (auto simp: ordered_def)
    then show False using qm_less_trans qm_less_irrefl by blast
  qed
  moreover have "set xs = set ys'"
    using Cons.prems ordered_distinct [OF Cons.prems(1)] ordered_distinct [OF Cons.prems(2)] ys \<open>x = y\<close> by auto
  ultimately show ?case using Cons.IH [of ys'] Cons.prems(1,2) ys by (auto simp: ordered_def)
qed simp

lemma ordered_filter: "ordered ms \<Longrightarrow> ordered (filter P ms)"
  by (simp add: ordered_def sorted_wrt_filter)

lemma set_put_message [simp]: "set (put_message m ms) = insert m (set ms)"
  by (auto simp: put_message_def)

lemma ordered_put_message: "ordered ms \<Longrightarrow> fresh (qm_sequence m) ms \<Longrightarrow> ordered (put_message m ms)"
  by (auto simp: put_message_def ordered_def sorted_wrt_append sorted_wrt_filter fresh_def qm_less_def)

section \<open>The interface of a store\<close>

locale message_store =
  fixes push :: "'x QueuedMessage \<Rightarrow> 's \<Rightarrow> 's"
    and pop :: "'s \<Rightarrow> 'x QueuedMessage option \<times> 's"
    and content :: "'s \<Rightarrow> 'x QueuedMessage list"
    and inv :: "'s \<Rightarrow> bool"
  assumes content_ordered: "inv s \<Longrightarrow> ordered (content s)"
    and push_inv: "inv s \<Longrightarrow> fresh (qm_sequence m) (content s) \<Longrightarrow> inv (push m s)"
    and push_set: "inv s \<Longrightarrow> fresh (qm_sequence m) (content s) \<Longrightarrow> set (content (push m s)) = insert m (set (content s))"
    and pop_content: "inv s \<Longrightarrow> case pop s of (None, s') \<Rightarrow> s' = s \<and> content s = [] | (Some m, s') \<Rightarrow> content s = m # content s' \<and> inv s'"
begin

lemma push_content: "inv s \<Longrightarrow> fresh (qm_sequence m) (content s) \<Longrightarrow> content (push m s) = put_message m (content s)"
  using push_inv push_set by (intro ordered_unique) (simp_all add: content_ordered ordered_put_message)

lemma pop_first: "inv s \<Longrightarrow> fst (pop s) = (case content s of [] \<Rightarrow> None | m # _ \<Rightarrow> Some m)"
  using pop_content [of s] by (auto split: prod.splits option.splits)

lemma pop_rest: "inv s \<Longrightarrow> inv (snd (pop s)) \<and> content (snd (pop s)) = tl (content s)"
  using pop_content [of s] by (auto split: prod.splits option.splits)

end

section \<open>The heap\<close>

lemma heap_max_None [simp]: "heap_max h = None \<longleftrightarrow> h = []"
  by (cases h) (auto split: option.splits)

definition keys_distinct :: "'x QueuedMessage list \<Rightarrow> bool" where
  "keys_distinct h \<longleftrightarrow> distinct (map qm_sequence h)"

lemma keys_total: "keys_distinct h \<Longrightarrow> a \<in> set h \<Longrightarrow> b \<in> set h \<Longrightarrow> a \<noteq> b \<Longrightarrow> qm_less a b \<or> qm_less b a"
proof -
  assume "keys_distinct h" "a \<in> set h" "b \<in> set h" "a \<noteq> b"
  then have "qm_sequence a \<noteq> qm_sequence b" by (auto simp: keys_distinct_def distinct_map inj_on_def)
  then show ?thesis by (auto simp: qm_less_def)
qed

lemma heap_max_spec: "keys_distinct h \<Longrightarrow> heap_max h = Some m \<Longrightarrow> m \<in> set h \<and> (\<forall>x \<in> set h. x \<noteq> m \<longrightarrow> qm_less x m)"
proof (induction h arbitrary: m)
  case (Cons a h)
  have d: "keys_distinct h" using Cons.prems(1) by (simp add: keys_distinct_def)
  show ?case
  proof (cases "heap_max h")
    case None
    then show ?thesis using Cons.prems by auto
  next
    case (Some b)
    from Cons.IH [OF d Some] have b: "b \<in> set h" "\<forall>x \<in> set h. x \<noteq> b \<longrightarrow> qm_less x b" by auto
    have "a \<noteq> b" using b(1) Cons.prems(1) by (auto simp: keys_distinct_def)
    then have "qm_less a b \<or> qm_less b a" using keys_total [OF Cons.prems(1), of a b] b(1) by auto
    moreover have "m = (if qm_less a b then b else a)" using Cons.prems(2) Some by (simp split: if_splits)
    ultimately consider "qm_less a b" "m = b" | "qm_less b a" "m = a" by (cases "qm_less a b") simp_all
    then show ?thesis
    proof cases
      case 2
      have "qm_less x a" if "x \<in> set h" for x using that 2 b(2) qm_less_trans [of x b a] by (cases "x = b") auto
      then show ?thesis using 2 by auto
    qed (use b in auto)
  qed
qed simp

lemma heap_pop_length: "heap_pop h = (Some m, h') \<Longrightarrow> m \<in> set h \<and> length h' < length h"
proof -
  assume p: "heap_pop h = (Some m, h')"
  have "heap_max h = Some m \<Longrightarrow> m \<in> set h" for h :: "'a QueuedMessage list" and m
    by (induction h arbitrary: m) (auto split: option.splits if_splits)
  then have "m \<in> set h" using p by (auto simp: heap_pop_def split: option.splits)
  moreover from this have "length h' < length h" using p length_pos_if_in_set [of m h] by (auto simp: heap_pop_def length_remove1 split: option.splits)
  ultimately show ?thesis by blast
qed

text \<open>What a heap holds, in the order in which \<open>pop\<close> gives it.\<close>

function drain :: "'x QueuedMessage list \<Rightarrow> 'x QueuedMessage list" where
  "drain h = (case heap_pop h of (None, _) \<Rightarrow> [] | (Some m, h') \<Rightarrow> m # drain h')"
  by pat_completeness auto
termination
  by (relation "measure length") (auto dest: sym [THEN heap_pop_length])

declare drain.simps [simp del]

lemma drain_Nil [simp]: "drain [] = []"
  by (simp add: drain.simps heap_pop_def)

lemma heap_pop_cases:
  "heap_pop h = (if h = [] then (None, []) else (Some (the (heap_max h)), remove1 (the (heap_max h)) h))"
  by (auto simp: heap_pop_def split: option.splits)

lemma drain_spec: "keys_distinct h \<Longrightarrow> set (drain h) = set h \<and> ordered (drain h)"
proof (induction h rule: drain.induct)
  case (1 h)
  show ?case
  proof (cases "h = []")
    case False
    then obtain m where m: "heap_max h = Some m" by (cases "heap_max h") auto
    note max = heap_max_spec [OF "1.prems" m]
    have d: "keys_distinct (remove1 m h)" "set (remove1 m h) = set h - {m}"
      using "1.prems" by (auto simp: keys_distinct_def distinct_map intro: inj_on_subset)
    have eq: "drain h = m # drain (remove1 m h)" using False m by (simp add: drain.simps [of h] heap_pop_cases)
    have pop: "heap_pop h = (Some m, remove1 m h)" using m by (simp add: heap_pop_def)
    have "set (drain (remove1 m h)) = set (remove1 m h) \<and> ordered (drain (remove1 m h))"
      using "1.IH" [OF pop [symmetric] refl d(1)] by simp
    then show ?thesis using eq max d(2) by (auto simp: ordered_def)
  qed (simp add: drain.simps heap_pop_def ordered_def)
qed

interpretation hs: message_store heap_push heap_pop drain keys_distinct
proof
  fix h :: "'a QueuedMessage list" and m :: "'a QueuedMessage"
  assume h: "keys_distinct h"
  show "ordered (drain h)" using drain_spec [OF h] by blast
  show pushed: "keys_distinct (heap_push m h)" if "fresh (qm_sequence m) (drain h)"
    using that h drain_spec [OF h] by (auto simp: keys_distinct_def heap_push_def fresh_def)
  show "set (drain (heap_push m h)) = insert m (set (drain h))" if "fresh (qm_sequence m) (drain h)"
    using drain_spec [OF h] drain_spec [OF pushed [OF that]] by (simp add: heap_push_def)
  have "keys_distinct (remove1 x h)" for x using h by (auto simp: keys_distinct_def distinct_map intro: inj_on_subset)
  then show "case heap_pop h of (None, s') \<Rightarrow> s' = h \<and> drain h = [] | (Some m, s') \<Rightarrow> drain h = m # drain s' \<and> keys_distinct s'"
    by (cases "heap_max h") (auto simp: heap_pop_def drain.simps [of h])
qed

section \<open>The four queues\<close>

definition fair_inv :: "'x QueuedMessage list list \<Rightarrow> bool" where
  "fair_inv qs \<longleftrightarrow> length qs = 4 \<and> (\<forall>i < 4. (\<forall>m \<in> set (qs ! i). Priority_as_u8 (qm_priority m) = i) \<and> ordered (qs ! i))"

lemma Priority_idx [simp]: "Priority_as_u8 p < 4"
  by (cases p) simp_all

lemma Priority_inj: "Priority_as_u8 p = Priority_as_u8 q \<longleftrightarrow> p = q"
  by (cases p; cases q) simp_all

lemma ordered_concat:
  assumes "\<And>i. i < length qs \<Longrightarrow> (\<forall>m \<in> set (qs ! i). Priority_as_u8 (qm_priority m) = k + i) \<and> ordered (qs ! i)"
  shows "ordered (concat qs)"
  using assms
proof (induction qs arbitrary: k)
  case (Cons q qs)
  have "ordered (concat qs)" using Cons.prems [of "Suc _"] by (intro Cons.IH [of "Suc k"]) auto
  moreover have "\<forall>m \<in> set q. Priority_as_u8 (qm_priority m) = k" "ordered q" using Cons.prems [of 0] by auto
  moreover have "\<forall>m \<in> set (concat qs). Priority_as_u8 (qm_priority m) > k"
  proof
    fix m
    assume "m \<in> set (concat qs)"
    then obtain i where "i < length qs" "m \<in> set (qs ! i)" by (auto simp: in_set_conv_nth [of _ qs])
    then show "Priority_as_u8 (qm_priority m) > k" using Cons.prems [of "Suc i"] by auto
  qed
  ultimately show ?case by (fastforce simp: ordered_def sorted_wrt_append qm_less_def less_Priority_def)
qed (simp add: ordered_def)

lemma dequeue_fair_concat: "fst (dequeue_fair qs) = (case concat qs of [] \<Rightarrow> None | m # _ \<Rightarrow> Some m) \<and> concat (snd (dequeue_fair qs)) = tl (concat qs)"
  by (induction qs rule: dequeue_fair.induct) (auto split: prod.splits)

lemma dequeue_fair_length: "length (snd (dequeue_fair qs)) = length qs"
  by (induction qs rule: dequeue_fair.induct) (auto split: prod.splits)

lemma dequeue_fair_nth: "i < length qs \<Longrightarrow> snd (dequeue_fair qs) ! i = qs ! i \<or> snd (dequeue_fair qs) ! i = tl (qs ! i)"
proof (induction qs arbitrary: i rule: dequeue_fair.induct)
  case (2 qs)
  show ?case using "2.IH" [of "i - 1"] "2.prems" by (cases i) (auto split: prod.splits)
next
  case (3 m q qs)
  then show ?case by (cases i) auto
qed simp

lemma dequeue_fair_None: "fst (dequeue_fair qs) = None \<Longrightarrow> snd (dequeue_fair qs) = qs"
  by (induction qs rule: dequeue_fair.induct) (auto split: prod.splits)

lemma ordered_tl: "ordered q \<Longrightarrow> ordered (tl q)"
  by (cases q) (simp_all add: ordered_def)

lemma fair_inv_pop: "fair_inv qs \<Longrightarrow> fair_inv (snd (dequeue_fair qs))"
  unfolding fair_inv_def dequeue_fair_length using dequeue_fair_nth [of _ qs] ordered_tl list.set_sel(2) by (metis tl_Nil)

lemma set_concat_append: "i < length qs \<Longrightarrow> set (concat (qs[i := (qs ! i) @ [m]])) = insert m (set (concat qs))"
proof -
  assume i: "i < length qs"
  have "set (concat qs) = set (concat (take i qs @ (qs ! i) # drop (Suc i) qs))" using id_take_nth_drop [OF i] by simp
  then show ?thesis using i by (auto simp: upd_conv_take_nth_drop)
qed

interpretation fs: message_store fair_push dequeue_fair concat fair_inv
proof
  fix qs :: "'a QueuedMessage list list" and m :: "'a QueuedMessage"
  assume q: "fair_inv qs"
  show "ordered (concat qs)" using q by (intro ordered_concat [of _ 0]) (auto simp: fair_inv_def)
  let ?i = "Priority_as_u8 (qm_priority m)"
  have i: "?i < length qs" using q by (simp add: fair_inv_def)
  show "fair_inv (fair_push m qs)" if "fresh (qm_sequence m) (concat qs)"
  proof -
    have "qm_less m x" if "x \<in> set (qs ! ?i)" for x
    proof -
      have "qm_priority x = qm_priority m" using that q Priority_idx [of "qm_priority m"] by (simp add: fair_inv_def flip: Priority_inj)
      moreover have "qm_sequence x < qm_sequence m" using \<open>fresh (qm_sequence m) (concat qs)\<close> that i by (auto simp: fresh_def)
      ultimately show ?thesis by (simp add: qm_less_def)
    qed
    then show ?thesis using q i by (auto simp: fair_inv_def fair_push_def Let_def nth_list_update ordered_def sorted_wrt_append)
  qed
  show "set (concat (fair_push m qs)) = insert m (set (concat qs))"
    using set_concat_append [OF i] by (simp add: fair_push_def Let_def)
  show "case dequeue_fair qs of (None, s') \<Rightarrow> s' = qs \<and> concat qs = [] | (Some m, s') \<Rightarrow> concat qs = m # concat s' \<and> fair_inv s'"
    using dequeue_fair_concat [of qs] dequeue_fair_None [of qs] fair_inv_pop [OF q]
    by (cases "concat qs") (auto split: prod.splits option.splits)
qed

section \<open>The queue as a list of messages\<close>

definition prio_count :: "nat \<Rightarrow> 'x QueuedMessage list \<Rightarrow> nat" where
  "prio_count i ms = length (filter (\<lambda>m. Priority_as_u8 (qm_priority m) = i) ms)"

definition counts_ok :: "nat list \<Rightarrow> 'x QueuedMessage list \<Rightarrow> bool" where
  "counts_ok cs ms \<longleftrightarrow> length cs = 4 \<and> (\<forall>i < 4. cs ! i = prio_count i ms)"

lemma prio_count_card: "distinct ms \<Longrightarrow> prio_count i ms = card {m \<in> set ms. Priority_as_u8 (qm_priority m) = i}"
  using distinct_card [of "filter (\<lambda>m. Priority_as_u8 (qm_priority m) = i) ms"] by (simp add: prio_count_def)

lemma counts_ok_set: "counts_ok cs ms \<Longrightarrow> distinct ms \<Longrightarrow> distinct ms' \<Longrightarrow> set ms = set ms' \<Longrightarrow> counts_ok cs ms'"
  by (simp add: counts_ok_def prio_count_card)

lemma counts_ok_unique: "counts_ok cs ms \<Longrightarrow> counts_ok cs' ms \<Longrightarrow> cs = cs'"
  by (auto simp: counts_ok_def intro: nth_equalityI)

lemma counts_ok_add:
  "counts_ok cs ms \<Longrightarrow> counts_ok (cs[Priority_as_u8 (qm_priority m) := cs ! Priority_as_u8 (qm_priority m) + 1]) (m # ms)"
  by (auto simp: counts_ok_def prio_count_def nth_list_update)

lemma counts_ok_remove:
  "counts_ok cs (m # ms) \<Longrightarrow> counts_ok (cs[Priority_as_u8 (qm_priority m) := cs ! Priority_as_u8 (qm_priority m) - 1]) ms"
  by (auto simp: counts_ok_def prio_count_def nth_list_update)

text \<open>The messages of a queue in the order of urgency, and the state of the abstract queue.\<close>

definition pq_messages :: "'x PriorityQueue \<Rightarrow> 'x QueuedMessage list" where
  "pq_messages q = (if qc_fair_scheduling (pq_config q) then concat (pq_fair_queues q) else drain (pq_heap q))"

text \<open>The invariant of the store that is in use, and of the queue.\<close>

definition store_ok :: "'x PriorityQueue \<Rightarrow> bool" where
  "store_ok q = (if qc_fair_scheduling (pq_config q) then fair_inv (pq_fair_queues q) else keys_distinct (pq_heap q))"

definition limits_ok :: "QueueConfig \<Rightarrow> 'x QueuedMessage list \<Rightarrow> bool" where
  "limits_ok c ms \<longleftrightarrow> length ms \<le> qc_max_size c \<and> (\<forall>i < 4. prio_count i ms \<le> qc_max_per_priority c ! i)"

definition pq_ok :: "'x PriorityQueue \<Rightarrow> bool" where
  "pq_ok q \<longleftrightarrow> store_ok q \<and> length (pq_fair_queues q) = 4 \<and> fresh (pq_sequence q) (pq_messages q) \<and>
     counts_ok (pq_priority_counts q) (pq_messages q) \<and> limits_ok (pq_config q) (pq_messages q)"

lemma pq_okD:
  assumes "pq_ok q"
  shows "store_ok q" "length (pq_fair_queues q) = 4" "fresh (pq_sequence q) (pq_messages q)" "counts_ok (pq_priority_counts q) (pq_messages q)"
    "limits_ok (pq_config q) (pq_messages q)"
  using assms by (simp_all add: pq_ok_def)

lemma store_ordered: "store_ok q \<Longrightarrow> ordered (pq_messages q)"
  using fs.content_ordered hs.content_ordered by (cases "qc_fair_scheduling (pq_config q)") (simp_all add: store_ok_def pq_messages_def)

record 'x message_list =
  ml_messages :: "'x QueuedMessage list"
  ml_sequence :: nat
  ml_config :: QueueConfig
  ml_stats :: QueueStats
  ml_total_time :: nat

definition pq_abs :: "'x PriorityQueue \<Rightarrow> 'x message_list" where
  "pq_abs q = \<lparr>ml_messages = pq_messages q, ml_sequence = pq_sequence q, ml_config = (pq_config q)\<lparr>qc_fair_scheduling := False\<rparr>,
     ml_stats = pq_stats q, ml_total_time = pq_total_queue_time_ns q\<rparr>"

definition ml_enqueue :: "(nat \<Rightarrow> 'x QueuedMessage) \<Rightarrow> Priority \<Rightarrow> 'x message_list \<Rightarrow> (WireError + nat) \<times> 'x message_list" where
  "ml_enqueue mk p a =
     (let i = Priority_as_u8 p; st = ml_stats a; n = ml_sequence a; ms = put_message (mk n) (ml_messages a) in
      if length (ml_messages a) \<ge> qc_max_size (ml_config a)
      then (Err (WireTransportError ''Queue capacity exceeded''), a\<lparr>ml_stats := st\<lparr>qs_dropped := qs_dropped st + 1\<rparr>\<rparr>)
      else if prio_count i (ml_messages a) \<ge> qc_max_per_priority (ml_config a) ! i
      then (Err (WireTransportError (''Priority '' @ Priority_name p @ '' capacity exceeded'')), a\<lparr>ml_stats := st\<lparr>qs_dropped := qs_dropped st + 1\<rparr>\<rparr>)
      else (Ok n, a\<lparr>ml_messages := ms, ml_sequence := n + 1, ml_stats := st\<lparr>qs_enqueued := qs_enqueued st + 1,
              qs_current_size := length ms, qs_by_priority := (qs_by_priority st)[i := qs_by_priority st ! i + 1]\<rparr>\<rparr>))"

definition ml_dequeue :: "nat \<Rightarrow> 'x message_list \<Rightarrow> 'x QueuedMessage option \<times> 'x message_list" where
  "ml_dequeue now a =
     (case ml_messages a of
        [] \<Rightarrow> (None, a)
      | m # ms \<Rightarrow>
          let st = ml_stats a; dequeued = usize_add (qs_dequeued st) 1;
              total = usize_add (ml_total_time a) (queue_time now m mod USIZE_MOD);
              avg = (if dequeued > 0 then total div dequeued div 1000000 else qs_avg_queue_time_ms st)
          in (Some m, a\<lparr>ml_messages := ms, ml_stats := st\<lparr>qs_dequeued := dequeued, qs_current_size := length ms, qs_avg_queue_time_ms := avg\<rparr>,
                ml_total_time := total\<rparr>))"

definition ml_cleanup :: "nat \<Rightarrow> 'x message_list \<Rightarrow> nat \<times> 'x message_list" where
  "ml_cleanup now a =
     (let ms = filter (\<lambda>m. queue_time now m < qc_max_age_ms (ml_config a) * 1000000) (ml_messages a)
      in (length (ml_messages a) - length ms, a\<lparr>ml_messages := ms, ml_stats := (ml_stats a)\<lparr>qs_current_size := length ms\<rparr>\<rparr>))"

definition ml_clear :: "'x message_list \<Rightarrow> 'x message_list" where
  "ml_clear a = a\<lparr>ml_messages := [], ml_stats := (ml_stats a)\<lparr>qs_current_size := 0\<rparr>\<rparr>"

lemma length_drain: "keys_distinct h \<Longrightarrow> length (drain h) = length h"
proof -
  assume k: "keys_distinct h"
  have "distinct h" using k by (auto simp: keys_distinct_def distinct_map)
  moreover have "distinct (drain h)" using drain_spec [OF k] by (simp add: ordered_distinct)
  ultimately show ?thesis using drain_spec [OF k] by (metis distinct_card)
qed

lemma pq_len_messages: "store_ok q \<Longrightarrow> pq_len q = length (pq_messages q)"
  by (cases "qc_fair_scheduling (pq_config q)") (simp_all add: store_ok_def pq_len_def pq_messages_def length_concat length_drain)

lemma counts_nth: "counts_ok cs ms \<Longrightarrow> cs ! Priority_as_u8 p = prio_count (Priority_as_u8 p) ms"
  by (simp add: counts_ok_def)

lemma length_put_message [simp]: "length (put_message m ms) = Suc (length ms)"
  using sum_length_filter_compl [of "\<lambda>x. qm_priority x \<le> qm_priority m" ms] by (simp add: put_message_def not_le)

lemma prio_count_put: "prio_count i (put_message m ms) = prio_count i (m # ms)"
proof -
  let ?P = "\<lambda>m. Priority_as_u8 (qm_priority m) = i"
  have "length (filter ?P ms) = length (filter ?P (filter (\<lambda>x. qm_priority x \<le> qm_priority m) ms)) + length (filter ?P (filter (\<lambda>x. \<not> qm_priority x \<le> qm_priority m) ms))"
    by (induction ms) auto
  then show ?thesis by (simp add: prio_count_def put_message_def not_le)
qed

lemma counts_ok_put: "counts_ok cs (put_message m ms) = counts_ok cs (m # ms)"
  by (simp add: counts_ok_def prio_count_put)

lemma pq_stats_simps [simp]:
  "pq_messages (q\<lparr>pq_stats := st\<rparr>) = pq_messages q" "store_ok (q\<lparr>pq_stats := st\<rparr>) = store_ok q" "pq_ok (q\<lparr>pq_stats := st\<rparr>) = pq_ok q"
proof -
  show m: "pq_messages (q\<lparr>pq_stats := st\<rparr>) = pq_messages q" by (simp add: pq_messages_def)
  show s: "store_ok (q\<lparr>pq_stats := st\<rparr>) = store_ok q" by (simp add: store_ok_def)
  show "pq_ok (q\<lparr>pq_stats := st\<rparr>) = pq_ok q" unfolding pq_ok_def m s by simp
qed

text \<open>Storing a message, and the queue after it with the new counts.\<close>

definition pq_store :: "'x QueuedMessage \<Rightarrow> 'x PriorityQueue \<Rightarrow> 'x PriorityQueue" where
  "pq_store m q =
     (let i = Priority_as_u8 (qm_priority m);
          q1 = (if qc_fair_scheduling (pq_config q) then q\<lparr>pq_fair_queues := fair_push m (pq_fair_queues q)\<rparr> else q\<lparr>pq_heap := heap_push m (pq_heap q)\<rparr>)
      in q1\<lparr>pq_sequence := pq_sequence q + 1, pq_priority_counts := (pq_priority_counts q)[i := pq_priority_counts q ! i + 1]\<rparr>)"

lemma pq_store_fields [simp]:
  "pq_sequence (pq_store m q) = pq_sequence q + 1" "pq_config (pq_store m q) = pq_config q" "pq_stats (pq_store m q) = pq_stats q"
  "pq_total_queue_time_ns (pq_store m q) = pq_total_queue_time_ns q" "length (pq_fair_queues (pq_store m q)) = length (pq_fair_queues q)"
  "pq_priority_counts (pq_store m q) = (pq_priority_counts q)[Priority_as_u8 (qm_priority m) := pq_priority_counts q ! Priority_as_u8 (qm_priority m) + 1]"
  by (simp_all add: pq_store_def Let_def fair_push_def)

lemma pq_store_content:
  assumes "store_ok q" and "fresh (qm_sequence m) (pq_messages q)"
  shows "pq_messages (pq_store m q) = put_message m (pq_messages q) \<and> store_ok (pq_store m q)"
proof (cases "qc_fair_scheduling (pq_config q)")
  case True
  then have q: "fair_inv (pq_fair_queues q)" "fresh (qm_sequence m) (concat (pq_fair_queues q))" using assms by (simp_all add: store_ok_def pq_messages_def)
  show ?thesis using fs.push_content [OF q] fs.push_inv [OF q] True by (simp add: pq_store_def store_ok_def pq_messages_def Let_def)
next
  case False
  then have q: "keys_distinct (pq_heap q)" "fresh (qm_sequence m) (drain (pq_heap q))" using assms by (simp_all add: store_ok_def pq_messages_def)
  show ?thesis using hs.push_content [OF q] hs.push_inv [OF q] False by (simp add: pq_store_def store_ok_def pq_messages_def Let_def)
qed

lemma pq_store_ok:
  assumes ok: "pq_ok q" and m: "qm_sequence m = pq_sequence q" and room: "length (pq_messages q) < qc_max_size (pq_config q)"
    "prio_count (Priority_as_u8 (qm_priority m)) (pq_messages q) < qc_max_per_priority (pq_config q) ! Priority_as_u8 (qm_priority m)"
  shows "pq_ok (pq_store m q) \<and> pq_messages (pq_store m q) = put_message m (pq_messages q)"
proof -
  note D = pq_okD [OF ok]
  have "fresh (qm_sequence m) (pq_messages q)" using D(3) m by simp
  note c = pq_store_content [OF D(1) this]
  have "counts_ok (pq_priority_counts (pq_store m q)) (put_message m (pq_messages q))" unfolding counts_ok_put using counts_ok_add [OF D(4)] by simp
  moreover have "fresh (pq_sequence q + 1) (put_message m (pq_messages q))" using D(3) m by (auto simp: fresh_def)
  moreover have "limits_ok (pq_config q) (put_message m (pq_messages q))"
    unfolding limits_ok_def prio_count_put using D(5) room by (auto simp: limits_ok_def prio_count_def)
  ultimately show ?thesis using c D(2) by (simp add: pq_ok_def)
qed

lemma enqueue_refines:
  assumes ok: "pq_ok q" and mk: "qm_priority (mk (pq_sequence q)) = p" "qm_sequence (mk (pq_sequence q)) = pq_sequence q" and n: "pq_sequence q + 1 < USIZE_MOD"
  shows "ml_enqueue mk p (pq_abs q) = map_prod id pq_abs (enqueue_queued mk p q) \<and> pq_ok (snd (enqueue_queued mk p q))"
proof -
  let ?i = "Priority_as_u8 p" and ?m = "mk (pq_sequence q)" and ?st = "pq_stats q"
  have len: "pq_len q = length (pq_messages q)" and cnt: "pq_priority_counts q ! ?i = prio_count ?i (pq_messages q)"
    using pq_len_messages pq_okD [OF ok] counts_nth by auto
  consider "qc_max_size (pq_config q) \<le> length (pq_messages q)"
    | "length (pq_messages q) < qc_max_size (pq_config q)" "qc_max_per_priority (pq_config q) ! ?i \<le> prio_count ?i (pq_messages q)"
    | "length (pq_messages q) < qc_max_size (pq_config q)" "prio_count ?i (pq_messages q) < qc_max_per_priority (pq_config q) ! ?i" by linarith
  then show ?thesis
  proof cases
    case 1
    then show ?thesis using ok len by (simp add: ml_enqueue_def enqueue_queued_def pq_abs_def Let_def)
  next
    case 2
    then show ?thesis using ok len cnt by (simp add: ml_enqueue_def enqueue_queued_def pq_abs_def Let_def)
  next
    case 3
    have s: "pq_ok (pq_store ?m q)" "pq_messages (pq_store ?m q) = put_message ?m (pq_messages q)" using pq_store_ok [OF ok mk(2)] 3 mk(1) by simp_all
    have l: "pq_len (pq_store ?m q) = Suc (length (pq_messages q))" using pq_len_messages [OF pq_okD(1) [OF s(1)]] s(2) by simp
    have "enqueue_queued mk p q = (Ok (pq_sequence q), (pq_store ?m q)\<lparr>pq_stats := ?st\<lparr>qs_enqueued := qs_enqueued ?st + 1,
        qs_current_size := pq_len (pq_store ?m q), qs_by_priority := (qs_by_priority ?st)[?i := qs_by_priority ?st ! ?i + 1]\<rparr>\<rparr>)"
      using 3 len cnt n mk(1) by (simp add: enqueue_queued_def pq_store_def Let_def no_wrap pq_len_def)
    then show ?thesis using 3 s l by (simp add: ml_enqueue_def pq_abs_def Let_def)
  qed
qed

section \<open>Taking messages out\<close>

definition pq_take :: "'x PriorityQueue \<Rightarrow> 'x QueuedMessage option \<times> 'x PriorityQueue" where
  "pq_take q = (if qc_fair_scheduling (pq_config q) then (case dequeue_fair (pq_fair_queues q) of (r, qs) \<Rightarrow> (r, q\<lparr>pq_fair_queues := qs\<rparr>))
     else (case heap_pop (pq_heap q) of (r, h) \<Rightarrow> (r, q\<lparr>pq_heap := h\<rparr>)))"

lemma pq_dequeue_take: "pq_dequeue now q = (case pq_take q of (None, q1) \<Rightarrow> (None, q1) | (Some m, q1) \<Rightarrow> (Some m, record_dequeue now m q1))"
  by (simp add: pq_dequeue_def pq_take_def split: prod.splits option.splits)

lemma pq_take_spec:
  assumes "store_ok q"
  shows "case pq_messages q of
      [] \<Rightarrow> pq_take q = (None, q)
    | m # ms \<Rightarrow> \<exists>q'. pq_take q = (Some m, q') \<and> store_ok q' \<and> pq_messages q' = ms \<and> pq_config q' = pq_config q \<and> pq_sequence q' = pq_sequence q \<and>
        pq_stats q' = pq_stats q \<and> pq_total_queue_time_ns q' = pq_total_queue_time_ns q \<and> pq_priority_counts q' = pq_priority_counts q \<and>
        length (pq_fair_queues q') = length (pq_fair_queues q)"
proof (cases "qc_fair_scheduling (pq_config q)")
  case True
  then have q: "fair_inv (pq_fair_queues q)" using assms by (simp add: store_ok_def)
  obtain r qs where pop: "dequeue_fair (pq_fair_queues q) = (r, qs)" by fastforce
  have len: "length qs = length (pq_fair_queues q)" using dequeue_fair_length [of "pq_fair_queues q"] pop by simp
  show ?thesis
  proof (cases r)
    case None
    then have "qs = pq_fair_queues q" "concat (pq_fair_queues q) = []" using fs.pop_content [OF q] pop by simp_all
    then show ?thesis using True pop None by (simp add: pq_take_def pq_messages_def del: concat_eq_Nil_conv)
  next
    case (Some m)
    then have "concat (pq_fair_queues q) = m # concat qs" "fair_inv qs" using fs.pop_content [OF q] pop by simp_all
    then show ?thesis using True pop Some len by (simp add: pq_take_def store_ok_def pq_messages_def)
  qed
next
  case False
  then have q: "keys_distinct (pq_heap q)" using assms by (simp add: store_ok_def)
  show ?thesis using hs.pop_content [OF q] False
    by (auto simp: pq_take_def store_ok_def pq_messages_def split: prod.splits option.splits)
qed

lemma prio_count_Cons: "prio_count i ms \<le> prio_count i (m # ms)"
  by (simp add: prio_count_def)

lemma limits_ok_Cons: "limits_ok c (m # ms) \<Longrightarrow> limits_ok c ms"
  using prio_count_Cons le_trans unfolding limits_ok_def by (metis Suc_leD length_Cons)

lemma dequeue_refines:
  assumes ok: "pq_ok q"
  shows "ml_dequeue now (pq_abs q) = map_prod id pq_abs (pq_dequeue now q) \<and> pq_ok (snd (pq_dequeue now q)) \<and>
    pq_sequence (snd (pq_dequeue now q)) = pq_sequence q"
proof (cases "pq_messages q")
  case Nil
  then have "pq_take q = (None, q)" using pq_take_spec [OF pq_okD(1) [OF ok]] by simp
  then show ?thesis using Nil ok by (simp add: pq_dequeue_take ml_dequeue_def pq_abs_def)
next
  case (Cons m ms)
  note D = pq_okD [OF ok]
  obtain q' where q': "pq_take q = (Some m, q')" "store_ok q'" "pq_messages q' = ms" "pq_config q' = pq_config q" "pq_sequence q' = pq_sequence q"
    "pq_stats q' = pq_stats q" "pq_total_queue_time_ns q' = pq_total_queue_time_ns q" "pq_priority_counts q' = pq_priority_counts q"
    "length (pq_fair_queues q') = length (pq_fair_queues q)"
    using pq_take_spec [OF D(1)] Cons by auto
  let ?r = "record_dequeue now m q'"
  have "pq_messages ?r = pq_messages q'" "store_ok ?r = store_ok q'" by (simp_all add: record_dequeue_def Let_def pq_messages_def store_ok_def)
  then have r: "pq_messages ?r = ms" "store_ok ?r = store_ok q'" "pq_len q' = length ms" using q'(3) pq_len_messages [OF q'(2)] by simp_all
  have "counts_ok (pq_priority_counts ?r) ms" using counts_ok_remove [of "pq_priority_counts q" m ms] D(4) Cons q' by (simp add: record_dequeue_def Let_def)
  then have "pq_ok ?r" using r q' D Cons limits_ok_Cons [of "pq_config q" m ms]
    by (simp add: pq_ok_def) (simp add: record_dequeue_def Let_def fresh_def)
  moreover have "ml_dequeue now (pq_abs q) = (Some m, pq_abs ?r)"
    using Cons r q' by (simp add: ml_dequeue_def pq_abs_def) (simp add: record_dequeue_def Let_def)
  moreover have "pq_sequence ?r = pq_sequence q" using q' by (simp add: record_dequeue_def Let_def)
  ultimately show ?thesis using q'(1) by (simp add: pq_dequeue_take)
qed

lemma peek_refines: "store_ok q \<Longrightarrow> pq_peek q = (case pq_messages q of [] \<Rightarrow> None | m # _ \<Rightarrow> Some m)"
proof (cases "qc_fair_scheduling (pq_config q)")
  case True
  then show ?thesis using dequeue_fair_concat [of "pq_fair_queues q"] by (simp add: pq_peek_def pq_messages_def)
next
  case False
  assume "store_ok q"
  then have "keys_distinct (pq_heap q)" using False by (simp add: store_ok_def)
  from hs.pop_first [OF this] show ?thesis using False by (cases "heap_max (pq_heap q)") (auto simp: pq_peek_def pq_messages_def heap_pop_def)
qed

section \<open>Removing old messages\<close>

lemma cleanup_fair_spec:
  "length qs = length cs \<Longrightarrow> cleanup_fair keep qs cs =
     (map (filter keep) qs, map2 (\<lambda>q c. c - (length q - length (filter keep q))) qs cs, length (concat qs) - length (filter keep (concat qs)))"
proof (induction keep qs cs rule: cleanup_fair.induct)
  case (1 keep q qs c cs)
  have "length (filter keep q) \<le> length q" "length (filter keep (concat qs)) \<le> length (concat qs)" by simp_all
  with 1 show ?case by (simp add: Let_def filter_concat)
qed auto

lemma prio_count_filter: "prio_count i ms - (prio_count i ms - prio_count i (filter P ms)) = prio_count i (filter P ms)"
proof -
  have "length (filter (\<lambda>m. Priority_as_u8 (qm_priority m) = i) (filter P ms)) \<le> length (filter (\<lambda>m. Priority_as_u8 (qm_priority m) = i) ms)"
    by (induction ms) auto
  then show ?thesis by (simp add: prio_count_def)
qed

lemma fair_prio_count:
  assumes "fair_inv qs" and "i < 4"
  shows "prio_count i (concat qs) = length (qs ! i)"
proof -
  have len: "length qs = 4" and pr: "\<And>j m. j < 4 \<Longrightarrow> m \<in> set (qs ! j) \<Longrightarrow> Priority_as_u8 (qm_priority m) = j"
    using assms(1) by (auto simp: fair_inv_def)
  have "filter (\<lambda>m. Priority_as_u8 (qm_priority m) = i) (qs ! j) = (if j = i then qs ! j else [])" if "j < 4" for j
    using pr [OF that] by (auto simp: filter_empty_conv filter_id_conv)
  moreover have "concat qs = concat (map ((!) qs) [0..<4])" using len map_nth [of qs] by simp
  ultimately have "prio_count i (concat qs) = length (concat (map (\<lambda>j. if j = i then qs ! j else []) [0..<4]))"
    by (simp add: prio_count_def filter_concat numeral_eq_Suc)
  also have "\<dots> = length (qs ! i)" using assms(2) by (auto simp: numeral_eq_Suc less_Suc_eq)
  finally show ?thesis .
qed

lemma fair_inv_filter: "fair_inv qs \<Longrightarrow> fair_inv (map (filter keep) qs)"
  by (simp add: fair_inv_def ordered_filter)

lemma cleanup_heap_spec:
  assumes "counts_ok cs (rev_heap @ old)"
  shows "\<exists>cs'. cleanup_heap expired old heap cs n =
      (rev (filter (\<lambda>m. qm_sequence m \<notin> set expired) old) @ heap, cs', n + length (filter (\<lambda>m. qm_sequence m \<in> set expired) old)) \<and>
    counts_ok cs' (rev_heap @ filter (\<lambda>m. qm_sequence m \<notin> set expired) old)"
  using assms
proof (induction old arbitrary: rev_heap heap cs n)
  case (Cons m old)
  show ?case
  proof (cases "qm_sequence m \<in> set expired")
    case True
    have "counts_ok cs (m # rev_heap @ old)" using Cons.prems by (simp add: counts_ok_def prio_count_def)
    from counts_ok_remove [OF this] show ?thesis using Cons.IH [of _ rev_heap heap "n + 1"] True by (simp add: Let_def)
  next
    case False
    have "counts_ok cs ((rev_heap @ [m]) @ old)" using Cons.prems by simp
    from Cons.IH [OF this, of "heap_push m heap" n] show ?thesis using False by (simp add: heap_push_def)
  qed
qed simp

lemma empty_ok [simp]: "limits_ok c []" "counts_ok (replicate 4 0) []" "fresh n []"
  by (simp_all add: limits_ok_def counts_ok_def prio_count_def fresh_def)

lemma limits_ok_filter: "limits_ok c ms \<Longrightarrow> limits_ok c (filter P ms)"
proof -
  assume l: "limits_ok c ms"
  have "prio_count i (filter P ms) \<le> prio_count i ms" for i unfolding prio_count_def by (induction ms) auto
  moreover have "length (filter P ms) \<le> length ms" by simp
  ultimately show ?thesis using l le_trans unfolding limits_ok_def by meson
qed

text \<open>The part of the clean-up before the statistics.\<close>

definition pq_sweep :: "nat \<Rightarrow> 'x PriorityQueue \<Rightarrow> nat \<times> 'x PriorityQueue" where
  "pq_sweep now q =
     (let max_age = qc_max_age_ms (pq_config q) * 1000000 in
      if qc_fair_scheduling (pq_config q)
      then (case cleanup_fair (\<lambda>m. queue_time now m < max_age) (pq_fair_queues q) (pq_priority_counts q) of
              (qs, cs, removed) \<Rightarrow> (removed, q\<lparr>pq_fair_queues := qs, pq_priority_counts := cs\<rparr>))
      else let expired = map qm_sequence (filter (\<lambda>m. queue_time now m \<ge> max_age) (pq_heap q)) in
        if expired = [] then (0, q)
        else (case cleanup_heap expired (pq_heap q) [] (pq_priority_counts q) 0 of
                (h, cs, removed) \<Rightarrow> (removed, q\<lparr>pq_heap := h, pq_priority_counts := cs\<rparr>)))"

lemma cleanup_sweep:
  "cleanup_expired_queue now q = (case pq_sweep now q of (removed, q1) \<Rightarrow> (removed, q1\<lparr>pq_stats := (pq_stats q1)\<lparr>qs_current_size := pq_len q1\<rparr>\<rparr>))"
  by (simp add: cleanup_expired_queue_def pq_sweep_def Let_def)

definition keeps :: "nat \<Rightarrow> 'x PriorityQueue \<Rightarrow> 'x QueuedMessage \<Rightarrow> bool" where
  "keeps now q m \<longleftrightarrow> queue_time now m < qc_max_age_ms (pq_config q) * 1000000"

lemma fair_sweep:
  assumes fair: "qc_fair_scheduling (pq_config q)" and q: "fair_inv (pq_fair_queues q)" and cs: "counts_ok (pq_priority_counts q) (concat (pq_fair_queues q))"
  shows "\<exists>cs. pq_sweep now q = (length (concat (pq_fair_queues q)) - length (filter (keeps now q) (concat (pq_fair_queues q))),
      q\<lparr>pq_fair_queues := map (filter (keeps now q)) (pq_fair_queues q), pq_priority_counts := cs\<rparr>) \<and>
    counts_ok cs (filter (keeps now q) (concat (pq_fair_queues q)))"
proof -
  let ?qs = "pq_fair_queues q" and ?cs = "pq_priority_counts q" and ?keep = "keeps now q"
  have len: "length ?qs = 4" "length ?cs = 4" using q cs by (simp_all add: fair_inv_def counts_ok_def)
  let ?cs' = "map2 (\<lambda>q c. c - (length q - length (filter ?keep q))) ?qs ?cs"
  have eta: "(\<lambda>m. queue_time now m < qc_max_age_ms (pq_config q) * 1000000) = ?keep" by (simp add: keeps_def fun_eq_iff)
  have "?cs' ! i = prio_count i (filter ?keep (concat ?qs))" if "i < 4" for i
  proof -
    have "prio_count i (filter ?keep (concat ?qs)) = length (filter ?keep (?qs ! i))"
      using fair_prio_count [OF fair_inv_filter [OF q] that] that len by (simp add: filter_concat)
    moreover have "?cs ! i = length (?qs ! i)" using fair_prio_count [OF q that] cs that by (simp add: counts_ok_def)
    moreover have "length (filter ?keep (?qs ! i)) \<le> length (?qs ! i)" by simp
    ultimately show ?thesis using that len by simp
  qed
  then have "counts_ok ?cs' (filter ?keep (concat ?qs))" using len by (simp add: counts_ok_def)
  moreover have "cleanup_fair ?keep ?qs ?cs = (map (filter ?keep) ?qs, ?cs', length (concat ?qs) - length (filter ?keep (concat ?qs)))"
    using len by (intro cleanup_fair_spec) simp
  ultimately show ?thesis using fair unfolding pq_sweep_def Let_def eta by auto
qed

lemma expired_keep:
  assumes "keys_distinct h" and "m \<in> set h"
  shows "qm_sequence m \<in> set (map qm_sequence (filter (\<lambda>m. \<not> P m) h)) \<longleftrightarrow> \<not> P m"
  using assms by (auto simp: keys_distinct_def distinct_map inj_on_def)

lemma counts_ok_drain: "keys_distinct h \<Longrightarrow> counts_ok cs (drain h) = counts_ok cs h"
proof -
  assume k: "keys_distinct h"
  have "distinct h" using k by (auto simp: keys_distinct_def distinct_map)
  moreover have "distinct (drain h)" "set (drain h) = set h" using drain_spec [OF k] by (simp_all add: ordered_distinct)
  ultimately show ?thesis by (simp add: counts_ok_def prio_count_card)
qed

lemma drain_filter:
  assumes k: "keys_distinct h" and h': "keys_distinct h'" "set h' = set (filter P h)"
  shows "drain h' = filter P (drain h)"
  using drain_spec [OF k] drain_spec [OF h'(1)] h'(2) by (intro ordered_unique) (simp_all add: ordered_filter)

lemma heap_sweep:
  assumes heap: "\<not> qc_fair_scheduling (pq_config q)" and k: "keys_distinct (pq_heap q)" and cs: "counts_ok (pq_priority_counts q) (drain (pq_heap q))"
  shows "\<exists>h cs. pq_sweep now q = (length (drain (pq_heap q)) - length (filter (keeps now q) (drain (pq_heap q))), q\<lparr>pq_heap := h, pq_priority_counts := cs\<rparr>) \<and>
    keys_distinct h \<and> drain h = filter (keeps now q) (drain (pq_heap q)) \<and> counts_ok cs (drain h)"
proof -
  let ?h = "pq_heap q" and ?keep = "keeps now q"
  let ?expired = "map qm_sequence (filter (\<lambda>m. \<not> ?keep m) ?h)"
  have eta: "(\<lambda>m. qc_max_age_ms (pq_config q) * 1000000 \<le> queue_time now m) = (\<lambda>m. \<not> ?keep m)" by (simp add: keeps_def fun_eq_iff not_less)
  have f: "filter (\<lambda>m. qm_sequence m \<notin> set ?expired) ?h = filter ?keep ?h" "filter (\<lambda>m. qm_sequence m \<in> set ?expired) ?h = filter (\<lambda>m. \<not> ?keep m) ?h"
    using expired_keep [OF k, of _ ?keep] by (auto intro!: filter_cong)
  have kd: "keys_distinct (rev (filter ?keep ?h))" using k by (auto simp: keys_distinct_def rev_map [symmetric] distinct_map_filter)
  have dr: "drain (rev (filter ?keep ?h)) = filter ?keep (drain ?h)" by (rule drain_filter [OF k kd]) simp
  have len: "length (drain ?h) - length (filter ?keep (drain ?h)) = length (filter (\<lambda>m. \<not> ?keep m) ?h)"
    using length_drain [OF k] length_drain [OF kd] dr sum_length_filter_compl [of ?keep ?h] by simp
  show ?thesis
  proof (cases "?expired = []")
    case True
    then have "filter (\<lambda>m. \<not> ?keep m) ?h = []" by simp
    then have "filter ?keep (drain ?h) = drain ?h" using drain_spec [OF k] by (auto simp: filter_empty_conv filter_id_conv)
    moreover have "pq_sweep now q = (0, q\<lparr>pq_heap := ?h, pq_priority_counts := pq_priority_counts q\<rparr>)"
      using heap True unfolding pq_sweep_def Let_def eta by simp
    ultimately show ?thesis using k cs by (intro exI [of _ ?h] exI [of _ "pq_priority_counts q"]) simp
  next
    case False
    have "counts_ok (pq_priority_counts q) ([] @ ?h)" using cs counts_ok_drain [OF k] by simp
    from cleanup_heap_spec [OF this, of ?expired "[]" 0] obtain cs' where
      c: "cleanup_heap ?expired ?h [] (pq_priority_counts q) 0 = (rev (filter ?keep ?h), cs', length (filter (\<lambda>m. \<not> ?keep m) ?h))" "counts_ok cs' (filter ?keep ?h)"
      unfolding f by auto
    have "counts_ok cs' (drain (rev (filter ?keep ?h)))" unfolding counts_ok_drain [OF kd] using c(2) by (simp add: counts_ok_def prio_count_def rev_filter [symmetric])
    then show ?thesis using heap False c(1) kd dr len unfolding pq_sweep_def Let_def eta
      by (intro exI [of _ "rev (filter ?keep ?h)"] exI [of _ cs']) simp
  qed
qed

lemma sweep_refines:
  assumes ok: "pq_ok q"
  shows "\<exists>q'. pq_sweep now q = (length (pq_messages q) - length (filter (keeps now q) (pq_messages q)), q') \<and> pq_ok q' \<and>
    pq_messages q' = filter (keeps now q) (pq_messages q) \<and> pq_config q' = pq_config q \<and> pq_sequence q' = pq_sequence q \<and> pq_stats q' = pq_stats q \<and>
    pq_total_queue_time_ns q' = pq_total_queue_time_ns q"
proof -
  note D = pq_okD [OF ok]
  note L = limits_ok_filter [OF D(5), of "keeps now q"]
  have F: "fresh (pq_sequence q) (filter (keeps now q) (pq_messages q))" using D(3) by (simp add: fresh_def)
  show ?thesis
  proof (cases "qc_fair_scheduling (pq_config q)")
    case True
    have q: "fair_inv (pq_fair_queues q)" "counts_ok (pq_priority_counts q) (concat (pq_fair_queues q))" using True D by (simp_all add: store_ok_def pq_messages_def)
    have msgs: "pq_messages q = concat (pq_fair_queues q)" using True by (simp add: pq_messages_def)
    let ?qs = "map (filter (keeps now q)) (pq_fair_queues q)"
    obtain cs where h: "pq_sweep now q = (length (pq_messages q) - length (filter (keeps now q) (pq_messages q)), q\<lparr>pq_fair_queues := ?qs, pq_priority_counts := cs\<rparr>)"
      "counts_ok cs (filter (keeps now q) (pq_messages q))"
      using fair_sweep [OF True q, of now] unfolding msgs by blast
    let ?q = "q\<lparr>pq_fair_queues := ?qs, pq_priority_counts := cs\<rparr>"
    have m: "pq_messages ?q = filter (keeps now q) (pq_messages q)" "store_ok ?q"
      using True fair_inv_filter [OF q(1)] by (simp_all add: pq_messages_def store_ok_def filter_concat)
    have "pq_ok ?q" unfolding pq_ok_def m(1) using m(2) D(2) L F h(2) by simp
    then show ?thesis using h(1) m(1) by (intro exI [of _ ?q] conjI) simp_all
  next
    case False
    have q: "keys_distinct (pq_heap q)" "counts_ok (pq_priority_counts q) (drain (pq_heap q))" using False D by (simp_all add: store_ok_def pq_messages_def)
    have msgs: "pq_messages q = drain (pq_heap q)" using False by (simp add: pq_messages_def)
    obtain h cs where h: "pq_sweep now q = (length (pq_messages q) - length (filter (keeps now q) (pq_messages q)), q\<lparr>pq_heap := h, pq_priority_counts := cs\<rparr>)"
      "keys_distinct h" "drain h = filter (keeps now q) (pq_messages q)" "counts_ok cs (drain h)"
      using heap_sweep [OF False q, of now] unfolding msgs by blast
    let ?q = "q\<lparr>pq_heap := h, pq_priority_counts := cs\<rparr>"
    have m: "pq_messages ?q = filter (keeps now q) (pq_messages q)" "store_ok ?q" using False h(2,3) by (simp_all add: pq_messages_def [of ?q] store_ok_def)
    have "pq_ok ?q" unfolding pq_ok_def m(1) using m(2) D(2) L F h(3,4) by simp
    then show ?thesis using h(1) m(1) by (intro exI [of _ ?q] conjI) simp_all
  qed
qed

lemma cleanup_refines:
  assumes ok: "pq_ok q"
  shows "ml_cleanup now (pq_abs q) = map_prod id pq_abs (cleanup_expired_queue now q) \<and> pq_ok (snd (cleanup_expired_queue now q)) \<and>
    pq_sequence (snd (cleanup_expired_queue now q)) = pq_sequence q"
proof -
  obtain q' where q': "pq_sweep now q = (length (pq_messages q) - length (filter (keeps now q) (pq_messages q)), q')" "pq_ok q'"
    "pq_messages q' = filter (keeps now q) (pq_messages q)" "pq_config q' = pq_config q" "pq_sequence q' = pq_sequence q" "pq_stats q' = pq_stats q"
    "pq_total_queue_time_ns q' = pq_total_queue_time_ns q"
    using sweep_refines [OF ok] by blast
  have "pq_len q' = length (filter (keeps now q) (pq_messages q))" using pq_len_messages [OF pq_okD(1) [OF q'(2)]] q'(3) by simp
  moreover have "(\<lambda>m. queue_time now m < qc_max_age_ms (pq_config q) * 1000000) = keeps now q" by (simp add: keeps_def fun_eq_iff)
  ultimately show ?thesis using q' unfolding cleanup_sweep by (simp add: ml_cleanup_def pq_abs_def Let_def)
qed

lemma clear_refines:
  assumes ok: "pq_ok q"
  shows "ml_clear (pq_abs q) = pq_abs (pq_clear q) \<and> pq_ok (pq_clear q) \<and> pq_sequence (pq_clear q) = pq_sequence q"
proof -
  have len: "length (pq_fair_queues q) = 4" by (rule pq_okD(2) [OF ok])
  have ms: "pq_messages (pq_clear q) = []" by (auto simp: pq_messages_def pq_clear_def)
  moreover have "store_ok (pq_clear q)" using len by (simp add: store_ok_def pq_clear_def fair_inv_def ordered_def keys_distinct_def)
  ultimately have "pq_ok (pq_clear q)" unfolding pq_ok_def using len by simp (simp add: pq_clear_def)
  then show ?thesis using ms by (simp add: ml_clear_def pq_abs_def) (simp add: pq_clear_def)
qed

section \<open>Sequences of calls\<close>

text \<open>A call with its reading of the clock, and its answer.\<close>

datatype 'x queue_call = QEnqueue nat "'x WireMessage" | QEnqueueWith nat "'x WireMessage" Priority | QEnqueueTo nat "'x WireMessage" "u8 list"
  | QEnqueueToWith nat "'x WireMessage" Priority "u8 list" | QDequeue nat | QPeek | QLen | QCount Priority | QCleanup nat | QClear

datatype 'x queue_answer = QSequence "WireError + nat" | QMessage "'x QueuedMessage option" | QNumber nat | QDone

fun queue_step :: "'x queue_call \<Rightarrow> 'x PriorityQueue \<Rightarrow> 'x queue_answer \<times> 'x PriorityQueue" where
  "queue_step (QEnqueue now m) q = map_prod QSequence id (pq_enqueue now m q)"
| "queue_step (QEnqueueWith now m p) q = map_prod QSequence id (enqueue_with_priority now m p q)"
| "queue_step (QEnqueueTo now m d) q = map_prod QSequence id (enqueue_to now m d q)"
| "queue_step (QEnqueueToWith now m p d) q = map_prod QSequence id (enqueue_to_with_priority now m p d q)"
| "queue_step (QDequeue now) q = map_prod QMessage id (pq_dequeue now q)"
| "queue_step QPeek q = (QMessage (pq_peek q), q)"
| "queue_step QLen q = (QNumber (pq_len q), q)"
| "queue_step (QCount p) q = (QNumber (count_by_priority p q), q)"
| "queue_step (QCleanup now) q = map_prod QNumber id (cleanup_expired_queue now q)"
| "queue_step QClear q = (QDone, pq_clear q)"

fun queue_run :: "'x queue_call list \<Rightarrow> 'x PriorityQueue \<Rightarrow> 'x queue_answer list \<times> 'x PriorityQueue" where
  "queue_run [] q = ([], q)"
| "queue_run (c # cs) q = (case queue_step c q of (a, q1) \<Rightarrow> case queue_run cs q1 of (as, q2) \<Rightarrow> (a # as, q2))"

text \<open>The same calls on the list of messages.\<close>

fun list_step :: "'x queue_call \<Rightarrow> 'x message_list \<Rightarrow> 'x queue_answer \<times> 'x message_list" where
  "list_step (QEnqueue now m) a = map_prod QSequence id (ml_enqueue (QueuedMessage_new now m (detect_priority m)) (detect_priority m) a)"
| "list_step (QEnqueueWith now m p) a = map_prod QSequence id (ml_enqueue (QueuedMessage_new now m p) p a)"
| "list_step (QEnqueueTo now m d) a = map_prod QSequence id (ml_enqueue (\<lambda>n. with_destination now m (detect_priority m) n d) (detect_priority m) a)"
| "list_step (QEnqueueToWith now m p d) a = map_prod QSequence id (ml_enqueue (\<lambda>n. with_destination now m p n d) p a)"
| "list_step (QDequeue now) a = map_prod QMessage id (ml_dequeue now a)"
| "list_step QPeek a = (QMessage (case ml_messages a of [] \<Rightarrow> None | m # _ \<Rightarrow> Some m), a)"
| "list_step QLen a = (QNumber (length (ml_messages a)), a)"
| "list_step (QCount p) a = (QNumber (length (filter (\<lambda>m. qm_priority m = p) (ml_messages a))), a)"
| "list_step (QCleanup now) a = map_prod QNumber id (ml_cleanup now a)"
| "list_step QClear a = (QDone, ml_clear a)"

fun list_run :: "'x queue_call list \<Rightarrow> 'x message_list \<Rightarrow> 'x queue_answer list \<times> 'x message_list" where
  "list_run [] a = ([], a)"
| "list_run (c # cs) a = (case list_step c a of (r, a1) \<Rightarrow> case list_run cs a1 of (rs, a2) \<Rightarrow> (r # rs, a2))"

definition list_start :: "QueueConfig \<Rightarrow> 'x message_list" where
  "list_start c = \<lparr>ml_messages = [], ml_sequence = 0, ml_config = c\<lparr>qc_fair_scheduling := False\<rparr>, ml_stats = QueueStats_default, ml_total_time = 0\<rparr>"

lemma queued_fields [simp]:
  "qm_priority (QueuedMessage_new now m p n) = p" "qm_sequence (QueuedMessage_new now m p n) = n"
  "qm_priority (with_destination now m p n d) = p" "qm_sequence (with_destination now m p n d) = n"
  by (simp_all add: QueuedMessage_new_def with_destination_def)

lemma enqueue_sequence: "pq_sequence q + 1 < USIZE_MOD \<Longrightarrow> pq_sequence (snd (enqueue_queued mk p q)) \<le> pq_sequence q + 1"
  by (simp add: enqueue_queued_def Let_def no_wrap)

lemma enqueue_call:
  assumes ok: "pq_ok q" and n: "pq_sequence q + 1 < USIZE_MOD" and mk: "\<And>n. qm_priority (mk n) = p" "\<And>n. qm_sequence (mk n) = n"
  shows "map_prod f id (ml_enqueue mk p (pq_abs q)) = map_prod id pq_abs (map_prod f id (enqueue_queued mk p q)) \<and>
    pq_ok (snd (map_prod f id (enqueue_queued mk p q))) \<and> pq_sequence (snd (map_prod f id (enqueue_queued mk p q))) \<le> pq_sequence q + 1"
  using enqueue_refines [of q mk p, OF ok mk n] enqueue_sequence [OF n, of mk p] by (cases "enqueue_queued mk p q") simp

lemma step_refines_list:
  assumes ok: "pq_ok q" and n: "pq_sequence q + 1 < USIZE_MOD"
  shows "list_step c (pq_abs q) = map_prod id pq_abs (queue_step c q) \<and> pq_ok (snd (queue_step c q)) \<and> pq_sequence (snd (queue_step c q)) \<le> pq_sequence q + 1"
proof (cases c)
  case (QDequeue now)
  then show ?thesis using dequeue_refines [OF ok, of now] by (cases "pq_dequeue now q") simp
next
  case QPeek
  then show ?thesis using peek_refines [OF pq_okD(1) [OF ok]] ok by (simp add: pq_abs_def)
next
  case QLen
  then show ?thesis using pq_len_messages [OF pq_okD(1) [OF ok]] ok by (simp add: pq_abs_def)
next
  case (QCount p)
  then show ?thesis using counts_nth [OF pq_okD(4) [OF ok], of p] ok by (simp add: pq_abs_def count_by_priority_def prio_count_def Priority_inj)
next
  case (QCleanup now)
  then show ?thesis using cleanup_refines [OF ok, of now] by (cases "cleanup_expired_queue now q") simp
next
  case QClear
  then show ?thesis using clear_refines [OF ok] by simp
qed (hypsubst, unfold list_step.simps queue_step.simps pq_enqueue_def enqueue_with_priority_def enqueue_to_def enqueue_to_with_priority_def,
    rule enqueue_call [OF ok n], simp, simp)+

lemma run_refines_list:
  assumes "pq_ok q" and "pq_sequence q + length cs < USIZE_MOD"
  shows "list_run cs (pq_abs q) = map_prod id pq_abs (queue_run cs q) \<and> pq_ok (snd (queue_run cs q))"
  using assms
proof (induction cs arbitrary: q)
  case (Cons c cs)
  obtain a q1 where st: "queue_step c q = (a, q1)" by fastforce
  have s: "list_step c (pq_abs q) = (a, pq_abs q1)" "pq_ok q1" "pq_sequence q1 \<le> pq_sequence q + 1"
    using step_refines_list [OF Cons.prems(1), of c] Cons.prems(2) st by simp_all
  have "pq_sequence q1 + length cs < USIZE_MOD" using s(3) Cons.prems(2) by simp
  from Cons.IH [OF s(2) this] show ?case using st s(1) by (cases "queue_run cs q1") simp
qed simp

lemma start_ok: "pq_ok (PriorityQueue_with_config c) \<and> pq_abs (PriorityQueue_with_config c) = list_start c"
proof -
  let ?q = "PriorityQueue_with_config c"
  have ms: "pq_messages ?q = []" by (simp add: pq_messages_def PriorityQueue_with_config_def)
  have "store_ok ?q" by (simp add: store_ok_def PriorityQueue_with_config_def fair_inv_def ordered_def keys_distinct_def)
  then have "pq_ok ?q" unfolding pq_ok_def ms by (simp add: fresh_def PriorityQueue_with_config_def)
  then show ?thesis unfolding pq_abs_def ms by (simp add: list_start_def PriorityQueue_with_config_def)
qed

lemma start_run:
  assumes "length calls < USIZE_MOD"
  shows "map_prod id pq_abs (queue_run calls (PriorityQueue_with_config c)) = list_run calls (list_start c)"
    and "pq_ok (snd (queue_run calls (PriorityQueue_with_config c)))"
proof -
  have z: "pq_sequence (PriorityQueue_with_config c) + length calls < USIZE_MOD" using assms by (simp add: PriorityQueue_with_config_def)
  note r = run_refines_list [OF conjunct1 [OF start_ok] z]
  from conjunct1 [OF r] show "map_prod id pq_abs (queue_run calls (PriorityQueue_with_config c)) = list_run calls (list_start c)"
    unfolding conjunct2 [OF start_ok] by (rule sym)
  show "pq_ok (snd (queue_run calls (PriorityQueue_with_config c)))" by (rule conjunct2 [OF r])
qed

text \<open>
  C20. The message queue is a list in the order of urgency. Whatever calls are made, with the heap or with
  the four queues, a new queue answers as a list of messages in which a new message goes behind
  all messages that are at least as urgent, messages are taken from the front, and old messages are
  filtered out; limits are refused exactly when the list is too long or holds too many messages of the
  priority, and the counters are those of the list.
\<close>

theorem queue_refines_list:
  assumes "length calls < USIZE_MOD"
  shows "map_prod id pq_abs (queue_run calls (PriorityQueue_with_config c)) = list_run calls (list_start c)"
  by (rule start_run(1) [OF assms])

theorem queue_refines_list_witness:
  "map_prod id pq_abs (queue_run [QEnqueue 5 (WPing 1), QEnqueueWith 6 (WPing 2) PrioHigh, QDequeue 9] (PriorityQueue_with_config QueueConfig_embedded)) =
   list_run [QEnqueue 5 (WPing 1 :: unit WireMessage), QEnqueueWith 6 (WPing 2) PrioHigh, QDequeue 9] (list_start QueueConfig_embedded)"
  by (rule queue_refines_list) simp

text \<open>
  C36. The switch for fair scheduling changes nothing. A queue configured with it and one configured without
  give the same answers to every sequence of calls and keep the same counters: both serve the priorities strictly
  in their order.
\<close>

theorem fair_scheduling_unobservable:
  assumes "length calls < USIZE_MOD"
    and "queue_run calls (PriorityQueue_with_config (c\<lparr>qc_fair_scheduling := True\<rparr>)) = (answers, q)"
    and "queue_run calls (PriorityQueue_with_config (c\<lparr>qc_fair_scheduling := False\<rparr>)) = (answers', q')"
  shows "answers = answers' \<and> pq_stats q = pq_stats q'"
proof -
  have start: "list_start (c\<lparr>qc_fair_scheduling := b\<rparr>) = list_start c" for b by (simp add: list_start_def)
  have "list_run calls (list_start c) = map_prod id pq_abs (queue_run calls (PriorityQueue_with_config (c\<lparr>qc_fair_scheduling := b\<rparr>)))" for b
    using start_run(1) [OF assms(1), of "c\<lparr>qc_fair_scheduling := b\<rparr>"] unfolding start by (rule sym)
  from this [of True] this [of False] have "(answers, pq_abs q) = (answers', pq_abs q')" using assms(2,3) by simp
  then show ?thesis by (simp add: pq_abs_def)
qed

theorem fair_scheduling_unobservable_witness:
  "let calls = [QEnqueue 5 (WPing 1 :: unit WireMessage), QEnqueueWith 6 (WPing 2) PrioHigh, QEnqueueWith 7 (WPing 3) PrioHigh, QDequeue 9];
       run = (\<lambda>b. queue_run calls (PriorityQueue_with_config (QueueConfig_default\<lparr>qc_fair_scheduling := b\<rparr>)))
   in fst (run True) = fst (run False) \<and> pq_stats (snd (run True)) = pq_stats (snd (run False))"
proof -
  let ?calls = "[QEnqueue 5 (WPing 1 :: unit WireMessage), QEnqueueWith 6 (WPing 2) PrioHigh, QEnqueueWith 7 (WPing 3) PrioHigh, QDequeue 9]"
  let ?run = "\<lambda>b. queue_run ?calls (PriorityQueue_with_config (QueueConfig_default\<lparr>qc_fair_scheduling := b\<rparr>))"
  have "length ?calls < USIZE_MOD" by simp
  from fair_scheduling_unobservable [OF this prod.collapse [symmetric] prod.collapse [symmetric]] show ?thesis unfolding Let_def .
qed

lemma list_step_config: "ml_config (snd (list_step d a)) = ml_config a"
proof -
  have "ml_config (snd (ml_enqueue mk p a)) = ml_config a" for mk p by (simp add: ml_enqueue_def Let_def)
  moreover have "ml_config (snd (ml_dequeue now a)) = ml_config a" for now by (simp add: ml_dequeue_def Let_def split: list.split)
  ultimately show ?thesis by (cases d) (simp_all add: ml_cleanup_def ml_clear_def Let_def)
qed

lemma list_run_config: "ml_config (snd (list_run calls a)) = ml_config a"
proof (induction calls arbitrary: a)
  case (Cons d calls)
  obtain r a1 where st: "list_step d a = (r, a1)" by fastforce
  obtain rs a2 where run: "list_run calls a1 = (rs, a2)" by fastforce
  show ?case using Cons.IH [of a1] list_step_config [of d a] st run by simp
qed simp

text \<open>
  The limits of the queue hold. After any calls the queue holds at most its maximal number of messages, for each
  priority at most the limit of that priority, the count of the priority is the number of its messages, and
  the messages wait in the order of their priority and, within one, of their arrival.
\<close>

theorem queue_limits:
  assumes "length calls < USIZE_MOD" and "queue_run calls (PriorityQueue_with_config c) = (answers, q)"
  shows "pq_len q \<le> qc_max_size c \<and>
    (\<forall>p. count_by_priority p q = length (filter (\<lambda>m. qm_priority m = p) (pq_messages q)) \<and> count_by_priority p q \<le> qc_max_per_priority c ! Priority_as_u8 p) \<and>
    sorted_wrt (\<lambda>a b. qm_priority a < qm_priority b \<or> qm_priority a = qm_priority b \<and> qm_sequence a < qm_sequence b) (pq_messages q)"
proof -
  have run: "list_run calls (list_start c) = (answers, pq_abs q)" "pq_ok q"
    using start_run [OF assms(1), of c] assms(2) by simp_all
  have cfg: "(pq_config q)\<lparr>qc_fair_scheduling := False\<rparr> = c\<lparr>qc_fair_scheduling := False\<rparr>"
    using list_run_config [of calls "list_start c"] run(1) by (simp add: pq_abs_def list_start_def)
  then have c: "qc_max_size (pq_config q) = qc_max_size c" "qc_max_per_priority (pq_config q) = qc_max_per_priority c"
    by (metis QueueConfig.select_convs(1) QueueConfig.surjective QueueConfig.update_convs(4)) (metis cfg QueueConfig.select_convs(2) QueueConfig.surjective QueueConfig.update_convs(4))
  note D = pq_okD [OF run(2)]
  have cnt: "count_by_priority p q = prio_count (Priority_as_u8 p) (pq_messages q)" for p using counts_nth [OF D(4)] by (simp add: count_by_priority_def)
  have "count_by_priority p q = length (filter (\<lambda>m. qm_priority m = p) (pq_messages q)) \<and> count_by_priority p q \<le> qc_max_per_priority c ! Priority_as_u8 p" for p
    using D(5) c(2) by (auto simp: cnt limits_ok_def) (simp add: prio_count_def Priority_inj)
  moreover have "sorted_wrt (\<lambda>a b. qm_priority a < qm_priority b \<or> qm_priority a = qm_priority b \<and> qm_sequence a < qm_sequence b) (pq_messages q)"
    using store_ordered [OF D(1)] unfolding ordered_def by (rule sorted_wrt_mono_rel [rotated]) (auto simp: qm_less_def split: if_splits)
  moreover have "pq_len q \<le> qc_max_size c" using D(5) c(1) pq_len_messages [OF D(1)] by (simp add: limits_ok_def)
  ultimately show ?thesis by blast
qed

theorem queue_limits_witness:
  "let (answers, q) = queue_run [QEnqueue 5 (WPing 1 :: unit WireMessage), QEnqueueWith 6 (WPing 2) PrioHigh] (PriorityQueue_with_config QueueConfig_embedded)
   in pq_len q \<le> 100 \<and> count_by_priority PrioLow q \<le> 20"
proof -
  let ?calls = "[QEnqueue 5 (WPing 1 :: unit WireMessage), QEnqueueWith 6 (WPing 2) PrioHigh]"
  obtain a q where r: "queue_run ?calls (PriorityQueue_with_config QueueConfig_embedded) = (a, q)" by fastforce
  have "length ?calls < USIZE_MOD" by simp
  from queue_limits [OF this r] show ?thesis unfolding r by (auto simp: QueueConfig_embedded_def dest: spec [of _ PrioLow])
qed

end
