(* ===== verification/Wasm_Fs.thy ===== *)
theory Wasm_Fs
  imports Heapless "HOL-Library.AList" "HOL-Library.Sublist"
begin

unbundle bit_operations_syntax

text \<open>
  The sandboxed file system of the WebAssembly host (\<open>mielin-wasm/src/filesystem.rs\<close>): the
  resolution of guest paths, the permissions and quotas, and the operations on open files and on
  paths.

  A text is the list of its UTF-8 bytes. A \<open>PathBuf\<close> is the list of its components, which is
  what the comparison of paths in the standard library goes by; \<open>components\<close> is the parsing
  of a path on Unix. The file system of the host machine is a parameter, the record \<open>host\<close>: its
  calls take and return the state of the machine, of a type of their own. The name of a directory
  entry is the text that \<open>to_string_lossy\<close> gives for it.
\<close>

section \<open>Paths\<close>

datatype Component = Prefix "u8 list" | RootDir | CurDir | ParentDir | NormalName "u8 list"

type_synonym PathBuf = "Component list"

text \<open>Empty pieces and the pieces \<open>.\<close> after the first are skipped; a path cannot have a prefix on Unix.\<close>

definition piece :: "u8 list \<Rightarrow> Component list" where
  "piece s = (if s = [] \<or> s = ascii ''.'' then [] else if s = ascii ''..'' then [ParentDir] else [NormalName s])"

definition components :: "u8 list \<Rightarrow> Component list" where
  "components path =
     (let pieces = split_on 0x2f path in
      (if path = [] then [] else if hd path = 0x2f then [RootDir] else if hd pieces = ascii ''.'' then [CurDir] else [])
        @ concat (map piece pieces))"

text \<open>\<open>push\<close> replaces the path when the argument is absolute.\<close>

definition path_push :: "PathBuf \<Rightarrow> u8 list \<Rightarrow> PathBuf" where
  "path_push p name =
     (let cs = components name in
      if cs \<noteq> [] \<and> hd cs = RootDir then cs else if p = [] then cs else p @ filter (\<lambda>c. c \<noteq> CurDir) cs)"

definition path_starts_with :: "PathBuf \<Rightarrow> PathBuf \<Rightarrow> bool" where
  "path_starts_with p q = prefix q p"

definition path_parent :: "PathBuf \<Rightarrow> PathBuf option" where
  "path_parent p = (if p = [] then None else case last p of RootDir \<Rightarrow> None | Prefix _ \<Rightarrow> None | _ \<Rightarrow> Some (butlast p))"

section \<open>The host machine\<close>

datatype ErrorKind = IoNotFound | IoPermissionDenied | IoAlreadyExists | IoInvalidInput | IoDirectoryNotEmpty | IoOther | IoUncategorized

record OpenOptions =
  oo_read :: bool
  oo_write :: bool
  oo_create :: bool
  oo_truncate :: bool
  oo_append :: bool
  oo_create_new :: bool

datatype SeekFrom = SeekStart nat | SeekCurrent int | SeekEnd int

record Metadata =
  md_is_file :: bool
  md_is_dir :: bool
  md_is_symlink :: bool
  md_len :: nat
  md_created :: "nat option"
  md_modified :: "nat option"
  md_accessed :: "nat option"
  md_readonly :: bool

type_synonym 'a io = "ErrorKind + 'a"
type_synonym host_entry = "(u8 list \<times> Metadata io) io"

record ('h, 'w) host =
  host_open :: "PathBuf \<Rightarrow> OpenOptions \<Rightarrow> 'w \<Rightarrow> 'h io \<times> 'w"
  host_create_dir_all :: "PathBuf \<Rightarrow> 'w \<Rightarrow> unit io \<times> 'w"
  host_remove_file :: "PathBuf \<Rightarrow> 'w \<Rightarrow> unit io \<times> 'w"
  host_remove_dir :: "PathBuf \<Rightarrow> 'w \<Rightarrow> unit io \<times> 'w"
  host_rename :: "PathBuf \<Rightarrow> PathBuf \<Rightarrow> 'w \<Rightarrow> unit io \<times> 'w"
  host_metadata :: "PathBuf \<Rightarrow> 'w \<Rightarrow> Metadata io"
  host_read_dir :: "PathBuf \<Rightarrow> 'w \<Rightarrow> host_entry list io"
  host_is_dir :: "PathBuf \<Rightarrow> 'w \<Rightarrow> bool"
  host_exists :: "PathBuf \<Rightarrow> 'w \<Rightarrow> bool"
  host_read :: "'h \<Rightarrow> nat \<Rightarrow> 'w \<Rightarrow> u8 list io \<times> 'w"
  host_write :: "'h \<Rightarrow> u8 list \<Rightarrow> 'w \<Rightarrow> nat io \<times> 'w"
  host_seek :: "'h \<Rightarrow> SeekFrom \<Rightarrow> 'w \<Rightarrow> nat io \<times> 'w"
  host_flush :: "'h \<Rightarrow> 'w \<Rightarrow> unit io \<times> 'w"
  host_file_metadata :: "'h \<Rightarrow> 'w \<Rightarrow> Metadata io"

section \<open>Types of the sandbox\<close>

datatype FsError = FsSuccess | FsPermissionDenied | FsNotFound | FsInvalidPath | FsAlreadyExists | FsNotADirectory
  | FsNotAFile | FsDirectoryNotEmpty | FsIoError | FsInvalidFd | FsFileTooLarge | FsBufferTooSmall | FsReadOnly
  | FsInvalidArgument | FsTooManyOpenFiles

fun FsError_from :: "ErrorKind \<Rightarrow> FsError" where
  "FsError_from IoNotFound = FsNotFound"
| "FsError_from IoPermissionDenied = FsPermissionDenied"
| "FsError_from IoAlreadyExists = FsAlreadyExists"
| "FsError_from IoInvalidInput = FsInvalidArgument"
| "FsError_from _ = FsIoError"

definition map_err :: "('e \<Rightarrow> 'f) \<Rightarrow> 'e + 'a \<Rightarrow> 'f + 'a" where
  "map_err f r = map_sum f id r"

type_synonym OpenFlags = u32

definition has_read :: "OpenFlags \<Rightarrow> bool" where "has_read flags = (flags AND 1 \<noteq> 0)"
definition has_write :: "OpenFlags \<Rightarrow> bool" where "has_write flags = (flags AND 2 \<noteq> 0)"
definition has_create :: "OpenFlags \<Rightarrow> bool" where "has_create flags = (flags AND 4 \<noteq> 0)"
definition has_truncate :: "OpenFlags \<Rightarrow> bool" where "has_truncate flags = (flags AND 8 \<noteq> 0)"
definition has_append :: "OpenFlags \<Rightarrow> bool" where "has_append flags = (flags AND 16 \<noteq> 0)"
definition has_exclusive :: "OpenFlags \<Rightarrow> bool" where "has_exclusive flags = (flags AND 32 \<noteq> 0)"

datatype SeekOrigin = OriginStart | OriginCurrent | OriginEnd

definition SeekOrigin_from_u32 :: "u32 \<Rightarrow> SeekOrigin option" where
  "SeekOrigin_from_u32 v = (if v = 0 then Some OriginStart else if v = 1 then Some OriginCurrent else if v = 2 then Some OriginEnd else None)"

datatype FileType = TypeFile | TypeDirectory | TypeSymlink | TypeUnknown

record FileStat =
  st_size :: nat
  st_file_type :: FileType
  st_created :: nat
  st_modified :: nat
  st_accessed :: nat
  st_readonly :: bool

record DirEntry =
  de_name :: "u8 list"
  de_file_type :: FileType
  de_size :: nat

record FsPermissions =
  can_read :: bool
  can_write :: bool
  can_create :: bool
  can_delete :: bool
  can_list :: bool
  max_file_size :: nat
  max_total_size :: nat
  allowed_patterns :: "u8 list list"

definition FsPermissions_default :: FsPermissions where
  "FsPermissions_default = \<lparr>can_read = True, can_write = True, can_create = True, can_delete = True, can_list = True,
     max_file_size = 104857600, max_total_size = 1073741824, allowed_patterns = []\<rparr>"

definition FsPermissions_read_only :: FsPermissions where
  "FsPermissions_read_only = \<lparr>can_read = True, can_write = False, can_create = False, can_delete = False, can_list = True,
     max_file_size = 0, max_total_size = 0, allowed_patterns = []\<rparr>"

definition FsPermissions_list_only :: FsPermissions where
  "FsPermissions_list_only = \<lparr>can_read = False, can_write = False, can_create = False, can_delete = False, can_list = True,
     max_file_size = 0, max_total_size = 0, allowed_patterns = []\<rparr>"

record FsConfig =
  fc_root :: PathBuf
  fc_max_open_files :: nat
  fc_max_path_length :: nat
  fc_permissions :: FsPermissions

definition FsConfig_default :: FsConfig where
  "FsConfig_default = \<lparr>fc_root = components (ascii ''/tmp/mielin-sandbox''), fc_max_open_files = 64, fc_max_path_length = 4096,
     fc_permissions = FsPermissions_default\<rparr>"

definition FsConfig_with_root :: "PathBuf \<Rightarrow> FsConfig" where
  "FsConfig_with_root root = FsConfig_default\<lparr>fc_root := root\<rparr>"

definition with_permissions :: "FsPermissions \<Rightarrow> FsConfig \<Rightarrow> FsConfig" where
  "with_permissions permissions c = c\<lparr>fc_permissions := permissions\<rparr>"

record 'h OpenFile =
  of_file :: 'h
  of_path :: PathBuf
  of_flags :: OpenFlags
  of_position :: nat

record 'h FilesystemState =
  fs_config :: FsConfig
  fs_open_files :: "(nat \<times> 'h OpenFile) list"
  fs_next_fd :: nat
  fs_total_written :: nat

definition FilesystemState_new :: "FsConfig \<Rightarrow> 'h FilesystemState" where
  "FilesystemState_new config = \<lparr>fs_config = config, fs_open_files = [], fs_next_fd = 3, fs_total_written = 0\<rparr>"

section \<open>Resolution of guest paths\<close>

text \<open>The loop over the components of the guest's path.\<close>

fun resolve_loop :: "Component list \<Rightarrow> PathBuf \<Rightarrow> FsError + PathBuf" where
  "resolve_loop [] resolved = Ok resolved"
| "resolve_loop (NormalName name # cs) resolved =
     (if 0 \<in> set name \<or> name = ascii ''.'' \<or> name = ascii ''..'' then Err FsInvalidPath
      else resolve_loop cs (path_push resolved name))"
| "resolve_loop (CurDir # cs) resolved = resolve_loop cs resolved"
| "resolve_loop (ParentDir # cs) resolved = Err FsInvalidPath"
| "resolve_loop (RootDir # cs) resolved = resolve_loop cs resolved"
| "resolve_loop (Prefix _ # cs) resolved = Err FsInvalidPath"

definition resolve_path :: "FsConfig \<Rightarrow> u8 list \<Rightarrow> FsError + PathBuf" where
  "resolve_path config path =
     (if length path > fc_max_path_length config then Err FsInvalidPath
      else res_bind (resolve_loop (components path) (fc_root config)) (\<lambda>resolved.
        if \<not> path_starts_with resolved (fc_root config) then Err FsInvalidPath else Ok resolved))"

section \<open>Operations on open files\<close>

definition open_options :: "OpenFlags \<Rightarrow> OpenOptions" where
  "open_options flags = \<lparr>oo_read = has_read flags, oo_write = has_write flags, oo_create = has_create flags,
     oo_truncate = has_truncate flags, oo_append = has_append flags, oo_create_new = has_exclusive flags\<rparr>"

text \<open>The parent directory is created before the file.\<close>

definition create_parent :: "('h, 'w) host \<Rightarrow> OpenFlags \<Rightarrow> PathBuf \<Rightarrow> 'w \<Rightarrow> unit io \<times> 'w" where
  "create_parent H flags resolved w =
     (if has_create flags
      then case path_parent resolved of Some parent \<Rightarrow> host_create_dir_all H parent w | None \<Rightarrow> (Ok (), w)
      else (Ok (), w))"

definition fs_open :: "('h, 'w) host \<Rightarrow> u8 list \<Rightarrow> OpenFlags \<Rightarrow> 'h FilesystemState \<Rightarrow> 'w \<Rightarrow> (FsError + nat) \<times> 'h FilesystemState \<times> 'w" where
  "fs_open H path flags s w =
     (let perm = fc_permissions (fs_config s) in
      if has_read flags \<and> \<not> can_read perm then (Err FsPermissionDenied, s, w)
      else if has_write flags \<and> \<not> can_write perm then (Err FsPermissionDenied, s, w)
      else if has_create flags \<and> \<not> can_create perm then (Err FsPermissionDenied, s, w)
      else if length (fs_open_files s) \<ge> fc_max_open_files (fs_config s) then (Err FsTooManyOpenFiles, s, w)
      else case resolve_path (fs_config s) path of
        Inl e \<Rightarrow> (Err e, s, w)
      | Inr resolved \<Rightarrow>
          (case create_parent H flags resolved w of
             (Inl e, w1) \<Rightarrow> (Err (FsError_from e), s, w1)
           | (Inr _, w1) \<Rightarrow>
               (case host_open H resolved (open_options flags) w1 of
                  (Inl e, w2) \<Rightarrow> (Err (FsError_from e), s, w2)
                | (Inr file, w2) \<Rightarrow>
                    let fd = fs_next_fd s;
                        f = \<lparr>of_file = file, of_path = resolved, of_flags = flags, of_position = 0\<rparr>
                    in (Ok fd, s\<lparr>fs_next_fd := u32_add fd 1, fs_open_files := AList.update fd f (fs_open_files s)\<rparr>, w2))))"

definition fs_close :: "nat \<Rightarrow> 'h FilesystemState \<Rightarrow> (FsError + unit) \<times> 'h FilesystemState" where
  "fs_close fd s =
     (case map_of (fs_open_files s) fd of
        None \<Rightarrow> (Err FsInvalidFd, s)
      | Some _ \<Rightarrow> (Ok (), s\<lparr>fs_open_files := AList.delete fd (fs_open_files s)\<rparr>))"

definition put_file :: "nat \<Rightarrow> 'h OpenFile \<Rightarrow> 'h FilesystemState \<Rightarrow> 'h FilesystemState" where
  "put_file fd f s = s\<lparr>fs_open_files := AList.update fd f (fs_open_files s)\<rparr>"

text \<open>The buffer of the guest is given by its length and returned as the bytes written to it.\<close>

definition fs_read :: "('h, 'w) host \<Rightarrow> nat \<Rightarrow> nat \<Rightarrow> 'h FilesystemState \<Rightarrow> 'w \<Rightarrow> (FsError + u8 list) \<times> 'h FilesystemState \<times> 'w" where
  "fs_read H fd len s w =
     (case map_of (fs_open_files s) fd of
        None \<Rightarrow> (Err FsInvalidFd, s, w)
      | Some f \<Rightarrow>
          if \<not> has_read (of_flags f) then (Err FsPermissionDenied, s, w)
          else case host_read H (of_file f) len w of
            (Inl e, w1) \<Rightarrow> (Err (FsError_from e), s, w1)
          | (Inr bs, w1) \<Rightarrow> (Ok bs, put_file fd (f\<lparr>of_position := usize_add (of_position f) (length bs)\<rparr>) s, w1))"

text \<open>The two tests before the write: the size of the file, and the bytes written in total.\<close>

definition write_limits :: "nat \<Rightarrow> u8 list \<Rightarrow> 'h FilesystemState \<Rightarrow> FsError + unit" where
  "write_limits fd data s =
     (let perm = fc_permissions (fs_config s) in
      res_bind
        (if max_file_size perm > 0
         then res_bind (ok_or FsInvalidFd (map_of (fs_open_files s) fd)) (\<lambda>f.
                if usize_add (of_position f) (length data) > max_file_size perm then Err FsFileTooLarge else Ok ())
         else Ok ())
        (\<lambda>_. if max_total_size perm > 0 \<and> usize_add (fs_total_written s) (length data) > max_total_size perm
             then Err FsFileTooLarge else Ok ()))"

definition fs_write :: "('h, 'w) host \<Rightarrow> nat \<Rightarrow> u8 list \<Rightarrow> 'h FilesystemState \<Rightarrow> 'w \<Rightarrow> (FsError + nat) \<times> 'h FilesystemState \<times> 'w" where
  "fs_write H fd data s w =
     (case write_limits fd data s of
        Inl e \<Rightarrow> (Err e, s, w)
      | Inr _ \<Rightarrow>
          (case map_of (fs_open_files s) fd of
             None \<Rightarrow> (Err FsInvalidFd, s, w)
           | Some f \<Rightarrow>
               if \<not> has_write (of_flags f) then (Err FsPermissionDenied, s, w)
               else case host_write H (of_file f) data w of
                 (Inl e, w1) \<Rightarrow> (Err (FsError_from e), s, w1)
               | (Inr n, w1) \<Rightarrow>
                   (Ok n, (put_file fd (f\<lparr>of_position := usize_add (of_position f) n\<rparr>) s)\<lparr>fs_total_written := usize_add (fs_total_written s) n\<rparr>, w1)))"

definition seek_from :: "int \<Rightarrow> SeekOrigin \<Rightarrow> SeekFrom" where
  "seek_from offset origin =
     (case origin of OriginStart \<Rightarrow> SeekStart (nat (offset mod 2 ^ 64)) | OriginCurrent \<Rightarrow> SeekCurrent offset | OriginEnd \<Rightarrow> SeekEnd offset)"

definition fs_seek :: "('h, 'w) host \<Rightarrow> nat \<Rightarrow> int \<Rightarrow> SeekOrigin \<Rightarrow> 'h FilesystemState \<Rightarrow> 'w \<Rightarrow> (FsError + nat) \<times> 'h FilesystemState \<times> 'w" where
  "fs_seek H fd offset origin s w =
     (case map_of (fs_open_files s) fd of
        None \<Rightarrow> (Err FsInvalidFd, s, w)
      | Some f \<Rightarrow>
          (case host_seek H (of_file f) (seek_from offset origin) w of
             (Inl e, w1) \<Rightarrow> (Err (FsError_from e), s, w1)
           | (Inr new_pos, w1) \<Rightarrow> (Ok new_pos, put_file fd (f\<lparr>of_position := new_pos\<rparr>) s, w1)))"

definition fs_file_size :: "('h, 'w) host \<Rightarrow> nat \<Rightarrow> 'h FilesystemState \<Rightarrow> 'w \<Rightarrow> FsError + nat" where
  "fs_file_size H fd s w =
     res_bind (ok_or FsInvalidFd (map_of (fs_open_files s) fd)) (\<lambda>f.
       res_bind (map_err FsError_from (host_file_metadata H (of_file f) w)) (\<lambda>md. Ok (md_len md)))"

definition fs_flush :: "('h, 'w) host \<Rightarrow> nat \<Rightarrow> 'h FilesystemState \<Rightarrow> 'w \<Rightarrow> (FsError + unit) \<times> 'w" where
  "fs_flush H fd s w =
     (case map_of (fs_open_files s) fd of
        None \<Rightarrow> (Err FsInvalidFd, w)
      | Some f \<Rightarrow> map_prod (map_err FsError_from) id (host_flush H (of_file f) w))"

section \<open>Operations on paths\<close>

definition stat_type :: "Metadata \<Rightarrow> FileType" where
  "stat_type md = (if md_is_file md then TypeFile else if md_is_dir md then TypeDirectory else if md_is_symlink md then TypeSymlink else TypeUnknown)"

definition unwrap_or :: "'a \<Rightarrow> 'a option \<Rightarrow> 'a" where
  "unwrap_or d x = (case x of None \<Rightarrow> d | Some y \<Rightarrow> y)"

definition fs_stat :: "('h, 'w) host \<Rightarrow> u8 list \<Rightarrow> 'h FilesystemState \<Rightarrow> 'w \<Rightarrow> FsError + FileStat" where
  "fs_stat H path s w =
     (if \<not> can_read (fc_permissions (fs_config s)) then Err FsPermissionDenied
      else res_bind (resolve_path (fs_config s) path) (\<lambda>resolved.
        res_bind (map_err FsError_from (host_metadata H resolved w)) (\<lambda>md.
          Ok \<lparr>st_size = md_len md, st_file_type = stat_type md, st_created = unwrap_or 0 (md_created md),
             st_modified = unwrap_or 0 (md_modified md), st_accessed = unwrap_or 0 (md_accessed md), st_readonly = md_readonly md\<rparr>)))"

fun read_dir_loop :: "host_entry list \<Rightarrow> FsError + DirEntry list" where
  "read_dir_loop [] = Ok []"
| "read_dir_loop (e # es) =
     res_bind (map_err FsError_from e) (\<lambda>(name, meta).
       res_bind (map_err FsError_from meta) (\<lambda>md.
         res_bind (read_dir_loop es) (\<lambda>rest.
           Ok (\<lparr>de_name = name, de_file_type = (if md_is_file md then TypeFile else if md_is_dir md then TypeDirectory else TypeUnknown), de_size = md_len md\<rparr> # rest))))"

definition fs_read_dir :: "('h, 'w) host \<Rightarrow> u8 list \<Rightarrow> 'h FilesystemState \<Rightarrow> 'w \<Rightarrow> FsError + DirEntry list" where
  "fs_read_dir H path s w =
     (if \<not> can_list (fc_permissions (fs_config s)) then Err FsPermissionDenied
      else res_bind (resolve_path (fs_config s) path) (\<lambda>resolved.
        if \<not> host_is_dir H resolved w then Err FsNotADirectory
        else res_bind (map_err FsError_from (host_read_dir H resolved w)) read_dir_loop))"

definition fs_create_dir :: "('h, 'w) host \<Rightarrow> u8 list \<Rightarrow> 'h FilesystemState \<Rightarrow> 'w \<Rightarrow> (FsError + unit) \<times> 'w" where
  "fs_create_dir H path s w =
     (if \<not> can_create (fc_permissions (fs_config s)) then (Err FsPermissionDenied, w)
      else case resolve_path (fs_config s) path of
        Inl e \<Rightarrow> (Err e, w)
      | Inr resolved \<Rightarrow> map_prod (map_err FsError_from) id (host_create_dir_all H resolved w))"

definition fs_remove_file :: "('h, 'w) host \<Rightarrow> u8 list \<Rightarrow> 'h FilesystemState \<Rightarrow> 'w \<Rightarrow> (FsError + unit) \<times> 'w" where
  "fs_remove_file H path s w =
     (if \<not> can_delete (fc_permissions (fs_config s)) then (Err FsPermissionDenied, w)
      else case resolve_path (fs_config s) path of
        Inl e \<Rightarrow> (Err e, w)
      | Inr resolved \<Rightarrow>
          if host_is_dir H resolved w then (Err FsNotAFile, w)
          else map_prod (map_err FsError_from) id (host_remove_file H resolved w))"

definition fs_remove_dir :: "('h, 'w) host \<Rightarrow> u8 list \<Rightarrow> 'h FilesystemState \<Rightarrow> 'w \<Rightarrow> (FsError + unit) \<times> 'w" where
  "fs_remove_dir H path s w =
     (if \<not> can_delete (fc_permissions (fs_config s)) then (Err FsPermissionDenied, w)
      else case resolve_path (fs_config s) path of
        Inl e \<Rightarrow> (Err e, w)
      | Inr resolved \<Rightarrow>
          if \<not> host_is_dir H resolved w then (Err FsNotADirectory, w)
          else map_prod (map_err (\<lambda>e. if e = IoOther then FsDirectoryNotEmpty else FsError_from e)) id (host_remove_dir H resolved w))"

definition fs_exists :: "('h, 'w) host \<Rightarrow> u8 list \<Rightarrow> 'h FilesystemState \<Rightarrow> 'w \<Rightarrow> FsError + bool" where
  "fs_exists H path s w = res_bind (resolve_path (fs_config s) path) (\<lambda>resolved. Ok (host_exists H resolved w))"

definition fs_rename :: "('h, 'w) host \<Rightarrow> u8 list \<Rightarrow> u8 list \<Rightarrow> 'h FilesystemState \<Rightarrow> 'w \<Rightarrow> (FsError + unit) \<times> 'w" where
  "fs_rename H src dst s w =
     (if \<not> can_write (fc_permissions (fs_config s)) then (Err FsPermissionDenied, w)
      else case resolve_path (fs_config s) src of
        Inl e \<Rightarrow> (Err e, w)
      | Inr from_resolved \<Rightarrow>
          (case resolve_path (fs_config s) dst of
             Inl e \<Rightarrow> (Err e, w)
           | Inr to_resolved \<Rightarrow> map_prod (map_err FsError_from) id (host_rename H from_resolved to_resolved w)))"

end
