(* ===== verification/Wasm_Fs_Correct.thy ===== *)
theory Wasm_Fs_Correct
  imports Wasm_Fs
begin

text \<open>
  The sandboxed file system: what a guest path resolves to, and the lemmas on the isolation of the
  guest from the rest of the machine in both directions, on quotas and on permissions.
\<close>

section \<open>Guest paths\<close>

lemma split_on_ne [simp]: "split_on c xs \<noteq> []"
  by (induction xs) (auto split: list.splits)

lemma split_on_sep: "s \<in> set (split_on c xs) \<Longrightarrow> c \<notin> set s"
  by (induction xs arbitrary: s) (auto split: list.splits if_splits)

lemma split_on_none: "c \<notin> set xs \<Longrightarrow> split_on c xs = [xs]"
  by (induction xs) auto

text \<open>The names in a guest path.\<close>

definition guest_names :: "u8 list \<Rightarrow> u8 list list" where
  "guest_names path = filter (\<lambda>s. s \<noteq> [] \<and> s \<noteq> ascii ''.'') (split_on 0x2f path)"

definition name_valid :: "u8 list \<Rightarrow> bool" where
  "name_valid s \<longleftrightarrow> s \<noteq> ascii ''..'' \<and> 0 \<notin> set s"

lemma components_name:
  assumes "s \<noteq> []" and "s \<noteq> ascii ''.''" and "s \<noteq> ascii ''..''" and "0x2f \<notin> set s"
  shows "components s = [NormalName s]"
proof -
  have "hd s \<noteq> 0x2f" using assms(1,4) by (cases s) auto
  then show ?thesis using assms by (simp add: components_def Let_def split_on_none piece_def)
qed

lemma path_push_name:
  "s \<noteq> [] \<Longrightarrow> s \<noteq> ascii ''.'' \<Longrightarrow> s \<noteq> ascii ''..'' \<Longrightarrow> 0x2f \<notin> set s \<Longrightarrow> path_push p s = p @ [NormalName s]"
  by (simp add: path_push_def components_name Let_def)

lemma resolve_loop_pieces:
  assumes "\<forall>s \<in> set ps. 0x2f \<notin> set s"
  shows "resolve_loop (concat (map piece ps)) p =
    (let ns = filter (\<lambda>s. s \<noteq> [] \<and> s \<noteq> ascii ''.'') ps in
     if \<forall>n \<in> set ns. name_valid n then Ok (p @ map NormalName ns) else Err FsInvalidPath)"
  using assms
proof (induction ps arbitrary: p)
  case (Cons s ps)
  then show ?case by (auto simp: piece_def name_valid_def path_push_name Let_def)
qed simp

lemma resolve_loop_components:
  "resolve_loop (components path) p =
    (if \<forall>n \<in> set (guest_names path). name_valid n then Ok (p @ map NormalName (guest_names path)) else Err FsInvalidPath)"
  using resolve_loop_pieces [of "split_on 0x2f path" p] split_on_sep [of _ "0x2f" path]
  by (auto simp: components_def guest_names_def Let_def)

text \<open>
  C31. What a guest path resolves to. A path is accepted exactly when it is short enough and none of
  its names is \<open>..\<close> or contains a NUL byte; it then resolves to the root of the sandbox followed by
  its names, whatever slashes and dots it was written with. Every other path is refused as invalid.
\<close>

theorem resolve_path_spec:
  "resolve_path c path =
    (if length path \<le> fc_max_path_length c \<and> (\<forall>n \<in> set (guest_names path). n \<noteq> ascii ''..'' \<and> 0 \<notin> set n)
     then Ok (fc_root c @ map NormalName (guest_names path)) else Err FsInvalidPath)"
  by (auto simp: resolve_path_def resolve_loop_components path_starts_with_def name_valid_def)

theorem resolve_path_spec_witness:
  "resolve_path FsConfig_default (ascii ''a/../../etc/passwd'') = Err FsInvalidPath \<and>
   resolve_path FsConfig_default (ascii ''//data/./x.txt'') = Ok (fc_root FsConfig_default @ [NormalName (ascii ''data''), NormalName (ascii ''x.txt'')])"
  by (simp add: resolve_path_spec guest_names_def FsConfig_default_def ascii_def)

lemma resolve_path_below: "resolve_path c path = Ok p \<Longrightarrow> prefix (fc_root c) p"
  by (auto simp: resolve_path_def res_bind_Ok_iff path_starts_with_def split: if_splits)

section \<open>Guest calls\<close>

datatype guest_call = GOpen "u8 list" OpenFlags | GClose nat | GRead nat nat | GWrite nat "u8 list" | GSeek nat int SeekOrigin
  | GFileSize nat | GFlush nat | GStat "u8 list" | GReadDir "u8 list" | GCreateDir "u8 list" | GRemoveFile "u8 list"
  | GRemoveDir "u8 list" | GExists "u8 list" | GRename "u8 list" "u8 list"

datatype guest_answer = AnsNat "FsError + nat" | AnsUnit "FsError + unit" | AnsBytes "FsError + u8 list"
  | AnsStat "FsError + FileStat" | AnsDir "FsError + DirEntry list" | AnsBool "FsError + bool"

fun guest_step :: "('h, 'w) host \<Rightarrow> guest_call \<Rightarrow> 'h FilesystemState \<Rightarrow> 'w \<Rightarrow> guest_answer \<times> 'h FilesystemState \<times> 'w" where
  "guest_step H (GOpen path flags) s w = map_prod AnsNat id (fs_open H path flags s w)"
| "guest_step H (GClose fd) s w = (case fs_close fd s of (r, s') \<Rightarrow> (AnsUnit r, s', w))"
| "guest_step H (GRead fd n) s w = map_prod AnsBytes id (fs_read H fd n s w)"
| "guest_step H (GWrite fd data) s w = map_prod AnsNat id (fs_write H fd data s w)"
| "guest_step H (GSeek fd offset origin) s w = map_prod AnsNat id (fs_seek H fd offset origin s w)"
| "guest_step H (GFileSize fd) s w = (AnsNat (fs_file_size H fd s w), s, w)"
| "guest_step H (GFlush fd) s w = (case fs_flush H fd s w of (r, w') \<Rightarrow> (AnsUnit r, s, w'))"
| "guest_step H (GStat path) s w = (AnsStat (fs_stat H path s w), s, w)"
| "guest_step H (GReadDir path) s w = (AnsDir (fs_read_dir H path s w), s, w)"
| "guest_step H (GCreateDir path) s w = (case fs_create_dir H path s w of (r, w') \<Rightarrow> (AnsUnit r, s, w'))"
| "guest_step H (GRemoveFile path) s w = (case fs_remove_file H path s w of (r, w') \<Rightarrow> (AnsUnit r, s, w'))"
| "guest_step H (GRemoveDir path) s w = (case fs_remove_dir H path s w of (r, w') \<Rightarrow> (AnsUnit r, s, w'))"
| "guest_step H (GExists path) s w = (AnsBool (fs_exists H path s w), s, w)"
| "guest_step H (GRename src dst) s w = (case fs_rename H src dst s w of (r, w') \<Rightarrow> (AnsUnit r, s, w'))"

fun guest_run :: "('h, 'w) host \<Rightarrow> guest_call list \<Rightarrow> 'h FilesystemState \<Rightarrow> 'w \<Rightarrow> guest_answer list \<times> 'h FilesystemState \<times> 'w" where
  "guest_run H [] s w = ([], s, w)"
| "guest_run H (c # cs) s w =
     (case guest_step H c s w of (a, s1, w1) \<Rightarrow> (case guest_run H cs s1 w1 of (as, s2, w2) \<Rightarrow> (a # as, s2, w2)))"

section \<open>Isolation\<close>

text \<open>
  The machine is seen as the part \<open>ins\<close> at and below the root of the sandbox and the rest \<open>out\<close>. A
  call is isolated when its result and its effect depend only on the inner part and it leaves the
  outer part alone; \<open>ok\<close> says of the outer part that the directories above the root exist.
\<close>

definition isolated :: "('w \<Rightarrow> 'i) \<Rightarrow> ('w \<Rightarrow> 'o) \<Rightarrow> ('o \<Rightarrow> bool) \<Rightarrow> ('w \<Rightarrow> 'r \<times> 'w) \<Rightarrow> bool" where
  "isolated ins out ok f \<longleftrightarrow>
     (\<forall>w w'. ok (out w) \<and> ok (out w') \<and> ins w = ins w' \<longrightarrow>
        fst (f w) = fst (f w') \<and> ins (snd (f w)) = ins (snd (f w')) \<and> out (snd (f w)) = out w)"

text \<open>
  What the sandbox relies on: a call of the operating system with a path at or below the root
  concerns only what is there, that is no symbolic link leads out; a file stands for the path it was
  opened with; creating a directory that exists does nothing.
\<close>

definition host_isolates :: "('h, 'w) host \<Rightarrow> PathBuf \<Rightarrow> ('h \<Rightarrow> PathBuf) \<Rightarrow> ('w \<Rightarrow> 'i) \<Rightarrow> ('w \<Rightarrow> 'o) \<Rightarrow> ('o \<Rightarrow> bool) \<Rightarrow> bool" where
  "host_isolates H root file_path ins out ok \<longleftrightarrow>
     (\<forall>p. prefix root p \<longrightarrow>
        (\<forall>opts. isolated ins out ok (host_open H p opts)) \<and> isolated ins out ok (host_create_dir_all H p) \<and>
        isolated ins out ok (host_remove_file H p) \<and> isolated ins out ok (host_remove_dir H p) \<and>
        isolated ins out ok (\<lambda>w. (host_metadata H p w, w)) \<and> isolated ins out ok (\<lambda>w. (host_read_dir H p w, w)) \<and>
        isolated ins out ok (\<lambda>w. (host_is_dir H p w, w)) \<and> isolated ins out ok (\<lambda>w. (host_exists H p w, w)) \<and>
        (\<forall>q. prefix root q \<longrightarrow> isolated ins out ok (host_rename H p q))) \<and>
     (\<forall>h. prefix root (file_path h) \<longrightarrow>
        (\<forall>n. isolated ins out ok (host_read H h n)) \<and> (\<forall>bs. isolated ins out ok (host_write H h bs)) \<and>
        (\<forall>t. isolated ins out ok (host_seek H h t)) \<and> isolated ins out ok (host_flush H h) \<and>
        isolated ins out ok (\<lambda>w. (host_file_metadata H h w, w))) \<and>
     (\<forall>p opts w h w'. host_open H p opts w = (Ok h, w') \<longrightarrow> file_path h = p) \<and>
     (\<forall>p w. strict_prefix p root \<and> ok (out w) \<longrightarrow> host_create_dir_all H p w = (Ok (), w))"

lemma isolatedE:
  assumes "isolated ins out ok f" and "ok (out w)" and "ok (out w')" and "ins w = ins w'"
  obtains r w1 w1' where "f w = (r, w1)" "f w' = (r, w1')" "ins w1 = ins w1'" "out w1 = out w" "out w1' = out w'"
proof -
  have "fst (f w) = fst (f w') \<and> ins (snd (f w)) = ins (snd (f w')) \<and> out (snd (f w)) = out w"
    and "out (snd (f w')) = out w'"
    using assms(1) [unfolded isolated_def, THEN spec [of _ w], THEN spec [of _ w']]
      assms(1) [unfolded isolated_def, THEN spec [of _ w'], THEN spec [of _ w]] assms(2-4) by auto
  then show thesis using that [of "fst (f w)" "snd (f w)" "snd (f w')"] by (simp add: prod_eq_iff)
qed

text \<open>Two runs of a guest on machines that agree inside the sandbox.\<close>

definition files_below :: "PathBuf \<Rightarrow> ('h \<Rightarrow> PathBuf) \<Rightarrow> 'h FilesystemState \<Rightarrow> bool" where
  "files_below root file_path s \<longleftrightarrow> fc_root (fs_config s) = root \<and> (\<forall>(fd, f) \<in> set (fs_open_files s). prefix root (file_path (of_file f)))"

lemma files_belowD: "files_below root fp s \<Longrightarrow> map_of (fs_open_files s) fd = Some f \<Longrightarrow> prefix root (fp (of_file f))"
  by (force simp: files_below_def dest: map_of_SomeD)

lemma set_update: "set (AList.update k v xs) \<subseteq> insert (k, v) (set xs)"
  by (induction xs) auto

lemma files_below_update:
  "files_below root fp s \<Longrightarrow> prefix root (fp (of_file f)) \<Longrightarrow> files_below root fp (s\<lparr>fs_open_files := AList.update fd f (fs_open_files s)\<rparr>)"
  using set_update [of fd f "fs_open_files s"] by (fastforce simp: files_below_def)

lemma files_below_put: "files_below root fp s \<Longrightarrow> prefix root (fp (of_file f)) \<Longrightarrow> files_below root fp (put_file fd f s)"
  by (simp add: put_file_def files_below_update)

lemma files_below_simps [simp]:
  "files_below root fp (s\<lparr>fs_next_fd := n\<rparr>) = files_below root fp s"
  "files_below root fp (s\<lparr>fs_total_written := n\<rparr>) = files_below root fp s"
  "files_below root fp (s\<lparr>fs_next_fd := n, fs_open_files := fs\<rparr>) = files_below root fp (s\<lparr>fs_open_files := fs\<rparr>)"
  by (simp_all add: files_below_def)

definition agree :: "('w \<Rightarrow> 'i) \<Rightarrow> ('w \<Rightarrow> 'o) \<Rightarrow> PathBuf \<Rightarrow> ('h \<Rightarrow> PathBuf) \<Rightarrow> 'w \<Rightarrow> 'w \<Rightarrow>
    'r \<times> 'h FilesystemState \<times> 'w \<Rightarrow> 'r \<times> 'h FilesystemState \<times> 'w \<Rightarrow> bool" where
  "agree ins out root fp w w' x y \<longleftrightarrow>
     fst x = fst y \<and> fst (snd x) = fst (snd y) \<and> files_below root fp (fst (snd x)) \<and>
     ins (snd (snd x)) = ins (snd (snd y)) \<and> out (snd (snd x)) = out w \<and> out (snd (snd y)) = out w'"

lemma agree_same [simp]:
  "agree ins out root fp w w' (r, s, v) (r', s', v') \<longleftrightarrow>
     r = r' \<and> s = s' \<and> files_below root fp s \<and> ins v = ins v' \<and> out v = out w \<and> out v' = out w'"
  by (simp add: agree_def)


definition twins :: "('h, 'w) host \<Rightarrow> PathBuf \<Rightarrow> ('h \<Rightarrow> PathBuf) \<Rightarrow> ('w \<Rightarrow> 'i) \<Rightarrow> ('w \<Rightarrow> 'o) \<Rightarrow> ('o \<Rightarrow> bool) \<Rightarrow>
    'h FilesystemState \<Rightarrow> 'w \<Rightarrow> 'w \<Rightarrow> bool" where
  "twins H root fp ins out ok s w w' \<longleftrightarrow>
     host_isolates H root fp ins out ok \<and> files_below root fp s \<and> ok (out w) \<and> ok (out w') \<and> ins w = ins w'"

lemma twins_files: "twins H root fp ins out ok s w w' \<Longrightarrow> files_below root fp s"
  by (simp add: twins_def)

lemma twins_resolve: "twins H root fp ins out ok s w w' \<Longrightarrow> resolve_path (fs_config s) path = Ok p \<Longrightarrow> prefix root p"
  using resolve_path_below by (fastforce simp: twins_def files_below_def)

lemma twins_pathE:
  assumes "twins H root fp ins out ok s w w'" and "prefix root p" and "host_isolates H root fp ins out ok \<Longrightarrow> prefix root p \<Longrightarrow> isolated ins out ok f"
  obtains r w1 w1' where "f w = (r, w1)" "f w' = (r, w1')" "ins w1 = ins w1'" "out w1 = out w" "out w1' = out w'"
  using assms isolatedE [of ins out ok f w w' thesis] by (simp add: twins_def)

lemma host_isolates_open: "host_isolates H root fp ins out ok \<Longrightarrow> prefix root p \<Longrightarrow> isolated ins out ok (host_open H p opts)"
  and host_isolates_create: "host_isolates H root fp ins out ok \<Longrightarrow> prefix root p \<Longrightarrow> isolated ins out ok (host_create_dir_all H p)"
  and host_isolates_remove_file: "host_isolates H root fp ins out ok \<Longrightarrow> prefix root p \<Longrightarrow> isolated ins out ok (host_remove_file H p)"
  and host_isolates_remove_dir: "host_isolates H root fp ins out ok \<Longrightarrow> prefix root p \<Longrightarrow> isolated ins out ok (host_remove_dir H p)"
  and host_isolates_metadata: "host_isolates H root fp ins out ok \<Longrightarrow> prefix root p \<Longrightarrow> isolated ins out ok (\<lambda>w. (host_metadata H p w, w))"
  and host_isolates_read_dir: "host_isolates H root fp ins out ok \<Longrightarrow> prefix root p \<Longrightarrow> isolated ins out ok (\<lambda>w. (host_read_dir H p w, w))"
  and host_isolates_is_dir: "host_isolates H root fp ins out ok \<Longrightarrow> prefix root p \<Longrightarrow> isolated ins out ok (\<lambda>w. (host_is_dir H p w, w))"
  and host_isolates_exists: "host_isolates H root fp ins out ok \<Longrightarrow> prefix root p \<Longrightarrow> isolated ins out ok (\<lambda>w. (host_exists H p w, w))"
  and host_isolates_rename: "host_isolates H root fp ins out ok \<Longrightarrow> prefix root p \<Longrightarrow> prefix root q \<Longrightarrow> isolated ins out ok (host_rename H p q)"
  by (simp_all add: host_isolates_def)

lemma host_isolates_opened: "host_isolates H root fp ins out ok \<Longrightarrow> host_open H p opts w = (Ok h, w') \<Longrightarrow> fp h = p"
  unfolding host_isolates_def by blast

lemma host_isolates_file:
  assumes "host_isolates H root fp ins out ok" and "prefix root (fp h)"
  shows "isolated ins out ok (host_read H h n)" and "isolated ins out ok (host_write H h bs)" and "isolated ins out ok (host_seek H h t)"
    and "isolated ins out ok (host_flush H h)" and "isolated ins out ok (\<lambda>w. (host_file_metadata H h w, w))"
  using assms by (simp_all add: host_isolates_def)

lemma agree_create_parent:
  assumes T: "twins H root fp ins out ok s w w'" and p: "prefix root p"
  obtains r w1 w1' where "create_parent H flags p w = (r, w1)" "create_parent H flags p w' = (r, w1')" "twins H root fp ins out ok s w1 w1'"
    "out w1 = out w" "out w1' = out w'"
proof -
  note result = that
  have same: thesis if "create_parent H flags p w = (Ok (), w)" "create_parent H flags p w' = (Ok (), w')"
    using that T by (intro result [of "Ok ()" w w']) simp_all
  consider "\<not> has_create flags \<or> path_parent p = None" | q where "has_create flags" "path_parent p = Some q" "prefix root q"
    | q where "has_create flags" "path_parent p = Some q" "strict_prefix q root"
  proof (cases "has_create flags")
    case True
    show thesis
    proof (cases "path_parent p")
      case (Some q)
      then have "p \<noteq> []" "q = butlast p" by (auto simp: path_parent_def split: if_splits Component.splits)
      then have eq: "p = q @ [last p]" by simp
      then have "prefix root (q @ [last p])" using p by simp
      then have "prefix root q \<or> strict_prefix q root" using strict_prefixI' [of "q @ [last p]" q] by (auto simp: strict_prefix_def)
      then show thesis using True Some that by blast
    qed (use that in blast)
  qed (use that in blast)
  then show thesis
  proof cases
    case 1
    then show thesis by (intro same) (auto simp: create_parent_def)
  next
    case (2 q)
    then obtain r w1 w1' where "host_create_dir_all H q w = (r, w1)" "host_create_dir_all H q w' = (r, w1')" "ins w1 = ins w1'" "out w1 = out w" "out w1' = out w'"
      using twins_pathE [OF T _ host_isolates_create] by metis
    then show thesis using 2 T by (intro result [of r w1 w1']) (auto simp: create_parent_def twins_def)
  next
    case (3 q)
    then show thesis using T by (intro same) (auto simp: create_parent_def twins_def host_isolates_def)
  qed
qed


lemma agree_open:
  assumes T: "twins H root fp ins out ok s w w'"
  shows "agree ins out root fp w w' (fs_open H path flags s w) (fs_open H path flags s w')"
proof (cases "\<exists>p. resolve_path (fs_config s) path = Ok p")
  case True
  then obtain p where r: "resolve_path (fs_config s) path = Ok p" by blast
  then have p: "prefix root p" by (rule twins_resolve [OF T])
  obtain r1 w1 w1' where c: "create_parent H flags p w = (r1, w1)" "create_parent H flags p w' = (r1, w1')"
    "twins H root fp ins out ok s w1 w1'" "out w1 = out w" "out w1' = out w'"
    using agree_create_parent [OF T p] by metis
  obtain r2 w2 w2' where o: "host_open H p (open_options flags) w1 = (r2, w2)" "host_open H p (open_options flags) w1' = (r2, w2')"
    "ins w2 = ins w2'" "out w2 = out w1" "out w2' = out w1'"
    using twins_pathE [OF c(3) p host_isolates_open] by metis
  have "prefix root (fp h)" if "r2 = Ok h" for h
    using that o(1) host_isolates_opened [of H root fp ins out ok p "open_options flags" w1 h w2] c(3) p by (simp add: twins_def)
  then show ?thesis
    using c o r T files_below_update [of root fp s "\<lparr>of_file = projr r2, of_path = p, of_flags = flags, of_position = 0\<rparr>" "fs_next_fd s"]
    by (cases r1; cases r2) (auto simp: fs_open_def Let_def twins_def)
next
  case False
  then show ?thesis using T by (auto simp: fs_open_def Let_def twins_def split: sum.splits)
qed

lemma twins_fileE:
  assumes "twins H root fp ins out ok s w w'" and "map_of (fs_open_files s) fd = Some f"
    and "host_isolates H root fp ins out ok \<Longrightarrow> prefix root (fp (of_file f)) \<Longrightarrow> isolated ins out ok g"
  obtains r w1 w1' where "g w = (r, w1)" "g w' = (r, w1')" "ins w1 = ins w1'" "out w1 = out w" "out w1' = out w'"
    "prefix root (fp (of_file f))" "files_below root fp s" "ins w = ins w'"
  using assms files_belowD [of root fp s fd f] isolatedE [of ins out ok g w w' thesis] by (simp add: twins_def)

lemma agree_read:
  assumes T: "twins H root fp ins out ok s w w'"
  shows "agree ins out root fp w w' (fs_read H fd n s w) (fs_read H fd n s w')"
proof (cases "map_of (fs_open_files s) fd")
  case (Some f)
  show ?thesis
    by (rule twins_fileE [OF T Some host_isolates_file(1) [where n = n]], assumption, assumption)
       (auto simp: fs_read_def Some intro: files_below_put split: sum.splits)
qed (use T in \<open>simp add: fs_read_def twins_def\<close>)

lemma agree_write:
  assumes T: "twins H root fp ins out ok s w w'"
  shows "agree ins out root fp w w' (fs_write H fd data s w) (fs_write H fd data s w')"
proof (cases "map_of (fs_open_files s) fd")
  case (Some f)
  show ?thesis
    by (rule twins_fileE [OF T Some host_isolates_file(2) [where bs = data]], assumption, assumption)
       (auto simp: fs_write_def Some intro: files_below_put split: sum.splits)
qed (use T in \<open>auto simp: fs_write_def twins_def split: sum.splits\<close>)

lemma agree_seek:
  assumes T: "twins H root fp ins out ok s w w'"
  shows "agree ins out root fp w w' (fs_seek H fd offset origin s w) (fs_seek H fd offset origin s w')"
proof (cases "map_of (fs_open_files s) fd")
  case (Some f)
  show ?thesis
    by (rule twins_fileE [OF T Some host_isolates_file(3) [where t = "seek_from offset origin"]], assumption, assumption)
       (auto simp: fs_seek_def Some intro: files_below_put split: sum.splits)
qed (use T in \<open>simp add: fs_seek_def twins_def\<close>)

lemma agree_file_queries:
  assumes T: "twins H root fp ins out ok s w w'"
  shows "fs_file_size H fd s w = fs_file_size H fd s w'"
    and "fst (fs_flush H fd s w) = fst (fs_flush H fd s w') \<and> ins (snd (fs_flush H fd s w)) = ins (snd (fs_flush H fd s w')) \<and>
      out (snd (fs_flush H fd s w)) = out w \<and> out (snd (fs_flush H fd s w')) = out w'"
proof -
  show "fs_file_size H fd s w = fs_file_size H fd s w'"
  proof (cases "map_of (fs_open_files s) fd")
    case (Some f)
    show ?thesis
      by (rule twins_fileE [OF T Some host_isolates_file(5)], assumption, assumption) (simp add: fs_file_size_def Some)
  qed (simp add: fs_file_size_def)
  show "fst (fs_flush H fd s w) = fst (fs_flush H fd s w') \<and> ins (snd (fs_flush H fd s w)) = ins (snd (fs_flush H fd s w')) \<and>
      out (snd (fs_flush H fd s w)) = out w \<and> out (snd (fs_flush H fd s w')) = out w'"
  proof (cases "map_of (fs_open_files s) fd")
    case (Some f)
    show ?thesis
      by (rule twins_fileE [OF T Some host_isolates_file(4)], assumption, assumption) (simp add: fs_flush_def Some)
  qed (use T in \<open>simp add: fs_flush_def twins_def\<close>)
qed


lemma agree_path_queries:
  assumes T: "twins H root fp ins out ok s w w'"
  shows "fs_stat H path s w = fs_stat H path s w'" and "fs_read_dir H path s w = fs_read_dir H path s w'" and "fs_exists H path s w = fs_exists H path s w'"
proof -
  have "host_metadata H p w = host_metadata H p w'" and "host_read_dir H p w = host_read_dir H p w'" and "host_is_dir H p w = host_is_dir H p w'"
    and "host_exists H p w = host_exists H p w'" if "resolve_path (fs_config s) path = Ok p" for p
  proof -
    note p = twins_resolve [OF T that]
    show "host_metadata H p w = host_metadata H p w'" by (rule twins_pathE [OF T p host_isolates_metadata]) auto
    show "host_read_dir H p w = host_read_dir H p w'" by (rule twins_pathE [OF T p host_isolates_read_dir]) auto
    show "host_is_dir H p w = host_is_dir H p w'" by (rule twins_pathE [OF T p host_isolates_is_dir]) auto
    show "host_exists H p w = host_exists H p w'" by (rule twins_pathE [OF T p host_isolates_exists]) auto
  qed
  then show "fs_stat H path s w = fs_stat H path s w'" and "fs_read_dir H path s w = fs_read_dir H path s w'" and "fs_exists H path s w = fs_exists H path s w'"
    by (cases "resolve_path (fs_config s) path"; simp add: fs_stat_def fs_read_dir_def fs_exists_def)+
qed

text \<open>The four operations on paths that change the machine.\<close>

definition agree_world :: "('w \<Rightarrow> 'i) \<Rightarrow> ('w \<Rightarrow> 'o) \<Rightarrow> 'w \<Rightarrow> 'w \<Rightarrow> 'r \<times> 'w \<Rightarrow> 'r \<times> 'w \<Rightarrow> bool" where
  "agree_world ins out w w' x y \<longleftrightarrow> fst x = fst y \<and> ins (snd x) = ins (snd y) \<and> out (snd x) = out w \<and> out (snd y) = out w'"

lemma agree_world_pair [simp]: "agree_world ins out w w' (r, v) (r', v') \<longleftrightarrow> r = r' \<and> ins v = ins v' \<and> out v = out w \<and> out v' = out w'"
  by (simp add: agree_world_def)

lemma agree_world_call:
  assumes T: "twins H root fp ins out ok s w w'" and p: "prefix root p"
    and f: "host_isolates H root fp ins out ok \<Longrightarrow> prefix root p \<Longrightarrow> isolated ins out ok f"
  shows "agree_world ins out w w' (map_prod g id (f w)) (map_prod g id (f w'))"
  by (rule twins_pathE [OF T p f]) (simp_all add: agree_world_def)

lemma agree_path_calls:
  assumes T: "twins H root fp ins out ok s w w'"
  shows "agree_world ins out w w' (fs_create_dir H path s w) (fs_create_dir H path s w')"
    and "agree_world ins out w w' (fs_remove_file H path s w) (fs_remove_file H path s w')"
    and "agree_world ins out w w' (fs_remove_dir H path s w) (fs_remove_dir H path s w')"
    and "agree_world ins out w w' (fs_rename H path dst s w) (fs_rename H path dst s w')"
proof -
  have same: "ins w = ins w'" using T by (simp add: twins_def)
  have is_dir: "host_is_dir H p w = host_is_dir H p w'" if "prefix root p" for p
    by (rule twins_pathE [OF T that host_isolates_is_dir]) auto
  note calls = agree_world_call [OF T _ host_isolates_create] agree_world_call [OF T _ host_isolates_remove_file]
    agree_world_call [OF T _ host_isolates_remove_dir]
  show "agree_world ins out w w' (fs_create_dir H path s w) (fs_create_dir H path s w')"
    using same twins_resolve [OF T, of path] calls by (auto simp: fs_create_dir_def split: sum.splits)
  show "agree_world ins out w w' (fs_remove_file H path s w) (fs_remove_file H path s w')"
    using same twins_resolve [OF T, of path] calls is_dir by (auto simp: fs_remove_file_def split: sum.splits)
  show "agree_world ins out w w' (fs_remove_dir H path s w) (fs_remove_dir H path s w')"
    using same twins_resolve [OF T, of path] calls is_dir by (auto simp: fs_remove_dir_def split: sum.splits)
  have "agree_world ins out w w' (map_prod g id (host_rename H p q w)) (map_prod g id (host_rename H p q w'))" if "prefix root p" "prefix root q" for p q g
    by (rule agree_world_call [OF T that(1)]) (rule host_isolates_rename [OF _ that])
  then show "agree_world ins out w w' (fs_rename H path dst s w) (fs_rename H path dst s w')"
    using same twins_resolve [OF T, of path] twins_resolve [OF T, of dst] by (auto simp: fs_rename_def split: sum.splits)
qed

lemma agree_map: "agree ins out root fp w w' x y \<Longrightarrow> agree ins out root fp w w' (map_prod g id x) (map_prod g id y)"
  by (auto simp: agree_def)

lemma agree_lift:
  "agree_world ins out w w' x y \<Longrightarrow> files_below root fp s \<Longrightarrow>
   agree ins out root fp w w' (case x of (r, v) \<Rightarrow> (g r, s, v)) (case y of (r, v) \<Rightarrow> (g r, s, v))"
  by (cases x; cases y) simp

lemma agree_step:
  assumes T: "twins H root fp ins out ok s w w'"
  shows "agree ins out root fp w w' (guest_step H c s w) (guest_step H c s w')"
proof (cases c)
  case (GClose fd)
  have "set (AList.delete fd xs) \<subseteq> set xs" for xs :: "(nat \<times> 'a OpenFile) list" by (auto simp: AList.delete_eq)
  then show ?thesis using T GClose by (fastforce simp: twins_def files_below_def fs_close_def split: option.splits)
next
  case (GFlush fd)
  have "agree_world ins out w w' (fs_flush H fd s w) (fs_flush H fd s w')"
    using agree_file_queries(2) [OF T, of fd] by (simp add: agree_world_def)
  from agree_lift [OF this twins_files [OF T], of AnsUnit] show ?thesis using GFlush by simp
qed (use twins_files [OF T] agree_open [OF T] agree_read [OF T] agree_write [OF T] agree_seek [OF T] agree_file_queries(1) [OF T]
      agree_path_queries [OF T] agree_path_calls [OF T] T in \<open>auto intro: agree_map agree_lift simp: twins_def\<close>)

lemma agree_run:
  assumes "twins H root fp ins out ok s w w'"
  shows "agree ins out root fp w w' (guest_run H cs s w) (guest_run H cs s w')"
  using assms
proof (induction cs arbitrary: s w w')
  case Nil
  then show ?case by (simp add: twins_def)
next
  case (Cons c cs)
  obtain a s1 w1 w1' where st: "guest_step H c s w = (a, s1, w1)" "guest_step H c s w' = (a, s1, w1')" "files_below root fp s1" "ins w1 = ins w1'"
    "out w1 = out w" "out w1' = out w'"
    using agree_step [OF Cons.prems, of c] by (cases "guest_step H c s w"; cases "guest_step H c s w'") auto
  then have "twins H root fp ins out ok s1 w1 w1'" using Cons.prems by (simp add: twins_def)
  from Cons.IH [OF this] show ?case using st
    by (cases "guest_run H cs s1 w1"; cases "guest_run H cs s1 w1'") auto
qed

section \<open>Quotas and permissions\<close>

text \<open>The bytes that the writes of a guest report as written.\<close>

fun written :: "guest_call list \<Rightarrow> guest_answer list \<Rightarrow> nat" where
  "written (GWrite _ _ # cs) (AnsNat (Inr n) # as) = n + written cs as"
| "written (_ # cs) (_ # as) = written cs as"
| "written _ _ = 0"

fun write_size :: "guest_call \<Rightarrow> nat" where
  "write_size (GWrite _ bs) = length bs" | "write_size _ = 0"

definition writes_at_most :: "('h, 'w) host \<Rightarrow> bool" where
  "writes_at_most H \<longleftrightarrow> (\<forall>h bs w n w'. host_write H h bs w = (Ok n, w') \<longrightarrow> n \<le> length bs)"

lemma fs_write_total:
  assumes H: "writes_at_most H" and q: "0 < Q" "Q < 2 ^ 63" "max_total_size (fc_permissions (fs_config s)) = Q" "length bs < 2 ^ 63" and t: "fs_total_written s \<le> Q"
    and w: "fs_write H fd bs s w = (r, s', v)"
  shows "fs_config s' = fs_config s \<and> fs_total_written s' \<le> Q \<and> fs_total_written s' = fs_total_written s + (case r of Inr n \<Rightarrow> n | Inl _ \<Rightarrow> 0)"
proof (cases "\<exists>n. r = Ok n")
  case True
  then obtain n f where n: "r = Ok n" "write_limits fd bs s = Ok ()" "host_write H (of_file f) bs w = (Ok n, v)"
    and s': "s' = (put_file fd (f\<lparr>of_position := usize_add (of_position f) n\<rparr>) s)\<lparr>fs_total_written := usize_add (fs_total_written s) n\<rparr>"
    using w by (auto simp: fs_write_def split: sum.splits option.splits if_splits prod.splits)
  have exact: "usize_add (fs_total_written s) (length bs) = fs_total_written s + length bs" using q t by (simp add: no_wrap)
  have "usize_add (fs_total_written s) (length bs) \<le> Q"
    using n(2) q(1,3) by (auto simp: write_limits_def Let_def res_bind_Ok_iff split: if_splits)
  moreover have "n \<le> length bs" using H n(3) unfolding writes_at_most_def by blast
  ultimately have "fs_total_written s + n \<le> Q" using exact by simp
  then show ?thesis using n(1) s' q(2) by (simp add: put_file_def no_wrap)
next
  case False
  then show ?thesis using w t by (auto simp: fs_write_def split: sum.splits option.splits if_splits prod.splits)
qed

lemma guest_step_total:
  assumes "guest_step H c s w = (a, s', v)" and "\<forall>fd bs. c \<noteq> GWrite fd bs"
  shows "fs_config s' = fs_config s \<and> fs_total_written s' = fs_total_written s"
  using assms
  by (cases c)
     (auto simp: fs_open_def fs_close_def fs_read_def fs_seek_def put_file_def Let_def map_prod_def
       split: sum.splits option.splits if_splits prod.splits)

lemma guest_run_total:
  assumes "writes_at_most H" and "0 < Q" and "Q < 2 ^ 63" and "\<forall>c \<in> set calls. write_size c < 2 ^ 63"
    and "max_total_size (fc_permissions (fs_config s)) = Q" and "fs_total_written s \<le> Q" and "guest_run H calls s w = (answers, s', v)"
  shows "fs_total_written s' = fs_total_written s + written calls answers \<and> fs_total_written s' \<le> Q"
  using assms(4-)
proof (induction calls arbitrary: s w answers)
  case (Cons c cs)
  obtain a s1 w1 as where st: "guest_step H c s w = (a, s1, w1)" "guest_run H cs s1 w1 = (as, s', v)" "answers = a # as"
    using Cons.prems(4) by (auto split: prod.splits)
  have one: "fs_config s1 = fs_config s \<and> fs_total_written s1 \<le> Q \<and> fs_total_written s1 + written cs as = fs_total_written s + written (c # cs) (a # as)"
  proof (cases c)
    case (GWrite fd bs)
    then obtain r where "fs_write H fd bs s w = (r, s1, w1)" "a = AnsNat r" using st(1) by (cases "fs_write H fd bs s w") auto
    moreover from this have "fs_config s1 = fs_config s \<and> fs_total_written s1 \<le> Q \<and> fs_total_written s1 = fs_total_written s + (case r of Inr n \<Rightarrow> n | Inl _ \<Rightarrow> 0)"
      using Cons.prems(1) GWrite by (intro fs_write_total [OF assms(1-3) Cons.prems(2) _ Cons.prems(3)]) simp_all
    ultimately show ?thesis using GWrite by (cases r) simp_all
  qed (use guest_step_total [OF st(1)] Cons.prems(3) in auto)
  then show ?case using Cons.IH [OF _ _ _ st(2)] Cons.prems(1,2) st(3) by simp
qed simp

text \<open>What reading operations of the machine leave alone.\<close>

definition host_reads :: "('h, 'w) host \<Rightarrow> ('w \<Rightarrow> 'f) \<Rightarrow> bool" where
  "host_reads H files \<longleftrightarrow>
     (\<forall>h n w. files (snd (host_read H h n w)) = files w) \<and> (\<forall>h t w. files (snd (host_seek H h t w)) = files w) \<and>
     (\<forall>h w. files (snd (host_flush H h w)) = files w) \<and>
     (\<forall>p opts w. \<not> oo_write opts \<and> \<not> oo_create opts \<and> \<not> oo_create_new opts \<longrightarrow> files (snd (host_open H p opts w)) = files w)"

lemma host_readsD:
  assumes "host_reads H files"
  shows "host_read H h n w = (r, v) \<Longrightarrow> files v = files w" "host_seek H h t w = (r', v) \<Longrightarrow> files v = files w"
    "host_flush H h w = (r'', v) \<Longrightarrow> files v = files w"
    "host_open H p opts w = (r''', v) \<Longrightarrow> \<not> oo_write opts \<Longrightarrow> \<not> oo_create opts \<Longrightarrow> \<not> oo_create_new opts \<Longrightarrow> files v = files w"
  using assms unfolding host_reads_def by (metis snd_conv)+

definition reader :: "'h FilesystemState \<Rightarrow> bool" where
  "reader s \<longleftrightarrow> \<not> can_write (fc_permissions (fs_config s)) \<and> \<not> can_create (fc_permissions (fs_config s)) \<and> \<not> can_delete (fc_permissions (fs_config s)) \<and>
     (\<forall>e \<in> set (fs_open_files s). \<not> has_write (of_flags (snd e)))"

lemma reader_file: "reader s \<Longrightarrow> map_of (fs_open_files s) fd = Some f \<Longrightarrow> \<not> has_write (of_flags f)"
  by (force simp: reader_def dest: map_of_SomeD)

lemma reader_update: "reader s \<Longrightarrow> \<not> has_write (of_flags f) \<Longrightarrow> reader (s\<lparr>fs_open_files := AList.update fd f (fs_open_files s)\<rparr>)"
  using set_update [of fd f "fs_open_files s"] by (fastforce simp: reader_def)

lemma reader_simps [simp]:
  "reader (s\<lparr>fs_next_fd := n, fs_open_files := fs\<rparr>) = reader (s\<lparr>fs_open_files := fs\<rparr>)"
  by (simp add: reader_def)

fun exclusive_call :: "guest_call \<Rightarrow> bool" where
  "exclusive_call (GOpen _ flags) = has_exclusive flags" | "exclusive_call _ = False"

lemma reader_step:
  assumes H: "host_reads H files" and s: "reader s" and c: "\<not> exclusive_call c" and st: "guest_step H c s w = (a, s', v)"
  shows "reader s' \<and> files v = files w"
proof (cases c)
  case (GOpen path flags)
  show ?thesis
  proof (cases "has_write flags \<or> has_create flags")
    case True
    then have "fs_open H path flags s w = (Err FsPermissionDenied, s, w)" using s by (auto simp: fs_open_def reader_def Let_def)
    then show ?thesis using st s GOpen by simp
  next
    case False
    then have opts: "\<not> oo_write (open_options flags)" "\<not> oo_create (open_options flags)" "\<not> oo_create_new (open_options flags)" "\<not> has_write flags"
      using c GOpen by (simp_all add: open_options_def)
    show ?thesis using st s GOpen False opts host_readsD(4) [OF H _ opts(1-3)]
      by (auto simp: fs_open_def create_parent_def Let_def map_prod_def intro!: reader_update split: sum.splits if_splits prod.splits)
  qed
next
  case (GClose fd)
  have "set (AList.delete fd xs) \<subseteq> set xs" for xs :: "(nat \<times> 'a OpenFile) list" by (auto simp: AList.delete_eq)
  then show ?thesis using st s GClose by (fastforce simp: fs_close_def reader_def split: option.splits)
next
  case (GRead fd n)
  then show ?thesis using st s host_readsD(1) [OF H] reader_file [OF s]
    by (auto simp: fs_read_def map_prod_def put_file_def intro!: reader_update split: sum.splits option.splits if_splits prod.splits)
next
  case (GWrite fd bs)
  then show ?thesis using st s reader_file [OF s]
    by (auto simp: fs_write_def map_prod_def split: sum.splits option.splits if_splits prod.splits)
next
  case (GSeek fd off origin)
  then show ?thesis using st s host_readsD(2) [OF H] reader_file [OF s]
    by (auto simp: fs_seek_def map_prod_def put_file_def intro!: reader_update split: sum.splits option.splits if_splits prod.splits)
next
  case (GFlush fd)
  then show ?thesis using st s host_readsD(3) [OF H]
    by (auto simp: fs_flush_def map_prod_def split: option.splits prod.splits)
qed (use st s in \<open>auto simp: reader_def fs_create_dir_def fs_remove_file_def fs_remove_dir_def fs_rename_def\<close>)

end
