(* ===== verification/Wasm_Fs_Host.thy ===== *)
theory Wasm_Fs_Host
  imports Wasm_Fs_Correct
begin

text \<open>
  A machine the sandbox can run on: a tree of files and directories without links, with the offsets of
  the open files. It meets the conditions of the theorems on isolation, permissions and quotas, which
  are stated here with their instances on it, and shows two ways around permissions and limits.
\<close>

section \<open>A tree of files\<close>

datatype tree_node = NodeDir | NodeFile "u8 list"

type_synonym tree_file = "PathBuf \<times> nat \<times> bool"

record tree_world =
  tw_nodes :: "(PathBuf \<times> tree_node) list"
  tw_offsets :: "(tree_file \<times> nat) list"

definition node_at :: "PathBuf \<Rightarrow> tree_world \<Rightarrow> tree_node option" where
  "node_at p w = map_of (tw_nodes w) p"

definition put_node :: "PathBuf \<Rightarrow> tree_node \<Rightarrow> tree_world \<Rightarrow> tree_world" where
  "put_node p n w = w\<lparr>tw_nodes := (p, n) # filter (\<lambda>e. fst e \<noteq> p) (tw_nodes w)\<rparr>"

definition del_node :: "PathBuf \<Rightarrow> tree_world \<Rightarrow> tree_world" where
  "del_node p w = w\<lparr>tw_nodes := filter (\<lambda>e. fst e \<noteq> p) (tw_nodes w)\<rparr>"

definition put_offset :: "tree_file \<Rightarrow> nat \<Rightarrow> tree_world \<Rightarrow> tree_world" where
  "put_offset h n w = w\<lparr>tw_offsets := (h, n) # filter (\<lambda>e. fst e \<noteq> h) (tw_offsets w)\<rparr>"

definition offset_of :: "tree_file \<Rightarrow> tree_world \<Rightarrow> nat" where
  "offset_of h w = unwrap_or 0 (map_of (tw_offsets w) h)"

definition is_directory :: "PathBuf \<Rightarrow> tree_world \<Rightarrow> bool" where
  "is_directory p w \<longleftrightarrow> p = [] \<or> node_at p w = Some NodeDir"

definition occupied :: "PathBuf \<Rightarrow> tree_world \<Rightarrow> bool" where
  "occupied p w \<longleftrightarrow> (\<exists>e \<in> set (tw_nodes w). strict_prefix p (fst e))"

text \<open>The combinations of options that \<open>OpenOptions::open\<close> refuses.\<close>

definition bad_options :: "OpenOptions \<Rightarrow> bool" where
  "bad_options opts \<longleftrightarrow>
     \<not> oo_read opts \<and> \<not> oo_write opts \<and> \<not> oo_append opts \<or>
     \<not> oo_write opts \<and> \<not> oo_append opts \<and> (oo_truncate opts \<or> oo_create opts \<or> oo_create_new opts) \<or>
     oo_append opts \<and> oo_truncate opts \<and> \<not> oo_create_new opts"

definition new_file :: "PathBuf \<Rightarrow> OpenOptions \<Rightarrow> tree_world \<Rightarrow> tree_file io \<times> tree_world" where
  "new_file p opts w =
     (let h = (p, length (filter (\<lambda>e. fst (fst e) = p) (tw_offsets w)), oo_append opts) in (Ok h, put_offset h 0 w))"

definition tree_open :: "PathBuf \<Rightarrow> OpenOptions \<Rightarrow> tree_world \<Rightarrow> tree_file io \<times> tree_world" where
  "tree_open p opts w =
     (if bad_options opts then (Err IoInvalidInput, w)
      else case node_at p w of
        None \<Rightarrow> if (oo_create opts \<or> oo_create_new opts) \<and> is_directory (butlast p) w
                then new_file p opts (put_node p (NodeFile []) w) else (Err IoNotFound, w)
      | Some NodeDir \<Rightarrow> if oo_create_new opts then (Err IoAlreadyExists, w)
                         else if oo_write opts \<or> oo_append opts then (Err IoUncategorized, w) else new_file p opts w
      | Some (NodeFile bs) \<Rightarrow> if oo_create_new opts then (Err IoAlreadyExists, w)
                         else new_file p opts (if oo_truncate opts then put_node p (NodeFile []) w else w))"

definition make_dir :: "PathBuf \<Rightarrow> tree_world \<Rightarrow> unit io \<times> tree_world" where
  "make_dir p w =
     (if is_directory p w then (Ok (), w)
      else case node_at p w of None \<Rightarrow> (Ok (), put_node p NodeDir w) | Some _ \<Rightarrow> (Err IoAlreadyExists, w))"

fun make_dirs :: "PathBuf list \<Rightarrow> tree_world \<Rightarrow> unit io \<times> tree_world" where
  "make_dirs [] w = (Ok (), w)"
| "make_dirs (p # ps) w = (case make_dir p w of (Inl e, w1) \<Rightarrow> (Err e, w1) | (Inr _, w1) \<Rightarrow> make_dirs ps w1)"

definition tree_remove_file :: "PathBuf \<Rightarrow> tree_world \<Rightarrow> unit io \<times> tree_world" where
  "tree_remove_file p w =
     (case node_at p w of None \<Rightarrow> (Err IoNotFound, w) | Some NodeDir \<Rightarrow> (Err IoUncategorized, w) | Some (NodeFile _) \<Rightarrow> (Ok (), del_node p w))"

definition tree_remove_dir :: "PathBuf \<Rightarrow> tree_world \<Rightarrow> unit io \<times> tree_world" where
  "tree_remove_dir p w =
     (case node_at p w of None \<Rightarrow> (Err IoNotFound, w) | Some (NodeFile _) \<Rightarrow> (Err IoUncategorized, w)
      | Some NodeDir \<Rightarrow> if occupied p w then (Err IoDirectoryNotEmpty, w) else (Ok (), del_node p w))"

definition move_path :: "PathBuf \<Rightarrow> PathBuf \<Rightarrow> PathBuf \<Rightarrow> PathBuf" where
  "move_path p q r = (if prefix p r then q @ drop (length p) r else r)"

definition tree_rename :: "PathBuf \<Rightarrow> PathBuf \<Rightarrow> tree_world \<Rightarrow> unit io \<times> tree_world" where
  "tree_rename p q w =
     (case node_at p w of
        None \<Rightarrow> (Err IoNotFound, w)
      | Some n \<Rightarrow>
          if p = q then (Ok (), w)
          else if strict_prefix p q \<or> strict_prefix q p then (Err IoInvalidInput, w)
          else if \<not> is_directory (butlast q) w then (Err IoNotFound, w)
          else if (case node_at q w of None \<Rightarrow> False | Some NodeDir \<Rightarrow> n \<noteq> NodeDir \<or> occupied q w | Some (NodeFile _) \<Rightarrow> n = NodeDir)
          then (Err IoUncategorized, w)
          else (Ok (), w\<lparr>tw_nodes := map (map_prod (move_path p q) id) (tw_nodes (del_node q w))\<rparr>))"

definition node_metadata :: "tree_node \<Rightarrow> Metadata" where
  "node_metadata n = \<lparr>md_is_file = (n \<noteq> NodeDir), md_is_dir = (n = NodeDir), md_is_symlink = False,
     md_len = (case n of NodeFile bs \<Rightarrow> length bs | NodeDir \<Rightarrow> 0), md_created = None, md_modified = None, md_accessed = None, md_readonly = False\<rparr>"

definition tree_metadata :: "PathBuf \<Rightarrow> tree_world \<Rightarrow> Metadata io" where
  "tree_metadata p w = ok_or IoNotFound (map_option node_metadata (node_at p w))"

definition tree_entry :: "PathBuf \<Rightarrow> PathBuf \<times> tree_node \<Rightarrow> host_entry list" where
  "tree_entry p e = (if fst e \<noteq> [] \<and> butlast (fst e) = p then (case last (fst e) of NormalName name \<Rightarrow> [Ok (name, Ok (node_metadata (snd e)))] | _ \<Rightarrow> []) else [])"

definition tree_read_dir :: "PathBuf \<Rightarrow> tree_world \<Rightarrow> host_entry list io" where
  "tree_read_dir p w =
     (if node_at p w = Some NodeDir then Ok (concat (map (tree_entry p) (tw_nodes w))) else Err IoNotFound)"

definition tree_read :: "tree_file \<Rightarrow> nat \<Rightarrow> tree_world \<Rightarrow> u8 list io \<times> tree_world" where
  "tree_read h n w =
     (case node_at (fst h) w of
        Some (NodeFile bs) \<Rightarrow> let data = take n (drop (offset_of h w) bs) in (Ok data, put_offset h (offset_of h w + length data) w)
      | _ \<Rightarrow> (Err IoUncategorized, w))"

definition tree_write :: "tree_file \<Rightarrow> u8 list \<Rightarrow> tree_world \<Rightarrow> nat io \<times> tree_world" where
  "tree_write h data w =
     (case node_at (fst h) w of
        Some (NodeFile bs) \<Rightarrow>
          let off = (if snd (snd h) then length bs else offset_of h w);
              bs' = take off bs @ replicate (off - length bs) 0 @ data @ drop (off + length data) bs
          in (Ok (length data), put_offset h (off + length data) (put_node (fst h) (NodeFile bs') w))
      | _ \<Rightarrow> (Err IoUncategorized, w))"

definition tree_seek :: "tree_file \<Rightarrow> SeekFrom \<Rightarrow> tree_world \<Rightarrow> nat io \<times> tree_world" where
  "tree_seek h t w =
     (let len = (case node_at (fst h) w of Some (NodeFile bs) \<Rightarrow> length bs | _ \<Rightarrow> 0);
          target = (case t of SeekStart n \<Rightarrow> int n | SeekCurrent d \<Rightarrow> int (offset_of h w) + d | SeekEnd d \<Rightarrow> int len + d)
      in if target < 0 \<or> target \<ge> 2 ^ 63 then (Err IoInvalidInput, w) else (Ok (nat target), put_offset h (nat target) w))"

definition tree_host :: "(tree_file, tree_world) host" where
  "tree_host = \<lparr>host_open = tree_open, host_create_dir_all = (\<lambda>p. make_dirs (prefixes p)), host_remove_file = tree_remove_file,
     host_remove_dir = tree_remove_dir, host_rename = tree_rename, host_metadata = tree_metadata, host_read_dir = tree_read_dir,
     host_is_dir = is_directory, host_exists = (\<lambda>p w. node_at p w \<noteq> None), host_read = tree_read, host_write = tree_write,
     host_seek = tree_seek, host_flush = (\<lambda>h w. (Ok (), w)), host_file_metadata = (\<lambda>h. tree_metadata (fst h))\<rparr>"

section \<open>The tree isolates\<close>

text \<open>The inner part is kept with the directories above the root, so that it is a tree of its own.\<close>

definition above :: "PathBuf \<Rightarrow> (PathBuf \<times> tree_node) list" where
  "above root = map (\<lambda>p. (p, NodeDir)) (filter (\<lambda>p. p \<noteq> root) (prefixes root))"

definition tree_ins :: "PathBuf \<Rightarrow> tree_world \<Rightarrow> tree_world" where
  "tree_ins root w = \<lparr>tw_nodes = filter (\<lambda>e. prefix root (fst e)) (tw_nodes w) @ above root,
     tw_offsets = filter (\<lambda>e. prefix root (fst (fst e))) (tw_offsets w)\<rparr>"

definition tree_out :: "PathBuf \<Rightarrow> tree_world \<Rightarrow> tree_world" where
  "tree_out root w = \<lparr>tw_nodes = filter (\<lambda>e. \<not> prefix root (fst e)) (tw_nodes w), tw_offsets = filter (\<lambda>e. \<not> prefix root (fst (fst e))) (tw_offsets w)\<rparr>"

definition tree_ok :: "PathBuf \<Rightarrow> tree_world \<Rightarrow> bool" where
  "tree_ok root w \<longleftrightarrow> (\<forall>p \<in> set (prefixes root). p \<noteq> root \<longrightarrow> is_directory p w)"

lemma map_of_filter_key: "P k \<Longrightarrow> map_of (filter (\<lambda>e. P (fst e)) xs) k = map_of xs k"
  by (induction xs) auto

lemma map_of_filter_other: "\<not> P k \<Longrightarrow> map_of (filter (\<lambda>e. P (fst e)) xs) k = None"
  by (induction xs) auto

lemma in_above: "e \<in> set (above root) \<longleftrightarrow> strict_prefix (fst e) root \<and> snd e = NodeDir"
  by (cases e) (auto simp: above_def strict_prefix_def)

lemma above_below: "e \<in> set (above root) \<Longrightarrow> prefix root p \<Longrightarrow> \<not> prefix p (fst e)"
  unfolding in_above using prefix_order.less_le_trans prefix_order.less_irrefl prefix_order.le_less_trans by metis

lemma map_of_above: "map_of (above root) p = (if strict_prefix p root then Some NodeDir else None)"
proof -
  have "map_of (map (\<lambda>p. (p, NodeDir)) xs) p = (if p \<in> set xs then Some NodeDir else None)" for xs
    by (induction xs) auto
  then show ?thesis by (auto simp: above_def strict_prefix_def)
qed

lemma node_at_ins:
  "node_at p (tree_ins root w) = (if prefix root p then node_at p w else if strict_prefix p root then Some NodeDir else None)"
proof (cases "prefix root p")
  case True
  then have "\<not> strict_prefix p root" using prefix_order.less_le_not_le by blast
  with True show ?thesis
    by (simp add: node_at_def tree_ins_def map_of_filter_key [of "prefix root"] map_of_above map_add_def split: option.split)
next
  case False
  then show ?thesis
    by (simp add: node_at_def tree_ins_def map_of_filter_other [of "prefix root"] map_of_above map_add_def split: option.split)
qed

lemma node_at_out: "\<not> prefix root p \<Longrightarrow> node_at p (tree_out root w) = node_at p w"
  by (simp add: node_at_def tree_out_def map_of_filter_key [of "\<lambda>p. \<not> prefix root p"])

lemma node_at_below [simp]: "prefix root p \<Longrightarrow> node_at p (tree_ins root w) = node_at p w"
  by (simp add: node_at_ins)

lemma offset_ins [simp]: "prefix root (fst h) \<Longrightarrow> offset_of h (tree_ins root w) = offset_of h w"
  by (simp add: offset_of_def tree_ins_def map_of_filter_key [of "\<lambda>h. prefix root (fst h)"])

lemma filter_above [simp]: "prefix root p \<Longrightarrow> filter (\<lambda>e. fst e \<noteq> p) (above root) = above root"
  using above_below by (auto simp: filter_id_conv)

lemma ins_put [simp]:
  "prefix root p \<Longrightarrow> tree_ins root (put_node p n w) = put_node p n (tree_ins root w)"
  "prefix root p \<Longrightarrow> tree_ins root (del_node p w) = del_node p (tree_ins root w)"
  "prefix root (fst h) \<Longrightarrow> tree_ins root (put_offset h k w) = put_offset h k (tree_ins root w)"
  by (auto simp: tree_ins_def put_node_def del_node_def put_offset_def intro: filter_cong)

lemma out_put [simp]:
  "prefix root p \<Longrightarrow> tree_out root (put_node p n w) = tree_out root w"
  "prefix root p \<Longrightarrow> tree_out root (del_node p w) = tree_out root w"
  "prefix root (fst h) \<Longrightarrow> tree_out root (put_offset h k w) = tree_out root w"
  by (auto simp: tree_out_def put_node_def del_node_def put_offset_def intro!: filter_cong)

lemma parent_cases:
  assumes "prefix root p"
  shows "p = [] \<or> prefix root (butlast p) \<or> strict_prefix (butlast p) root"
proof (cases p rule: rev_cases)
  case (snoc q c)
  then show ?thesis using assms strict_prefixI' [of "q @ [c]" q] by (auto simp: strict_prefix_def)
qed simp

lemma is_directory_ins [simp]:
  assumes "tree_ok root (tree_out root w)" and "prefix root p \<or> strict_prefix p root"
  shows "is_directory p (tree_ins root w) = is_directory p w"
proof (cases "prefix root p")
  case False
  then have "strict_prefix p root" using assms(2) by blast
  then have "p \<in> set (prefixes root)" "p \<noteq> root" by (auto simp: strict_prefix_def)
  then have "is_directory p (tree_out root w)" using assms(1) by (simp add: tree_ok_def)
  then show ?thesis using False \<open>strict_prefix p root\<close> by (simp add: is_directory_def node_at_out node_at_ins)
qed (simp add: is_directory_def)

lemma is_directory_parent [simp]:
  "tree_ok root (tree_out root w) \<Longrightarrow> prefix root p \<Longrightarrow> is_directory (butlast p) (tree_ins root w) = is_directory (butlast p) w"
  using parent_cases [of root p] is_directory_ins [of root w "butlast p"] by (auto simp: is_directory_def [of "[]"])

lemma occupied_ins [simp]: "prefix root p \<Longrightarrow> occupied p (tree_ins root w) = occupied p w"
proof -
  assume p: "prefix root p"
  have "\<not> strict_prefix p (fst e)" if "e \<in> set (above root)" for e using above_below [OF that p] by (auto simp: strict_prefix_def)
  moreover have "prefix root r" if "strict_prefix p r" for r using p that by (auto simp: strict_prefix_def)
  ultimately show ?thesis by (auto simp: occupied_def tree_ins_def)
qed

definition commutes :: "PathBuf \<Rightarrow> (tree_world \<Rightarrow> 'r \<times> tree_world) \<Rightarrow> bool" where
  "commutes root f \<longleftrightarrow>
     (\<forall>w. tree_ok root (tree_out root w) \<longrightarrow> f (tree_ins root w) = map_prod id (tree_ins root) (f w) \<and> tree_out root (snd (f w)) = tree_out root w)"

lemma commutes_isolated:
  assumes "commutes root f"
  shows "isolated (tree_ins root) (tree_out root) (tree_ok root) f"
  unfolding isolated_def
proof (intro allI impI)
  fix w w'
  assume a: "tree_ok root (tree_out root w) \<and> tree_ok root (tree_out root w') \<and> tree_ins root w = tree_ins root w'"
  have "f (tree_ins root w) = map_prod id (tree_ins root) (f w)" "f (tree_ins root w') = map_prod id (tree_ins root) (f w')" "tree_out root (snd (f w)) = tree_out root w"
    using assms [unfolded commutes_def, rule_format, of w] assms [unfolded commutes_def, rule_format, of w'] a by blast+
  then have "map_prod id (tree_ins root) (f w) = map_prod id (tree_ins root) (f w')" using a by simp
  then show "fst (f w) = fst (f w') \<and> tree_ins root (snd (f w)) = tree_ins root (snd (f w')) \<and> tree_out root (snd (f w)) = tree_out root w"
    using \<open>tree_out root (snd (f w)) = tree_out root w\<close> by (cases "f w"; cases "f w'") auto
qed

lemma new_file_ins [simp]:
  "prefix root p \<Longrightarrow> new_file p opts (tree_ins root w) = map_prod id (tree_ins root) (new_file p opts w)"
  "prefix root p \<Longrightarrow> tree_out root (snd (new_file p opts w)) = tree_out root w"
proof -
  assume p: "prefix root p"
  have "filter (\<lambda>e. fst (fst e) = p) (tw_offsets (tree_ins root w)) = filter (\<lambda>e. fst (fst e) = p) (tw_offsets w)"
    using p by (auto simp: tree_ins_def intro: filter_cong)
  then show "new_file p opts (tree_ins root w) = map_prod id (tree_ins root) (new_file p opts w)"
    and "tree_out root (snd (new_file p opts w)) = tree_out root w"
    using p by (simp_all add: new_file_def Let_def)
qed

lemma commutes_open: "prefix root p \<Longrightarrow> commutes root (tree_open p opts)"
proof -
  assume p: "prefix root p"
  have "new_file p opts (put_node p n (tree_ins root w)) = map_prod id (tree_ins root) (new_file p opts (put_node p n w))" for n w
    using p new_file_ins(1) [of root p opts "put_node p n w"] by simp
  then show ?thesis using p by (auto simp: commutes_def tree_open_def split: option.splits tree_node.splits)
qed

lemma commutes_make_dir: "prefix root p \<or> strict_prefix p root \<Longrightarrow> commutes root (make_dir p)"
proof (cases "prefix root p")
  case False
  assume "prefix root p \<or> strict_prefix p root"
  then have p: "strict_prefix p root" using False by blast
  have "is_directory p w" if "tree_ok root (tree_out root w)" for w
  proof -
    have "is_directory p (tree_out root w)" using that p by (auto simp: tree_ok_def strict_prefix_def)
    then show ?thesis using False by (simp add: is_directory_def node_at_out)
  qed
  then show ?thesis using p by (simp add: commutes_def make_dir_def)
qed (auto simp: commutes_def make_dir_def split: option.splits)

lemma commutes_make_dirs: "\<forall>p \<in> set ps. prefix root p \<or> strict_prefix p root \<Longrightarrow> commutes root (make_dirs ps)"
proof (induction ps)
  case (Cons p ps)
  have "commutes root (make_dir p)" "commutes root (make_dirs ps)" using Cons commutes_make_dir by auto
  then show ?case by (auto simp: commutes_def split: prod.splits sum.splits)
qed (simp add: commutes_def)

lemma prefixes_comparable: "prefix root p \<Longrightarrow> q \<in> set (prefixes p) \<Longrightarrow> prefix root q \<or> strict_prefix q root"
  using prefix_same_cases [of q p root] by (auto simp: strict_prefix_def)


lemma prefixes_above: "strict_prefix p root \<Longrightarrow> tree_ok root (tree_out root w) \<Longrightarrow> make_dirs (prefixes p) w = (Ok (), w)"
proof -
  assume p: "strict_prefix p root" and ok: "tree_ok root (tree_out root w)"
  have "make_dir q w = (Ok (), w)" if "q \<in> set (prefixes p)" for q
  proof -
    have q: "strict_prefix q root" using that p by (meson in_set_prefixes prefix_order.le_less_trans)
    then have np: "\<not> prefix root q" using prefix_order.less_le_not_le by blast
    have "is_directory q (tree_out root w)" using ok q by (auto simp: tree_ok_def strict_prefix_def)
    then show ?thesis using np by (simp add: is_directory_def node_at_out make_dir_def)
  qed
  then have "\<forall>q \<in> set ps. make_dir q w = (Ok (), w) \<Longrightarrow> make_dirs ps w = (Ok (), w)" for ps
    by (induction ps) auto
  then show ?thesis using \<open>\<And>q. q \<in> set (prefixes p) \<Longrightarrow> make_dir q w = (Ok (), w)\<close> by blast
qed

lemma commutes_remove:
  "prefix root p \<Longrightarrow> commutes root (tree_remove_file p)" "prefix root p \<Longrightarrow> commutes root (tree_remove_dir p)"
  by (auto simp: commutes_def tree_remove_file_def tree_remove_dir_def split: option.splits tree_node.splits)

lemma move_path_below:
  assumes "prefix root p" and "prefix root q"
  shows "prefix root (move_path p q r) \<longleftrightarrow> prefix root r"
  using assms by (auto simp: move_path_def prefix_def)

lemma move_path_other: "prefix root p \<Longrightarrow> \<not> prefix root r \<Longrightarrow> move_path p q r = r"
  by (auto simp: move_path_def prefix_def)

lemma move_nodes:
  assumes "prefix root p" and "prefix root q"
  shows "filter (\<lambda>e. prefix root (fst e)) (map (map_prod (move_path p q) id) ns) = map (map_prod (move_path p q) id) (filter (\<lambda>e. prefix root (fst e)) ns)"
    and "filter (\<lambda>e. \<not> prefix root (fst e)) (map (map_prod (move_path p q) id) ns) = filter (\<lambda>e. \<not> prefix root (fst e)) ns"
    and "map (map_prod (move_path p q) id) (above root) = above root"
proof -
  show "filter (\<lambda>e. prefix root (fst e)) (map (map_prod (move_path p q) id) ns) = map (map_prod (move_path p q) id) (filter (\<lambda>e. prefix root (fst e)) ns)"
    by (induction ns) (auto simp: move_path_below [OF assms])
  show "filter (\<lambda>e. \<not> prefix root (fst e)) (map (map_prod (move_path p q) id) ns) = filter (\<lambda>e. \<not> prefix root (fst e)) ns"
    by (induction ns) (auto simp: move_path_below [OF assms] move_path_other [OF assms(1)])
  show "map (map_prod (move_path p q) id) (above root) = above root"
  proof (rule map_idI)
    fix e
    assume e: "e \<in> set (above root)"
    show "map_prod (move_path p q) id e = e" using above_below [OF e assms(1)] by (cases e) (simp add: move_path_def)
  qed
qed

lemma commutes_rename:
  assumes p: "prefix root p" and q: "prefix root q"
  shows "commutes root (tree_rename p q)"
proof -
  let ?move = "\<lambda>w. w\<lparr>tw_nodes := map (map_prod (move_path p q) id) (tw_nodes w)\<rparr>"
  have "tree_ins root (?move w) = ?move (tree_ins root w)" and "tree_out root (?move w) = tree_out root w" for w
    by (simp_all add: tree_ins_def tree_out_def move_nodes [OF assms])
  from this [of "del_node q _"] have
    "tree_ins root ((del_node q w)\<lparr>tw_nodes := map (map_prod (move_path p q) id) (tw_nodes (del_node q w))\<rparr>) =
       (del_node q (tree_ins root w))\<lparr>tw_nodes := map (map_prod (move_path p q) id) (tw_nodes (del_node q (tree_ins root w)))\<rparr>"
    "tree_out root ((del_node q w)\<lparr>tw_nodes := map (map_prod (move_path p q) id) (tw_nodes (del_node q w))\<rparr>) = tree_out root w" for w
    using q by simp_all
  moreover have "(del_node q w)\<lparr>tw_nodes := x\<rparr> = w\<lparr>tw_nodes := x\<rparr>" for w x by (simp add: del_node_def)
  ultimately show ?thesis using p q by (auto simp: commutes_def tree_rename_def split: option.splits tree_node.splits)
qed

lemma commutes_queries:
  assumes "prefix root p"
  shows "commutes root (\<lambda>w. (tree_metadata p w, w))" and "commutes root (\<lambda>w. (tree_read_dir p w, w))"
    and "commutes root (\<lambda>w. (is_directory p w, w))" and "commutes root (\<lambda>w. (node_at p w \<noteq> None, w))"
proof -
  show "commutes root (\<lambda>w. (tree_metadata p w, w))" "commutes root (\<lambda>w. (is_directory p w, w))" "commutes root (\<lambda>w. (node_at p w \<noteq> None, w))"
    using assms by (simp_all add: commutes_def tree_metadata_def)
  have none: "tree_entry p e = []" if "\<not> prefix p (fst e)" for e
    using that prefixeq_butlast [of "fst e"] by (auto simp: tree_entry_def)
  have "concat (map (tree_entry p) (filter (\<lambda>e. prefix root (fst e)) ns)) = concat (map (tree_entry p) ns)" for ns
    using assms none prefix_order.trans by (induction ns) fastforce+
  moreover have "concat (map (tree_entry p) (above root)) = []" using none above_below [OF _ assms] by (simp add: concat_eq_Nil_conv)
  ultimately show "commutes root (\<lambda>w. (tree_read_dir p w, w))"
    using assms by (simp add: commutes_def tree_read_dir_def tree_ins_def [of root] node_at_below [unfolded tree_ins_def])
qed

lemma commutes_files:
  assumes "prefix root (fst h)"
  shows "commutes root (tree_read h n)" and "commutes root (tree_write h bs)" and "commutes root (tree_seek h t)"
proof -
  show "commutes root (tree_read h n)" and "commutes root (tree_write h bs)"
    using assms by (auto simp: commutes_def tree_read_def tree_write_def Let_def split: option.splits tree_node.splits)
  show "commutes root (tree_seek h t)"
    using assms by (cases t) (simp_all add: commutes_def tree_seek_def Let_def)
qed

lemma tree_host_isolates: "host_isolates tree_host root fst (tree_ins root) (tree_out root) (tree_ok root)"
  unfolding host_isolates_def
proof (intro conjI allI impI)
  fix p opts w h w'
  assume "host_open tree_host p opts w = (Ok h, w')"
  then show "fst h = p" by (auto simp: tree_host_def tree_open_def new_file_def Let_def split: if_splits option.splits tree_node.splits)
next
  fix p w
  assume "strict_prefix p root \<and> tree_ok root (tree_out root w)"
  then show "host_create_dir_all tree_host p w = (Ok (), w)" using prefixes_above [of p root w] by (simp add: tree_host_def)
next
  fix p
  assume "prefix root p"
  then show "isolated (tree_ins root) (tree_out root) (tree_ok root) (host_create_dir_all tree_host p)"
    using commutes_isolated [OF commutes_make_dirs [of "prefixes p" root]] prefixes_comparable [of root p] by (simp add: tree_host_def)
qed (auto simp: tree_host_def intro: commutes_isolated commutes_open commutes_remove commutes_rename commutes_queries commutes_files
      commutes_queries [of root "fst _"] simp del: not_None_eq simp: commutes_def [of root "\<lambda>w. (Ok (), w)"])



text \<open>A small machine: a sandbox with one file, next to a file that is not in it.\<close>

definition demo_root :: PathBuf where
  "demo_root = [RootDir, NormalName (ascii ''box'')]"

definition demo_world :: "u8 list \<Rightarrow> tree_world" where
  "demo_world secret = \<lparr>tw_nodes = [([RootDir], NodeDir), (demo_root, NodeDir), (demo_root @ [NormalName (ascii ''a'')], NodeFile [1, 2]),
     ([RootDir, NormalName (ascii ''s'')], NodeFile secret)], tw_offsets = []\<rparr>"

lemma demo_world_simps [simp]:
  "tree_ok demo_root (tree_out demo_root (demo_world x))" "tree_ins demo_root (demo_world x) = tree_ins demo_root (demo_world y)"
  by (simp_all add: tree_ok_def tree_ins_def tree_out_def demo_world_def demo_root_def is_directory_def node_at_def ascii_def)


text \<open>
  C27. The storage quota holds. Whatever calls a guest makes, the bytes its writes have stored are at
  most the total its permissions allow, and are what the counter of the sandbox says.
\<close>

theorem storage_quota:
  assumes "writes_at_most H" and "0 < max_total_size (fc_permissions c)" and "max_total_size (fc_permissions c) < 2 ^ 63"
    and "\<forall>call \<in> set calls. write_size call < 2 ^ 63" and "guest_run H calls (FilesystemState_new c) w = (answers, s, v)"
  shows "written calls answers \<le> max_total_size (fc_permissions c) \<and> fs_total_written s = written calls answers"
  using guest_run_total [OF assms(1-4) _ _ assms(5)] by (simp add: FilesystemState_new_def)

theorem storage_quota_witness:
  "let c = with_permissions (FsPermissions_default\<lparr>max_total_size := 3\<rparr>) (FsConfig_with_root demo_root);
       calls = [GOpen (ascii ''a'') 2, GWrite 3 [5, 6], GWrite 3 [7, 8]]
   in written calls (fst (guest_run tree_host calls (FilesystemState_new c) (demo_world []))) \<le> 3"
proof -
  let ?c = "with_permissions (FsPermissions_default\<lparr>max_total_size := 3\<rparr>) (FsConfig_with_root demo_root)"
  let ?calls = "[GOpen (ascii ''a'') 2, GWrite 3 [5, 6], GWrite 3 [7, 8]]"
  obtain a s v where r: "guest_run tree_host ?calls (FilesystemState_new ?c) (demo_world []) = (a, s, v)" by (metis prod_cases3)
  have "writes_at_most tree_host"
    by (auto simp: writes_at_most_def tree_host_def tree_write_def Let_def split: option.splits tree_node.splits)
  from storage_quota [OF this _ _ _ r] show ?thesis unfolding Let_def r by (simp add: with_permissions_def)
qed

lemma tree_host_reads: "host_reads tree_host tw_nodes"
  by (auto simp: host_reads_def tree_host_def tree_read_def tree_seek_def tree_open_def new_file_def put_offset_def bad_options_def Let_def
      split: option.splits tree_node.splits)

text \<open>
  C26. A guest without the permissions to write, create and delete changes no file. This holds for every
  sequence of calls in which no file is opened with the flag for exclusive creation, which is
  not checked against the permissions.
\<close>

theorem read_only_guest:
  assumes "host_reads H files" and "\<not> can_write (fc_permissions c)" and "\<not> can_create (fc_permissions c)" and "\<not> can_delete (fc_permissions c)"
    and "\<forall>call \<in> set calls. \<not> exclusive_call call" and "guest_run H calls (FilesystemState_new c) w = (answers, s, v)"
  shows "files v = files w"
proof -
  have "files v = files w" if "reader s0" "\<forall>call \<in> set calls. \<not> exclusive_call call" "guest_run H calls s0 w = (answers, s, v)" for s0
    using that
  proof (induction calls arbitrary: s0 w answers)
    case (Cons d ds)
    then show ?case using reader_step [OF assms(1) Cons.prems(1), of d w] by (fastforce split: prod.splits)
  qed simp
  moreover have "reader (FilesystemState_new c)" using assms(2-4) by (simp add: reader_def FilesystemState_new_def)
  ultimately show ?thesis using assms(5,6) by blast
qed

theorem read_only_guest_witness:
  "let calls = [GOpen (ascii ''a'') 1, GRead 3 2, GOpen (ascii ''b'') 6, GRemoveFile (ascii ''a''), GRename (ascii ''a'') (ascii ''b'')]
   in tw_nodes (snd (snd (guest_run tree_host calls (FilesystemState_new (with_permissions FsPermissions_read_only (FsConfig_with_root demo_root))) (demo_world [])))) =
      tw_nodes (demo_world [])"
proof -
  let ?calls = "[GOpen (ascii ''a'') 1, GRead 3 2, GOpen (ascii ''b'') 6, GRemoveFile (ascii ''a''), GRename (ascii ''a'') (ascii ''b'')]"
  let ?c = "with_permissions FsPermissions_read_only (FsConfig_with_root demo_root)"
  obtain a s v where r: "guest_run tree_host ?calls (FilesystemState_new ?c) (demo_world []) = (a, s, v)" by (metis prod_cases3)
  from read_only_guest [OF tree_host_reads _ _ _ _ r] show ?thesis
    unfolding Let_def r by (simp add: with_permissions_def FsPermissions_read_only_def has_exclusive_def)
qed

text \<open>
  The flag for exclusive creation bypasses the permissions. A guest with read-only permissions that
  opens a path where nothing exists with the flags for appending and exclusive creation creates a file.
\<close>

theorem exclusive_creates:
  assumes "resolve_path c path = Ok p" and "node_at p w = None" and "is_directory (butlast p) w" and "0 < fc_max_open_files c"
  shows "\<exists>s v. fs_open tree_host path 48 (FilesystemState_new (with_permissions FsPermissions_read_only c)) w = (Ok 3, s, v) \<and>
    node_at p v = Some (NodeFile [])"
proof -
  have "resolve_path (with_permissions FsPermissions_read_only c) path = resolve_path c path" by (simp add: resolve_path_def with_permissions_def)
  then have "resolve_path (with_permissions FsPermissions_read_only c) path = Ok p" using assms(1) by simp
  then show ?thesis using assms(2-4)
    by (simp add: fs_open_def FilesystemState_new_def create_parent_def tree_host_def tree_open_def open_options_def bad_options_def
        has_read_def has_write_def has_create_def has_truncate_def has_append_def has_exclusive_def new_file_def Let_def
        with_permissions_def put_offset_def node_at_def put_node_def)
qed

theorem exclusive_creates_witness:
  "\<exists>s v. fs_open tree_host (ascii ''n'') 48 (FilesystemState_new (with_permissions FsPermissions_read_only (FsConfig_with_root demo_root))) (demo_world []) = (Ok 3, s, v) \<and>
     node_at (demo_root @ [NormalName (ascii ''n'')]) v = Some (NodeFile [])"
  by (rule exclusive_creates)
     (simp_all add: FsConfig_with_root_def FsConfig_default_def resolve_path_def components_def piece_def path_push_def path_starts_with_def
        node_at_def is_directory_def demo_world_def demo_root_def ascii_def Let_def)

text \<open>
  Appending bypasses the limit on the size of a file. The position of a file opened for appending
  starts at zero although its writes go to the end, so a write is accepted that makes the file
  larger than the limit.
\<close>

theorem append_exceeds_limit:
  "let c = with_permissions (FsPermissions_default\<lparr>max_file_size := 3\<rparr>) (FsConfig_with_root demo_root);
       (answers, s, v) = guest_run tree_host [GOpen (ascii ''a'') 18, GWrite 3 [3, 4], GFileSize 3] (FilesystemState_new c) (demo_world [])
   in answers = [AnsNat (Ok 3), AnsNat (Ok 2), AnsNat (Ok 4)]"
  by (simp add: Let_def FsConfig_with_root_def FsConfig_default_def with_permissions_def FsPermissions_default_def FilesystemState_new_def
        fs_open_def fs_write_def fs_file_size_def write_limits_def create_parent_def tree_host_def tree_open_def tree_write_def tree_metadata_def
        node_metadata_def open_options_def bad_options_def new_file_def put_file_def put_node_def put_offset_def map_err_def
        has_read_def has_write_def has_create_def has_truncate_def has_append_def has_exclusive_def
        resolve_path_def components_def piece_def path_push_def path_starts_with_def node_at_def demo_world_def demo_root_def ascii_def no_wrap)

end
