(* ===== verification/Spec2Isabelle.thy ===== *)
theory Spec2Isabelle
  imports Memory_Correct Percpu_Correct Pool_Correct Interrupt_Correct Timer_Correct LockFree_Conc Ipc_Correct Vmm_Correct Coap_Exchange Heap_Conc
    Rt_Correct Recovery Dht_Correct Election_Correct Mqttsn_Correct Ack_Manager Ack_Delivery Wire_Queue_Correct Wasm_Fs_Host
begin

text \<open>
  A verification development for MielinOS, a system for agents that move between machines: a kernel
  (\<open>src/mielin-kernel\<close>), a runtime for small devices (\<open>src/mielin-rt\<close>), a mesh network
  (\<open>src/mielin-mesh\<close>), the agents and their migration (\<open>src/mielin-cells\<close>) and a host for
  WebAssembly code (\<open>src/mielin-wasm\<close>). The development models the parts of it that keep a state of
  their own and states what makes them correct. This theory only collects the others.

  \<^bold>\<open>The kernel.\<close> The page allocator hands out physical pages; the virtual memory manager builds page tables
  in them; pools and a bump region make up the heap. The scheduler runs tasks, one scheduler for each
  processor with a load balancer between them; the timer wakes sleeping tasks from its interrupt; the
  real-time module adds mutexes and deadlines. Processors communicate by message queues and barriers.
  \<^item> \<open>Memory\<close>, \<open>Memory_Lists\<close>, \<open>Memory_Inv\<close>, \<open>Memory_Correct\<close>: \<open>memory.rs\<close>, \<open>MemoryManager\<close> with the free
    list embedded in an array. Every reachable state is well formed and fully coalesced, every walk over the
    list returns, and allocation and release do what they promise on every branch. The locale
    \<open>page_allocator\<close> is the contract for its clients, interpreted on the model.
  \<^item> \<open>Vmm\<close>, \<open>Vmm_Tree\<close>, \<open>Vmm_Correct\<close>: \<open>vmm.rs\<close>, four-level tables as words of physical pages, over the page
    allocator of \<open>Memory\<close>. Mapping, unmapping, copy-on-write and demand faults change one translation
    and no other, in one address space and in no other.
  \<^item> \<open>Pool\<close>, \<open>Pool_Correct\<close>: \<open>pool.rs\<close>, free lists threaded through the blocks; locale \<open>resource_pool\<close>.
  \<^item> \<open>Heap\<close>, \<open>Heap_Correct\<close>, \<open>Heap_Conc\<close>: \<open>heap.rs\<close> over the pools. Blocks in use never overlap and keep
    their contents; concurrent bump allocations are safe and end; the ways in which the heap breaks.
  \<^item> \<open>Scheduler\<close>, \<open>Scheduler_Correct\<close>: \<open>scheduler.rs\<close>; \<open>Percpu\<close>, \<open>Percpu_Correct\<close>: \<open>percpu.rs\<close>, one scheduler
    and one set of pools for each processor, and the moving of tasks between them.
  \<^item> \<open>Interrupt\<close>, \<open>Interrupt_Correct\<close>: \<open>interrupt.rs\<close>; \<open>Timer\<close>, \<open>Timer_Correct\<close>: \<open>timer.rs\<close>, whose
    operations act on interrupts, timer and scheduler together.
  \<^item> \<open>Rt\<close>, \<open>Rt_Correct\<close>: \<open>rt.rs\<close>, mutual exclusion and priority inheritance over the scheduler under every
    interleaving, and the earliest deadline first queue.
  \<^item> \<open>Fifo\<close>: the interface of queues and stacks (locales \<open>container_impl\<close>, \<open>fifo_impl\<close>);
    \<open>LockFree\<close>, \<open>LockFree_Correct\<close>, \<open>LockFree_Conc\<close>: \<open>lockfree.rs\<close>, whose structures implement it when run
    alone, and their interleavings; \<open>Ipc\<close>, \<open>Ipc_Correct\<close>: \<open>ipc.rs\<close>, whose queues implement it too, and the
    barrier.

  \<^bold>\<open>The device runtime.\<close> Two protocols over the containers of the \<open>heapless\<close> crate, whose interface is the theory \<open>Heapless\<close>.
  \<^item> \<open>Coap\<close>, \<open>Coap_Codec\<close>, \<open>Coap_Exchange\<close>: \<open>coap.rs\<close>. Decoding is total and inverts encoding; a request reaches
    its resource and its answer the client.
  \<^item> \<open>Codec\<close>, \<open>Mqttsn\<close>, \<open>Mqttsn_Correct\<close>: the contract of a message codec (locale \<open>message_codec\<close>) and \<open>mqttsn.rs\<close>,
    which meets it; the message identifiers of the client.

  \<^bold>\<open>The mesh.\<close>
  \<^item> \<open>Dht\<close>, \<open>Dht_Correct\<close>: \<open>core/src/dht.rs\<close>, the XOR metric, nearest peers and the iterative lookup.
  \<^item> \<open>Ack\<close>, \<open>Ack_Manager\<close>, \<open>Ack_Delivery\<close>: \<open>wire/src/ack.rs\<close>. The manager refines the tracker and calls each callback once; two
    trackers over an unreliable network deliver every message at most once, under a condition on the
    duplicate window that is shown to be necessary.
  \<^item> \<open>Wire_Queue\<close>, \<open>Wire_Queue_Correct\<close>: \<open>wire/src/priority.rs\<close>. Both stores of the queue meet the locale
    \<open>message_store\<close>, so that the queue refines one list of messages whichever is configured.

  \<^bold>\<open>The agents.\<close>
  \<^item> \<open>Migration\<close>, \<open>Migration_Correct\<close>, \<open>Recovery\<close>: \<open>migration/functions.rs\<close>, \<open>types/delta.rs\<close>, \<open>types/recovery.rs\<close>. Compression is
    inverted, a chain of deltas reproduces the last state, and recovery gives up after a bounded number of attempts.
  \<^item> \<open>Election\<close>, \<open>Election_Correct\<close>: \<open>ha/leader.rs\<close>, \<open>ha/quorum.rs\<close>. At most one majority in a term when calls are handled one at a
    time, how the code violates this otherwise, and quorum decisions.

  \<^bold>\<open>The WebAssembly host.\<close>
  \<^item> \<open>Wasm_Fs\<close>, \<open>Wasm_Fs_Correct\<close>, \<open>Wasm_Fs_Host\<close>: \<open>filesystem.rs\<close>. Whatever a guest does, nothing outside the sandbox changes or
    influences what it sees; permissions and quotas; two ways around them. The machine is a parameter, and
    a tree of files is shown to satisfy what is assumed of it.

  \<^bold>\<open>Conventions.\<close> A struct is a \<open>record\<close> with the fields of the source under a short prefix, an enum a datatype; where two
  modules use one name, it carries a prefix or the name of its type (\<open>MqttsnMessage_encode\<close>, \<open>am_process_ack\<close>). A call that may panic or not
  return has an option as its result, with \<open>None\<close> for that; \<open>Result\<close> is a sum type. Words keep their width where their bits matter;
  sizes, indices and times are natural numbers with the wrap-around written out by \<open>usize_add\<close> and its like, and the
  collection \<open>no_wrap\<close> holds the conditions under which it does not occur. A hash map is the list of its entries in the order of its
  iteration, or a map with that order as an argument; no theorem depends on the order. Clock readings, spurious failures of
  compare-exchange, handlers, hooks, the LZ4 and Zstd codecs and the file system of the machine are arguments, with what is relied
  on stated as hypotheses, each met by a concrete instance in the witness of its theorem. Floating point numbers that decide something
  are exact rationals.

  \<^bold>\<open>Concurrency.\<close> Code that runs concurrently is a datatype of control points with a step function that makes one atomic access; a
  theorem on interleavings quantifies over all sequences of steps, on sequentially consistent memory. Weaker orderings are not
  modelled. Code behind a lock is one step.

  \<^bold>\<open>Loops and fuel.\<close> No model uses fuel. Loops over data are structural recursions or have a termination proof. The walks of the page
  allocator are partial functions and are proved to return on every reachable state; the retry loops of pools and lock-free structures are
  bounded as in the source or are sequences of steps, whose number is bounded in the theorems. Bounds such as \<open>2 ^ 63\<close> bytes in the hypotheses are those of
  Rust's own types.

  \<^bold>\<open>Faults of the sources.\<close> Where the code does not do what it means to, the theory of the component proves that it does not: for example
  reused heap blocks, use after free in the linked structures, the shared flag of page entries, the double vote, the clean session flag,
  the duplicate window of the high reliability configuration, and the creation of files by read-only guests.

  \<^bold>\<open>Not modelled.\<close> Instructions and device registers (the hardware layer, device drivers, power management, start-up code); floating point
  computations whose results are estimates (the tensor library, load scores, battery and energy models); wrappers of third-party engines
  and of the asynchronous runtime (the WebAssembly engine, transports, certificates, the executor); terminal, file and network access of the
  command line; counters, traces and metrics that no part reads back. Firmware update and key storage of the device runtime simulate their
  hardware. Of the mesh and the agents the remaining services (gossip, regions, tenants, discovery, policies, groups, orchestration) are tables
  behind locks of an asynchronous runtime, with clocks and serialisation crates, and are not translated here.
\<close>

end
